(* ===== verification/Prelude.thy ===== *)
theory Prelude
  imports Main "HOL-Library.Word"
begin

text \<open>
  The prelude: the machine integers of the C code, the library error codes, the two result
  types every model of a C function returns, the outcome of memory allocations, the big-endian
  byte codec, and the facts about words and lists that the component theories share.

  \<^item> A pure C function that can fail or assert returns an \<open>'a res\<close>: \<open>Ok\<close> the value, \<open>Err\<close> the
    negative error code, or \<open>Abort\<close> for a failed \<open>assert\<close>, \<open>dwnx_unreachable()\<close> or an access
    outside a buffer.
  \<^item> A C function that mutates a state returns an \<open>('s, 'a) sres\<close>, which also carries the state
    at the return, because the code returns errors after it has mutated its arguments.
\<close>

unbundle bit_operations_syntax

section \<open>Machine integers\<close>

type_synonym u8 = "8 word"
type_synonym u16 = "16 word"
type_synonym u32 = "32 word"
type_synonym u64 = "64 word"

text \<open>A byte buffer is the list of its bytes; a pointer into it is the list's suffix.\<close>

type_synonym bytes = "u8 list"

text \<open>An \<open>int64_t\<close> is an \<open>int\<close>; the casts from and to \<open>uint64_t\<close> are written out.\<close>

type_synonym i64 = int

definition i64_of_u64 :: "u64 \<Rightarrow> i64" where
  "i64_of_u64 w = sint w"

definition u64_of_i64 :: "i64 \<Rightarrow> u64" where
  "u64_of_i64 i = word_of_int i"

definition UINT64_MAX :: u64 where
  "UINT64_MAX = 0xFFFFFFFFFFFFFFFF"

definition DWNX_MAX_VARINT :: u64 where
  "DWNX_MAX_VARINT = 0x3FFFFFFFFFFFFFFF"

definition DWNX_DEFAULT_MAX_RECORD_SIZE :: nat where
  "DWNX_DEFAULT_MAX_RECORD_SIZE = 16382"

definition DWNX_MILLISECONDS :: u64 where
  "DWNX_MILLISECONDS = 1000000"

definition DWNX_SECONDS :: u64 where
  "DWNX_SECONDS = 1000000000"

section \<open>Library errors and results\<close>

datatype liberr =
    ERR_INVALID_ARGUMENT | ERR_NOBUF | ERR_PROTO | ERR_INVALID_STATE | ERR_STREAM_ID_BLOCKED
  | ERR_STREAM_IN_USE | ERR_STREAM_DATA_BLOCKED | ERR_FLOW_CONTROL | ERR_STREAM_LIMIT
  | ERR_FINAL_SIZE | ERR_REQUIRED_TRANSPORT_PARAM | ERR_MALFORMED_TRANSPORT_PARAM
  | ERR_FRAME_ENCODING | ERR_STREAM_SHUT_WR | ERR_STREAM_NOT_FOUND | ERR_STREAM_STATE
  | ERR_CLOSING | ERR_DRAINING | ERR_TRANSPORT_PARAM | ERR_INTERNAL | ERR_WRITE_MORE
  | ERR_IDLE_CLOSE | ERR_NOMEM | ERR_CALLBACK_FAILURE

datatype 'a res = Ok 'a | Err liberr | Abort

text \<open>\<open>rv = f(...); if (rv != 0) return rv;\<close> and then the rest of the function.\<close>

fun bindr :: "'a res \<Rightarrow> ('a \<Rightarrow> 'b res) \<Rightarrow> 'b res" where
  "bindr (Ok x) f = f x"
| "bindr (Err e) f = Err e"
| "bindr Abort f = Abort"

text \<open>\<open>assert(b)\<close> and then the rest of the function.\<close>

definition assertr :: "bool \<Rightarrow> 'a res \<Rightarrow> 'a res" where
  "assertr b r = (if b then r else Abort)"

datatype ('s, 'a) sres = SOk 'a 's | SErr liberr 's | SAbort

fun sbind :: "('s, 'a) sres \<Rightarrow> ('a \<Rightarrow> 's \<Rightarrow> ('s, 'b) sres) \<Rightarrow> ('s, 'b) sres" where
  "sbind (SOk x s) f = f x s"
| "sbind (SErr e s) f = SErr e s"
| "sbind SAbort f = SAbort"

definition sassert :: "bool \<Rightarrow> ('s, 'a) sres \<Rightarrow> ('s, 'a) sres" where
  "sassert b r = (if b then r else SAbort)"

lemma assertr_True [simp]: "assertr True r = r"
  by (simp add: assertr_def)

lemma assertr_False [simp]: "assertr False r = Abort"
  by (simp add: assertr_def)

lemma sassert_True [simp]: "sassert True r = r"
  by (simp add: sassert_def)

lemma sassert_False [simp]: "sassert False r = SAbort"
  by (simp add: sassert_def)

lemma bindr_eq_Ok: "bindr m f = Ok y \<longleftrightarrow> (\<exists>x. m = Ok x \<and> f x = Ok y)"
  by (cases m) auto

lemma bindr_eq_Err: "bindr m f = Err e \<longleftrightarrow> m = Err e \<or> (\<exists>x. m = Ok x \<and> f x = Err e)"
  by (cases m) auto

lemma bindr_eq_Abort: "bindr m f = Abort \<longleftrightarrow> m = Abort \<or> (\<exists>x. m = Ok x \<and> f x = Abort)"
  by (cases m) auto

lemma sbind_eq_SOk: "sbind m f = SOk y s \<longleftrightarrow> (\<exists>x s'. m = SOk x s' \<and> f x s' = SOk y s)"
  by (cases m) auto

lemma sbind_eq_SAbort:
  "sbind m f = SAbort \<longleftrightarrow> m = SAbort \<or> (\<exists>x s'. m = SOk x s' \<and> f x s' = SAbort)"
  by (cases m) auto

section \<open>Memory allocation\<close>

text \<open>
  The allocator is supplied by the application (\<open>dwnx_mem\<close> in \<open>dwnx.h\<close>). The model keeps the
  outcomes of the allocations to come: the next one fails when the head is \<open>False\<close>, and once
  the list is empty every allocation succeeds.
\<close>

type_synonym dwnx_mem = "bool list"

fun mem_alloc :: "dwnx_mem \<Rightarrow> bool \<times> dwnx_mem" where
  "mem_alloc [] = (True, [])"
| "mem_alloc (b # m) = (b, m)"

section \<open>Big-endian byte strings\<close>

text \<open>The \<open>k\<close> low bytes of a word, most significant first, and back.\<close>

fun be_bytes :: "nat \<Rightarrow> 'a::len word \<Rightarrow> bytes" where
  "be_bytes 0 w = []"
| "be_bytes (Suc k) w = be_bytes k (drop_bit 8 w) @ [ucast w]"

definition be_word :: "bytes \<Rightarrow> 'a::len word" where
  "be_word bs = foldl (\<lambda>acc b. push_bit 8 acc OR ucast b) 0 bs"

lemma length_be_bytes [simp]: "length (be_bytes k w) = k"
  by (induction k arbitrary: w) auto

lemma be_word_Nil [simp]: "be_word [] = 0"
  by (simp add: be_word_def)

lemma be_word_snoc: "be_word (bs @ [b]) = push_bit 8 (be_word bs) OR ucast b"
  by (simp add: be_word_def)

lemma be_word_be_bytes:
  fixes w :: "'a::len word"
  shows "(be_word (be_bytes k w) :: 'a word) = take_bit (8 * k) w"
proof (induction k arbitrary: w)
  case 0
  show ?case by simp
next
  case (Suc k)
  have "(be_word (be_bytes (Suc k) w) :: 'a word)
        = push_bit 8 (take_bit (8 * k) (drop_bit 8 w)) OR ucast (ucast w :: u8)"
    by (simp add: be_word_snoc Suc.IH)
  also have "\<dots> = take_bit (8 * Suc k) w"
    by (rule bit_word_eqI) (auto simp: bit_simps)
  finally show ?case .
qed

text \<open>A bit of the value is a bit of one of the bytes, whatever the width of the word.\<close>

lemma bit_be_word:
  "bit (be_word bs :: 'a::len word) n \<longleftrightarrow>
     n < LENGTH('a) \<and> n < 8 * length bs \<and> bit (rev bs ! (n div 8)) (n mod 8)"
proof (induction bs arbitrary: n rule: rev_induct)
  case Nil
  show ?case by simp
next
  case (snoc b bs)
  show ?case
  proof (cases "n < 8")
    case True
    then show ?thesis by (auto simp: be_word_snoc bit_simps)
  next
    case False
    then obtain m where m: "n = m + 8"
      by (metis add.commute le_Suc_ex not_less)
    have "(m + 8) div 8 = Suc (m div 8)" by simp
    then show ?thesis
      using bit_imp_le_length [of b "m + 8"]
      by (auto simp: be_word_snoc m snoc.IH bit_simps simp del: div_add_self2)
  qed
qed

lemma bit_be_word_Cons:
  assumes "8 * length bs < LENGTH('a::len)"
  shows "bit (be_word (b # bs) :: 'a word) n \<longleftrightarrow> n < LENGTH('a) \<and>
    (if n < 8 * length bs then bit (be_word bs :: 'a word) n else bit b (n - 8 * length bs))"
proof -
  consider (low) "n < 8 * length bs" | (top) "8 * length bs \<le> n" "n < 8 * length bs + 8"
    | (out) "8 * length bs + 8 \<le> n"
    by linarith
  then show ?thesis
  proof cases
    case low
    then have "n div 8 < length bs" by simp
    with low assms show ?thesis by (simp add: bit_be_word nth_append)
  next
    case top
    then have "n div 8 = length bs" "n mod 8 = n - 8 * length bs"
      by (simp_all add: Suc_le_eq div_nat_eqI modulo_nat_def)
    with top show ?thesis by (simp add: bit_be_word nth_append)
  next
    case out
    then show ?thesis
      using bit_imp_le_length [of b "n - 8 * length bs"] by (auto simp: bit_be_word)
  qed
qed

lemma ucast_be_word:
  assumes "8 * length bs \<le> LENGTH('a::len)" "8 * length bs \<le> LENGTH('b::len)"
  shows "(ucast (be_word bs :: 'a word) :: 'b word) = be_word bs"
  using assms by (intro bit_word_eqI) (auto simp: bit_simps bit_be_word)

lemma be_word_zeros: "(be_word (replicate k 0 @ bs) :: 'a::len word) = be_word bs"
proof (induction bs rule: rev_induct)
  case Nil
  have "(be_word (replicate k 0) :: 'a word) = 0"
  proof (induction k)
    case (Suc k)
    have "replicate (Suc k) (0 :: u8) = replicate k 0 @ [0]"
      by (simp add: replicate_append_same)
    with Suc.IH show ?case by (simp only: be_word_snoc) simp
  qed simp
  then show ?case by simp
next
  case (snoc b bs)
  then show ?case
    by (simp add: be_word_snoc flip: append_assoc)
qed

section \<open>Words\<close>

text \<open>
  Facts about unsigned arithmetic in the shape the code's guards have: a check on a difference
  makes the sum exact.
\<close>

lemma word_sum_exact:
  fixes a b n :: "'a::len word"
  assumes "a \<le> b" "n \<le> b - a"
  shows "a + n \<le> b" and "a \<le> a + n"
  using assms by unat_arith+

lemma word_sum_exact_unat:
  fixes a b n :: "'a::len word"
  assumes "a \<le> b" "n \<le> b - a"
  shows "unat (a + n) = unat a + unat n"
  using assms by unat_arith

lemma unat_u64_less: "unat (w :: u64) < 2 ^ 64"
proof -
  have "unat w < 2 ^ LENGTH(64)" by (rule unsigned_less)
  then show ?thesis by simp
qed

lemma unat_u64_le: "unat (w :: u64) \<le> 2 ^ 64 - 1"
  using unat_u64_less [of w] by simp

lemma unat_le_max_varint: "n \<le> DWNX_MAX_VARINT \<longleftrightarrow> unat n < 2 ^ 62"
  by (simp add: DWNX_MAX_VARINT_def word_le_nat_alt) arith

end
