(* ===== verification/Err.thy ===== *)
theory Err
  imports Prelude
begin

text \<open>
  \<open>lib/dwnx_err.c\<close>: the names of the library errors, which of them are fatal, and the QUIC
  transport error code that an error closes the connection with. \<open>liberr_code\<close> gives the numbers
  of \<open>dwnx.h\<close>, which the functions of \<open>dwnx_err.c\<close> take.
\<close>

section \<open>Error numbers\<close>

primrec liberr_code :: "liberr \<Rightarrow> int" where
  "liberr_code ERR_INVALID_ARGUMENT = -201"
| "liberr_code ERR_NOBUF = -202"
| "liberr_code ERR_PROTO = -203"
| "liberr_code ERR_INVALID_STATE = -204"
| "liberr_code ERR_STREAM_ID_BLOCKED = -206"
| "liberr_code ERR_STREAM_IN_USE = -207"
| "liberr_code ERR_STREAM_DATA_BLOCKED = -208"
| "liberr_code ERR_FLOW_CONTROL = -209"
| "liberr_code ERR_STREAM_LIMIT = -211"
| "liberr_code ERR_FINAL_SIZE = -212"
| "liberr_code ERR_REQUIRED_TRANSPORT_PARAM = -215"
| "liberr_code ERR_MALFORMED_TRANSPORT_PARAM = -216"
| "liberr_code ERR_FRAME_ENCODING = -217"
| "liberr_code ERR_STREAM_SHUT_WR = -219"
| "liberr_code ERR_STREAM_NOT_FOUND = -220"
| "liberr_code ERR_STREAM_STATE = -221"
| "liberr_code ERR_CLOSING = -223"
| "liberr_code ERR_DRAINING = -224"
| "liberr_code ERR_TRANSPORT_PARAM = -225"
| "liberr_code ERR_INTERNAL = -228"
| "liberr_code ERR_WRITE_MORE = -230"
| "liberr_code ERR_IDLE_CLOSE = -238"
| "liberr_code ERR_NOMEM = -501"
| "liberr_code ERR_CALLBACK_FAILURE = -502"

definition DWNX_ERR_FATAL :: int where
  "DWNX_ERR_FATAL = -500"

lemma liberr_code_inject [simp]: "liberr_code a = liberr_code b \<longleftrightarrow> a = b"
  by (cases a; cases b) simp_all

lemma liberr_code_nonzero [simp]: "liberr_code e \<noteq> 0" and liberr_code_neg: "liberr_code e < 0"
  by (cases e; simp)+

definition dwnx_strerror :: "int \<Rightarrow> string" where
  "dwnx_strerror liberr =
     (if liberr = 0 then ''NO_ERROR''
      else if liberr = liberr_code ERR_INVALID_ARGUMENT then ''ERR_INVALID_ARGUMENT''
      else if liberr = liberr_code ERR_NOBUF then ''ERR_NOBUF''
      else if liberr = liberr_code ERR_PROTO then ''ERR_PROTO''
      else if liberr = liberr_code ERR_INVALID_STATE then ''ERR_INVALID_STATE''
      else if liberr = liberr_code ERR_STREAM_ID_BLOCKED then ''ERR_STREAM_ID_BLOCKED''
      else if liberr = liberr_code ERR_STREAM_IN_USE then ''ERR_STREAM_IN_USE''
      else if liberr = liberr_code ERR_STREAM_DATA_BLOCKED then ''ERR_STREAM_DATA_BLOCKED''
      else if liberr = liberr_code ERR_FLOW_CONTROL then ''ERR_FLOW_CONTROL''
      else if liberr = liberr_code ERR_STREAM_LIMIT then ''ERR_STREAM_LIMIT''
      else if liberr = liberr_code ERR_FINAL_SIZE then ''ERR_FINAL_SIZE''
      else if liberr = liberr_code ERR_NOMEM then ''ERR_NOMEM''
      else if liberr = liberr_code ERR_REQUIRED_TRANSPORT_PARAM then ''ERR_REQUIRED_TRANSPORT_PARAM''
      else if liberr = liberr_code ERR_MALFORMED_TRANSPORT_PARAM then ''ERR_MALFORMED_TRANSPORT_PARAM''
      else if liberr = liberr_code ERR_FRAME_ENCODING then ''ERR_FRAME_ENCODING''
      else if liberr = liberr_code ERR_STREAM_SHUT_WR then ''ERR_STREAM_SHUT_WR''
      else if liberr = liberr_code ERR_STREAM_NOT_FOUND then ''ERR_STREAM_NOT_FOUND''
      else if liberr = liberr_code ERR_STREAM_STATE then ''ERR_STREAM_STATE''
      else if liberr = liberr_code ERR_CLOSING then ''ERR_CLOSING''
      else if liberr = liberr_code ERR_DRAINING then ''ERR_DRAINING''
      else if liberr = liberr_code ERR_TRANSPORT_PARAM then ''ERR_TRANSPORT_PARAM''
      else if liberr = liberr_code ERR_CALLBACK_FAILURE then ''ERR_CALLBACK_FAILURE''
      else if liberr = liberr_code ERR_INTERNAL then ''ERR_INTERNAL''
      else if liberr = liberr_code ERR_WRITE_MORE then ''ERR_WRITE_MORE''
      else if liberr = liberr_code ERR_IDLE_CLOSE then ''ERR_IDLE_CLOSE''
      else ''(unknown)'')"

definition dwnx_err_is_fatal :: "int \<Rightarrow> bool" where
  "dwnx_err_is_fatal liberr \<longleftrightarrow> liberr < DWNX_ERR_FATAL"

section \<open>Transport error codes\<close>

abbreviation DWNX_NO_ERROR :: u64 where "DWNX_NO_ERROR \<equiv> 0x0"
abbreviation DWNX_INTERNAL_ERROR :: u64 where "DWNX_INTERNAL_ERROR \<equiv> 0x1"
abbreviation DWNX_FLOW_CONTROL_ERROR :: u64 where "DWNX_FLOW_CONTROL_ERROR \<equiv> 0x3"
abbreviation DWNX_STREAM_LIMIT_ERROR :: u64 where "DWNX_STREAM_LIMIT_ERROR \<equiv> 0x4"
abbreviation DWNX_STREAM_STATE_ERROR :: u64 where "DWNX_STREAM_STATE_ERROR \<equiv> 0x5"
abbreviation DWNX_FINAL_SIZE_ERROR :: u64 where "DWNX_FINAL_SIZE_ERROR \<equiv> 0x6"
abbreviation DWNX_FRAME_ENCODING_ERROR :: u64 where "DWNX_FRAME_ENCODING_ERROR \<equiv> 0x7"
abbreviation DWNX_TRANSPORT_PARAMETER_ERROR :: u64 where "DWNX_TRANSPORT_PARAMETER_ERROR \<equiv> 0x8"
abbreviation DWNX_PROTOCOL_VIOLATION :: u64 where "DWNX_PROTOCOL_VIOLATION \<equiv> 0xA"

definition dwnx_err_infer_quic_transport_error_code :: "int \<Rightarrow> u64" where
  "dwnx_err_infer_quic_transport_error_code liberr =
     (if liberr = 0 then DWNX_NO_ERROR
      else if liberr = liberr_code ERR_FRAME_ENCODING then DWNX_FRAME_ENCODING_ERROR
      else if liberr = liberr_code ERR_FLOW_CONTROL then DWNX_FLOW_CONTROL_ERROR
      else if liberr = liberr_code ERR_STREAM_LIMIT then DWNX_STREAM_LIMIT_ERROR
      else if liberr = liberr_code ERR_FINAL_SIZE then DWNX_FINAL_SIZE_ERROR
      else if liberr \<in> {liberr_code ERR_REQUIRED_TRANSPORT_PARAM,
                         liberr_code ERR_MALFORMED_TRANSPORT_PARAM, liberr_code ERR_TRANSPORT_PARAM}
        then DWNX_TRANSPORT_PARAMETER_ERROR
      else if liberr \<in> {liberr_code ERR_INVALID_ARGUMENT, liberr_code ERR_NOMEM,
                         liberr_code ERR_CALLBACK_FAILURE, liberr_code ERR_INTERNAL}
        then DWNX_INTERNAL_ERROR
      else if liberr = liberr_code ERR_STREAM_STATE then DWNX_STREAM_STATE_ERROR
      else DWNX_PROTOCOL_VIOLATION)"

text \<open>Every error has a name of its own, and the fatal ones are the two that the caller cannot
  report to the peer in time.\<close>

lemma strerror_inj: "dwnx_strerror (liberr_code a) = dwnx_strerror (liberr_code b) \<Longrightarrow> a = b"
  by (cases a; cases b) (simp_all add: dwnx_strerror_def)

lemma strerror_known: "dwnx_strerror (liberr_code e) \<noteq> ''(unknown)''"
  by (cases e) (simp_all add: dwnx_strerror_def)

lemma err_is_fatal_iff: "dwnx_err_is_fatal (liberr_code e) \<longleftrightarrow> e \<in> {ERR_NOMEM, ERR_CALLBACK_FAILURE}"
  by (cases e) (simp_all add: dwnx_err_is_fatal_def DWNX_ERR_FATAL_def)

lemma infer_error_code_cases:
  "dwnx_err_infer_quic_transport_error_code (liberr_code e) \<noteq> DWNX_NO_ERROR"
  by (cases e) (simp_all add: dwnx_err_infer_quic_transport_error_code_def)

end
