(* ===== verification/Conv.thy ===== *)
theory Conv
  imports Prelude
begin

text \<open>
  \<open>lib/dwnx_conv.c\<close>: fixed-width integers in network byte order and QUIC variable-length
  integers. A \<open>put\<close> function returns the bytes it writes at \<open>p\<close>; a \<open>get\<close> function takes the
  bytes from \<open>p\<close> on and returns the value with the bytes after it, and aborts when it would
  read past the end. \<open>memcpy\<close> of an integer followed by \<open>ntohl\<close> and its kin is the big-endian
  value of the bytes on every host, so it is modelled as \<open>be_word\<close>.
  The lemmas show that a varint below \<open>2 ^ 62\<close> is written in its shortest form and read back
  unchanged, and that reading depends on the first \<open>dwnx_get_uvarintlen\<close> bytes only.
\<close>

unbundle bit_operations_syntax

section \<open>Fixed width\<close>

definition dwnx_get_uint64be :: "bytes \<Rightarrow> (u64 \<times> bytes) res" where
  "dwnx_get_uint64be p = (if length p < 8 then Abort else Ok (be_word (take 8 p), drop 8 p))"

definition dwnx_get_uint32be :: "bytes \<Rightarrow> (u32 \<times> bytes) res" where
  "dwnx_get_uint32be p = (if length p < 4 then Abort else Ok (be_word (take 4 p), drop 4 p))"

definition dwnx_get_uint24be :: "bytes \<Rightarrow> (u32 \<times> bytes) res" where
  "dwnx_get_uint24be p = (if length p < 3 then Abort else Ok (be_word (0 # take 3 p), drop 3 p))"

definition dwnx_get_uint16be :: "bytes \<Rightarrow> (u16 \<times> bytes) res" where
  "dwnx_get_uint16be p = (if length p < 2 then Abort else Ok (be_word (take 2 p), drop 2 p))"

definition dwnx_put_uint64be :: "u64 \<Rightarrow> bytes" where
  "dwnx_put_uint64be n = be_bytes 8 n"

definition dwnx_put_uint32be :: "u32 \<Rightarrow> bytes" where
  "dwnx_put_uint32be n = be_bytes 4 n"

definition dwnx_put_uint24be :: "u32 \<Rightarrow> bytes" where
  "dwnx_put_uint24be n = drop 1 (be_bytes 4 n)"

definition dwnx_put_uint16be :: "u16 \<Rightarrow> bytes" where
  "dwnx_put_uint16be n = be_bytes 2 n"

section \<open>Variable-length integers\<close>

definition dwnx_get_uvarint :: "bytes \<Rightarrow> (u64 \<times> bytes) res" where
  "dwnx_get_uvarint p =
     (case p of
        [] \<Rightarrow> Abort
      | b # _ \<Rightarrow>
          (if drop_bit 6 b = 0 then Ok (ucast b, drop 1 p)
           else if drop_bit 6 b = 1 then
             (if length p < 2 then Abort
              else Ok (ucast ((be_word (take 2 p) :: u16) AND 0x3FFF), drop 2 p))
           else if drop_bit 6 b = 2 then
             (if length p < 4 then Abort
              else Ok (ucast ((be_word (take 4 p) :: u32) AND 0x3FFFFFFF), drop 4 p))
           else
             (if length p < 8 then Abort
              else Ok ((be_word (take 8 p) :: u64) AND 0x3FFFFFFFFFFFFFFF, drop 8 p))))"

definition dwnx_get_uvarintlen :: "bytes \<Rightarrow> nat res" where
  "dwnx_get_uvarintlen p =
     (case p of [] \<Rightarrow> Abort | b # _ \<Rightarrow> Ok (unat (push_bit (unat (drop_bit 6 b)) (1 :: u32))))"

text \<open>\<open>*p |= m\<close> after writing at \<open>p\<close>.\<close>

fun or_first :: "u8 \<Rightarrow> bytes \<Rightarrow> bytes" where
  "or_first m [] = []"
| "or_first m (b # bs) = (b OR m) # bs"

definition dwnx_put_uvarint :: "u64 \<Rightarrow> bytes res" where
  "dwnx_put_uvarint n =
     (if n < 64 then Ok [ucast n]
      else if n < 16384 then Ok (or_first 0x40 (dwnx_put_uint16be (ucast n)))
      else if n < 1073741824 then Ok (or_first 0x80 (dwnx_put_uint32be (ucast n)))
      else assertr (n < 4611686018427387904) (Ok (or_first 0xC0 (dwnx_put_uint64be n))))"

definition dwnx_put_uvarintw :: "u64 \<Rightarrow> nat \<Rightarrow> bytes res" where
  "dwnx_put_uvarintw n width =
     (if width = 1 then assertr (n < 64) (Ok [ucast n])
      else if width = 2 then
        assertr (n < 16384) (Ok (or_first 0x40 (dwnx_put_uint16be (ucast n))))
      else if width = 4 then
        assertr (n < 1073741824) (Ok (or_first 0x80 (dwnx_put_uint32be (ucast n))))
      else if width = 8 then
        assertr (n < 4611686018427387904) (Ok (or_first 0xC0 (dwnx_put_uint64be n)))
      else Abort)"

definition dwnx_put_uvarintlen :: "u64 \<Rightarrow> nat res" where
  "dwnx_put_uvarintlen n =
     (if n < 64 then Ok 1
      else if n < 16384 then Ok 2
      else if n < 1073741824 then Ok 4
      else assertr (n < 4611686018427387904) (Ok 8))"

text \<open>The inline \<open>dwnx_get_varint\<close> of \<open>dwnx_conv.h\<close>: the same bytes into an \<open>int64_t\<close>.\<close>

definition dwnx_get_varint :: "bytes \<Rightarrow> (i64 \<times> bytes) res" where
  "dwnx_get_varint p = bindr (dwnx_get_uvarint p) (\<lambda>(n, p). Ok (i64_of_u64 n, p))"

text \<open>The 1-based ordinal of a stream ID among the streams of its kind.\<close>

definition dwnx_ord_stream_id :: "i64 \<Rightarrow> u64" where
  "dwnx_ord_stream_id stream_id = u64_of_i64 (drop_bit 2 stream_id) + 1"

section \<open>The encoded form of a valid varint\<close>

text \<open>The length and the bytes of a varint as total functions; they agree with the code on
  every \<open>n \<le> DWNX_MAX_VARINT\<close>.\<close>

definition uvlen :: "u64 \<Rightarrow> nat" where
  "uvlen n = (if n < 64 then 1 else if n < 16384 then 2 else if n < 1073741824 then 4 else 8)"

definition uvbytes :: "u64 \<Rightarrow> bytes" where
  "uvbytes n =
     (if n < 64 then [ucast n]
      else if n < 16384 then or_first 0x40 (be_bytes 2 (ucast n :: u16))
      else if n < 1073741824 then or_first 0x80 (be_bytes 4 (ucast n :: u32))
      else or_first 0xC0 (be_bytes 8 n))"

lemma put_uvarintlen_valid [simp]: "n \<le> DWNX_MAX_VARINT \<Longrightarrow> dwnx_put_uvarintlen n = Ok (uvlen n)"
  by (auto simp: dwnx_put_uvarintlen_def uvlen_def DWNX_MAX_VARINT_def assertr_def word_less_nat_alt word_le_nat_alt)

lemma put_uvarint_valid [simp]: "n \<le> DWNX_MAX_VARINT \<Longrightarrow> dwnx_put_uvarint n = Ok (uvbytes n)"
  by (auto simp: dwnx_put_uvarint_def uvbytes_def DWNX_MAX_VARINT_def assertr_def
      dwnx_put_uint16be_def dwnx_put_uint32be_def dwnx_put_uint64be_def
      word_less_nat_alt word_le_nat_alt)

lemma put_uvarint_invalid: "\<not> n \<le> DWNX_MAX_VARINT \<Longrightarrow> dwnx_put_uvarint n = Abort"
  by (auto simp: dwnx_put_uvarint_def DWNX_MAX_VARINT_def assertr_def word_less_nat_alt word_le_nat_alt)

lemma put_uvarintlen_invalid: "\<not> n \<le> DWNX_MAX_VARINT \<Longrightarrow> dwnx_put_uvarintlen n = Abort"
  by (auto simp: dwnx_put_uvarintlen_def DWNX_MAX_VARINT_def assertr_def word_less_nat_alt word_le_nat_alt)

lemma uvlen_pos [simp]: "0 < uvlen n"
  by (simp add: uvlen_def)

lemma uvlen_le_8: "uvlen n \<le> 8"
  by (simp add: uvlen_def)

lemma length_or_first [simp]: "length (or_first m bs) = length bs"
  by (cases bs) auto

lemma length_uvbytes [simp]: "length (uvbytes n) = uvlen n"
  by (simp add: uvbytes_def uvlen_def)

lemma uvbytes_nonempty [simp]: "uvbytes n \<noteq> []"
  by (metis length_uvbytes list.size(3) less_irrefl uvlen_pos)

lemma uvbytes_small: "n < 64 \<Longrightarrow> uvbytes n = [ucast n]"
  by (simp add: uvbytes_def)

section \<open>Reading back what was written\<close>

lemma be_bytes_Cons: "be_bytes (Suc k) w = ucast (drop_bit (8 * k) w) # be_bytes k w"
proof (induction k arbitrary: w)
  case 0
  show ?case by simp
next
  case (Suc k)
  have "be_bytes (Suc (Suc k)) w = be_bytes (Suc k) (drop_bit 8 w) @ [ucast w]"
    by simp
  also have "be_bytes (Suc k) (drop_bit 8 w) = ucast (drop_bit (8 * k) (drop_bit 8 w)) # be_bytes k (drop_bit 8 w)"
    by (rule Suc.IH)
  also have "\<dots> @ [ucast w] = ucast (drop_bit (8 * Suc k) w) # be_bytes (Suc k) w"
    by (simp add: ac_simps)
  finally show ?case .
qed

lemma be_word_or_first:
  assumes "8 * length bs + 6 < LENGTH('a::len)" and "take_bit 6 m = 0"
  shows "take_bit (8 * length bs + 6) (be_word ((b OR m) # bs) :: 'a word)
         = take_bit (8 * length bs + 6) (be_word (b # bs))"
proof (rule bit_word_eqI)
  fix n
  have "\<not> bit m i" if "i < 6" for i
    using assms(2) that by (metis bit_0_eq bit_take_bit_iff bot_apply bot_bool_def)
  then show "bit (take_bit (8 * length bs + 6) (be_word ((b OR m) # bs) :: 'a word)) n
      \<longleftrightarrow> bit (take_bit (8 * length bs + 6) (be_word (b # bs) :: 'a word)) n"
    using assms(1) by (auto simp: bit_simps bit_be_word_Cons)
qed

lemma take_bit_or_first_be_bytes:
  fixes w :: "'a::len word"
  assumes "8 * k + 6 < LENGTH('a)" and "take_bit 6 m = 0"
  shows "take_bit (8 * k + 6) (be_word (or_first m (be_bytes (Suc k) w)) :: 'a word)
         = take_bit (8 * k + 6) w"
proof -
  have "take_bit (8 * k + 6) (be_word (or_first m (be_bytes (Suc k) w)) :: 'a word)
        = take_bit (8 * k + 6) (be_word (be_bytes (Suc k) w))"
    unfolding be_bytes_Cons or_first.simps
    using be_word_or_first [of "be_bytes k w" m "ucast (drop_bit (8 * k) w)"] assms by simp
  also have "\<dots> = take_bit (8 * k + 6) w"
    by (simp add: be_word_be_bytes del: be_bytes.simps)
  finally show ?thesis .
qed

text \<open>A cast to a type that can hold the value keeps it.\<close>

lemma unat_ucast_small:
  "unat n < 2 ^ LENGTH('b::len) \<Longrightarrow> unat (ucast (n :: 'a::len word) :: 'b word) = unat n"
  by (simp add: unsigned_ucast_eq take_bit_nat_eq_self)

lemma ucast_ucast_small:
  fixes n :: "'a::len word"
  assumes "unat n < 2 ^ LENGTH('b::len)"
  shows "(ucast (ucast n :: 'b word) :: 'a word) = n"
proof -
  have "unat (ucast (ucast n :: 'b word) :: 'a word) = unat n"
    using assms by (simp add: unat_ucast_small)
  then show ?thesis by (simp add: word_unat_eq_iff)
qed

lemma take_bit_word_small: "unat w < 2 ^ j \<Longrightarrow> take_bit j (w :: 'a::len word) = w"
  by (simp add: word_unat_eq_iff unsigned_take_bit_eq take_bit_nat_eq_self)

text \<open>The two top bits of the first byte.\<close>

lemma drop_bit_first:
  fixes w :: "'a::len word"
  assumes "unat w < 2 ^ (8 * k + 6)"
  shows "drop_bit 6 ((ucast (drop_bit (8 * k) w) :: u8) OR m) = drop_bit 6 m"
proof -
  have w: "take_bit (8 * k + 6) w = w"
    using assms by (rule take_bit_word_small)
  have "\<not> bit w (i + 6 + 8 * k)" for i
    by (subst w [symmetric]) (simp add: bit_take_bit_iff)
  then show ?thesis
    by (intro bit_word_eqI) (auto simp: bit_simps ac_simps)
qed

text \<open>Each long form, at its width, is read back by the matching case.\<close>

lemma long_form_read:
  fixes w :: "'a::len word"
  assumes "unat w < 2 ^ (8 * k + 6)" and "8 * k + 6 < LENGTH('a)" and "take_bit 6 m = 0"
  shows "(be_word (or_first m (be_bytes (Suc k) w)) :: 'a word) AND mask (8 * k + 6) = w"
    and "or_first m (be_bytes (Suc k) w) = ((ucast (drop_bit (8 * k) w)) OR m) # be_bytes k w"
    and "drop_bit 6 ((ucast (drop_bit (8 * k) w) :: u8) OR m) = drop_bit 6 m"
proof -
  show "(be_word (or_first m (be_bytes (Suc k) w)) :: 'a word) AND mask (8 * k + 6) = w"
    using take_bit_or_first_be_bytes [OF assms(2,3), of w] assms(1)
    by (simp add: take_bit_eq_mask [symmetric] take_bit_word_small del: be_bytes.simps)
  show "or_first m (be_bytes (Suc k) w) = ((ucast (drop_bit (8 * k) w)) OR m) # be_bytes k w"
    by (simp only: be_bytes_Cons or_first.simps)
  show "drop_bit 6 ((ucast (drop_bit (8 * k) w) :: u8) OR m) = drop_bit 6 m"
    using assms(1) by (rule drop_bit_first)
qed

lemma mask_numerals:
  "(0x3FFF :: u16) = mask (8 * 1 + 6)" "(0x3FFFFFFF :: u32) = mask (8 * 3 + 6)"
  "(0x3FFFFFFFFFFFFFFF :: u64) = mask (8 * 7 + 6)"
  by (simp_all add: mask_eq_exp_minus_1)

text \<open>The four cases of the reader, by the two top bits of the first byte.\<close>

lemma get_uvarint_cases:
  "drop_bit 6 b = 0 \<Longrightarrow> dwnx_get_uvarint (b # bs) = Ok (ucast b, bs)"
  "drop_bit 6 b = 1 \<Longrightarrow> length bs = 1 \<Longrightarrow> dwnx_get_uvarint (b # bs @ r)
     = Ok (ucast ((be_word (b # bs) :: u16) AND 0x3FFF), r)"
  "drop_bit 6 b = 2 \<Longrightarrow> length bs = 3 \<Longrightarrow> dwnx_get_uvarint (b # bs @ r)
     = Ok (ucast ((be_word (b # bs) :: u32) AND 0x3FFFFFFF), r)"
  "drop_bit 6 b = 3 \<Longrightarrow> length bs = 7 \<Longrightarrow> dwnx_get_uvarint (b # bs @ r)
     = Ok ((be_word (b # bs) :: u64) AND 0x3FFFFFFFFFFFFFFF, r)"
  by (simp_all add: dwnx_get_uvarint_def)

lemma get_uvarintlen_Cons:
  "dwnx_get_uvarintlen (b # bs) = Ok (unat (push_bit (unat (drop_bit 6 b)) (1 :: u32)))"
  by (simp add: dwnx_get_uvarintlen_def)

lemma uvbytes_first:
  assumes "n \<le> DWNX_MAX_VARINT"
  obtains (one) "n < 64" "uvbytes n = [ucast n]"
  | (two) b bs where "uvbytes n = b # bs" "length bs = 1" "drop_bit 6 b = 1" "uvlen n = 2"
      "n = ucast ((be_word (b # bs) :: u16) AND 0x3FFF)"
  | (four) b bs where "uvbytes n = b # bs" "length bs = 3" "drop_bit 6 b = 2" "uvlen n = 4"
      "n = ucast ((be_word (b # bs) :: u32) AND 0x3FFFFFFF)"
  | (eight) b bs where "uvbytes n = b # bs" "length bs = 7" "drop_bit 6 b = 3" "uvlen n = 8"
      "n = (be_word (b # bs) :: u64) AND 0x3FFFFFFFFFFFFFFF"
proof -
  consider "n < 64" | "\<not> n < 64" "n < 16384" | "\<not> n < 16384" "n < 1073741824" | "\<not> n < 1073741824"
    by blast
  then show thesis
  proof cases
    case 1
    show thesis by (rule one [OF 1 uvbytes_small [OF 1]])
  next
    case 2
    then have u: "unat n < 2 ^ (8 * 1 + 6)"
      by (simp add: word_less_nat_alt)
    then have u': "unat (ucast n :: u16) < 2 ^ (8 * 1 + 6)"
      by (simp add: unat_ucast_small)
    have b: "uvbytes n = or_first 0x40 (be_bytes (Suc 1) (ucast n :: u16))"
      using 2 by (simp add: uvbytes_def numeral_2_eq_2)
    show thesis
      by (rule two [of "ucast (drop_bit (8 * 1) (ucast n :: u16)) OR 0x40" "be_bytes 1 (ucast n :: u16)"])
         (use long_form_read [OF u', of "0x40"] u 2 in
           \<open>simp_all only: b mask_numerals, simp_all add: uvlen_def ucast_ucast_small\<close>)
  next
    case 3
    then have u: "unat n < 2 ^ (8 * 3 + 6)"
      by (simp add: word_less_nat_alt)
    then have u': "unat (ucast n :: u32) < 2 ^ (8 * 3 + 6)"
      by (simp add: unat_ucast_small)
    have "\<not> n < 64" using 3 by (simp add: word_less_nat_alt)
    then have b: "uvbytes n = or_first 0x80 (be_bytes (Suc 3) (ucast n :: u32))" "uvlen n = 4"
      using 3 by (simp_all add: uvbytes_def uvlen_def numeral_eq_Suc)
    show thesis
      by (rule four [of "ucast (drop_bit (8 * 3) (ucast n :: u32)) OR 0x80" "be_bytes 3 (ucast n :: u32)"])
         (use long_form_read [OF u', of "0x80"] u b(2) in
           \<open>simp_all only: b mask_numerals, simp_all add: ucast_ucast_small\<close>)
  next
    case 4
    have u: "unat n < 2 ^ (8 * 7 + 6)"
      using assms by (simp add: unat_le_max_varint)
    have "\<not> n < 64" "\<not> n < 16384" using 4 by (simp_all add: word_less_nat_alt)
    then have b: "uvbytes n = or_first 0xC0 (be_bytes (Suc 7) n)" "uvlen n = 8"
      using 4 by (simp_all add: uvbytes_def uvlen_def numeral_eq_Suc)
    show thesis
      by (rule eight [of "ucast (drop_bit (8 * 7) n) OR 0xC0" "be_bytes 7 n"])
         (use long_form_read [OF u, of "0xC0"] u b(2) in
           \<open>simp_all only: b mask_numerals, simp_all\<close>)
  qed
qed

lemma get_uvarint_put [simp]:
  assumes "n \<le> DWNX_MAX_VARINT"
  shows "dwnx_get_uvarint (uvbytes n @ r) = Ok (n, r)"
  using assms
proof (cases n rule: uvbytes_first)
  case one
  then have u: "unat n < 2 ^ 6"
    by (simp add: word_less_nat_alt)
  then have "drop_bit 6 (ucast n :: u8) = 0"
    using drop_bit_first [of "ucast n :: u8" 0 0] by (simp add: unat_ucast_small)
  with one u show ?thesis
    by (simp add: get_uvarint_cases ucast_ucast_small)
qed (simp_all add: get_uvarint_cases)

lemma get_uvarintlen_put [simp]:
  assumes "n \<le> DWNX_MAX_VARINT"
  shows "dwnx_get_uvarintlen (uvbytes n @ r) = Ok (uvlen n)"
  using assms
proof (cases n rule: uvbytes_first)
  case one
  then have u: "unat n < 2 ^ 6"
    by (simp add: word_less_nat_alt)
  then have "drop_bit 6 (ucast n :: u8) = 0"
    using drop_bit_first [of "ucast n :: u8" 0 0] by (simp add: unat_ucast_small)
  with one show ?thesis
    by (simp add: get_uvarintlen_Cons uvlen_def)
qed (simp_all add: get_uvarintlen_Cons)

lemma get_varint_put [simp]:
  "n \<le> DWNX_MAX_VARINT \<Longrightarrow> dwnx_get_varint (uvbytes n @ r) = Ok (i64_of_u64 n, r)"
  by (simp add: dwnx_get_varint_def)

section \<open>Reading any bytes\<close>

lemma drop_bit_6_cases: "drop_bit 6 (b :: u8) = 0 \<or> drop_bit 6 b = 1 \<or> drop_bit 6 b = 2 \<or> drop_bit 6 b = 3"
proof -
  have "unat b < 256" using unsigned_less [of b] by simp
  then have "unat (drop_bit 6 b) = drop_bit 6 (unat b)"
    by (simp add: unsigned_drop_bit_eq take_bit_nat_eq_self)
  then have "unat (drop_bit 6 b) = unat b div 64"
    by (simp add: drop_bit_eq_div)
  moreover have "unat b < 256" using unsigned_less [of b] by simp
  ultimately have "unat (drop_bit 6 b) < 4"
    by simp
  then show ?thesis
    by (auto simp: word_unat_eq_iff)
qed

text \<open>The value of a complete varint: its bytes with the two length bits cleared.\<close>

definition uvvalue :: "bytes \<Rightarrow> u64" where
  "uvvalue bs = (case bs of [] \<Rightarrow> 0 | b # r \<Rightarrow> be_word ((b AND 0x3F) # r))"

lemma be_word_mask_first:
  assumes "length bs = k" and "8 * k + 6 < LENGTH('a::len)" and "LENGTH('a) \<le> 64"
  shows "(ucast ((be_word (b # bs) :: 'a word) AND mask (8 * k + 6)) :: u64) = be_word ((b AND 0x3F) # bs)"
proof (rule bit_word_eqI)
  fix n
  have m: "(0x3F :: u8) = mask 6" by (simp add: mask_eq_exp_minus_1)
  have w: "n < 8 * length bs \<Longrightarrow> bit (be_word bs :: u64) n = bit (be_word bs :: 'a word) n"
    using assms by (simp add: bit_be_word)
  show "bit (ucast ((be_word (b # bs) :: 'a word) AND mask (8 * k + 6)) :: u64) n
     \<longleftrightarrow> bit (be_word ((b AND 0x3F) # bs) :: u64) n"
    using assms w unfolding m
    by (auto simp: bit_simps bit_be_word_Cons)
qed

lemma get_uvarint_value:
  assumes "dwnx_get_uvarintlen p = Ok k" and "k \<le> length p"
  shows "dwnx_get_uvarint p = Ok (uvvalue (take k p), drop k p)"
proof -
  from assms(1) obtain b bs where p: "p = b # bs"
    by (cases p) (auto simp: dwnx_get_uvarintlen_def)
  have m: "(0x3F :: u8) = mask 6" by (simp add: mask_eq_exp_minus_1)
  from drop_bit_6_cases [of b] show ?thesis
  proof (elim disjE)
    assume z: "drop_bit 6 b = 0"
    have "i < 6" if "bit b i" for i
    proof (rule ccontr)
      assume "\<not> i < 6"
      moreover have "bit (drop_bit 6 b) (i - 6) \<longleftrightarrow> bit (0 :: u8) (i - 6)"
        by (simp only: z)
      ultimately show False using that by (simp add: bit_simps)
    qed
    moreover have "i < 8" if "bit b i" for i
      using bit_imp_le_length [OF that] by simp
    ultimately have "(ucast b :: u64) = be_word [b AND 0x3F]"
      unfolding m
      by (intro bit_word_eqI) (auto simp: be_word_def bit_simps not_less)
    with z p assms show ?thesis
      by (auto simp: get_uvarint_cases get_uvarintlen_Cons uvvalue_def)
  next
    assume z: "drop_bit 6 b = 1"
    with p assms(1) have "k = 2"
      by (simp add: get_uvarintlen_Cons)
    with p assms(2) have k: "k = 2" "length (take 1 bs) = 1" "take 2 p = b # take 1 bs"
      by (simp_all add: take_Cons')
    then show ?thesis
      using get_uvarint_cases(2) [OF z k(2), of "drop 1 bs"] be_word_mask_first [OF k(2), where 'a = 16, of b] p
      by (simp add: mask_numerals uvvalue_def)
  next
    assume z: "drop_bit 6 b = 2"
    with p assms(1) have "k = 4"
      by (simp add: get_uvarintlen_Cons)
    with p assms(2) have k: "k = 4" "length (take 3 bs) = 3" "take 4 p = b # take 3 bs"
      by (simp_all add: take_Cons')
    then show ?thesis
      using get_uvarint_cases(3) [OF z k(2), of "drop 3 bs"] be_word_mask_first [OF k(2), where 'a = 32, of b] p
      by (simp add: mask_numerals uvvalue_def)
  next
    assume z: "drop_bit 6 b = 3"
    with p assms(1) have "k = 8"
      by (simp add: get_uvarintlen_Cons)
    with p assms(2) have k: "k = 8" "length (take 7 bs) = 7" "take 8 p = b # take 7 bs"
      by (simp_all add: take_Cons')
    then show ?thesis
      using get_uvarint_cases(4) [OF z k(2), of "drop 7 bs"] be_word_mask_first [OF k(2), where 'a = 64, of b] p
      by (simp add: mask_numerals uvvalue_def)
  qed
qed

lemma get_uvarintlen_bounds:
  "dwnx_get_uvarintlen p = Ok k \<Longrightarrow> p \<noteq> [] \<and> 1 \<le> k \<and> k \<le> 8"
  using drop_bit_6_cases [of "hd p"]
  by (cases p) (auto simp: dwnx_get_uvarintlen_def)

lemma get_uvarintlen_total: "p \<noteq> [] \<Longrightarrow> \<exists>k. dwnx_get_uvarintlen p = Ok k"
  by (cases p) (auto simp: dwnx_get_uvarintlen_def)

lemma get_uvarintlen_not_Err [simp]: "dwnx_get_uvarintlen p \<noteq> Err e"
  by (simp add: dwnx_get_uvarintlen_def split: list.splits)

lemma get_uvarintlen_take:
  "0 < n \<Longrightarrow> dwnx_get_uvarintlen (take n p) = dwnx_get_uvarintlen p"
  by (cases p; cases n) (auto simp: dwnx_get_uvarintlen_def)

lemma get_uvarintlen_append:
  "p \<noteq> [] \<Longrightarrow> dwnx_get_uvarintlen (p @ r) = dwnx_get_uvarintlen p"
  by (cases p) (auto simp: dwnx_get_uvarintlen_def)

lemma uvvalue_le:
  assumes "length bs \<le> 8" "bs \<noteq> []"
  shows "uvvalue bs \<le> DWNX_MAX_VARINT"
proof -
  obtain b r where bs: "bs = b # r" using assms(2) by (cases bs) auto
  have m: "(0x3F :: u8) = mask 6" "(0x3FFFFFFFFFFFFFFF :: u64) = mask 62"
    by (simp_all add: mask_eq_exp_minus_1)
  have l: "length r \<le> 7" using assms(1) bs by simp
  have "n < 62" if "bit (uvvalue bs) n" for n
  proof -
    have "n < 8 * length r + 6"
      using that l unfolding bs m uvvalue_def
      by (auto simp: bit_simps bit_be_word_Cons m split: if_splits)
    with l show ?thesis by simp
  qed
  then have "uvvalue bs = uvvalue bs AND mask 62"
    by (intro bit_word_eqI) (auto simp: bit_simps)
  then show ?thesis
    unfolding DWNX_MAX_VARINT_def m by (metis word_and_le1)
qed

text \<open>
  The number of bytes after the first one that the varint at \<open>p\<close> takes. In this form the code's
  length checks and reads of arbitrary bytes are decided by linear arithmetic.
\<close>

definition vext :: "bytes \<Rightarrow> nat" where
  "vext p = (case p of [] \<Rightarrow> 0 | b # _ \<Rightarrow> unat (push_bit (unat (drop_bit 6 b)) (1 :: u32)) - 1)"

lemma get_uvarintlen_eq: "dwnx_get_uvarintlen p = (if p = [] then Abort else Ok (Suc (vext p)))"
  using get_uvarintlen_bounds [of p] get_uvarintlen_total [of p]
  by (cases p) (auto simp: dwnx_get_uvarintlen_def vext_def)

lemma vext_le: "vext p \<le> 7"
  using get_uvarintlen_bounds [of p] by (cases "p = []") (auto simp: get_uvarintlen_eq vext_def)

lemma get_uvarint_eq:
  "vext p < length p \<Longrightarrow>
     dwnx_get_uvarint p = Ok (uvvalue (take (Suc (vext p)) p), drop (Suc (vext p)) p)"
  using get_uvarint_value [of p "Suc (vext p)"] by (cases p) (auto simp: get_uvarintlen_eq)

lemma get_varint_eq:
  "vext p < length p \<Longrightarrow>
     dwnx_get_varint p = Ok (i64_of_u64 (uvvalue (take (Suc (vext p)) p)), drop (Suc (vext p)) p)"
  by (simp add: dwnx_get_varint_def get_uvarint_eq)

lemma get_uvarint_Ok:
  assumes "dwnx_get_uvarint p = Ok x"
  shows "vext p < length p"
proof (cases p)
  case (Cons b bs)
  then show ?thesis
    using assms drop_bit_6_cases [of b]
    by (auto simp: dwnx_get_uvarint_def vext_def split: if_split_asm)
qed (use assms in \<open>simp add: dwnx_get_uvarint_def\<close>)

lemma uvvalue_read_le: "vext p < length p \<Longrightarrow> uvvalue (take (Suc (vext p)) p) \<le> DWNX_MAX_VARINT"
  using vext_le [of p] by (intro uvvalue_le) auto

lemma vext_uvbytes [simp]: "n \<le> DWNX_MAX_VARINT \<Longrightarrow> vext (uvbytes n @ r) = uvlen n - 1"
  using get_uvarintlen_put [of n r] by (simp add: get_uvarintlen_eq split: if_splits)

section \<open>Stream identifiers\<close>

text \<open>The identifiers a varint can carry, as \<open>int64_t\<close> values.\<close>

definition stream_id_valid :: "i64 \<Rightarrow> bool" where
  "stream_id_valid i \<longleftrightarrow> 0 \<le> i \<and> i < 2 ^ 62"

lemma stream_id_valid_u64 [simp]:
  assumes "stream_id_valid i"
  shows "u64_of_i64 i \<le> DWNX_MAX_VARINT" and "i64_of_u64 (u64_of_i64 i) = i"
proof -
  have "take_bit 64 i = i"
    using assms by (simp add: stream_id_valid_def take_bit_int_eq_self)
  then have u: "uint (u64_of_i64 i) = i"
    using assms by (simp add: u64_of_i64_def unsigned_of_int stream_id_valid_def)
  show "u64_of_i64 i \<le> DWNX_MAX_VARINT"
    using assms u by (simp add: word_le_def DWNX_MAX_VARINT_def stream_id_valid_def)
  have "signed_take_bit 63 i = i"
    using assms by (intro signed_take_bit_int_eq_self) (auto simp: stream_id_valid_def)
  then show "i64_of_u64 (u64_of_i64 i) = i"
    by (simp add: i64_of_u64_def u64_of_i64_def signed_of_int)
qed

lemma i64_of_u64_small:
  assumes "w \<le> DWNX_MAX_VARINT"
  shows "i64_of_u64 w = uint w" and "stream_id_valid (i64_of_u64 w)"
    and "u64_of_i64 (i64_of_u64 w) = w"
proof -
  have l: "uint w < 2 ^ 62"
    using assms by (simp add: word_le_def DWNX_MAX_VARINT_def)
  show e: "i64_of_u64 w = uint w"
    using l by (simp add: i64_of_u64_def sint_uint signed_take_bit_int_eq_self order_trans [OF _ uint_ge_0])
  show "stream_id_valid (i64_of_u64 w)"
    using l by (simp add: e stream_id_valid_def)
  show "u64_of_i64 (i64_of_u64 w) = w"
    by (simp add: e u64_of_i64_def)
qed

section \<open>Properties\<close>

text \<open>C37: What \<open>dwnx_put_uvarint\<close> writes has the length \<open>dwnx_put_uvarintlen\<close> announces, its first
  byte tells the reader that length, and it reads back as the same number whatever follows.\<close>

theorem uvarint_roundtrip:
  assumes "dwnx_put_uvarint n = Ok bs" and "n \<le> DWNX_MAX_VARINT"
  shows "dwnx_get_uvarint (bs @ r) = Ok (n, r) \<and> dwnx_put_uvarintlen n = Ok (length bs) \<and>
    dwnx_get_uvarintlen (bs @ r) = Ok (length bs)"
  using assms by auto

theorem uvarint_roundtrip_witness:
  "dwnx_get_uvarint (uvbytes 16384 @ [7]) = Ok (16384, [7]) \<and>
   dwnx_put_uvarintlen 16384 = Ok (length (uvbytes 16384)) \<and>
   dwnx_get_uvarintlen (uvbytes 16384 @ [7]) = Ok (length (uvbytes 16384))"
  by (rule uvarint_roundtrip) (simp_all add: DWNX_MAX_VARINT_def)


end
