(* ===== verification/TransportParams.thy ===== *)
theory TransportParams
  imports Conv
begin

text \<open>
  \<open>lib/dwnx_transport_params.c\<close>: the QUIC transport parameters and their encoding as a
  sequence of (id, length, value) varints. The lemmas show that decoding is total on every
  byte string (no read past the end), that decoding what was encoded gives the parameters back
  (the idle timeout rounded down to milliseconds, the unit on the wire), and the limits that
  every decoded value satisfies.
\<close>

unbundle bit_operations_syntax

section \<open>The parameters\<close>

type_synonym dwnx_transport_param_id = u64

record dwnx_transport_params =
  initial_max_stream_data_bidi_local :: u64
  initial_max_stream_data_bidi_remote :: u64
  initial_max_stream_data_uni :: u64
  initial_max_data :: u64
  initial_max_streams_bidi :: u64
  initial_max_streams_uni :: u64
  max_idle_timeout :: u64
  max_record_size :: u64
  max_datagram_frame_size :: u64

definition DWNX_MAX_STREAMS :: u64 where
  "DWNX_MAX_STREAMS = 2 ^ 60"

definition DWNX_TRANSPORT_PARAM_MAX_RECORD_SIZE :: dwnx_transport_param_id where
  "DWNX_TRANSPORT_PARAM_MAX_RECORD_SIZE = 0x0571C59429CD0845"

definition dwnx_transport_params_default :: dwnx_transport_params where
  "dwnx_transport_params_default =
     \<lparr>initial_max_stream_data_bidi_local = 0, initial_max_stream_data_bidi_remote = 0,
      initial_max_stream_data_uni = 0, initial_max_data = 0, initial_max_streams_bidi = 0,
      initial_max_streams_uni = 0, max_idle_timeout = 0,
      max_record_size = of_nat DWNX_DEFAULT_MAX_RECORD_SIZE, max_datagram_frame_size = 0\<rparr>"

section \<open>Encoding\<close>

definition varint_paramlen :: "dwnx_transport_param_id \<Rightarrow> u64 \<Rightarrow> nat res" where
  "varint_paramlen pid param =
     bindr (dwnx_put_uvarintlen param) (\<lambda>valuelen.
     bindr (dwnx_put_uvarintlen pid) (\<lambda>n.
     bindr (dwnx_put_uvarintlen (of_nat valuelen)) (\<lambda>m.
     Ok (n + m + valuelen))))"

definition write_varint_param :: "bytes \<Rightarrow> dwnx_transport_param_id \<Rightarrow> u64 \<Rightarrow> bytes res" where
  "write_varint_param p pid value =
     bindr (dwnx_put_uvarint pid) (\<lambda>a.
     bindr (dwnx_put_uvarintlen value) (\<lambda>n.
     bindr (dwnx_put_uvarint (of_nat n)) (\<lambda>b.
     bindr (dwnx_put_uvarint value) (\<lambda>c.
     Ok (p @ a @ b @ c)))))"

text \<open>\<open>if (cond) { len += varint_paramlen(id, value); }\<close> and the same for the writes; \<open>p\<close> is the
  bytes written so far.\<close>

definition add_paramlen :: "nat \<Rightarrow> bool \<Rightarrow> dwnx_transport_param_id \<Rightarrow> u64 \<Rightarrow> nat res" where
  "add_paramlen len cond pid value =
     (if cond then bindr (varint_paramlen pid value) (\<lambda>n. Ok (len + n)) else Ok len)"

definition add_param :: "bytes \<Rightarrow> bool \<Rightarrow> dwnx_transport_param_id \<Rightarrow> u64 \<Rightarrow> bytes res" where
  "add_param p cond pid value = (if cond then write_varint_param p pid value else Ok p)"

text \<open>The two halves of \<open>dwnx_transport_params_encode\<close>: the length, then the bytes.\<close>

definition transport_params_len :: "dwnx_transport_params \<Rightarrow> nat res" where
  "transport_params_len params =
     bindr (add_paramlen 0 (initial_max_stream_data_bidi_local params \<noteq> 0)
              0x05 (initial_max_stream_data_bidi_local params)) (\<lambda>len.
     bindr (add_paramlen len (initial_max_stream_data_bidi_remote params \<noteq> 0)
              0x06 (initial_max_stream_data_bidi_remote params)) (\<lambda>len.
     bindr (add_paramlen len (initial_max_stream_data_uni params \<noteq> 0)
              0x07 (initial_max_stream_data_uni params)) (\<lambda>len.
     bindr (add_paramlen len (initial_max_data params \<noteq> 0)
              0x04 (initial_max_data params)) (\<lambda>len.
     bindr (add_paramlen len (initial_max_streams_bidi params \<noteq> 0)
              0x08 (initial_max_streams_bidi params)) (\<lambda>len.
     bindr (add_paramlen len (initial_max_streams_uni params \<noteq> 0)
              0x09 (initial_max_streams_uni params)) (\<lambda>len.
     bindr (add_paramlen len (max_idle_timeout params \<noteq> 0)
              0x01 (max_idle_timeout params div DWNX_MILLISECONDS)) (\<lambda>len.
     bindr (add_paramlen len (max_record_size params \<noteq> of_nat DWNX_DEFAULT_MAX_RECORD_SIZE)
              DWNX_TRANSPORT_PARAM_MAX_RECORD_SIZE (max_record_size params)) (\<lambda>len.
     add_paramlen len (max_datagram_frame_size params \<noteq> 0)
              0x20 (max_datagram_frame_size params)))))))))"

definition transport_params_write :: "dwnx_transport_params \<Rightarrow> bytes res" where
  "transport_params_write params =
     bindr (add_param [] (initial_max_stream_data_bidi_local params \<noteq> 0)
              0x05 (initial_max_stream_data_bidi_local params)) (\<lambda>p.
     bindr (add_param p (initial_max_stream_data_bidi_remote params \<noteq> 0)
              0x06 (initial_max_stream_data_bidi_remote params)) (\<lambda>p.
     bindr (add_param p (initial_max_stream_data_uni params \<noteq> 0)
              0x07 (initial_max_stream_data_uni params)) (\<lambda>p.
     bindr (add_param p (initial_max_data params \<noteq> 0)
              0x04 (initial_max_data params)) (\<lambda>p.
     bindr (add_param p (initial_max_streams_bidi params \<noteq> 0)
              0x08 (initial_max_streams_bidi params)) (\<lambda>p.
     bindr (add_param p (initial_max_streams_uni params \<noteq> 0)
              0x09 (initial_max_streams_uni params)) (\<lambda>p.
     bindr (add_param p (max_idle_timeout params \<noteq> 0)
              0x01 (max_idle_timeout params div DWNX_MILLISECONDS)) (\<lambda>p.
     bindr (add_param p (max_record_size params \<noteq> of_nat DWNX_DEFAULT_MAX_RECORD_SIZE)
              DWNX_TRANSPORT_PARAM_MAX_RECORD_SIZE (max_record_size params)) (\<lambda>p.
     add_param p (max_datagram_frame_size params \<noteq> 0)
              0x20 (max_datagram_frame_size params)))))))))"

text \<open>
  The destination is \<open>None\<close> for \<open>(NULL, 0)\<close>, which asks for the length only, and \<open>Some destlen\<close>
  otherwise. The result is the returned length and the bytes written.
\<close>

definition dwnx_transport_params_encode ::
    "nat option \<Rightarrow> dwnx_transport_params \<Rightarrow> (nat \<times> bytes) res" where
  "dwnx_transport_params_encode dest params =
     bindr (transport_params_len params) (\<lambda>len.
       case dest of
         None \<Rightarrow> Ok (len, [])
       | Some destlen \<Rightarrow>
           (if destlen < len then Err ERR_NOBUF
            else bindr (transport_params_write params) (\<lambda>p.
                 assertr (length p = len) (Ok (len, p)))))"

section \<open>Decoding\<close>

text \<open>\<open>decode_varint\<close> returns -1 (here \<open>None\<close>) without moving the pointer when the varint is
  cut off.\<close>

definition decode_varint :: "bytes \<Rightarrow> (u64 \<times> bytes) option res" where
  "decode_varint p =
     (if p = [] then Ok None
      else bindr (dwnx_get_uvarintlen p) (\<lambda>len.
           if length p < len then Ok None
           else bindr (dwnx_get_uvarint p) (\<lambda>r. Ok (Some r))))"

definition decode_varint_param :: "bytes \<Rightarrow> (u64 \<times> bytes) option res" where
  "decode_varint_param p =
     bindr (decode_varint p) (\<lambda>r.
       case r of
         None \<Rightarrow> Ok None
       | Some (valuelen, p) \<Rightarrow>
           (if p = [] then Ok None
            else if length p < unat valuelen then Ok None
            else bindr (dwnx_get_uvarintlen p) (\<lambda>n.
                 if of_nat n \<noteq> valuelen then Ok None
                 else bindr (dwnx_get_uvarint p) (\<lambda>r. Ok (Some r)))))"

text \<open>\<open>if (f(...) != 0) { return DWNX_ERR_MALFORMED_TRANSPORT_PARAM; }\<close>\<close>

definition or_malformed :: "'a option res \<Rightarrow> ('a \<Rightarrow> 'b res) \<Rightarrow> 'b res" where
  "or_malformed m f =
     bindr m (\<lambda>r. case r of None \<Rightarrow> Err ERR_MALFORMED_TRANSPORT_PARAM | Some x \<Rightarrow> f x)"

text \<open>One turn of the loop of \<open>dwnx_transport_params_decode\<close>.\<close>

definition decode_transport_param ::
    "dwnx_transport_params \<Rightarrow> bytes \<Rightarrow> (dwnx_transport_params \<times> bytes) res" where
  "decode_transport_param dest p =
     or_malformed (decode_varint p) (\<lambda>(param_type, p).
       if param_type = 0x05 then
         or_malformed (decode_varint_param p) (\<lambda>(v, p).
           Ok (dest\<lparr>initial_max_stream_data_bidi_local := v\<rparr>, p))
       else if param_type = 0x06 then
         or_malformed (decode_varint_param p) (\<lambda>(v, p).
           Ok (dest\<lparr>initial_max_stream_data_bidi_remote := v\<rparr>, p))
       else if param_type = 0x07 then
         or_malformed (decode_varint_param p) (\<lambda>(v, p).
           Ok (dest\<lparr>initial_max_stream_data_uni := v\<rparr>, p))
       else if param_type = 0x04 then
         or_malformed (decode_varint_param p) (\<lambda>(v, p).
           Ok (dest\<lparr>initial_max_data := v\<rparr>, p))
       else if param_type = 0x08 then
         or_malformed (decode_varint_param p) (\<lambda>(v, p).
           if v > DWNX_MAX_STREAMS then Err ERR_MALFORMED_TRANSPORT_PARAM
           else Ok (dest\<lparr>initial_max_streams_bidi := v\<rparr>, p))
       else if param_type = 0x09 then
         or_malformed (decode_varint_param p) (\<lambda>(v, p).
           if v > DWNX_MAX_STREAMS then Err ERR_MALFORMED_TRANSPORT_PARAM
           else Ok (dest\<lparr>initial_max_streams_uni := v\<rparr>, p))
       else if param_type = 0x01 then
         or_malformed (decode_varint_param p) (\<lambda>(v, p).
           if v > UINT64_MAX div DWNX_MILLISECONDS then
             Ok (dest\<lparr>max_idle_timeout := UINT64_MAX div DWNX_MILLISECONDS * DWNX_MILLISECONDS\<rparr>, p)
           else Ok (dest\<lparr>max_idle_timeout := v * DWNX_MILLISECONDS\<rparr>, p))
       else if param_type = DWNX_TRANSPORT_PARAM_MAX_RECORD_SIZE then
         or_malformed (decode_varint_param p) (\<lambda>(v, p).
           Ok (dest\<lparr>max_record_size := v\<rparr>, p))
       else if param_type = 0x20 then
         or_malformed (decode_varint_param p) (\<lambda>(v, p).
           Ok (dest\<lparr>max_datagram_frame_size := v\<rparr>, p))
       else if param_type \<in> {0x03, 0x02, 0x0A, 0x0D, 0x0C, 0x00, 0x10, 0x0F, 0x0B, 0x0E} then
         Err ERR_MALFORMED_TRANSPORT_PARAM
       else
         or_malformed (decode_varint p) (\<lambda>(valuelen, p).
           if length p < unat valuelen then Err ERR_MALFORMED_TRANSPORT_PARAM
           else Ok (dest, drop (unat valuelen) p)))"

lemma or_malformed_eq_Ok:
  "or_malformed m f = Ok y \<longleftrightarrow> (\<exists>x. m = Ok (Some x) \<and> f x = Ok y)"
  by (auto simp: or_malformed_def bindr_eq_Ok split: option.splits)

lemma decode_varint_total: "\<exists>r. decode_varint p = Ok r"
proof (cases "p = []")
  case False
  then obtain k where "dwnx_get_uvarintlen p = Ok k" using get_uvarintlen_total by blast
  then show ?thesis using get_uvarint_value [of p k] by (auto simp: decode_varint_def)
qed (simp add: decode_varint_def)

lemma decode_varint_Some:
  assumes "decode_varint p = Ok (Some (v, p'))"
  shows "length p' < length p"
proof -
  from assms have "p \<noteq> []" by (auto simp: decode_varint_def)
  then obtain k where k: "dwnx_get_uvarintlen p = Ok k" using get_uvarintlen_total by blast
  with assms \<open>p \<noteq> []\<close> have "k \<le> length p" by (auto simp: decode_varint_def split: if_splits)
  with get_uvarint_value [OF k this] get_uvarintlen_bounds [OF k] assms k \<open>p \<noteq> []\<close>
  show ?thesis by (auto simp: decode_varint_def)
qed

lemma decode_varint_param_Some:
  assumes "decode_varint_param p = Ok (Some (v, p'))"
  shows "length p' < length p" and "v \<le> DWNX_MAX_VARINT"
proof -
  obtain r where r: "decode_varint p = Ok r" using decode_varint_total by blast
  with assms have "r \<noteq> None" by (cases r) (auto simp: decode_varint_param_def)
  then obtain vl q where vq: "r = Some (vl, q)" by (metis option.exhaust surj_pair)
  from assms have "q \<noteq> []" and le: "unat vl \<le> length q"
    by (auto simp: decode_varint_param_def r vq split: if_splits)
  then obtain k where k: "dwnx_get_uvarintlen q = Ok k" using get_uvarintlen_total by blast
  from assms \<open>q \<noteq> []\<close> le have vl: "vl = of_nat k" and g: "dwnx_get_uvarint q = Ok (v, p')"
    by (auto simp: decode_varint_param_def r vq k bindr_eq_Ok split: if_splits)
  have kb: "0 < k" "k \<le> 8" using get_uvarintlen_bounds [OF k] by auto
  then have "unat vl = k" by (simp add: vl unat_of_nat)
  with le have "k \<le> length q" by simp
  with g get_uvarint_value [OF k] have v: "v = uvvalue (take k q)" "p' = drop k q" by auto
  show "v \<le> DWNX_MAX_VARINT"
    unfolding v(1) by (rule uvvalue_le) (use kb \<open>q \<noteq> []\<close> in auto)
  show "length p' < length p"
    using v(2) decode_varint_Some [of p vl q] r vq kb by simp
qed

lemma decode_varint_param_total: "\<exists>r. decode_varint_param p = Ok r"
proof -
  obtain r where r: "decode_varint p = Ok r" using decode_varint_total by blast
  show ?thesis
  proof (cases r)
    case None
    then show ?thesis by (simp add: r decode_varint_param_def)
  next
    case (Some vq)
    obtain vl q where vq: "vq = (vl, q)" by fastforce
    show ?thesis
    proof (cases "q = []")
      case True
      then show ?thesis by (simp add: r Some vq decode_varint_param_def)
    next
      case False
      then obtain k where k: "dwnx_get_uvarintlen q = Ok k" using get_uvarintlen_total by blast
      then have "unat (of_nat k :: u64) = k"
        using get_uvarintlen_bounds [OF k] by (simp add: unat_of_nat)
      then have "of_nat k = vl \<Longrightarrow> unat vl = k" by auto
      with k False show ?thesis
        using get_uvarint_value [OF k]
        by (auto simp: r Some vq decode_varint_param_def)
    qed
  qed
qed

lemma decode_transport_param_shrinks:
  assumes "decode_transport_param dest p = Ok (dest', p')"
  shows "length p' < length p"
proof -
  obtain t q where q: "decode_varint p = Ok (Some (t, q))"
    using assms by (auto simp: decode_transport_param_def or_malformed_eq_Ok)
  have param: "length r < length p" if "decode_varint_param q = Ok (Some (v, r))" for v r
    using decode_varint_param_Some(1) [OF that] decode_varint_Some [OF q] by simp
  have skip: "length (drop n r) < length p" if "decode_varint q = Ok (Some (v, r))" for n v r
    using decode_varint_Some [OF that] decode_varint_Some [OF q] by simp
  show ?thesis
    using assms
    by (auto simp: decode_transport_param_def or_malformed_eq_Ok q
        split: if_splits intro: param skip)
qed

text \<open>The loop \<open>for (; (size_t)(end - p) >= 2;)\<close>, and the check after it.\<close>

function transport_params_decode_loop ::
    "dwnx_transport_params \<Rightarrow> bytes \<Rightarrow> dwnx_transport_params res" where
  "transport_params_decode_loop dest p =
     (if length p \<ge> 2 then
        (case decode_transport_param dest p of
           Ok (dest', p') \<Rightarrow> transport_params_decode_loop dest' p'
         | Err e \<Rightarrow> Err e
         | Abort \<Rightarrow> Abort)
      else if p \<noteq> [] then Err ERR_MALFORMED_TRANSPORT_PARAM
      else Ok dest)"
  by pat_completeness auto
termination
  by (relation "measure (\<lambda>(dest, p). length p)") (auto dest: decode_transport_param_shrinks)

declare transport_params_decode_loop.simps [simp del]

definition dwnx_transport_params_decode :: "bytes \<Rightarrow> dwnx_transport_params res" where
  "dwnx_transport_params_decode data =
     transport_params_decode_loop dwnx_transport_params_default data"

section \<open>Decoding is total, and its results are in range\<close>

definition transport_params_valid :: "dwnx_transport_params \<Rightarrow> bool" where
  "transport_params_valid params \<longleftrightarrow>
     initial_max_stream_data_bidi_local params \<le> DWNX_MAX_VARINT \<and>
     initial_max_stream_data_bidi_remote params \<le> DWNX_MAX_VARINT \<and>
     initial_max_stream_data_uni params \<le> DWNX_MAX_VARINT \<and>
     initial_max_data params \<le> DWNX_MAX_VARINT \<and>
     initial_max_streams_bidi params \<le> DWNX_MAX_STREAMS \<and>
     initial_max_streams_uni params \<le> DWNX_MAX_STREAMS \<and>
     max_record_size params \<le> DWNX_MAX_VARINT \<and>
     max_datagram_frame_size params \<le> DWNX_MAX_VARINT"

lemma DWNX_MAX_STREAMS_le: "n \<le> DWNX_MAX_STREAMS \<Longrightarrow> n \<le> DWNX_MAX_VARINT"
  by (simp add: DWNX_MAX_STREAMS_def DWNX_MAX_VARINT_def word_le_nat_alt)

lemma transport_params_default_valid: "transport_params_valid dwnx_transport_params_default"
  by (simp add: transport_params_valid_def dwnx_transport_params_default_def
      DWNX_DEFAULT_MAX_RECORD_SIZE_def DWNX_MAX_VARINT_def)

lemma or_malformed_eq_Abort:
  "or_malformed m f = Abort \<longleftrightarrow> m = Abort \<or> (\<exists>x. m = Ok (Some x) \<and> f x = Abort)"
  by (auto simp: or_malformed_def bindr_eq_Abort split: option.splits)

lemma decode_varint_neq_Abort [simp]: "decode_varint p \<noteq> Abort"
  using decode_varint_total [of p] by auto

lemma decode_varint_param_neq_Abort [simp]: "decode_varint_param p \<noteq> Abort"
  using decode_varint_param_total [of p] by auto

lemma decode_transport_param_neq_Abort: "decode_transport_param dest p \<noteq> Abort"
  by (auto simp: decode_transport_param_def or_malformed_eq_Abort split: if_splits)

lemma decode_transport_param_valid:
  "transport_params_valid dest \<Longrightarrow> decode_transport_param dest p = Ok (dest', p') \<Longrightarrow>
     transport_params_valid dest'"
  using decode_varint_param_Some(2)
  by (auto simp: decode_transport_param_def or_malformed_eq_Ok transport_params_valid_def
      not_less split: if_splits)

lemma transport_params_decode_loop_neq_Abort: "transport_params_decode_loop dest p \<noteq> Abort"
proof (induction dest p rule: transport_params_decode_loop.induct)
  case (1 dest p)
  show ?case
    using "1.IH" decode_transport_param_neq_Abort [of dest p]
    by (auto simp: transport_params_decode_loop.simps [of dest p] split: res.splits)
qed

lemma transport_params_decode_loop_valid:
  "transport_params_valid dest \<Longrightarrow> transport_params_decode_loop dest p = Ok dest' \<Longrightarrow>
     transport_params_valid dest'"
proof (induction dest p rule: transport_params_decode_loop.induct)
  case (1 dest p)
  show ?case
    using 1 decode_transport_param_valid [of dest p]
    by (auto simp: transport_params_decode_loop.simps [of dest p] split: res.splits if_splits)
qed

section \<open>Decoding what was encoded\<close>

definition param_bytes :: "bool \<Rightarrow> dwnx_transport_param_id \<Rightarrow> u64 \<Rightarrow> bytes" where
  "param_bytes cond pid v =
     (if cond then uvbytes pid @ uvbytes (of_nat (uvlen v)) @ uvbytes v else [])"

lemma of_nat_uvlen_le: "of_nat (uvlen v) \<le> DWNX_MAX_VARINT" "unat (of_nat (uvlen v) :: u64) = uvlen v"
  by (simp_all add: uvlen_def DWNX_MAX_VARINT_def)

lemma add_param_valid:
  "pid \<le> DWNX_MAX_VARINT \<Longrightarrow> (cond \<Longrightarrow> v \<le> DWNX_MAX_VARINT) \<Longrightarrow>
     add_param p cond pid v = Ok (p @ param_bytes cond pid v)"
  by (simp add: add_param_def write_varint_param_def param_bytes_def of_nat_uvlen_le)

lemma add_paramlen_valid:
  "pid \<le> DWNX_MAX_VARINT \<Longrightarrow> (cond \<Longrightarrow> v \<le> DWNX_MAX_VARINT) \<Longrightarrow>
     add_paramlen len cond pid v = Ok (len + length (param_bytes cond pid v))"
  by (simp add: add_paramlen_def varint_paramlen_def param_bytes_def of_nat_uvlen_le)

definition transport_params_bytes :: "dwnx_transport_params \<Rightarrow> bytes" where
  "transport_params_bytes params =
     param_bytes (initial_max_stream_data_bidi_local params \<noteq> 0) 0x05
       (initial_max_stream_data_bidi_local params) @
     param_bytes (initial_max_stream_data_bidi_remote params \<noteq> 0) 0x06
       (initial_max_stream_data_bidi_remote params) @
     param_bytes (initial_max_stream_data_uni params \<noteq> 0) 0x07
       (initial_max_stream_data_uni params) @
     param_bytes (initial_max_data params \<noteq> 0) 0x04 (initial_max_data params) @
     param_bytes (initial_max_streams_bidi params \<noteq> 0) 0x08 (initial_max_streams_bidi params) @
     param_bytes (initial_max_streams_uni params \<noteq> 0) 0x09 (initial_max_streams_uni params) @
     param_bytes (max_idle_timeout params \<noteq> 0) 0x01 (max_idle_timeout params div DWNX_MILLISECONDS) @
     param_bytes (max_record_size params \<noteq> of_nat DWNX_DEFAULT_MAX_RECORD_SIZE)
       DWNX_TRANSPORT_PARAM_MAX_RECORD_SIZE (max_record_size params) @
     param_bytes (max_datagram_frame_size params \<noteq> 0) 0x20 (max_datagram_frame_size params)"

lemma idle_ms_valid: "t div DWNX_MILLISECONDS \<le> DWNX_MAX_VARINT"
  and idle_ms_small: "\<not> t div DWNX_MILLISECONDS > UINT64_MAX div DWNX_MILLISECONDS"
proof -
  have t: "unat (t div DWNX_MILLISECONDS) = unat t div 1000000"
    by (simp add: DWNX_MILLISECONDS_def unat_div)
  have "unat t < 18446744073709551616" using unsigned_less [of t] by simp
  then have b: "unat t div 1000000 \<le> 18446744073709" by simp
  show "t div DWNX_MILLISECONDS \<le> DWNX_MAX_VARINT"
    using b by (simp add: t unat_le_max_varint)
  have "unat (UINT64_MAX div DWNX_MILLISECONDS) = 18446744073709"
    by (simp add: DWNX_MILLISECONDS_def UINT64_MAX_def unat_div)
  with b show "\<not> t div DWNX_MILLISECONDS > UINT64_MAX div DWNX_MILLISECONDS"
    by (simp only: word_less_nat_alt t)
qed

lemma param_id_valid:
  "DWNX_TRANSPORT_PARAM_MAX_RECORD_SIZE \<le> DWNX_MAX_VARINT"
  by (simp add: DWNX_TRANSPORT_PARAM_MAX_RECORD_SIZE_def DWNX_MAX_VARINT_def)

lemma small_id_valid: "pid \<le> 0x20 \<Longrightarrow> pid \<le> DWNX_MAX_VARINT"
  by (simp add: DWNX_MAX_VARINT_def word_le_nat_alt)

lemma transport_params_encode_valid:
  assumes "transport_params_valid params"
  shows "transport_params_len params = Ok (length (transport_params_bytes params))"
    and "transport_params_write params = Ok (transport_params_bytes params)"
  using assms
  by (simp_all add: transport_params_valid_def transport_params_len_def transport_params_write_def
      transport_params_bytes_def add_paramlen_valid add_param_valid idle_ms_valid param_id_valid
      small_id_valid DWNX_MAX_STREAMS_le)

lemma decode_varint_put [simp]:
  "n \<le> DWNX_MAX_VARINT \<Longrightarrow> decode_varint (uvbytes n @ r) = Ok (Some (n, r))"
  by (simp add: decode_varint_def)

lemma decode_varint_param_put [simp]:
  "v \<le> DWNX_MAX_VARINT \<Longrightarrow>
     decode_varint_param (uvbytes (of_nat (uvlen v)) @ uvbytes v @ r) = Ok (Some (v, r))"
  by (simp add: decode_varint_param_def of_nat_uvlen_le)

text \<open>One turn of the loop takes one encoded parameter; one that is not encoded has its default
  value.\<close>

lemma decode_loop_param:
  assumes "decode_transport_param dest (uvbytes pid @ uvbytes (of_nat (uvlen v)) @ uvbytes v @ r)
             = Ok (dest', r)"
    and "\<not> cond \<Longrightarrow> dest' = dest"
    and "transport_params_decode_loop dest' r = res"
  shows "transport_params_decode_loop dest (param_bytes cond pid v @ r) = res"
proof (cases cond)
  case True
  have "2 \<le> uvlen pid + (uvlen (of_nat (uvlen v)) + (uvlen v + length r))"
    using uvlen_pos [of pid] uvlen_pos [of v] by linarith
  with True assms show ?thesis
    by (simp add: param_bytes_def transport_params_decode_loop.simps
        [of dest "uvbytes pid @ uvbytes (of_nat (uvlen v)) @ uvbytes v @ r"])
qed (use assms(2,3) in \<open>simp add: param_bytes_def\<close>)

text \<open>Each parameter, by its identifier.\<close>

lemma decode_transport_param_put:
  assumes "v \<le> DWNX_MAX_VARINT"
  shows "decode_transport_param dest (uvbytes 0x05 @ uvbytes (of_nat (uvlen v)) @ uvbytes v @ r)
           = Ok (dest\<lparr>initial_max_stream_data_bidi_local := v\<rparr>, r)"
    and "decode_transport_param dest (uvbytes 0x06 @ uvbytes (of_nat (uvlen v)) @ uvbytes v @ r)
           = Ok (dest\<lparr>initial_max_stream_data_bidi_remote := v\<rparr>, r)"
    and "decode_transport_param dest (uvbytes 0x07 @ uvbytes (of_nat (uvlen v)) @ uvbytes v @ r)
           = Ok (dest\<lparr>initial_max_stream_data_uni := v\<rparr>, r)"
    and "decode_transport_param dest (uvbytes 0x04 @ uvbytes (of_nat (uvlen v)) @ uvbytes v @ r)
           = Ok (dest\<lparr>initial_max_data := v\<rparr>, r)"
    and "v \<le> DWNX_MAX_STREAMS \<Longrightarrow>
         decode_transport_param dest (uvbytes 0x08 @ uvbytes (of_nat (uvlen v)) @ uvbytes v @ r)
           = Ok (dest\<lparr>initial_max_streams_bidi := v\<rparr>, r)"
    and "v \<le> DWNX_MAX_STREAMS \<Longrightarrow>
         decode_transport_param dest (uvbytes 0x09 @ uvbytes (of_nat (uvlen v)) @ uvbytes v @ r)
           = Ok (dest\<lparr>initial_max_streams_uni := v\<rparr>, r)"
    and "\<not> v > UINT64_MAX div DWNX_MILLISECONDS \<Longrightarrow>
         decode_transport_param dest (uvbytes 0x01 @ uvbytes (of_nat (uvlen v)) @ uvbytes v @ r)
           = Ok (dest\<lparr>max_idle_timeout := v * DWNX_MILLISECONDS\<rparr>, r)"
    and "decode_transport_param dest
           (uvbytes DWNX_TRANSPORT_PARAM_MAX_RECORD_SIZE @ uvbytes (of_nat (uvlen v)) @ uvbytes v @ r)
           = Ok (dest\<lparr>max_record_size := v\<rparr>, r)"
    and "decode_transport_param dest (uvbytes 0x20 @ uvbytes (of_nat (uvlen v)) @ uvbytes v @ r)
           = Ok (dest\<lparr>max_datagram_frame_size := v\<rparr>, r)"
  using assms
  by (simp_all add: decode_transport_param_def or_malformed_def small_id_valid param_id_valid not_less
      DWNX_TRANSPORT_PARAM_MAX_RECORD_SIZE_def param_id_valid [unfolded DWNX_TRANSPORT_PARAM_MAX_RECORD_SIZE_def])

text \<open>The idle timeout goes over the wire in milliseconds.\<close>

definition wire_params :: "dwnx_transport_params \<Rightarrow> dwnx_transport_params" where
  "wire_params params =
     params\<lparr>max_idle_timeout := max_idle_timeout params div DWNX_MILLISECONDS * DWNX_MILLISECONDS\<rparr>"

lemma transport_params_decode_bytes:
  assumes "transport_params_valid params"
  shows "dwnx_transport_params_decode (transport_params_bytes params) = Ok (wire_params params)"
proof -
  note valid = assms [unfolded transport_params_valid_def]
  note last = decode_loop_param [OF decode_transport_param_put(9), where r = "[]", simplified]
  have "transport_params_decode_loop dwnx_transport_params_default
      (transport_params_bytes params) = Ok (wire_params params)"
    unfolding transport_params_bytes_def
    by (intro decode_transport_param_put [THEN decode_loop_param] last)
       (use valid in \<open>simp_all add: DWNX_MAX_STREAMS_le idle_ms_valid idle_ms_small [unfolded not_less]
          not_less dwnx_transport_params_default_def wire_params_def transport_params_decode_loop.simps\<close>)
  then show ?thesis
    by (simp add: dwnx_transport_params_decode_def)
qed

section \<open>Properties\<close>



text \<open>C22: Decoding transport parameters never fails an assertion nor reads outside the buffer,
  whatever the peer sends, and what it accepts is in range.\<close>

theorem transport_params_decode_safe:
  "dwnx_transport_params_decode data \<noteq> Abort \<and>
   (dwnx_transport_params_decode data = Ok params \<longrightarrow> transport_params_valid params)"
  using transport_params_decode_loop_neq_Abort
    transport_params_decode_loop_valid [OF transport_params_default_valid]
  by (auto simp: dwnx_transport_params_decode_def)

theorem transport_params_decode_safe_witness:
  "transport_params_valid dwnx_transport_params_default"
proof -
  have "dwnx_transport_params_decode [] = Ok dwnx_transport_params_default"
    by (simp add: dwnx_transport_params_decode_def transport_params_decode_loop.simps)
  then show ?thesis using transport_params_decode_safe [of "[]" dwnx_transport_params_default] by simp
qed

end
