(* ===== verification/Vec.thy ===== *)
theory Vec
  imports Prelude
begin

text \<open>
  \<open>lib/dwnx_vec.c\<close>: vectors of buffers. A \<open>dwnx_vec\<close> is the bytes it references; an array of
  them is a list.
\<close>

type_synonym dwnx_vec = bytes

definition dwnx_vec_init :: "bytes \<Rightarrow> nat \<Rightarrow> dwnx_vec" where
  "dwnx_vec_init base len = take len base"

text \<open>What is left of a vector after its first \<open>len\<close> bytes.\<close>

definition dwnx_vec_sub :: "dwnx_vec \<Rightarrow> nat \<Rightarrow> dwnx_vec" where
  "dwnx_vec_sub vec len = drop len vec"

text \<open>The sum wraps as \<open>uint64_t\<close> does.\<close>

fun dwnx_vec_len :: "dwnx_vec list \<Rightarrow> u64" where
  "dwnx_vec_len [] = 0"
| "dwnx_vec_len (v # vs) = of_nat (length v) + dwnx_vec_len vs"

text \<open>The loop of \<open>dwnx_vec_len_varint\<close> from a partial sum; \<open>None\<close> is the result -1.\<close>

fun vec_len_varint_loop :: "u64 \<Rightarrow> dwnx_vec list \<Rightarrow> u64 option" where
  "vec_len_varint_loop res [] = Some res"
| "vec_len_varint_loop res (v # vs) =
     (if length v > unat (DWNX_MAX_VARINT - res) then None
      else vec_len_varint_loop (res + of_nat (length v)) vs)"

definition dwnx_vec_len_varint :: "dwnx_vec list \<Rightarrow> u64 option" where
  "dwnx_vec_len_varint vs = vec_len_varint_loop 0 vs"

text \<open>The vectors copied to a destination of \<open>dstcnt\<close> entries.\<close>

fun dwnx_vec_copy_at_most :: "nat \<Rightarrow> dwnx_vec list \<Rightarrow> nat \<Rightarrow> dwnx_vec list" where
  "dwnx_vec_copy_at_most dstcnt [] left = []"
| "dwnx_vec_copy_at_most dstcnt (v # vs) left =
     (if left = 0 \<or> dstcnt = 0 then []
      else if v = [] then dwnx_vec_copy_at_most dstcnt vs left
      else if length v > left then [take left v]
      else v # dwnx_vec_copy_at_most (dstcnt - 1) vs (left - length v))"

lemma dwnx_vec_len_concat: "dwnx_vec_len vs = of_nat (length (concat vs))"
  by (induction vs) simp_all

lemma vec_len_varint_loop_eq:
  "res \<le> DWNX_MAX_VARINT \<Longrightarrow> vec_len_varint_loop res vs =
     (if unat res + length (concat vs) \<le> unat DWNX_MAX_VARINT
      then Some (res + of_nat (length (concat vs))) else None)"
proof (induction vs arbitrary: res)
  case Nil
  then show ?case by (simp add: word_le_nat_alt)
next
  case (Cons v vs)
  have sub: "unat (DWNX_MAX_VARINT - res) = unat DWNX_MAX_VARINT - unat res"
    using Cons.prems by (simp add: unat_sub)
  show ?case
  proof (cases "length v > unat (DWNX_MAX_VARINT - res)")
    case True
    with Cons.prems show ?thesis by (simp add: sub word_le_nat_alt)
  next
    case False
    have "unat DWNX_MAX_VARINT < 2 ^ 64" by (simp add: DWNX_MAX_VARINT_def)
    moreover have le: "unat res + length v \<le> unat DWNX_MAX_VARINT"
      using False Cons.prems by (simp add: sub word_le_nat_alt)
    ultimately have u: "unat (res + of_nat (length v)) = unat res + length v"
      by (simp add: unat_word_ariths unat_of_nat)
    then have "res + of_nat (length v) \<le> DWNX_MAX_VARINT"
      using le by (simp add: word_le_nat_alt)
    with False show ?thesis
      by (simp add: Cons.IH u add.assoc)
  qed
qed

lemma dwnx_vec_len_varint_eq:
  "dwnx_vec_len_varint vs =
     (if length (concat vs) \<le> unat DWNX_MAX_VARINT then Some (dwnx_vec_len vs) else None)"
  by (simp add: dwnx_vec_len_varint_def vec_len_varint_loop_eq dwnx_vec_len_concat)

lemma dwnx_vec_copy_at_most_prefix:
  "length vs \<le> dstcnt \<Longrightarrow> concat (dwnx_vec_copy_at_most dstcnt vs left) = take left (concat vs)"
proof (induction dstcnt vs left rule: dwnx_vec_copy_at_most.induct)
  case (2 dstcnt v vs left)
  then show ?case by (cases dstcnt) auto
qed simp

end
