(* ===== verification/Frame.thy ===== *)
theory Frame
  imports TransportParams Vec
begin

text \<open>
  \<open>lib/dwnx_frame.c\<close> and \<open>lib/dwnx_frame.h\<close>: the QMux frames, their encoders and decoders.

  Each member of the union \<open>dwnx_frame\<close> is a record, the union a datatype. An encoder takes the
  size of the output buffer and returns the bytes it writes at \<open>out\<close> (the returned length is
  their number); a decoder takes the payload and returns the frame with the number of bytes
  read. The assertions of the code are checked, and a read outside the payload aborts.
\<close>

unbundle bit_operations_syntax

section \<open>Frame types\<close>

abbreviation DWNX_FRAME_QX_TRANSPORT_PARAMETERS :: u64 where
  "DWNX_FRAME_QX_TRANSPORT_PARAMETERS \<equiv> 0x3F5153300D0A0D0A"
abbreviation DWNX_FRAME_QX_PING_REQUEST :: u64 where
  "DWNX_FRAME_QX_PING_REQUEST \<equiv> 0x348C67529EF8C7BD"
abbreviation DWNX_FRAME_QX_PING_RESPONSE :: u64 where
  "DWNX_FRAME_QX_PING_RESPONSE \<equiv> 0x348C67529EF8C7BE"
abbreviation DWNX_FRAME_PADDING :: u64 where "DWNX_FRAME_PADDING \<equiv> 0x00"
abbreviation DWNX_FRAME_RESET_STREAM :: u64 where "DWNX_FRAME_RESET_STREAM \<equiv> 0x04"
abbreviation DWNX_FRAME_STOP_SENDING :: u64 where "DWNX_FRAME_STOP_SENDING \<equiv> 0x05"
abbreviation DWNX_FRAME_STREAM :: u64 where "DWNX_FRAME_STREAM \<equiv> 0x08"
abbreviation DWNX_FRAME_MAX_DATA :: u64 where "DWNX_FRAME_MAX_DATA \<equiv> 0x10"
abbreviation DWNX_FRAME_MAX_STREAM_DATA :: u64 where "DWNX_FRAME_MAX_STREAM_DATA \<equiv> 0x11"
abbreviation DWNX_FRAME_MAX_STREAMS_BIDI :: u64 where "DWNX_FRAME_MAX_STREAMS_BIDI \<equiv> 0x12"
abbreviation DWNX_FRAME_MAX_STREAMS_UNI :: u64 where "DWNX_FRAME_MAX_STREAMS_UNI \<equiv> 0x13"
abbreviation DWNX_FRAME_DATA_BLOCKED :: u64 where "DWNX_FRAME_DATA_BLOCKED \<equiv> 0x14"
abbreviation DWNX_FRAME_STREAM_DATA_BLOCKED :: u64 where "DWNX_FRAME_STREAM_DATA_BLOCKED \<equiv> 0x15"
abbreviation DWNX_FRAME_STREAMS_BLOCKED_BIDI :: u64 where "DWNX_FRAME_STREAMS_BLOCKED_BIDI \<equiv> 0x16"
abbreviation DWNX_FRAME_STREAMS_BLOCKED_UNI :: u64 where "DWNX_FRAME_STREAMS_BLOCKED_UNI \<equiv> 0x17"
abbreviation DWNX_FRAME_CONNECTION_CLOSE :: u64 where "DWNX_FRAME_CONNECTION_CLOSE \<equiv> 0x1C"
abbreviation DWNX_FRAME_CONNECTION_CLOSE_APP :: u64 where "DWNX_FRAME_CONNECTION_CLOSE_APP \<equiv> 0x1D"
abbreviation DWNX_FRAME_DATAGRAM :: u64 where "DWNX_FRAME_DATAGRAM \<equiv> 0x30"
abbreviation DWNX_FRAME_DATAGRAM_LEN :: u64 where "DWNX_FRAME_DATAGRAM_LEN \<equiv> 0x31"

abbreviation DWNX_STREAM_FIN_BIT :: u8 where "DWNX_STREAM_FIN_BIT \<equiv> 0x01"
abbreviation DWNX_STREAM_LEN_BIT :: u8 where "DWNX_STREAM_LEN_BIT \<equiv> 0x02"
abbreviation DWNX_STREAM_OFF_BIT :: u8 where "DWNX_STREAM_OFF_BIT \<equiv> 0x04"

section \<open>Frames\<close>

record dwnx_frame_qx_transport_parameters =
  qtp_type :: u64
  qtp_params :: dwnx_transport_params

record dwnx_frame_qx_ping =
  ping_type :: u64
  ping_seq :: u64

record dwnx_frame_padding =
  padding_type :: u64
  padding_len :: nat

record dwnx_frame_stream =
  stream_type :: u64
  stream_flags :: u8
  stream_fin :: bool
  stream_stream_id :: i64
  stream_offset :: u64
  stream_len :: nat
  stream_data :: "dwnx_vec list"

record dwnx_frame_reset_stream =
  rst_type :: u64
  rst_stream_id :: i64
  rst_app_error_code :: u64
  rst_final_size :: u64

record dwnx_frame_stop_sending =
  stop_type :: u64
  stop_stream_id :: i64
  stop_app_error_code :: u64

record dwnx_frame_max_data =
  md_type :: u64
  md_max_data :: u64

record dwnx_frame_max_stream_data =
  msd_type :: u64
  msd_stream_id :: i64
  msd_max_stream_data :: u64

record dwnx_frame_max_streams =
  ms_type :: u64
  ms_max_streams :: u64

record dwnx_frame_data_blocked =
  db_type :: u64
  db_max_data :: u64

record dwnx_frame_stream_data_blocked =
  sdb_type :: u64
  sdb_stream_id :: i64
  sdb_max_stream_data :: u64

record dwnx_frame_streams_blocked =
  sb_type :: u64
  sb_max_streams :: u64

record dwnx_frame_connection_close =
  cc_type :: u64
  cc_error_code :: u64
  cc_frame_type :: u64
  cc_reasonlen :: nat
  cc_reason :: bytes

record dwnx_frame_datagram =
  dgram_type :: u64
  dgram_len :: nat
  dgram_data :: "dwnx_vec list"

datatype dwnx_frame =
    Fr_qx_transport_parameters dwnx_frame_qx_transport_parameters
  | Fr_qx_ping dwnx_frame_qx_ping
  | Fr_padding dwnx_frame_padding
  | Fr_stream dwnx_frame_stream
  | Fr_reset_stream dwnx_frame_reset_stream
  | Fr_stop_sending dwnx_frame_stop_sending
  | Fr_max_data dwnx_frame_max_data
  | Fr_max_stream_data dwnx_frame_max_stream_data
  | Fr_max_streams dwnx_frame_max_streams
  | Fr_data_blocked dwnx_frame_data_blocked
  | Fr_stream_data_blocked dwnx_frame_stream_data_blocked
  | Fr_streams_blocked dwnx_frame_streams_blocked
  | Fr_connection_close dwnx_frame_connection_close
  | Fr_datagram dwnx_frame_datagram

section \<open>Encoders\<close>

text \<open>\<open>if (outlen < len) { return DWNX_ERR_NOBUF; }\<close>, the writes, \<open>assert(p - out == len)\<close> and
  \<open>return len\<close>, which every encoder ends with.\<close>

definition encode_checked :: "nat \<Rightarrow> nat \<Rightarrow> bytes res \<Rightarrow> bytes res" where
  "encode_checked outlen len writes =
     (if outlen < len then Err ERR_NOBUF
      else bindr writes (\<lambda>p. assertr (length p = len) (Ok p)))"

definition dwnx_frame_encode_qx_transport_parameters ::
    "nat \<Rightarrow> dwnx_frame_qx_transport_parameters \<Rightarrow> bytes res" where
  "dwnx_frame_encode_qx_transport_parameters outlen fr =
     bindr (dwnx_transport_params_encode None (qtp_params fr)) (\<lambda>(paramslen, _).
     bindr (dwnx_put_uvarintlen (qtp_type fr)) (\<lambda>n.
     bindr (dwnx_put_uvarintlen (of_nat paramslen)) (\<lambda>m.
     encode_checked outlen (n + m + paramslen)
       (bindr (dwnx_put_uvarint (qtp_type fr)) (\<lambda>a.
        bindr (dwnx_put_uvarint (of_nat paramslen)) (\<lambda>b.
        case dwnx_transport_params_encode (Some paramslen) (qtp_params fr) of
          Ok (nwrite, c) \<Rightarrow> assertr (nwrite = paramslen) (Ok (a @ b @ c))
        | Err e \<Rightarrow> Abort
        | Abort \<Rightarrow> Abort))))))"

definition dwnx_frame_encode_qx_ping :: "nat \<Rightarrow> dwnx_frame_qx_ping \<Rightarrow> bytes res" where
  "dwnx_frame_encode_qx_ping outlen fr =
     bindr (dwnx_put_uvarintlen (ping_type fr)) (\<lambda>n.
     bindr (dwnx_put_uvarintlen (ping_seq fr)) (\<lambda>m.
     encode_checked outlen (n + m)
       (bindr (dwnx_put_uvarint (ping_type fr)) (\<lambda>a.
        bindr (dwnx_put_uvarint (ping_seq fr)) (\<lambda>b.
        Ok (a @ b))))))"

definition dwnx_frame_encode_padding :: "nat \<Rightarrow> dwnx_frame_padding \<Rightarrow> bytes res" where
  "dwnx_frame_encode_padding outlen fr =
     encode_checked outlen (padding_len fr) (Ok (replicate (padding_len fr) 0))"

text \<open>The loop that copies at most \<open>left\<close> bytes of the data vectors.\<close>

fun copy_stream_data :: "nat \<Rightarrow> dwnx_vec list \<Rightarrow> bytes" where
  "copy_stream_data left [] = []"
| "copy_stream_data left (v # vs) =
     (if left = 0 then []
      else if v = [] then copy_stream_data left vs
      else take left v @ copy_stream_data (left - min left (length v)) vs)"

definition dwnx_frame_encode_stream :: "nat \<Rightarrow> dwnx_frame_stream \<Rightarrow> bytes res" where
  "dwnx_frame_encode_stream outlen fr =
     (let flags = DWNX_STREAM_LEN_BIT;
          flags = (if stream_fin fr then flags OR DWNX_STREAM_FIN_BIT else flags);
          flags = (if stream_offset fr \<noteq> 0 then flags OR DWNX_STREAM_OFF_BIT else flags)
      in bindr (if stream_offset fr \<noteq> 0 then dwnx_put_uvarintlen (stream_offset fr) else Ok 0) (\<lambda>n1.
         bindr (dwnx_put_uvarintlen (u64_of_i64 (stream_stream_id fr))) (\<lambda>n2.
         bindr (dwnx_put_uvarintlen (of_nat (stream_len fr))) (\<lambda>n3.
         encode_checked outlen (1 + n1 + n2 + n3 + stream_len fr)
           (bindr (dwnx_put_uvarint (u64_of_i64 (stream_stream_id fr))) (\<lambda>a.
            bindr (if stream_offset fr \<noteq> 0 then dwnx_put_uvarint (stream_offset fr) else Ok []) (\<lambda>b.
            bindr (dwnx_put_uvarint (of_nat (stream_len fr))) (\<lambda>c.
            Ok ([flags OR ucast DWNX_FRAME_STREAM] @ a @ b @ c
                @ copy_stream_data (stream_len fr) (stream_data fr))))))))))"

definition dwnx_frame_encode_reset_stream :: "nat \<Rightarrow> dwnx_frame_reset_stream \<Rightarrow> bytes res" where
  "dwnx_frame_encode_reset_stream outlen fr =
     bindr (dwnx_put_uvarintlen (u64_of_i64 (rst_stream_id fr))) (\<lambda>n1.
     bindr (dwnx_put_uvarintlen (rst_app_error_code fr)) (\<lambda>n2.
     bindr (dwnx_put_uvarintlen (rst_final_size fr)) (\<lambda>n3.
     encode_checked outlen (1 + n1 + n2 + n3)
       (bindr (dwnx_put_uvarint (u64_of_i64 (rst_stream_id fr))) (\<lambda>a.
        bindr (dwnx_put_uvarint (rst_app_error_code fr)) (\<lambda>b.
        bindr (dwnx_put_uvarint (rst_final_size fr)) (\<lambda>c.
        Ok ([ucast DWNX_FRAME_RESET_STREAM] @ a @ b @ c))))))))"

definition dwnx_frame_encode_stop_sending :: "nat \<Rightarrow> dwnx_frame_stop_sending \<Rightarrow> bytes res" where
  "dwnx_frame_encode_stop_sending outlen fr =
     bindr (dwnx_put_uvarintlen (u64_of_i64 (stop_stream_id fr))) (\<lambda>n1.
     bindr (dwnx_put_uvarintlen (stop_app_error_code fr)) (\<lambda>n2.
     encode_checked outlen (1 + n1 + n2)
       (bindr (dwnx_put_uvarint (u64_of_i64 (stop_stream_id fr))) (\<lambda>a.
        bindr (dwnx_put_uvarint (stop_app_error_code fr)) (\<lambda>b.
        Ok ([ucast DWNX_FRAME_STOP_SENDING] @ a @ b))))))"

definition dwnx_frame_encode_max_data :: "nat \<Rightarrow> dwnx_frame_max_data \<Rightarrow> bytes res" where
  "dwnx_frame_encode_max_data outlen fr =
     bindr (dwnx_put_uvarintlen (md_max_data fr)) (\<lambda>n.
     encode_checked outlen (1 + n)
       (bindr (dwnx_put_uvarint (md_max_data fr)) (\<lambda>a.
        Ok ([ucast DWNX_FRAME_MAX_DATA] @ a))))"

definition dwnx_frame_encode_max_stream_data :: "nat \<Rightarrow> dwnx_frame_max_stream_data \<Rightarrow> bytes res" where
  "dwnx_frame_encode_max_stream_data outlen fr =
     bindr (dwnx_put_uvarintlen (u64_of_i64 (msd_stream_id fr))) (\<lambda>n1.
     bindr (dwnx_put_uvarintlen (msd_max_stream_data fr)) (\<lambda>n2.
     encode_checked outlen (1 + n1 + n2)
       (bindr (dwnx_put_uvarint (u64_of_i64 (msd_stream_id fr))) (\<lambda>a.
        bindr (dwnx_put_uvarint (msd_max_stream_data fr)) (\<lambda>b.
        Ok ([ucast DWNX_FRAME_MAX_STREAM_DATA] @ a @ b))))))"

definition dwnx_frame_encode_max_streams :: "nat \<Rightarrow> dwnx_frame_max_streams \<Rightarrow> bytes res" where
  "dwnx_frame_encode_max_streams outlen fr =
     bindr (dwnx_put_uvarintlen (ms_max_streams fr)) (\<lambda>n.
     encode_checked outlen (1 + n)
       (bindr (dwnx_put_uvarint (ms_max_streams fr)) (\<lambda>a.
        Ok ([ucast (ms_type fr)] @ a))))"

definition dwnx_frame_encode_data_blocked :: "nat \<Rightarrow> dwnx_frame_data_blocked \<Rightarrow> bytes res" where
  "dwnx_frame_encode_data_blocked outlen fr =
     bindr (dwnx_put_uvarintlen (db_max_data fr)) (\<lambda>n.
     encode_checked outlen (1 + n)
       (bindr (dwnx_put_uvarint (db_max_data fr)) (\<lambda>a.
        Ok ([ucast DWNX_FRAME_DATA_BLOCKED] @ a))))"

definition dwnx_frame_encode_stream_data_blocked ::
    "nat \<Rightarrow> dwnx_frame_stream_data_blocked \<Rightarrow> bytes res" where
  "dwnx_frame_encode_stream_data_blocked outlen fr =
     bindr (dwnx_put_uvarintlen (u64_of_i64 (sdb_stream_id fr))) (\<lambda>n1.
     bindr (dwnx_put_uvarintlen (sdb_max_stream_data fr)) (\<lambda>n2.
     encode_checked outlen (1 + n1 + n2)
       (bindr (dwnx_put_uvarint (u64_of_i64 (sdb_stream_id fr))) (\<lambda>a.
        bindr (dwnx_put_uvarint (sdb_max_stream_data fr)) (\<lambda>b.
        Ok ([ucast DWNX_FRAME_STREAM_DATA_BLOCKED] @ a @ b))))))"

definition dwnx_frame_encode_streams_blocked :: "nat \<Rightarrow> dwnx_frame_streams_blocked \<Rightarrow> bytes res" where
  "dwnx_frame_encode_streams_blocked outlen fr =
     bindr (dwnx_put_uvarintlen (sb_max_streams fr)) (\<lambda>n.
     encode_checked outlen (1 + n)
       (bindr (dwnx_put_uvarint (sb_max_streams fr)) (\<lambda>a.
        Ok ([ucast (sb_type fr)] @ a))))"

definition dwnx_frame_encode_connection_close ::
    "nat \<Rightarrow> dwnx_frame_connection_close \<Rightarrow> bytes res" where
  "dwnx_frame_encode_connection_close outlen fr =
     bindr (dwnx_put_uvarintlen (cc_error_code fr)) (\<lambda>n1.
     bindr (dwnx_put_uvarintlen (of_nat (cc_reasonlen fr))) (\<lambda>n2.
     bindr (if cc_type fr = DWNX_FRAME_CONNECTION_CLOSE
            then dwnx_put_uvarintlen (cc_frame_type fr) else Ok 0) (\<lambda>n3.
     encode_checked outlen (1 + n1 + n2 + cc_reasonlen fr + n3)
       (bindr (dwnx_put_uvarint (cc_error_code fr)) (\<lambda>a.
        bindr (if cc_type fr = DWNX_FRAME_CONNECTION_CLOSE
               then dwnx_put_uvarint (cc_frame_type fr) else Ok []) (\<lambda>b.
        bindr (dwnx_put_uvarint (of_nat (cc_reasonlen fr))) (\<lambda>c.
        Ok ([ucast (cc_type fr)] @ a @ b @ c @ take (cc_reasonlen fr) (cc_reason fr)))))))))"

definition dwnx_frame_encode_datagram :: "nat \<Rightarrow> dwnx_frame_datagram \<Rightarrow> bytes res" where
  "dwnx_frame_encode_datagram outlen fr =
     assertr (dgram_len fr = unat (dwnx_vec_len (dgram_data fr)))
       (bindr (if dgram_type fr = DWNX_FRAME_DATAGRAM_LEN
               then dwnx_put_uvarintlen (of_nat (dgram_len fr)) else Ok 0) (\<lambda>n.
        encode_checked outlen (1 + dgram_len fr + n)
          (bindr (if dgram_type fr = DWNX_FRAME_DATAGRAM_LEN
                  then dwnx_put_uvarint (of_nat (dgram_len fr)) else Ok []) (\<lambda>a.
           Ok ([ucast (dgram_type fr)] @ a @ concat (dgram_data fr))))))"

text \<open>
  The switch on \<open>fr->hd.type\<close>, which every member starts with. A member whose type is not one
  of its own selects another member of the union, or \<open>dwnx_unreachable()\<close>; the model aborts.
\<close>

definition dwnx_frame_encode :: "nat \<Rightarrow> dwnx_frame \<Rightarrow> bytes res" where
  "dwnx_frame_encode outlen fr =
     (case fr of
        Fr_qx_transport_parameters f \<Rightarrow>
          assertr (qtp_type f = DWNX_FRAME_QX_TRANSPORT_PARAMETERS)
            (dwnx_frame_encode_qx_transport_parameters outlen f)
      | Fr_qx_ping f \<Rightarrow>
          assertr (ping_type f = DWNX_FRAME_QX_PING_REQUEST \<or> ping_type f = DWNX_FRAME_QX_PING_RESPONSE)
            (dwnx_frame_encode_qx_ping outlen f)
      | Fr_padding f \<Rightarrow>
          assertr (padding_type f = DWNX_FRAME_PADDING) (dwnx_frame_encode_padding outlen f)
      | Fr_reset_stream f \<Rightarrow>
          assertr (rst_type f = DWNX_FRAME_RESET_STREAM) (dwnx_frame_encode_reset_stream outlen f)
      | Fr_stop_sending f \<Rightarrow>
          assertr (stop_type f = DWNX_FRAME_STOP_SENDING) (dwnx_frame_encode_stop_sending outlen f)
      | Fr_stream f \<Rightarrow>
          assertr (stream_type f = DWNX_FRAME_STREAM) (dwnx_frame_encode_stream outlen f)
      | Fr_max_data f \<Rightarrow>
          assertr (md_type f = DWNX_FRAME_MAX_DATA) (dwnx_frame_encode_max_data outlen f)
      | Fr_max_stream_data f \<Rightarrow>
          assertr (msd_type f = DWNX_FRAME_MAX_STREAM_DATA)
            (dwnx_frame_encode_max_stream_data outlen f)
      | Fr_max_streams f \<Rightarrow>
          assertr (ms_type f = DWNX_FRAME_MAX_STREAMS_BIDI \<or> ms_type f = DWNX_FRAME_MAX_STREAMS_UNI)
            (dwnx_frame_encode_max_streams outlen f)
      | Fr_data_blocked f \<Rightarrow>
          assertr (db_type f = DWNX_FRAME_DATA_BLOCKED) (dwnx_frame_encode_data_blocked outlen f)
      | Fr_stream_data_blocked f \<Rightarrow>
          assertr (sdb_type f = DWNX_FRAME_STREAM_DATA_BLOCKED)
            (dwnx_frame_encode_stream_data_blocked outlen f)
      | Fr_streams_blocked f \<Rightarrow>
          assertr (sb_type f = DWNX_FRAME_STREAMS_BLOCKED_BIDI \<or> sb_type f = DWNX_FRAME_STREAMS_BLOCKED_UNI)
            (dwnx_frame_encode_streams_blocked outlen f)
      | Fr_connection_close f \<Rightarrow>
          assertr (cc_type f = DWNX_FRAME_CONNECTION_CLOSE \<or> cc_type f = DWNX_FRAME_CONNECTION_CLOSE_APP)
            (dwnx_frame_encode_connection_close outlen f)
      | Fr_datagram f \<Rightarrow>
          assertr (dgram_type f = DWNX_FRAME_DATAGRAM \<or> dgram_type f = DWNX_FRAME_DATAGRAM_LEN)
            (dwnx_frame_encode_datagram outlen f))"

text \<open>\<open>dwnx_frame_datagram_framelen\<close>: the length is always encoded.\<close>

definition dwnx_frame_datagram_framelen :: "nat \<Rightarrow> nat res" where
  "dwnx_frame_datagram_framelen datalen =
     bindr (dwnx_put_uvarintlen (of_nat datalen)) (\<lambda>n. Ok (1 + n + datalen))"

section \<open>Decoders\<close>

text \<open>
  The step every decoder repeats before it reads a varint at \<open>p\<close>:
  \<open>n = dwnx_get_uvarintlen(p); len += n - 1; if (payloadlen < len) { return ...; }\<close>, where \<open>len\<close>
  already counts one byte of it. The result is \<open>n\<close>.
\<close>

definition check_varint :: "bytes \<Rightarrow> nat \<Rightarrow> nat \<Rightarrow> nat res" where
  "check_varint p payloadlen len =
     bindr (dwnx_get_uvarintlen p) (\<lambda>n.
     if payloadlen < len + (n - 1) then Err ERR_FRAME_ENCODING else Ok n)"

text \<open>\<open>assert((size_t)(p - payload) == len); return len;\<close>\<close>

definition decode_done :: "bytes \<Rightarrow> bytes \<Rightarrow> nat \<Rightarrow> 'f \<Rightarrow> ('f \<times> nat) res" where
  "decode_done payload p len dest = assertr (length payload - length p = len) (Ok (dest, len))"

definition dwnx_frame_decode_padding :: "bytes \<Rightarrow> (dwnx_frame_padding \<times> nat) res" where
  "dwnx_frame_decode_padding payload =
     assertr (length payload > 0)
       (let len = 1 + length (takeWhile (\<lambda>b. ucast b = DWNX_FRAME_PADDING) (drop 1 payload))
        in Ok (\<lparr>padding_type = DWNX_FRAME_PADDING, padding_len = len\<rparr>, len))"

definition dwnx_frame_decode_qx_transport_parameters ::
    "bytes \<Rightarrow> (dwnx_frame_qx_transport_parameters \<times> nat) res" where
  "dwnx_frame_decode_qx_transport_parameters payload =
     (let payloadlen = length payload; len = 1 + 1
      in if payloadlen < len then Err ERR_FRAME_ENCODING
         else bindr (check_varint payload payloadlen len) (\<lambda>n1.
              let len = len + (n1 - 1) in
              bindr (check_varint (drop n1 payload) payloadlen len) (\<lambda>n.
              let len = len + (n - 1) in
              bindr (dwnx_get_uvarint (drop n1 payload)) (\<lambda>(vi, _).
              if payloadlen - len < unat vi then Err ERR_FRAME_ENCODING
              else let paramslen = unat vi; len = len + paramslen in
                bindr (dwnx_get_uvarint payload) (\<lambda>(type, p).
                let p = drop n p in
                case dwnx_transport_params_decode (take paramslen p) of
                  Ok params \<Rightarrow>
                    decode_done payload (drop paramslen p) len \<lparr>qtp_type = type, qtp_params = params\<rparr>
                | Err e \<Rightarrow> Err ERR_FRAME_ENCODING
                | Abort \<Rightarrow> Abort)))))"

definition dwnx_frame_decode_qx_ping :: "bytes \<Rightarrow> (dwnx_frame_qx_ping \<times> nat) res" where
  "dwnx_frame_decode_qx_ping payload =
     (let payloadlen = length payload; len = 1 + 1
      in if payloadlen < len then Err ERR_FRAME_ENCODING
         else bindr (check_varint payload payloadlen len) (\<lambda>n1.
              let len = len + (n1 - 1) in
              bindr (check_varint (drop n1 payload) payloadlen len) (\<lambda>n2.
              let len = len + (n2 - 1) in
              bindr (dwnx_get_uvarint payload) (\<lambda>(type, p).
              bindr (dwnx_get_uvarint p) (\<lambda>(sq, p).
              decode_done payload p len \<lparr>ping_type = type, ping_seq = sq\<rparr>)))))"

text \<open>The second half of the stream decoder, which reads what the first half has checked.\<close>

definition decode_stream_fields ::
    "bytes \<Rightarrow> nat \<Rightarrow> nat \<Rightarrow> nat \<Rightarrow> (dwnx_frame_stream \<times> nat) res" where
  "decode_stream_fields payload len datalen ndatalen =
     (let type = hd payload
      in bindr (dwnx_get_varint (drop 1 payload)) (\<lambda>(stream_id, p).
         bindr (if type AND DWNX_STREAM_OFF_BIT \<noteq> 0 then dwnx_get_uvarint p else Ok (0, p)) (\<lambda>(offset, p).
         let (p, datalen) = (if type AND DWNX_STREAM_LEN_BIT \<noteq> 0 then (drop ndatalen p, datalen)
                             else (p, length payload - (length payload - length p)));
             (data, p) = (if datalen \<noteq> 0 then ([take datalen p], drop datalen p) else ([], p))
         in decode_done payload p len
              \<lparr>stream_type = DWNX_FRAME_STREAM, stream_flags = type AND NOT (ucast DWNX_FRAME_STREAM),
               stream_fin = (type AND DWNX_STREAM_FIN_BIT \<noteq> 0), stream_stream_id = stream_id,
               stream_offset = offset, stream_len = datalen, stream_data = data\<rparr>)))"

text \<open>Its first half: the checks of the optional offset and of the optional length.\<close>

definition stream_check_offset :: "bytes \<Rightarrow> nat \<Rightarrow> bytes \<Rightarrow> (nat \<times> bytes) res" where
  "stream_check_offset payload len p =
     (if hd payload AND DWNX_STREAM_OFF_BIT \<noteq> 0
      then let len = len + 1 in
        if length payload < len then Err ERR_FRAME_ENCODING
        else bindr (check_varint p (length payload) len) (\<lambda>n. Ok (len + (n - 1), drop n p))
      else Ok (len, p))"

definition stream_check_datalen :: "bytes \<Rightarrow> nat \<Rightarrow> bytes \<Rightarrow> (nat \<times> nat \<times> nat) res" where
  "stream_check_datalen payload len p =
     (if hd payload AND DWNX_STREAM_LEN_BIT \<noteq> 0
      then let len = len + 1 in
        if length payload < len then Err ERR_FRAME_ENCODING
        else bindr (check_varint p (length payload) len) (\<lambda>ndatalen.
             let len = len + (ndatalen - 1) in
             bindr (dwnx_get_uvarint p) (\<lambda>(vi, _).
             if length payload - len < unat vi then Err ERR_FRAME_ENCODING
             else Ok (len + unat vi, unat vi, ndatalen)))
      else Ok (length payload, 0, 0))"

definition dwnx_frame_decode_stream :: "bytes \<Rightarrow> (dwnx_frame_stream \<times> nat) res" where
  "dwnx_frame_decode_stream payload =
     (let payloadlen = length payload; len = 1 + 1
      in if payloadlen < len then Err ERR_FRAME_ENCODING
         else let p = drop 1 payload in
           bindr (check_varint p payloadlen len) (\<lambda>n.
           bindr (stream_check_offset payload (len + (n - 1)) (drop n p)) (\<lambda>(len, p).
           bindr (stream_check_datalen payload len p) (\<lambda>(len, datalen, ndatalen).
           decode_stream_fields payload len datalen ndatalen))))"

definition dwnx_frame_decode_reset_stream :: "bytes \<Rightarrow> (dwnx_frame_reset_stream \<times> nat) res" where
  "dwnx_frame_decode_reset_stream payload =
     (let payloadlen = length payload; len = 1 + 1 + 1 + 1
      in if payloadlen < len then Err ERR_FRAME_ENCODING
         else let p = drop 1 payload in
           bindr (check_varint p payloadlen len) (\<lambda>n.
           let len = len + (n - 1); p = drop n p in
           bindr (check_varint p payloadlen len) (\<lambda>n.
           let len = len + (n - 1); p = drop n p in
           bindr (check_varint p payloadlen len) (\<lambda>n.
           let len = len + (n - 1) in
           bindr (dwnx_get_varint (drop 1 payload)) (\<lambda>(stream_id, p).
           bindr (dwnx_get_uvarint p) (\<lambda>(app_error_code, p).
           bindr (dwnx_get_uvarint p) (\<lambda>(final_size, p).
           decode_done payload p len
             \<lparr>rst_type = DWNX_FRAME_RESET_STREAM, rst_stream_id = stream_id,
              rst_app_error_code = app_error_code, rst_final_size = final_size\<rparr>)))))))"

definition dwnx_frame_decode_stop_sending :: "bytes \<Rightarrow> (dwnx_frame_stop_sending \<times> nat) res" where
  "dwnx_frame_decode_stop_sending payload =
     (let payloadlen = length payload; len = 1 + 1 + 1
      in if payloadlen < len then Err ERR_FRAME_ENCODING
         else let p = drop 1 payload in
           bindr (check_varint p payloadlen len) (\<lambda>n.
           let len = len + (n - 1); p = drop n p in
           bindr (check_varint p payloadlen len) (\<lambda>n.
           let len = len + (n - 1) in
           bindr (dwnx_get_varint (drop 1 payload)) (\<lambda>(stream_id, p).
           bindr (dwnx_get_uvarint p) (\<lambda>(app_error_code, p).
           decode_done payload p len
             \<lparr>stop_type = DWNX_FRAME_STOP_SENDING, stop_stream_id = stream_id,
              stop_app_error_code = app_error_code\<rparr>)))))"

definition dwnx_frame_decode_max_data :: "bytes \<Rightarrow> (dwnx_frame_max_data \<times> nat) res" where
  "dwnx_frame_decode_max_data payload =
     (let payloadlen = length payload; len = 1 + 1
      in if payloadlen < len then Err ERR_FRAME_ENCODING
         else let p = drop 1 payload in
           bindr (check_varint p payloadlen len) (\<lambda>n.
           let len = len + (n - 1) in
           bindr (dwnx_get_uvarint p) (\<lambda>(max_data, p).
           decode_done payload p len \<lparr>md_type = DWNX_FRAME_MAX_DATA, md_max_data = max_data\<rparr>)))"

definition dwnx_frame_decode_max_stream_data ::
    "bytes \<Rightarrow> (dwnx_frame_max_stream_data \<times> nat) res" where
  "dwnx_frame_decode_max_stream_data payload =
     (let payloadlen = length payload; len = 1 + 1 + 1
      in if payloadlen < len then Err ERR_FRAME_ENCODING
         else let p = drop 1 payload in
           bindr (check_varint p payloadlen len) (\<lambda>n.
           let len = len + (n - 1); p = drop n p in
           bindr (check_varint p payloadlen len) (\<lambda>n.
           let len = len + (n - 1) in
           bindr (dwnx_get_varint (drop 1 payload)) (\<lambda>(stream_id, p).
           bindr (dwnx_get_uvarint p) (\<lambda>(max_stream_data, p).
           decode_done payload p len
             \<lparr>msd_type = DWNX_FRAME_MAX_STREAM_DATA, msd_stream_id = stream_id,
              msd_max_stream_data = max_stream_data\<rparr>)))))"

definition dwnx_frame_decode_max_streams :: "bytes \<Rightarrow> (dwnx_frame_max_streams \<times> nat) res" where
  "dwnx_frame_decode_max_streams payload =
     (let payloadlen = length payload; len = 1 + 1
      in if payloadlen < len then Err ERR_FRAME_ENCODING
         else let p = drop 1 payload in
           bindr (check_varint p payloadlen len) (\<lambda>n.
           let len = len + (n - 1) in
           bindr (dwnx_get_uvarint p) (\<lambda>(max_streams, p).
           decode_done payload p len \<lparr>ms_type = ucast (hd payload), ms_max_streams = max_streams\<rparr>)))"

definition dwnx_frame_decode_data_blocked :: "bytes \<Rightarrow> (dwnx_frame_data_blocked \<times> nat) res" where
  "dwnx_frame_decode_data_blocked payload =
     (let payloadlen = length payload; len = 1 + 1
      in if payloadlen < len then Err ERR_FRAME_ENCODING
         else let p = drop 1 payload in
           bindr (check_varint p payloadlen len) (\<lambda>n.
           let len = len + (n - 1) in
           bindr (dwnx_get_uvarint p) (\<lambda>(max_data, p).
           decode_done payload p len \<lparr>db_type = DWNX_FRAME_DATA_BLOCKED, db_max_data = max_data\<rparr>)))"

definition dwnx_frame_decode_stream_data_blocked ::
    "bytes \<Rightarrow> (dwnx_frame_stream_data_blocked \<times> nat) res" where
  "dwnx_frame_decode_stream_data_blocked payload =
     (let payloadlen = length payload; len = 1 + 1 + 1
      in if payloadlen < len then Err ERR_FRAME_ENCODING
         else let p = drop 1 payload in
           bindr (check_varint p payloadlen len) (\<lambda>n.
           let len = len + (n - 1); p = drop n p in
           bindr (check_varint p payloadlen len) (\<lambda>n.
           let len = len + (n - 1) in
           bindr (dwnx_get_varint (drop 1 payload)) (\<lambda>(stream_id, p).
           bindr (dwnx_get_uvarint p) (\<lambda>(max_stream_data, p).
           decode_done payload p len
             \<lparr>sdb_type = DWNX_FRAME_STREAM_DATA_BLOCKED, sdb_stream_id = stream_id,
              sdb_max_stream_data = max_stream_data\<rparr>)))))"

definition dwnx_frame_decode_streams_blocked ::
    "bytes \<Rightarrow> (dwnx_frame_streams_blocked \<times> nat) res" where
  "dwnx_frame_decode_streams_blocked payload =
     (let payloadlen = length payload; len = 1 + 1
      in if payloadlen < len then Err ERR_FRAME_ENCODING
         else let p = drop 1 payload in
           bindr (check_varint p payloadlen len) (\<lambda>n.
           let len = len + (n - 1) in
           bindr (dwnx_get_uvarint p) (\<lambda>(max_streams, p).
           decode_done payload p len \<lparr>sb_type = ucast (hd payload), sb_max_streams = max_streams\<rparr>)))"

definition dwnx_frame_decode_connection_close ::
    "bytes \<Rightarrow> (dwnx_frame_connection_close \<times> nat) res" where
  "dwnx_frame_decode_connection_close payload =
     (let payloadlen = length payload; len = 1 + 1 + 1
      in if payloadlen < len then Err ERR_FRAME_ENCODING
         else let type = hd payload; p = drop 1 payload in
           bindr (check_varint p payloadlen len) (\<lambda>n.
           let len = len + (n - 1); p = drop n p in
           bindr (if ucast type = DWNX_FRAME_CONNECTION_CLOSE
                  then let len = len + 1 in
                    bindr (check_varint p payloadlen len) (\<lambda>n. Ok (len + (n - 1), drop n p))
                  else Ok (len, p)) (\<lambda>(len, p).
           bindr (check_varint p payloadlen len) (\<lambda>nreasonlen.
           let len = len + (nreasonlen - 1) in
           bindr (dwnx_get_uvarint p) (\<lambda>(vi, _).
           if payloadlen - len < unat vi then Err ERR_FRAME_ENCODING
           else let reasonlen = unat vi; len = len + reasonlen in
             bindr (dwnx_get_uvarint (drop 1 payload)) (\<lambda>(error_code, p).
             bindr (if ucast type = DWNX_FRAME_CONNECTION_CLOSE then dwnx_get_uvarint p
                    else Ok (0, p)) (\<lambda>(frame_type, p).
             let p = drop nreasonlen p;
                 (reason, p) = (if reasonlen = 0 then ([], p) else (take reasonlen p, drop reasonlen p))
             in decode_done payload p len
                  \<lparr>cc_type = ucast type, cc_error_code = error_code, cc_frame_type = frame_type,
                   cc_reasonlen = reasonlen, cc_reason = reason\<rparr>)))))))"

definition dwnx_frame_decode_datagram :: "bytes \<Rightarrow> (dwnx_frame_datagram \<times> nat) res" where
  "dwnx_frame_decode_datagram payload =
     assertr (length payload > 0)
       (let payloadlen = length payload; len = 1; type = hd payload; p = drop 1 payload in
        bindr (if ucast type = DWNX_FRAME_DATAGRAM_LEN
               then let len = len + 1 in
                 if payloadlen < len then Err ERR_FRAME_ENCODING
                 else bindr (check_varint p payloadlen len) (\<lambda>ndatalen.
                      let len = len + (ndatalen - 1) in
                      bindr (dwnx_get_uvarint p) (\<lambda>(vi, p).
                      if payloadlen - len < unat vi then Err ERR_FRAME_ENCODING
                      else Ok (len + unat vi, unat vi, p)))
               else Ok (payloadlen, payloadlen - (payloadlen - length p), p)) (\<lambda>(len, datalen, p).
        let (data, p) = (if datalen \<noteq> 0 then ([take datalen p], drop datalen p) else ([], p))
        in decode_done payload p len
             \<lparr>dgram_type = ucast type, dgram_len = datalen, dgram_data = data\<rparr>))"

text \<open>A frame of one kind as a member of the union \<open>dwnx_frame\<close>.\<close>

definition as_frame :: "('f \<Rightarrow> dwnx_frame) \<Rightarrow> ('f \<times> nat) res \<Rightarrow> (dwnx_frame \<times> nat) res" where
  "as_frame c r = bindr r (\<lambda>(f, n). Ok (c f, n))"

definition dwnx_frd_decode :: "bytes \<Rightarrow> (dwnx_frame \<times> nat) res" where
  "dwnx_frd_decode payload =
     (if payload = [] then Err ERR_FRAME_ENCODING
      else let type = hd payload; t = (ucast type :: u64) in
        if t = DWNX_FRAME_PADDING then as_frame Fr_padding (dwnx_frame_decode_padding payload)
        else if t = DWNX_FRAME_RESET_STREAM
          then as_frame Fr_reset_stream (dwnx_frame_decode_reset_stream payload)
        else if t = DWNX_FRAME_STOP_SENDING
          then as_frame Fr_stop_sending (dwnx_frame_decode_stop_sending payload)
        else if t = DWNX_FRAME_MAX_DATA then as_frame Fr_max_data (dwnx_frame_decode_max_data payload)
        else if t = DWNX_FRAME_MAX_STREAM_DATA
          then as_frame Fr_max_stream_data (dwnx_frame_decode_max_stream_data payload)
        else if t = DWNX_FRAME_MAX_STREAMS_BIDI \<or> t = DWNX_FRAME_MAX_STREAMS_UNI
          then as_frame Fr_max_streams (dwnx_frame_decode_max_streams payload)
        else if t = DWNX_FRAME_DATA_BLOCKED
          then as_frame Fr_data_blocked (dwnx_frame_decode_data_blocked payload)
        else if t = DWNX_FRAME_STREAM_DATA_BLOCKED
          then as_frame Fr_stream_data_blocked (dwnx_frame_decode_stream_data_blocked payload)
        else if t = DWNX_FRAME_STREAMS_BLOCKED_BIDI \<or> t = DWNX_FRAME_STREAMS_BLOCKED_UNI
          then as_frame Fr_streams_blocked (dwnx_frame_decode_streams_blocked payload)
        else if t = DWNX_FRAME_CONNECTION_CLOSE \<or> t = DWNX_FRAME_CONNECTION_CLOSE_APP
          then as_frame Fr_connection_close (dwnx_frame_decode_connection_close payload)
        else if t = DWNX_FRAME_DATAGRAM \<or> t = DWNX_FRAME_DATAGRAM_LEN
          then as_frame Fr_datagram (dwnx_frame_decode_datagram payload)
        else if t AND NOT (DWNX_FRAME_STREAM - 1) = DWNX_FRAME_STREAM
          then as_frame Fr_stream (dwnx_frame_decode_stream payload)
        else bindr (dwnx_get_uvarintlen payload) (\<lambda>vintlen.
          if vintlen > length payload then Err ERR_FRAME_ENCODING
          else bindr (dwnx_get_uvarint payload) (\<lambda>(long_type, _).
            if long_type = DWNX_FRAME_QX_TRANSPORT_PARAMETERS
              then as_frame Fr_qx_transport_parameters
                     (dwnx_frame_decode_qx_transport_parameters payload)
            else if long_type = DWNX_FRAME_QX_PING_REQUEST \<or> long_type = DWNX_FRAME_QX_PING_RESPONSE
              then as_frame Fr_qx_ping (dwnx_frame_decode_qx_ping payload)
            else Err ERR_FRAME_ENCODING)))"

end
