(* ===== verification/FrameCodec.thy ===== *)
theory FrameCodec
  imports Frame
begin

text \<open>
  Correctness of the frame codec. The locale \<open>frame_codec\<close> is the contract of one encoder and
  its decoder; it is interpreted for every member of the union and for \<open>dwnx_frame_encode\<close> and
  \<open>dwnx_frd_decode\<close> themselves, so what is proved from the contract holds of the whole codec.
\<close>

unbundle bit_operations_syntax

section \<open>The contract of an encoder and its decoder\<close>

text \<open>
  \<open>wire f\<close> is the encoding of a valid frame, \<open>norm f\<close> what is read back from it and
  \<open>follows f r\<close> says which bytes may come after it (a frame without a length takes all that
  follow).
\<close>

locale frame_codec =
  fixes enc :: "nat \<Rightarrow> 'f \<Rightarrow> bytes res"
    and dec :: "bytes \<Rightarrow> ('f \<times> nat) res"
    and valid :: "'f \<Rightarrow> bool"
    and wire :: "'f \<Rightarrow> bytes"
    and norm :: "'f \<Rightarrow> 'f"
    and follows :: "'f \<Rightarrow> bytes \<Rightarrow> bool"
  assumes enc_wire: "valid f \<Longrightarrow> enc outlen f = (if outlen < length (wire f) then Err ERR_NOBUF else Ok (wire f))"
    and dec_wire: "valid f \<Longrightarrow> follows f r \<Longrightarrow> dec (wire f @ r) = Ok (norm f, length (wire f))"
    and dec_total: "payload \<noteq> [] \<Longrightarrow> dec payload \<noteq> Abort"
    and dec_bound: "payload \<noteq> [] \<Longrightarrow> dec payload = Ok (f, n) \<Longrightarrow> 0 < n \<and> n \<le> length payload"
    and dec_valid: "payload \<noteq> [] \<Longrightarrow> length payload < 2 ^ 62 \<Longrightarrow> dec payload = Ok (f, n) \<Longrightarrow> valid f"
begin

lemma enc_never_aborts: "valid f \<Longrightarrow> enc outlen f \<noteq> Abort"
  by (simp add: enc_wire)

lemma enc_fits: "valid f \<Longrightarrow> enc outlen f = Ok bs \<Longrightarrow> bs = wire f \<and> length bs \<le> outlen"
  by (simp add: enc_wire split: if_splits)

lemma roundtrip:
  assumes "valid f" and "enc outlen f = Ok bs" and "follows f r"
  shows "dec (bs @ r) = Ok (norm f, length bs)"
  using assms dec_wire [of f r] by (auto simp: enc_wire split: if_splits)

lemma reencode:
  assumes "payload \<noteq> []" and "length payload < 2 ^ 62" and "dec payload = Ok (f, n)"
    and "length (wire f) \<le> outlen"
  shows "enc outlen f = Ok (wire f)"
  using assms dec_valid enc_wire by simp

end

section \<open>Decoders are safe on every payload\<close>

lemma check_varint_eq:
  "check_varint p payloadlen len =
     (if p = [] then Abort
      else if payloadlen < len + vext p then Err ERR_FRAME_ENCODING else Ok (Suc (vext p)))"
  by (simp add: check_varint_def get_uvarintlen_eq)

lemma decode_done_eq_Ok:
  "decode_done payload p len f = Ok (f', n) \<longleftrightarrow> length payload - length p = len \<and> f' = f \<and> n = len"
  by (auto simp: decode_done_def assertr_def)

lemma decode_done_eq_Abort:
  "decode_done payload p len f = Abort \<longleftrightarrow> length payload - length p \<noteq> len"
  by (simp add: decode_done_def assertr_def)

lemma as_frame_eq_Ok: "as_frame c r = Ok (f, n) \<longleftrightarrow> (\<exists>g. r = Ok (g, n) \<and> f = c g)"
  by (auto simp: as_frame_def bindr_eq_Ok)

lemma as_frame_eq_Abort: "as_frame c r = Abort \<longleftrightarrow> r = Abort"
  by (auto simp: as_frame_def bindr_eq_Abort)

lemmas decode_simps = Let_def check_varint_eq decode_done_eq_Ok decode_done_eq_Abort
  get_uvarintlen_eq get_uvarint_eq get_varint_eq

lemma decode_padding_total: "payload \<noteq> [] \<Longrightarrow> dwnx_frame_decode_padding payload \<noteq> Abort"
  by (simp add: dwnx_frame_decode_padding_def)

lemma decode_reset_stream_total: "dwnx_frame_decode_reset_stream payload \<noteq> Abort"
  by (auto simp: dwnx_frame_decode_reset_stream_def decode_simps)

lemma decode_stop_sending_total: "dwnx_frame_decode_stop_sending payload \<noteq> Abort"
  by (auto simp: dwnx_frame_decode_stop_sending_def decode_simps)

lemma decode_max_data_total: "dwnx_frame_decode_max_data payload \<noteq> Abort"
  by (auto simp: dwnx_frame_decode_max_data_def decode_simps)

lemma decode_max_stream_data_total: "dwnx_frame_decode_max_stream_data payload \<noteq> Abort"
  by (auto simp: dwnx_frame_decode_max_stream_data_def decode_simps)

lemma decode_max_streams_total: "dwnx_frame_decode_max_streams payload \<noteq> Abort"
  by (auto simp: dwnx_frame_decode_max_streams_def decode_simps)

lemma decode_data_blocked_total: "dwnx_frame_decode_data_blocked payload \<noteq> Abort"
  by (auto simp: dwnx_frame_decode_data_blocked_def decode_simps)

lemma decode_stream_data_blocked_total: "dwnx_frame_decode_stream_data_blocked payload \<noteq> Abort"
  by (auto simp: dwnx_frame_decode_stream_data_blocked_def decode_simps)

lemma decode_streams_blocked_total: "dwnx_frame_decode_streams_blocked payload \<noteq> Abort"
  by (auto simp: dwnx_frame_decode_streams_blocked_def decode_simps)

lemma decode_qx_ping_total: "dwnx_frame_decode_qx_ping payload \<noteq> Abort"
  by (auto simp: dwnx_frame_decode_qx_ping_def decode_simps)

lemma decode_qx_transport_parameters_total:
  "dwnx_frame_decode_qx_transport_parameters payload \<noteq> Abort"
  using transport_params_decode_loop_neq_Abort
  by (auto simp: dwnx_frame_decode_qx_transport_parameters_def decode_simps
      dwnx_transport_params_decode_def split: res.splits)

lemma decode_connection_close_total: "dwnx_frame_decode_connection_close payload \<noteq> Abort"
  by (auto simp: dwnx_frame_decode_connection_close_def decode_simps)

lemma decode_datagram_total: "payload \<noteq> [] \<Longrightarrow> dwnx_frame_decode_datagram payload \<noteq> Abort"
  by (auto simp: dwnx_frame_decode_datagram_def decode_simps)

text \<open>The second half of the stream decoder reads what the first half has checked.\<close>

definition stream_offset_at :: "bytes \<Rightarrow> bytes" where
  "stream_offset_at payload = drop (Suc (vext (drop 1 payload))) (drop 1 payload)"

definition stream_len_at :: "bytes \<Rightarrow> bytes" where
  "stream_len_at payload =
     (let p = stream_offset_at payload
      in if hd payload AND DWNX_STREAM_OFF_BIT \<noteq> 0 then drop (Suc (vext p)) p else p)"

definition stream_frame_at :: "bytes \<Rightarrow> nat \<Rightarrow> nat \<Rightarrow> dwnx_frame_stream" where
  "stream_frame_at payload datalen ndatalen =
     (let type = hd payload; p = drop ndatalen (stream_len_at payload)
      in \<lparr>stream_type = DWNX_FRAME_STREAM, stream_flags = type AND NOT (ucast DWNX_FRAME_STREAM),
          stream_fin = (type AND DWNX_STREAM_FIN_BIT \<noteq> 0),
          stream_stream_id = i64_of_u64 (uvvalue (take (Suc (vext (drop 1 payload))) (drop 1 payload))),
          stream_offset = (if type AND DWNX_STREAM_OFF_BIT \<noteq> 0
             then uvvalue (take (Suc (vext (stream_offset_at payload))) (stream_offset_at payload)) else 0),
          stream_len = datalen,
          stream_data = (if datalen = 0 then [] else [take datalen p])\<rparr>)"

lemma decode_stream_fields_eq:
  assumes "vext (drop 1 payload) < length (drop 1 payload)"
    and "hd payload AND DWNX_STREAM_OFF_BIT \<noteq> 0 \<Longrightarrow> vext (stream_offset_at payload) < length (stream_offset_at payload)"
  shows "decode_stream_fields payload len datalen ndatalen =
    (let ndatalen = (if hd payload AND DWNX_STREAM_LEN_BIT \<noteq> 0 then ndatalen else 0);
         p = drop ndatalen (stream_len_at payload);
         datalen = (if hd payload AND DWNX_STREAM_LEN_BIT \<noteq> 0 then datalen else length p)
     in decode_done payload (drop datalen p) len (stream_frame_at payload datalen ndatalen))"
proof (cases "hd payload AND DWNX_STREAM_OFF_BIT = 0")
  case True
  then show ?thesis
    using assms by (simp add: decode_stream_fields_def stream_frame_at_def stream_len_at_def
      stream_offset_at_def Let_def get_varint_eq get_uvarint_eq)
next
  case False
  then show ?thesis
    using assms by (simp add: decode_stream_fields_def stream_frame_at_def stream_len_at_def
      stream_offset_at_def Let_def get_varint_eq get_uvarint_eq numeral_3_eq_3)
qed

lemma stream_check_offset_eq:
  assumes "len + length p = length payload"
  shows "stream_check_offset payload len p =
    (if hd payload AND DWNX_STREAM_OFF_BIT = 0 then Ok (len, p)
     else if length p \<le> vext p then Err ERR_FRAME_ENCODING
     else Ok (len + Suc (vext p), drop (Suc (vext p)) p))"
  using assms by (cases p) (auto simp: stream_check_offset_def check_varint_eq Let_def)

lemma stream_check_datalen_eq:
  assumes "len + length p = length payload"
  shows "stream_check_datalen payload len p =
    (if hd payload AND DWNX_STREAM_LEN_BIT = 0 then Ok (length payload, 0, 0)
     else if length p \<le> vext p then Err ERR_FRAME_ENCODING
     else let vi = unat (uvvalue (take (Suc (vext p)) p)) in
       if length p - Suc (vext p) < vi then Err ERR_FRAME_ENCODING
       else Ok (len + Suc (vext p) + vi, vi, Suc (vext p)))"
  using assms by (cases p) (auto simp: stream_check_datalen_def check_varint_eq Let_def get_uvarint_eq)

text \<open>The whole decoder, on every payload.\<close>

lemma decode_stream_eq:
  "dwnx_frame_decode_stream payload =
     (let p1 = drop 1 payload; p2 = stream_offset_at payload; p3 = stream_len_at payload in
      if length p1 \<le> vext p1 then Err ERR_FRAME_ENCODING
      else if hd payload AND DWNX_STREAM_OFF_BIT \<noteq> 0 \<and> length p2 \<le> vext p2
        then Err ERR_FRAME_ENCODING
      else if hd payload AND DWNX_STREAM_LEN_BIT = 0
        then Ok (stream_frame_at payload (length p3) 0, length payload)
      else if length p3 \<le> vext p3 then Err ERR_FRAME_ENCODING
      else let vi = unat (uvvalue (take (Suc (vext p3)) p3)) in
        if length p3 - Suc (vext p3) < vi then Err ERR_FRAME_ENCODING
        else Ok (stream_frame_at payload vi (Suc (vext p3)), length payload - length p3 + Suc (vext p3) + vi))"
proof (cases "length (drop 1 payload) \<le> vext (drop 1 payload)")
  case True
  then show ?thesis
    by (auto simp: dwnx_frame_decode_stream_def check_varint_eq Let_def)
next
  case p1: False
  define p2 p3 len where "p2 = stream_offset_at payload" and "p3 = stream_len_at payload"
    and "len = length payload - length p2"
  have len: "len = Suc (Suc (vext (drop 1 payload)))" and l2: "len + length p2 = length payload"
    using p1 by (auto simp: p2_def stream_offset_at_def len_def)
  have "dwnx_frame_decode_stream payload =
      bindr (stream_check_offset payload len p2) (\<lambda>(len, p).
      bindr (stream_check_datalen payload len p) (\<lambda>(len, datalen, ndatalen).
      decode_stream_fields payload len datalen ndatalen))"
    using p1 by (auto simp: dwnx_frame_decode_stream_def check_varint_eq Let_def p2_def stream_offset_at_def len)
  also have "\<dots> = (if hd payload AND DWNX_STREAM_OFF_BIT \<noteq> 0 \<and> length p2 \<le> vext p2
        then Err ERR_FRAME_ENCODING
        else bindr (stream_check_datalen payload (length payload - length p3) p3) (\<lambda>(len, datalen, ndatalen).
             decode_stream_fields payload len datalen ndatalen))"
    by (auto simp: l2 [symmetric] stream_check_offset_eq [OF l2] p3_def stream_len_at_def p2_def [symmetric] Let_def
        intro!: arg_cong2 [of _ _ _ _ bindr] arg_cong2 [of _ _ _ _ "stream_check_datalen payload"])
  finally have d: "dwnx_frame_decode_stream payload = \<dots>" .
  show ?thesis
  proof (cases "hd payload AND DWNX_STREAM_OFF_BIT \<noteq> 0 \<and> length p2 \<le> vext p2")
    case True
    with p1 show ?thesis by (simp add: d p2_def)
  next
    case False
    have "length p3 \<le> length p2"
      by (simp add: p3_def p2_def stream_len_at_def Let_def)
    with l2 have l3: "length payload - length p3 + length p3 = length payload"
      by simp
    have "vext (drop 1 payload) < length (drop 1 payload)"
      and "hd payload AND DWNX_STREAM_OFF_BIT \<noteq> 0 \<Longrightarrow> vext (stream_offset_at payload) < length (stream_offset_at payload)"
      using p1 False by (auto simp: p2_def)
    note fields = decode_stream_fields_eq [OF this, simplified]
    show ?thesis
      using p1 False l3
      by (auto simp: d stream_check_datalen_eq [OF l3] p2_def [symmetric] p3_def [symmetric] Let_def fields
          decode_done_def assertr_def ac_simps)
  qed
qed

lemma decode_stream_total: "dwnx_frame_decode_stream payload \<noteq> Abort"
  by (auto simp: decode_stream_eq Let_def)

lemmas total_lemmas = decode_padding_total decode_reset_stream_total decode_stop_sending_total
  decode_max_data_total decode_max_stream_data_total decode_max_streams_total
  decode_data_blocked_total decode_stream_data_blocked_total decode_streams_blocked_total
  decode_qx_ping_total decode_qx_transport_parameters_total decode_connection_close_total
  decode_datagram_total decode_stream_total

section \<open>The interpretations, one per frame\<close>

text \<open>The length of a written varint in the shape \<open>vext\<close> has.\<close>

definition uvx :: "u64 \<Rightarrow> nat" where
  "uvx n = uvlen n - 1"

lemma uvlen_uvx: "uvlen n = Suc (uvx n)"
  by (simp add: uvx_def)

lemma vext_uvx: "n \<le> DWNX_MAX_VARINT \<Longrightarrow> vext (uvbytes n @ r) = uvx n"
  by (simp add: uvx_def)

lemma vext_uvx': "n \<le> DWNX_MAX_VARINT \<Longrightarrow> vext (uvbytes n) = uvx n"
  using vext_uvx [of n "[]"] by simp

lemma get_uvarint_put': "n \<le> DWNX_MAX_VARINT \<Longrightarrow> dwnx_get_uvarint (uvbytes n) = Ok (n, [])"
  using get_uvarint_put [of n "[]"] by simp

lemma get_varint_put': "n \<le> DWNX_MAX_VARINT \<Longrightarrow> dwnx_get_varint (uvbytes n) = Ok (i64_of_u64 n, [])"
  using get_varint_put [of n "[]"] by simp

lemmas codec_simps = Let_def check_varint_eq decode_done_def encode_checked_def uvlen_uvx vext_uvx
  vext_uvx' get_uvarint_put' get_varint_put' uvvalue_read_le

definition max_data_valid :: "dwnx_frame_max_data \<Rightarrow> bool" where
  "max_data_valid f \<longleftrightarrow> md_type f = DWNX_FRAME_MAX_DATA \<and> md_max_data f \<le> DWNX_MAX_VARINT"

definition max_data_wire :: "dwnx_frame_max_data \<Rightarrow> bytes" where
  "max_data_wire f = ucast DWNX_FRAME_MAX_DATA # uvbytes (md_max_data f)"

interpretation max_data: frame_codec dwnx_frame_encode_max_data dwnx_frame_decode_max_data
  max_data_valid max_data_wire "\<lambda>f. f" "\<lambda>f r. True"
proof
  fix f outlen
  assume v: "max_data_valid f"
  then show "dwnx_frame_encode_max_data outlen f =
      (if outlen < length (max_data_wire f) then Err ERR_NOBUF else Ok (max_data_wire f))"
    by (auto simp: max_data_valid_def max_data_wire_def dwnx_frame_encode_max_data_def codec_simps)
  fix r :: bytes
  show "dwnx_frame_decode_max_data (max_data_wire f @ r) = Ok (f, length (max_data_wire f))"
    using v by (auto simp: max_data_valid_def max_data_wire_def dwnx_frame_decode_max_data_def codec_simps)
next
  fix payload :: bytes and f n
  assume ne: "payload \<noteq> []"
  then show "dwnx_frame_decode_max_data payload \<noteq> Abort"
    by (intro total_lemmas)
  assume ok: "dwnx_frame_decode_max_data payload = Ok (f, n)"
  with ne show "0 < n \<and> n \<le> length payload"
    by (auto simp: dwnx_frame_decode_max_data_def decode_simps split: if_splits)
  assume "length payload < 2 ^ 62"
  with ok ne show "max_data_valid f"
    by (auto simp: dwnx_frame_decode_max_data_def decode_simps max_data_valid_def uvvalue_read_le
        i64_of_u64_small(2) split: if_splits)
qed

definition data_blocked_valid :: "dwnx_frame_data_blocked \<Rightarrow> bool" where
  "data_blocked_valid f \<longleftrightarrow> db_type f = DWNX_FRAME_DATA_BLOCKED \<and> db_max_data f \<le> DWNX_MAX_VARINT"

definition data_blocked_wire :: "dwnx_frame_data_blocked \<Rightarrow> bytes" where
  "data_blocked_wire f = ucast DWNX_FRAME_DATA_BLOCKED # uvbytes (db_max_data f)"

interpretation data_blocked: frame_codec dwnx_frame_encode_data_blocked dwnx_frame_decode_data_blocked
  data_blocked_valid data_blocked_wire "\<lambda>f. f" "\<lambda>f r. True"
proof
  fix f outlen
  assume v: "data_blocked_valid f"
  then show "dwnx_frame_encode_data_blocked outlen f =
      (if outlen < length (data_blocked_wire f) then Err ERR_NOBUF else Ok (data_blocked_wire f))"
    by (auto simp: data_blocked_valid_def data_blocked_wire_def dwnx_frame_encode_data_blocked_def codec_simps)
  fix r :: bytes
  show "dwnx_frame_decode_data_blocked (data_blocked_wire f @ r) = Ok (f, length (data_blocked_wire f))"
    using v by (auto simp: data_blocked_valid_def data_blocked_wire_def dwnx_frame_decode_data_blocked_def codec_simps)
next
  fix payload :: bytes and f n
  assume ne: "payload \<noteq> []"
  then show "dwnx_frame_decode_data_blocked payload \<noteq> Abort"
    by (intro total_lemmas)
  assume ok: "dwnx_frame_decode_data_blocked payload = Ok (f, n)"
  with ne show "0 < n \<and> n \<le> length payload"
    by (auto simp: dwnx_frame_decode_data_blocked_def decode_simps split: if_splits)
  assume "length payload < 2 ^ 62"
  with ok ne show "data_blocked_valid f"
    by (auto simp: dwnx_frame_decode_data_blocked_def decode_simps data_blocked_valid_def uvvalue_read_le
        i64_of_u64_small(2) split: if_splits)
qed

definition reset_stream_valid :: "dwnx_frame_reset_stream \<Rightarrow> bool" where
  "reset_stream_valid f \<longleftrightarrow> rst_type f = DWNX_FRAME_RESET_STREAM \<and> stream_id_valid (rst_stream_id f) \<and>
     rst_app_error_code f \<le> DWNX_MAX_VARINT \<and> rst_final_size f \<le> DWNX_MAX_VARINT"

definition reset_stream_wire :: "dwnx_frame_reset_stream \<Rightarrow> bytes" where
  "reset_stream_wire f = ucast DWNX_FRAME_RESET_STREAM # uvbytes (u64_of_i64 (rst_stream_id f)) @
     uvbytes (rst_app_error_code f) @ uvbytes (rst_final_size f)"

interpretation reset_stream: frame_codec dwnx_frame_encode_reset_stream dwnx_frame_decode_reset_stream
  reset_stream_valid reset_stream_wire "\<lambda>f. f" "\<lambda>f r. True"
proof
  fix f outlen
  assume v: "reset_stream_valid f"
  then show "dwnx_frame_encode_reset_stream outlen f =
      (if outlen < length (reset_stream_wire f) then Err ERR_NOBUF else Ok (reset_stream_wire f))"
    by (auto simp: reset_stream_valid_def reset_stream_wire_def dwnx_frame_encode_reset_stream_def codec_simps)
  fix r :: bytes
  show "dwnx_frame_decode_reset_stream (reset_stream_wire f @ r) = Ok (f, length (reset_stream_wire f))"
    using v by (auto simp: reset_stream_valid_def reset_stream_wire_def dwnx_frame_decode_reset_stream_def codec_simps)
next
  fix payload :: bytes and f n
  assume ne: "payload \<noteq> []"
  then show "dwnx_frame_decode_reset_stream payload \<noteq> Abort"
    by (intro total_lemmas)
  assume ok: "dwnx_frame_decode_reset_stream payload = Ok (f, n)"
  with ne show "0 < n \<and> n \<le> length payload"
    by (auto simp: dwnx_frame_decode_reset_stream_def decode_simps split: if_splits)
  assume "length payload < 2 ^ 62"
  with ok ne show "reset_stream_valid f"
    by (auto simp: dwnx_frame_decode_reset_stream_def decode_simps reset_stream_valid_def uvvalue_read_le
        i64_of_u64_small(2) split: if_splits)
qed

definition stop_sending_valid :: "dwnx_frame_stop_sending \<Rightarrow> bool" where
  "stop_sending_valid f \<longleftrightarrow> stop_type f = DWNX_FRAME_STOP_SENDING \<and> stream_id_valid (stop_stream_id f) \<and> stop_app_error_code f \<le> DWNX_MAX_VARINT"

definition stop_sending_wire :: "dwnx_frame_stop_sending \<Rightarrow> bytes" where
  "stop_sending_wire f = ucast DWNX_FRAME_STOP_SENDING # uvbytes (u64_of_i64 (stop_stream_id f)) @ uvbytes (stop_app_error_code f)"

interpretation stop_sending: frame_codec dwnx_frame_encode_stop_sending dwnx_frame_decode_stop_sending
  stop_sending_valid stop_sending_wire "\<lambda>f. f" "\<lambda>f r. True"
proof
  fix f outlen
  assume v: "stop_sending_valid f"
  then show "dwnx_frame_encode_stop_sending outlen f =
      (if outlen < length (stop_sending_wire f) then Err ERR_NOBUF else Ok (stop_sending_wire f))"
    by (auto simp: stop_sending_valid_def stop_sending_wire_def dwnx_frame_encode_stop_sending_def codec_simps)
  fix r :: bytes
  show "dwnx_frame_decode_stop_sending (stop_sending_wire f @ r) = Ok (f, length (stop_sending_wire f))"
    using v by (auto simp: stop_sending_valid_def stop_sending_wire_def dwnx_frame_decode_stop_sending_def codec_simps)
next
  fix payload :: bytes and f n
  assume ne: "payload \<noteq> []"
  then show "dwnx_frame_decode_stop_sending payload \<noteq> Abort"
    by (intro total_lemmas)
  assume ok: "dwnx_frame_decode_stop_sending payload = Ok (f, n)"
  with ne show "0 < n \<and> n \<le> length payload"
    by (auto simp: dwnx_frame_decode_stop_sending_def decode_simps split: if_splits)
  assume "length payload < 2 ^ 62"
  with ok ne show "stop_sending_valid f"
    by (auto simp: dwnx_frame_decode_stop_sending_def decode_simps stop_sending_valid_def uvvalue_read_le
        i64_of_u64_small(2) split: if_splits)
qed

definition max_stream_data_valid :: "dwnx_frame_max_stream_data \<Rightarrow> bool" where
  "max_stream_data_valid f \<longleftrightarrow> msd_type f = DWNX_FRAME_MAX_STREAM_DATA \<and> stream_id_valid (msd_stream_id f) \<and> msd_max_stream_data f \<le> DWNX_MAX_VARINT"

definition max_stream_data_wire :: "dwnx_frame_max_stream_data \<Rightarrow> bytes" where
  "max_stream_data_wire f = ucast DWNX_FRAME_MAX_STREAM_DATA # uvbytes (u64_of_i64 (msd_stream_id f)) @ uvbytes (msd_max_stream_data f)"

interpretation max_stream_data: frame_codec dwnx_frame_encode_max_stream_data dwnx_frame_decode_max_stream_data
  max_stream_data_valid max_stream_data_wire "\<lambda>f. f" "\<lambda>f r. True"
proof
  fix f outlen
  assume v: "max_stream_data_valid f"
  then show "dwnx_frame_encode_max_stream_data outlen f =
      (if outlen < length (max_stream_data_wire f) then Err ERR_NOBUF else Ok (max_stream_data_wire f))"
    by (auto simp: max_stream_data_valid_def max_stream_data_wire_def dwnx_frame_encode_max_stream_data_def codec_simps)
  fix r :: bytes
  show "dwnx_frame_decode_max_stream_data (max_stream_data_wire f @ r) = Ok (f, length (max_stream_data_wire f))"
    using v by (auto simp: max_stream_data_valid_def max_stream_data_wire_def dwnx_frame_decode_max_stream_data_def codec_simps)
next
  fix payload :: bytes and f n
  assume ne: "payload \<noteq> []"
  then show "dwnx_frame_decode_max_stream_data payload \<noteq> Abort"
    by (intro total_lemmas)
  assume ok: "dwnx_frame_decode_max_stream_data payload = Ok (f, n)"
  with ne show "0 < n \<and> n \<le> length payload"
    by (auto simp: dwnx_frame_decode_max_stream_data_def decode_simps split: if_splits)
  assume "length payload < 2 ^ 62"
  with ok ne show "max_stream_data_valid f"
    by (auto simp: dwnx_frame_decode_max_stream_data_def decode_simps max_stream_data_valid_def uvvalue_read_le
        i64_of_u64_small(2) split: if_splits)
qed

definition stream_data_blocked_valid :: "dwnx_frame_stream_data_blocked \<Rightarrow> bool" where
  "stream_data_blocked_valid f \<longleftrightarrow> sdb_type f = DWNX_FRAME_STREAM_DATA_BLOCKED \<and> stream_id_valid (sdb_stream_id f) \<and>
     sdb_max_stream_data f \<le> DWNX_MAX_VARINT"

definition stream_data_blocked_wire :: "dwnx_frame_stream_data_blocked \<Rightarrow> bytes" where
  "stream_data_blocked_wire f = ucast DWNX_FRAME_STREAM_DATA_BLOCKED # uvbytes (u64_of_i64 (sdb_stream_id f)) @
     uvbytes (sdb_max_stream_data f)"

interpretation stream_data_blocked: frame_codec dwnx_frame_encode_stream_data_blocked dwnx_frame_decode_stream_data_blocked
  stream_data_blocked_valid stream_data_blocked_wire "\<lambda>f. f" "\<lambda>f r. True"
proof
  fix f outlen
  assume v: "stream_data_blocked_valid f"
  then show "dwnx_frame_encode_stream_data_blocked outlen f =
      (if outlen < length (stream_data_blocked_wire f) then Err ERR_NOBUF else Ok (stream_data_blocked_wire f))"
    by (auto simp: stream_data_blocked_valid_def stream_data_blocked_wire_def dwnx_frame_encode_stream_data_blocked_def codec_simps)
  fix r :: bytes
  show "dwnx_frame_decode_stream_data_blocked (stream_data_blocked_wire f @ r) = Ok (f, length (stream_data_blocked_wire f))"
    using v by (auto simp: stream_data_blocked_valid_def stream_data_blocked_wire_def dwnx_frame_decode_stream_data_blocked_def codec_simps)
next
  fix payload :: bytes and f n
  assume ne: "payload \<noteq> []"
  then show "dwnx_frame_decode_stream_data_blocked payload \<noteq> Abort"
    by (intro total_lemmas)
  assume ok: "dwnx_frame_decode_stream_data_blocked payload = Ok (f, n)"
  with ne show "0 < n \<and> n \<le> length payload"
    by (auto simp: dwnx_frame_decode_stream_data_blocked_def decode_simps split: if_splits)
  assume "length payload < 2 ^ 62"
  with ok ne show "stream_data_blocked_valid f"
    by (auto simp: dwnx_frame_decode_stream_data_blocked_def decode_simps stream_data_blocked_valid_def uvvalue_read_le
        i64_of_u64_small(2) split: if_splits)
qed

text \<open>A frame type that is written as one byte.\<close>

definition type_byte :: "u64 \<Rightarrow> bool" where
  "type_byte t \<longleftrightarrow> t < 256"

lemma type_byte_ucast [simp]: "type_byte (ucast (b :: u8))"
proof -
  have "unat b < 256" using unsigned_less [of b] by simp
  then show ?thesis by (simp add: type_byte_def word_less_nat_alt unsigned_ucast_eq take_bit_nat_eq_self)
qed

lemma type_byte_numerals [simp]: "type_byte 0x1C" "type_byte 0x1D" "type_byte 0x30" "type_byte 0x31"
  by (simp_all add: type_byte_def)

lemma ucast_type_byte [simp]: "type_byte t \<Longrightarrow> ucast (ucast t :: u8) = t"
  by (rule ucast_ucast_small) (simp add: type_byte_def word_less_nat_alt)

definition max_streams_valid :: "dwnx_frame_max_streams \<Rightarrow> bool" where
  "max_streams_valid f \<longleftrightarrow> type_byte (ms_type f) \<and> ms_max_streams f \<le> DWNX_MAX_VARINT"

definition max_streams_wire :: "dwnx_frame_max_streams \<Rightarrow> bytes" where
  "max_streams_wire f = ucast (ms_type f) # uvbytes (ms_max_streams f)"

interpretation max_streams: frame_codec dwnx_frame_encode_max_streams dwnx_frame_decode_max_streams
  max_streams_valid max_streams_wire "\<lambda>f. f" "\<lambda>f r. True"
proof
  fix f outlen
  assume v: "max_streams_valid f"
  then show "dwnx_frame_encode_max_streams outlen f =
      (if outlen < length (max_streams_wire f) then Err ERR_NOBUF else Ok (max_streams_wire f))"
    by (auto simp: max_streams_valid_def max_streams_wire_def dwnx_frame_encode_max_streams_def codec_simps)
  fix r :: bytes
  show "dwnx_frame_decode_max_streams (max_streams_wire f @ r) = Ok (f, length (max_streams_wire f))"
    using v by (auto simp: max_streams_valid_def max_streams_wire_def dwnx_frame_decode_max_streams_def codec_simps)
next
  fix payload :: bytes and f n
  assume ne: "payload \<noteq> []"
  then show "dwnx_frame_decode_max_streams payload \<noteq> Abort"
    by (intro total_lemmas)
  assume ok: "dwnx_frame_decode_max_streams payload = Ok (f, n)"
  with ne show "0 < n \<and> n \<le> length payload"
    by (auto simp: dwnx_frame_decode_max_streams_def decode_simps split: if_splits)
  assume "length payload < 2 ^ 62"
  with ok ne show "max_streams_valid f"
    by (auto simp: dwnx_frame_decode_max_streams_def decode_simps max_streams_valid_def uvvalue_read_le
        i64_of_u64_small(2) split: if_splits)
qed

definition streams_blocked_valid :: "dwnx_frame_streams_blocked \<Rightarrow> bool" where
  "streams_blocked_valid f \<longleftrightarrow> type_byte (sb_type f) \<and> sb_max_streams f \<le> DWNX_MAX_VARINT"

definition streams_blocked_wire :: "dwnx_frame_streams_blocked \<Rightarrow> bytes" where
  "streams_blocked_wire f = ucast (sb_type f) # uvbytes (sb_max_streams f)"

interpretation streams_blocked: frame_codec dwnx_frame_encode_streams_blocked dwnx_frame_decode_streams_blocked
  streams_blocked_valid streams_blocked_wire "\<lambda>f. f" "\<lambda>f r. True"
proof
  fix f outlen
  assume v: "streams_blocked_valid f"
  then show "dwnx_frame_encode_streams_blocked outlen f =
      (if outlen < length (streams_blocked_wire f) then Err ERR_NOBUF else Ok (streams_blocked_wire f))"
    by (auto simp: streams_blocked_valid_def streams_blocked_wire_def dwnx_frame_encode_streams_blocked_def codec_simps)
  fix r :: bytes
  show "dwnx_frame_decode_streams_blocked (streams_blocked_wire f @ r) = Ok (f, length (streams_blocked_wire f))"
    using v by (auto simp: streams_blocked_valid_def streams_blocked_wire_def dwnx_frame_decode_streams_blocked_def codec_simps)
next
  fix payload :: bytes and f n
  assume ne: "payload \<noteq> []"
  then show "dwnx_frame_decode_streams_blocked payload \<noteq> Abort"
    by (intro total_lemmas)
  assume ok: "dwnx_frame_decode_streams_blocked payload = Ok (f, n)"
  with ne show "0 < n \<and> n \<le> length payload"
    by (auto simp: dwnx_frame_decode_streams_blocked_def decode_simps split: if_splits)
  assume "length payload < 2 ^ 62"
  with ok ne show "streams_blocked_valid f"
    by (auto simp: dwnx_frame_decode_streams_blocked_def decode_simps streams_blocked_valid_def uvvalue_read_le
        i64_of_u64_small(2) split: if_splits)
qed

definition qx_ping_valid :: "dwnx_frame_qx_ping \<Rightarrow> bool" where
  "qx_ping_valid f \<longleftrightarrow> ping_type f \<le> DWNX_MAX_VARINT \<and> ping_seq f \<le> DWNX_MAX_VARINT"

definition qx_ping_wire :: "dwnx_frame_qx_ping \<Rightarrow> bytes" where
  "qx_ping_wire f = uvbytes (ping_type f) @ uvbytes (ping_seq f)"

interpretation qx_ping: frame_codec dwnx_frame_encode_qx_ping dwnx_frame_decode_qx_ping
  qx_ping_valid qx_ping_wire "\<lambda>f. f" "\<lambda>f r. True"
proof
  fix f outlen
  assume v: "qx_ping_valid f"
  then show "dwnx_frame_encode_qx_ping outlen f =
      (if outlen < length (qx_ping_wire f) then Err ERR_NOBUF else Ok (qx_ping_wire f))"
    by (auto simp: qx_ping_valid_def qx_ping_wire_def dwnx_frame_encode_qx_ping_def codec_simps)
  fix r :: bytes
  show "dwnx_frame_decode_qx_ping (qx_ping_wire f @ r) = Ok (f, length (qx_ping_wire f))"
    using v by (auto simp: qx_ping_valid_def qx_ping_wire_def dwnx_frame_decode_qx_ping_def codec_simps)
next
  fix payload :: bytes and f n
  assume ne: "payload \<noteq> []"
  then show "dwnx_frame_decode_qx_ping payload \<noteq> Abort"
    by (intro total_lemmas)
  assume ok: "dwnx_frame_decode_qx_ping payload = Ok (f, n)"
  with ne show "0 < n \<and> n \<le> length payload"
    by (auto simp: dwnx_frame_decode_qx_ping_def decode_simps split: if_splits)
  assume "length payload < 2 ^ 62"
  with ok ne show "qx_ping_valid f"
    by (auto simp: dwnx_frame_decode_qx_ping_def decode_simps qx_ping_valid_def uvvalue_read_le
        i64_of_u64_small(2) split: if_splits)
qed

text \<open>The reason is read back from the frame; the frame type is 0 for an application close.\<close>

definition connection_close_norm :: "dwnx_frame_connection_close \<Rightarrow> dwnx_frame_connection_close" where
  "connection_close_norm f =
     (if cc_type f = DWNX_FRAME_CONNECTION_CLOSE then f else f\<lparr>cc_frame_type := 0\<rparr>)"

lemma of_nat_varint:
  assumes "n < 2 ^ 62"
  shows "(of_nat n :: u64) \<le> DWNX_MAX_VARINT" and "unat (of_nat n :: u64) = n"
proof -
  show u: "unat (of_nat n :: u64) = n"
    using assms by (simp add: unat_of_nat take_bit_nat_eq_self)
  show "(of_nat n :: u64) \<le> DWNX_MAX_VARINT"
    using assms u by (simp add: unat_le_max_varint)
qed

definition connection_close_valid :: "dwnx_frame_connection_close \<Rightarrow> bool" where
  "connection_close_valid f \<longleftrightarrow> type_byte (cc_type f) \<and> cc_error_code f \<le> DWNX_MAX_VARINT \<and> cc_frame_type f \<le> DWNX_MAX_VARINT \<and>
     cc_reasonlen f = length (cc_reason f) \<and> cc_reasonlen f < 2 ^ 62"

definition connection_close_wire :: "dwnx_frame_connection_close \<Rightarrow> bytes" where
  "connection_close_wire f = ucast (cc_type f) # uvbytes (cc_error_code f) @
     (if cc_type f = DWNX_FRAME_CONNECTION_CLOSE then uvbytes (cc_frame_type f) else []) @
     uvbytes (of_nat (cc_reasonlen f)) @ cc_reason f"

interpretation connection_close: frame_codec dwnx_frame_encode_connection_close dwnx_frame_decode_connection_close
  connection_close_valid connection_close_wire "connection_close_norm" "\<lambda>f r. True"
proof
  fix f outlen
  assume v: "connection_close_valid f"
  then show "dwnx_frame_encode_connection_close outlen f =
      (if outlen < length (connection_close_wire f) then Err ERR_NOBUF else Ok (connection_close_wire f))"
    by (auto simp: connection_close_valid_def connection_close_wire_def dwnx_frame_encode_connection_close_def codec_simps of_nat_varint)
  fix r :: bytes
  show "dwnx_frame_decode_connection_close (connection_close_wire f @ r) = Ok (connection_close_norm f, length (connection_close_wire f))"
    using v by (auto simp: connection_close_valid_def connection_close_wire_def dwnx_frame_decode_connection_close_def codec_simps of_nat_varint connection_close_norm_def)
next
  fix payload :: bytes and f n
  assume ne: "payload \<noteq> []"
  then show "dwnx_frame_decode_connection_close payload \<noteq> Abort"
    by (intro total_lemmas)
  assume ok: "dwnx_frame_decode_connection_close payload = Ok (f, n)"
  with ne show "0 < n \<and> n \<le> length payload"
    by (auto simp: dwnx_frame_decode_connection_close_def decode_simps split: if_splits)
  assume "length payload < 2 ^ 62"
  with ok ne show "connection_close_valid f"
    by (auto simp: dwnx_frame_decode_connection_close_def decode_simps connection_close_valid_def uvvalue_read_le
        i64_of_u64_small(2) split: if_splits)
qed

text \<open>The data comes back in one vector, which is left out when it is empty.\<close>

definition data_norm :: "dwnx_vec list \<Rightarrow> dwnx_vec list" where
  "data_norm vs = (if concat vs = [] then [] else [concat vs])"

lemma concat_data_norm [simp]: "concat (data_norm vs) = concat vs"
  by (simp add: data_norm_def)

definition datagram_norm :: "dwnx_frame_datagram \<Rightarrow> dwnx_frame_datagram" where
  "datagram_norm f = f\<lparr>dgram_data := data_norm (dgram_data f)\<rparr>"

definition datagram_valid :: "dwnx_frame_datagram \<Rightarrow> bool" where
  "datagram_valid f \<longleftrightarrow> type_byte (dgram_type f) \<and> dgram_len f = length (concat (dgram_data f)) \<and> dgram_len f < 2 ^ 62"

definition datagram_wire :: "dwnx_frame_datagram \<Rightarrow> bytes" where
  "datagram_wire f = ucast (dgram_type f) #
     (if dgram_type f = DWNX_FRAME_DATAGRAM_LEN then uvbytes (of_nat (dgram_len f)) else []) @
     concat (dgram_data f)"

interpretation datagram: frame_codec dwnx_frame_encode_datagram dwnx_frame_decode_datagram
  datagram_valid datagram_wire "datagram_norm" "\<lambda>f r. dgram_type f = DWNX_FRAME_DATAGRAM_LEN \<or> r = []"
proof
  fix f outlen
  assume v: "datagram_valid f"
  then show "dwnx_frame_encode_datagram outlen f =
      (if outlen < length (datagram_wire f) then Err ERR_NOBUF else Ok (datagram_wire f))"
    by (auto simp: datagram_valid_def datagram_wire_def dwnx_frame_encode_datagram_def codec_simps of_nat_varint dwnx_vec_len_concat)
  fix r :: bytes
  assume fo: "dgram_type f = DWNX_FRAME_DATAGRAM_LEN \<or> r = []"
  show "dwnx_frame_decode_datagram (datagram_wire f @ r) = Ok (datagram_norm f, length (datagram_wire f))"
    using v fo by (auto simp: datagram_valid_def datagram_wire_def dwnx_frame_decode_datagram_def codec_simps of_nat_varint datagram_norm_def data_norm_def)
next
  fix payload :: bytes and f n
  assume ne: "payload \<noteq> []"
  then show "dwnx_frame_decode_datagram payload \<noteq> Abort"
    by (intro total_lemmas)
  assume ok: "dwnx_frame_decode_datagram payload = Ok (f, n)"
  with ne show "0 < n \<and> n \<le> length payload"
    by (auto simp: dwnx_frame_decode_datagram_def decode_simps assertr_def split: if_splits)
  assume "length payload < 2 ^ 62"
  with ok ne show "datagram_valid f"
    by (auto simp: dwnx_frame_decode_datagram_def decode_simps datagram_valid_def uvvalue_read_le
        i64_of_u64_small(2) assertr_def split: if_splits)
qed

text \<open>The idle timeout is sent in milliseconds.\<close>

definition qx_transport_parameters_norm ::
    "dwnx_frame_qx_transport_parameters \<Rightarrow> dwnx_frame_qx_transport_parameters" where
  "qx_transport_parameters_norm f = f\<lparr>qtp_params := wire_params (qtp_params f)\<rparr>"

lemma length_param_bytes: "length (param_bytes cond pid v) \<le> 24"
  using uvlen_le_8 [of pid] uvlen_le_8 [of "of_nat (uvlen v)"] uvlen_le_8 [of v]
  by (simp add: param_bytes_def)

lemma length_transport_params_bytes: "length (transport_params_bytes params) \<le> 216"
  unfolding transport_params_bytes_def length_append
  by (rule order_trans [OF add_mono [OF length_param_bytes add_mono [OF length_param_bytes
      add_mono [OF length_param_bytes add_mono [OF length_param_bytes add_mono [OF length_param_bytes
      add_mono [OF length_param_bytes add_mono [OF length_param_bytes add_mono [OF length_param_bytes
      length_param_bytes]]]]]]]]]) simp

lemma params_len_varint:
  "(of_nat (length (transport_params_bytes params)) :: u64) \<le> DWNX_MAX_VARINT"
  "unat (of_nat (length (transport_params_bytes params)) :: u64) = length (transport_params_bytes params)"
  using length_transport_params_bytes [of params]
  by (auto intro!: of_nat_varint order.strict_trans1 [OF length_transport_params_bytes])

definition qx_transport_parameters_valid :: "dwnx_frame_qx_transport_parameters \<Rightarrow> bool" where
  "qx_transport_parameters_valid f \<longleftrightarrow> qtp_type f \<le> DWNX_MAX_VARINT \<and> transport_params_valid (qtp_params f)"

definition qx_transport_parameters_wire :: "dwnx_frame_qx_transport_parameters \<Rightarrow> bytes" where
  "qx_transport_parameters_wire f = uvbytes (qtp_type f) @ uvbytes (of_nat (length (transport_params_bytes (qtp_params f)))) @
     transport_params_bytes (qtp_params f)"

interpretation qx_transport_parameters: frame_codec dwnx_frame_encode_qx_transport_parameters dwnx_frame_decode_qx_transport_parameters
  qx_transport_parameters_valid qx_transport_parameters_wire "qx_transport_parameters_norm" "\<lambda>f r. True"
proof
  fix f outlen
  assume v: "qx_transport_parameters_valid f"
  then show "dwnx_frame_encode_qx_transport_parameters outlen f =
      (if outlen < length (qx_transport_parameters_wire f) then Err ERR_NOBUF else Ok (qx_transport_parameters_wire f))"
    by (auto simp: qx_transport_parameters_valid_def qx_transport_parameters_wire_def dwnx_frame_encode_qx_transport_parameters_def codec_simps dwnx_transport_params_encode_def transport_params_encode_valid params_len_varint)
  fix r :: bytes
  show "dwnx_frame_decode_qx_transport_parameters (qx_transport_parameters_wire f @ r) = Ok (qx_transport_parameters_norm f, length (qx_transport_parameters_wire f))"
    using v by (auto simp: qx_transport_parameters_valid_def qx_transport_parameters_wire_def dwnx_frame_decode_qx_transport_parameters_def codec_simps transport_params_decode_bytes params_len_varint qx_transport_parameters_norm_def)
next
  fix payload :: bytes and f n
  assume ne: "payload \<noteq> []"
  then show "dwnx_frame_decode_qx_transport_parameters payload \<noteq> Abort"
    by (intro total_lemmas)
  assume ok: "dwnx_frame_decode_qx_transport_parameters payload = Ok (f, n)"
  with ne show "0 < n \<and> n \<le> length payload"
    by (auto simp: dwnx_frame_decode_qx_transport_parameters_def decode_simps split: if_splits res.splits)
  assume "length payload < 2 ^ 62"
  with ok ne show "qx_transport_parameters_valid f"
    by (auto simp: dwnx_frame_decode_qx_transport_parameters_def decode_simps qx_transport_parameters_valid_def uvvalue_read_le
        i64_of_u64_small(2) dwnx_transport_params_decode_def split: if_splits res.splits dest: transport_params_decode_loop_valid [OF transport_params_default_valid])
qed


end
