(* ===== verification/FrameDispatch.thy ===== *)
theory FrameDispatch
  imports FrameCodec
begin

text \<open>
  The remaining frames, PADDING and STREAM, and the codec of the whole union: \<open>dwnx_frame_encode\<close>
  and \<open>dwnx_frd_decode\<close> satisfy the contract \<open>frame_codec\<close> too.
\<close>

unbundle bit_operations_syntax

section \<open>PADDING\<close>

definition padding_valid :: "dwnx_frame_padding \<Rightarrow> bool" where
  "padding_valid f \<longleftrightarrow> padding_type f = DWNX_FRAME_PADDING \<and> 0 < padding_len f"

definition padding_wire :: "dwnx_frame_padding \<Rightarrow> bytes" where
  "padding_wire f = replicate (padding_len f) 0"

lemma ucast_eq_0 [simp]: "(ucast (b :: u8) :: u64) = 0 \<longleftrightarrow> b = 0"
proof -
  have "unat b < 256" using unsigned_less [of b] by simp
  then have "unat b < 2 ^ LENGTH(64)" by simp
  then have "unat (ucast b :: u64) = unat b" by (rule unat_ucast_small)
  then show ?thesis by (metis unat_eq_zero)
qed

lemma takeWhile_zeros:
  "r = [] \<or> hd r \<noteq> 0 \<Longrightarrow> takeWhile (\<lambda>b :: u8. b = 0) (replicate k 0 @ r) = replicate k 0"
  by (induction k) (auto simp: takeWhile_eq_Nil_iff)

interpretation padding: frame_codec dwnx_frame_encode_padding dwnx_frame_decode_padding
  padding_valid padding_wire "\<lambda>f. f" "\<lambda>f r. r = [] \<or> hd r \<noteq> 0"
proof
  fix f outlen
  assume v: "padding_valid f"
  then show "dwnx_frame_encode_padding outlen f =
      (if outlen < length (padding_wire f) then Err ERR_NOBUF else Ok (padding_wire f))"
    by (simp add: padding_wire_def dwnx_frame_encode_padding_def encode_checked_def)
  fix r :: bytes
  assume "r = [] \<or> hd r \<noteq> 0"
  then show "dwnx_frame_decode_padding (padding_wire f @ r) = Ok (f, length (padding_wire f))"
    using v takeWhile_zeros [of r "padding_len f - 1"]
    by (cases "padding_len f")
       (auto simp: padding_valid_def padding_wire_def dwnx_frame_decode_padding_def Let_def)
next
  fix payload :: bytes and f n
  assume ne: "payload \<noteq> []"
  then show "dwnx_frame_decode_padding payload \<noteq> Abort"
    by (rule total_lemmas)
  assume ok: "dwnx_frame_decode_padding payload = Ok (f, n)"
  with ne show "0 < n \<and> n \<le> length payload"
    using length_takeWhile_le [of "\<lambda>b. b = 0" "drop 1 payload"]
    by (cases payload) (auto simp: dwnx_frame_decode_padding_def Let_def)
  from ok ne show "padding_valid f"
    by (auto simp: dwnx_frame_decode_padding_def Let_def padding_valid_def)
qed

section \<open>STREAM\<close>

lemma copy_stream_data_eq: "copy_stream_data left vs = take left (concat vs)"
  by (induction left vs rule: copy_stream_data.induct) (auto simp: min_def)

definition stream_flag_byte :: "dwnx_frame_stream \<Rightarrow> u8" where
  "stream_flag_byte f =
     0x0A OR (if stream_fin f then 0x01 else 0) OR (if stream_offset f \<noteq> 0 then 0x04 else 0)"

definition stream_valid :: "dwnx_frame_stream \<Rightarrow> bool" where
  "stream_valid f \<longleftrightarrow>
     stream_type f = DWNX_FRAME_STREAM \<and> stream_id_valid (stream_stream_id f) \<and>
     stream_offset f \<le> DWNX_MAX_VARINT \<and> stream_len f = length (concat (stream_data f)) \<and>
     stream_len f < 2 ^ 62"

definition stream_wire :: "dwnx_frame_stream \<Rightarrow> bytes" where
  "stream_wire f =
     stream_flag_byte f # uvbytes (u64_of_i64 (stream_stream_id f)) @
     (if stream_offset f \<noteq> 0 then uvbytes (stream_offset f) else []) @
     uvbytes (of_nat (stream_len f)) @ concat (stream_data f)"

definition stream_norm :: "dwnx_frame_stream \<Rightarrow> dwnx_frame_stream" where
  "stream_norm f = f\<lparr>stream_flags := stream_flag_byte f AND NOT (ucast DWNX_FRAME_STREAM),
                     stream_data := data_norm (stream_data f)\<rparr>"

lemma stream_flag_bits [simp]:
  "stream_flag_byte f AND DWNX_STREAM_LEN_BIT \<noteq> 0"
  "stream_flag_byte f AND DWNX_STREAM_OFF_BIT = 0 \<longleftrightarrow> stream_offset f = 0"
  "stream_flag_byte f AND DWNX_STREAM_FIN_BIT = 0 \<longleftrightarrow> \<not> stream_fin f"
  by (simp_all add: stream_flag_byte_def)

lemma encode_stream_wire:
  assumes "stream_valid f"
  shows "dwnx_frame_encode_stream outlen f =
     (if outlen < length (stream_wire f) then Err ERR_NOBUF else Ok (stream_wire f))"
  using assms
  by (cases "stream_fin f"; cases "stream_offset f = 0")
     (auto simp: stream_valid_def stream_wire_def dwnx_frame_encode_stream_def Let_def
      encode_checked_def copy_stream_data_eq of_nat_varint stream_flag_byte_def)

lemma uvvalue_uvbytes: "n \<le> DWNX_MAX_VARINT \<Longrightarrow> uvvalue (uvbytes n) = n"
  using get_uvarint_put [of n "[]"] get_uvarint_eq [of "uvbytes n"] by (simp add: vext_uvx' uvlen_uvx)

lemma decode_stream_wire:
  assumes v: "stream_valid f"
  shows "dwnx_frame_decode_stream (stream_wire f @ r) = Ok (stream_norm f, length (stream_wire f))"
proof -
  define tl where "tl = uvbytes (of_nat (stream_len f)) @ concat (stream_data f) @ r"
  define p2 where "p2 = (if stream_offset f \<noteq> 0 then uvbytes (stream_offset f) else []) @ tl"
  define w where "w = stream_flag_byte f # uvbytes (u64_of_i64 (stream_stream_id f)) @ p2"
  note valid = v [unfolded stream_valid_def]
  have w: "stream_wire f @ r = w"
    by (simp add: stream_wire_def w_def p2_def tl_def)
  have off: "stream_offset_at w = p2"
    using valid by (simp add: stream_offset_at_def w_def vext_uvx uvlen_uvx)
  have hd: "hd w = stream_flag_byte f"
    by (simp add: w_def)
  have len: "stream_len_at w = tl"
    using valid unfolding stream_len_at_def off hd by (simp add: Let_def p2_def vext_uvx uvlen_uvx)
  have n: "(of_nat (stream_len f) :: u64) \<le> DWNX_MAX_VARINT" "unat (of_nat (stream_len f) :: u64) = stream_len f"
    using valid by (simp_all add: of_nat_varint)
  have tl: "vext tl = uvx (of_nat (stream_len f))"
    "drop (Suc (uvx (of_nat (stream_len f)))) tl = concat (stream_data f) @ r"
    "length tl = Suc (uvx (of_nat (stream_len f))) + stream_len f + length r"
    "uvvalue (take (Suc (uvx (of_nat (stream_len f)))) tl) = of_nat (stream_len f)"
    using n valid by (simp_all add: tl_def vext_uvx uvlen_uvx uvvalue_uvbytes)
  have d1: "drop 1 w = uvbytes (u64_of_i64 (stream_stream_id f)) @ p2"
    by (simp add: w_def)
  have frame: "stream_frame_at w (stream_len f) (Suc (uvx (of_nat (stream_len f)))) = stream_norm f"
    using valid
    unfolding stream_frame_at_def Let_def hd off len d1 tl
    by (auto simp: stream_norm_def p2_def vext_uvx uvlen_uvx uvvalue_uvbytes data_norm_def)
  have lw: "length w = length (stream_wire f) + length r"
    using w by (metis length_append)
  have lp: "length (stream_wire f) = length w - length tl + length tl - length r"
    using lw by (simp add: w_def p2_def)
  have "dwnx_frame_decode_stream w = Ok (stream_norm f, length (stream_wire f))"
    using valid n tl lp frame lw
    unfolding decode_stream_eq Let_def d1 off len hd
    by (auto simp: vext_uvx uvlen_uvx p2_def)
  then show ?thesis by (simp only: w)
qed

interpretation stream: frame_codec dwnx_frame_encode_stream dwnx_frame_decode_stream
  stream_valid stream_wire stream_norm "\<lambda>f r. True"
proof
  fix f outlen
  assume v: "stream_valid f"
  then show "dwnx_frame_encode_stream outlen f =
      (if outlen < length (stream_wire f) then Err ERR_NOBUF else Ok (stream_wire f))"
    by (rule encode_stream_wire)
  fix r
  from v show "dwnx_frame_decode_stream (stream_wire f @ r) = Ok (stream_norm f, length (stream_wire f))"
    by (rule decode_stream_wire)
next
  fix payload :: bytes and f n
  assume ne: "payload \<noteq> []"
  show "dwnx_frame_decode_stream payload \<noteq> Abort"
    by (rule total_lemmas)
  assume ok: "dwnx_frame_decode_stream payload = Ok (f, n)"
  have p3: "length (stream_len_at payload) \<le> length (stream_offset_at payload)"
    "length (stream_offset_at payload) \<le> length payload"
    by (simp_all add: stream_len_at_def stream_offset_at_def Let_def) auto
  with ok ne show "0 < n \<and> n \<le> length payload"
    by (auto simp: decode_stream_eq Let_def split: if_splits)
  assume "length payload < 2 ^ 62"
  with ok p3 show "stream_valid f"
    by (auto simp: decode_stream_eq Let_def stream_valid_def stream_frame_at_def i64_of_u64_small(2)
        uvvalue_read_le split: if_splits)
qed

section \<open>The union\<close>

text \<open>Frames the encoder accepts: each member is valid and carries a type of its own.\<close>

definition frame_valid :: "dwnx_frame \<Rightarrow> bool" where
  "frame_valid fr =
     (case fr of
        Fr_qx_transport_parameters f \<Rightarrow>
          qtp_type f = DWNX_FRAME_QX_TRANSPORT_PARAMETERS \<and> qx_transport_parameters_valid f
      | Fr_qx_ping f \<Rightarrow>
          ping_type f \<in> {DWNX_FRAME_QX_PING_REQUEST, DWNX_FRAME_QX_PING_RESPONSE} \<and> qx_ping_valid f
      | Fr_padding f \<Rightarrow> padding_valid f
      | Fr_stream f \<Rightarrow> stream_valid f
      | Fr_reset_stream f \<Rightarrow> reset_stream_valid f
      | Fr_stop_sending f \<Rightarrow> stop_sending_valid f
      | Fr_max_data f \<Rightarrow> max_data_valid f
      | Fr_max_stream_data f \<Rightarrow> max_stream_data_valid f
      | Fr_max_streams f \<Rightarrow>
          ms_type f \<in> {DWNX_FRAME_MAX_STREAMS_BIDI, DWNX_FRAME_MAX_STREAMS_UNI} \<and> max_streams_valid f
      | Fr_data_blocked f \<Rightarrow> data_blocked_valid f
      | Fr_stream_data_blocked f \<Rightarrow> stream_data_blocked_valid f
      | Fr_streams_blocked f \<Rightarrow>
          sb_type f \<in> {DWNX_FRAME_STREAMS_BLOCKED_BIDI, DWNX_FRAME_STREAMS_BLOCKED_UNI} \<and>
          streams_blocked_valid f
      | Fr_connection_close f \<Rightarrow>
          cc_type f \<in> {DWNX_FRAME_CONNECTION_CLOSE, DWNX_FRAME_CONNECTION_CLOSE_APP} \<and>
          connection_close_valid f
      | Fr_datagram f \<Rightarrow>
          dgram_type f \<in> {DWNX_FRAME_DATAGRAM, DWNX_FRAME_DATAGRAM_LEN} \<and> datagram_valid f)"

definition frame_wire :: "dwnx_frame \<Rightarrow> bytes" where
  "frame_wire fr =
     (case fr of
        Fr_qx_transport_parameters f \<Rightarrow> qx_transport_parameters_wire f
      | Fr_qx_ping f \<Rightarrow> qx_ping_wire f
      | Fr_padding f \<Rightarrow> padding_wire f
      | Fr_stream f \<Rightarrow> stream_wire f
      | Fr_reset_stream f \<Rightarrow> reset_stream_wire f
      | Fr_stop_sending f \<Rightarrow> stop_sending_wire f
      | Fr_max_data f \<Rightarrow> max_data_wire f
      | Fr_max_stream_data f \<Rightarrow> max_stream_data_wire f
      | Fr_max_streams f \<Rightarrow> max_streams_wire f
      | Fr_data_blocked f \<Rightarrow> data_blocked_wire f
      | Fr_stream_data_blocked f \<Rightarrow> stream_data_blocked_wire f
      | Fr_streams_blocked f \<Rightarrow> streams_blocked_wire f
      | Fr_connection_close f \<Rightarrow> connection_close_wire f
      | Fr_datagram f \<Rightarrow> datagram_wire f)"

text \<open>What a frame reads back as: data in one vector, the idle timeout in whole milliseconds, no
  frame type in an application close.\<close>

fun frame_norm :: "dwnx_frame \<Rightarrow> dwnx_frame" where
  "frame_norm (Fr_qx_transport_parameters f) = Fr_qx_transport_parameters (qx_transport_parameters_norm f)"
| "frame_norm (Fr_stream f) = Fr_stream (stream_norm f)"
| "frame_norm (Fr_connection_close f) = Fr_connection_close (connection_close_norm f)"
| "frame_norm (Fr_datagram f) = Fr_datagram (datagram_norm f)"
| "frame_norm fr = fr"

text \<open>PADDING swallows the zero bytes that follow it, and a DATAGRAM without a length the rest of
  the record.\<close>

fun frame_follows :: "dwnx_frame \<Rightarrow> bytes \<Rightarrow> bool" where
  "frame_follows (Fr_padding f) r \<longleftrightarrow> r = [] \<or> hd r \<noteq> 0"
| "frame_follows (Fr_datagram f) r \<longleftrightarrow> dgram_type f = DWNX_FRAME_DATAGRAM_LEN \<or> r = []"
| "frame_follows fr r \<longleftrightarrow> True"

lemma frame_encode_wire:
  assumes "frame_valid fr"
  shows "dwnx_frame_encode outlen fr =
     (if outlen < length (frame_wire fr) then Err ERR_NOBUF else Ok (frame_wire fr))"
  using assms
  by (cases fr) (auto simp: frame_valid_def frame_wire_def dwnx_frame_encode_def padding_valid_def
      stream_valid_def reset_stream_valid_def stop_sending_valid_def max_data_valid_def
      max_stream_data_valid_def data_blocked_valid_def stream_data_blocked_valid_def
      qx_transport_parameters.enc_wire qx_ping.enc_wire padding.enc_wire stream.enc_wire
      reset_stream.enc_wire stop_sending.enc_wire max_data.enc_wire max_stream_data.enc_wire
      max_streams.enc_wire data_blocked.enc_wire stream_data_blocked.enc_wire
      streams_blocked.enc_wire connection_close.enc_wire datagram.enc_wire)

text \<open>The dispatch on the first byte, and on the whole varint for the long types.\<close>

lemma frd_decode_padding:
  "payload \<noteq> [] \<Longrightarrow> hd payload = 0 \<Longrightarrow>
     dwnx_frd_decode payload = as_frame Fr_padding (dwnx_frame_decode_padding payload)"
  by (simp add: dwnx_frd_decode_def)

lemma frd_decode_reset_stream:
  "payload \<noteq> [] \<Longrightarrow> hd payload = 4 \<Longrightarrow>
     dwnx_frd_decode payload = as_frame Fr_reset_stream (dwnx_frame_decode_reset_stream payload)"
  by (simp add: dwnx_frd_decode_def)

lemma frd_decode_stop_sending:
  "payload \<noteq> [] \<Longrightarrow> hd payload = 5 \<Longrightarrow>
     dwnx_frd_decode payload = as_frame Fr_stop_sending (dwnx_frame_decode_stop_sending payload)"
  by (simp add: dwnx_frd_decode_def)

lemma frd_decode_max_data:
  "payload \<noteq> [] \<Longrightarrow> hd payload = 0x10 \<Longrightarrow>
     dwnx_frd_decode payload = as_frame Fr_max_data (dwnx_frame_decode_max_data payload)"
  by (simp add: dwnx_frd_decode_def)

lemma frd_decode_max_stream_data:
  "payload \<noteq> [] \<Longrightarrow> hd payload = 0x11 \<Longrightarrow>
     dwnx_frd_decode payload = as_frame Fr_max_stream_data (dwnx_frame_decode_max_stream_data payload)"
  by (simp add: dwnx_frd_decode_def)

lemma frd_decode_max_streams:
  "payload \<noteq> [] \<Longrightarrow> hd payload \<in> {0x12, 0x13} \<Longrightarrow>
     dwnx_frd_decode payload = as_frame Fr_max_streams (dwnx_frame_decode_max_streams payload)"
  by (elim insertE emptyE; simp add: dwnx_frd_decode_def)

lemma frd_decode_data_blocked:
  "payload \<noteq> [] \<Longrightarrow> hd payload = 0x14 \<Longrightarrow>
     dwnx_frd_decode payload = as_frame Fr_data_blocked (dwnx_frame_decode_data_blocked payload)"
  by (simp add: dwnx_frd_decode_def)

lemma frd_decode_stream_data_blocked:
  "payload \<noteq> [] \<Longrightarrow> hd payload = 0x15 \<Longrightarrow>
     dwnx_frd_decode payload = as_frame Fr_stream_data_blocked (dwnx_frame_decode_stream_data_blocked payload)"
  by (simp add: dwnx_frd_decode_def)

lemma frd_decode_streams_blocked:
  "payload \<noteq> [] \<Longrightarrow> hd payload \<in> {0x16, 0x17} \<Longrightarrow>
     dwnx_frd_decode payload = as_frame Fr_streams_blocked (dwnx_frame_decode_streams_blocked payload)"
  by (elim insertE emptyE; simp add: dwnx_frd_decode_def)

lemma frd_decode_connection_close:
  "payload \<noteq> [] \<Longrightarrow> hd payload \<in> {0x1C, 0x1D} \<Longrightarrow>
     dwnx_frd_decode payload = as_frame Fr_connection_close (dwnx_frame_decode_connection_close payload)"
  by (elim insertE emptyE; simp add: dwnx_frd_decode_def)

lemma frd_decode_datagram:
  "payload \<noteq> [] \<Longrightarrow> hd payload \<in> {0x30, 0x31} \<Longrightarrow>
     dwnx_frd_decode payload = as_frame Fr_datagram (dwnx_frame_decode_datagram payload)"
  by (elim insertE emptyE; simp add: dwnx_frd_decode_def)

lemma frd_decode_stream:
  "payload \<noteq> [] \<Longrightarrow> hd payload \<in> {0x0A, 0x0B, 0x0E, 0x0F} \<Longrightarrow>
     dwnx_frd_decode payload = as_frame Fr_stream (dwnx_frame_decode_stream payload)"
  by (elim insertE emptyE; simp add: dwnx_frd_decode_def)

lemmas frd_decode_dispatch = frd_decode_padding frd_decode_reset_stream frd_decode_stop_sending frd_decode_max_data frd_decode_max_stream_data frd_decode_max_streams frd_decode_data_blocked frd_decode_stream_data_blocked frd_decode_streams_blocked frd_decode_connection_close frd_decode_datagram frd_decode_stream

lemma be_bytes_numeral:
  "be_bytes (numeral k) w = ucast (drop_bit (8 * pred_numeral k) w) # be_bytes (pred_numeral k) w"
  by (simp only: numeral_eq_Suc be_bytes_Cons)

lemma uvbytes_long_types:
  "uvbytes DWNX_FRAME_QX_TRANSPORT_PARAMETERS = [0xFF, 0x51, 0x53, 0x30, 0x0D, 0x0A, 0x0D, 0x0A]"
  "uvbytes DWNX_FRAME_QX_PING_REQUEST = [0xF4, 0x8C, 0x67, 0x52, 0x9E, 0xF8, 0xC7, 0xBD]"
  "uvbytes DWNX_FRAME_QX_PING_RESPONSE = [0xF4, 0x8C, 0x67, 0x52, 0x9E, 0xF8, 0xC7, 0xBE]"
  by (simp_all add: uvbytes_def be_bytes_numeral)

lemma frd_decode_long:
  assumes "t \<in> {DWNX_FRAME_QX_TRANSPORT_PARAMETERS, DWNX_FRAME_QX_PING_REQUEST, DWNX_FRAME_QX_PING_RESPONSE}"
  shows "dwnx_frd_decode (uvbytes t @ r) =
    (if t = DWNX_FRAME_QX_TRANSPORT_PARAMETERS
     then as_frame Fr_qx_transport_parameters (dwnx_frame_decode_qx_transport_parameters (uvbytes t @ r))
     else as_frame Fr_qx_ping (dwnx_frame_decode_qx_ping (uvbytes t @ r)))"
proof -
  have m: "t \<le> DWNX_MAX_VARINT"
    using assms by (auto simp: DWNX_MAX_VARINT_def)
  define payload where "payload = uvbytes t @ r"
  have hd: "hd payload \<in> {0xFF, 0xF4}"
    using assms by (auto simp: uvbytes_long_types payload_def)
  have ne: "payload \<noteq> []" and l: "\<not> length payload < uvlen t"
    and g: "dwnx_get_uvarintlen payload = Ok (uvlen t)" "dwnx_get_uvarint payload = Ok (t, r)"
    using m by (simp_all add: payload_def)
  have "dwnx_frd_decode payload =
     (if t = DWNX_FRAME_QX_TRANSPORT_PARAMETERS
      then as_frame Fr_qx_transport_parameters (dwnx_frame_decode_qx_transport_parameters payload)
      else if t = DWNX_FRAME_QX_PING_REQUEST \<or> t = DWNX_FRAME_QX_PING_RESPONSE
      then as_frame Fr_qx_ping (dwnx_frame_decode_qx_ping payload)
      else Err ERR_FRAME_ENCODING)"
    using hd by (elim insertE emptyE; simp add: dwnx_frd_decode_def ne l g)
  with assms show ?thesis by (auto simp: payload_def)
qed

lemma frd_decode_wire:
  assumes "frame_valid fr" and "frame_follows fr r"
  shows "dwnx_frd_decode (frame_wire fr @ r) = Ok (frame_norm fr, length (frame_wire fr))"
proof (cases fr)
  case (Fr_qx_transport_parameters f)
  then show ?thesis
    using assms qx_transport_parameters.dec_wire [of f r]
    by (simp add: frame_valid_def frame_wire_def qx_transport_parameters_wire_def frd_decode_long as_frame_def)
next
  case (Fr_qx_ping f)
  then show ?thesis
    using assms qx_ping.dec_wire [of f r]
    by (auto simp: frame_valid_def frame_wire_def qx_ping_wire_def frd_decode_long as_frame_def)
next
  case (Fr_padding f)
  then show ?thesis
    using assms padding.dec_wire [of f r]
    by (cases "padding_len f")
       (auto simp: frame_valid_def frame_wire_def padding_wire_def frd_decode_dispatch as_frame_def padding_valid_def)
next
  case (Fr_stream f)
  have "stream_flag_byte f \<in> {0x0A, 0x0B, 0x0E, 0x0F}"
    by (simp add: stream_flag_byte_def)
  then show ?thesis
    using Fr_stream assms stream.dec_wire [of f r]
    by (simp add: frame_valid_def frame_wire_def stream_wire_def frd_decode_dispatch as_frame_def)
next
  case (Fr_max_streams f)
  then show ?thesis
    using assms max_streams.dec_wire [of f r]
    by (auto simp: frame_valid_def frame_wire_def max_streams_wire_def frd_decode_dispatch as_frame_def)
next
  case (Fr_streams_blocked f)
  then show ?thesis
    using assms streams_blocked.dec_wire [of f r]
    by (auto simp: frame_valid_def frame_wire_def streams_blocked_wire_def frd_decode_dispatch as_frame_def)
next
  case (Fr_connection_close f)
  then show ?thesis
    using assms connection_close.dec_wire [of f r]
    by (auto simp: frame_valid_def frame_wire_def connection_close_wire_def frd_decode_dispatch as_frame_def)
next
  case (Fr_datagram f)
  then show ?thesis
    using assms datagram.dec_wire [of f r]
    by (auto simp: frame_valid_def frame_wire_def datagram_wire_def frd_decode_dispatch as_frame_def)
next
  case (Fr_reset_stream f)
  then show ?thesis
    using assms reset_stream.dec_wire [of f r]
    by (simp add: frame_valid_def frame_wire_def reset_stream_wire_def frd_decode_dispatch as_frame_def)
next
  case (Fr_stop_sending f)
  then show ?thesis
    using assms stop_sending.dec_wire [of f r]
    by (simp add: frame_valid_def frame_wire_def stop_sending_wire_def frd_decode_dispatch as_frame_def)
next
  case (Fr_max_data f)
  then show ?thesis
    using assms max_data.dec_wire [of f r]
    by (simp add: frame_valid_def frame_wire_def max_data_wire_def frd_decode_dispatch as_frame_def)
next
  case (Fr_max_stream_data f)
  then show ?thesis
    using assms max_stream_data.dec_wire [of f r]
    by (simp add: frame_valid_def frame_wire_def max_stream_data_wire_def frd_decode_dispatch as_frame_def)
next
  case (Fr_data_blocked f)
  then show ?thesis
    using assms data_blocked.dec_wire [of f r]
    by (simp add: frame_valid_def frame_wire_def data_blocked_wire_def frd_decode_dispatch as_frame_def)
next
  case (Fr_stream_data_blocked f)
  then show ?thesis
    using assms stream_data_blocked.dec_wire [of f r]
    by (simp add: frame_valid_def frame_wire_def stream_data_blocked_wire_def frd_decode_dispatch as_frame_def)
qed

lemma frd_decode_total: "dwnx_frd_decode payload \<noteq> Abort"
  using total_lemmas [of payload]
  by (auto simp: dwnx_frd_decode_def Let_def as_frame_eq_Abort get_uvarintlen_eq get_uvarint_eq)

text \<open>A decoded frame keeps the type the dispatch has looked at.\<close>

lemma decoded_type_max_streams:
  "dwnx_frame_decode_max_streams payload = Ok (f, n) \<Longrightarrow> ms_type f = ucast (hd payload)"
  by (auto simp: dwnx_frame_decode_max_streams_def Let_def bindr_eq_Ok decode_done_def assertr_def
      split: if_split_asm prod.split_asm)

lemma decoded_type_streams_blocked:
  "dwnx_frame_decode_streams_blocked payload = Ok (f, n) \<Longrightarrow> sb_type f = ucast (hd payload)"
  by (auto simp: dwnx_frame_decode_streams_blocked_def Let_def bindr_eq_Ok decode_done_def assertr_def
      split: if_split_asm prod.split_asm)

lemma decoded_type_connection_close:
  "dwnx_frame_decode_connection_close payload = Ok (f, n) \<Longrightarrow> cc_type f = ucast (hd payload)"
  by (cases "ucast (hd payload) = DWNX_FRAME_CONNECTION_CLOSE")
     (auto simp: dwnx_frame_decode_connection_close_def decode_simps get_uvarint_eq split: if_split_asm)

lemma decoded_type_datagram:
  "dwnx_frame_decode_datagram payload = Ok (f, n) \<Longrightarrow> dgram_type f = ucast (hd payload)"
  by (auto simp: dwnx_frame_decode_datagram_def Let_def bindr_eq_Ok decode_done_def assertr_def
      split: if_split_asm prod.split_asm)

lemmas decoded_type_byte = decoded_type_max_streams decoded_type_streams_blocked
  decoded_type_connection_close decoded_type_datagram

lemma decoded_type_long:
  "dwnx_frame_decode_qx_transport_parameters payload = Ok (f1, n) \<Longrightarrow>
     dwnx_get_uvarint payload = Ok (t, r) \<Longrightarrow> qtp_type f1 = t"
  "dwnx_frame_decode_qx_ping payload = Ok (f2, n) \<Longrightarrow>
     dwnx_get_uvarint payload = Ok (t, r) \<Longrightarrow> ping_type f2 = t"
  by (auto simp: dwnx_frame_decode_qx_transport_parameters_def dwnx_frame_decode_qx_ping_def Let_def
      bindr_eq_Ok decode_done_eq_Ok split: if_split_asm res.split_asm)

text \<open>Every decoded frame comes from the decoder of its member, and carries a type of it.\<close>

definition member_decode :: "bytes \<Rightarrow> dwnx_frame \<Rightarrow> nat \<Rightarrow> bool" where
  "member_decode payload fr n =
     (case fr of
        Fr_qx_transport_parameters f \<Rightarrow> dwnx_frame_decode_qx_transport_parameters payload = Ok (f, n) \<and>
          qtp_type f = DWNX_FRAME_QX_TRANSPORT_PARAMETERS
      | Fr_qx_ping f \<Rightarrow> dwnx_frame_decode_qx_ping payload = Ok (f, n) \<and>
          ping_type f \<in> {DWNX_FRAME_QX_PING_REQUEST, DWNX_FRAME_QX_PING_RESPONSE}
      | Fr_padding f \<Rightarrow> dwnx_frame_decode_padding payload = Ok (f, n)
      | Fr_stream f \<Rightarrow> dwnx_frame_decode_stream payload = Ok (f, n)
      | Fr_reset_stream f \<Rightarrow> dwnx_frame_decode_reset_stream payload = Ok (f, n)
      | Fr_stop_sending f \<Rightarrow> dwnx_frame_decode_stop_sending payload = Ok (f, n)
      | Fr_max_data f \<Rightarrow> dwnx_frame_decode_max_data payload = Ok (f, n)
      | Fr_max_stream_data f \<Rightarrow> dwnx_frame_decode_max_stream_data payload = Ok (f, n)
      | Fr_max_streams f \<Rightarrow> dwnx_frame_decode_max_streams payload = Ok (f, n) \<and>
          ms_type f \<in> {DWNX_FRAME_MAX_STREAMS_BIDI, DWNX_FRAME_MAX_STREAMS_UNI}
      | Fr_data_blocked f \<Rightarrow> dwnx_frame_decode_data_blocked payload = Ok (f, n)
      | Fr_stream_data_blocked f \<Rightarrow> dwnx_frame_decode_stream_data_blocked payload = Ok (f, n)
      | Fr_streams_blocked f \<Rightarrow> dwnx_frame_decode_streams_blocked payload = Ok (f, n) \<and>
          sb_type f \<in> {DWNX_FRAME_STREAMS_BLOCKED_BIDI, DWNX_FRAME_STREAMS_BLOCKED_UNI}
      | Fr_connection_close f \<Rightarrow> dwnx_frame_decode_connection_close payload = Ok (f, n) \<and>
          cc_type f \<in> {DWNX_FRAME_CONNECTION_CLOSE, DWNX_FRAME_CONNECTION_CLOSE_APP}
      | Fr_datagram f \<Rightarrow> dwnx_frame_decode_datagram payload = Ok (f, n) \<and>
          dgram_type f \<in> {DWNX_FRAME_DATAGRAM, DWNX_FRAME_DATAGRAM_LEN})"

lemma frd_decode_member:
  "dwnx_frd_decode payload = Ok (fr, n) \<Longrightarrow> member_decode payload fr n"
  unfolding dwnx_frd_decode_def Let_def
  by (auto simp: as_frame_eq_Ok bindr_eq_Ok member_decode_def decoded_type_byte decoded_type_long
      split: if_split_asm)

lemma frd_decode_nonempty: "dwnx_frd_decode payload = Ok (fr, n) \<Longrightarrow> payload \<noteq> []"
  by (auto simp: dwnx_frd_decode_def)

lemma frd_decode_bound:
  assumes "dwnx_frd_decode payload = Ok (fr, n)"
  shows "0 < n \<and> n \<le> length payload"
proof -
  note bound = qx_transport_parameters.dec_bound [OF frd_decode_nonempty [OF assms]] qx_ping.dec_bound [OF frd_decode_nonempty [OF assms]]
     padding.dec_bound [OF frd_decode_nonempty [OF assms]] stream.dec_bound [OF frd_decode_nonempty [OF assms]]
     reset_stream.dec_bound [OF frd_decode_nonempty [OF assms]] stop_sending.dec_bound [OF frd_decode_nonempty [OF assms]]
     max_data.dec_bound [OF frd_decode_nonempty [OF assms]] max_stream_data.dec_bound [OF frd_decode_nonempty [OF assms]]
     max_streams.dec_bound [OF frd_decode_nonempty [OF assms]] data_blocked.dec_bound [OF frd_decode_nonempty [OF assms]]
     stream_data_blocked.dec_bound [OF frd_decode_nonempty [OF assms]] streams_blocked.dec_bound [OF frd_decode_nonempty [OF assms]]
     connection_close.dec_bound [OF frd_decode_nonempty [OF assms]] datagram.dec_bound [OF frd_decode_nonempty [OF assms]]
  show ?thesis
    using frd_decode_member [OF assms]
    by (cases fr) (auto simp: member_decode_def dest: bound)
qed

lemma frd_decode_valid:
  assumes "length payload < 2 ^ 62" and "dwnx_frd_decode payload = Ok (fr, n)"
  shows "frame_valid fr"
proof -
  note valid = qx_transport_parameters.dec_valid [OF frd_decode_nonempty [OF assms(2)] assms(1)] qx_ping.dec_valid [OF frd_decode_nonempty [OF assms(2)] assms(1)]
     padding.dec_valid [OF frd_decode_nonempty [OF assms(2)] assms(1)] stream.dec_valid [OF frd_decode_nonempty [OF assms(2)] assms(1)]
     reset_stream.dec_valid [OF frd_decode_nonempty [OF assms(2)] assms(1)] stop_sending.dec_valid [OF frd_decode_nonempty [OF assms(2)] assms(1)]
     max_data.dec_valid [OF frd_decode_nonempty [OF assms(2)] assms(1)] max_stream_data.dec_valid [OF frd_decode_nonempty [OF assms(2)] assms(1)]
     max_streams.dec_valid [OF frd_decode_nonempty [OF assms(2)] assms(1)] data_blocked.dec_valid [OF frd_decode_nonempty [OF assms(2)] assms(1)]
     stream_data_blocked.dec_valid [OF frd_decode_nonempty [OF assms(2)] assms(1)] streams_blocked.dec_valid [OF frd_decode_nonempty [OF assms(2)] assms(1)]
     connection_close.dec_valid [OF frd_decode_nonempty [OF assms(2)] assms(1)] datagram.dec_valid [OF frd_decode_nonempty [OF assms(2)] assms(1)]
      show ?thesis
    using frd_decode_member [OF assms(2)]
    by (cases fr) (auto simp: member_decode_def frame_valid_def dest: valid)
qed

interpretation frames: frame_codec dwnx_frame_encode dwnx_frd_decode
  frame_valid frame_wire frame_norm frame_follows
proof (unfold_locales, goal_cases)
  case 1 then show ?case by (rule frame_encode_wire)
next
  case 2 then show ?case by (rule frd_decode_wire)
next
  case 3 then show ?case by (simp add: frd_decode_total)
next
  case 4 then show ?case by (intro frd_decode_bound)
next
  case 5 then show ?case by (intro frd_decode_valid)
qed

section \<open>Properties\<close>



text \<open>C21: The frame decoder is memory safe and assertion free on every payload, and a frame it
  returns lies inside the payload.\<close>

theorem frame_decode_safe:
  "dwnx_frd_decode payload \<noteq> Abort \<and>
   (dwnx_frd_decode payload = Ok (fr, n) \<longrightarrow> 0 < n \<and> n \<le> length payload)"
  using frd_decode_total frd_decode_bound by blast

theorem frame_decode_safe_witness:
  "(0::nat) < 3 \<and> 3 \<le> length [0x00, 0x00, 0x00 :: u8]"
proof -
  have "dwnx_frd_decode [0x00, 0x00, 0x00] = Ok (Fr_padding \<lparr>padding_type = DWNX_FRAME_PADDING, padding_len = 3\<rparr>, 3)"
    by (simp add: dwnx_frd_decode_def dwnx_frame_decode_padding_def as_frame_def)
  then show ?thesis
    using frame_decode_safe [of "[0x00, 0x00, 0x00]" "Fr_padding \<lparr>padding_type = DWNX_FRAME_PADDING, padding_len = 3\<rparr>" 3]
    by simp
qed

text \<open>C36: A frame that was decoded can be encoded again, without a failed assertion, into any buffer
  that is long enough.\<close>

theorem frame_reencode:
  assumes "payload \<noteq> []" and "length payload < 2 ^ 62" and "dwnx_frd_decode payload = Ok (fr, n)"
    and "length (frame_wire fr) \<le> outlen"
  shows "dwnx_frame_encode outlen fr = Ok (frame_wire fr)"
  by (rule frames.reencode [OF assms])

theorem frame_reencode_witness:
  "dwnx_frame_encode 3 (Fr_padding \<lparr>padding_type = DWNX_FRAME_PADDING, padding_len = 3\<rparr>)
     = Ok (frame_wire (Fr_padding \<lparr>padding_type = DWNX_FRAME_PADDING, padding_len = 3\<rparr>))"
proof (rule frame_reencode)
  show "dwnx_frd_decode [0x00, 0x00, 0x00]
      = Ok (Fr_padding \<lparr>padding_type = DWNX_FRAME_PADDING, padding_len = 3\<rparr>, 3)"
    by (simp add: dwnx_frd_decode_def dwnx_frame_decode_padding_def as_frame_def)
qed (simp_all add: frame_wire_def padding_wire_def)

end
