(* ===== verification/Buf.thy ===== *)
theory Buf
  imports Frame
begin

text \<open>
  \<open>lib/dwnx_buf.c\<close>, \<open>lib/dwnx_buf.h\<close> and the buffer versions of the frame codec in
  \<open>lib/dwnx_frame.c\<close>. A buffer is its capacity \<open>end - begin\<close>, the bytes from \<open>begin\<close> to
  \<open>last\<close>, and the offset \<open>pos - begin\<close>.
\<close>

record dwnx_buf =
  buf_cap :: nat
  buf_data :: bytes
  buf_pos :: nat

definition dwnx_buf_init :: "nat \<Rightarrow> dwnx_buf" where
  "dwnx_buf_init len = \<lparr>buf_cap = len, buf_data = [], buf_pos = 0\<rparr>"

definition dwnx_buf_reset :: "dwnx_buf \<Rightarrow> dwnx_buf" where
  "dwnx_buf_reset buf = buf\<lparr>buf_data := [], buf_pos := 0\<rparr>"

definition dwnx_buf_left :: "dwnx_buf \<Rightarrow> nat" where
  "dwnx_buf_left buf = buf_cap buf - length (buf_data buf)"

definition dwnx_buf_len :: "dwnx_buf \<Rightarrow> nat" where
  "dwnx_buf_len buf = length (buf_data buf) - buf_pos buf"

definition dwnx_buf_cap :: "dwnx_buf \<Rightarrow> nat" where
  "dwnx_buf_cap buf = buf_cap buf"

definition dwnx_buf_trunc :: "dwnx_buf \<Rightarrow> nat \<Rightarrow> dwnx_buf" where
  "dwnx_buf_trunc buf len =
     (if dwnx_buf_len buf > len then buf\<lparr>buf_data := take (buf_pos buf + len) (buf_data buf)\<rparr> else buf)"

text \<open>\<open>buf->last = dwnx_cpymem(buf->last, data, n)\<close>.\<close>

definition buf_append :: "dwnx_buf \<Rightarrow> bytes \<Rightarrow> dwnx_buf" where
  "buf_append buf bs = buf\<lparr>buf_data := buf_data buf @ bs\<rparr>"

definition buf_inv :: "dwnx_buf \<Rightarrow> bool" where
  "buf_inv buf \<longleftrightarrow> buf_pos buf \<le> length (buf_data buf) \<and> length (buf_data buf) \<le> buf_cap buf"

lemma buf_init_inv [simp]: "buf_inv (dwnx_buf_init len)"
  by (simp add: buf_inv_def dwnx_buf_init_def)

lemma buf_append_inv:
  "buf_inv buf \<Longrightarrow> length bs \<le> dwnx_buf_left buf \<Longrightarrow> buf_inv (buf_append buf bs)"
  by (auto simp: buf_inv_def buf_append_def dwnx_buf_left_def)

lemma buf_trunc_inv: "buf_inv buf \<Longrightarrow> buf_inv (dwnx_buf_trunc buf len)"
  by (auto simp: buf_inv_def dwnx_buf_trunc_def dwnx_buf_len_def)

definition dwnx_frame_encode_buf :: "dwnx_buf \<Rightarrow> dwnx_frame \<Rightarrow> dwnx_buf res" where
  "dwnx_frame_encode_buf buf fr =
     bindr (dwnx_frame_encode (dwnx_buf_left buf) fr) (\<lambda>bs. Ok (buf_append buf bs))"

definition dwnx_frd_decode_buf :: "dwnx_buf \<Rightarrow> (dwnx_frame \<times> dwnx_buf) res" where
  "dwnx_frd_decode_buf payload =
     bindr (dwnx_frd_decode (drop (buf_pos payload) (buf_data payload))) (\<lambda>(fr, nread).
     Ok (fr, payload\<lparr>buf_pos := buf_pos payload + nread\<rparr>))"

end
