(* ===== verification/Qre.thy ===== *)
theory Qre
  imports Buf FrameDispatch
begin

text \<open>
  \<open>lib/dwnx_qre.c\<close>: the record encoder. It leaves two bytes for the record length, appends
  frames and writes the length when the record is final. The lemmas show that the length always
  fits its two bytes, that the record reads back as its length followed by the encoded frames,
  and that a STREAM frame with as much data as \<open>dwnx_qre_stream_max_datalen\<close> allows fits.
\<close>

definition DWNX_QRE_RECORDLEN_SIZE :: nat where
  "DWNX_QRE_RECORDLEN_SIZE = 2"

record dwnx_qre =
  qre_buf :: dwnx_buf
  qre_started :: bool

definition dwnx_qre_init :: dwnx_qre where
  "dwnx_qre_init = \<lparr>qre_buf = dwnx_buf_init 0, qre_started = False\<rparr>"

text \<open>The two bytes that are skipped are written by \<open>dwnx_qre_final\<close> before anyone reads them.\<close>

definition dwnx_qre_start :: "dwnx_qre \<Rightarrow> nat \<Rightarrow> dwnx_qre res" where
  "dwnx_qre_start qre buflen =
     assertr (buflen \<ge> DWNX_QRE_RECORDLEN_SIZE)
       (let buflen = min buflen (DWNX_QRE_RECORDLEN_SIZE + DWNX_DEFAULT_MAX_RECORD_SIZE)
        in Ok \<lparr>qre_buf = buf_append (dwnx_buf_init buflen) (replicate DWNX_QRE_RECORDLEN_SIZE 0),
               qre_started = True\<rparr>)"

definition dwnx_qre_has_started :: "dwnx_qre \<Rightarrow> bool" where
  "dwnx_qre_has_started qre = qre_started qre"

text \<open>\<open>None\<close> is the result -1.\<close>

definition dwnx_qre_stream_max_datalen :: "dwnx_qre \<Rightarrow> i64 \<Rightarrow> u64 \<Rightarrow> u64 \<Rightarrow> nat option res" where
  "dwnx_qre_stream_max_datalen qre stream_id offset len =
     (let left = dwnx_buf_left (qre_buf qre)
      in bindr (dwnx_put_uvarintlen (u64_of_i64 stream_id)) (\<lambda>n1.
         bindr (if offset \<noteq> 0 then dwnx_put_uvarintlen offset else Ok 0) (\<lambda>n2.
         let n = 1 + n1 + n2
         in assertr (left \<le> DWNX_DEFAULT_MAX_RECORD_SIZE)
              (if left \<le> n then Ok None
               else let left = left - n in
                 if left > 2 + 63 \<and> len > 63
                 then Ok (Some (min (min (unat len) 16383) (left - 2)))
                 else Ok (Some (min (min (unat len) 63) (left - 1)))))))"

definition dwnx_qre_encode_frame :: "dwnx_qre \<Rightarrow> dwnx_frame \<Rightarrow> dwnx_qre res" where
  "dwnx_qre_encode_frame qre fr =
     bindr (dwnx_frame_encode_buf (qre_buf qre) fr) (\<lambda>buf. Ok (qre\<lparr>qre_buf := buf\<rparr>))"

text \<open>The result is the number of bytes of the record.\<close>

definition dwnx_qre_final :: "dwnx_qre \<Rightarrow> (nat \<times> dwnx_qre) res" where
  "dwnx_qre_final qre =
     (let qre = qre\<lparr>qre_started := False\<rparr>;
          len = dwnx_buf_len (qre_buf qre)
      in if len = DWNX_QRE_RECORDLEN_SIZE then Ok (0, qre)
         else bindr (dwnx_put_uvarintw (of_nat (len - DWNX_QRE_RECORDLEN_SIZE)) DWNX_QRE_RECORDLEN_SIZE) (\<lambda>hd.
              Ok (len, qre\<lparr>qre_buf := (qre_buf qre)\<lparr>buf_data :=
                         hd @ drop DWNX_QRE_RECORDLEN_SIZE (buf_data (qre_buf qre))\<rparr>\<rparr>)))"

definition dwnx_qre_reset :: "dwnx_qre \<Rightarrow> dwnx_qre" where
  "dwnx_qre_reset qre = qre\<lparr>qre_started := False\<rparr>"

definition dwnx_qre_left :: "dwnx_qre \<Rightarrow> nat" where
  "dwnx_qre_left qre = dwnx_buf_left (qre_buf qre)"

section \<open>The invariant of a started record\<close>

definition qre_inv :: "dwnx_qre \<Rightarrow> bool" where
  "qre_inv qre \<longleftrightarrow>
     buf_inv (qre_buf qre) \<and> buf_pos (qre_buf qre) = 0 \<and>
     DWNX_QRE_RECORDLEN_SIZE \<le> length (buf_data (qre_buf qre)) \<and>
     buf_cap (qre_buf qre) \<le> DWNX_QRE_RECORDLEN_SIZE + DWNX_DEFAULT_MAX_RECORD_SIZE"

text \<open>The frames written so far.\<close>

definition qre_payload :: "dwnx_qre \<Rightarrow> bytes" where
  "qre_payload qre = drop DWNX_QRE_RECORDLEN_SIZE (buf_data (qre_buf qre))"

lemmas qre_defs = qre_inv_def buf_inv_def buf_append_def dwnx_buf_init_def dwnx_buf_left_def
  DWNX_QRE_RECORDLEN_SIZE_def DWNX_DEFAULT_MAX_RECORD_SIZE_def qre_payload_def

lemma qre_start_spec:
  assumes "2 \<le> buflen"
  shows "\<exists>q. dwnx_qre_start qre buflen = Ok q \<and> qre_inv q \<and> qre_payload q = [] \<and> qre_started q \<and>
    dwnx_qre_left q = min buflen 16384 - 2"
  using assms by (auto simp: dwnx_qre_start_def Let_def qre_defs dwnx_qre_left_def)

lemma qre_encode_frame_spec:
  assumes "qre_inv q" and "frame_valid fr"
  shows "dwnx_qre_encode_frame q fr =
    (if dwnx_qre_left q < length (frame_wire fr) then Err ERR_NOBUF
     else Ok (q\<lparr>qre_buf := buf_append (qre_buf q) (frame_wire fr)\<rparr>))"
  using assms(2) frame_encode_wire [of fr "dwnx_buf_left (qre_buf q)"]
  by (simp add: dwnx_qre_encode_frame_def dwnx_frame_encode_buf_def dwnx_qre_left_def)

lemma qre_append_inv:
  "qre_inv q \<Longrightarrow> length bs \<le> dwnx_qre_left q \<Longrightarrow> qre_inv (q\<lparr>qre_buf := buf_append (qre_buf q) bs\<rparr>)"
  by (auto simp: qre_defs dwnx_qre_left_def)

lemma qre_append_payload:
  "qre_inv q \<Longrightarrow> qre_payload (q\<lparr>qre_buf := buf_append (qre_buf q) bs\<rparr>) = qre_payload q @ bs"
  by (auto simp: qre_defs)

definition recordlen_bytes :: "u64 \<Rightarrow> bytes" where
  "recordlen_bytes n = or_first 0x40 (be_bytes (Suc 1) (ucast n :: u16))"

lemma put_uvarintw_2: "n < 16384 \<Longrightarrow> dwnx_put_uvarintw n 2 = Ok (recordlen_bytes n)"
  by (simp only: dwnx_put_uvarintw_def dwnx_put_uint16be_def recordlen_bytes_def numeral_2_eq_2
      One_nat_def) simp

text \<open>The two-byte form is read back even when one byte would do.\<close>

lemma get_uvarint_2:
  assumes "n < 16384"
  shows "dwnx_get_uvarint (recordlen_bytes n @ r) = Ok (n, r)"
proof -
  have u: "unat n < 2 ^ 14" using assms by (simp add: word_less_nat_alt)
  have u': "unat (ucast n :: u16) < 2 ^ (8 * 1 + 6)" using u by (simp add: unat_ucast_small)
  note rd = long_form_read [OF u', of "0x40"]
  have l: "length (be_bytes 1 (ucast n :: u16)) = 1" by simp
  have "(ucast (ucast n :: u16) :: u64) = n"
    using u by (intro ucast_ucast_small) simp
  with rd show ?thesis
    unfolding recordlen_bytes_def rd(2) using get_uvarint_cases(2) [OF _ l] rd
    by (simp add: mask_numerals del: be_bytes.simps)
qed

lemma qre_final_spec:
  assumes "qre_inv q"
  shows "\<exists>q'. dwnx_qre_final q = Ok (if qre_payload q = [] then 0 else 2 + length (qre_payload q), q') \<and>
    \<not> qre_started q' \<and>
    (qre_payload q \<noteq> [] \<longrightarrow>
      dwnx_get_uvarint (buf_data (qre_buf q')) = Ok (of_nat (length (qre_payload q)), qre_payload q))"
proof (cases "qre_payload q = []")
  case True
  with assms show ?thesis
    by (auto simp: dwnx_qre_final_def Let_def qre_defs dwnx_buf_len_def)
next
  case False
  have len: "length (qre_payload q) < 16384" "dwnx_buf_len (qre_buf q) = 2 + length (qre_payload q)"
    using assms by (auto simp: qre_defs dwnx_buf_len_def)
  have w: "(of_nat (length (qre_payload q)) :: u64) < 16384"
    using len(1) by (simp add: word_less_nat_alt unat_of_nat)
  from False len show ?thesis
    using put_uvarintw_2 [OF w] get_uvarint_2 [OF w, of "qre_payload q"]
    by (auto simp: dwnx_qre_final_def Let_def DWNX_QRE_RECORDLEN_SIZE_def qre_payload_def)
qed

section \<open>How much stream data fits\<close>

lemma datalen_fit:
  fixes n left u :: nat
  assumes "n = (if left > 65 \<and> c then min (min u 16383) (left - 2) else min (min u 63) (left - 1))"
  shows "n \<le> u" and "n < 16384" and "n \<le> 63 \<and> n \<le> left - 1 \<or> 65 < left \<and> n \<le> left - 2"
  using assms by (auto split: if_split_asm)

lemma stream_max_datalen_fits:
  assumes "dwnx_qre_stream_max_datalen q stream_id offset len = Ok (Some n)"
    and "stream_id_valid stream_id" and "offset \<le> DWNX_MAX_VARINT"
    and "f = \<lparr>stream_type = DWNX_FRAME_STREAM, stream_flags = fl, stream_fin = fin,
       stream_stream_id = stream_id, stream_offset = offset, stream_len = n, stream_data = vs\<rparr>"
    and "length (concat vs) = n"
  shows "length (stream_wire f) \<le> dwnx_qre_left q" and "n \<le> unat len" and "stream_valid f"
proof -
  define hdr where "hdr = 1 + uvlen (u64_of_i64 stream_id) + (if offset \<noteq> 0 then uvlen offset else 0)"
  have res: "n = (if dwnx_qre_left q - hdr > 65 \<and> len > 63
      then min (min (unat len) 16383) (dwnx_qre_left q - hdr - 2)
      else min (min (unat len) 63) (dwnx_qre_left q - hdr - 1))" and left: "hdr < dwnx_qre_left q"
    using assms(1-3) unfolding hdr_def
    by (auto simp: dwnx_qre_stream_max_datalen_def Let_def dwnx_qre_left_def assertr_def split: if_split_asm)
  have n: "n \<le> unat len" "n < 16384"
    and fit: "n \<le> 63 \<and> n \<le> dwnx_qre_left q - hdr - 1 \<or> 65 < dwnx_qre_left q - hdr \<and> n \<le> dwnx_qre_left q - hdr - 2"
    using datalen_fit [OF res] by blast+
  have u: "unat (of_nat n :: u64) = n" using n(2) by (simp add: unat_of_nat)
  have "uvlen (of_nat n) \<le> 2" and "n \<le> 63 \<Longrightarrow> uvlen (of_nat n) = 1"
    using n(2) u by (simp_all add: uvlen_def word_less_nat_alt)
  with fit left have n': "hdr + uvlen (of_nat n) + n \<le> dwnx_qre_left q"
    by auto
  show "length (stream_wire f) \<le> dwnx_qre_left q" and "n \<le> unat len" and "stream_valid f"
    using n n' assms(2-5) by (cases "offset = 0"; simp add: stream_wire_def stream_valid_def hdr_def)+
qed

section \<open>Properties\<close>

text \<open>The frames of a record, encoded one after the other.\<close>

fun qre_encode_frames :: "dwnx_qre \<Rightarrow> dwnx_frame list \<Rightarrow> dwnx_qre res" where
  "qre_encode_frames qre [] = Ok qre"
| "qre_encode_frames qre (fr # frs) = bindr (dwnx_qre_encode_frame qre fr) (\<lambda>qre. qre_encode_frames qre frs)"

lemma qre_encode_frames_spec:
  "qre_inv q \<Longrightarrow> \<forall>fr \<in> set frs. frame_valid fr \<Longrightarrow> qre_encode_frames q frs = Ok q' \<Longrightarrow>
     qre_inv q' \<and> qre_payload q' = qre_payload q @ concat (map frame_wire frs)"
proof (induction frs arbitrary: q)
  case (Cons fr frs)
  from Cons.prems obtain q1 where e: "dwnx_qre_encode_frame q fr = Ok q1" and r: "qre_encode_frames q1 frs = Ok q'"
    by (auto simp: bindr_eq_Ok)
  then have q1: "length (frame_wire fr) \<le> dwnx_qre_left q" "q1 = q\<lparr>qre_buf := buf_append (qre_buf q) (frame_wire fr)\<rparr>"
    using Cons.prems by (auto simp: qre_encode_frame_spec split: if_split_asm)
  then have "qre_inv q1" "qre_payload q1 = qre_payload q @ frame_wire fr"
    using Cons.prems qre_append_inv qre_append_payload by blast+
  then show ?case using Cons.IH [OF _ _ r] Cons.prems by simp
qed simp

text \<open>C15: A record that is started, filled with valid frames and finished reads back as a varint
  record length that is the length of the rest, followed by the encoded frames in order.\<close>

theorem record_roundtrip:
  assumes "dwnx_qre_start q0 buflen = Ok q1" and "qre_encode_frames q1 frs = Ok q2"
    and "dwnx_qre_final q2 = Ok (n, q3)" and "\<forall>fr \<in> set frs. frame_valid fr" and "n \<noteq> 0"
  shows "dwnx_get_uvarint (buf_data (qre_buf q3)) = Ok (of_nat (n - 2), concat (map frame_wire frs)) \<and>
    n = 2 + length (concat (map frame_wire frs)) \<and> n \<le> buflen \<and> n \<le> 16384"
proof -
  have b: "2 \<le> buflen"
    using assms(1) by (auto simp: dwnx_qre_start_def assertr_def DWNX_QRE_RECORDLEN_SIZE_def split: if_split_asm)
  have s: "qre_inv q1" "qre_payload q1 = []" "dwnx_qre_left q1 = min buflen 16384 - 2"
    using qre_start_spec [OF b, of q0] assms(1) by auto
  have q2: "qre_inv q2" "qre_payload q2 = concat (map frame_wire frs)"
    using qre_encode_frames_spec [OF s(1) assms(4,2)] s(2) by simp_all
  have cap: "buf_cap (qre_buf q) = buf_cap (qre_buf q')" if "qre_encode_frames q frs = Ok q'" for q q' frs
    using that
  proof (induction frs arbitrary: q)
    case (Cons fr frs)
    then obtain q1 where "dwnx_qre_encode_frame q fr = Ok q1" "qre_encode_frames q1 frs = Ok q'"
      by (auto simp: bindr_eq_Ok)
    then show ?case
      using Cons.IH [of q1]
      by (auto simp: bindr_eq_Ok dwnx_qre_encode_frame_def dwnx_frame_encode_buf_def buf_append_def)
  qed simp
  have "buf_cap (qre_buf q1) = min buflen 16384"
    using assms(1) b by (auto simp: dwnx_qre_start_def Let_def qre_defs)
  then have "length (buf_data (qre_buf q2)) \<le> min buflen 16384"
    using q2(1) cap [OF assms(2)] by (simp add: qre_inv_def buf_inv_def)
  moreover have "2 \<le> length (buf_data (qre_buf q2))"
    using q2(1) by (simp add: qre_inv_def DWNX_QRE_RECORDLEN_SIZE_def)
  moreover have "length (qre_payload q2) = length (buf_data (qre_buf q2)) - 2"
    by (simp add: qre_payload_def DWNX_QRE_RECORDLEN_SIZE_def)
  ultimately have "2 + length (qre_payload q2) \<le> min buflen 16384"
    by linarith
  then show ?thesis
    using qre_final_spec [OF q2(1)] assms(3,5) q2(2) by (simp split: if_split_asm)
qed

theorem record_roundtrip_witness:
  "\<exists>q1 q2 n q3. dwnx_qre_start dwnx_qre_init 100 = Ok q1 \<and>
     qre_encode_frames q1 [Fr_padding \<lparr>padding_type = DWNX_FRAME_PADDING, padding_len = 5\<rparr>] = Ok q2 \<and>
     dwnx_qre_final q2 = Ok (n, q3) \<and> n = 7 \<and>
     dwnx_get_uvarint (buf_data (qre_buf q3)) = Ok (5, [0, 0, 0, 0, 0])"
proof -
  let ?fr = "Fr_padding \<lparr>padding_type = DWNX_FRAME_PADDING, padding_len = 5\<rparr>"
  have v: "frame_valid ?fr" by (simp add: frame_valid_def padding_valid_def)
  have w: "frame_wire ?fr = [0, 0, 0, 0, 0]"
    by (simp add: frame_wire_def padding_wire_def eval_nat_numeral)
  obtain q1 where q1: "dwnx_qre_start dwnx_qre_init 100 = Ok q1" "qre_inv q1" "qre_payload q1 = []" "dwnx_qre_left q1 = 98"
    using qre_start_spec [of 100 dwnx_qre_init] by auto
  define q2 where "q2 = q1\<lparr>qre_buf := buf_append (qre_buf q1) (frame_wire ?fr)\<rparr>"
  have e: "qre_encode_frames q1 [?fr] = Ok q2"
    using qre_encode_frame_spec [OF q1(2) v] q1(4) by (simp add: q2_def w)
  have q2: "qre_inv q2" "qre_payload q2 = [0, 0, 0, 0, 0]"
    using qre_append_inv [OF q1(2), of "frame_wire ?fr"] qre_append_payload [OF q1(2), of "frame_wire ?fr"] q1(3,4)
    by (simp_all add: q2_def w)
  then obtain q3 where f: "dwnx_qre_final q2 = Ok (7, q3)"
    using qre_final_spec [OF q2(1)] by auto
  from record_roundtrip [OF q1(1) e f] v show ?thesis using q1(1) e f by (auto simp: w)
qed

text \<open>C34: When \<open>dwnx_qre_stream_max_datalen\<close> returns \<open>n\<close>, a STREAM frame with \<open>n\<close> bytes of the data is
  encoded without an error; in particular the room it leaves for the length field is enough.\<close>

theorem stream_max_datalen_exact:
  assumes "dwnx_qre_stream_max_datalen q stream_id offset len = Ok (Some n)" and "qre_inv q"
    and "stream_id_valid stream_id" and "offset \<le> DWNX_MAX_VARINT" and "length (concat vs) = n"
  shows "n \<le> unat len \<and>
    dwnx_qre_encode_frame q (Fr_stream \<lparr>stream_type = DWNX_FRAME_STREAM, stream_flags = fl, stream_fin = fin,
       stream_stream_id = stream_id, stream_offset = offset, stream_len = n, stream_data = vs\<rparr>) \<noteq> Err ERR_NOBUF \<and>
    dwnx_qre_encode_frame q (Fr_stream \<lparr>stream_type = DWNX_FRAME_STREAM, stream_flags = fl, stream_fin = fin,
       stream_stream_id = stream_id, stream_offset = offset, stream_len = n, stream_data = vs\<rparr>) \<noteq> Abort"
  using stream_max_datalen_fits(1) [OF assms(1,3,4) refl assms(5), of fl fin]
    stream_max_datalen_fits(2) [OF assms(1,3,4) refl assms(5)]
    stream_max_datalen_fits(3) [OF assms(1,3,4) refl assms(5), of fl fin]
    qre_encode_frame_spec [OF assms(2), of "Fr_stream \<lparr>stream_type = DWNX_FRAME_STREAM,
      stream_flags = fl, stream_fin = fin, stream_stream_id = stream_id, stream_offset = offset,
      stream_len = n, stream_data = vs\<rparr>"]
  by (simp add: frame_valid_def frame_wire_def)

theorem stream_max_datalen_exact_witness:
  "\<exists>q. dwnx_qre_start dwnx_qre_init 12 = Ok q \<and>
     dwnx_qre_encode_frame q (Fr_stream \<lparr>stream_type = DWNX_FRAME_STREAM, stream_flags = 0, stream_fin = True,
       stream_stream_id = 4, stream_offset = 0, stream_len = 7, stream_data = [replicate 7 1]\<rparr>) \<noteq> Err ERR_NOBUF"
proof -
  obtain q where q: "dwnx_qre_start dwnx_qre_init 12 = Ok q" "qre_inv q" "dwnx_qre_left q = 10"
    using qre_start_spec [of 12 dwnx_qre_init] by auto
  have sid: "u64_of_i64 4 = 4" by (simp add: u64_of_i64_def)
  have m: "dwnx_qre_stream_max_datalen q 4 0 50 = Ok (Some 7)"
    using q(3) by (simp add: dwnx_qre_stream_max_datalen_def dwnx_qre_left_def sid
        dwnx_put_uvarintlen_def DWNX_DEFAULT_MAX_RECORD_SIZE_def)
  have "stream_id_valid 4" "(0 :: u64) \<le> DWNX_MAX_VARINT"
    by (simp_all add: stream_id_valid_def DWNX_MAX_VARINT_def)
  from stream_max_datalen_exact [OF m q(2) this, where vs = "[replicate 7 1]" and fl = 0 and fin = True] q(1) show ?thesis by simp
qed

end
