(* ===== verification/RecordReader.thy ===== *)
theory RecordReader
  imports Buf
begin

text \<open>
  \<open>lib/dwnx_record_reader.c\<close>: the reader of a varint that may arrive in several pieces, and the
  state of the reader of a record.

  The varint reader copies the bytes into the object representation of \<open>acc\<close> and converts it with
  \<open>dwnx_ntohl64\<close> at the end. The model is that of a little-endian host: the bytes of \<open>acc\<close> in
  memory, from the lowest address, are \<open>mem_bytes acc\<close>, and \<open>dwnx_ntohl64\<close> is their big-endian
  value. The lemmas show that the value read does not depend on how the bytes are cut.
\<close>

unbundle bit_operations_syntax

section \<open>The bytes of a 64-bit object\<close>

definition mem_bytes :: "u64 \<Rightarrow> bytes" where
  "mem_bytes w = rev (be_bytes 8 w)"

definition of_mem_bytes :: "bytes \<Rightarrow> u64" where
  "of_mem_bytes bs = be_word (rev bs)"

definition dwnx_ntohl64 :: "u64 \<Rightarrow> u64" where
  "dwnx_ntohl64 w = be_word (mem_bytes w)"

text \<open>\<open>memcpy((uint8_t *)&acc + i, bs, n)\<close>.\<close>

definition mem_copy :: "u64 \<Rightarrow> nat \<Rightarrow> bytes \<Rightarrow> u64" where
  "mem_copy w i bs =
     (let m = mem_bytes w in of_mem_bytes (take i m @ bs @ drop (i + length bs) m))"

section \<open>The varint reader\<close>

record dwnx_varint_reader =
  acc :: u64
  left :: nat
  vlen :: nat

definition dwnx_varint_reader_reset :: dwnx_varint_reader where
  "dwnx_varint_reader_reset = \<lparr>acc = 0, left = 0, vlen = 0\<rparr>"

definition dwnx_varint_reader_done :: "dwnx_varint_reader \<Rightarrow> bool" where
  "dwnx_varint_reader_done vird \<longleftrightarrow> left vird = 0"

text \<open>\<open>*p &= 0x3FU\<close> for the first of the copied bytes.\<close>

fun mask_first :: "bytes \<Rightarrow> bytes" where
  "mask_first [] = []"
| "mask_first (b # bs) = (b AND 0x3F) # bs"

definition dwnx_varint_reader_read ::
    "dwnx_varint_reader \<Rightarrow> bytes \<Rightarrow> bool \<Rightarrow> (dwnx_varint_reader, nat) sres" where
  "dwnx_varint_reader_read vird data fin =
     sassert (data \<noteq> [])
       (if left vird = 0 then
          sassert (acc vird = 0 \<and> vlen vird = 0)
            (case dwnx_get_uvarintlen data of
               Ok vl \<Rightarrow>
                 (let vird = vird\<lparr>vlen := vl\<rparr>; len = min vl (length data)
                  in if vl \<le> len then
                       (case dwnx_get_uvarint data of
                          Ok (v, _) \<Rightarrow> SOk vl (vird\<lparr>acc := v\<rparr>)
                        | _ \<Rightarrow> SAbort)
                     else if fin then SErr ERR_INVALID_ARGUMENT vird
                     else SOk len (vird\<lparr>acc := mem_copy (acc vird) (8 - vl) (mask_first (take len data)),
                                        left := vl - len\<rparr>))
             | _ \<Rightarrow> SAbort)
        else
          let len = min (left vird) (length data);
              vird = vird\<lparr>acc := mem_copy (acc vird) (8 - left vird) (take len data),
                          left := left vird - len\<rparr>
          in if left vird = 0 then SOk len (vird\<lparr>acc := dwnx_ntohl64 (acc vird)\<rparr>)
             else if fin then SErr ERR_INVALID_ARGUMENT vird
             else SOk len vird)"

section \<open>The record reader\<close>

datatype dwnx_record_read_state =
    READ_STATE_RECORD_SIZE
  | READ_STATE_FRAME_TYPE
  | READ_STATE_QX_TRANSPORT_PARAMETERS_LEN
  | READ_STATE_QX_TRANSPORT_PARAMETERS_PARAMS
  | READ_STATE_QX_PING_SEQ
  | READ_STATE_STREAM_STREAM_ID
  | READ_STATE_STREAM_OFFSET
  | READ_STATE_STREAM_LENGTH
  | READ_STATE_STREAM_DATA
  | READ_STATE_RESET_STREAM_STREAM_ID
  | READ_STATE_RESET_STREAM_APP_ERROR_CODE
  | READ_STATE_RESET_STREAM_FINAL_SIZE
  | READ_STATE_STOP_SENDING_STREAM_ID
  | READ_STATE_STOP_SENDING_APP_ERROR_CODE
  | READ_STATE_MAX_DATA_MAX_DATA
  | READ_STATE_MAX_STREAM_DATA_STREAM_ID
  | READ_STATE_MAX_STREAM_DATA_MAX_STREAM_DATA
  | READ_STATE_MAX_STREAMS_MAX_STREAMS
  | READ_STATE_DATA_BLOCKED_OFFSET
  | READ_STATE_STREAM_DATA_BLOCKED_STREAM_ID
  | READ_STATE_STREAM_DATA_BLOCKED_OFFSET
  | READ_STATE_STREAMS_BLOCKED_MAX_STREAMS
  | READ_STATE_CONNECTION_CLOSE_ERROR_CODE
  | READ_STATE_CONNECTION_CLOSE_FRAME_TYPE
  | READ_STATE_CONNECTION_CLOSE_REASONLEN
  | READ_STATE_CONNECTION_CLOSE_REASON
  | READ_STATE_DATAGRAM_LEN
  | READ_STATE_DATAGRAM_DATA
  | READ_STATE_DRAINING
  | READ_STATE_CLOSING

text \<open>The union \<open>fr\<close> is the datatype of frames; the buffer is \<open>None\<close> while \<open>buf.begin\<close> is null.\<close>

record dwnx_record_reader =
  rr_state :: dwnx_record_read_state
  rr_fr :: dwnx_frame
  rr_typelen :: nat
  record_left :: nat
  field_left :: nat
  rr_buf :: "dwnx_buf option"

text \<open>The reader as \<open>calloc\<close> leaves it.\<close>

definition record_reader_zero :: dwnx_record_reader where
  "record_reader_zero =
     \<lparr>rr_state = READ_STATE_RECORD_SIZE, rr_fr = Fr_padding \<lparr>padding_type = 0, padding_len = 0\<rparr>,
      rr_typelen = 0, record_left = 0, field_left = 0, rr_buf = None\<rparr>"

definition record_reader_next_frame :: "dwnx_record_reader \<Rightarrow> dwnx_record_reader" where
  "record_reader_next_frame rcrd =
     rcrd\<lparr>rr_buf := None, rr_state := READ_STATE_FRAME_TYPE, rr_typelen := 0, field_left := 0\<rparr>"

definition dwnx_record_reader_reset :: "dwnx_record_reader \<Rightarrow> dwnx_record_reader" where
  "dwnx_record_reader_reset rcrd =
     (let rcrd = record_reader_next_frame rcrd
      in if record_left rcrd \<noteq> 0 then rcrd else rcrd\<lparr>rr_state := READ_STATE_RECORD_SIZE\<rparr>)"

definition dwnx_record_reader_avail :: "dwnx_record_reader \<Rightarrow> nat \<Rightarrow> nat" where
  "dwnx_record_reader_avail rcrd len = min len (record_left rcrd)"

definition dwnx_record_reader_field_avail :: "dwnx_record_reader \<Rightarrow> nat \<Rightarrow> nat" where
  "dwnx_record_reader_field_avail rcrd len = min (field_left rcrd) (dwnx_record_reader_avail rcrd len)"

definition dwnx_record_reader_buf_avail :: "dwnx_record_reader \<Rightarrow> dwnx_buf \<Rightarrow> nat \<Rightarrow> nat" where
  "dwnx_record_reader_buf_avail rcrd buf len = min (dwnx_buf_left buf) (dwnx_record_reader_avail rcrd len)"

section \<open>A varint in pieces is read as in one\<close>

lemma be_bytes_be_word:
  "8 * length bs \<le> LENGTH('a::len) \<Longrightarrow> be_bytes (length bs) (be_word bs :: 'a word) = bs"
proof (induction bs rule: rev_induct)
  case (snoc b bs)
  have l: "8 * length bs < LENGTH('a)" using snoc.prems by simp
  have d: "drop_bit 8 (push_bit 8 (be_word bs :: 'a word) OR ucast b) = be_word bs"
    using snoc.prems by (intro bit_word_eqI) (auto simp: bit_simps bit_be_word dest: bit_imp_le_length)
  have u: "(ucast (push_bit 8 (be_word bs :: 'a word) OR ucast b) :: u8) = b"
    using snoc.prems by (intro bit_word_eqI) (auto simp: bit_simps)
  show ?case
    using snoc.IH l by (simp add: be_word_snoc d u del: drop_bit_or)
qed simp

lemma mem_bytes_of_mem [simp]: "length bs = 8 \<Longrightarrow> mem_bytes (of_mem_bytes bs) = bs"
  using be_bytes_be_word [of "rev bs", where 'a = 64]
  by (simp add: mem_bytes_def of_mem_bytes_def del: be_bytes.simps)

lemma length_mem_bytes [simp]: "length (mem_bytes w) = 8"
  by (simp add: mem_bytes_def del: be_bytes.simps)

lemma mem_bytes_0: "mem_bytes 0 = replicate 8 0"
proof -
  have "be_bytes k (0 :: u64) = replicate k 0" for k
    by (induction k) (simp_all add: replicate_append_same [symmetric])
  then show ?thesis by (simp add: mem_bytes_def del: be_bytes.simps replicate.simps)
qed

lemma mem_bytes_copy:
  "i + length bs \<le> 8 \<Longrightarrow>
     mem_bytes (mem_copy w i bs) = take i (mem_bytes w) @ bs @ drop (i + length bs) (mem_bytes w)"
  by (simp add: mem_copy_def Let_def)

lemma mask_first_append: "a \<noteq> [] \<Longrightarrow> mask_first (a @ b) = mask_first a @ b"
  by (cases a) auto

lemma length_mask_first [simp]: "length (mask_first bs) = length bs"
  by (cases bs) auto

lemma uvvalue_mask_first: "uvvalue bs = be_word (mask_first bs)"
  by (cases bs) (auto simp: uvvalue_def)

text \<open>A reader that has read \<open>pre\<close>, a proper part of a varint of \<open>vl\<close> bytes.\<close>

definition vird_partial :: "dwnx_varint_reader \<Rightarrow> bytes \<Rightarrow> nat \<Rightarrow> bool" where
  "vird_partial v pre vl \<longleftrightarrow>
     pre \<noteq> [] \<and> length pre < vl \<and> vl \<le> 8 \<and> left v = vl - length pre \<and> vlen v = vl \<and>
     mem_bytes (acc v) = replicate (8 - vl) 0 @ mask_first pre @ replicate (vl - length pre) 0"

lemma varint_reader_first:
  assumes "data \<noteq> []"
  shows "dwnx_varint_reader_read dwnx_varint_reader_reset data False =
    (if vext data < length data
     then SOk (Suc (vext data)) \<lparr>acc = uvvalue (take (Suc (vext data)) data), left = 0, vlen = Suc (vext data)\<rparr>
     else SOk (length data) \<lparr>acc = mem_copy 0 (7 - vext data) (mask_first data),
                             left = Suc (vext data) - length data, vlen = Suc (vext data)\<rparr>)"
  using assms
  by (auto simp: dwnx_varint_reader_read_def dwnx_varint_reader_reset_def get_uvarintlen_eq
      get_uvarint_eq Let_def min_def)

lemma varint_reader_first_partial:
  assumes "data \<noteq> []" and "\<not> vext data < length data"
  shows "vird_partial \<lparr>acc = mem_copy 0 (7 - vext data) (mask_first data),
     left = Suc (vext data) - length data, vlen = Suc (vext data)\<rparr> data (Suc (vext data))"
  using assms vext_le [of data]
  by (auto simp: vird_partial_def mem_bytes_copy mem_bytes_0 Suc_le_eq not_less simp del: replicate.simps)

lemma vird_partial_copy:
  assumes p: "vird_partial v pre vl" and len: "length bs \<le> vl - length pre"
  shows "mem_bytes (mem_copy (acc v) (8 - left v) bs) =
    replicate (8 - vl) 0 @ mask_first (pre @ bs) @ replicate (vl - length pre - length bs) 0"
proof -
  have i: "8 - left v = 8 - vl + length pre" and b: "8 - left v + length bs \<le> 8"
    using p len by (auto simp: vird_partial_def)
  have m: "mem_bytes (acc v) = replicate (8 - vl) 0 @ mask_first pre @ replicate (vl - length pre) 0"
    and pre: "pre \<noteq> []"
    using p by (simp_all add: vird_partial_def)
  show ?thesis
    using pre unfolding mem_bytes_copy [OF b] m unfolding i by (simp add: mask_first_append)
qed

lemma varint_reader_more:
  assumes p: "vird_partial v pre vl" and ne: "data \<noteq> []"
  shows "dwnx_varint_reader_read v data False =
    (if vl - length pre \<le> length data
     then SOk (vl - length pre) \<lparr>acc = uvvalue (pre @ take (vl - length pre) data), left = 0, vlen = vl\<rparr>
     else SOk (length data) \<lparr>acc = mem_copy (acc v) (8 - left v) data,
                             left = vl - length pre - length data, vlen = vl\<rparr>)"
proof -
  have v: "left v = vl - length pre" "left v \<noteq> 0" "vlen v = vl" "vl \<le> 8"
    using p by (simp_all add: vird_partial_def)
  show ?thesis
  proof (cases "vl - length pre \<le> length data")
    case True
    let ?bs = "take (vl - length pre) data"
    have l: "length ?bs = vl - length pre" using True by simp
    have "dwnx_ntohl64 (mem_copy (acc v) (8 - left v) ?bs) = uvvalue (pre @ ?bs)"
      using vird_partial_copy [OF p, of ?bs] l
      by (simp add: dwnx_ntohl64_def be_word_zeros uvvalue_mask_first)
    with True v show ?thesis
      by (simp add: dwnx_varint_reader_read_def ne Let_def)
  next
    case False
    with v show ?thesis by (auto simp: dwnx_varint_reader_read_def ne Let_def)
  qed
qed

lemma varint_reader_more_partial:
  assumes p: "vird_partial v pre vl" and "\<not> vl - length pre \<le> length data"
  shows "vird_partial \<lparr>acc = mem_copy (acc v) (8 - left v) data,
     left = vl - length pre - length data, vlen = vl\<rparr> (pre @ data) vl"
  using vird_partial_copy [OF p, of data] assms by (auto simp: vird_partial_def)

text \<open>Feeding non-empty pieces until the reader is done: the reader, the number of bytes taken,
  and whether the varint was complete.\<close>

fun varint_reader_feed :: "dwnx_varint_reader \<Rightarrow> bytes list \<Rightarrow> (dwnx_varint_reader, nat) sres" where
  "varint_reader_feed v [] = SOk 0 v"
| "varint_reader_feed v (c # cs) =
     sbind (dwnx_varint_reader_read v c False) (\<lambda>n v.
       if dwnx_varint_reader_done v then SOk n v
       else sbind (varint_reader_feed v cs) (\<lambda>m v. SOk (n + m) v))"

lemma varint_reader_feed_partial:
  "vird_partial v pre vl \<Longrightarrow> [] \<notin> set cs \<Longrightarrow> vl - length pre \<le> length (concat cs) \<Longrightarrow>
   varint_reader_feed v cs = SOk (vl - length pre)
     \<lparr>acc = uvvalue (pre @ take (vl - length pre) (concat cs)), left = 0, vlen = vl\<rparr>"
proof (induction cs arbitrary: v pre)
  case Nil
  then show ?case by (simp add: vird_partial_def)
next
  case (Cons c cs)
  have ne: "c \<noteq> []" using Cons.prems(2) by auto
  show ?case
  proof (cases "vl - length pre \<le> length c")
    case True
    then show ?thesis
      by (simp add: varint_reader_more [OF Cons.prems(1) ne] dwnx_varint_reader_done_def)
  next
    case False
    let ?v = "\<lparr>acc = mem_copy (acc v) (8 - left v) c, left = vl - length pre - length c, vlen = vl\<rparr>"
    have "varint_reader_feed ?v cs = SOk (vl - length (pre @ c))
        \<lparr>acc = uvvalue ((pre @ c) @ take (vl - length (pre @ c)) (concat cs)), left = 0, vlen = vl\<rparr>"
      using Cons.prems False
      by (intro Cons.IH varint_reader_more_partial [OF Cons.prems(1) False]) auto
    with False show ?thesis
      by (auto simp: varint_reader_more [OF Cons.prems(1) ne] dwnx_varint_reader_done_def)
  qed
qed

lemma varint_reader_feed_eq:
  assumes "[] \<notin> set cs" and "vext (concat cs) < length (concat cs)"
  shows "varint_reader_feed dwnx_varint_reader_reset cs = SOk (Suc (vext (concat cs)))
    \<lparr>acc = uvvalue (take (Suc (vext (concat cs))) (concat cs)), left = 0, vlen = Suc (vext (concat cs))\<rparr>"
proof (cases cs)
  case (Cons c cs')
  have ne: "c \<noteq> []" using assms(1) Cons by auto
  have v: "vext (concat cs) = vext c" using ne by (cases c) (auto simp: Cons vext_def)
  show ?thesis
  proof (cases "vext c < length c")
    case True
    then show ?thesis
      using v by (simp add: Cons varint_reader_first [OF ne] dwnx_varint_reader_done_def)
  next
    case False
    note p = varint_reader_first_partial [OF ne False]
    show ?thesis
      using varint_reader_feed_partial [OF p, of cs'] assms False v
      by (auto simp: Cons varint_reader_first [OF ne] dwnx_varint_reader_done_def)
  qed
qed (use assms in simp)

section \<open>Properties\<close>

text \<open>C16: A varint that arrives in any number of non-empty pieces is read as if it had arrived in one:
  same value, same number of bytes taken, and the reader reports it is done.\<close>

theorem varint_reader_pieces:
  assumes "[] \<notin> set cs" and "dwnx_get_uvarint (concat cs) = Ok (n, r)"
  shows "\<exists>v. varint_reader_feed dwnx_varint_reader_reset cs = SOk (length (concat cs) - length r) v \<and>
    acc v = n \<and> dwnx_varint_reader_done v"
proof -
  have "vext (concat cs) < length (concat cs)"
    by (rule get_uvarint_Ok [OF assms(2)])
  then show ?thesis
    using varint_reader_feed_eq [OF assms(1)] get_uvarint_eq [of "concat cs"] assms(2)
    by (auto simp: dwnx_varint_reader_done_def)
qed

theorem varint_reader_pieces_witness:
  "\<exists>v. varint_reader_feed dwnx_varint_reader_reset [[0x40], [0x05, 0x09]] = SOk 2 v \<and>
    acc v = 5 \<and> dwnx_varint_reader_done v"
proof -
  have "dwnx_get_uvarint (concat [[0x40], [0x05, 0x09]]) = Ok (5, [0x09])"
    by (simp add: dwnx_get_uvarint_def be_word_def)
  from varint_reader_pieces [OF _ this] show ?thesis by (simp only: concat.simps) (simp add: numeral_2_eq_2)
qed

end
