(* ===== verification/Ratelim.thy ===== *)
theory Ratelim
  imports Prelude
begin

text \<open>
  \<open>lib/dwnx_ratelim.c\<close>: the token bucket that bounds the frames a peer may make us process.
  The abstract bucket holds a number of billionths of a token without any bound on its size;
  \<open>ratelim_level\<close> maps the code's 64-bit state to it. The lemmas show that the code implements
  the abstract bucket exactly, so no overflow or truncation ever changes a decision, and that
  over any sequence of calls the tokens drained are bounded by the burst and the rate.
\<close>

type_synonym dwnx_tstamp = u64

definition DWNX_RATELIM_MAX_BURST :: u64 where
  "DWNX_RATELIM_MAX_BURST = UINT64_MAX div DWNX_SECONDS"

record dwnx_ratelim =
  burst :: u64
  rate :: u64
  tokens :: u64
  carry :: u64
  rl_ts :: dwnx_tstamp

definition dwnx_ratelim_init :: "u64 \<Rightarrow> u64 \<Rightarrow> dwnx_tstamp \<Rightarrow> dwnx_ratelim" where
  "dwnx_ratelim_init b r t =
     (let b = min b DWNX_RATELIM_MAX_BURST
      in \<lparr>burst = b, rate = r, tokens = b, carry = 0, rl_ts = t\<rparr>)"

definition ratelim_update :: "dwnx_ratelim \<Rightarrow> dwnx_tstamp \<Rightarrow> dwnx_ratelim res" where
  "ratelim_update rlim t =
     assertr (t \<ge> rl_ts rlim)
       (if t = rl_ts rlim then Ok rlim
        else
          let d = t - rl_ts rlim;
              rlim = rlim\<lparr>rl_ts := t\<rparr>;
              full = rlim\<lparr>tokens := burst rlim, carry := 0\<rparr>
          in if rate rlim \<le> (UINT64_MAX - carry rlim) div d
             then
               let gain = rate rlim * d + carry rlim;
                   gps = gain div DWNX_SECONDS
               in if gps < burst rlim \<and> tokens rlim < burst rlim - gps
                  then Ok (rlim\<lparr>tokens := tokens rlim + gps, carry := gain mod DWNX_SECONDS\<rparr>)
                  else Ok full
             else Ok full)"

text \<open>The result is \<open>True\<close> for 0 and \<open>False\<close> for -1.\<close>

definition dwnx_ratelim_drain :: "dwnx_ratelim \<Rightarrow> u64 \<Rightarrow> dwnx_tstamp \<Rightarrow> (bool \<times> dwnx_ratelim) res" where
  "dwnx_ratelim_drain rlim n t =
     bindr (ratelim_update rlim t) (\<lambda>rlim.
     if tokens rlim < n then Ok (False, rlim)
     else Ok (True, rlim\<lparr>tokens := tokens rlim - n\<rparr>))"

section \<open>The abstract token bucket\<close>

text \<open>The nanoseconds of a second, as a number the simplifier leaves alone.\<close>

definition nanos :: nat where
  "nanos = 1000000000"

lemma nanos: "unat DWNX_SECONDS = nanos" "0 < nanos"
  by (simp_all add: DWNX_SECONDS_def nanos_def)

definition ratelim_level :: "dwnx_ratelim \<Rightarrow> nat" where
  "ratelim_level r = unat (tokens r) * nanos + unat (carry r)"

definition ratelim_inv :: "dwnx_ratelim \<Rightarrow> bool" where
  "ratelim_inv r \<longleftrightarrow>
     unat (tokens r) \<le> unat (burst r) \<and> unat (burst r) * nanos < 2 ^ 64 \<and> unat (carry r) < nanos \<and>
     (unat (tokens r) = unat (burst r) \<longrightarrow> carry r = 0)"

definition ratelim_cap :: "dwnx_ratelim \<Rightarrow> nat" where
  "ratelim_cap r = unat (burst r) * nanos"

definition bucket_refill :: "nat \<Rightarrow> nat \<Rightarrow> nat \<Rightarrow> nat \<Rightarrow> nat" where
  "bucket_refill cap per_tick level ticks = min cap (level + per_tick * ticks)"

lemma ratelim_init_inv: "ratelim_inv (dwnx_ratelim_init b r t)"
proof -
  have "unat (min b DWNX_RATELIM_MAX_BURST) \<le> 18446744073"
    using word_le_nat_alt [of "min b DWNX_RATELIM_MAX_BURST" DWNX_RATELIM_MAX_BURST]
    by (simp add: DWNX_RATELIM_MAX_BURST_def UINT64_MAX_def DWNX_SECONDS_def unat_div)
  then show ?thesis
    by (simp add: ratelim_inv_def dwnx_ratelim_init_def Let_def nanos_def)
qed

lemma whole_tokens:
  assumes "a < b" and "c < nanos"
  shows "a * nanos + c < b * nanos"
proof -
  have "(a + 1) * nanos \<le> b * nanos" using assms(1) by (intro mult_le_mono1) simp
  with assms(2) show ?thesis by simp
qed

lemma ratelim_level_le:
  assumes "ratelim_inv r"
  shows "ratelim_level r \<le> ratelim_cap r"
proof (cases "unat (tokens r) = unat (burst r)")
  case True
  then show ?thesis using assms by (simp add: ratelim_level_def ratelim_inv_def ratelim_cap_def)
next
  case False
  then show ?thesis
    using assms whole_tokens [of "unat (tokens r)" "unat (burst r)" "unat (carry r)"]
    by (simp add: ratelim_level_def ratelim_inv_def ratelim_cap_def)
qed

text \<open>The guard on the product is exact: it holds when the gain fits in 64 bits.\<close>

lemma gain_fits:
  fixes d :: u64
  assumes "d \<noteq> 0"
  shows "k \<le> (UINT64_MAX - c) div d \<longleftrightarrow> unat k * unat d + unat c < 2 ^ 64"
proof -
  have d: "0 < unat d" using assms by (simp add: unat_gt_0)
  have c: "unat c < 2 ^ 64" using unsigned_less [of c] by simp
  have "unat (UINT64_MAX - c) = 2 ^ 64 - 1 - unat c"
    using c by (subst unat_sub) (simp_all add: UINT64_MAX_def word_le_nat_alt)
  then have "k \<le> (UINT64_MAX - c) div d \<longleftrightarrow> unat k \<le> (2 ^ 64 - 1 - unat c) div unat d"
    by (simp add: word_le_nat_alt unat_div)
  also have "\<dots> \<longleftrightarrow> unat k * unat d \<le> 2 ^ 64 - 1 - unat c"
    using d by (rule less_eq_div_iff_mult_less_eq)
  also have "\<dots> \<longleftrightarrow> unat k * unat d + unat c < 2 ^ 64"
    using c by auto
  finally show ?thesis .
qed

lemma gain_exact:
  fixes k d c :: u64
  assumes "unat k * unat d + unat c < 2 ^ 64"
  shows "unat (k * d + c) = unat k * unat d + unat c"
  using assms by (simp add: unat_word_ariths)

text \<open>The gain, and the update as the numbers it works on.\<close>

definition ratelim_gain :: "dwnx_ratelim \<Rightarrow> dwnx_tstamp \<Rightarrow> nat" where
  "ratelim_gain r t = unat (rate r) * unat (t - rl_ts r) + unat (carry r)"

definition ratelim_full :: "dwnx_ratelim \<Rightarrow> dwnx_tstamp \<Rightarrow> dwnx_ratelim" where
  "ratelim_full r t = r\<lparr>rl_ts := t, tokens := burst r, carry := 0\<rparr>"

definition ratelim_part :: "dwnx_ratelim \<Rightarrow> dwnx_tstamp \<Rightarrow> dwnx_ratelim" where
  "ratelim_part r t =
     (let gain = rate r * (t - rl_ts r) + carry r
      in r\<lparr>rl_ts := t, tokens := tokens r + gain div DWNX_SECONDS, carry := gain mod DWNX_SECONDS\<rparr>)"

lemma room_iff:
  fixes g b k :: u64
  shows "g < b \<and> k < b - g \<longleftrightarrow> unat k + unat g < unat b"
proof (cases "g < b")
  case True
  then have "unat (b - g) = unat b - unat g" by (intro unat_sub) simp
  with True show ?thesis by (auto simp: word_less_nat_alt)
next
  case False
  then show ?thesis by (simp add: word_less_nat_alt)
qed

lemma ratelim_update_eq:
  assumes "rl_ts r < t"
  shows "ratelim_update r t =
    Ok (if ratelim_gain r t < 2 ^ 64 \<and> unat (tokens r) + ratelim_gain r t div nanos < unat (burst r)
        then ratelim_part r t else ratelim_full r t)"
proof -
  define d where "d = t - rl_ts r"
  have d0: "d \<noteq> 0" using assms by (auto simp: d_def)
  have g: "rate r \<le> (UINT64_MAX - carry r) div d \<longleftrightarrow> ratelim_gain r t < 2 ^ 64"
    unfolding ratelim_gain_def d_def [symmetric] by (rule gain_fits [OF d0])
  show ?thesis
  proof (cases "ratelim_gain r t < 2 ^ 64")
    case True
    then have "unat ((rate r * d + carry r) div DWNX_SECONDS) = ratelim_gain r t div nanos"
      unfolding ratelim_gain_def d_def [symmetric] by (simp only: unat_div nanos gain_exact)
    then show ?thesis
      using less_imp_le [OF assms] less_imp_neq [OF assms] True g room_iff [of "(rate r * d + carry r) div DWNX_SECONDS" "burst r" "tokens r"]
      unfolding ratelim_update_def Let_def
      by (simp add: d_def ratelim_part_def ratelim_full_def Let_def del: power_numeral)
  next
    case False
    with g have "\<not> rate r \<le> (UINT64_MAX - carry r) div d" by blast
    with False less_imp_le [OF assms] less_imp_neq [OF assms] show ?thesis
      unfolding ratelim_update_def Let_def
      by (simp add: d_def ratelim_full_def del: power_numeral)
  qed
qed

lemma ratelim_part_level:
  assumes "ratelim_gain r t < 2 ^ 64" and "unat (tokens r) + ratelim_gain r t div nanos < unat (burst r)"
    and "ratelim_inv r"
  shows "ratelim_level (ratelim_part r t) = unat (tokens r) * nanos + ratelim_gain r t"
    and "ratelim_level (ratelim_part r t) < ratelim_cap r" and "ratelim_inv (ratelim_part r t)"
proof -
  define w where "w = rate r * (t - rl_ts r) + carry r"
  have w: "unat w = ratelim_gain r t"
    using assms(1) unfolding w_def ratelim_gain_def by (rule gain_exact)
  have dm: "unat (w div DWNX_SECONDS) = ratelim_gain r t div nanos"
    "unat (w mod DWNX_SECONDS) = ratelim_gain r t mod nanos"
    by (simp_all only: unat_div unat_mod nanos w)
  have "unat (tokens r) + unat (w div DWNX_SECONDS) < 2 ^ LENGTH(64)"
    using assms(2) dm unat_u64_less [of "burst r"] by simp
  then have s: "unat (tokens r + w div DWNX_SECONDS) = unat (tokens r) + ratelim_gain r t div nanos"
    using dm by (simp add: unat_add_lem [THEN iffD1])
  have p: "ratelim_part r t = r\<lparr>rl_ts := t, tokens := tokens r + w div DWNX_SECONDS, carry := w mod DWNX_SECONDS\<rparr>"
    by (simp add: ratelim_part_def w_def Let_def)
  have sel: "unat (tokens (ratelim_part r t)) = unat (tokens r) + ratelim_gain r t div nanos"
    "unat (carry (ratelim_part r t)) = ratelim_gain r t mod nanos" "burst (ratelim_part r t) = burst r"
    by (simp_all add: p s dm)
  show "ratelim_level (ratelim_part r t) = unat (tokens r) * nanos + ratelim_gain r t"
    by (simp add: ratelim_level_def sel distrib_right)
  show "ratelim_level (ratelim_part r t) < ratelim_cap r"
    using whole_tokens [OF assms(2), of "ratelim_gain r t mod nanos"] nanos
    by (simp add: ratelim_level_def ratelim_cap_def sel)
  show "ratelim_inv (ratelim_part r t)"
    using assms(2,3) nanos(2) unfolding ratelim_inv_def sel by simp
qed

lemma ratelim_full_level:
  assumes "ratelim_inv r"
    and "\<not> (ratelim_gain r t < 2 ^ 64 \<and> unat (tokens r) + ratelim_gain r t div nanos < unat (burst r))"
  shows "ratelim_cap r \<le> unat (tokens r) * nanos + ratelim_gain r t"
proof (rule ccontr)
  assume "\<not> ratelim_cap r \<le> unat (tokens r) * nanos + ratelim_gain r t"
  then have c: "unat (tokens r) * nanos + ratelim_gain r t < unat (burst r) * nanos"
    by (simp add: ratelim_cap_def)
  moreover have "ratelim_gain r t div nanos * nanos \<le> ratelim_gain r t" by simp
  ultimately have "unat (tokens r) * nanos + ratelim_gain r t div nanos * nanos < unat (burst r) * nanos"
    by linarith
  then have "(unat (tokens r) + ratelim_gain r t div nanos) * nanos < unat (burst r) * nanos"
    by (simp only: distrib_right)
  then have "unat (tokens r) + ratelim_gain r t div nanos < unat (burst r)"
    by (simp only: mult_less_cancel2)
  moreover have "ratelim_gain r t < 2 ^ 64"
    using c assms(1) unfolding ratelim_inv_def by (meson le_add2 le_less_trans less_trans)
  ultimately show False using assms(2) by blast
qed

lemma ratelim_update_spec:
  assumes inv: "ratelim_inv r" and t: "rl_ts r \<le> t"
  shows "\<exists>r'. ratelim_update r t = Ok r' \<and> ratelim_inv r' \<and>
    burst r' = burst r \<and> rate r' = rate r \<and> rl_ts r' = t \<and>
    ratelim_level r' =
      bucket_refill (ratelim_cap r) (unat (rate r)) (ratelim_level r) (unat (t - rl_ts r))"
proof (cases "t = rl_ts r")
  case True
  then show ?thesis
    using inv ratelim_level_le [OF inv] by (auto simp: ratelim_update_def bucket_refill_def)
next
  case False
  with t have lt: "rl_ts r < t" by simp
  have level: "ratelim_level r + unat (rate r) * unat (t - rl_ts r) = unat (tokens r) * nanos + ratelim_gain r t"
    by (simp add: ratelim_level_def ratelim_gain_def)
  show ?thesis
  proof (cases "ratelim_gain r t < 2 ^ 64 \<and> unat (tokens r) + ratelim_gain r t div nanos < unat (burst r)")
    case True
    have u: "ratelim_update r t = Ok (ratelim_part r t)"
      unfolding ratelim_update_eq [OF lt] if_P [OF True] ..
    note part = ratelim_part_level [OF conjunct1 [OF True] conjunct2 [OF True] inv]
    have "ratelim_level (ratelim_part r t) =
        bucket_refill (ratelim_cap r) (unat (rate r)) (ratelim_level r) (unat (t - rl_ts r))"
      unfolding bucket_refill_def level using part(1,2) by simp
    moreover have "burst (ratelim_part r t) = burst r \<and> rate (ratelim_part r t) = rate r \<and> rl_ts (ratelim_part r t) = t"
      by (simp add: ratelim_part_def Let_def)
    ultimately show ?thesis using u part(3) by blast
  next
    case False
    have u: "ratelim_update r t = Ok (ratelim_full r t)"
      unfolding ratelim_update_eq [OF lt] if_not_P [OF False] ..
    have "ratelim_level (ratelim_full r t) = ratelim_cap r"
      by (simp add: ratelim_full_def ratelim_level_def ratelim_cap_def)
    then have "ratelim_level (ratelim_full r t) =
        bucket_refill (ratelim_cap r) (unat (rate r)) (ratelim_level r) (unat (t - rl_ts r))"
      unfolding bucket_refill_def level using ratelim_full_level [OF inv False] by simp
    moreover have "ratelim_inv (ratelim_full r t)"
      using inv nanos(2) unfolding ratelim_inv_def ratelim_full_def by simp
    moreover have "burst (ratelim_full r t) = burst r \<and> rate (ratelim_full r t) = rate r \<and> rl_ts (ratelim_full r t) = t"
      by (simp add: ratelim_full_def)
    ultimately show ?thesis using u by blast
  qed
qed

text \<open>The calls of a connection, in order; each is granted or refused.\<close>

fun ratelim_run :: "dwnx_ratelim \<Rightarrow> (u64 \<times> dwnx_tstamp) list \<Rightarrow> (bool list \<times> dwnx_ratelim) res" where
  "ratelim_run r [] = Ok ([], r)"
| "ratelim_run r ((n, t) # cs) =
     bindr (dwnx_ratelim_drain r n t) (\<lambda>(ok, r).
     bindr (ratelim_run r cs) (\<lambda>(oks, r). Ok (ok # oks, r)))"

fun granted :: "bool list \<Rightarrow> (u64 \<times> dwnx_tstamp) list \<Rightarrow> nat" where
  "granted (ok # oks) ((n, t) # cs) = (if ok then unat n else 0) + granted oks cs"
| "granted _ _ = 0"

lemma ratelim_drain_spec:
  assumes inv: "ratelim_inv r" and t: "rl_ts r \<le> t"
  shows "\<exists>ok r'. dwnx_ratelim_drain r n t = Ok (ok, r') \<and> ratelim_inv r' \<and>
    burst r' = burst r \<and> rate r' = rate r \<and> rl_ts r' = t \<and>
    ratelim_level r' + (if ok then unat n * nanos else 0) =
      bucket_refill (ratelim_cap r) (unat (rate r)) (ratelim_level r) (unat (t - rl_ts r)) \<and>
    (ok \<longleftrightarrow> unat n * nanos \<le>
      bucket_refill (ratelim_cap r) (unat (rate r)) (ratelim_level r) (unat (t - rl_ts r)))"
proof -
  obtain r1 where u: "ratelim_update r t = Ok r1" and i1: "ratelim_inv r1"
    and eqs: "burst r1 = burst r" "rate r1 = rate r" "rl_ts r1 = t"
    and l: "ratelim_level r1 =
      bucket_refill (ratelim_cap r) (unat (rate r)) (ratelim_level r) (unat (t - rl_ts r))"
    using ratelim_update_spec [OF inv t] by blast
  have c: "unat (carry r1) < nanos" using i1 by (simp add: ratelim_inv_def)
  show ?thesis
  proof (cases "tokens r1 < n")
    case True
    then have "ratelim_level r1 < unat n * nanos"
      unfolding ratelim_level_def using c by (intro whole_tokens) (auto simp: word_less_nat_alt)
    with True u i1 eqs l show ?thesis
      by (intro exI [of _ False] exI [of _ r1]) (simp add: dwnx_ratelim_drain_def)
  next
    case False
    then have "n \<le> tokens r1" by simp
    then have s: "unat (tokens r1 - n) = unat (tokens r1) - unat n" and le: "unat n \<le> unat (tokens r1)"
      by (simp_all add: unat_sub word_le_nat_alt)
    let ?r2 = "r1\<lparr>tokens := tokens r1 - n\<rparr>"
    obtain k where k: "unat (tokens r1) = unat n + k" using le le_Suc_ex by blast
    then have "ratelim_level ?r2 + unat n * nanos = ratelim_level r1" and "unat n * nanos \<le> ratelim_level r1"
      using s by (simp_all add: ratelim_level_def distrib_right)
    moreover have "ratelim_inv ?r2"
      using i1 le by (auto simp: ratelim_inv_def s)
    ultimately show ?thesis
      using False u eqs l
      by (intro exI [of _ True] exI [of _ ?r2]) (simp add: dwnx_ratelim_drain_def)
  qed
qed

text \<open>The time of a run goes forward.\<close>

fun times_ordered :: "dwnx_tstamp \<Rightarrow> (u64 \<times> dwnx_tstamp) list \<Rightarrow> bool" where
  "times_ordered t0 [] \<longleftrightarrow> True"
| "times_ordered t0 ((n, t) # cs) \<longleftrightarrow> t0 \<le> t \<and> times_ordered t cs"

fun last_time :: "dwnx_tstamp \<Rightarrow> (u64 \<times> dwnx_tstamp) list \<Rightarrow> dwnx_tstamp" where
  "last_time t0 [] = t0"
| "last_time t0 ((n, t) # cs) = last_time t cs"

lemma last_time_ge: "times_ordered t0 cs \<Longrightarrow> t0 \<le> last_time t0 cs"
  by (induction t0 cs rule: times_ordered.induct) auto

lemma elapsed_add:
  "(a :: u64) \<le> b \<Longrightarrow> b \<le> c \<Longrightarrow> unat (b - a) + unat (c - b) = unat (c - a)"
  by unat_arith

lemma ratelim_run_bound:
  "ratelim_inv r \<Longrightarrow> times_ordered (rl_ts r) cs \<Longrightarrow>
   \<exists>oks r'. ratelim_run r cs = Ok (oks, r') \<and> length oks = length cs \<and>
     granted oks cs * nanos \<le> ratelim_level r + unat (rate r) * unat (last_time (rl_ts r) cs - rl_ts r)"
proof (induction cs arbitrary: r)
  case Nil
  then show ?case by simp
next
  case (Cons c cs)
  obtain n t where c: "c = (n, t)" by (cases c)
  have le: "rl_ts r \<le> t" using Cons.prems(2) c by simp
  obtain ok r1 where d: "dwnx_ratelim_drain r n t = Ok (ok, r1)" and i1: "ratelim_inv r1"
    and eqs: "rate r1 = rate r" "rl_ts r1 = t"
    and lev: "ratelim_level r1 + (if ok then unat n * nanos else 0) =
      bucket_refill (ratelim_cap r) (unat (rate r)) (ratelim_level r) (unat (t - rl_ts r))"
    using ratelim_drain_spec [OF Cons.prems(1) le] by blast
  have "times_ordered (rl_ts r1) cs" using Cons.prems(2) c eqs by simp
  from Cons.IH [OF i1 this] obtain oks r' where run: "ratelim_run r1 cs = Ok (oks, r')"
    and len: "length oks = length cs"
    and b: "granted oks cs * nanos \<le> ratelim_level r1 + unat (rate r) * unat (last_time t cs - t)"
    using eqs by auto
  have "t \<le> last_time t cs" using Cons.prems(2) c last_time_ge by simp
  then have el: "unat (last_time t cs - rl_ts r) = unat (t - rl_ts r) + unat (last_time t cs - t)"
    using elapsed_add [OF le] by simp
  have "ratelim_level r1 + (if ok then unat n * nanos else 0) \<le> ratelim_level r + unat (rate r) * unat (t - rl_ts r)"
    unfolding lev bucket_refill_def by simp
  with b have "granted (ok # oks) (c # cs) * nanos \<le>
      ratelim_level r + unat (rate r) * unat (last_time t cs - rl_ts r)"
    unfolding el c distrib_left by (cases ok) (simp_all add: distrib_right)
  then show ?case
    using run d len by (auto simp: c)
qed

section \<open>Properties\<close>

text \<open>C12: The rate limiter implements the unbounded token bucket exactly: a call grants \<open>n\<close> tokens when
  the bucket, refilled for the time elapsed and capped at the burst, holds them, and neither the
  64-bit product nor the carry ever changes the answer.\<close>

theorem ratelim_refines_bucket:
  assumes "ratelim_inv r" and "rl_ts r \<le> t"
  shows "\<exists>ok r'. dwnx_ratelim_drain r n t = Ok (ok, r') \<and> ratelim_inv r' \<and> rl_ts r' = t \<and>
    (let level = bucket_refill (ratelim_cap r) (unat (rate r)) (ratelim_level r) (unat (t - rl_ts r))
     in (ok \<longleftrightarrow> unat n * nanos \<le> level) \<and>
        ratelim_level r' = (if ok then level - unat n * nanos else level))"
proof -
  obtain ok r' where d: "dwnx_ratelim_drain r n t = Ok (ok, r')" "ratelim_inv r'" "rl_ts r' = t"
    "ratelim_level r' + (if ok then unat n * nanos else 0) =
      bucket_refill (ratelim_cap r) (unat (rate r)) (ratelim_level r) (unat (t - rl_ts r))"
    "ok \<longleftrightarrow> unat n * nanos \<le>
      bucket_refill (ratelim_cap r) (unat (rate r)) (ratelim_level r) (unat (t - rl_ts r))"
    using ratelim_drain_spec [OF assms] by blast
  show ?thesis
    using d by (intro exI [of _ ok] exI [of _ r']) (auto simp: Let_def split: if_split_asm)
qed

theorem ratelim_refines_bucket_witness:
  "\<exists>ok r'. dwnx_ratelim_drain (dwnx_ratelim_init 2 1 0) 3 1000000000 = Ok (ok, r') \<and>
    ratelim_inv r' \<and> rl_ts r' = 1000000000"
proof -
  have "rl_ts (dwnx_ratelim_init 2 1 0) \<le> 1000000000"
    by (simp add: dwnx_ratelim_init_def Let_def)
  from ratelim_refines_bucket [OF ratelim_init_inv this, of 3] show ?thesis by blast
qed

text \<open>C35: Over any sequence of calls with times that do not go back, a limiter of burst \<open>b\<close> and rate
  \<open>k\<close> grants at most \<open>b\<close> tokens and \<open>k\<close> for each second that has passed, and it never aborts.\<close>

theorem ratelim_total_bound:
  assumes "times_ordered t0 cs"
  shows "\<exists>oks r'. ratelim_run (dwnx_ratelim_init b k t0) cs = Ok (oks, r') \<and> length oks = length cs \<and>
    granted oks cs * nanos \<le> unat b * nanos + unat k * unat (last_time t0 cs - t0)"
proof -
  let ?r = "dwnx_ratelim_init b k t0"
  have r: "rl_ts ?r = t0" "rate ?r = k" "carry ?r = 0" "unat (tokens ?r) \<le> unat b"
    by (simp_all add: dwnx_ratelim_init_def Let_def word_le_nat_alt [symmetric])
  have "ratelim_level ?r \<le> unat b * nanos"
    using r by (simp add: ratelim_level_def)
  then show ?thesis
    using ratelim_run_bound [OF ratelim_init_inv, of b k t0 cs] assms r
    by (auto intro: order_trans add_right_mono)
qed

theorem ratelim_total_bound_witness:
  "\<exists>oks r'. ratelim_run (dwnx_ratelim_init 2 1 0) [(1, 5), (2, 1000000005)] = Ok (oks, r') \<and>
    length oks = length [(1 :: u64, 5 :: u64), (2, 1000000005)] \<and>
    granted oks [(1, 5), (2, 1000000005)] * nanos
      \<le> unat (2 :: u64) * nanos + unat (1 :: u64) * unat (last_time 0 [(1, 5), (2, 1000000005)] - 0)"
  by (rule ratelim_total_bound) simp

end
