(* ===== verification/Strm.thy ===== *)
theory Strm
  imports Prelude
begin

text \<open>
  \<open>lib/dwnx_strm.c\<close> and \<open>lib/dwnx_strm.h\<close>: the state of one stream. The members of the nested
  structs \<open>rx\<close> and \<open>tx\<close> carry their names as prefixes; the index of the priority queue entry
  \<open>pe\<close> is an option, \<open>None\<close> for \<open>DWNX_PQ_BAD_INDEX\<close>. The application's \<open>stream_user_data\<close> is
  of any type.
\<close>

unbundle bit_operations_syntax

abbreviation DWNX_STRM_FLAG_NONE :: u32 where "DWNX_STRM_FLAG_NONE \<equiv> 0x00"
abbreviation DWNX_STRM_FLAG_SHUT_RD :: u32 where "DWNX_STRM_FLAG_SHUT_RD \<equiv> 0x01"
abbreviation DWNX_STRM_FLAG_SHUT_WR :: u32 where "DWNX_STRM_FLAG_SHUT_WR \<equiv> 0x02"
abbreviation DWNX_STRM_FLAG_SHUT_RDWR :: u32 where "DWNX_STRM_FLAG_SHUT_RDWR \<equiv> 0x03"
abbreviation DWNX_STRM_FLAG_RESET_STREAM :: u32 where "DWNX_STRM_FLAG_RESET_STREAM \<equiv> 0x04"
abbreviation DWNX_STRM_FLAG_RESET_STREAM_RECVED :: u32 where "DWNX_STRM_FLAG_RESET_STREAM_RECVED \<equiv> 0x08"
abbreviation DWNX_STRM_FLAG_STOP_SENDING :: u32 where "DWNX_STRM_FLAG_STOP_SENDING \<equiv> 0x10"
abbreviation DWNX_STRM_FLAG_SEND_STOP_SENDING :: u32 where "DWNX_STRM_FLAG_SEND_STOP_SENDING \<equiv> 0x200"
abbreviation DWNX_STRM_FLAG_SEND_RESET_STREAM :: u32 where "DWNX_STRM_FLAG_SEND_RESET_STREAM \<equiv> 0x400"
abbreviation DWNX_STRM_FLAG_STOP_SENDING_RECVED :: u32 where "DWNX_STRM_FLAG_STOP_SENDING_RECVED \<equiv> 0x800"
abbreviation DWNX_STRM_FLAG_RX_APP_ERROR_CODE_SET :: u32 where
  "DWNX_STRM_FLAG_RX_APP_ERROR_CODE_SET \<equiv> 0x4000"
abbreviation DWNX_STRM_FLAG_TX_RESET_STREAM_APP_ERROR_CODE_SET :: u32 where
  "DWNX_STRM_FLAG_TX_RESET_STREAM_APP_ERROR_CODE_SET \<equiv> 0x8000"
abbreviation DWNX_STRM_FLAG_TX_STOP_SENDING_APP_ERROR_CODE_SET :: u32 where
  "DWNX_STRM_FLAG_TX_STOP_SENDING_APP_ERROR_CODE_SET \<equiv> 0x10000"
abbreviation DWNX_STRM_FLAG_SEND_STREAM_DATA_BLOCKED :: u32 where
  "DWNX_STRM_FLAG_SEND_STREAM_DATA_BLOCKED \<equiv> 0x20000"
abbreviation DWNX_STRM_FLAG_ANY_SENT :: u32 where "DWNX_STRM_FLAG_ANY_SENT \<equiv> 0x40000"

record 'u dwnx_strm =
  stream_id :: i64
  pe_index :: "nat option"
  cycle :: u64
  rx_last_offset :: u64
  rx_max_offset :: u64
  rx_unsent_max_offset :: u64
  rx_window :: u64
  rx_app_error_code :: u64
  tx_offset :: u64
  tx_max_offset :: u64
  tx_last_blocked_offset :: u64
  tx_stop_sending_app_error_code :: u64
  tx_reset_stream_app_error_code :: u64
  stream_user_data :: 'u
  strm_flags :: u32

definition dwnx_strm_init :: "i64 \<Rightarrow> u32 \<Rightarrow> u64 \<Rightarrow> u64 \<Rightarrow> 'u \<Rightarrow> 'u dwnx_strm" where
  "dwnx_strm_init sid fl max_rx_offset max_tx_offset user_data =
     \<lparr>stream_id = sid, pe_index = None, cycle = 0,
      rx_last_offset = 0, rx_max_offset = max_rx_offset, rx_unsent_max_offset = max_rx_offset,
      rx_window = max_rx_offset, rx_app_error_code = 0,
      tx_offset = 0, tx_max_offset = max_tx_offset, tx_last_blocked_offset = UINT64_MAX,
      tx_stop_sending_app_error_code = 0, tx_reset_stream_app_error_code = 0,
      stream_user_data = user_data, strm_flags = fl\<rparr>"

text \<open>\<open>strm->flags & fl\<close> as a truth value, and \<open>|=\<close>, \<open>&= ~\<close>.\<close>

definition strm_has :: "'u dwnx_strm \<Rightarrow> u32 \<Rightarrow> bool" where
  "strm_has strm fl \<longleftrightarrow> strm_flags strm AND fl \<noteq> 0"

definition strm_set :: "u32 \<Rightarrow> 'u dwnx_strm \<Rightarrow> 'u dwnx_strm" where
  "strm_set fl strm = strm\<lparr>strm_flags := strm_flags strm OR fl\<rparr>"

definition strm_clear :: "u32 \<Rightarrow> 'u dwnx_strm \<Rightarrow> 'u dwnx_strm" where
  "strm_clear fl strm = strm\<lparr>strm_flags := strm_flags strm AND NOT fl\<rparr>"

definition dwnx_strm_shutdown :: "'u dwnx_strm \<Rightarrow> u32 \<Rightarrow> 'u dwnx_strm" where
  "dwnx_strm_shutdown strm fl = strm_set (fl AND DWNX_STRM_FLAG_SHUT_RDWR) strm"

definition dwnx_strm_is_tx_queued :: "'u dwnx_strm \<Rightarrow> bool" where
  "dwnx_strm_is_tx_queued strm \<longleftrightarrow> pe_index strm \<noteq> None"

definition dwnx_strm_should_close_stream :: "'u dwnx_strm \<Rightarrow> bool" where
  "dwnx_strm_should_close_stream strm \<longleftrightarrow>
     strm_flags strm AND DWNX_STRM_FLAG_SHUT_RDWR = DWNX_STRM_FLAG_SHUT_RDWR \<and>
     \<not> strm_has strm DWNX_STRM_FLAG_SEND_RESET_STREAM"

section \<open>Flags\<close>

text \<open>A single flag is one bit.\<close>

lemma AND_bit_nonzero: "(w :: u32) AND push_bit n 1 \<noteq> 0 \<longleftrightarrow> bit w n"
  by (metis and_exp_eq_0_iff_not_bit push_bit_eq_mult mult_1 push_bit_of_1)

lemma strm_has_set:
  "strm_has (strm_set fl s) g \<longleftrightarrow> strm_has s g \<or> fl AND g \<noteq> 0"
  by (simp add: strm_has_def strm_set_def bit.conj_disj_distrib2 or_eq_0_iff)

lemma strm_should_close_iff:
  "dwnx_strm_should_close_stream s \<longleftrightarrow>
     strm_has s DWNX_STRM_FLAG_SHUT_RD \<and> strm_has s DWNX_STRM_FLAG_SHUT_WR \<and>
     \<not> strm_has s DWNX_STRM_FLAG_SEND_RESET_STREAM"
proof -
  have "(3 :: u32) = push_bit 0 1 OR push_bit 1 1" by simp
  have "w AND 3 = 3 \<longleftrightarrow> bit w 0 \<and> bit w 1" for w :: u32
  proof
    assume "w AND 3 = 3"
    then have "bit (w AND 3) n \<longleftrightarrow> bit (3 :: u32) n" for n by simp
    from this [of 0] this [of 1] show "bit w 0 \<and> bit w 1" by (simp add: bit_simps)
  next
    assume b: "bit w 0 \<and> bit w 1"
    have m: "(3 :: u32) = mask 2" by (simp add: mask_eq_exp_minus_1)
    show "w AND 3 = 3"
      unfolding m using b by (intro bit_word_eqI) (auto simp: bit_simps less_2_cases_iff)
  qed
  then show ?thesis
    using AND_bit_nonzero [of "strm_flags s" 0] AND_bit_nonzero [of "strm_flags s" 1]
    by (simp add: dwnx_strm_should_close_stream_def strm_has_def)
qed

end
