(* ===== verification/HashMap.thy ===== *)
theory HashMap
  imports Prelude
begin

text \<open>
  \<open>lib/dwnx_map.c\<close>: the hash map from stream identifiers to streams, with Robin Hood probing and
  backward-shift deletion. The three arrays of the table are one list of slots. The loops, which
  end at an empty slot, take the table length as fuel and abort when it runs out; the lemmas show
  that this never happens, and that the table behaves as a finite map, which is the contract the
  locale \<open>key_map\<close> states.
\<close>

unbundle bit_operations_syntax

section \<open>The table\<close>

record 'd map_slot =
  slot_key :: u64
  slot_psl :: nat
  slot_data :: 'd

record 'd dwnx_map =
  slots :: "'d map_slot list"
  seed :: u64
  map_size :: nat
  hashbits :: nat

definition DWNX_INITIAL_HASHBITS :: nat where
  "DWNX_INITIAL_HASHBITS = 4"

definition DWNX_MAP_MAX_HASHBITS :: nat where
  "DWNX_MAP_MAX_HASHBITS = 63"

definition dwnx_map_init :: "u64 \<Rightarrow> 'd dwnx_map" where
  "dwnx_map_init sd = \<lparr>slots = [], seed = sd, map_size = 0, hashbits = 0\<rparr>"

definition map_tablelen :: "'d dwnx_map \<Rightarrow> nat" where
  "map_tablelen m = 2 ^ hashbits m"

definition map_index :: "'d dwnx_map \<Rightarrow> u64 \<Rightarrow> nat" where
  "map_index m key =
     (let key = key XOR seed m;
          key = key XOR drop_bit 33 key;
          key = key * 0xFF51AFD7ED558CCD;
          key = key XOR drop_bit 33 key;
          key = key * 0xC4CEB9FE1A85EC53;
          key = key XOR drop_bit 33 key
      in unat (drop_bit (64 - hashbits m) key))"

definition map_set_entry :: "'d dwnx_map \<Rightarrow> nat \<Rightarrow> u64 \<Rightarrow> nat \<Rightarrow> 'd \<Rightarrow> 'd dwnx_map" where
  "map_set_entry m idx key psl data =
     m\<lparr>slots := (slots m)[idx := \<lparr>slot_key = key, slot_psl = psl, slot_data = data\<rparr>]\<rparr>"

section \<open>Insertion\<close>

fun map_insert_loop :: "nat \<Rightarrow> 'd dwnx_map \<Rightarrow> nat \<Rightarrow> u64 \<Rightarrow> nat \<Rightarrow> 'd \<Rightarrow> 'd dwnx_map res" where
  "map_insert_loop 0 m idx key psl data = Abort"
| "map_insert_loop (Suc fuel) m idx key psl data =
     (let slot = slots m ! idx; kpsl = slot_psl slot; nxt = (idx + 1) mod map_tablelen m
      in if kpsl = 0 then
           let m = map_set_entry m idx key psl data in Ok (m\<lparr>map_size := map_size m + 1\<rparr>)
         else if psl > kpsl then
           map_insert_loop fuel (map_set_entry m idx key psl data) nxt (slot_key slot) (kpsl + 1)
             (slot_data slot)
         else if slot_key slot = key then Err ERR_INVALID_ARGUMENT
         else map_insert_loop fuel m nxt key (psl + 1) data)"

definition map_insert :: "'d dwnx_map \<Rightarrow> u64 \<Rightarrow> 'd \<Rightarrow> 'd dwnx_map res" where
  "map_insert m key data = map_insert_loop (map_tablelen m) m (map_index m key) key 1 data"

text \<open>The loop that inserts the entries of the old table into the new one; its assertion.\<close>

fun map_rehash :: "'d dwnx_map \<Rightarrow> 'd map_slot list \<Rightarrow> 'd dwnx_map res" where
  "map_rehash m [] = Ok m"
| "map_rehash m (s # ss) =
     (if slot_psl s = 0 then map_rehash m ss
      else case map_insert m (slot_key s) (slot_data s) of
             Ok m \<Rightarrow> map_rehash m ss
           | _ \<Rightarrow> Abort)"

definition map_resize :: "dwnx_mem \<Rightarrow> 'd \<Rightarrow> 'd dwnx_map \<Rightarrow> nat \<Rightarrow> (dwnx_mem \<times> 'd dwnx_map) res" where
  "map_resize mem null m new_hashbits =
     (if new_hashbits > DWNX_MAP_MAX_HASHBITS then Err ERR_NOMEM
      else let (ok, mem) = mem_alloc mem in
        if \<not> ok then Err ERR_NOMEM
        else let new_map = \<lparr>slots = replicate (2 ^ new_hashbits)
                                      \<lparr>slot_key = 0, slot_psl = 0, slot_data = null\<rparr>,
                            seed = seed m, map_size = 0, hashbits = new_hashbits\<rparr>
             in bindr (map_rehash new_map (if map_size m = 0 then [] else slots m)) (\<lambda>new_map.
                Ok (mem, m\<lparr>slots := slots new_map, hashbits := new_hashbits\<rparr>)))"

text \<open>An insertion that finds the key returns its error after the table has grown.\<close>

definition dwnx_map_insert ::
    "'d \<Rightarrow> dwnx_mem \<times> 'd dwnx_map \<Rightarrow> u64 \<Rightarrow> 'd \<Rightarrow> (dwnx_mem \<times> 'd dwnx_map, unit) sres" where
  "dwnx_map_insert null s key data =
     (let (mem, m) = s; tablelen = map_tablelen m
      in case (if map_size m + 1 \<ge> tablelen - tablelen div 8
               then map_resize mem null m
                      (if hashbits m \<noteq> 0 then hashbits m + 1 else DWNX_INITIAL_HASHBITS)
               else Ok (mem, m)) of
           Err e \<Rightarrow> SErr e (snd (mem_alloc mem), m)
         | Abort \<Rightarrow> SAbort
         | Ok (mem, m) \<Rightarrow>
             (case map_insert m key data of
                Ok m \<Rightarrow> SOk () (mem, m)
              | Err e \<Rightarrow> SErr e (mem, m)
              | Abort \<Rightarrow> SAbort))"

section \<open>Lookup and removal\<close>

fun map_find_loop :: "nat \<Rightarrow> 'd dwnx_map \<Rightarrow> nat \<Rightarrow> u64 \<Rightarrow> nat \<Rightarrow> nat option res" where
  "map_find_loop 0 m idx key psl = Abort"
| "map_find_loop (Suc fuel) m idx key psl =
     (let slot = slots m ! idx
      in if psl > slot_psl slot then Ok None
         else if slot_key slot = key then Ok (Some idx)
         else map_find_loop fuel m ((idx + 1) mod map_tablelen m) key (psl + 1))"

definition dwnx_map_find :: "'d dwnx_map \<Rightarrow> u64 \<Rightarrow> 'd option res" where
  "dwnx_map_find m key =
     (if map_size m = 0 then Ok None
      else bindr (map_find_loop (map_tablelen m) m (map_index m key) key 1) (\<lambda>r.
           Ok (case r of None \<Rightarrow> None | Some idx \<Rightarrow> Some (slot_data (slots m ! idx)))))"

text \<open>The inner loop of \<open>dwnx_map_remove\<close>, which shifts the entries after \<open>dest\<close> back.\<close>

fun map_shift_loop :: "nat \<Rightarrow> 'd dwnx_map \<Rightarrow> nat \<Rightarrow> nat \<Rightarrow> 'd dwnx_map res" where
  "map_shift_loop 0 m dest idx = Abort"
| "map_shift_loop (Suc fuel) m dest idx =
     (let slot = slots m ! idx; kpsl = slot_psl slot
      in if kpsl \<le> 1 then Ok (m\<lparr>slots := (slots m)[dest := (slots m ! dest)\<lparr>slot_psl := 0\<rparr>]\<rparr>)
         else map_shift_loop fuel (map_set_entry m dest (slot_key slot) (kpsl - 1) (slot_data slot))
                idx ((idx + 1) mod map_tablelen m))"

definition dwnx_map_remove :: "'d dwnx_map \<Rightarrow> u64 \<Rightarrow> 'd dwnx_map res" where
  "dwnx_map_remove m key =
     (if map_size m = 0 then Err ERR_INVALID_ARGUMENT
      else bindr (map_find_loop (map_tablelen m) m (map_index m key) key 1) (\<lambda>r.
        case r of
          None \<Rightarrow> Err ERR_INVALID_ARGUMENT
        | Some idx \<Rightarrow>
            bindr (map_shift_loop (map_tablelen m) m idx ((idx + 1) mod map_tablelen m)) (\<lambda>m.
            Ok (m\<lparr>map_size := map_size m - 1\<rparr>))))"

definition dwnx_map_clear :: "'d dwnx_map \<Rightarrow> 'd dwnx_map" where
  "dwnx_map_clear m =
     (if map_size m = 0 then m
      else m\<lparr>slots := map (\<lambda>s. s\<lparr>slot_psl := 0\<rparr>) (slots m), map_size := 0\<rparr>)"

definition dwnx_map_size :: "'d dwnx_map \<Rightarrow> nat" where
  "dwnx_map_size m = map_size m"

text \<open>\<open>dwnx_map_each\<close> with a callback that updates a state and may stop the walk.\<close>

fun map_each_loop :: "'d map_slot list \<Rightarrow> ('d \<Rightarrow> 's \<Rightarrow> (bool \<times> 's)) \<Rightarrow> 's \<Rightarrow> bool \<times> 's" where
  "map_each_loop [] f st = (True, st)"
| "map_each_loop (s # ss) f st =
     (if slot_psl s = 0 then map_each_loop ss f st
      else case f (slot_data s) st of
             (False, st) \<Rightarrow> (False, st)
           | (True, st) \<Rightarrow> map_each_loop ss f st)"

definition dwnx_map_each :: "'d dwnx_map \<Rightarrow> ('d \<Rightarrow> 's \<Rightarrow> (bool \<times> 's)) \<Rightarrow> 's \<Rightarrow> bool \<times> 's" where
  "dwnx_map_each m f st = (if map_size m = 0 then (True, st) else map_each_loop (slots m) f st)"

section \<open>The Robin Hood invariant\<close>

text \<open>The slot at a position on the ring.\<close>

definition ring :: "'d dwnx_map \<Rightarrow> nat \<Rightarrow> 'd map_slot" where
  "ring m i = slots m ! (i mod map_tablelen m)"

definition map_occupied :: "'d dwnx_map \<Rightarrow> nat \<Rightarrow> bool" where
  "map_occupied m i \<longleftrightarrow> i < map_tablelen m \<and> 0 < slot_psl (slots m ! i)"

definition entries_but :: "'d dwnx_map \<Rightarrow> nat set \<Rightarrow> (u64 \<times> 'd) set" where
  "entries_but m X = (\<lambda>i. (slot_key (slots m ! i), slot_data (slots m ! i))) ` {i. map_occupied m i \<and> i \<notin> X}"

definition map_entries :: "'d dwnx_map \<Rightarrow> (u64 \<times> 'd) set" where
  "map_entries m = entries_but m {}"

text \<open>
  Every entry sits at its distance from its home slot; the distance grows by at most one from a
  slot to the next; no key is stored twice. While entries are shifted back, the last one that
  has been copied is still in its old slot too; the slots \<open>X\<close> are left out of the last clause.
\<close>

definition map_table_but :: "'d dwnx_map \<Rightarrow> nat set \<Rightarrow> bool" where
  "map_table_but m X \<longleftrightarrow>
     length (slots m) = map_tablelen m \<and>
     (\<forall>i. 0 < slot_psl (ring m i) \<longrightarrow>
        (map_index m (slot_key (ring m i)) + slot_psl (ring m i) - 1) mod map_tablelen m = i mod map_tablelen m) \<and>
     (\<forall>i. slot_psl (ring m (i + 1)) \<le> slot_psl (ring m i) + 1) \<and>
     (\<forall>i j. map_occupied m i \<longrightarrow> map_occupied m j \<longrightarrow> i \<notin> X \<longrightarrow> j \<notin> X \<longrightarrow>
        slot_key (slots m ! i) = slot_key (slots m ! j) \<longrightarrow> i = j)"

definition map_table_inv :: "'d dwnx_map \<Rightarrow> bool" where
  "map_table_inv m \<longleftrightarrow> map_table_but m {}"

lemma map_tablelen_pos [simp]: "0 < map_tablelen m"
  by (simp add: map_tablelen_def)

lemma map_tablelen_frame [simp]:
  "map_tablelen (map_set_entry m idx key psl data) = map_tablelen m"
  "map_index (map_set_entry m idx key psl data) = map_index m"
  "map_tablelen (m\<lparr>map_size := n\<rparr>) = map_tablelen m" "map_index (m\<lparr>map_size := n\<rparr>) = map_index m"
  "map_tablelen (m\<lparr>slots := ss\<rparr>) = map_tablelen m" "map_index (m\<lparr>slots := ss\<rparr>) = map_index m"
  by (simp_all add: map_set_entry_def map_tablelen_def map_index_def fun_eq_iff)

lemma map_index_less: "hashbits m \<le> 64 \<Longrightarrow> map_index m key < map_tablelen m"
proof -
  assume h: "hashbits m \<le> 64"
  have "unat (drop_bit (64 - hashbits m) w) < 2 ^ hashbits m" for w :: u64
  proof -
    have "unat (drop_bit (64 - hashbits m) w) = unat w div 2 ^ (64 - hashbits m)"
      using unat_u64_less [of w] unsigned_drop_bit_eq [of "64 - hashbits m" w, where 'a = nat]
      by (simp add: drop_bit_eq_div take_bit_nat_eq_self)
    also have "\<dots> < 2 ^ hashbits m"
      using h unat_u64_less [of w]
      by (simp add: less_mult_imp_div_less flip: power_add)
    finally show ?thesis .
  qed
  then show ?thesis unfolding map_index_def map_tablelen_def Let_def by (simp only:)
qed

text \<open>On the way from its home to the slot of a stored key, no distance is too small.\<close>

lemma psl_back:
  assumes "map_table_but m X"
  shows "slot_psl (ring m (i + d)) \<le> slot_psl (ring m i) + d"
proof (induction d)
  case (Suc d)
  have "slot_psl (ring m (i + d + 1)) \<le> slot_psl (ring m (i + d)) + 1"
    using assms unfolding map_table_but_def by blast
  with Suc show ?case by simp
qed simp

lemma ring_mod [simp]: "ring m (i mod map_tablelen m) = ring m i"
  by (simp add: ring_def)

lemma occupied_ring: "map_occupied m p \<Longrightarrow> ring m p = slots m ! p"
  by (simp add: ring_def map_occupied_def)

lemma occupied_mod: "0 < slot_psl (ring m i) \<Longrightarrow> map_occupied m (i mod map_tablelen m)"
  by (simp add: ring_def map_occupied_def)

lemma probe_path:
  assumes inv: "map_table_but m X" and p: "map_occupied m p" and d: "d < slot_psl (slots m ! p)"
  shows "d + 1 \<le> slot_psl (ring m (map_index m (slot_key (slots m ! p)) + d))"
    and "d + 1 = slot_psl (slots m ! p) \<Longrightarrow>
      (map_index m (slot_key (slots m ! p)) + d) mod map_tablelen m = p"
proof -
  let ?q = "slot_psl (slots m ! p)" and ?h = "map_index m (slot_key (slots m ! p))"
  have pN: "p mod map_tablelen m = p" using p by (simp add: map_occupied_def)
  have "0 < slot_psl (ring m p)" using d occupied_ring [OF p] by simp
  then have home: "(?h + ?q - 1) mod map_tablelen m = p"
    using inv pN unfolding map_table_but_def occupied_ring [OF p, symmetric] by metis
  have "ring m (?h + d + (?q - 1 - d)) = ring m (?h + ?q - 1)" using d by simp
  also have "\<dots> = ring m ((?h + ?q - 1) mod map_tablelen m)" by simp
  also have "\<dots> = slots m ! p" unfolding home using occupied_ring [OF p] .
  finally have "?q \<le> slot_psl (ring m (?h + d)) + (?q - 1 - d)"
    using psl_back [OF inv, of "?h + d" "?q - 1 - d"] by simp
  then show "d + 1 \<le> slot_psl (ring m (?h + d))" using d by simp
  show "(?h + d) mod map_tablelen m = p" if "d + 1 = ?q"
    using home that by (metis add_diff_cancel_right' group_cancel.add1)
qed

lemma map_key_unique:
  "map_table_inv m \<Longrightarrow> map_occupied m i \<Longrightarrow> map_occupied m j \<Longrightarrow>
     slot_key (slots m ! i) = slot_key (slots m ! j) \<Longrightarrow> i = j"
  by (simp add: map_table_inv_def map_table_but_def)

lemma find_loop_present:
  assumes inv: "map_table_inv m" and p: "map_occupied m p" and key: "slot_key (slots m ! p) = key"
  shows "d < slot_psl (slots m ! p) \<Longrightarrow> slot_psl (slots m ! p) - d \<le> fuel \<Longrightarrow>
    map_find_loop fuel m ((map_index m key + d) mod map_tablelen m) key (d + 1) = Ok (Some p)"
proof (induction fuel arbitrary: d)
  case (Suc fuel)
  let ?i = "(map_index m key + d) mod map_tablelen m"
  have le: "d + 1 \<le> slot_psl (slots m ! ?i)"
    using probe_path(1) [OF inv [unfolded map_table_inv_def] p Suc.prems(1)] by (simp add: key ring_def)
  then have occ: "map_occupied m ?i" by (simp add: map_occupied_def)
  show ?case
  proof (cases "slot_key (slots m ! ?i) = key")
    case True
    then have "?i = p" using map_key_unique [OF inv occ p] key by simp
    with True le show ?thesis by (simp add: Let_def not_less)
  next
    case False
    then have "d + 1 \<noteq> slot_psl (slots m ! p)"
      using probe_path(2) [OF inv [unfolded map_table_inv_def] p Suc.prems(1)] key by auto
    with Suc.prems have "d + 1 < slot_psl (slots m ! p)" "slot_psl (slots m ! p) - (d + 1) \<le> fuel"
      by simp_all
    from Suc.IH [OF this] False le show ?thesis
      by (simp add: Let_def not_less mod_Suc_eq)
  qed
qed simp

lemma find_loop_absent:
  assumes absent: "\<And>p. map_occupied m p \<Longrightarrow> slot_key (slots m ! p) \<noteq> key"
  shows "d < fuel \<Longrightarrow> slot_psl (ring m (i + d)) = 0 \<Longrightarrow> 0 < psl \<Longrightarrow>
    map_find_loop fuel m (i mod map_tablelen m) key psl = Ok None"
proof (induction fuel arbitrary: d i psl)
  case (Suc fuel)
  show ?case
  proof (cases "slot_psl (ring m i) < psl")
    case True
    then show ?thesis by (simp add: Let_def ring_def)
  next
    case False
    then have occ: "map_occupied m (i mod map_tablelen m)"
      using Suc.prems(3) by (intro occupied_mod) simp
    have "d \<noteq> 0" using False Suc.prems by (intro notI) simp
    then have "map_find_loop fuel m ((i + 1) mod map_tablelen m) key (psl + 1) = Ok None"
      using Suc.prems by (intro Suc.IH [of "d - 1"]) auto
    with False absent [OF occ] show ?thesis
      by (simp add: Let_def ring_def mod_Suc_eq)
  qed
qed simp

text \<open>With an empty slot on the ring, every probe ends within the table length.\<close>

lemma empty_ahead:
  assumes "slot_psl (ring m e) = 0"
  shows "\<exists>d < map_tablelen m. slot_psl (ring m (i + d)) = 0"
proof -
  define N where "N = map_tablelen m"
  have N: "0 < N" by (simp add: N_def)
  let ?d = "(e + N - i mod N) mod N"
  have "(i + ?d) mod N = (i mod N + (e + N - i mod N)) mod N"
    by (simp add: mod_simps)
  also have "i mod N + (e + N - i mod N) = e + N"
    using mod_less_divisor [OF N, of i] by simp
  finally have "(i + ?d) mod N = e mod N" by simp
  then have "ring m (i + ?d) = ring m e" by (simp add: ring_def N_def)
  moreover have "?d < map_tablelen m" unfolding N_def by simp
  ultimately show ?thesis using assms by (metis (no_types))
qed

lemma psl_le_tablelen:
  assumes inv: "map_table_inv m" and e: "slot_psl (ring m e) = 0"
  shows "slot_psl (ring m p) < map_tablelen m"
proof -
  define N where "N = map_tablelen m"
  have N: "0 < N" by (simp add: N_def)
  let ?d = "(p + N - e mod N) mod N"
  have "(e + ?d) mod N = (e mod N + (p + N - e mod N)) mod N"
    by (simp add: mod_simps)
  also have "e mod N + (p + N - e mod N) = p + N"
    using mod_less_divisor [OF N, of e] by simp
  finally have "(e + ?d) mod N = p mod N" by simp
  then have "ring m (e + ?d) = ring m p" by (simp add: ring_def N_def)
  with psl_back [OF inv [unfolded map_table_inv_def], of e ?d] e have "slot_psl (ring m p) \<le> ?d" by simp
  also have "\<dots> < N" using N by simp
  finally show ?thesis by (simp add: N_def)
qed

lemma map_find_loop_spec:
  assumes inv: "map_table_inv m" and e: "slot_psl (ring m e) = 0" and h: "hashbits m \<le> 64"
  shows "map_occupied m p \<Longrightarrow> slot_key (slots m ! p) = key \<Longrightarrow>
      map_find_loop (map_tablelen m) m (map_index m key) key 1 = Ok (Some p)"
    and "(\<And>p. map_occupied m p \<Longrightarrow> slot_key (slots m ! p) \<noteq> key) \<Longrightarrow>
      map_find_loop (map_tablelen m) m (map_index m key) key 1 = Ok None"
proof -
  have i: "map_index m key mod map_tablelen m = map_index m key"
    using map_index_less [OF h] by simp
  show "map_find_loop (map_tablelen m) m (map_index m key) key 1 = Ok (Some p)"
    if "map_occupied m p" "slot_key (slots m ! p) = key"
    using find_loop_present [OF inv that, of 0 "map_tablelen m"] psl_le_tablelen [OF inv e, of p] that i
    by (simp add: occupied_ring) (simp add: map_occupied_def)
  show "map_find_loop (map_tablelen m) m (map_index m key) key 1 = Ok None"
    if "\<And>p. map_occupied m p \<Longrightarrow> slot_key (slots m ! p) \<noteq> key"
    using empty_ahead [OF e, of "map_index m key"] find_loop_absent [OF that, of _ _ "map_index m key" 1] i
    by auto
qed

section \<open>Changing one slot\<close>

lemma ring_set:
  assumes "length (slots m) = map_tablelen m" and "idx < map_tablelen m"
  shows "ring (map_set_entry m idx key psl data) j =
    (if j mod map_tablelen m = idx then \<lparr>slot_key = key, slot_psl = psl, slot_data = data\<rparr> else ring m j)"
  using assms by (simp add: ring_def map_set_entry_def map_tablelen_def nth_list_update)

lemma occupied_set:
  assumes "length (slots m) = map_tablelen m" and "idx < map_tablelen m" and "0 < psl"
  shows "map_occupied (map_set_entry m idx key psl data) j \<longleftrightarrow> j = idx \<or> map_occupied m j"
  using assms by (auto simp: map_occupied_def map_set_entry_def nth_list_update map_tablelen_def)

lemma nth_set:
  assumes "length (slots m) = map_tablelen m" and "idx < map_tablelen m"
  shows "slots (map_set_entry m idx key psl data) ! j =
    (if j = idx then \<lparr>slot_key = key, slot_psl = psl, slot_data = data\<rparr> else slots m ! j)"
  using assms by (auto simp: map_set_entry_def nth_list_update)

lemma place_inv:
  assumes inv: "map_table_but m X" and idx: "idx < map_tablelen m" and psl: "0 < psl"
    and home: "(map_index m key + psl - 1) mod map_tablelen m = idx"
    and prev: "\<And>j. (j + 1) mod map_tablelen m = idx \<Longrightarrow> psl \<le> slot_psl (ring m j) + 1"
    and nxt: "slot_psl (ring m (idx + 1)) \<le> psl + 1"
    and fresh: "\<And>p. map_occupied m p \<Longrightarrow> p \<noteq> idx \<Longrightarrow> p \<notin> Y \<Longrightarrow> slot_key (slots m ! p) \<noteq> key"
    and XY: "X \<subseteq> insert idx Y"
  shows "map_table_but (map_set_entry m idx key psl data) Y"
proof -
  let ?m = "map_set_entry m idx key psl data"
  let ?N = "map_tablelen m"
  have len: "length (slots m) = ?N" using inv by (simp add: map_table_but_def)
  note rs = ring_set [OF len idx] and os = occupied_set [OF len idx psl] and ns = nth_set [OF len idx]
  have A: "(map_index m (slot_key (ring ?m i)) + slot_psl (ring ?m i) - 1) mod ?N = i mod ?N"
    if "0 < slot_psl (ring ?m i)" for i
  proof (cases "i mod ?N = idx")
    case True
    then show ?thesis using home by (simp add: rs)
  next
    case False
    then show ?thesis using that inv unfolding rs if_not_P [OF False] map_table_but_def by blast
  qed
  have B: "slot_psl (ring ?m (i + 1)) \<le> slot_psl (ring ?m i) + 1" for i
  proof -
    have old: "slot_psl (ring m (i + 1)) \<le> slot_psl (ring m i) + 1"
      using inv by (simp add: map_table_but_def)
    have "ring m (i + 1) = ring m (idx + 1)" if "i mod ?N = idx"
      using that by (metis mod_add_left_eq ring_mod)
    then show ?thesis
      unfolding rs using old prev [of i] nxt by auto
  qed
  have C: "i = j" if "map_occupied ?m i" "map_occupied ?m j" "i \<notin> Y" "j \<notin> Y"
    "slot_key (slots ?m ! i) = slot_key (slots ?m ! j)" for i j
  proof -
    have "map_occupied m i \<Longrightarrow> map_occupied m j \<Longrightarrow> i \<notin> X \<Longrightarrow> j \<notin> X \<Longrightarrow>
        slot_key (slots m ! i) = slot_key (slots m ! j) \<Longrightarrow> i = j"
      using inv by (simp add: map_table_but_def)
    then show ?thesis
      using that fresh [of i] fresh [of j] XY unfolding os ns by (auto split: if_split_asm)
  qed
  show ?thesis
    unfolding map_table_but_def using A B C len by (auto simp: map_set_entry_def map_tablelen_def)
qed

lemma entries_set:
  assumes "length (slots m) = map_tablelen m" and "idx < map_tablelen m" and "0 < psl"
  shows "entries_but (map_set_entry m idx key psl data) Y =
    (if idx \<in> Y then entries_but m Y else insert (key, data) (entries_but m (insert idx Y)))"
  unfolding entries_but_def occupied_set [OF assms] nth_set [OF assms(1,2)]
  by (auto simp: image_iff split: if_split_asm)

lemma entries_insert_occupied:
  "map_occupied m i \<Longrightarrow> i \<notin> Y \<Longrightarrow>
     entries_but m Y = insert (slot_key (slots m ! i), slot_data (slots m ! i)) (entries_but m (insert i Y))"
  unfolding entries_but_def by auto

lemma entries_insert_empty:
  "\<not> map_occupied m i \<Longrightarrow> entries_but m (insert i Y) = entries_but m Y"
  unfolding entries_but_def by auto

section \<open>Insertion keeps the invariant and adds the entry\<close>

lemma insert_loop_spec:
  "map_table_inv m \<Longrightarrow> (\<And>p. map_occupied m p \<Longrightarrow> slot_key (slots m ! p) \<noteq> key) \<Longrightarrow> 0 < psl \<Longrightarrow>
   (map_index m key + psl - 1) mod map_tablelen m = i mod map_tablelen m \<Longrightarrow>
   (\<And>j. (j + 1) mod map_tablelen m = i mod map_tablelen m \<Longrightarrow> psl \<le> slot_psl (ring m j) + 1) \<Longrightarrow>
   d < fuel \<Longrightarrow> slot_psl (ring m (i + d)) = 0 \<Longrightarrow>
   \<exists>m'. map_insert_loop fuel m (i mod map_tablelen m) key psl data = Ok m' \<and> map_table_inv m' \<and>
     map_entries m' = insert (key, data) (map_entries m) \<and> map_size m' = map_size m + 1 \<and>
     hashbits m' = hashbits m \<and> seed m' = seed m"
proof (induction fuel arbitrary: m key psl data i d)
  case (Suc fuel)
  let ?N = "map_tablelen m" and ?i = "i mod map_tablelen m"
  let ?slot = "ring m i"
  note inv = Suc.prems(1) [unfolded map_table_inv_def]
  have len: "length (slots m) = ?N" using inv by (simp add: map_table_but_def)
  have idx: "?i < ?N" by simp
  have slot: "slots m ! ?i = ?slot" by (simp add: ring_def)
  have nextB: "slot_psl (ring m (i + 1)) \<le> slot_psl ?slot + 1"
    using inv by (simp add: map_table_but_def)
  have ring1: "ring m (?i + 1) = ring m (i + 1)" by (metis mod_add_left_eq ring_mod)
  let ?m = "map_set_entry m ?i key psl data"
  have placed: "map_table_but ?m {}" if "slot_psl ?slot \<le> psl"
  proof (rule place_inv [OF inv idx Suc.prems(3,4)])
    show "psl \<le> slot_psl (ring m j) + 1" if "(j + 1) mod ?N = ?i" for j using Suc.prems(5) that by simp
    show "slot_psl (ring m (?i + 1)) \<le> psl + 1" using nextB that ring1 by simp
    show "slot_key (slots m ! p) \<noteq> key" if "map_occupied m p" for p using Suc.prems(2) that by simp
  qed simp
  have entries: "map_entries ?m = insert (key, data) (entries_but m {?i})"
    unfolding map_entries_def entries_set [OF len idx Suc.prems(3)] by simp
  consider (empty) "slot_psl ?slot = 0" | (swap) "0 < slot_psl ?slot" "slot_psl ?slot < psl"
    | (go) "psl \<le> slot_psl ?slot" by linarith
  then show ?case
  proof cases
    case empty
    then have "\<not> map_occupied m ?i" by (simp add: map_occupied_def slot)
    then have e: "map_entries ?m = insert (key, data) (map_entries m)"
      using entries by (simp add: entries_insert_empty map_entries_def)
    let ?m' = "?m\<lparr>map_size := map_size m + 1\<rparr>"
    have "map_insert_loop (Suc fuel) m ?i key psl data = Ok ?m'"
      using empty by (simp add: Let_def slot map_set_entry_def)
    moreover have "map_table_inv ?m'"
      using placed empty by (simp add: map_table_inv_def map_table_but_def ring_def map_occupied_def)
    moreover have "map_entries ?m' = insert (key, data) (map_entries m)"
      using e by (simp add: map_entries_def entries_but_def map_occupied_def)
    ultimately show ?thesis by (auto simp: map_set_entry_def)
  next
    case swap
    have occ: "map_occupied m ?i" using swap by (simp add: map_occupied_def slot)
    let ?k = "slot_key ?slot"
    have d0: "d \<noteq> 0" using swap Suc.prems(7) by (intro notI) simp
    have inv': "map_table_inv ?m" using placed swap by (simp add: map_table_inv_def)
    have "\<exists>m'. map_insert_loop fuel ?m ((i + 1) mod map_tablelen ?m) ?k (slot_psl ?slot + 1) (slot_data ?slot) = Ok m' \<and>
      map_table_inv m' \<and> map_entries m' = insert (?k, slot_data ?slot) (map_entries ?m) \<and>
      map_size m' = map_size ?m + 1 \<and> hashbits m' = hashbits ?m \<and> seed m' = seed ?m"
    proof (rule Suc.IH [OF inv'])
      show "slot_key (slots ?m ! p) \<noteq> ?k" if "map_occupied ?m p" for p
      proof (cases "p = ?i")
        case True
        then show ?thesis using Suc.prems(2) [OF occ] by (simp add: nth_set [OF len idx] slot)
      next
        case False
        with that have "map_occupied m p" by (simp add: occupied_set [OF len idx Suc.prems(3)])
        then show ?thesis
          using map_key_unique [OF Suc.prems(1) _ occ] False by (auto simp: nth_set [OF len idx] slot)
      qed
      have "(map_index m ?k + slot_psl ?slot - 1) mod ?N = i mod ?N"
        using inv swap(1) by (simp add: map_table_but_def)
      then have "(map_index m ?k + slot_psl ?slot - 1 + 1) mod ?N = (i + 1) mod ?N"
        by (metis mod_add_left_eq)
      then show "(map_index ?m ?k + (slot_psl ?slot + 1) - 1) mod map_tablelen ?m = (i + 1) mod map_tablelen ?m"
        using swap(1) by simp
      show "slot_psl ?slot + 1 \<le> slot_psl (ring ?m j) + 1"
        if "(j + 1) mod map_tablelen ?m = (i + 1) mod map_tablelen ?m" for j
      proof -
        have "j mod ?N = ?i" using that by (simp add: mod_Suc split: if_split_asm)
        then show ?thesis using swap by (simp add: ring_set [OF len idx])
      qed
      show "d - 1 < fuel" using Suc.prems(6) d0 by simp
      have "(i + d) mod ?N \<noteq> ?i"
        using swap(1) Suc.prems(7) by (metis less_irrefl ring_mod)
      then show "slot_psl (ring ?m (i + 1 + (d - 1))) = 0"
        using Suc.prems(7) d0 by (simp add: ring_set [OF len idx])
    qed simp
    then obtain m' where m': "map_insert_loop fuel ?m ((i + 1) mod ?N) ?k (slot_psl ?slot + 1) (slot_data ?slot) = Ok m'"
      "map_table_inv m'" "map_entries m' = insert (?k, slot_data ?slot) (map_entries ?m)"
      "map_size m' = map_size m + 1" "hashbits m' = hashbits m" "seed m' = seed m"
      by (auto simp: map_set_entry_def map_tablelen_def)
    have "map_entries m = insert (?k, slot_data ?slot) (entries_but m {?i})"
      using entries_insert_occupied [OF occ, of "{}"] by (simp add: map_entries_def slot)
    then have "map_entries m' = insert (key, data) (map_entries m)"
      using m'(3) entries by auto
    with m' swap show ?thesis by (auto simp: Let_def slot mod_Suc_eq)
  next
    case go
    then have occ: "map_occupied m ?i" using Suc.prems(3) by (simp add: map_occupied_def slot)
    have d0: "d \<noteq> 0" using go Suc.prems(3,7) by (intro notI) simp
    have "\<exists>m'. map_insert_loop fuel m ((i + 1) mod ?N) key (psl + 1) data = Ok m' \<and> map_table_inv m' \<and>
      map_entries m' = insert (key, data) (map_entries m) \<and> map_size m' = map_size m + 1 \<and>
      hashbits m' = hashbits m \<and> seed m' = seed m"
    proof (rule Suc.IH [OF Suc.prems(1,2)])
      have "(map_index m key + psl - 1 + 1) mod ?N = (i + 1) mod ?N"
        using Suc.prems(4) by (metis mod_add_left_eq)
      then show "(map_index m key + (psl + 1) - 1) mod ?N = (i + 1) mod ?N"
        using Suc.prems(3) by simp
      show "psl + 1 \<le> slot_psl (ring m j) + 1" if "(j + 1) mod ?N = (i + 1) mod ?N" for j
      proof -
        have "j mod ?N = ?i" using that by (simp add: mod_Suc split: if_split_asm)
        then show ?thesis using go by (metis add_le_cancel_right ring_mod)
      qed
      show "d - 1 < fuel" using Suc.prems(6) d0 by simp
      show "slot_psl (ring m (i + 1 + (d - 1))) = 0" using Suc.prems(7) d0 by simp
    qed auto
    moreover have "slot_key ?slot \<noteq> key" using Suc.prems(2) [OF occ] by (simp add: slot)
    ultimately show ?thesis
      using go Suc.prems(3) by (simp add: Let_def slot mod_Suc_eq not_less)
  qed
qed simp

text \<open>A stored key is found before anything is moved.\<close>

lemma insert_loop_dup:
  assumes inv: "map_table_inv m" and p: "map_occupied m p" and key: "slot_key (slots m ! p) = key"
  shows "d < slot_psl (slots m ! p) \<Longrightarrow> slot_psl (slots m ! p) - d \<le> fuel \<Longrightarrow>
    map_insert_loop fuel m ((map_index m key + d) mod map_tablelen m) key (d + 1) data = Err ERR_INVALID_ARGUMENT"
proof (induction fuel arbitrary: d)
  case (Suc fuel)
  let ?i = "(map_index m key + d) mod map_tablelen m"
  have le: "d + 1 \<le> slot_psl (slots m ! ?i)"
    using probe_path(1) [OF inv [unfolded map_table_inv_def] p Suc.prems(1)] by (simp add: key ring_def)
  show ?case
  proof (cases "slot_key (slots m ! ?i) = key")
    case True
    then show ?thesis using le by (simp add: Let_def not_less)
  next
    case False
    then have "d + 1 \<noteq> slot_psl (slots m ! p)"
      using probe_path(2) [OF inv [unfolded map_table_inv_def] p Suc.prems(1)] key by auto
    with Suc.prems have "d + 1 < slot_psl (slots m ! p)" "slot_psl (slots m ! p) - (d + 1) \<le> fuel"
      by simp_all
    from Suc.IH [OF this] False le show ?thesis
      by (simp add: Let_def not_less mod_Suc_eq)
  qed
qed simp

section \<open>Removal\<close>

lemma clear_slot_inv:
  assumes inv: "map_table_but m {dest}" and dest: "dest < map_tablelen m"
    and nxt: "slot_psl (ring m (dest + 1)) \<le> 1"
    and m': "m' = m\<lparr>slots := (slots m)[dest := (slots m ! dest)\<lparr>slot_psl := 0\<rparr>]\<rparr>"
  shows "map_table_inv m'" and "map_entries m' = entries_but m {dest}"
proof -
  have len: "length (slots m) = map_tablelen m" using inv by (simp add: map_table_but_def)
  have r: "ring m' j = (if j mod map_tablelen m = dest then (slots m ! dest)\<lparr>slot_psl := 0\<rparr> else ring m j)" for j
    using len dest by (simp add: m' ring_def nth_list_update)
  have o: "map_occupied m' j \<longleftrightarrow> j \<noteq> dest \<and> map_occupied m j" for j
    using len dest by (auto simp: m' map_occupied_def nth_list_update)
  have n: "j \<noteq> dest \<Longrightarrow> slots m' ! j = slots m ! j" for j
    by (simp add: m')
  have B: "slot_psl (ring m' (i + 1)) \<le> slot_psl (ring m' i) + 1" for i
  proof -
    have "ring m (i + 1) = ring m (dest + 1)" if "i mod map_tablelen m = dest"
      using that by (metis mod_add_left_eq ring_mod)
    moreover have "slot_psl (ring m (i + 1)) \<le> slot_psl (ring m i) + 1"
      using inv by (simp add: map_table_but_def)
    ultimately show ?thesis using nxt by (simp add: r)
  qed
  have fr: "map_tablelen m' = map_tablelen m" "map_index m' = map_index m" "length (slots m') = length (slots m)"
    by (simp_all add: m')
  have A: "(map_index m (slot_key (ring m' i)) + slot_psl (ring m' i) - 1) mod map_tablelen m = i mod map_tablelen m"
    if "0 < slot_psl (ring m' i)" for i
    using that inv by (simp add: r map_table_but_def split: if_split_asm)
  show "map_table_inv m'"
    unfolding map_table_inv_def map_table_but_def fr using A B len o n inv
    by (simp add: map_table_but_def)
  show "map_entries m' = entries_but m {dest}"
    unfolding map_entries_def entries_but_def o
    by (rule image_cong) (auto simp: n)
qed

lemma shift_loop_spec:
  "map_table_but m {dest} \<Longrightarrow> map_occupied m dest \<Longrightarrow> d < fuel \<Longrightarrow>
   slot_psl (ring m (dest + 1 + d)) = 0 \<Longrightarrow>
   \<exists>m'. map_shift_loop fuel m dest ((dest + 1) mod map_tablelen m) = Ok m' \<and> map_table_inv m' \<and>
     map_entries m' = entries_but m {dest} \<and> map_size m' = map_size m \<and>
     hashbits m' = hashbits m \<and> seed m' = seed m"
proof (induction fuel arbitrary: m dest d)
  case (Suc fuel)
  let ?N = "map_tablelen m" and ?idx = "(dest + 1) mod map_tablelen m"
  let ?slot = "ring m (dest + 1)"
  note inv = Suc.prems(1)
  have len: "length (slots m) = ?N" using inv by (simp add: map_table_but_def)
  have dest: "dest < ?N" using Suc.prems(2) by (simp add: map_occupied_def)
  have slot: "slots m ! ?idx = ?slot" by (simp add: ring_def)
  have slot': "slots m ! (Suc dest mod ?N) = ring m (Suc dest)" by (simp add: ring_def)
  have dr: "ring m dest = slots m ! dest" using Suc.prems(2) by (rule occupied_ring)
  show ?case
  proof (cases "slot_psl ?slot \<le> 1")
    case True
    then show ?thesis
      using clear_slot_inv [OF inv dest True refl] by (simp add: Let_def slot')
  next
    case False
    let ?k = "slot_psl ?slot"
    have occ: "map_occupied m ?idx" using False by (simp add: map_occupied_def slot')
    have d0: "d \<noteq> 0" using False Suc.prems(4) by (intro notI) simp
    have ne: "?idx \<noteq> dest"
    proof
      assume e: "?idx = dest"
      have "?N = 1"
      proof (cases "dest + 1 < ?N")
        case False
        with dest have "dest + 1 = ?N" by simp
        with e show ?thesis by simp
      qed (use e in simp)
      then have "ring m (dest + 1 + d) = ring m (dest + 1)" by (simp add: ring_def)
      with False Suc.prems(4) show False by simp
    qed
    have kle: "?k \<le> slot_psl (slots m ! dest) + 1"
      using inv dr unfolding map_table_but_def by metis
    let ?m = "map_set_entry m dest (slot_key ?slot) (?k - 1) (slot_data ?slot)"
    have k1: "0 < ?k - 1" using False by simp
    have inv': "map_table_but ?m {?idx}"
    proof (rule place_inv [OF inv dest k1])
      have "(map_index m (slot_key ?slot) + ?k - 1) mod ?N = (dest + 1) mod ?N"
        using inv False by (simp add: map_table_but_def)
      moreover have "Suc (map_index m (slot_key ?slot) + (?k - 1) - 1) = map_index m (slot_key ?slot) + ?k - 1"
        using False by simp
      ultimately have "Suc (map_index m (slot_key ?slot) + (?k - 1) - 1) mod ?N = Suc dest mod ?N"
        by (metis Suc_eq_plus1)
      then have "(map_index m (slot_key ?slot) + (?k - 1) - 1) mod ?N = dest mod ?N"
        by (simp add: mod_Suc split: if_split_asm)
      then show "(map_index m (slot_key ?slot) + (?k - 1) - 1) mod ?N = dest"
        using dest by simp
      show "?k - 1 \<le> slot_psl (ring m j) + 1" if "(j + 1) mod ?N = dest" for j
      proof -
        have "slot_psl (ring m (j + 1)) \<le> slot_psl (ring m j) + 1"
          using inv by (simp add: map_table_but_def)
        then have "slot_psl (ring m dest) \<le> slot_psl (ring m j) + 1" using that by (metis ring_mod)
        with kle dr show ?thesis by simp
      qed
      show "slot_psl (ring m (dest + 1)) \<le> ?k - 1 + 1" using False by simp
      show "slot_key (slots m ! p) \<noteq> slot_key ?slot" if "map_occupied m p" "p \<noteq> dest" "p \<notin> {?idx}" for p
        using that occ ne inv unfolding map_table_but_def slot [symmetric] by blast
    qed simp
    have "\<exists>m'. map_shift_loop fuel ?m ?idx ((?idx + 1) mod map_tablelen ?m) = Ok m' \<and> map_table_inv m' \<and>
      map_entries m' = entries_but ?m {?idx} \<and> map_size m' = map_size ?m \<and> hashbits m' = hashbits ?m \<and>
      seed m' = seed ?m"
    proof (rule Suc.IH [OF inv'])
      show "map_occupied ?m ?idx" unfolding occupied_set [OF len dest k1] using occ by blast
      show "d - 1 < fuel" using Suc.prems(3) d0 by simp
      have m: "(?idx + 1 + (d - 1)) mod ?N = (dest + 1 + d) mod ?N"
        using d0 by (simp add: mod_simps)
      have "(dest + 1 + d) mod ?N \<noteq> dest"
        using Suc.prems(2,4) dr by (metis less_irrefl map_occupied_def ring_mod)
      then have "ring ?m (?idx + 1 + (d - 1)) = ring m (?idx + 1 + (d - 1))"
        using m by (simp add: ring_set [OF len dest])
      also have "\<dots> = ring m (dest + 1 + d)" using m by (metis ring_mod)
      finally show "slot_psl (ring ?m (?idx + 1 + (d - 1))) = 0" using Suc.prems(4) by simp
    qed
    moreover have "entries_but ?m {?idx} = entries_but m {dest}"
      unfolding entries_set [OF len dest k1] using ne entries_insert_occupied [OF occ, of "{dest}"]
      by (simp add: slot' insert_commute)
    moreover have "map_size ?m = map_size m" "hashbits ?m = hashbits m" "seed ?m = seed m"
      by (simp_all add: map_set_entry_def)
    ultimately show ?thesis using False by (auto simp: Let_def slot')
  qed
qed simp

section \<open>The map as a whole\<close>

text \<open>The finite map a table stands for.\<close>

definition map_abs :: "'d dwnx_map \<Rightarrow> u64 \<Rightarrow> 'd option" where
  "map_abs m k =
     (case find (\<lambda>s. slot_psl s \<noteq> 0 \<and> slot_key s = k) (slots m) of
        None \<Rightarrow> None | Some s \<Rightarrow> Some (slot_data s))"

text \<open>A map is without a table, or at most seven eighths of its table are in use.\<close>

definition dwnx_map_inv :: "'d dwnx_map \<Rightarrow> bool" where
  "dwnx_map_inv m \<longleftrightarrow>
     (hashbits m = 0 \<and> slots m = [] \<and> map_size m = 0) \<or>
     (4 \<le> hashbits m \<and> hashbits m \<le> DWNX_MAP_MAX_HASHBITS \<and> map_table_inv m \<and>
      map_size m = card (map_entries m) \<and>
      map_size m < map_tablelen m - map_tablelen m div 8)"

lemma map_abs_table:
  assumes "map_table_inv m"
  shows "map_abs m k = Some d \<longleftrightarrow> (k, d) \<in> map_entries m"
proof -
  have len: "length (slots m) = map_tablelen m"
    using assms by (simp add: map_table_inv_def map_table_but_def)
  show ?thesis
  proof
    assume "map_abs m k = Some d"
    then obtain s where f: "find (\<lambda>s. slot_psl s \<noteq> 0 \<and> slot_key s = k) (slots m) = Some s" and d: "slot_data s = d"
      by (auto simp: map_abs_def split: option.splits)
    then obtain i where "i < length (slots m)" "slot_psl (slots m ! i) \<noteq> 0 \<and> slot_key (slots m ! i) = k" "s = slots m ! i"
      by (auto simp: find_Some_iff)
    with len d show "(k, d) \<in> map_entries m"
      by (force simp: map_entries_def entries_but_def map_occupied_def)
  next
    assume "(k, d) \<in> map_entries m"
    then obtain i where i: "map_occupied m i" "slot_key (slots m ! i) = k" "slot_data (slots m ! i) = d"
      by (auto simp: map_entries_def entries_but_def)
    then have "find (\<lambda>s. slot_psl s \<noteq> 0 \<and> slot_key s = k) (slots m) \<noteq> None"
      unfolding find_None_iff using len
      by (auto simp: map_occupied_def intro!: exI [of _ "slots m ! i"])
    then obtain s where s: "find (\<lambda>s. slot_psl s \<noteq> 0 \<and> slot_key s = k) (slots m) = Some s" by blast
    then obtain j where j: "j < length (slots m)" "slot_psl (slots m ! j) \<noteq> 0 \<and> slot_key (slots m ! j) = k" "s = slots m ! j"
      by (auto simp: find_Some_iff)
    then have "map_occupied m j" using len by (simp add: map_occupied_def)
    then have "j = i" using map_key_unique [OF assms _ i(1)] i(2) j(2) by simp
    with s i j show "map_abs m k = Some d" by (simp add: map_abs_def)
  qed
qed

lemma map_abs_table_None:
  "map_table_inv m \<Longrightarrow> map_abs m k = None \<longleftrightarrow> (\<forall>p. map_occupied m p \<longrightarrow> slot_key (slots m ! p) \<noteq> k)"
proof -
  assume inv: "map_table_inv m"
  have "map_abs m k = None \<longleftrightarrow> (\<forall>d. (k, d) \<notin> map_entries m)"
    using map_abs_table [OF inv, of k] by (metis not_None_eq)
  then show ?thesis by (auto simp: map_entries_def entries_but_def)
qed

lemma finite_map_entries [simp]: "finite (map_entries m)"
proof -
  have "{i. map_occupied m i \<and> i \<notin> {}} \<subseteq> {..<map_tablelen m}" by (auto simp: map_occupied_def)
  then show ?thesis unfolding map_entries_def entries_but_def by (meson finite_imageI finite_lessThan finite_subset)
qed

lemma map_has_empty_slot:
  assumes inv: "map_table_inv m" and c: "card (map_entries m) < map_tablelen m"
  shows "\<exists>e. slot_psl (ring m e) = 0"
proof (rule ccontr)
  assume "\<not> ?thesis"
  then have all: "map_occupied m i" if "i < map_tablelen m" for i
    using that by (metis map_occupied_def mod_less neq0_conv ring_def)
  then have "{i. map_occupied m i \<and> i \<notin> {}} = {..<map_tablelen m}"
    by (auto simp: map_occupied_def)
  moreover have "inj_on (\<lambda>i. (slot_key (slots m ! i), slot_data (slots m ! i))) {..<map_tablelen m}"
    by (rule inj_onI) (use map_key_unique [OF inv all all] in auto)
  ultimately have "card (map_entries m) = map_tablelen m"
    unfolding map_entries_def entries_but_def by (simp add: card_image)
  with c show False by simp
qed

lemma map_insert_fresh:
  assumes inv: "map_table_inv m" and c: "card (map_entries m) < map_tablelen m" and h: "hashbits m \<le> 64"
    and fresh: "map_abs m key = None"
  shows "\<exists>m'. map_insert m key data = Ok m' \<and> map_table_inv m' \<and>
     map_entries m' = insert (key, data) (map_entries m) \<and> map_size m' = map_size m + 1 \<and>
     hashbits m' = hashbits m \<and> seed m' = seed m"
proof -
  obtain e where "slot_psl (ring m e) = 0" using map_has_empty_slot [OF inv c] by blast
  then obtain d where d: "d < map_tablelen m" "slot_psl (ring m (map_index m key + d)) = 0"
    using empty_ahead by blast
  have i: "map_index m key mod map_tablelen m = map_index m key"
    using map_index_less [OF h] by simp
  show ?thesis
    unfolding map_insert_def
    using insert_loop_spec [OF inv, of key 1 "map_index m key" d "map_tablelen m" data] d fresh i
    by (simp add: map_abs_table_None [OF inv])
qed

lemma map_insert_dup:
  assumes inv: "map_table_inv m" and c: "card (map_entries m) < map_tablelen m" and h: "hashbits m \<le> 64"
    and dup: "map_abs m key \<noteq> None"
  shows "map_insert m key data = Err ERR_INVALID_ARGUMENT"
proof -
  obtain p where p: "map_occupied m p" "slot_key (slots m ! p) = key"
    using dup by (auto simp: map_abs_table_None [OF inv])
  obtain e where e: "slot_psl (ring m e) = 0" using map_has_empty_slot [OF inv c] by blast
  have "slot_psl (slots m ! p) \<le> map_tablelen m"
    using psl_le_tablelen [OF inv e, of p] occupied_ring [OF p(1)] by simp
  moreover have "0 < slot_psl (slots m ! p)" using p(1) by (simp add: map_occupied_def)
  moreover have "map_index m key mod map_tablelen m = map_index m key"
    using map_index_less [OF h] by simp
  ultimately show ?thesis
    using insert_loop_dup [OF inv p, of 0 "map_tablelen m" data] by (simp add: map_insert_def)
qed

section \<open>Growing the table\<close>

definition slot_entries :: "'d map_slot list \<Rightarrow> (u64 \<times> 'd) set" where
  "slot_entries ss = (\<lambda>s. (slot_key s, slot_data s)) ` {s \<in> set ss. slot_psl s \<noteq> 0}"

definition slot_keys :: "'d map_slot list \<Rightarrow> u64 list" where
  "slot_keys ss = map slot_key (filter (\<lambda>s. slot_psl s \<noteq> 0) ss)"

lemma entries_keys: "(k, d) \<in> map_entries m \<Longrightarrow> map_table_inv m \<Longrightarrow> map_abs m k = Some d"
  by (simp add: map_abs_table)

lemma map_rehash_spec:
  "map_table_inv m \<Longrightarrow> hashbits m \<le> 64 \<Longrightarrow> distinct (slot_keys ss) \<Longrightarrow>
   (\<And>k. k \<in> set (slot_keys ss) \<Longrightarrow> map_abs m k = None) \<Longrightarrow>
   card (map_entries m) + length (slot_keys ss) \<le> map_tablelen m \<Longrightarrow>
   \<exists>m'. map_rehash m ss = Ok m' \<and> map_table_inv m' \<and>
     map_entries m' = map_entries m \<union> slot_entries ss \<and> hashbits m' = hashbits m \<and> seed m' = seed m"
proof (induction ss arbitrary: m)
  case Nil
  then show ?case by (simp add: slot_entries_def)
next
  case (Cons s ss)
  show ?case
  proof (cases "slot_psl s = 0")
    case True
    then have e: "slot_keys (s # ss) = slot_keys ss" "slot_entries (s # ss) = slot_entries ss"
      by (auto simp: slot_keys_def slot_entries_def)
    show ?thesis using Cons True by (simp add: e)
  next
    case False
    then have ks: "slot_keys (s # ss) = slot_key s # slot_keys ss"
      by (simp add: slot_keys_def)
    have fresh: "map_abs m (slot_key s) = None" using Cons.prems(4) ks by simp
    have c: "card (map_entries m) < map_tablelen m" using Cons.prems(5) ks by simp
    obtain m1 where m1: "map_insert m (slot_key s) (slot_data s) = Ok m1" "map_table_inv m1"
      "map_entries m1 = insert (slot_key s, slot_data s) (map_entries m)" "hashbits m1 = hashbits m" "seed m1 = seed m"
      using map_insert_fresh [OF Cons.prems(1) c Cons.prems(2) fresh] by blast
    have "\<exists>m'. map_rehash m1 ss = Ok m' \<and> map_table_inv m' \<and>
      map_entries m' = map_entries m1 \<union> slot_entries ss \<and> hashbits m' = hashbits m1 \<and> seed m' = seed m1"
    proof (rule Cons.IH [OF m1(2)])
      show "hashbits m1 \<le> 64" using Cons.prems(2) m1 by simp
      show "distinct (slot_keys ss)" using Cons.prems(3) ks by simp
      show "map_abs m1 k = None" if "k \<in> set (slot_keys ss)" for k
      proof -
        have "map_abs m k = None" "k \<noteq> slot_key s" using Cons.prems(3,4) ks that by auto
        then have "(k, d) \<notin> map_entries m1" for d
          using map_abs_table [OF Cons.prems(1), of k d] m1(3) by auto
        then show ?thesis using map_abs_table [OF m1(2), of k] by (metis not_None_eq)
      qed
      have "card (map_entries m1) \<le> card (map_entries m) + 1"
        unfolding m1(3) by (simp add: card_insert_if)
      then show "card (map_entries m1) + length (slot_keys ss) \<le> map_tablelen m1"
        using Cons.prems(5) ks m1(4) by (simp add: map_tablelen_def)
    qed
    moreover have "slot_entries (s # ss) = insert (slot_key s, slot_data s) (slot_entries ss)"
      using False by (auto simp: slot_entries_def)
    ultimately show ?thesis using False m1 by auto
  qed
qed

lemma slot_entries_table:
  "map_table_inv m \<Longrightarrow> slot_entries (slots m) = map_entries m"
  unfolding slot_entries_def map_entries_def entries_but_def map_table_inv_def map_table_but_def
  by (force simp: map_occupied_def in_set_conv_nth image_iff)

lemma slot_keys_table:
  assumes inv: "map_table_inv m"
  shows "distinct (slot_keys (slots m))" and "length (slot_keys (slots m)) = card (map_entries m)"
proof -
  have len: "length (slots m) = map_tablelen m"
    using inv by (simp add: map_table_inv_def map_table_but_def)
  have uniq: "i = j" if "i < length (slots m)" "j < length (slots m)"
    "slot_psl (slots m ! i) \<noteq> 0" "slot_psl (slots m ! j) \<noteq> 0" "slot_key (slots m ! i) = slot_key (slots m ! j)" for i j
    using map_key_unique [OF inv, of i j] that len by (simp add: map_occupied_def)
  have "distinct (slot_keys ss)" if "\<And>i j. i < length ss \<Longrightarrow> j < length ss \<Longrightarrow> slot_psl (ss ! i) \<noteq> 0 \<Longrightarrow>
      slot_psl (ss ! j) \<noteq> 0 \<Longrightarrow> slot_key (ss ! i) = slot_key (ss ! j) \<Longrightarrow> i = j" for ss :: "'a map_slot list"
    using that
  proof (induction ss)
    case (Cons s ss)
    have "distinct (slot_keys ss)"
      by (rule Cons.IH) (use Cons.prems [of "Suc _" "Suc _"] in auto)
    moreover have "slot_key s \<notin> set (slot_keys ss)" if "slot_psl s \<noteq> 0"
    proof
      assume "slot_key s \<in> set (slot_keys ss)"
      then obtain j where "j < length ss" "slot_psl (ss ! j) \<noteq> 0" "slot_key (ss ! j) = slot_key s"
        by (auto simp: slot_keys_def in_set_conv_nth)
      with Cons.prems [of 0 "Suc j"] that show False by simp
    qed
    ultimately show ?case by (simp add: slot_keys_def)
  qed (simp add: slot_keys_def)
  then show d: "distinct (slot_keys (slots m))" using uniq by blast
  have "fst ` slot_entries (slots m) = set (slot_keys (slots m))"
    by (force simp: slot_entries_def slot_keys_def)
  moreover have "inj_on fst (map_entries m)"
    by (rule inj_onI) (metis entries_keys inv option.inject prod.collapse)
  ultimately have "card (map_entries m) = card (set (slot_keys (slots m)))"
    using slot_entries_table [OF inv] by (metis card_image)
  then show "length (slot_keys (slots m)) = card (map_entries m)"
    using d by (simp add: distinct_card)
qed

lemma empty_table_inv:
  fixes null :: 'd
  assumes "m = \<lparr>slots = replicate (2 ^ h) \<lparr>slot_key = 0, slot_psl = 0, slot_data = null\<rparr>,
     seed = sd, map_size = 0, hashbits = h\<rparr>"
  shows "map_table_inv m" and "map_entries m = {}"
  using assms
  by (auto simp: map_table_inv_def map_table_but_def map_entries_def entries_but_def map_occupied_def
      map_tablelen_def ring_def)

lemma map_resize_spec:
  assumes inv: "dwnx_map_inv m" and h: "h \<le> DWNX_MAP_MAX_HASHBITS" "hashbits m < h"
    and al: "mem_alloc mem = (True, mem')"
  shows "\<exists>m'. map_resize mem null m h = Ok (mem', m') \<and> map_table_inv m' \<and>
     map_entries m' = (if hashbits m = 0 then {} else map_entries m) \<and>
     map_size m' = map_size m \<and> hashbits m' = h \<and> seed m' = seed m"
proof -
  define nm where "nm = \<lparr>slots = replicate (2 ^ h) \<lparr>slot_key = 0, slot_psl = 0, slot_data = null\<rparr>,
     seed = seed m, map_size = 0, hashbits = h\<rparr>"
  note e = empty_table_inv [OF nm_def]
  have h64: "hashbits nm \<le> 64" using h(1) by (simp add: nm_def DWNX_MAP_MAX_HASHBITS_def)
  have none: "map_abs nm k = None" for k
    using map_abs_table [OF e(1), of k] e(2) by (metis empty_iff not_None_eq)
  let ?ss = "if map_size m = 0 then [] else slots m"
  have "\<exists>m'. map_rehash nm ?ss = Ok m' \<and> map_table_inv m' \<and>
     map_entries m' = (if hashbits m = 0 then {} else map_entries m) \<and> hashbits m' = h \<and> seed m' = seed m"
  proof (cases "map_size m = 0")
    case True
    have "map_entries m = {}" if "hashbits m \<noteq> 0"
      using inv that True by (simp add: dwnx_map_inv_def)
    then show ?thesis using True e by (auto simp: nm_def)
  next
    case False
    then have t: "map_table_inv m" "hashbits m \<noteq> 0" "card (map_entries m) < map_tablelen m"
      using inv by (auto simp: dwnx_map_inv_def)
    have "map_tablelen m \<le> map_tablelen nm"
      using h(2) by (simp add: map_tablelen_def nm_def power_increasing)
    then have "card (map_entries nm) + length (slot_keys (slots m)) \<le> map_tablelen nm"
      using t(3) e(2) slot_keys_table(2) [OF t(1)] by simp
    with map_rehash_spec [OF e(1) h64 slot_keys_table(1) [OF t(1)] none] show ?thesis
      using False t slot_entries_table [OF t(1)] e(2) by (auto simp: nm_def)
  qed
  then obtain m' where m': "map_rehash nm ?ss = Ok m'" "map_table_inv m'"
    "map_entries m' = (if hashbits m = 0 then {} else map_entries m)" "hashbits m' = h" "seed m' = seed m"
    by blast
  let ?r = "m\<lparr>slots := slots m', hashbits := hashbits m'\<rparr>"
  have same: "map_tablelen ?r = map_tablelen m'" "map_index ?r = map_index m'"
    "ring ?r = ring m'" "map_occupied ?r = map_occupied m'"
    using m'(5) by (simp_all add: map_tablelen_def map_index_def ring_def map_occupied_def fun_eq_iff)
  have "map_resize mem null m h = Ok (mem', ?r)"
    using h(1) al m'(1) m'(4) by (simp add: map_resize_def nm_def)
  moreover have "map_table_inv ?r"
    using m'(2) by (simp add: map_table_inv_def map_table_but_def same)
  moreover have "map_entries ?r = map_entries m'"
    by (simp add: map_entries_def entries_but_def same)
  ultimately show ?thesis using m' by auto
qed

section \<open>The contract of the map\<close>

text \<open>
  What \<open>dwnx_conn.c\<close> and the application rely on: a map from keys to data, with an insertion that
  refuses a key it has and may fail when memory runs out.
\<close>

locale key_map =
  fixes find :: "'m \<Rightarrow> 'k \<Rightarrow> 'd option res"
    and insert :: "'a \<times> 'm \<Rightarrow> 'k \<Rightarrow> 'd \<Rightarrow> ('a \<times> 'm, unit) sres"
    and remove :: "'m \<Rightarrow> 'k \<Rightarrow> 'm res"
    and abs :: "'m \<Rightarrow> 'k \<Rightarrow> 'd option"
    and inv :: "'m \<Rightarrow> bool"
  assumes find_abs: "inv m \<Longrightarrow> find m k = Ok (abs m k)"
    and insert_total: "inv m \<Longrightarrow> insert (a, m) k d \<noteq> SAbort"
    and insert_ok: "inv m \<Longrightarrow> insert (a, m) k d = SOk u (a', m') \<Longrightarrow>
      abs m k = None \<and> inv m' \<and> abs m' = (abs m)(k \<mapsto> d)"
    and insert_err: "inv m \<Longrightarrow> insert (a, m) k d = SErr e (a', m') \<Longrightarrow> inv m' \<and> abs m' = abs m"
    and insert_dup: "inv m \<Longrightarrow> abs m k \<noteq> None \<Longrightarrow> insert (a, m) k d \<noteq> SOk u s"
    and remove_present: "inv m \<Longrightarrow> abs m k \<noteq> None \<Longrightarrow>
      \<exists>m'. remove m k = Ok m' \<and> inv m' \<and> abs m' = (abs m)(k := None)"
    and remove_absent: "inv m \<Longrightarrow> abs m k = None \<Longrightarrow> remove m k = Err ERR_INVALID_ARGUMENT"
begin

lemma find_inserted:
  assumes "inv m" and "insert (a, m) k d = SOk u (a', m')"
  shows "find m' k = Ok (Some d)" and "k' \<noteq> k \<Longrightarrow> find m' k' = find m k'"
  using insert_ok [OF assms] assms(1) by (simp_all add: find_abs)

lemma find_removed:
  assumes "inv m" and "remove m k = Ok m'"
  shows "find m' k = Ok None" and "k' \<noteq> k \<Longrightarrow> find m' k' = find m k'"
proof -
  have "abs m k \<noteq> None" using assms(2) remove_absent [OF assms(1), of k] by (metis res.distinct(1))
  then have "inv m'" and "abs m' = (abs m)(k := None)"
    using remove_present [OF assms(1), of k] assms(2) by auto
  then show "find m' k = Ok None" and "k' \<noteq> k \<Longrightarrow> find m' k' = find m k'"
    using assms(1) by (simp_all add: find_abs)
qed

lemma remove_inserted:
  assumes "inv m" and "insert (a, m) k d = SOk u (a', m')"
  shows "\<exists>m''. remove m' k = Ok m'' \<and> inv m'' \<and> abs m'' = abs m"
proof -
  have i: "abs m k = None" "inv m'" "abs m' = (abs m)(k \<mapsto> d)"
    using insert_ok [OF assms] by simp_all
  then obtain m'' where "remove m' k = Ok m''" "inv m''" "abs m'' = (abs m')(k := None)"
    using remove_present [OF i(2), of k] by auto
  then show ?thesis using i by (auto simp: fun_upd_idem_iff)
qed

end

lemma map_inv_table:
  assumes "dwnx_map_inv m" and "map_size m \<noteq> 0"
  shows "map_table_inv m" and "card (map_entries m) < map_tablelen m" and "hashbits m \<le> 64"
    and "4 \<le> hashbits m"
  using assms by (auto simp: dwnx_map_inv_def DWNX_MAP_MAX_HASHBITS_def)

lemma map_abs_empty:
  assumes "dwnx_map_inv m" and "map_size m = 0"
  shows "map_abs m k = None"
proof (cases "hashbits m = 0")
  case True
  then show ?thesis using assms by (auto simp: dwnx_map_inv_def map_abs_def)
next
  case False
  then have "map_table_inv m" "map_entries m = {}" using assms by (auto simp: dwnx_map_inv_def)
  then show ?thesis using map_abs_table [of m k] by (metis empty_iff not_None_eq)
qed

lemma map_find_spec:
  assumes "dwnx_map_inv m"
  shows "dwnx_map_find m k = Ok (map_abs m k)"
proof (cases "map_size m = 0")
  case True
  then show ?thesis using map_abs_empty [OF assms] by (simp add: dwnx_map_find_def)
next
  case False
  note t = map_inv_table [OF assms False]
  obtain e where e: "slot_psl (ring m e) = 0" using map_has_empty_slot [OF t(1,2)] by blast
  note loop = map_find_loop_spec [OF t(1) e t(3)]
  show ?thesis
  proof (cases "map_abs m k")
    case None
    with loop(2) [of k] False map_abs_table_None [OF t(1), of k] show ?thesis
      by (simp add: dwnx_map_find_def)
  next
    case (Some d)
    then obtain p where "map_occupied m p" "slot_key (slots m ! p) = k" "slot_data (slots m ! p) = d"
      using map_abs_table [OF t(1)] by (auto simp: map_entries_def entries_but_def)
    with loop(1) False Some show ?thesis by (simp add: dwnx_map_find_def)
  qed
qed

lemma entries_abs_insert:
  assumes "map_table_inv m" "map_table_inv m'" "map_entries m' = insert (k, d) (map_entries m)" "map_abs m k = None"
  shows "map_abs m' = (map_abs m)(k \<mapsto> d)"
proof
  fix k'
  have "map_abs m' k' = Some d' \<longleftrightarrow> ((map_abs m)(k \<mapsto> d)) k' = Some d'" for d'
    using assms map_abs_table [OF assms(2), of k' d'] map_abs_table [OF assms(1), of k' d'] by auto
  then show "map_abs m' k' = ((map_abs m)(k \<mapsto> d)) k'" by (metis not_Some_eq)
qed

lemma entries_abs_eq:
  assumes "map_table_inv m" "map_table_inv m'" "map_entries m' = map_entries m"
  shows "map_abs m' = map_abs m"
proof
  fix k
  have "map_abs m' k = Some d \<longleftrightarrow> map_abs m k = Some d" for d
    using assms map_abs_table by metis
  then show "map_abs m' k = map_abs m k" by (metis not_Some_eq)
qed

text \<open>The table has room for one more entry after it has grown.\<close>

definition map_room :: "'d dwnx_map \<Rightarrow> bool" where
  "map_room m \<longleftrightarrow> 4 \<le> hashbits m \<and> hashbits m \<le> DWNX_MAP_MAX_HASHBITS \<and> map_table_inv m \<and>
     map_size m = card (map_entries m) \<and> map_size m + 1 < map_tablelen m - map_tablelen m div 8"

lemma tablelen_room: "4 \<le> h \<Longrightarrow> (2::nat) ^ h - 2 ^ h div 8 = 7 * 2 ^ (h - 3)"
proof -
  assume "4 \<le> h"
  then obtain k where "h = 3 + k" using le_Suc_ex [of 3 h] by auto
  then show ?thesis by (simp add: power_add)
qed

lemma map_grow_spec:
  assumes inv: "dwnx_map_inv m"
    and g: "g = (if map_size m + 1 \<ge> map_tablelen m - map_tablelen m div 8
                 then map_resize mem null m
                        (if hashbits m \<noteq> 0 then hashbits m + 1 else DWNX_INITIAL_HASHBITS)
                 else Ok (mem, m))"
  shows "g = Err ERR_NOMEM \<or> (\<exists>mem1 m1. g = Ok (mem1, m1) \<and> map_room m1 \<and> map_abs m1 = map_abs m)"
proof (cases "map_size m + 1 \<ge> map_tablelen m - map_tablelen m div 8")
  case False
  then have "hashbits m \<noteq> 0" using inv by (auto simp: dwnx_map_inv_def map_tablelen_def)
  with False inv show ?thesis by (auto simp: g map_room_def dwnx_map_inv_def)
next
  case True
  let ?h = "if hashbits m \<noteq> 0 then hashbits m + 1 else DWNX_INITIAL_HASHBITS"
  obtain ok mem1 where al: "mem_alloc mem = (ok, mem1)" by (cases "mem_alloc mem")
  show ?thesis
  proof (cases "?h \<le> DWNX_MAP_MAX_HASHBITS \<and> ok")
    case False
    with True al show ?thesis by (auto simp: g map_resize_def)
  next
    case ok: True
    have lt: "hashbits m < ?h" by (simp add: DWNX_INITIAL_HASHBITS_def)
    obtain m1 where m1: "map_resize mem null m ?h = Ok (mem1, m1)" "map_table_inv m1"
      "map_entries m1 = (if hashbits m = 0 then {} else map_entries m)" "map_size m1 = map_size m"
      "hashbits m1 = ?h"
      using map_resize_spec [OF inv conjunct1 [OF ok] lt, of mem mem1 null] ok al by auto
    have "map_room m1 \<and> map_abs m1 = map_abs m"
    proof (cases "hashbits m = 0")
      case z: True
      then have "map_size m = 0" using inv by (simp add: dwnx_map_inv_def)
      moreover have "map_abs m1 k = None" for k
        using map_abs_table [OF m1(2), of k] m1(3) z by (metis empty_iff not_None_eq)
      ultimately show ?thesis
        using m1 z map_abs_empty [OF inv]
        by (auto simp: map_room_def map_tablelen_def DWNX_INITIAL_HASHBITS_def DWNX_MAP_MAX_HASHBITS_def)
    next
      case nz: False
      then have t: "map_table_inv m" "map_size m = card (map_entries m)" "4 \<le> hashbits m"
        "map_size m < map_tablelen m - map_tablelen m div 8"
        using inv by (auto simp: dwnx_map_inv_def)
      have "map_size m < 7 * 2 ^ (hashbits m - 3)"
        using t(4) tablelen_room [OF t(3)] by (simp add: map_tablelen_def)
      moreover have "(2::nat) ^ (hashbits m - 2) = 2 * 2 ^ (hashbits m - 3)"
        using t(3) by (simp flip: power_Suc add: Suc_diff_Suc numeral_2_eq_2 numeral_3_eq_3)
      moreover have "(1::nat) \<le> 2 ^ (hashbits m - 3)" by simp
      ultimately have "map_size m + 1 < 7 * 2 ^ (hashbits m + 1 - 3)" by simp
      then have "map_room m1"
        using m1 nz t ok tablelen_room [of "hashbits m + 1"] by (simp add: map_room_def map_tablelen_def)
      then show ?thesis using entries_abs_eq [OF t(1) m1(2)] m1(3) nz by simp
    qed
    with True m1(1) show ?thesis by (auto simp: g)
  qed
qed

lemma map_room_inv: "map_room m \<Longrightarrow> dwnx_map_inv m"
  by (auto simp: map_room_def dwnx_map_inv_def)

lemma map_insert_room:
  assumes room: "map_room m"
  shows "map_abs m k = None \<Longrightarrow> \<exists>m'. map_insert m k d = Ok m' \<and> dwnx_map_inv m' \<and> map_abs m' = (map_abs m)(k \<mapsto> d)"
    and "map_abs m k \<noteq> None \<Longrightarrow> map_insert m k d = Err ERR_INVALID_ARGUMENT"
proof -
  have t: "map_table_inv m" "card (map_entries m) < map_tablelen m" "hashbits m \<le> 64"
    using room by (auto simp: map_room_def DWNX_MAP_MAX_HASHBITS_def)
  show "map_insert m k d = Err ERR_INVALID_ARGUMENT" if "map_abs m k \<noteq> None"
    by (rule map_insert_dup [OF t that])
  assume fresh: "map_abs m k = None"
  obtain m' where m': "map_insert m k d = Ok m'" "map_table_inv m'"
    "map_entries m' = insert (k, d) (map_entries m)" "map_size m' = map_size m + 1" "hashbits m' = hashbits m"
    using map_insert_fresh [OF t fresh] by blast
  have "(k, d) \<notin> map_entries m" using map_abs_table [OF t(1), of k d] fresh by simp
  then have "map_size m' = card (map_entries m')" using m' room by (simp add: map_room_def)
  then have "dwnx_map_inv m'"
    using m' room by (simp add: dwnx_map_inv_def map_room_def map_tablelen_def)
  with m' show "\<exists>m'. map_insert m k d = Ok m' \<and> dwnx_map_inv m' \<and> map_abs m' = (map_abs m)(k \<mapsto> d)"
    using entries_abs_insert [OF t(1) m'(2,3) fresh] by blast
qed

lemma map_insert_cases:
  assumes "dwnx_map_inv m"
  shows "(\<exists>s. dwnx_map_insert null (mem, m) k d = SErr ERR_NOMEM (s, m)) \<or>
    (\<exists>mem1 m1. dwnx_map_insert null (mem, m) k d = SErr ERR_INVALID_ARGUMENT (mem1, m1) \<and>
       map_abs m k \<noteq> None \<and> dwnx_map_inv m1 \<and> map_abs m1 = map_abs m) \<or>
    (\<exists>mem1 m1. dwnx_map_insert null (mem, m) k d = SOk () (mem1, m1) \<and>
       map_abs m k = None \<and> dwnx_map_inv m1 \<and> map_abs m1 = (map_abs m)(k \<mapsto> d))"
proof -
  let ?g = "if map_size m + 1 \<ge> map_tablelen m - map_tablelen m div 8
            then map_resize mem null m (if hashbits m \<noteq> 0 then hashbits m + 1 else DWNX_INITIAL_HASHBITS)
            else Ok (mem, m)"
  have eq: "dwnx_map_insert null (mem, m) k d =
     (case ?g of
        Err e \<Rightarrow> SErr e (snd (mem_alloc mem), m)
      | Abort \<Rightarrow> SAbort
      | Ok (mem, m) \<Rightarrow>
          (case map_insert m k d of
             Ok m \<Rightarrow> SOk () (mem, m) | Err e \<Rightarrow> SErr e (mem, m) | Abort \<Rightarrow> SAbort))"
    by (simp add: dwnx_map_insert_def)
  show ?thesis
  proof (rule disjE [OF map_grow_spec [OF assms refl, of mem null]])
    assume "?g = Err ERR_NOMEM"
    with eq show ?thesis by (simp only: res.case) blast
  next
    assume "\<exists>mem1 m1. ?g = Ok (mem1, m1) \<and> map_room m1 \<and> map_abs m1 = map_abs m"
    then obtain mem1 m1 where g: "?g = Ok (mem1, m1)" "map_room m1" "map_abs m1 = map_abs m" by blast
    note eq = eq [unfolded g(1) res.case prod.case]
    show ?thesis
    proof (cases "map_abs m k = None")
      case True
      then obtain m2 where "map_insert m1 k d = Ok m2" "dwnx_map_inv m2" "map_abs m2 = (map_abs m)(k \<mapsto> d)"
        using map_insert_room(1) [OF g(2), of k d] g(3) by auto
      with True eq show ?thesis by simp
    next
      case False
      then show ?thesis using map_insert_room(2) [OF g(2), of k d] g(3) eq map_room_inv [OF g(2)] by simp
    qed
  qed
qed

lemma map_remove_present:
  assumes inv: "dwnx_map_inv m" and k: "map_abs m k \<noteq> None"
  shows "\<exists>m'. dwnx_map_remove m k = Ok m' \<and> dwnx_map_inv m' \<and> map_abs m' = (map_abs m)(k := None)"
proof -
  have nz: "map_size m \<noteq> 0" using map_abs_empty [OF inv, of k] k by blast
  note t = map_inv_table [OF inv nz]
  obtain e where e: "slot_psl (ring m e) = 0" using map_has_empty_slot [OF t(1,2)] by blast
  obtain p where p: "map_occupied m p" "slot_key (slots m ! p) = k"
    using k by (auto simp: map_abs_table_None [OF t(1)])
  have but: "map_table_but m {p}"
    using t(1) by (auto simp: map_table_inv_def map_table_but_def)
  obtain d where "d < map_tablelen m" "slot_psl (ring m (p + 1 + d)) = 0"
    using empty_ahead [OF e, of "p + 1"] by blast
  then obtain m1 where m1: "map_shift_loop (map_tablelen m) m p ((p + 1) mod map_tablelen m) = Ok m1"
    "map_table_inv m1" "map_entries m1 = entries_but m {p}" "map_size m1 = map_size m"
    "hashbits m1 = hashbits m"
    using shift_loop_spec [OF but p(1)] by blast
  have rm: "dwnx_map_remove m k = Ok (m1\<lparr>map_size := map_size m1 - 1\<rparr>)"
    using nz map_find_loop_spec(1) [OF t(1) e t(3) p] m1(1) by (simp add: dwnx_map_remove_def)
  let ?m = "m1\<lparr>map_size := map_size m1 - 1\<rparr>"
  have same: "map_table_inv ?m" "map_entries ?m = map_entries m1" "map_abs ?m = map_abs m1"
    using m1(2)
    by (simp_all add: map_table_inv_def map_table_but_def ring_def map_occupied_def map_entries_def
        entries_but_def map_abs_def fun_eq_iff)
  have ins: "map_entries m = insert (k, slot_data (slots m ! p)) (map_entries m1)"
    using entries_insert_occupied [OF p(1), of "{}"] p(2) m1(3) by (simp add: map_entries_def)
  have notin: "(k, x) \<notin> map_entries m1" for x
    using map_key_unique [OF t(1) p(1)] p(2) unfolding m1(3) by (auto simp: entries_but_def)
  have "card (map_entries m) = Suc (card (map_entries m1))"
    unfolding ins using notin by simp
  then have "dwnx_map_inv ?m"
    using inv nz m1 same by (auto simp: dwnx_map_inv_def map_tablelen_def)
  moreover have "map_abs m1 = (map_abs m)(k := None)"
  proof
    fix k'
    have "map_abs m1 k' = Some d \<longleftrightarrow> ((map_abs m)(k := None)) k' = Some d" for d
      using map_abs_table [OF m1(2), of k' d] map_abs_table [OF t(1), of k' d] ins notin by auto
    then show "map_abs m1 k' = ((map_abs m)(k := None)) k'" by (metis not_Some_eq)
  qed
  ultimately show ?thesis using rm same by auto
qed

lemma map_remove_absent:
  assumes inv: "dwnx_map_inv m" and k: "map_abs m k = None"
  shows "dwnx_map_remove m k = Err ERR_INVALID_ARGUMENT"
proof (cases "map_size m = 0")
  case False
  note t = map_inv_table [OF inv False]
  obtain e where e: "slot_psl (ring m e) = 0" using map_has_empty_slot [OF t(1,2)] by blast
  have "map_find_loop (map_tablelen m) m (map_index m k) k 1 = Ok None"
    using map_find_loop_spec(2) [OF t(1) e t(3), of k] k by (simp add: map_abs_table_None [OF t(1)])
  with False show ?thesis by (simp add: dwnx_map_remove_def)
qed (simp add: dwnx_map_remove_def)

interpretation dmap: key_map dwnx_map_find "dwnx_map_insert null" dwnx_map_remove map_abs dwnx_map_inv
proof (unfold_locales, goal_cases)
  case (1 m k) then show ?case by (rule map_find_spec)
next
  case (2 m a k d) then show ?case using map_insert_cases [OF 2, of null a k d] by auto
next
  case (3 m a k d u a' m') then show ?case using map_insert_cases [OF 3(1), of null a k d] by auto
next
  case (4 m a k d e a' m') then show ?case using map_insert_cases [OF 4(1), of null a k d] by auto
next
  case (5 m k a d u s) then show ?case using map_insert_cases [OF 5(1), of null a k d] by auto
next
  case (6 m k) then show ?case by (intro map_remove_present)
next
  case (7 m k) then show ?case by (intro map_remove_absent)
qed

section \<open>Properties\<close>



text \<open>C8: Removing a key that is present succeeds, the key is gone and every other key is found as
  before; removing one that is absent is an error.\<close>

theorem map_remove_refines:
  assumes "dwnx_map_inv m"
  shows "(case dwnx_map_find m k of
      Ok (Some d) \<Rightarrow> (\<exists>m'. dwnx_map_remove m k = Ok m' \<and> dwnx_map_inv m' \<and> dwnx_map_find m' k = Ok None \<and>
        (\<forall>k'. k' = k \<or> dwnx_map_find m' k' = dwnx_map_find m k'))
    | _ \<Rightarrow> dwnx_map_remove m k = Err ERR_INVALID_ARGUMENT)"
proof (cases "map_abs m k")
  case None
  then show ?thesis using dmap.find_abs [OF assms] dmap.remove_absent [OF assms] by simp
next
  case (Some d)
  then obtain m' where m': "dwnx_map_remove m k = Ok m'" "dwnx_map_inv m'"
    using dmap.remove_present [OF assms, of k] by auto
  then show ?thesis
    using Some dmap.find_abs [OF assms] dmap.find_removed [OF assms m'(1)] by auto
qed

theorem map_remove_refines_witness:
  "dwnx_map_remove (dwnx_map_init 7 :: nat dwnx_map) 4 = Err ERR_INVALID_ARGUMENT"
proof -
  have "dwnx_map_inv (dwnx_map_init 7 :: nat dwnx_map)"
    by (simp add: dwnx_map_inv_def dwnx_map_init_def)
  from map_remove_refines [OF this, of 4] show ?thesis by (simp add: dwnx_map_find_def dwnx_map_init_def)
qed

end
