(* ===== verification/Pq.thy ===== *)
theory Pq
  imports Prelude "HOL-Library.Multiset"
begin

text \<open>
  \<open>lib/dwnx_pq.c\<close>: the priority queue, a binary heap of pointers to entries. An entry is known
  by its address, the array is a list of addresses, and \<open>index\<close>, the member of every entry, is a
  function of the address; \<open>None\<close> is \<open>DWNX_PQ_BAD_INDEX\<close>. The order is a parameter, as in the
  code. The lemmas show that every operation keeps the heap and the indices, and what it does to
  the multiset of entries.
\<close>

type_synonym 'p pq_index = "'p \<Rightarrow> nat option"

record 'p dwnx_pq =
  pq_q :: "'p list"
  pq_capacity :: nat

definition dwnx_pq_init :: "'p dwnx_pq" where
  "dwnx_pq_init = \<lparr>pq_q = [], pq_capacity = 0\<rparr>"

definition pq_swap :: "'p list \<times> 'p pq_index \<Rightarrow> nat \<Rightarrow> nat \<Rightarrow> 'p list \<times> 'p pq_index" where
  "pq_swap s i j =
     (let (q, index) = s; a = q ! i; b = q ! j
      in (q[i := b, j := a], (index(b := Some i))(a := Some j)))"

fun bubble_up :: "('p \<Rightarrow> 'p \<Rightarrow> bool) \<Rightarrow> 'p list \<times> 'p pq_index \<Rightarrow> nat \<Rightarrow> 'p list \<times> 'p pq_index" where
  "bubble_up lt s index =
     (if index = 0 then s
      else let parent = (index - 1) div 2
        in if \<not> lt (fst s ! index) (fst s ! parent) then s
           else bubble_up lt (pq_swap s parent index) parent)"

text \<open>The inner loop of \<open>bubble_down\<close>: the least of an entry and its two children.\<close>

definition min_child :: "('p \<Rightarrow> 'p \<Rightarrow> bool) \<Rightarrow> 'p list \<Rightarrow> nat \<Rightarrow> nat" where
  "min_child lt q index =
     (let j = index * 2 + 1;
          minindex = (if j < length q \<and> lt (q ! j) (q ! index) then j else index)
      in if j + 1 < length q \<and> lt (q ! (j + 1)) (q ! minindex) then j + 1 else minindex)"

lemma min_child_cases:
  "min_child lt q k = k \<or> min_child lt q k = 2 * k + 1 \<and> 2 * k + 1 < length q \<or>
   min_child lt q k = 2 * k + 2 \<and> 2 * k + 2 < length q"
  by (auto simp: min_child_def Let_def)

lemma length_pq_swap [simp]: "length (fst (pq_swap s i j)) = length (fst s)"
  by (cases s) (simp add: pq_swap_def Let_def)

function bubble_down ::
    "('p \<Rightarrow> 'p \<Rightarrow> bool) \<Rightarrow> 'p list \<times> 'p pq_index \<Rightarrow> nat \<Rightarrow> 'p list \<times> 'p pq_index" where
  "bubble_down lt s index =
     (let minindex = min_child lt (fst s) index
      in if minindex = index then s else bubble_down lt (pq_swap s index minindex) minindex)"
  by pat_completeness auto
termination
proof (relation "measure (\<lambda>(lt, s, index). length (fst s) - index)")
  fix lt :: "'p \<Rightarrow> 'p \<Rightarrow> bool" and s :: "'p list \<times> 'p pq_index" and index m
  assume "m = min_child lt (fst s) index" and "m \<noteq> index"
  then show "((lt, pq_swap s index m, m), (lt, s, index)) \<in> measure (\<lambda>(lt, s, index). length (fst s) - index)"
    using min_child_cases [of lt "fst s" index] by auto
qed simp

declare bubble_up.simps [simp del] bubble_down.simps [simp del]

definition dwnx_pq_push ::
    "('p \<Rightarrow> 'p \<Rightarrow> bool) \<Rightarrow> dwnx_mem \<times> 'p dwnx_pq \<times> 'p pq_index \<Rightarrow> 'p \<Rightarrow>
     (dwnx_mem \<times> 'p dwnx_pq \<times> 'p pq_index, unit) sres" where
  "dwnx_pq_push lt s item =
     (let (mem, pq, index) = s; len = length (pq_q pq);
          (ok, mem, pq) =
            (if pq_capacity pq \<le> len
             then let ncapacity = max 4 (pq_capacity pq * 2); (ok, mem) = mem_alloc mem
                  in if ok then (True, mem, pq\<lparr>pq_capacity := ncapacity\<rparr>) else (False, mem, pq)
             else (True, mem, pq))
      in if \<not> ok then SErr ERR_NOMEM (mem, pq, index)
         else let (q, index) = bubble_up lt (pq_q pq @ [item], index(item := Some len)) len
              in SOk () (mem, pq\<lparr>pq_q := q\<rparr>, index))"

definition dwnx_pq_top :: "'p dwnx_pq \<Rightarrow> 'p res" where
  "dwnx_pq_top pq = assertr (pq_q pq \<noteq> []) (Ok (pq_q pq ! 0))"

text \<open>\<open>q[i] = q[length - 1]; q[i]->index = i; --length\<close>.\<close>

definition pq_move_last :: "'p list \<times> 'p pq_index \<Rightarrow> nat \<Rightarrow> 'p list \<times> 'p pq_index" where
  "pq_move_last s i = (let (q, index) = s in (butlast (q[i := last q]), index(last q := Some i)))"

definition dwnx_pq_pop ::
    "('p \<Rightarrow> 'p \<Rightarrow> bool) \<Rightarrow> 'p dwnx_pq \<times> 'p pq_index \<Rightarrow> ('p dwnx_pq \<times> 'p pq_index) res" where
  "dwnx_pq_pop lt s =
     (let (pq, index) = s
      in assertr (pq_q pq \<noteq> [])
           (let (q, index) = bubble_down lt (pq_move_last (pq_q pq, index) 0) 0
            in Ok (pq\<lparr>pq_q := q\<rparr>, index)))"

definition dwnx_pq_remove ::
    "('p \<Rightarrow> 'p \<Rightarrow> bool) \<Rightarrow> 'p dwnx_pq \<times> 'p pq_index \<Rightarrow> 'p \<Rightarrow> ('p dwnx_pq \<times> 'p pq_index) res" where
  "dwnx_pq_remove lt s item =
     (let (pq, index) = s; q = pq_q pq
      in case index item of
           None \<Rightarrow> Abort
         | Some i \<Rightarrow>
             assertr (i < length q \<and> q ! i = item)
               (if i = 0 then dwnx_pq_pop lt s
                else if i = length q - 1 then Ok (pq\<lparr>pq_q := butlast q\<rparr>, index)
                else
                  let s = pq_move_last (q, index) i;
                      (q, index) = (if lt item (fst s ! i) then bubble_down lt s i
                                    else bubble_up lt s i)
                  in Ok (pq\<lparr>pq_q := q\<rparr>, index)))"

definition dwnx_pq_empty :: "'p dwnx_pq \<Rightarrow> bool" where
  "dwnx_pq_empty pq \<longleftrightarrow> length (pq_q pq) = 0"

definition dwnx_pq_size :: "'p dwnx_pq \<Rightarrow> nat" where
  "dwnx_pq_size pq = length (pq_q pq)"

section \<open>The entries and their indices\<close>

text \<open>Every entry of the array knows its place.\<close>

definition index_ok :: "'p list \<times> 'p pq_index \<Rightarrow> bool" where
  "index_ok s \<longleftrightarrow> (\<forall>i < length (fst s). snd s (fst s ! i) = Some i)"

text \<open>Two arrays hold the same entries, and only their indices differ.\<close>

definition same_entries :: "'p list \<times> 'p pq_index \<Rightarrow> 'p list \<times> 'p pq_index \<Rightarrow> bool" where
  "same_entries s t \<longleftrightarrow> mset (fst t) = mset (fst s) \<and> (\<forall>p. p \<notin> set (fst s) \<longrightarrow> snd t p = snd s p)"

lemma same_entries_refl [simp]: "same_entries s s"
  by (simp add: same_entries_def)

lemma same_entries_trans: "same_entries s t \<Longrightarrow> same_entries t u \<Longrightarrow> same_entries s u"
  unfolding same_entries_def by (metis set_mset_mset)

lemma same_entries_set: "same_entries s t \<Longrightarrow> set (fst t) = set (fst s)"
  unfolding same_entries_def by (metis set_mset_mset)

lemma same_entries_length: "same_entries s t \<Longrightarrow> length (fst t) = length (fst s)"
  unfolding same_entries_def by (metis size_mset)

lemma index_ok_distinct: "index_ok s \<Longrightarrow> distinct (fst s)"
  unfolding index_ok_def distinct_conv_nth by (metis option.inject)

lemma pq_swap_same:
  assumes "i < length (fst s)" and "j < length (fst s)"
  shows "same_entries s (pq_swap s i j)"
  using assms
  by (cases s) (auto simp: same_entries_def pq_swap_def Let_def mset_swap)

lemma pq_swap_index_ok:
  assumes "index_ok s" and "i < length (fst s)" and "j < length (fst s)"
  shows "index_ok (pq_swap s i j)"
proof -
  obtain q ix where s: "s = (q, ix)" by (cases s)
  have d: "distinct q" using index_ok_distinct [OF assms(1)] by (simp add: s)
  show ?thesis
    using assms d
    by (auto simp: s index_ok_def pq_swap_def Let_def nth_list_update nth_eq_iff_index_eq)
qed

lemma bubble_up_same:
  "index < length (fst s) \<Longrightarrow> same_entries s (bubble_up lt s index)"
proof (induction lt s index rule: bubble_up.induct)
  case (1 lt s index)
  show ?case
  proof (cases "index = 0 \<or> \<not> lt (fst s ! index) (fst s ! ((index - 1) div 2))")
    case True
    then show ?thesis by (subst bubble_up.simps) auto
  next
    case False
    let ?p = "(index - 1) div 2"
    have p: "?p < length (fst s)" using "1.prems" False by linarith
    have "same_entries (pq_swap s ?p index) (bubble_up lt (pq_swap s ?p index) ?p)"
      using "1.IH" [OF _ refl] False p by simp
    moreover have "bubble_up lt s index = bubble_up lt (pq_swap s ?p index) ?p"
      using False by (subst bubble_up.simps) (simp add: Let_def)
    ultimately show ?thesis
      using same_entries_trans [OF pq_swap_same [OF p "1.prems"]] by simp
  qed
qed

lemma bubble_up_index_ok:
  "index_ok s \<Longrightarrow> index < length (fst s) \<Longrightarrow> index_ok (bubble_up lt s index)"
proof (induction lt s index rule: bubble_up.induct)
  case (1 lt s index)
  show ?case
  proof (cases "index = 0 \<or> \<not> lt (fst s ! index) (fst s ! ((index - 1) div 2))")
    case True
    then show ?thesis using "1.prems" by (subst bubble_up.simps) auto
  next
    case False
    let ?p = "(index - 1) div 2"
    have p: "?p < length (fst s)" using "1.prems" False by linarith
    have "index_ok (bubble_up lt (pq_swap s ?p index) ?p)"
      using "1.IH" [OF _ refl] pq_swap_index_ok [OF "1.prems"(1) p "1.prems"(2)] False p by simp
    moreover have "bubble_up lt s index = bubble_up lt (pq_swap s ?p index) ?p"
      using False by (subst bubble_up.simps) (simp add: Let_def)
    ultimately show ?thesis by simp
  qed
qed

lemma bubble_down_step:
  "bubble_down lt s index =
    (if min_child lt (fst s) index = index then s
     else bubble_down lt (pq_swap s index (min_child lt (fst s) index)) (min_child lt (fst s) index))"
  by (subst bubble_down.simps) (simp add: Let_def)

lemma bubble_down_same:
  "index < length (fst s) \<Longrightarrow> same_entries s (bubble_down lt s index)"
proof (induction lt s index rule: bubble_down.induct)
  case (1 lt s index)
  let ?m = "min_child lt (fst s) index"
  show ?case
  proof (cases "?m = index")
    case False
    then have m: "?m < length (fst s)" using min_child_cases [of lt "fst s" index] by auto
    show ?thesis
      using same_entries_trans [OF pq_swap_same [OF "1.prems" m]] "1.IH" [OF refl False] m False
      by (simp add: bubble_down_step [of lt s])
  qed (simp add: bubble_down_step [of lt s])
qed

lemma bubble_down_index_ok:
  "index_ok s \<Longrightarrow> index < length (fst s) \<Longrightarrow> index_ok (bubble_down lt s index)"
proof (induction lt s index rule: bubble_down.induct)
  case (1 lt s index)
  let ?m = "min_child lt (fst s) index"
  show ?case
  proof (cases "?m = index")
    case False
    then have m: "?m < length (fst s)" using min_child_cases [of lt "fst s" index] by auto
    show ?thesis
      using "1.IH" [OF refl False] pq_swap_index_ok [OF "1.prems" m] m False
      by (simp add: bubble_down_step [of lt s])
  qed (use "1.prems" in \<open>simp add: bubble_down_step [of lt s]\<close>)
qed


section \<open>The heap\<close>

text \<open>
  The contract of the comparison: on the entries of the queue it is a strict weak order. The
  connection's comparison of cycles is one only as long as the cycles in the queue differ by at
  most one, which is why the contract is about a set of entries.
\<close>

locale entry_order =
  fixes lt :: "'p \<Rightarrow> 'p \<Rightarrow> bool" and S :: "'p set"
  assumes asym: "x \<in> S \<Longrightarrow> y \<in> S \<Longrightarrow> lt x y \<Longrightarrow> \<not> lt y x"
    and ntrans: "x \<in> S \<Longrightarrow> y \<in> S \<Longrightarrow> z \<in> S \<Longrightarrow> \<not> lt x y \<Longrightarrow> \<not> lt y z \<Longrightarrow> \<not> lt x z"

text \<open>The children of \<open>k\<close> are \<open>2 * k + 1\<close> and \<open>2 * k + 2\<close>.\<close>

definition heap :: "('p \<Rightarrow> 'p \<Rightarrow> bool) \<Rightarrow> 'p list \<Rightarrow> bool" where
  "heap lt q \<longleftrightarrow> (\<forall>i < length q. 0 < i \<longrightarrow> \<not> lt (q ! i) (q ! ((i - 1) div 2)))"

text \<open>A heap but for the entry \<open>k\<close> and its parent, or for \<open>k\<close> and its children.\<close>

definition heap_but_up :: "('p \<Rightarrow> 'p \<Rightarrow> bool) \<Rightarrow> 'p list \<Rightarrow> nat \<Rightarrow> bool" where
  "heap_but_up lt q k \<longleftrightarrow>
     (\<forall>i < length q. 0 < i \<and> i \<noteq> k \<longrightarrow> \<not> lt (q ! i) (q ! ((i - 1) div 2))) \<and>
     (\<forall>i < length q. 0 < i \<and> (i - 1) div 2 = k \<and> 0 < k \<longrightarrow> \<not> lt (q ! i) (q ! ((k - 1) div 2)))"

definition heap_but_down :: "('p \<Rightarrow> 'p \<Rightarrow> bool) \<Rightarrow> 'p list \<Rightarrow> nat \<Rightarrow> bool" where
  "heap_but_down lt q k \<longleftrightarrow>
     (\<forall>i < length q. 0 < i \<and> (i - 1) div 2 \<noteq> k \<longrightarrow> \<not> lt (q ! i) (q ! ((i - 1) div 2))) \<and>
     (\<forall>i < length q. 0 < i \<and> (i - 1) div 2 = k \<and> 0 < k \<longrightarrow> \<not> lt (q ! i) (q ! ((k - 1) div 2)))"

lemma pq_swap_nth:
  "i < length (fst s) \<Longrightarrow> j < length (fst s) \<Longrightarrow> k < length (fst s) \<Longrightarrow>
     fst (pq_swap s i j) ! k = (if k = j then fst s ! i else if k = i then fst s ! j else fst s ! k)"
  by (cases s) (simp add: pq_swap_def Let_def nth_list_update)

lemma parent_less: "0 < (i :: nat) \<Longrightarrow> (i - 1) div 2 < i"
  by linarith

context entry_order
begin

lemma irrefl: "x \<in> S \<Longrightarrow> \<not> lt x x"
  using asym by blast

lemma trans: "x \<in> S \<Longrightarrow> y \<in> S \<Longrightarrow> z \<in> S \<Longrightarrow> lt x y \<Longrightarrow> lt y z \<Longrightarrow> lt x z"
  using asym ntrans by metis

lemma nlt_lt: "x \<in> S \<Longrightarrow> y \<in> S \<Longrightarrow> z \<in> S \<Longrightarrow> \<not> lt x y \<Longrightarrow> lt z y \<Longrightarrow> \<not> lt x z"
  using asym ntrans by metis

lemma heap_top:
  assumes "heap lt q" and "set q \<subseteq> S" and "i < length q"
  shows "\<not> lt (q ! i) (q ! 0)"
  using assms(3)
proof (induction i rule: less_induct)
  case (less i)
  have S: "j < length q \<Longrightarrow> q ! j \<in> S" for j using assms(2) by (auto simp: subset_iff)
  show ?case
  proof (cases "i = 0")
    case True
    then show ?thesis using irrefl S less.prems by simp
  next
    case False
    let ?p = "(i - 1) div 2"
    have "?p < i" using False by (intro parent_less) simp
    then show ?thesis
      using less assms(1) False S ntrans [of "q ! i" "q ! ?p" "q ! 0"]
      unfolding heap_def by (metis bot_nat_0.not_eq_extremum dual_order.strict_trans)
  qed
qed

lemma bubble_up_heap:
  assumes "heap_but_up lt (fst s) index" and "index < length (fst s)" and "set (fst s) \<subseteq> S"
  shows "heap lt (fst (bubble_up lt s index))"
  using assms
proof (induction index arbitrary: s rule: less_induct)
  case (less index)
  let ?q = "fst s" and ?p = "(index - 1) div 2"
  have S: "j < length ?q \<Longrightarrow> ?q ! j \<in> S" for j using less.prems(3) by (auto simp: subset_iff)
  show ?case
  proof (cases "index = 0 \<or> \<not> lt (?q ! index) (?q ! ?p)")
    case True
    then have "heap lt ?q"
      using less.prems(1) unfolding heap_but_up_def heap_def by (metis less_irrefl)
    then show ?thesis using True by (subst bubble_up.simps) auto
  next
    case False
    then have p: "?p < index" "?p < length ?q" and lt: "lt (?q ! index) (?q ! ?p)" and pos: "0 < index"
      using less.prems(2) parent_less [of index] by auto
    let ?s = "pq_swap s ?p index"
    have nth: "k < length ?q \<Longrightarrow> fst ?s ! k =
        (if k = index then ?q ! ?p else if k = ?p then ?q ! index else ?q ! k)" for k
      by (rule pq_swap_nth [OF p(2) less.prems(2)])
    have ok: "\<not> lt (?q ! i) (?q ! ((i - 1) div 2))" if "i < length ?q" "0 < i" "i \<noteq> index" for i
      using less.prems(1) that by (simp add: heap_but_up_def)
    have grand: "\<not> lt (?q ! i) (?q ! ?p)" if "i < length ?q" "0 < i" "(i - 1) div 2 = index" for i
      using less.prems(1) that pos by (simp add: heap_but_up_def)
    have a: "\<not> lt (fst ?s ! i) (fst ?s ! ((i - 1) div 2))" if i: "i < length ?q" "0 < i" "i \<noteq> ?p" for i
    proof (cases "i = index")
      case True
      then show ?thesis using nth [of i] nth [of ?p] p i lt asym [OF S S, of index ?p] by simp
    next
      case False
      have pi: "(i - 1) div 2 < length ?q" using parent_less [OF i(2)] i(1) by linarith
      consider "(i - 1) div 2 = index" | "(i - 1) div 2 = ?p" | "(i - 1) div 2 \<noteq> index" "(i - 1) div 2 \<noteq> ?p"
        by blast
      then show ?thesis
      proof cases
        case 1
        then show ?thesis using grand [OF i(1,2)] nth [of i] nth [of index] less.prems(2) i False by simp
      next
        case 2
        then show ?thesis
          using ok [OF i(1,2) False] nth [of i] nth [of ?p] p i False lt
            nlt_lt [OF S [OF i(1)] S [OF p(2)] S [OF less.prems(2)]] by simp
      next
        case 3
        then show ?thesis using ok [OF i(1,2) False] nth [OF i(1)] nth [OF pi] i False by simp
      qed
    qed
    have b: "\<not> lt (fst ?s ! i) (fst ?s ! ((?p - 1) div 2))"
      if i: "i < length ?q" "0 < i" "(i - 1) div 2 = ?p" "0 < ?p" for i
    proof -
      let ?g = "(?p - 1) div 2"
      have g: "?g < ?p" using parent_less [OF i(4)] .
      have pg: "\<not> lt (?q ! ?p) (?q ! ?g)" using ok [OF p(2) i(4)] p(1) by simp
      have ig: "\<not> lt (?q ! i) (?q ! ?g)" if "i \<noteq> index"
      proof (rule ntrans [OF S [OF i(1)] S [OF p(2)] S])
        show "\<not> lt (?q ! i) (?q ! ?p)" using ok [OF i(1,2) that] unfolding i(3) .
      qed (use pg g p in linarith)+
      have ne: "i \<noteq> ?p" using parent_less [OF i(2)] i(3) by linarith
      have g': "?g < length ?q" "?g \<noteq> index" "?g \<noteq> ?p" using g p by linarith+
      show ?thesis
        unfolding nth [OF i(1)] nth [OF g'(1)] using g'(2,3) ne pg ig by (simp only: if_False if_True split: if_split) blast
    qed
    have "heap_but_up lt (fst ?s) ?p"
      using a b by (simp add: heap_but_up_def)
    moreover have "set (fst ?s) \<subseteq> S"
      using same_entries_set [OF pq_swap_same [OF p(2) less.prems(2)]] less.prems(3) by simp
    ultimately have "heap lt (fst (bubble_up lt ?s ?p))"
      using less.IH [OF p(1)] p by simp
    moreover have "bubble_up lt s index = bubble_up lt ?s ?p"
      using False by (subst bubble_up.simps) (simp add: Let_def)
    ultimately show ?thesis by simp
  qed
qed

lemma min_child_least:
  assumes "k < length q" and "set q \<subseteq> S"
  shows "\<not> lt (q ! k) (q ! min_child lt q k)"
    and "i < length q \<Longrightarrow> i = 2 * k + 1 \<or> i = 2 * k + 2 \<Longrightarrow> \<not> lt (q ! i) (q ! min_child lt q k)"
proof -
  have S: "j < length q \<Longrightarrow> q ! j \<in> S" for j using assms(2) by (auto simp: subset_iff)
  define a where "a = k * 2 + 1"
  define mi where "mi = (if a < length q \<and> lt (q ! a) (q ! k) then a else k)"
  have mi: "mi < length q" using assms(1) by (simp add: mi_def)
  have m: "min_child lt q k = (if a + 1 < length q \<and> lt (q ! (a + 1)) (q ! mi) then a + 1 else mi)"
    unfolding min_child_def Let_def mi_def a_def ..
  have k: "\<not> lt (q ! k) (q ! mi)"
    using irrefl [OF S [OF assms(1)]] asym [OF S S [OF assms(1)], of a] by (simp add: mi_def)
  have a: "\<not> lt (q ! a) (q ! mi)" if "a < length q"
    using irrefl [OF S [OF that]] that by (simp add: mi_def)
  have via: "\<not> lt (q ! x) (q ! min_child lt q k)" if "x < length q" "\<not> lt (q ! x) (q ! mi)" for x
    unfolding m using nlt_lt [OF S [OF that(1)] S [OF mi] S that(2)] that(2) by simp
  show "\<not> lt (q ! k) (q ! min_child lt q k)"
    by (rule via [OF assms(1) k])
  show "\<not> lt (q ! i) (q ! min_child lt q k)" if "i < length q" "i = 2 * k + 1 \<or> i = 2 * k + 2"
  proof (cases "i = a")
    case True
    then show ?thesis using via a that(1) by blast
  next
    case False
    then have "i = a + 1" using that(2) by (simp add: a_def)
    then show ?thesis unfolding m using irrefl [OF S [OF that(1)]] that(1) by simp
  qed
qed

lemma bubble_down_heap:
  assumes "heap_but_down lt (fst s) index" and "index < length (fst s)" and "set (fst s) \<subseteq> S"
  shows "heap lt (fst (bubble_down lt s index))"
  using assms
proof (induction "length (fst s) - index" arbitrary: s index rule: less_induct)
  case less
  let ?q = "fst s" and ?m = "min_child lt (fst s) index"
  have S: "j < length ?q \<Longrightarrow> ?q ! j \<in> S" for j using less.prems(3) by (auto simp: subset_iff)
  have ok: "\<not> lt (?q ! i) (?q ! ((i - 1) div 2))" if "i < length ?q" "0 < i" "(i - 1) div 2 \<noteq> index" for i
    using less.prems(1) that by (simp add: heap_but_down_def)
  have grand: "\<not> lt (?q ! i) (?q ! ((index - 1) div 2))"
    if "i < length ?q" "0 < i" "(i - 1) div 2 = index" "0 < index" for i
    using less.prems(1) that by (simp add: heap_but_down_def)
  have least: "\<not> lt (?q ! i) (?q ! ?m)" if "i < length ?q" "0 < i" "(i - 1) div 2 = index" for i
  proof (rule min_child_least(2) [OF less.prems(2,3) that(1)])
    show "i = 2 * index + 1 \<or> i = 2 * index + 2" using that(2,3) by linarith
  qed
  show ?case
  proof (cases "?m = index")
    case True
    have "heap lt ?q"
      unfolding heap_def
    proof (intro allI impI)
      fix i assume i: "i < length ?q" "0 < i"
      show "\<not> lt (?q ! i) (?q ! ((i - 1) div 2))"
        using ok [OF i] least [OF i, unfolded True] by (cases "(i - 1) div 2 = index") metis+
    qed
    then show ?thesis using True by (simp add: bubble_down_step [of lt s])
  next
    case False
    let ?s = "pq_swap s index ?m"
    have m: "?m < length ?q" "index < ?m" "(?m - 1) div 2 = index" "0 < ?m"
      using min_child_cases [of lt ?q index] False by auto
    have lt: "\<not> lt (?q ! index) (?q ! ?m)" by (rule min_child_least(1) [OF less.prems(2,3)])
    have nth: "k < length ?q \<Longrightarrow> fst ?s ! k =
        (if k = ?m then ?q ! index else if k = index then ?q ! ?m else ?q ! k)" for k
      by (rule pq_swap_nth [OF less.prems(2) m(1)])
    have nm: "fst ?s ! ?m = ?q ! index" and nk: "fst ?s ! index = ?q ! ?m"
      using nth [OF m(1)] nth [OF less.prems(2)] False by simp_all
    have no: "k < length ?q \<Longrightarrow> k \<noteq> ?m \<Longrightarrow> k \<noteq> index \<Longrightarrow> fst ?s ! k = ?q ! k" for k
      using nth [of k] by simp
    have a: "\<not> lt (fst ?s ! i) (fst ?s ! ((i - 1) div 2))"
      if i: "i < length ?q" "0 < i" "(i - 1) div 2 \<noteq> ?m" for i
    proof (cases "(i - 1) div 2 = index")
      case True
      then have ik: "i \<noteq> index" using parent_less [OF i(2)] by linarith
      show ?thesis
        unfolding True nk using lt nm least [OF i(1,2) True] no [OF i(1) _ ik] by (cases "i = ?m") simp_all
    next
      case 2: False
      have p: "(i - 1) div 2 < length ?q" using parent_less [OF i(2)] i(1) by linarith
      have im: "i \<noteq> ?m" using 2 m(3) by blast
      show ?thesis
        unfolding no [OF p i(3) 2]
        using grand [OF m(1,4,3)] i(2) nk ok [OF i(1,2) 2] no [OF i(1) im] by (cases "i = index") simp_all
    qed
    have b: "\<not> lt (fst ?s ! i) (fst ?s ! ((?m - 1) div 2))"
      if i: "i < length ?q" "0 < i" "(i - 1) div 2 = ?m" for i
    proof -
      have "?m < i" using parent_less [OF i(2)] unfolding i(3) .
      then have "fst ?s ! i = ?q ! i" using m(2) by (intro no i) auto
      moreover have "\<not> lt (?q ! i) (?q ! ?m)"
        using ok [OF i(1,2)] False unfolding i(3) by blast
      ultimately show ?thesis unfolding m(3) nk by simp
    qed
    have "heap_but_down lt (fst ?s) ?m"
      using a b by (simp add: heap_but_down_def)
    moreover have "set (fst ?s) \<subseteq> S"
      using same_entries_set [OF pq_swap_same [OF less.prems(2) m(1)]] less.prems(3) by simp
    ultimately have "heap lt (fst (bubble_down lt ?s ?m))"
      using less.hyps [of ?s ?m] m(1,2) by simp
    then show ?thesis using False by (simp add: bubble_down_step [of lt s])
  qed
qed

end

section \<open>The operations\<close>

definition pq_inv :: "('p \<Rightarrow> 'p \<Rightarrow> bool) \<Rightarrow> 'p dwnx_pq \<times> 'p pq_index \<Rightarrow> bool" where
  "pq_inv lt s \<longleftrightarrow> heap lt (pq_q (fst s)) \<and> index_ok (pq_q (fst s), snd s)"

lemma pq_init_inv [simp]: "pq_inv lt (dwnx_pq_init, index)"
  by (simp add: pq_inv_def dwnx_pq_init_def heap_def index_ok_def)

lemma mset_butlast: "q \<noteq> [] \<Longrightarrow> mset (butlast q) = mset q - {#last q#}"
  by (induction q rule: rev_induct) auto

lemma pq_move_last_mset:
  assumes "i < length q"
  shows "mset (fst (pq_move_last (q, index) i)) = mset q - {#q ! i#}"
proof (cases "i = length q - 1")
  case True
  then have "q[i := last q] = q" "last q = q ! i"
    using assms by (auto simp: last_conv_nth [of q] list_update_same_conv simp flip: length_greater_0_conv)
  then show ?thesis
    using assms mset_butlast [of q] by (cases q) (simp_all add: pq_move_last_def Let_def)
next
  case False
  have ne: "q \<noteq> []" and ne': "q[i := last q] \<noteq> []" using assms by auto
  have "last (q[i := last q]) = last q"
    using False assms ne ne' by (simp add: last_conv_nth nth_list_update)
  then show ?thesis
    using mset_butlast [OF ne'] assms by (simp add: pq_move_last_def Let_def mset_update)
qed

lemma pq_move_last_index_ok:
  assumes "index_ok (q, index)" and "i < length q"
  shows "index_ok (pq_move_last (q, index) i)"
proof -
  have ne: "q \<noteq> []" using assms(2) by auto
  have d: "distinct q" using index_ok_distinct [OF assms(1)] by simp
  have "last q = q ! (length q - 1)" using ne by (simp add: last_conv_nth)
  then show ?thesis
    using assms d ne
    by (auto simp: index_ok_def pq_move_last_def Let_def nth_butlast nth_list_update nth_eq_iff_index_eq)
qed

lemma pq_move_last_nth:
  assumes "i < length q"
  shows "length (fst (pq_move_last (q, index) i)) = length q - 1"
    and "j < length q - 1 \<Longrightarrow> fst (pq_move_last (q, index) i) ! j = (if j = i then last q else q ! j)"
  using assms by (auto simp: pq_move_last_def Let_def nth_butlast nth_list_update)

lemma pq_move_last_other:
  "i < length q \<Longrightarrow> p \<notin> set q \<Longrightarrow> snd (pq_move_last (q, index) i) p = index p"
  by (cases q rule: rev_cases) (auto simp: pq_move_last_def Let_def)

lemma pq_move_last_set: "i < length q \<Longrightarrow> set (fst (pq_move_last (q, index) i)) \<subseteq> set q"
  using pq_move_last_mset [of i q index] by (metis in_diffD set_mset_mset subsetI)

context entry_order
begin

lemma pq_push_spec:
  assumes "pq_inv lt (pq, index)" and "item \<notin> set (pq_q pq)" and "insert item (set (pq_q pq)) \<subseteq> S"
  shows "(\<exists>mem' pq' index'. dwnx_pq_push lt (mem, pq, index) item = SOk () (mem', pq', index') \<and>
            pq_inv lt (pq', index') \<and> mset (pq_q pq') = add_mset item (mset (pq_q pq)) \<and>
            (\<forall>p. p \<noteq> item \<and> p \<notin> set (pq_q pq) \<longrightarrow> index' p = index p)) \<or>
         (\<exists>mem'. dwnx_pq_push lt (mem, pq, index) item = SErr ERR_NOMEM (mem', pq, index))"
proof -
  let ?q = "pq_q pq"
  define t where "t = (?q @ [item], index(item := Some (length ?q)))"
  have fst: "fst t = ?q @ [item]" by (simp add: t_def)
  have ok: "index_ok t"
    using assms(1,2)
    by (auto simp: t_def index_ok_def pq_inv_def nth_append less_Suc_eq)
  have hb: "heap_but_up lt (fst t) (length ?q)"
    unfolding heap_but_up_def
  proof (intro conjI allI impI)
    fix i assume i: "i < length (fst t)" "0 < i \<and> i \<noteq> length ?q"
    then have "(i - 1) div 2 < i" using parent_less by blast
    then show "\<not> lt (fst t ! i) (fst t ! ((i - 1) div 2))"
      using assms(1) i by (simp add: fst nth_append pq_inv_def heap_def)
  next
    fix i assume "i < length (fst t)" "0 < i \<and> (i - 1) div 2 = length ?q \<and> 0 < length ?q"
    then have False using parent_less [of i] by (simp add: fst)
    then show "\<not> lt (fst t ! i) (fst t ! ((length ?q - 1) div 2))" ..
  qed
  let ?u = "bubble_up lt t (length ?q)"
  have l: "length ?q < length (fst t)" by (simp add: fst)
  have h: "heap lt (fst ?u)"
    using bubble_up_heap [OF hb l] assms(3) by (simp add: fst)
  have io: "index_ok ?u" by (rule bubble_up_index_ok [OF ok l])
  have se: "mset (fst ?u) = mset (fst t)" and other: "p \<notin> set (fst t) \<Longrightarrow> snd ?u p = snd t p" for p
    using bubble_up_same [OF l, of lt] by (simp_all add: same_entries_def)
  have run: "dwnx_pq_push lt (mem, pq, index) item = SOk () (mem', pq'\<lparr>pq_q := fst ?u\<rparr>, snd ?u)"
    if "(if pq_capacity pq \<le> length ?q
          then let ncapacity = max 4 (pq_capacity pq * 2); (ok, mem) = mem_alloc mem
               in if ok then (True, mem, pq\<lparr>pq_capacity := ncapacity\<rparr>) else (False, mem, pq)
          else (True, mem, pq)) = (True, mem', pq')" and "pq_q pq' = ?q" for mem' pq'
    unfolding dwnx_pq_push_def Let_def prod.case that [unfolded Let_def]
    by (simp add: that(2) t_def [symmetric] split: prod.split)
  have good: "pq_inv lt (pq'\<lparr>pq_q := fst ?u\<rparr>, snd ?u) \<and>
      mset (pq_q (pq'\<lparr>pq_q := fst ?u\<rparr>)) = add_mset item (mset ?q) \<and>
      (\<forall>p. p \<noteq> item \<and> p \<notin> set ?q \<longrightarrow> snd ?u p = index p)" for pq' :: "'p dwnx_pq"
    using h io se other by (simp add: pq_inv_def fst) (simp add: t_def)
  show ?thesis
  proof (cases "pq_capacity pq \<le> length ?q")
    case False
    then show ?thesis using run [of mem pq] good [of pq] by auto
  next
    case True
    show ?thesis
    proof (cases "mem_alloc mem")
      case (Pair b mem')
      show ?thesis
      proof (cases b)
        case bt: True
        then show ?thesis
          using run [of mem' "pq\<lparr>pq_capacity := max 4 (pq_capacity pq * 2)\<rparr>"] good True Pair by auto
      next
        case False
        then show ?thesis
          using True Pair by (auto simp: dwnx_pq_push_def Let_def)
      qed
    qed
  qed
qed

lemma pq_top_spec:
  assumes "pq_inv lt (pq, index)" and "set (pq_q pq) \<subseteq> S" and "pq_q pq \<noteq> []"
  shows "\<exists>p. dwnx_pq_top pq = Ok p \<and> p \<in> set (pq_q pq) \<and> (\<forall>r \<in> set (pq_q pq). \<not> lt r p)"
proof -
  have "\<not> lt r (pq_q pq ! 0)" if "r \<in> set (pq_q pq)" for r
    using that assms(1,2) heap_top by (auto simp: pq_inv_def in_set_conv_nth)
  then show ?thesis using assms(3) by (simp add: dwnx_pq_top_def)
qed

lemma pq_pop_spec:
  assumes "pq_inv lt (pq, index)" and "set (pq_q pq) \<subseteq> S" and "pq_q pq \<noteq> []"
  shows "\<exists>pq' index'. dwnx_pq_pop lt (pq, index) = Ok (pq', index') \<and> pq_inv lt (pq', index') \<and>
    mset (pq_q pq') = mset (pq_q pq) - {#pq_q pq ! 0#} \<and>
    (\<forall>p. p \<notin> set (pq_q pq) \<longrightarrow> index' p = index p)"
proof -
  let ?q = "pq_q pq"
  have l0: "0 < length ?q" using assms(3) by simp
  define t where "t = pq_move_last (?q, index) 0"
  let ?u = "bubble_down lt t 0"
  have ok: "index_ok t" unfolding t_def
    using assms(1) l0 by (intro pq_move_last_index_ok) (simp_all add: pq_inv_def)
  have m: "mset (fst t) = mset ?q - {#?q ! 0#}" unfolding t_def by (rule pq_move_last_mset [OF l0])
  have sub: "set (fst t) \<subseteq> set ?q" unfolding t_def by (rule pq_move_last_set [OF l0])
  have other: "p \<notin> set ?q \<Longrightarrow> snd t p = index p" for p
    unfolding t_def by (rule pq_move_last_other [OF l0])
  have e: "dwnx_pq_pop lt (pq, index) = Ok (pq\<lparr>pq_q := fst ?u\<rparr>, snd ?u)"
    using assms(3) by (simp add: dwnx_pq_pop_def Let_def t_def split: prod.split)
  have "heap lt (fst ?u) \<and> index_ok ?u \<and> same_entries t ?u"
  proof (cases "fst t = []")
    case True
    then have "?u = t" by (simp add: bubble_down_step [of lt t] min_child_def)
    then show ?thesis using True ok by (simp add: heap_def)
  next
    case False
    then have l: "0 < length (fst t)" by simp
    have hb: "heap_but_down lt (fst t) 0"
      unfolding heap_but_down_def
    proof (intro conjI allI impI)
      fix i assume i: "i < length (fst t)" "0 < i \<and> (i - 1) div 2 \<noteq> 0"
      note len = pq_move_last_nth(1) [OF l0, of index, folded t_def]
      have j: "(i - 1) div 2 < i" using i(2) parent_less by blast
      have "fst t ! i = ?q ! i" "fst t ! ((i - 1) div 2) = ?q ! ((i - 1) div 2)"
        using pq_move_last_nth(2) [OF l0, of i index, folded t_def]
          pq_move_last_nth(2) [OF l0, of "(i - 1) div 2" index, folded t_def] i j len by auto
      then show "\<not> lt (fst t ! i) (fst t ! ((i - 1) div 2))"
        using assms(1) i len by (simp add: pq_inv_def heap_def)
    qed auto
    show ?thesis
      using bubble_down_heap [OF hb l] bubble_down_index_ok [OF ok l] bubble_down_same [OF l] sub assms(2)
      by blast
  qed
  then show ?thesis
    using e m other sub by (auto simp: pq_inv_def same_entries_def subset_iff)
qed

lemma pq_remove_spec:
  assumes "pq_inv lt (pq, index)" and "set (pq_q pq) \<subseteq> S" and "item \<in> set (pq_q pq)"
  shows "\<exists>pq' index'. dwnx_pq_remove lt (pq, index) item = Ok (pq', index') \<and> pq_inv lt (pq', index') \<and>
    mset (pq_q pq') = mset (pq_q pq) - {#item#} \<and>
    (\<forall>p. p \<notin> set (pq_q pq) \<longrightarrow> index' p = index p)"
proof -
  let ?q = "pq_q pq"
  obtain i where i: "i < length ?q" "?q ! i = item" using assms(3) by (auto simp: in_set_conv_nth)
  have ix: "index item = Some i" using assms(1) i by (auto simp: pq_inv_def index_ok_def)
  have ne: "?q \<noteq> []" using i(1) by auto
  have heap: "j < length ?q \<Longrightarrow> 0 < j \<Longrightarrow> \<not> lt (?q ! j) (?q ! ((j - 1) div 2))" for j
    using assms(1) by (simp add: pq_inv_def heap_def)
  have S: "j < length ?q \<Longrightarrow> ?q ! j \<in> S" for j using assms(2) by (auto simp: subset_iff)
  consider "i = 0" | "0 < i" "i = length ?q - 1" | "0 < i" "i < length ?q - 1" using i(1) by linarith
  then show ?thesis
  proof cases
    case 1
    then have "dwnx_pq_remove lt (pq, index) item = dwnx_pq_pop lt (pq, index)"
      using ix i by (simp add: dwnx_pq_remove_def)
    then show ?thesis using pq_pop_spec [OF assms(1,2) ne] 1 i(2) by simp
  next
    case 2
    have "dwnx_pq_remove lt (pq, index) item = Ok (pq\<lparr>pq_q := butlast ?q\<rparr>, index)"
      using ix i 2 by (simp add: dwnx_pq_remove_def)
    moreover have "last ?q = item" using i(2) 2(2) ne by (simp add: last_conv_nth)
    moreover have "heap lt (butlast ?q)"
      unfolding heap_def
    proof (intro allI impI)
      fix j assume j: "j < length (butlast ?q)" "0 < j"
      then have "(j - 1) div 2 < length (butlast ?q)" using parent_less [of j] by linarith
      then show "\<not> lt (butlast ?q ! j) (butlast ?q ! ((j - 1) div 2))"
        using heap [of j] j by (simp add: nth_butlast)
    qed
    moreover have "index_ok (butlast ?q, index)"
      using assms(1) by (simp add: pq_inv_def index_ok_def nth_butlast)
    ultimately show ?thesis using mset_butlast [OF ne] by (simp add: pq_inv_def)
  next
    case 3
    define t where "t = pq_move_last (?q, index) i"
    let ?x = "last ?q"
    have x: "?x = ?q ! (length ?q - 1)" using ne by (simp add: last_conv_nth)
    have Sx: "?x \<in> S" unfolding x using S ne by simp
    have Si: "item \<in> S" using S [OF i(1)] i(2) by simp
    have len: "length (fst t) = length ?q - 1" unfolding t_def by (rule pq_move_last_nth(1) [OF i(1)])
    have nth: "j < length (fst t) \<Longrightarrow> fst t ! j = (if j = i then ?x else ?q ! j)" for j
      using pq_move_last_nth(2) [OF i(1), of j index] by (simp add: t_def len [unfolded t_def])
    have il: "i < length (fst t)" using 3 len by simp
    have ti: "fst t ! i = ?x" using nth [OF il] by simp
    have ok: "index_ok t" unfolding t_def
      using assms(1) by (intro pq_move_last_index_ok i(1)) (simp add: pq_inv_def)
    have m: "mset (fst t) = mset ?q - {#item#}" unfolding t_def using pq_move_last_mset [OF i(1)] i(2) by simp
    have sub: "set (fst t) \<subseteq> set ?q" unfolding t_def by (rule pq_move_last_set [OF i(1)])
    have other: "p \<notin> set ?q \<Longrightarrow> snd t p = index p" for p
      unfolding t_def by (rule pq_move_last_other [OF i(1)])
    have far: "\<not> lt (fst t ! j) (fst t ! ((j - 1) div 2))"
      if j: "j < length (fst t)" "0 < j" "j \<noteq> i" "(j - 1) div 2 \<noteq> i" for j
    proof -
      have "(j - 1) div 2 < length (fst t)" using parent_less [OF j(2)] j(1) by linarith
      then show ?thesis using nth [OF j(1)] nth j(3,4) heap [of j] j(1,2) len by simp
    qed
    have up: "\<not> lt item (?q ! ((i - 1) div 2))"
      using heap [OF i(1) 3(1)] i(2) by simp
    have pi: "(i - 1) div 2 < length (fst t)" "(i - 1) div 2 \<noteq> i"
      using parent_less [OF 3(1)] il by linarith+
    have tp: "fst t ! ((i - 1) div 2) = ?q ! ((i - 1) div 2)" using nth [OF pi(1)] pi(2) by simp
    have child: "fst t ! j = ?q ! j \<and> \<not> lt (?q ! j) item"
      if j: "j < length (fst t)" "0 < j" "(j - 1) div 2 = i" for j
    proof -
      have "i < j" using parent_less [OF j(2)] unfolding j(3) .
      then show ?thesis using nth [OF j(1)] heap [of j] j len i(2) by simp
    qed
    have grand: "\<not> lt (fst t ! j) (fst t ! ((i - 1) div 2))"
      if j: "j < length (fst t)" "0 < j" "(j - 1) div 2 = i" for j
      unfolding tp using child [OF j] ntrans [OF S Si S, of j] up j(1) len pi(1) by simp
    let ?u = "if lt item (fst t ! i) then bubble_down lt t i else bubble_up lt t i"
    have "heap lt (fst ?u)"
    proof (cases "lt item (fst t ! i)")
      case True
      then have ltx: "lt item ?x" by (simp add: ti)
      have "heap_but_down lt (fst t) i"
        unfolding heap_but_down_def
      proof (intro conjI allI impI)
        fix j assume j: "j < length (fst t)" "0 < j \<and> (j - 1) div 2 \<noteq> i"
        show "\<not> lt (fst t ! j) (fst t ! ((j - 1) div 2))"
        proof (cases "j = i")
          case True
          have "\<not> lt ?x (?q ! ((i - 1) div 2))"
            using trans [OF Si Sx S [of "(i - 1) div 2"] ltx] up pi(1) len by linarith
          then show ?thesis unfolding True ti tp .
        qed (use far j in blast)
      qed (use grand in blast)
      then show ?thesis using bubble_down_heap [OF _ il] sub assms(2) True by auto
    next
      case False
      have "heap_but_up lt (fst t) i"
        unfolding heap_but_up_def
      proof (intro conjI allI impI)
        fix j assume j: "j < length (fst t)" "0 < j \<and> j \<noteq> i"
        show "\<not> lt (fst t ! j) (fst t ! ((j - 1) div 2))"
        proof (cases "(j - 1) div 2 = i")
          case True
          then show ?thesis
            using child [OF j(1) _ True] ntrans [OF S Si Sx, of j] False ti j len by simp
        qed (use far j in blast)
      qed (use grand in blast)
      then show ?thesis using bubble_up_heap [OF _ il] sub assms(2) False by auto
    qed
    moreover have "index_ok ?u" "same_entries t ?u"
      using bubble_down_index_ok [OF ok il] bubble_up_index_ok [OF ok il]
        bubble_down_same [OF il] bubble_up_same [OF il] by auto
    moreover have "dwnx_pq_remove lt (pq, index) item = Ok (pq\<lparr>pq_q := fst ?u\<rparr>, snd ?u)"
      unfolding dwnx_pq_remove_def Let_def prod.case ix option.case t_def [symmetric]
      using i 3 by (simp split: prod.split)
    ultimately show ?thesis
      using m other sub by (auto simp: pq_inv_def same_entries_def subset_iff)
  qed
qed

end

end
