(* ===== verification/Gaptr.thy ===== *)
theory Gaptr
  imports Prelude
begin

text \<open>
  \<open>lib/dwnx_range.c\<close>, \<open>lib/dwnx_gaptr.c\<close> and \<open>lib/dwnx_idtr.c\<close>: half-open ranges, the tracker of
  the offsets that have not been pushed yet, and the tracker of the stream IDs the peer has opened.

  The gaps are the keys of an ordered map (\<open>lib/dwnx_ksl.c\<close>). Here the map is its contents, the list of
  its keys in order, and an iterator is the position in that list. The blocks of the map are in the theories
  from \<open>Ksl\<close> to \<open>KslApi\<close>, and \<open>KslGap\<close> shows that the tracker runs on them as it does on the list.
  An insertion may run out of memory, as the outcomes in \<open>dwnx_mem\<close> say.

  The lemmas show that a push removes exactly the pushed range from the gaps, however many gaps
  the range meets, and that the tracker of stream IDs is a set.
\<close>

section \<open>Ranges\<close>

record dwnx_range =
  r_begin :: u64
  r_end :: u64

definition dwnx_range_init :: "u64 \<Rightarrow> u64 \<Rightarrow> dwnx_range" where
  "dwnx_range_init b e = \<lparr>r_begin = b, r_end = e\<rparr>"

definition dwnx_range_intersect :: "dwnx_range \<Rightarrow> dwnx_range \<Rightarrow> dwnx_range" where
  "dwnx_range_intersect a b =
     (let bg = max (r_begin a) (r_begin b); en = min (r_end a) (r_end b)
      in if bg < en then dwnx_range_init bg en else \<lparr>r_begin = 0, r_end = 0\<rparr>)"

definition dwnx_range_len :: "dwnx_range \<Rightarrow> u64" where
  "dwnx_range_len r = r_end r - r_begin r"

definition dwnx_range_eq :: "dwnx_range \<Rightarrow> dwnx_range \<Rightarrow> bool" where
  "dwnx_range_eq a b \<longleftrightarrow> r_begin a = r_begin b \<and> r_end a = r_end b"

definition dwnx_range_cut :: "dwnx_range \<Rightarrow> dwnx_range \<Rightarrow> dwnx_range \<times> dwnx_range" where
  "dwnx_range_cut a b =
     (\<lparr>r_begin = r_begin a, r_end = r_begin b\<rparr>, \<lparr>r_begin = r_end b, r_end = r_end a\<rparr>)"

definition dwnx_range_not_after :: "dwnx_range \<Rightarrow> dwnx_range \<Rightarrow> bool" where
  "dwnx_range_not_after a b \<longleftrightarrow> r_end a \<le> r_end b"

section \<open>The keys of the ordered map\<close>

definition dwnx_ksl_range_compar :: "dwnx_range \<Rightarrow> dwnx_range \<Rightarrow> bool" where
  "dwnx_ksl_range_compar a b \<longleftrightarrow> r_begin a < r_begin b"

definition dwnx_ksl_range_exclusive_compar :: "dwnx_range \<Rightarrow> dwnx_range \<Rightarrow> bool" where
  "dwnx_ksl_range_exclusive_compar a b \<longleftrightarrow>
     r_begin a < r_begin b \<and> \<not> max (r_begin a) (r_begin b) < min (r_end a) (r_end b)"

text \<open>The first position whose key is not ordered before \<open>key\<close>.\<close>

definition keys_search ::
    "(dwnx_range \<Rightarrow> dwnx_range \<Rightarrow> bool) \<Rightarrow> dwnx_range list \<Rightarrow> dwnx_range \<Rightarrow> nat" where
  "keys_search compar ks key = length (takeWhile (\<lambda>k. compar k key) ks)"

definition keys_insert ::
    "dwnx_mem \<Rightarrow> dwnx_range list \<Rightarrow> dwnx_range \<Rightarrow> dwnx_mem \<times> (dwnx_range list \<times> nat) res" where
  "keys_insert mem ks key =
     (let i = keys_search dwnx_ksl_range_compar ks key
      in if i < length ks \<and> \<not> dwnx_ksl_range_compar key (ks ! i) then (mem, Err ERR_INVALID_ARGUMENT)
         else let (ok, mem) = mem_alloc mem
           in if ok then (mem, Ok (take i ks @ key # drop i ks, i)) else (mem, Err ERR_NOMEM))"

definition keys_remove :: "dwnx_range list \<Rightarrow> nat \<Rightarrow> dwnx_range list" where
  "keys_remove ks i = take i ks @ drop (Suc i) ks"

definition keys_update :: "dwnx_range list \<Rightarrow> dwnx_range \<Rightarrow> dwnx_range \<Rightarrow> dwnx_range list res" where
  "keys_update ks old new =
     (let i = keys_search dwnx_ksl_range_compar ks old
      in assertr (i < length ks \<and> \<not> dwnx_ksl_range_compar (ks ! i) old \<and>
                  \<not> dwnx_ksl_range_compar old (ks ! i))
           (Ok (ks[i := new])))"

section \<open>The gap tracker\<close>

type_synonym dwnx_gaptr = "dwnx_range list"

definition dwnx_gaptr_init :: dwnx_gaptr where
  "dwnx_gaptr_init = []"

definition gaptr_gap_init :: "dwnx_mem \<times> dwnx_gaptr \<Rightarrow> (dwnx_mem \<times> dwnx_gaptr, unit) sres" where
  "gaptr_gap_init s =
     (let (mem, gap) = s
      in case keys_insert mem gap \<lparr>r_begin = 0, r_end = UINT64_MAX\<rparr> of
           (mem, Ok (gap, i)) \<Rightarrow> SOk () (mem, gap)
         | (mem, Err e) \<Rightarrow> SErr e (mem, gap)
         | (mem, Abort) \<Rightarrow> SAbort)"

text \<open>
  The loop of \<open>dwnx_gaptr_push\<close> with the iterator at position \<open>i\<close>. The fuel bounds the number of
  iterations; one more than the number of gaps is enough.
\<close>

fun gaptr_push_loop ::
    "nat \<Rightarrow> dwnx_range \<Rightarrow> dwnx_mem \<times> dwnx_gaptr \<Rightarrow> nat \<Rightarrow> (dwnx_mem \<times> dwnx_gaptr, unit) sres" where
  "gaptr_push_loop 0 q s i = SAbort"
| "gaptr_push_loop (Suc fuel) q (mem, gap) i =
     (if i = length gap then SOk () (mem, gap)
      else let k = gap ! i; m = dwnx_range_intersect q k
        in if dwnx_range_len m = 0 then SOk () (mem, gap)
           else if dwnx_range_eq k m then gaptr_push_loop fuel q (mem, keys_remove gap i) i
           else let (l, r) = dwnx_range_cut k m
             in if dwnx_range_len l \<noteq> 0 then
                  (case keys_update gap k l of
                     Ok gap \<Rightarrow>
                       if dwnx_range_len r \<noteq> 0 then
                         (case keys_insert mem gap r of
                            (mem, Ok (gap, i)) \<Rightarrow> gaptr_push_loop fuel q (mem, gap) (i + 1)
                          | (mem, Err e) \<Rightarrow> SErr e (mem, gap)
                          | (mem, Abort) \<Rightarrow> SAbort)
                       else gaptr_push_loop fuel q (mem, gap) (i + 1)
                   | _ \<Rightarrow> SAbort)
                else if dwnx_range_len r \<noteq> 0 then
                  (case keys_update gap k r of
                     Ok gap \<Rightarrow> gaptr_push_loop fuel q (mem, gap) (i + 1)
                   | _ \<Rightarrow> SAbort)
                else gaptr_push_loop fuel q (mem, gap) (i + 1))"

definition dwnx_gaptr_push ::
    "dwnx_mem \<times> dwnx_gaptr \<Rightarrow> u64 \<Rightarrow> u64 \<Rightarrow> (dwnx_mem \<times> dwnx_gaptr, unit) sres" where
  "dwnx_gaptr_push s offset datalen =
     (let q = \<lparr>r_begin = offset, r_end = offset + datalen\<rparr>
      in sbind (if length (snd s) = 0 then gaptr_gap_init s else SOk () s) (\<lambda>_ (mem, gap).
         gaptr_push_loop (length gap + 1) q (mem, gap)
           (keys_search dwnx_ksl_range_exclusive_compar gap q)))"

definition dwnx_gaptr_first_gap_offset :: "dwnx_gaptr \<Rightarrow> u64" where
  "dwnx_gaptr_first_gap_offset gap = (if length gap = 0 then 0 else r_begin (gap ! 0))"

definition dwnx_gaptr_get_first_gap_after :: "dwnx_gaptr \<Rightarrow> u64 \<Rightarrow> dwnx_range res" where
  "dwnx_gaptr_get_first_gap_after gap offset =
     (if length gap = 0 then Ok \<lparr>r_begin = 0, r_end = UINT64_MAX\<rparr>
      else let i = keys_search dwnx_ksl_range_exclusive_compar gap
                     \<lparr>r_begin = offset, r_end = offset + 1\<rparr>
        in assertr (i \<noteq> length gap) (Ok (gap ! i)))"

definition dwnx_gaptr_is_pushed :: "dwnx_gaptr \<Rightarrow> u64 \<Rightarrow> u64 \<Rightarrow> bool res" where
  "dwnx_gaptr_is_pushed gap offset datalen =
     (let q = \<lparr>r_begin = offset, r_end = offset + datalen\<rparr>
      in if length gap = 0 then Ok False
         else let i = keys_search dwnx_ksl_range_exclusive_compar gap q
           in assertr (i \<noteq> length gap) (Ok (dwnx_range_len (dwnx_range_intersect q (gap ! i)) = 0)))"

definition dwnx_gaptr_drop_first_gap :: "dwnx_gaptr \<Rightarrow> dwnx_gaptr" where
  "dwnx_gaptr_drop_first_gap gap = (if length gap = 0 then gap else keys_remove gap 0)"

section \<open>The stream ID tracker\<close>

type_synonym dwnx_idtr = dwnx_gaptr

definition dwnx_idtr_init :: dwnx_idtr where
  "dwnx_idtr_init = dwnx_gaptr_init"

definition id_from_stream_id :: "i64 \<Rightarrow> u64" where
  "id_from_stream_id stream_id = u64_of_i64 (stream_id div 4)"

definition dwnx_idtr_open ::
    "dwnx_mem \<times> dwnx_idtr \<Rightarrow> i64 \<Rightarrow> (dwnx_mem \<times> dwnx_idtr, unit) sres" where
  "dwnx_idtr_open s stream_id =
     (let q = id_from_stream_id stream_id
      in case dwnx_gaptr_is_pushed (snd s) q 1 of
           Ok True \<Rightarrow> SErr ERR_STREAM_IN_USE s
         | Ok False \<Rightarrow> dwnx_gaptr_push s q 1
         | _ \<Rightarrow> SAbort)"

definition dwnx_idtr_is_open :: "dwnx_idtr \<Rightarrow> i64 \<Rightarrow> bool res" where
  "dwnx_idtr_is_open idtr stream_id = dwnx_gaptr_is_pushed idtr (id_from_stream_id stream_id) 1"

section \<open>What the gaps mean\<close>

definition range_set :: "dwnx_range \<Rightarrow> u64 set" where
  "range_set r = {r_begin r ..< r_end r}"

text \<open>The gaps are non-empty and in order.\<close>

definition gaps_sorted :: "dwnx_gaptr \<Rightarrow> bool" where
  "gaps_sorted gap \<longleftrightarrow>
     sorted_wrt (\<lambda>a b. r_end a \<le> r_begin b) gap \<and> (\<forall>k \<in> set gap. r_begin k < r_end k)"

text \<open>What is left of a gap, as a list of at most two gaps, when \<open>q\<close> is taken out.\<close>

definition cut_gap :: "dwnx_range \<Rightarrow> dwnx_range \<Rightarrow> dwnx_range list" where
  "cut_gap q k =
     filter (\<lambda>r. r_begin r < r_end r)
       [\<lparr>r_begin = r_begin k, r_end = min (r_end k) (r_begin q)\<rparr>,
        \<lparr>r_begin = max (r_begin k) (r_end q), r_end = r_end k\<rparr>]"

lemma cut_gap_set: "\<Union> (range_set ` set (cut_gap q k)) = range_set k - range_set q"
  if "r_begin q < r_end q" for q k
  using that by (auto simp: cut_gap_def range_set_def)

lemma cut_gap_after: "r_begin k < r_end k \<Longrightarrow> r_begin q < r_end q \<Longrightarrow> r_end q \<le> r_begin k \<Longrightarrow> cut_gap q k = [k]"
  by (auto simp: cut_gap_def min_def max_def)

lemma cut_gap_before: "r_begin k < r_end k \<Longrightarrow> r_begin q < r_end q \<Longrightarrow> r_end k \<le> r_begin q \<Longrightarrow> cut_gap q k = [k]"
  by (auto simp: cut_gap_def min_def max_def)

lemma cut_gaps_id:
  "\<forall>k \<in> set ks. r_begin k < r_end k \<and> (r_end q \<le> r_begin k \<or> r_end k \<le> r_begin q) \<Longrightarrow>
     r_begin q < r_end q \<Longrightarrow> concat (map (cut_gap q) ks) = ks"
  by (induction ks) (auto simp: cut_gap_after cut_gap_before)

lemma keys_search_at:
  "\<forall>k \<in> set pre. compar k key \<Longrightarrow> suf = [] \<or> \<not> compar (hd suf) key \<Longrightarrow>
     keys_search compar (pre @ suf) key = length pre"
  by (cases suf) (auto simp: keys_search_def takeWhile_eq_all_conv [THEN iffD2])

lemma gaps_sorted_append:
  "gaps_sorted (a @ b) \<longleftrightarrow> gaps_sorted a \<and> gaps_sorted b \<and> (\<forall>x \<in> set a. \<forall>y \<in> set b. r_end x \<le> r_begin y)"
  by (auto simp: gaps_sorted_def sorted_wrt_append)

lemma gaps_sorted_Cons:
  "gaps_sorted (k # b) \<longleftrightarrow> r_begin k < r_end k \<and> gaps_sorted b \<and> (\<forall>y \<in> set b. r_end k \<le> r_begin y)"
  by (auto simp: gaps_sorted_def)

lemma gaps_sorted_pos: "gaps_sorted g \<Longrightarrow> k \<in> set g \<Longrightarrow> r_begin k < r_end k"
  by (simp add: gaps_sorted_def)

lemma gaps_sorted_before:
  "gaps_sorted (pre @ k # suf) \<Longrightarrow> x \<in> set pre \<Longrightarrow> r_begin x < r_begin k"
  using gaps_sorted_pos [of pre x] by (auto simp: gaps_sorted_append intro: less_le_trans)

lemma gaps_sorted_later:
  "gaps_sorted (pre @ k # suf) \<Longrightarrow> y \<in> set suf \<Longrightarrow> r_begin y < r_end y \<and> r_end k \<le> r_begin y"
  using gaps_sorted_pos [of suf y] by (auto simp: gaps_sorted_append gaps_sorted_Cons)

lemma range_len_0 [simp]: "dwnx_range_len r = 0 \<longleftrightarrow> r_begin r = r_end r"
  by (auto simp: dwnx_range_len_def)

lemma keys_update_at:
  assumes "gaps_sorted (pre @ k # suf)"
  shows "keys_update (pre @ k # suf) k l = Ok (pre @ l # suf)"
proof -
  have "\<forall>x \<in> set pre. dwnx_ksl_range_compar x k"
    using gaps_sorted_before [OF assms] by (simp add: dwnx_ksl_range_compar_def)
  then have "keys_search dwnx_ksl_range_compar (pre @ k # suf) k = length pre"
    by (intro keys_search_at) (auto simp: dwnx_ksl_range_compar_def)
  then show ?thesis
    by (simp add: keys_update_def dwnx_ksl_range_compar_def)
qed

lemma keys_insert_at:
  assumes "\<forall>k \<in> set pre. r_begin k < r_begin r" and "\<forall>k \<in> set suf. r_begin r < r_begin k"
  shows "keys_insert mem (pre @ suf) r =
    (if fst (mem_alloc mem) then (snd (mem_alloc mem), Ok (pre @ r # suf, length pre))
     else (snd (mem_alloc mem), Err ERR_NOMEM))"
proof -
  have "keys_search dwnx_ksl_range_compar (pre @ suf) r = length pre"
    using assms by (intro keys_search_at) (cases suf; auto simp: dwnx_ksl_range_compar_def)+
  moreover have "\<not> (length pre < length (pre @ suf) \<and> \<not> dwnx_ksl_range_compar r ((pre @ suf) ! length pre))"
    using assms(2) by (cases suf) (auto simp: dwnx_ksl_range_compar_def)
  ultimately show ?thesis
    by (cases "mem_alloc mem") (simp add: keys_insert_def Let_def)
qed


section \<open>The loop of a push\<close>

lemma push_loop_done:
  assumes "\<forall>k \<in> set suf. r_begin k < r_end k \<and> r_end q \<le> r_begin k" and "r_begin q < r_end q" and "0 < fuel"
  shows "gaptr_push_loop fuel q (mem, pre @ suf) (length pre) = SOk () (mem, pre @ suf)"
proof (cases suf)
  case Nil
  then show ?thesis using assms(3) by (cases fuel) simp_all
next
  case (Cons k suf')
  then have "dwnx_range_len (dwnx_range_intersect q k) = 0"
    using assms(1,2) by (auto simp: dwnx_range_intersect_def Let_def min_def max_def)
  then show ?thesis using assms(3) Cons by (cases fuel) (simp_all add: Let_def)
qed

definition push_result ::
    "dwnx_gaptr \<Rightarrow> (dwnx_mem \<times> dwnx_gaptr, unit) sres \<Rightarrow> bool" where
  "push_result gap r \<longleftrightarrow> (\<exists>mem'. r = SOk () (mem', gap)) \<or> (\<exists>s. r = SErr ERR_NOMEM s)"

lemma push_loop_cut:
  assumes "r_begin q < r_end q" and "gaps_sorted (pre @ suf)"
    and "\<forall>k \<in> set pre. r_end k \<le> r_begin q" and "\<forall>k \<in> set suf. r_begin q < r_end k"
    and "length suf < fuel"
  shows "push_result (pre @ concat (map (cut_gap q) suf)) (gaptr_push_loop fuel q (mem, pre @ suf) (length pre))"
  using assms(2-5)
proof (induction suf arbitrary: pre fuel mem)
  case Nil
  then show ?case
    using push_loop_done [of "[]" q fuel mem pre] assms(1) by (auto simp: push_result_def)
next
  case (Cons k suf)
  obtain fuel' where fuel: "fuel = Suc fuel'" and f': "length suf < fuel'"
    using Cons.prems(4) by (cases fuel) auto
  have k: "r_begin k < r_end k" "r_begin q < r_end k"
    and later: "\<forall>y \<in> set suf. r_begin y < r_end y \<and> r_end k \<le> r_begin y"
    using gaps_sorted_later [OF Cons.prems(1)] gaps_sorted_pos [OF Cons.prems(1)] Cons.prems(3) by simp_all
  let ?m = "dwnx_range_intersect q k"
  let ?l = "\<lparr>r_begin = r_begin k, r_end = r_begin ?m\<rparr>" and ?r = "\<lparr>r_begin = r_end ?m, r_end = r_end k\<rparr>"
  let ?run = "gaptr_push_loop fuel q (mem, pre @ k # suf) (length pre)"
  have pre_k: "\<forall>x \<in> set pre. r_begin x < r_begin k"
    using gaps_sorted_before [OF Cons.prems(1)] by blast
  show ?case
  proof (cases "r_end q \<le> r_begin k")
    case True
    then have "\<forall>y \<in> set (k # suf). r_begin y < r_end y \<and> r_end q \<le> r_begin y"
      using k later by (auto intro: order_trans less_imp_le)
    then show ?thesis
      using push_loop_done [of "k # suf" q fuel mem pre] cut_gaps_id [of "k # suf" q] assms(1) fuel
      by (auto simp: push_result_def)
  next
    case False
    then have lt: "max (r_begin q) (r_begin k) < min (r_end q) (r_end k)"
      using assms(1) k by (simp add: not_le)
    then have m: "r_begin ?m = max (r_begin q) (r_begin k)" "r_end ?m = min (r_end q) (r_end k)"
      by (simp_all add: dwnx_range_intersect_def dwnx_range_init_def)
    have ne: "dwnx_range_len ?m \<noteq> 0" unfolding range_len_0 m using lt by (rule less_imp_neq)
    have after: "\<forall>y \<in> set suf. r_begin y < r_end y \<and> r_end q \<le> r_begin y" if "r_end q < r_end k"
      using later that by (auto intro: order_trans less_imp_le)
    have rest: "concat (map (cut_gap q) suf) = suf" if "r_end q < r_end k"
      using cut_gaps_id [of suf q] after [OF that] assms(1) by blast
    consider (whole) "r_begin q \<le> r_begin k" "r_end k \<le> r_end q"
      | (left) "r_begin k < r_begin q" "r_end k \<le> r_end q"
      | (right) "r_begin q \<le> r_begin k" "r_end q < r_end k"
      | (both) "r_begin k < r_begin q" "r_end q < r_end k" by (meson not_le)
    then show ?thesis
    proof cases
      case whole
      then have "dwnx_range_eq k ?m" using m by (simp add: dwnx_range_eq_def max_def min_def)
      then have "?run = gaptr_push_loop fuel' q (mem, pre @ suf) (length pre)"
        using ne by (simp add: fuel Let_def keys_remove_def)
      moreover have "cut_gap q k = []"
        using whole by (auto simp: cut_gap_def min_def max_def)
      moreover have "gaps_sorted (pre @ suf)"
        using Cons.prems(1) by (auto simp: gaps_sorted_append gaps_sorted_Cons)
      ultimately show ?thesis
        using Cons.IH [of pre fuel' mem] Cons.prems(2,3) f' by simp
    next
      case left
      have neq: "\<not> dwnx_range_eq k ?m" and l: "dwnx_range_len ?l \<noteq> 0" and r: "dwnx_range_len ?r = 0"
        using left m by (auto simp: dwnx_range_eq_def max_def min_def)
      have ll: "?l = \<lparr>r_begin = r_begin k, r_end = r_begin q\<rparr>" using left m by (simp add: max_def not_le [symmetric])
      have "?run = gaptr_push_loop fuel' q (mem, (pre @ [?l]) @ suf) (length (pre @ [?l]))"
        using ne neq l r by (simp add: fuel Let_def dwnx_range_cut_def keys_update_at [OF Cons.prems(1)])
      moreover have "cut_gap q k = [?l]"
        using left m k by (auto simp: cut_gap_def min_def max_def not_le)
      moreover have "gaps_sorted ((pre @ [?l]) @ suf)"
        using Cons.prems(1) left k later unfolding ll
        by (fastforce simp: gaps_sorted_append gaps_sorted_Cons intro: order_trans less_imp_le)
      moreover have "\<forall>x \<in> set (pre @ [?l]). r_end x \<le> r_begin q"
        using Cons.prems(2) unfolding ll by auto
      ultimately show ?thesis
        using Cons.IH [of "pre @ [?l]" fuel' mem] Cons.prems(3) f' by simp
    next
      case right
      have neq: "\<not> dwnx_range_eq k ?m" and l: "dwnx_range_len ?l = 0" and r: "dwnx_range_len ?r \<noteq> 0"
        using right m by (auto simp: dwnx_range_eq_def max_def min_def)
      have "?run = gaptr_push_loop fuel' q (mem, (pre @ [?r]) @ suf) (length (pre @ [?r]))"
        using ne neq l r by (simp add: fuel Let_def dwnx_range_cut_def keys_update_at [OF Cons.prems(1)])
      moreover have "cut_gap q k = [?r]"
        using right m lt by (auto simp: cut_gap_def min_def max_def)
      ultimately show ?thesis
        using push_loop_done [of suf q fuel' mem "pre @ [?r]"] after rest right f' assms(1)
        by (auto simp: push_result_def)
    next
      case both
      have neq: "\<not> dwnx_range_eq k ?m" and l: "dwnx_range_len ?l \<noteq> 0" and r: "dwnx_range_len ?r \<noteq> 0"
        using both m by (auto simp: dwnx_range_eq_def max_def min_def)
      have le: "r_end ?m = r_end q" "r_begin ?m = r_begin q"
        using both unfolding m by (simp_all add: max.absorb1 min.absorb1 less_imp_le)
      have ins: "keys_insert mem ((pre @ [?l]) @ suf) ?r =
          (if fst (mem_alloc mem) then (snd (mem_alloc mem), Ok ((pre @ [?l]) @ ?r # suf, length (pre @ [?l])))
           else (snd (mem_alloc mem), Err ERR_NOMEM))"
      proof (rule keys_insert_at)
        show "\<forall>x \<in> set (pre @ [?l]). r_begin x < r_begin ?r"
          using pre_k both assms(1) le by (auto intro: less_trans)
        show "\<forall>x \<in> set suf. r_begin ?r < r_begin x"
          using later both le by (auto intro: less_le_trans)
      qed
      have run: "?run = (if fst (mem_alloc mem)
          then gaptr_push_loop fuel' q (snd (mem_alloc mem), (pre @ [?l, ?r]) @ suf) (length (pre @ [?l, ?r]))
          else SErr ERR_NOMEM (snd (mem_alloc mem), pre @ ?l # suf))"
        using ne neq l r ins
        by (simp add: fuel Let_def dwnx_range_cut_def keys_update_at [OF Cons.prems(1)])
      have "cut_gap q k = [?l, ?r]"
        using both le assms(1) by (auto simp: cut_gap_def min_def max_def not_le)
      then show ?thesis
        using run push_loop_done [of suf q fuel' "snd (mem_alloc mem)" "pre @ [?l, ?r]"] after rest both f' assms(1)
        by (auto simp: push_result_def)
    qed
  qed
qed


section \<open>The tracker as a set\<close>

text \<open>The offsets that have been pushed. A tracker without keys has not been used yet.\<close>

definition gap_set :: "dwnx_gaptr \<Rightarrow> u64 set" where
  "gap_set gap = \<Union> (range_set ` set gap)"

definition gaptr_abs :: "dwnx_gaptr \<Rightarrow> u64 set" where
  "gaptr_abs gap = (if gap = [] then {} else {..< UINT64_MAX} - gap_set gap)"

text \<open>The last gap is never used up: it ends at \<open>UINT64_MAX\<close>, which no push reaches.\<close>

definition gaptr_inv :: "dwnx_gaptr \<Rightarrow> bool" where
  "gaptr_inv gap \<longleftrightarrow> gap = [] \<or> gaps_sorted gap \<and> r_end (last gap) = UINT64_MAX"

lemma gaptr_init_inv [simp]: "gaptr_inv dwnx_gaptr_init" "gaptr_abs dwnx_gaptr_init = {}"
  by (simp_all add: gaptr_inv_def gaptr_abs_def dwnx_gaptr_init_def)

lemma gaps_sorted_tail_end:
  "gaps_sorted (a @ k # b) \<Longrightarrow> y \<in> set b \<Longrightarrow> r_end k < r_end y"
  using gaps_sorted_later by fastforce

text \<open>Where the search for a range stops: the gaps before end before it.\<close>

lemma exclusive_search_split:
  assumes "gaps_sorted gap" and "r_begin q < r_end q"
  obtains pre suf where "gap = pre @ suf" "keys_search dwnx_ksl_range_exclusive_compar gap q = length pre"
    "\<forall>k \<in> set pre. r_end k \<le> r_begin q" "\<forall>k \<in> set suf. r_begin q < r_end k"
proof -
  let ?P = "\<lambda>k. dwnx_ksl_range_exclusive_compar k q"
  have c: "?P k \<longleftrightarrow> r_end k \<le> r_begin q" if "r_begin k < r_end k" for k
    using that assms(2) by (auto simp: dwnx_ksl_range_exclusive_compar_def not_less max_def min_def split: if_splits)
  have "\<forall>k \<in> set (takeWhile ?P gap). r_end k \<le> r_begin q"
  proof
    fix k assume k: "k \<in> set (takeWhile ?P gap)"
    then show "r_end k \<le> r_begin q"
      using c gaps_sorted_pos [OF assms(1), of k] set_takeWhileD [OF k] by blast
  qed
  moreover have "\<forall>k \<in> set (dropWhile ?P gap). r_begin q < r_end k"
  proof (cases "dropWhile ?P gap")
    case (Cons x xs)
    then have g: "gap = takeWhile ?P gap @ x # xs" by (metis takeWhile_dropWhile_id)
    have "\<not> ?P x" using Cons hd_dropWhile [of ?P gap] by simp
    moreover have "r_begin x < r_end x" using g gaps_sorted_pos [OF assms(1)] by (metis in_set_conv_decomp)
    ultimately have x: "r_begin q < r_end x" using c by simp
    moreover have "r_begin q < r_end y" if "y \<in> set xs" for y
      using gaps_sorted_tail_end [of "takeWhile ?P gap" x xs y] assms(1) g x that by (metis less_trans)
    ultimately show ?thesis using Cons by simp
  next
    case Nil
    then show ?thesis by (metis empty_iff empty_set)
  qed
  ultimately show thesis
    by (intro that [of "takeWhile ?P gap" "dropWhile ?P gap"]) (simp_all add: keys_search_def)
qed

lemma cut_gaps_sorted:
  assumes "gaps_sorted gap" and "r_begin q < r_end q"
  shows "gaps_sorted (concat (map (cut_gap q) gap))"
  using assms(1)
proof (induction gap)
  case (Cons k gap)
  have one: "gaps_sorted (cut_gap q k)"
    using assms(2) by (auto simp: cut_gap_def gaps_sorted_def min_def max_def)
  have b: "r_begin k \<le> r_begin x \<and> r_end x \<le> r_end k" if "x \<in> set (cut_gap q k)" for x k
    using that by (auto simp: cut_gap_def split: if_splits)
  have "r_end x \<le> r_begin y" if "x \<in> set (cut_gap q k)" "y \<in> set (cut_gap q k')" "k' \<in> set gap" for x y k'
    using b [OF that(1)] b [OF that(2)] Cons.prems that(3) by (auto simp: gaps_sorted_Cons intro: order_trans)
  then show ?case
    using one Cons by (auto simp: gaps_sorted_append gaps_sorted_Cons)
qed (simp add: gaps_sorted_def)

lemma cut_gaps_set:
  "r_begin q < r_end q \<Longrightarrow> gap_set (concat (map (cut_gap q) gap)) = gap_set gap - range_set q"
  using cut_gap_set [of q] by (fastforce simp: gap_set_def)

lemma cut_gaps_last:
  assumes "gap \<noteq> []" and "gaps_sorted gap" and "r_begin q < r_end q" and "r_end q < r_end (last gap)"
  shows "concat (map (cut_gap q) gap) \<noteq> [] \<and> r_end (last (concat (map (cut_gap q) gap))) = r_end (last gap)"
proof -
  obtain a where g: "gap = a @ [last gap]" using assms(1) by (metis append_butlast_last_id)
  let ?k = "last gap"
  have "r_begin ?k < r_end ?k" using assms(1,2) by (simp add: gaps_sorted_pos)
  then have "cut_gap q ?k \<noteq> [] \<and> r_end (last (cut_gap q ?k)) = r_end ?k"
    using assms(4) by (auto simp: cut_gap_def)
  moreover have "concat (map (cut_gap q) gap) = concat (map (cut_gap q) a) @ cut_gap q ?k"
    by (subst g) simp
  ultimately show ?thesis by simp
qed

lemma gaptr_push_spec:
  assumes "gaptr_inv gap" and "offset < offset + datalen" and "offset + datalen < UINT64_MAX"
  shows "(\<exists>mem' gap'. dwnx_gaptr_push (mem, gap) offset datalen = SOk () (mem', gap') \<and> gaptr_inv gap' \<and> gap' \<noteq> [] \<and>
            gaptr_abs gap' = gaptr_abs gap \<union> {offset ..< offset + datalen}) \<or>
         (\<exists>s. dwnx_gaptr_push (mem, gap) offset datalen = SErr ERR_NOMEM s)"
proof -
  let ?q = "\<lparr>r_begin = offset, r_end = offset + datalen\<rparr>"
  have q: "r_begin ?q < r_end ?q" using assms(2) by simp
  have main: "(\<exists>mem' gap'. gaptr_push_loop (length g + 1) ?q (m, g)
          (keys_search dwnx_ksl_range_exclusive_compar g ?q) = SOk () (mem', gap') \<and> gaptr_inv gap' \<and> gap' \<noteq> [] \<and>
          gaptr_abs gap' = ({..< UINT64_MAX} - gap_set g) \<union> {offset ..< offset + datalen}) \<or>
       (\<exists>s. gaptr_push_loop (length g + 1) ?q (m, g)
          (keys_search dwnx_ksl_range_exclusive_compar g ?q) = SErr ERR_NOMEM s)"
    if g: "g \<noteq> []" "gaps_sorted g" "r_end (last g) = UINT64_MAX" for g m
  proof -
    obtain pre suf where s: "g = pre @ suf" "keys_search dwnx_ksl_range_exclusive_compar g ?q = length pre"
      "\<forall>k \<in> set pre. r_end k \<le> r_begin ?q" "\<forall>k \<in> set suf. r_begin ?q < r_end k"
      using exclusive_search_split [OF g(2) q] .
    have "push_result (pre @ concat (map (cut_gap ?q) suf)) (gaptr_push_loop (length g + 1) ?q (m, g) (length pre))"
      using push_loop_cut [OF q, of pre suf "length g + 1" m] s(1,3,4) g(2) by simp
    moreover have "concat (map (cut_gap ?q) pre) = pre"
    proof (rule cut_gaps_id)
      show "\<forall>k \<in> set pre. r_begin k < r_end k \<and> (r_end ?q \<le> r_begin k \<or> r_end k \<le> r_begin ?q)"
        using s(1,3) gaps_sorted_pos [OF g(2)] by simp
    qed (rule q)
    then have "pre @ concat (map (cut_gap ?q) suf) = concat (map (cut_gap ?q) g)"
      using s(1) by simp
    ultimately have r: "push_result (concat (map (cut_gap ?q) g)) (gaptr_push_loop (length g + 1) ?q (m, g) (length pre))"
      by simp
    have last: "concat (map (cut_gap ?q) g) \<noteq> []" "r_end (last (concat (map (cut_gap ?q) g))) = UINT64_MAX"
      using cut_gaps_last [OF g(1,2) q] g(3) assms(3) by auto
    have "gaptr_inv (concat (map (cut_gap ?q) g))"
      using last cut_gaps_sorted [OF g(2) q] by (simp add: gaptr_inv_def)
    moreover have "gaptr_abs (concat (map (cut_gap ?q) g)) = ({..< UINT64_MAX} - gap_set g) \<union> {offset ..< offset + datalen}"
      using last(1) cut_gaps_set [OF q, of g] assms(3) by (auto simp: gaptr_abs_def range_set_def intro: less_trans)
    ultimately show ?thesis
      using r last(1) s(2) unfolding push_result_def by metis
  qed
  show ?thesis
  proof (cases "gap = []")
    case False
    then show ?thesis
      using main [of gap mem] assms(1)
      by (simp add: dwnx_gaptr_push_def Let_def gaptr_inv_def gaptr_abs_def)
  next
    case True
    let ?all = "\<lparr>r_begin = 0, r_end = UINT64_MAX\<rparr> :: dwnx_range"
    have init: "gaptr_gap_init (mem, []) =
        (if fst (mem_alloc mem) then SOk () (snd (mem_alloc mem), [?all]) else SErr ERR_NOMEM (snd (mem_alloc mem), []))"
      using keys_insert_at [of "[]" ?all "[]" mem] by (simp add: gaptr_gap_init_def)
    have g: "gaps_sorted [?all]" "r_end (last [?all]) = UINT64_MAX"
      by (simp_all add: gaps_sorted_def UINT64_MAX_def)
    have "({..< UINT64_MAX} - gap_set [?all]) = gaptr_abs []"
      by (auto simp: gap_set_def range_set_def gaptr_abs_def)
    then show ?thesis
      using main [OF _ g, of "snd (mem_alloc mem)"] True init
      by (cases "fst (mem_alloc mem)") (simp_all add: dwnx_gaptr_push_def Let_def del: gaptr_push_loop.simps)
  qed
qed

lemma gaptr_is_pushed_spec:
  assumes "gaptr_inv gap" and "offset < offset + datalen" and "offset + datalen < UINT64_MAX"
  shows "dwnx_gaptr_is_pushed gap offset datalen = Ok ({offset ..< offset + datalen} \<subseteq> gaptr_abs gap)"
proof (cases "gap = []")
  case True
  then show ?thesis using assms(2) by (auto simp: dwnx_gaptr_is_pushed_def gaptr_abs_def)
next
  case False
  let ?q = "\<lparr>r_begin = offset, r_end = offset + datalen\<rparr>"
  have q: "r_begin ?q < r_end ?q" using assms(2) by simp
  have g: "gaps_sorted gap" "r_end (last gap) = UINT64_MAX" using assms(1) False by (auto simp: gaptr_inv_def)
  obtain pre suf where s: "gap = pre @ suf" "keys_search dwnx_ksl_range_exclusive_compar gap ?q = length pre"
    "\<forall>k \<in> set pre. r_end k \<le> r_begin ?q" "\<forall>k \<in> set suf. r_begin ?q < r_end k"
    using exclusive_search_split [OF g(1) q] .
  have "suf \<noteq> []"
  proof
    assume "suf = []"
    then have "last gap \<in> set pre" using False s(1) by (metis append_Nil2 last_in_set)
    then have "UINT64_MAX \<le> offset" using s(3) g(2) by auto
    then show False using assms(2,3) by (meson leD less_trans)
  qed
  then obtain k rest where k: "suf = k # rest" by (cases suf) auto
  have kp: "r_begin k < r_end k" "offset < r_end k"
    using gaps_sorted_pos [OF g(1)] s(1,4) k by auto
  have later: "\<forall>y \<in> set rest. r_end k \<le> r_begin y"
    using gaps_sorted_later g(1) s(1) k by blast
  have "dwnx_range_len (dwnx_range_intersect ?q k) = 0 \<longleftrightarrow> offset + datalen \<le> r_begin k"
    using assms(2) kp by (auto simp: dwnx_range_intersect_def dwnx_range_init_def Let_def max_def min_def not_le not_less)
  moreover have "{offset ..< offset + datalen} \<subseteq> gaptr_abs gap \<longleftrightarrow> offset + datalen \<le> r_begin k"
  proof
    assume sub: "{offset ..< offset + datalen} \<subseteq> gaptr_abs gap"
    show "offset + datalen \<le> r_begin k"
    proof (rule ccontr)
      assume "\<not> offset + datalen \<le> r_begin k"
      then have w: "max offset (r_begin k) \<in> {offset ..< offset + datalen}" "max offset (r_begin k) \<in> range_set k"
        using assms(2) kp by (auto simp: range_set_def not_le)
      have "k \<in> set gap" using s(1) k by simp
      then have "max offset (r_begin k) \<in> gap_set gap" using w(2) unfolding gap_set_def by blast
      moreover have "max offset (r_begin k) \<notin> gap_set gap"
        using subsetD [OF sub w(1)] False by (simp add: gaptr_abs_def)
      ultimately show False by simp
    qed
  next
    assume le: "offset + datalen \<le> r_begin k"
    show "{offset ..< offset + datalen} \<subseteq> gaptr_abs gap"
    proof
      fix x assume x: "x \<in> {offset ..< offset + datalen}"
      have "x \<notin> range_set y" if "y \<in> set gap" for y
      proof -
        consider "y \<in> set pre" | "y = k" | "y \<in> set rest" using \<open>y \<in> set gap\<close> s(1) k by auto
        then show ?thesis
        proof cases
          case 1
          then have "r_end y \<le> x" using s(3) x by (auto intro: order_trans)
          then show ?thesis by (simp add: range_set_def not_less)
        next
          case 2
          then show ?thesis using x le by (auto simp: range_set_def)
        next
          case 3
          then have "r_begin k < r_begin y" using later kp(1) by (auto intro: less_le_trans)
          then show ?thesis using x le by (auto simp: range_set_def)
        qed
      qed
      then show "x \<in> gaptr_abs gap"
        using x assms(3) False by (auto simp: gaptr_abs_def gap_set_def intro: less_trans)
    qed
  qed
  ultimately show ?thesis
    using False s(1,2) k by (simp add: dwnx_gaptr_is_pushed_def Let_def nth_append)
qed

section \<open>Stream IDs\<close>

lemma id_from_stream_id_small:
  assumes "stream_id < 2 ^ 62" and "0 \<le> stream_id"
  shows "unat (id_from_stream_id stream_id) = nat (stream_id div 4)"
    and "id_from_stream_id stream_id < id_from_stream_id stream_id + 1"
    and "id_from_stream_id stream_id + 1 < UINT64_MAX"
proof -
  have l: "nat (stream_id div 4) < 2 ^ 60" using assms by (simp add: nat_less_iff)
  show u: "unat (id_from_stream_id stream_id) = nat (stream_id div 4)"
    using l assms by (simp add: id_from_stream_id_def u64_of_i64_def unsigned_of_int take_bit_int_eq_self unat_eq_nat_uint nat_less_iff)
  then show "id_from_stream_id stream_id < id_from_stream_id stream_id + 1"
    "id_from_stream_id stream_id + 1 < UINT64_MAX"
    using l by (simp_all add: word_less_nat_alt unat_word_ariths UINT64_MAX_def)
qed

lemma interval_one:
  assumes "(x :: u64) < x + 1"
  shows "{x ..< x + 1} = {x}"
proof -
  have "unat (x + 1) = Suc (unat x)"
    using assms by (cases "unat x + 1 < 2 ^ 64") (simp_all add: word_less_nat_alt unat_word_ariths mod_less)
  then have "y = x" if "x \<le> y" "y < x + 1" for y
    using that by (simp add: word_less_nat_alt word_le_nat_alt word_unat_eq_iff)
  then show ?thesis using assms by auto
qed

text \<open>The IDs that have been opened.\<close>

definition idtr_abs :: "dwnx_idtr \<Rightarrow> u64 set" where
  "idtr_abs idtr = gaptr_abs idtr"

lemma idtr_is_open_spec:
  assumes "gaptr_inv idtr" and "0 \<le> stream_id" and "stream_id < 2 ^ 62"
  shows "dwnx_idtr_is_open idtr stream_id = Ok (id_from_stream_id stream_id \<in> gaptr_abs idtr)"
  using gaptr_is_pushed_spec [OF assms(1)] id_from_stream_id_small [OF assms(3,2)]
  by (simp add: dwnx_idtr_is_open_def interval_one)

lemma idtr_open_spec:
  assumes "gaptr_inv idtr" and "0 \<le> stream_id" and "stream_id < 2 ^ 62"
  shows "(id_from_stream_id stream_id \<in> gaptr_abs idtr \<and>
            dwnx_idtr_open (mem, idtr) stream_id = SErr ERR_STREAM_IN_USE (mem, idtr)) \<or>
         (id_from_stream_id stream_id \<notin> gaptr_abs idtr \<and>
           ((\<exists>mem' idtr'. dwnx_idtr_open (mem, idtr) stream_id = SOk () (mem', idtr') \<and> gaptr_inv idtr' \<and>
               gaptr_abs idtr' = insert (id_from_stream_id stream_id) (gaptr_abs idtr)) \<or>
            (\<exists>s. dwnx_idtr_open (mem, idtr) stream_id = SErr ERR_NOMEM s)))"
proof -
  let ?q = "id_from_stream_id stream_id"
  note q = id_from_stream_id_small [OF assms(3,2)]
  have p: "dwnx_gaptr_is_pushed idtr ?q 1 = Ok (?q \<in> gaptr_abs idtr)"
    using gaptr_is_pushed_spec [OF assms(1) q(2,3)] q(2) by (simp add: interval_one)
  show ?thesis
  proof (cases "?q \<in> gaptr_abs idtr")
    case True
    then show ?thesis using p by (simp add: dwnx_idtr_open_def)
  next
    case False
    then show ?thesis
      using p gaptr_push_spec [OF assms(1) q(2,3), of mem] q(2)
      by (auto simp: dwnx_idtr_open_def interval_one)
  qed
qed

section \<open>Properties\<close>



text \<open>C33: A stream ID is opened at most once: after it has been opened, opening it again is the
  error for an ID in use and the tracker stays as it is, while any other ID is open after it if and only
  if it was before.\<close>

theorem idtr_open_once:
  assumes "gaptr_inv idtr" and "0 \<le> sid" and "sid < 2 ^ 62"
    and "dwnx_idtr_open (mem, idtr) sid = SOk () (mem', idtr')"
  shows "dwnx_idtr_is_open idtr sid = Ok False \<and>
    dwnx_idtr_open (mem', idtr') sid = SErr ERR_STREAM_IN_USE (mem', idtr') \<and>
    (\<forall>other. 0 \<le> other \<and> other < 2 ^ 62 \<and> other div 4 \<noteq> sid div 4 \<longrightarrow>
       dwnx_idtr_is_open idtr' other = dwnx_idtr_is_open idtr other)"
proof -
  have inv: "gaptr_inv idtr'" and abs: "gaptr_abs idtr' = insert (id_from_stream_id sid) (gaptr_abs idtr)"
    and new: "id_from_stream_id sid \<notin> gaptr_abs idtr"
    using idtr_open_spec [OF assms(1-3), of mem] assms(4) by auto
  have "id_from_stream_id other \<noteq> id_from_stream_id sid"
    if "0 \<le> other" "other < 2 ^ 62" "other div 4 \<noteq> sid div 4" for other
    using that assms(2,3) id_from_stream_id_small(1) [of other] id_from_stream_id_small(1) [of sid]
    by (metis div_pos_pos_trivial eq_nat_nat_iff pos_imp_zdiv_nonneg_iff zero_less_numeral)
  then show ?thesis
    using new abs idtr_is_open_spec [OF assms(1)] idtr_is_open_spec [OF inv]
      idtr_open_spec [OF inv assms(2,3), of mem'] assms(2,3) by auto
qed

theorem idtr_open_once_witness:
  "\<exists>mem' idtr'. dwnx_idtr_open ([], dwnx_idtr_init) 8 = SOk () (mem', idtr') \<and>
     dwnx_idtr_open (mem', idtr') 8 = SErr ERR_STREAM_IN_USE (mem', idtr')"
proof -
  have inv: "gaptr_inv dwnx_idtr_init" by (simp add: dwnx_idtr_init_def)
  have "dwnx_idtr_open ([], dwnx_idtr_init) 8 =
      SOk () ([], [\<lparr>r_begin = 0, r_end = 2\<rparr>, \<lparr>r_begin = 3, r_end = UINT64_MAX\<rparr>])"
    by code_simp
  from idtr_open_once [OF inv _ _ this] this show ?thesis by auto
qed

end
