(* ===== verification/Ksl.thy ===== *)
theory Ksl
  imports Prelude
begin

text \<open>
  \<open>lib/dwnx_ksl.h\<close> and \<open>lib/dwnx_ksl.c\<close>: the ordered map, a paged skip list. Its blocks form a tree in
  which all leaves have the same depth; a leaf holds keys and data, an inner block the blocks below
  it, each under a key that is not ordered before any key in that block. The key above a block may be
  out of date: removing the last element of a leaf does not change the keys above it.

  A block is modelled with the blocks below it, so the tree is a value; the list of the leaves that
  \<open>next\<close> and \<open>prev\<close> link is the leaves of the tree from left to right, and \<open>front\<close> and \<open>back\<close> are its
  ends (\<open>next\<close> and \<open>prev\<close> of inner blocks are never followed). An iterator is the number of a leaf and
  an index in it. The code goes down the tree in a loop that never returns to a block; here it is
  recursion on the block.
\<close>

section \<open>Blocks\<close>

definition DWNX_KSL_DEGR :: nat where
  "DWNX_KSL_DEGR = 16"

definition DWNX_KSL_MAX_NBLK :: nat where
  "DWNX_KSL_MAX_NBLK = 2 * DWNX_KSL_DEGR"

definition DWNX_KSL_MIN_NBLK :: nat where
  "DWNX_KSL_MIN_NBLK = DWNX_KSL_DEGR"

datatype ('k, 'd) dwnx_ksl_blk =
    Ksl_leaf "('k \<times> 'd) list"
  | Ksl_inner "('k \<times> ('k, 'd) dwnx_ksl_blk) list"

type_synonym ('k, 'd) ksl_nodes = "('k \<times> ('k, 'd) dwnx_ksl_blk) list"

fun blk_keys :: "('k, 'd) dwnx_ksl_blk \<Rightarrow> 'k list" where
  "blk_keys (Ksl_leaf es) = map fst es"
| "blk_keys (Ksl_inner es) = map fst es"

fun blk_leaf :: "('k, 'd) dwnx_ksl_blk \<Rightarrow> bool" where
  "blk_leaf (Ksl_leaf es) = True"
| "blk_leaf (Ksl_inner es) = False"

abbreviation blk_n :: "('k, 'd) dwnx_ksl_blk \<Rightarrow> nat" where
  "blk_n blk \<equiv> length (blk_keys blk)"

definition dwnx_ksl_blk_nth_key :: "('k, 'd) dwnx_ksl_blk \<Rightarrow> nat \<Rightarrow> 'k" where
  "dwnx_ksl_blk_nth_key blk n = blk_keys blk ! n"

abbreviation blk_last_key :: "('k, 'd) dwnx_ksl_blk \<Rightarrow> 'k" where
  "blk_last_key blk \<equiv> dwnx_ksl_blk_nth_key blk (blk_n blk - 1)"

text \<open>The leaves below a block, from left to right.\<close>

fun ksl_leaves :: "('k, 'd) dwnx_ksl_blk \<Rightarrow> ('k \<times> 'd) list list" where
  "ksl_leaves (Ksl_leaf es) = [es]"
| "ksl_leaves (Ksl_inner es) = concat (map (\<lambda>e. ksl_leaves (snd e)) es)"

abbreviation nodes_leaves :: "('k, 'd) ksl_nodes \<Rightarrow> ('k \<times> 'd) list list" where
  "nodes_leaves es \<equiv> concat (map (\<lambda>e. ksl_leaves (snd e)) es)"

text \<open>Copies of the first entries of a block, of its last ones, and of two blocks of the same kind.\<close>

fun blk_take :: "nat \<Rightarrow> ('k, 'd) dwnx_ksl_blk \<Rightarrow> ('k, 'd) dwnx_ksl_blk" where
  "blk_take n (Ksl_leaf es) = Ksl_leaf (take n es)"
| "blk_take n (Ksl_inner es) = Ksl_inner (take n es)"

fun blk_drop :: "nat \<Rightarrow> ('k, 'd) dwnx_ksl_blk \<Rightarrow> ('k, 'd) dwnx_ksl_blk" where
  "blk_drop n (Ksl_leaf es) = Ksl_leaf (drop n es)"
| "blk_drop n (Ksl_inner es) = Ksl_inner (drop n es)"

fun blk_append :: "('k, 'd) dwnx_ksl_blk \<Rightarrow> ('k, 'd) dwnx_ksl_blk \<Rightarrow> ('k, 'd) dwnx_ksl_blk res" where
  "blk_append (Ksl_leaf as) (Ksl_leaf bs) = Ok (Ksl_leaf (as @ bs))"
| "blk_append (Ksl_inner as) (Ksl_inner bs) = Ok (Ksl_inner (as @ bs))"
| "blk_append _ _ = Abort"

section \<open>The map and its iterators\<close>

record ('k, 'd) dwnx_ksl =
  ksl_root :: "('k, 'd) dwnx_ksl_blk option"
  ksl_compar :: "'k \<Rightarrow> 'k \<Rightarrow> bool"
  ksl_search :: "'k list \<Rightarrow> 'k \<Rightarrow> nat"
  ksl_n :: nat
  ksl_keylen :: nat
  ksl_aligned_keylen :: nat

record dwnx_ksl_it =
  it_blk :: nat
  it_i :: nat

definition dwnx_ksl_it_init :: "nat \<Rightarrow> nat \<Rightarrow> dwnx_ksl_it" where
  "dwnx_ksl_it_init blk i = \<lparr>it_blk = blk, it_i = i\<rparr>"

text \<open>All leaves; without a root there is the empty \<open>null_blk\<close>.\<close>

definition all_leaves :: "('k, 'd) dwnx_ksl \<Rightarrow> ('k \<times> 'd) list list" where
  "all_leaves ksl = (case ksl_root ksl of None \<Rightarrow> [[]] | Some blk \<Rightarrow> ksl_leaves blk)"

definition dwnx_ksl_init ::
    "('k \<Rightarrow> 'k \<Rightarrow> bool) \<Rightarrow> ('k list \<Rightarrow> 'k \<Rightarrow> nat) \<Rightarrow> nat \<Rightarrow> ('k, 'd) dwnx_ksl res" where
  "dwnx_ksl_init compar search keylen =
     assertr (8 \<le> keylen)
       (let aligned_keylen = (keylen + 7) div 8 * 8
        in assertr (aligned_keylen \<le> 65535)
             (Ok \<lparr>ksl_root = None, ksl_compar = compar, ksl_search = search, ksl_n = 0,
                  ksl_keylen = keylen, ksl_aligned_keylen = aligned_keylen\<rparr>))"

text \<open>The loop of \<open>dwnx_ksl_search_def\<close>.\<close>

fun ksl_search_def :: "('k \<Rightarrow> 'k \<Rightarrow> bool) \<Rightarrow> 'k list \<Rightarrow> 'k \<Rightarrow> nat" where
  "ksl_search_def compar [] key = 0"
| "ksl_search_def compar (k # ks) key = (if compar k key then Suc (ksl_search_def compar ks key) else 0)"

definition key_equal :: "('k \<Rightarrow> 'k \<Rightarrow> bool) \<Rightarrow> 'k \<Rightarrow> 'k \<Rightarrow> bool" where
  "key_equal compar lhs rhs \<longleftrightarrow> \<not> compar lhs rhs \<and> \<not> compar rhs lhs"

definition dwnx_ksl_len :: "('k, 'd) dwnx_ksl \<Rightarrow> nat" where
  "dwnx_ksl_len ksl = ksl_n ksl"

definition dwnx_ksl_clear :: "('k, 'd) dwnx_ksl \<Rightarrow> ('k, 'd) dwnx_ksl" where
  "dwnx_ksl_clear ksl = (case ksl_root ksl of None \<Rightarrow> ksl | Some blk \<Rightarrow> ksl\<lparr>ksl_root := None, ksl_n := 0\<rparr>)"

definition dwnx_ksl_begin :: "('k, 'd) dwnx_ksl \<Rightarrow> dwnx_ksl_it" where
  "dwnx_ksl_begin ksl = dwnx_ksl_it_init 0 0"

definition dwnx_ksl_end :: "('k, 'd) dwnx_ksl \<Rightarrow> dwnx_ksl_it" where
  "dwnx_ksl_end ksl = dwnx_ksl_it_init (length (all_leaves ksl) - 1) (length (last (all_leaves ksl)))"

text \<open>\<open>if (i == blk->n && blk->next)\<close>: to the first element of the next leaf.\<close>

definition it_settle :: "('k \<times> 'd) list list \<Rightarrow> dwnx_ksl_it \<Rightarrow> dwnx_ksl_it" where
  "it_settle ls it =
     (if it_i it = length (ls ! it_blk it) \<and> it_blk it + 1 < length ls then dwnx_ksl_it_init (it_blk it + 1) 0 else it)"

definition dwnx_ksl_it_next :: "('k, 'd) dwnx_ksl \<Rightarrow> dwnx_ksl_it \<Rightarrow> dwnx_ksl_it" where
  "dwnx_ksl_it_next ksl it = it_settle (all_leaves ksl) (it\<lparr>it_i := it_i it + 1\<rparr>)"

definition dwnx_ksl_it_begin :: "dwnx_ksl_it \<Rightarrow> bool" where
  "dwnx_ksl_it_begin it \<longleftrightarrow> it_i it = 0 \<and> it_blk it = 0"

definition dwnx_ksl_it_prev :: "('k, 'd) dwnx_ksl \<Rightarrow> dwnx_ksl_it \<Rightarrow> dwnx_ksl_it res" where
  "dwnx_ksl_it_prev ksl it =
     assertr (\<not> dwnx_ksl_it_begin it)
       (Ok (if it_i it = 0 then dwnx_ksl_it_init (it_blk it - 1) (length (all_leaves ksl ! (it_blk it - 1)) - 1)
            else it\<lparr>it_i := it_i it - 1\<rparr>))"

definition dwnx_ksl_it_end :: "('k, 'd) dwnx_ksl \<Rightarrow> dwnx_ksl_it \<Rightarrow> bool" where
  "dwnx_ksl_it_end ksl it \<longleftrightarrow>
     length (all_leaves ksl ! it_blk it) = it_i it \<and> it_blk it + 1 = length (all_leaves ksl)"

definition dwnx_ksl_it_get :: "('k, 'd) dwnx_ksl \<Rightarrow> dwnx_ksl_it \<Rightarrow> 'd" where
  "dwnx_ksl_it_get ksl it = snd (all_leaves ksl ! it_blk it ! it_i it)"

definition dwnx_ksl_it_key :: "('k, 'd) dwnx_ksl \<Rightarrow> dwnx_ksl_it \<Rightarrow> 'k" where
  "dwnx_ksl_it_key ksl it = fst (all_leaves ksl ! it_blk it ! it_i it)"

section \<open>Insertion\<close>

text \<open>The new block is always the right one.\<close>

definition ksl_split_blk ::
    "dwnx_mem \<Rightarrow> ('k, 'd) dwnx_ksl_blk \<Rightarrow> (dwnx_mem, ('k, 'd) dwnx_ksl_blk \<times> ('k, 'd) dwnx_ksl_blk) sres" where
  "ksl_split_blk mem blk =
     (let (ok, mem) = mem_alloc mem
      in if \<not> ok then SErr ERR_NOMEM mem
         else let rn = blk_n blk div 2; ln = blk_n blk - rn
           in sassert (DWNX_KSL_MIN_NBLK \<le> ln) (sassert (DWNX_KSL_MIN_NBLK \<le> rn)
                (SOk (blk_take ln blk, blk_drop ln blk) mem)))"

definition ksl_split_node :: "dwnx_mem \<Rightarrow> ('k, 'd) ksl_nodes \<Rightarrow> nat \<Rightarrow> (dwnx_mem, ('k, 'd) ksl_nodes) sres" where
  "ksl_split_node mem es i =
     sbind (ksl_split_blk mem (snd (es ! i))) (\<lambda>(lblk, rblk) mem.
       SOk (take i es @ (blk_last_key lblk, lblk) # (fst (es ! i), rblk) # drop (i + 1) es) mem)"

definition ksl_split_root :: "dwnx_mem \<Rightarrow> ('k, 'd) dwnx_ksl_blk \<Rightarrow> (dwnx_mem, ('k, 'd) dwnx_ksl_blk) sres" where
  "ksl_split_root mem root =
     (let (ok, mem) = mem_alloc mem
      in if \<not> ok then SErr ERR_NOMEM mem
         else sbind (ksl_split_blk mem root) (\<lambda>(lblk, rblk) mem.
           SOk (Ksl_inner [(blk_last_key lblk, lblk), (blk_last_key rblk, rblk)]) mem))"

definition ksl_insert_node :: "('k \<times> 'd) list \<Rightarrow> nat \<Rightarrow> 'k \<Rightarrow> 'd \<Rightarrow> ('k \<times> 'd) list res" where
  "ksl_insert_node es i key data =
     assertr (length es < DWNX_KSL_MAX_NBLK) (Ok (take i es @ (key, data) # drop i es))"

text \<open>The run of an operation below the node \<open>i\<close>, as a run on the block that has the nodes \<open>es\<close>.\<close>

fun in_node ::
    "('k, 'd) ksl_nodes \<Rightarrow> nat \<Rightarrow> (dwnx_mem \<times> ('k, 'd) dwnx_ksl_blk, dwnx_ksl_it) sres \<Rightarrow>
     (dwnx_mem \<times> ('k, 'd) dwnx_ksl_blk, dwnx_ksl_it) sres" where
  "in_node es i (SOk it (mem, blk)) =
     SOk (it\<lparr>it_blk := length (nodes_leaves (take i es)) + it_blk it\<rparr>) (mem, Ksl_inner (es[i := (fst (es ! i), blk)]))"
| "in_node es i (SErr e (mem, blk)) = SErr e (mem, Ksl_inner (es[i := (fst (es ! i), blk)]))"
| "in_node es i SAbort = SAbort"

definition split_full_node :: "dwnx_mem \<Rightarrow> ('k, 'd) ksl_nodes \<Rightarrow> nat \<Rightarrow> (dwnx_mem, ('k, 'd) ksl_nodes) sres" where
  "split_full_node mem es i =
     (if blk_n (snd (es ! i)) = DWNX_KSL_MAX_NBLK then ksl_split_node mem es i else SOk es mem)"

text \<open>The recursion ends: every step goes to a smaller block.\<close>

lemma size_list_take: "size_list f (take n xs) \<le> size_list f xs"
  by (induction xs arbitrary: n) (auto simp: take_Cons le_SucI split: nat.split)

lemma size_list_drop: "size_list f (drop n xs) \<le> size_list f xs"
  by (induction xs arbitrary: n) (auto simp: drop_Cons le_SucI trans_le_add2 split: nat.split)

lemma size_entry: "e \<in> set es \<Longrightarrow> size (snd e) < size (Ksl_inner es)"
  by (cases e) (auto intro!: less_SucI size_list_estimation)

lemma size_node: "i < length es \<Longrightarrow> size (snd (es ! i)) < size (Ksl_inner es)"
  by (rule size_entry) simp

lemma size_take: "size (blk_take n blk) \<le> size blk"
  by (cases blk) (simp_all add: size_list_take)

lemma size_drop: "size (blk_drop n blk) \<le> size blk"
  by (cases blk) (simp_all add: size_list_drop)

lemma split_full_node_SOk:
  assumes "split_full_node mem es i = SOk es' mem'"
  shows "es' = es \<or> (\<exists>k n. es' = take i es @ (k, blk_take n (snd (es ! i))) # (fst (es ! i), blk_drop n (snd (es ! i))) # drop (i + 1) es)"
  using assms
  by (fastforce simp: split_full_node_def ksl_split_node_def ksl_split_blk_def sbind_eq_SOk Let_def sassert_def
      split: if_splits prod.splits)

lemma split_full_node_size:
  assumes "split_full_node mem es i = SOk es' mem'" and "i < length es" and "j < length es'"
  shows "size (snd (es' ! j)) < size (Ksl_inner es)"
proof -
  have i: "size (snd (es ! i)) < size (Ksl_inner es)" by (rule size_node [OF assms(2)])
  have old: "size (snd e) < size (Ksl_inner es)" if "e \<in> set es" for e by (rule size_entry [OF that])
  have "size (snd e) < size (Ksl_inner es)" if "e \<in> set es'" for e
    using split_full_node_SOk [OF assms(1)] that
  proof (elim disjE exE)
    fix k n
    assume "es' = take i es @ (k, blk_take n (snd (es ! i))) # (fst (es ! i), blk_drop n (snd (es ! i))) # drop (i + 1) es"
    then show ?thesis
      using that le_less_trans [OF size_take i] le_less_trans [OF size_drop i]
      by (auto simp del: dwnx_ksl_blk.size dest!: in_set_takeD in_set_dropD intro: old)
  qed (use old in simp)
  then show ?thesis using assms(3) by simp
qed

lemma split_full_node_length: "split_full_node mem es i = SOk es' mem' \<Longrightarrow> i < length es \<Longrightarrow> length es \<le> length es'"
  by (drule split_full_node_SOk) auto

lemma split_full_node_last:
  "split_full_node mem es (length es - Suc 0) = SOk es' mem' \<Longrightarrow> es \<noteq> [] \<Longrightarrow>
     size (snd (es' ! (length es' - Suc 0))) < size (Ksl_inner es)"
  using split_full_node_length [of mem es "length es - Suc 0" es' mem']
  by (intro split_full_node_size) (cases es'; simp)+

text \<open>\<open>for (; !blk->leaf;)\<close>: along the last blocks, whose keys become \<open>key\<close>.\<close>

function ksl_insert_last ::
    "dwnx_mem \<Rightarrow> ('k, 'd) dwnx_ksl_blk \<Rightarrow> 'k \<Rightarrow> 'd \<Rightarrow> (dwnx_mem \<times> ('k, 'd) dwnx_ksl_blk, dwnx_ksl_it) sres" where
  "ksl_insert_last mem (Ksl_leaf es) key data =
     (case ksl_insert_node es (length es) key data of
        Ok es' \<Rightarrow> SOk (dwnx_ksl_it_init 0 (length es)) (mem, Ksl_leaf es')
      | _ \<Rightarrow> SAbort)"
| "ksl_insert_last mem (Ksl_inner es) key data =
     (if es = [] then SAbort
      else case split_full_node mem es (length es - 1) of
             SAbort \<Rightarrow> SAbort
           | SErr e mem \<Rightarrow> SErr e (mem, Ksl_inner es)
           | SOk es' mem \<Rightarrow>
               let i = length es' - 1; es'' = es'[i := (key, snd (es' ! i))]
               in in_node es'' i (ksl_insert_last mem (snd (es' ! i)) key data))"
  by pat_completeness auto
termination
  by (relation "measure (\<lambda>(mem, blk, key, data). size blk)")
    (auto simp del: dwnx_ksl_blk.size intro: split_full_node_last)

function ksl_insert_loop ::
    "('k \<Rightarrow> 'k \<Rightarrow> bool) \<Rightarrow> ('k list \<Rightarrow> 'k \<Rightarrow> nat) \<Rightarrow> dwnx_mem \<Rightarrow> ('k, 'd) dwnx_ksl_blk \<Rightarrow> 'k \<Rightarrow> 'd \<Rightarrow>
     (dwnx_mem \<times> ('k, 'd) dwnx_ksl_blk, dwnx_ksl_it) sres" where
  "ksl_insert_loop compar search mem (Ksl_leaf es) key data =
     (let i = search (map fst es) key
      in if i < length es \<and> \<not> compar key (fst (es ! i)) then SErr ERR_INVALID_ARGUMENT (mem, Ksl_leaf es)
         else case ksl_insert_node es i key data of
                Ok es' \<Rightarrow> SOk (dwnx_ksl_it_init 0 i) (mem, Ksl_leaf es')
              | _ \<Rightarrow> SAbort)"
| "ksl_insert_loop compar search mem (Ksl_inner es) key data =
     (let i = search (map fst es) key
      in if i = length es then ksl_insert_last mem (Ksl_inner es) key data
         else if length es < i then SAbort
         else case split_full_node mem es i of
                SAbort \<Rightarrow> SAbort
              | SErr e mem \<Rightarrow> SErr e (mem, Ksl_inner es)
              | SOk es' mem \<Rightarrow>
                  let j = (if blk_n (snd (es ! i)) = DWNX_KSL_MAX_NBLK \<and> compar (fst (es' ! i)) key then i + 1 else i)
                  in if length es' \<le> j then SAbort
                     else in_node es' j (ksl_insert_loop compar search mem (snd (es' ! j)) key data))"
  by pat_completeness auto
termination
  by (relation "measure (\<lambda>(compar, search, mem, blk, key, data). size blk)")
    (auto simp del: dwnx_ksl_blk.size simp: not_le intro: split_full_node_size)

definition ksl_root_init :: "dwnx_mem \<Rightarrow> (dwnx_mem, ('k, 'd) dwnx_ksl_blk) sres" where
  "ksl_root_init mem =
     (let (ok, mem) = mem_alloc mem in if ok then SOk (Ksl_leaf []) mem else SErr ERR_NOMEM mem)"

text \<open>The argument and the result \<open>it\<close> is what the pointer of that name refers to, if it is not null.\<close>

definition dwnx_ksl_insert ::
    "dwnx_mem \<times> ('k, 'd) dwnx_ksl \<times> dwnx_ksl_it \<Rightarrow> 'k \<Rightarrow> 'd \<Rightarrow> (dwnx_mem \<times> ('k, 'd) dwnx_ksl \<times> dwnx_ksl_it, unit) sres" where
  "dwnx_ksl_insert s key data =
     (let (mem, ksl, it) = s
      in case (case ksl_root ksl of None \<Rightarrow> ksl_root_init mem | Some root \<Rightarrow> SOk root mem) of
           SAbort \<Rightarrow> SAbort
         | SErr e mem \<Rightarrow> SErr e (mem, ksl, it)
         | SOk root mem \<Rightarrow>
             (case (if blk_n root = DWNX_KSL_MAX_NBLK then ksl_split_root mem root else SOk root mem) of
                SAbort \<Rightarrow> SAbort
              | SErr e mem \<Rightarrow> SErr e (mem, ksl\<lparr>ksl_root := Some root\<rparr>, it)
              | SOk root mem \<Rightarrow>
                  (case ksl_insert_loop (ksl_compar ksl) (ksl_search ksl) mem root key data of
                     SAbort \<Rightarrow> SAbort
                   | SErr e (mem, root) \<Rightarrow>
                       let ksl = ksl\<lparr>ksl_root := Some root\<rparr>
                       in SErr e (mem, ksl, if e = ERR_INVALID_ARGUMENT then dwnx_ksl_end ksl else it)
                   | SOk it (mem, root) \<Rightarrow> SOk () (mem, ksl\<lparr>ksl_root := Some root, ksl_n := ksl_n ksl + 1\<rparr>, it))))"

section \<open>Removal\<close>

definition ksl_remove_node :: "('k \<times> 'e) list \<Rightarrow> nat \<Rightarrow> ('k \<times> 'e) list" where
  "ksl_remove_node es i = take i es @ drop (i + 1) es"

text \<open>The merged block, and the nodes of the block above; no nodes when the merged block becomes the
  root.\<close>

definition ksl_merge_node ::
    "bool \<Rightarrow> ('k, 'd) ksl_nodes \<Rightarrow> nat \<Rightarrow> (('k, 'd) ksl_nodes option \<times> ('k, 'd) dwnx_ksl_blk) res" where
  "ksl_merge_node is_root es i =
     assertr (i + 1 < length es)
       (let lblk = snd (es ! i); rblk = snd (es ! (i + 1))
        in assertr (blk_n lblk + blk_n rblk \<le> DWNX_KSL_MAX_NBLK)
             (bindr (blk_append lblk rblk) (\<lambda>lblk.
              Ok (if is_root \<and> length es = 2 then None
                  else Some ((ksl_remove_node es (i + 1))[i := (blk_last_key lblk, lblk)]), lblk))))"

definition ksl_shift_left :: "('k, 'd) ksl_nodes \<Rightarrow> nat \<Rightarrow> ('k, 'd) ksl_nodes res" where
  "ksl_shift_left es i =
     assertr (i > 0)
       (let lblk = snd (es ! (i - 1)); rblk = snd (es ! i); n = (blk_n lblk + blk_n rblk + 1) div 2 - blk_n lblk
        in assertr (blk_n lblk < DWNX_KSL_MAX_NBLK \<and> blk_n rblk > DWNX_KSL_MIN_NBLK)
             (assertr (n > 0 \<and> blk_n lblk + n \<le> DWNX_KSL_MAX_NBLK \<and> blk_n rblk \<ge> DWNX_KSL_MIN_NBLK + n)
               (bindr (blk_append lblk (blk_take n rblk)) (\<lambda>lblk.
                Ok (es[i - 1 := (blk_last_key lblk, lblk), i := (fst (es ! i), blk_drop n rblk)])))))"

definition ksl_shift_right :: "('k, 'd) ksl_nodes \<Rightarrow> nat \<Rightarrow> ('k, 'd) ksl_nodes res" where
  "ksl_shift_right es i =
     assertr (i < length es - 1)
       (let lblk = snd (es ! i); rblk = snd (es ! (i + 1)); n = (blk_n lblk + blk_n rblk + 1) div 2 - blk_n rblk;
            ln = blk_n lblk - n
        in assertr (blk_n lblk > DWNX_KSL_MIN_NBLK \<and> blk_n rblk < DWNX_KSL_MAX_NBLK)
             (assertr (n > 0 \<and> blk_n lblk \<ge> DWNX_KSL_MIN_NBLK + n \<and> blk_n rblk + n \<le> DWNX_KSL_MAX_NBLK)
               (bindr (blk_append (blk_drop ln lblk) rblk) (\<lambda>rblk.
                Ok (es[i := (blk_last_key (blk_take ln lblk), blk_take ln lblk), i + 1 := (fst (es ! (i + 1)), rblk)])))))"

text \<open>Again every step goes to a smaller block.\<close>

lemma size_two: "i + 1 < length es \<Longrightarrow> size (snd (es ! i)) + size (snd (es ! (i + 1))) < size (Ksl_inner es)"
proof -
  assume i: "i + 1 < length es"
  have es: "es = take i es @ es ! i # es ! (i + 1) # drop (i + 2) es"
    using i by (simp add: Cons_nth_drop_Suc)
  have "size (Ksl_inner es) = size (Ksl_inner (take i es @ es ! i # es ! (i + 1) # drop (i + 2) es))"
    using es by simp
  also have "\<dots> > size (snd (es ! i)) + size (snd (es ! (i + 1)))"
    by (cases "es ! i"; cases "es ! (i + 1)") (simp add: size_list_append)
  finally show ?thesis .
qed

lemma blk_append_size: "blk_append lblk rblk = Ok blk \<Longrightarrow> size blk \<le> size lblk + size rblk"
  by (cases "(lblk, rblk)" rule: blk_append.cases) (auto simp: size_list_append)

lemma ksl_shift_left_size:
  assumes "ksl_shift_left es (Suc i) = Ok es'" and "Suc i < length es"
  shows "size (snd (es' ! i)) < size (Ksl_inner es)"
proof -
  obtain n blk where b: "blk_append (snd (es ! i)) (blk_take n (snd (es ! (i + 1)))) = Ok blk" and e: "snd (es' ! i) = blk"
    using assms by (auto simp: ksl_shift_left_def assertr_def bindr_eq_Ok Let_def split: if_splits)
  have "size blk \<le> size (snd (es ! i)) + size (snd (es ! (i + 1)))"
    using blk_append_size [OF b] size_take [of n "snd (es ! (i + 1))"] by linarith
  then show ?thesis using size_two [of i es] assms(2) e by (simp del: dwnx_ksl_blk.size)
qed

lemma ksl_shift_right_size:
  assumes "ksl_shift_right es (j - Suc 0) = Ok es'" and "0 < j" and "j < length es"
  shows "size (snd (es' ! j)) < size (Ksl_inner es)"
proof -
  obtain i where j: "j = Suc i" using assms(2) by (cases j) auto
  obtain n blk where b: "blk_append (blk_drop n (snd (es ! i))) (snd (es ! (i + 1))) = Ok blk" and e: "snd (es' ! Suc i) = blk"
    using assms(1,3) unfolding j by (auto simp: ksl_shift_right_def assertr_def bindr_eq_Ok Let_def split: if_splits)
  have "size blk \<le> size (snd (es ! i)) + size (snd (es ! (i + 1)))"
    using blk_append_size [OF b] size_drop [of n "snd (es ! i)"] by linarith
  then show ?thesis using size_two [of i es] assms(3) e j by (simp del: dwnx_ksl_blk.size)
qed

lemma ksl_merge_node_size:
  assumes "ksl_merge_node r es i = Ok (es', blk)"
  shows "size blk < size (Ksl_inner es)"
proof -
  have i: "i + 1 < length es" and "blk_append (snd (es ! i)) (snd (es ! (i + 1))) = Ok blk"
    using assms by (auto simp: ksl_merge_node_def assertr_def bindr_eq_Ok Let_def split: if_splits)
  with blk_append_size size_two [OF i] show ?thesis using le_less_trans by blast
qed

function ksl_remove_loop ::
    "('k \<Rightarrow> 'k \<Rightarrow> bool) \<Rightarrow> ('k list \<Rightarrow> 'k \<Rightarrow> nat) \<Rightarrow> dwnx_mem \<Rightarrow> bool \<Rightarrow> ('k, 'd) dwnx_ksl_blk \<Rightarrow> 'k \<Rightarrow>
     (dwnx_mem \<times> ('k, 'd) dwnx_ksl_blk, dwnx_ksl_it) sres" where
  "ksl_remove_loop compar search mem is_root (Ksl_leaf es) key =
     (let i = search (map fst es) key
      in if i = length es then SErr ERR_INVALID_ARGUMENT (mem, Ksl_leaf es)
         else if compar key (fst (es ! i)) then SErr ERR_INVALID_ARGUMENT (mem, Ksl_leaf es)
         else SOk (dwnx_ksl_it_init 0 i) (mem, Ksl_leaf (ksl_remove_node es i)))"
| "ksl_remove_loop compar search mem is_root (Ksl_inner es) key =
     (let i = search (map fst es) key;
          merge = (\<lambda>i.
            case ksl_merge_node is_root es i of
              Ok (None, blk) \<Rightarrow> ksl_remove_loop compar search mem True blk key
            | Ok (Some es', blk) \<Rightarrow> in_node es' i (ksl_remove_loop compar search mem False blk key)
            | _ \<Rightarrow> SAbort)
      in if i = length es then SErr ERR_INVALID_ARGUMENT (mem, Ksl_inner es)
         else if length es < i then SAbort
         else if blk_n (snd (es ! i)) > DWNX_KSL_MIN_NBLK
         then in_node es i (ksl_remove_loop compar search mem False (snd (es ! i)) key)
         else sassert (blk_n (snd (es ! i)) = DWNX_KSL_MIN_NBLK)
           (if i + 1 < length es \<and> blk_n (snd (es ! (i + 1))) > DWNX_KSL_MIN_NBLK then
              (case ksl_shift_left es (i + 1) of
                 Ok es' \<Rightarrow> in_node es' i (ksl_remove_loop compar search mem False (snd (es' ! i)) key)
               | _ \<Rightarrow> SAbort)
            else if i > 0 \<and> blk_n (snd (es ! (i - 1))) > DWNX_KSL_MIN_NBLK then
              (case ksl_shift_right es (i - 1) of
                 Ok es' \<Rightarrow> in_node es' i (ksl_remove_loop compar search mem False (snd (es' ! i)) key)
               | _ \<Rightarrow> SAbort)
            else if i + 1 < length es then merge i
            else sassert (i > 0) (merge (i - 1))))"
  by pat_completeness auto
termination
  by (relation "measure (\<lambda>(compar, search, mem, is_root, blk, key). size blk)")
    (auto simp del: dwnx_ksl_blk.size simp: not_le
      intro: ksl_merge_node_size ksl_shift_left_size ksl_shift_right_size size_node)

text \<open>The iterator that a removal leaves, and the end of the map when the key is not found.\<close>

definition dwnx_ksl_remove ::
    "dwnx_mem \<times> ('k, 'd) dwnx_ksl \<times> dwnx_ksl_it \<Rightarrow> 'k \<Rightarrow> (dwnx_mem \<times> ('k, 'd) dwnx_ksl \<times> dwnx_ksl_it, unit) sres" where
  "dwnx_ksl_remove s key =
     (let (mem, ksl, it) = s;
          run = (\<lambda>is_root blk.
            case ksl_remove_loop (ksl_compar ksl) (ksl_search ksl) mem is_root blk key of
              SAbort \<Rightarrow> SAbort
            | SErr e (mem, root) \<Rightarrow> let ksl = ksl\<lparr>ksl_root := Some root\<rparr> in SErr e (mem, ksl, dwnx_ksl_end ksl)
            | SOk it (mem, root) \<Rightarrow>
                let ksl = ksl\<lparr>ksl_root := Some root, ksl_n := ksl_n ksl - 1\<rparr>
                in SOk () (mem, ksl, it_settle (all_leaves ksl) it))
      in case ksl_root ksl of
           None \<Rightarrow> SErr ERR_INVALID_ARGUMENT s
         | Some (Ksl_leaf es) \<Rightarrow> run True (Ksl_leaf es)
         | Some (Ksl_inner es) \<Rightarrow>
             (if length es = 2 \<and> blk_n (snd (es ! 0)) = DWNX_KSL_MIN_NBLK \<and> blk_n (snd (es ! 1)) = DWNX_KSL_MIN_NBLK
              then case ksl_merge_node True es 0 of
                     Ok (None, blk) \<Rightarrow> run True blk
                   | _ \<Rightarrow> SAbort
              else run True (Ksl_inner es)))"

text \<open>The leaf that an iterator points to, changed in place. It is the root exactly when the root is a
  leaf.\<close>

fun upd_leaf ::
    "nat \<Rightarrow> (('k \<times> 'd) list \<Rightarrow> ('k \<times> 'd) list) \<Rightarrow> ('k, 'd) dwnx_ksl_blk \<Rightarrow> ('k, 'd) dwnx_ksl_blk" and
  upd_nodes_leaf ::
    "nat \<Rightarrow> (('k \<times> 'd) list \<Rightarrow> ('k \<times> 'd) list) \<Rightarrow> ('k, 'd) ksl_nodes \<Rightarrow> ('k, 'd) ksl_nodes" where
  "upd_leaf l f (Ksl_leaf es) = Ksl_leaf (f es)"
| "upd_leaf l f (Ksl_inner es) = Ksl_inner (upd_nodes_leaf l f es)"
| "upd_nodes_leaf l f [] = []"
| "upd_nodes_leaf l f ((k, blk) # es) =
     (if l < length (ksl_leaves blk) then (k, upd_leaf l f blk) # es
      else (k, blk) # upd_nodes_leaf (l - length (ksl_leaves blk)) f es)"

definition dwnx_ksl_remove_hint ::
    "dwnx_mem \<times> ('k, 'd) dwnx_ksl \<times> dwnx_ksl_it \<Rightarrow> dwnx_ksl_it \<Rightarrow> 'k \<Rightarrow> (dwnx_mem \<times> ('k, 'd) dwnx_ksl \<times> dwnx_ksl_it, unit) sres" where
  "dwnx_ksl_remove_hint s hint key =
     (let (mem, ksl, it) = s
      in case ksl_root ksl of
           None \<Rightarrow> SAbort
         | Some root \<Rightarrow>
             if \<not> blk_leaf root \<and> length (all_leaves ksl ! it_blk hint) = DWNX_KSL_MIN_NBLK
             then dwnx_ksl_remove s key
             else let ksl = ksl\<lparr>ksl_root := Some (upd_leaf (it_blk hint) (\<lambda>es. ksl_remove_node es (it_i hint)) root),
                                ksl_n := ksl_n ksl - 1\<rparr>
               in SOk () (mem, ksl, it_settle (all_leaves ksl) hint))"

section \<open>Search\<close>

function ksl_lower_bound_loop :: "('k list \<Rightarrow> 'k \<Rightarrow> nat) \<Rightarrow> ('k, 'd) dwnx_ksl_blk \<Rightarrow> 'k \<Rightarrow> dwnx_ksl_it res" where
  "ksl_lower_bound_loop search (Ksl_leaf es) key = Ok (dwnx_ksl_it_init 0 (search (map fst es) key))"
| "ksl_lower_bound_loop search (Ksl_inner es) key =
     (let i = search (map fst es) key
      in if i = length es then
           Ok (dwnx_ksl_it_init (length (nodes_leaves es) - 1) (length (last (nodes_leaves es))))
         else if length es < i then Abort
         else bindr (ksl_lower_bound_loop search (snd (es ! i)) key) (\<lambda>it.
              Ok (it\<lparr>it_blk := length (nodes_leaves (take i es)) + it_blk it\<rparr>)))"
  by pat_completeness auto
termination
  by (relation "measure (\<lambda>(search, blk, key). size blk)")
    (auto simp del: dwnx_ksl_blk.size simp: not_le intro: size_node)

definition dwnx_ksl_lower_bound_search ::
    "('k, 'd) dwnx_ksl \<Rightarrow> 'k \<Rightarrow> ('k list \<Rightarrow> 'k \<Rightarrow> nat) \<Rightarrow> dwnx_ksl_it res" where
  "dwnx_ksl_lower_bound_search ksl key search =
     (case ksl_root ksl of
        None \<Rightarrow> Ok (dwnx_ksl_it_init 0 0)
      | Some blk \<Rightarrow> bindr (ksl_lower_bound_loop search blk key) (\<lambda>it. Ok (it_settle (all_leaves ksl) it)))"

definition dwnx_ksl_lower_bound :: "('k, 'd) dwnx_ksl \<Rightarrow> 'k \<Rightarrow> dwnx_ksl_it res" where
  "dwnx_ksl_lower_bound ksl key = dwnx_ksl_lower_bound_search ksl key (ksl_search ksl)"

section \<open>Changing a key\<close>

function ksl_update_loop ::
    "('k \<Rightarrow> 'k \<Rightarrow> bool) \<Rightarrow> ('k list \<Rightarrow> 'k \<Rightarrow> nat) \<Rightarrow> ('k, 'd) dwnx_ksl_blk \<Rightarrow> 'k \<Rightarrow> 'k \<Rightarrow> ('k, 'd) dwnx_ksl_blk res" where
  "ksl_update_loop compar search (Ksl_leaf es) old_key new_key =
     (let i = search (map fst es) old_key
      in assertr (i < length es)
           (assertr (key_equal compar (fst (es ! i)) old_key)
             (Ok (Ksl_leaf (es[i := (new_key, snd (es ! i))])))))"
| "ksl_update_loop compar search (Ksl_inner es) old_key new_key =
     (let i = search (map fst es) old_key
      in if length es \<le> i then Abort
         else let k = fst (es ! i);
                  k' = (if key_equal compar k old_key \<or> compar k new_key then new_key else k)
           in bindr (ksl_update_loop compar search (snd (es ! i)) old_key new_key) (\<lambda>blk.
              Ok (Ksl_inner (es[i := (k', blk)]))))"
  by pat_completeness auto
termination
  by (relation "measure (\<lambda>(compar, search, blk, old_key, new_key). size blk)")
    (auto simp del: dwnx_ksl_blk.size simp: not_le intro: size_node)

definition dwnx_ksl_update_key :: "('k, 'd) dwnx_ksl \<Rightarrow> 'k \<Rightarrow> 'k \<Rightarrow> ('k, 'd) dwnx_ksl res" where
  "dwnx_ksl_update_key ksl old_key new_key =
     (case ksl_root ksl of
        None \<Rightarrow> Abort
      | Some root \<Rightarrow> bindr (ksl_update_loop (ksl_compar ksl) (ksl_search ksl) root old_key new_key) (\<lambda>root.
          Ok (ksl\<lparr>ksl_root := Some root\<rparr>)))"

end
