(* ===== verification/Wp.thy ===== *)
theory Wp
  imports Prelude
begin

text \<open>
  A weakest precondition for functions that update a state: \<open>wp r Q E\<close> holds when the run \<open>r\<close> does
  not abort, its result and state satisfy \<open>Q\<close> when it succeeds, and its error and state satisfy \<open>E\<close>
  when it returns an error. The rules rewrite \<open>wp\<close> along the structure of a function; a function
  that has been verified is used through \<open>wp_mono\<close>.
\<close>

definition wp :: "('s, 'r) sres \<Rightarrow> ('r \<Rightarrow> 's \<Rightarrow> bool) \<Rightarrow> (liberr \<Rightarrow> 's \<Rightarrow> bool) \<Rightarrow> bool" where
  "wp r Q E = (case r of SOk x s \<Rightarrow> Q x s | SErr e s \<Rightarrow> E e s | SAbort \<Rightarrow> False)"

named_theorems wp_rules

lemma wp_SOk [simp, wp_rules]: "wp (SOk x s) Q E \<longleftrightarrow> Q x s"
  by (simp add: wp_def)

lemma wp_SErr [simp, wp_rules]: "wp (SErr e s) Q E \<longleftrightarrow> E e s"
  by (simp add: wp_def)

lemma wp_SAbort [simp, wp_rules]: "\<not> wp SAbort Q E"
  by (simp add: wp_def)

lemma wp_sbind [simp, wp_rules]: "wp (sbind r f) Q E \<longleftrightarrow> wp r (\<lambda>x s. wp (f x s) Q E) E"
  by (cases r) simp_all

lemma wp_sassert [simp, wp_rules]: "wp (sassert b r) Q E \<longleftrightarrow> b \<and> wp r Q E"
  by (cases b) simp_all

lemma wp_if [wp_rules]: "wp (if b then r else r') Q E \<longleftrightarrow> (b \<longrightarrow> wp r Q E) \<and> (\<not> b \<longrightarrow> wp r' Q E)"
  by simp

lemma wp_mono:
  assumes "wp r Q' E'" and "\<And>x s. Q' x s \<Longrightarrow> Q x s" and "\<And>e s. E' e s \<Longrightarrow> E e s"
  shows "wp r Q E"
  using assms by (cases r) simp_all

lemma wp_conj: "wp r Q E \<Longrightarrow> wp r Q' E' \<Longrightarrow> wp r (\<lambda>x s. Q x s \<and> Q' x s) (\<lambda>e s. E e s \<and> E' e s)"
  by (cases r) simp_all

lemma wp_not_abort: "wp r Q E \<Longrightarrow> r \<noteq> SAbort"
  by auto

lemma wp_iff:
  "wp r Q E \<longleftrightarrow> r \<noteq> SAbort \<and> (\<forall>x s. r = SOk x s \<longrightarrow> Q x s) \<and> (\<forall>e s. r = SErr e s \<longrightarrow> E e s)"
  by (cases r) simp_all

end
