(* ===== verification/KslInv.thy ===== *)
theory KslInv
  imports Ksl Wp
begin

text \<open>
  The invariant of the ordered map: all leaves at one depth, every block but the root at least half
  full, the keys in order, and every key above a block not before the keys in it but before those of
  the next block. The lemmas show that splitting, merging and shifting blocks keep the elements and
  the invariant.
\<close>

section \<open>The order of the keys\<close>

text \<open>The contract of a comparison function: a strict weak order.\<close>

locale ksl_order =
  fixes lt :: "'k \<Rightarrow> 'k \<Rightarrow> bool"
  assumes asym: "lt a b \<Longrightarrow> \<not> lt b a"
    and neg_trans: "lt a c \<Longrightarrow> lt a b \<or> lt b c"
begin

lemma irrefl [simp]: "\<not> lt a a"
  using asym by blast

lemma trans: "lt a b \<Longrightarrow> lt b c \<Longrightarrow> lt a c"
  using asym neg_trans by blast

lemma le_less: "\<not> lt b a \<Longrightarrow> lt b c \<Longrightarrow> lt a c"
  using neg_trans by blast

lemma less_le: "lt a b \<Longrightarrow> \<not> lt c b \<Longrightarrow> lt a c"
  using neg_trans by blast

lemma le_trans: "\<not> lt b a \<Longrightarrow> \<not> lt c b \<Longrightarrow> \<not> lt c a"
  using neg_trans by blast

end

section \<open>The invariant\<close>

text \<open>All keys below a block, those above its blocks included.\<close>

fun ksl_all_keys :: "('k, 'd) dwnx_ksl_blk \<Rightarrow> 'k set" where
  "ksl_all_keys (Ksl_leaf es) = fst ` set es"
| "ksl_all_keys (Ksl_inner es) = (\<Union>e \<in> set es. insert (fst e) (ksl_all_keys (snd e)))"

abbreviation node_keys :: "'k \<times> ('k, 'd) dwnx_ksl_blk \<Rightarrow> 'k set" where
  "node_keys e \<equiv> insert (fst e) (ksl_all_keys (snd e))"

definition node_less ::
    "('k \<Rightarrow> 'k \<Rightarrow> bool) \<Rightarrow> 'k \<times> ('k, 'd) dwnx_ksl_blk \<Rightarrow> 'k \<times> ('k, 'd) dwnx_ksl_blk \<Rightarrow> bool" where
  "node_less lt e f \<longleftrightarrow> (\<forall>x \<in> node_keys f. lt (fst e) x)"

definition blk_sized :: "('k, 'd) dwnx_ksl_blk \<Rightarrow> bool" where
  "blk_sized blk \<longleftrightarrow> DWNX_KSL_MIN_NBLK \<le> blk_n blk \<and> blk_n blk \<le> DWNX_KSL_MAX_NBLK"

fun blk_ok :: "('k \<Rightarrow> 'k \<Rightarrow> bool) \<Rightarrow> nat \<Rightarrow> ('k, 'd) dwnx_ksl_blk \<Rightarrow> bool" where
  "blk_ok lt 0 (Ksl_leaf es) \<longleftrightarrow> sorted_wrt lt (map fst es)"
| "blk_ok lt (Suc h) (Ksl_inner es) \<longleftrightarrow>
     es \<noteq> [] \<and> sorted_wrt (node_less lt) es \<and>
     (\<forall>e \<in> set es. (\<forall>x \<in> ksl_all_keys (snd e). \<not> lt (fst e) x) \<and> blk_ok lt h (snd e) \<and> blk_sized (snd e))"
| "blk_ok lt _ _ \<longleftrightarrow> False"

text \<open>The nodes of an inner block.\<close>

definition nodes_ok :: "('k \<Rightarrow> 'k \<Rightarrow> bool) \<Rightarrow> nat \<Rightarrow> ('k, 'd) ksl_nodes \<Rightarrow> bool" where
  "nodes_ok lt h es \<longleftrightarrow>
     sorted_wrt (node_less lt) es \<and>
     (\<forall>e \<in> set es. (\<forall>x \<in> ksl_all_keys (snd e). \<not> lt (fst e) x) \<and> blk_ok lt h (snd e) \<and> blk_sized (snd e))"

lemma blk_ok_inner: "blk_ok lt (Suc h) (Ksl_inner es) \<longleftrightarrow> es \<noteq> [] \<and> nodes_ok lt h es"
  by (simp add: nodes_ok_def)

lemma blk_ok_SucE:
  assumes "blk_ok lt (Suc h) blk"
  obtains es where "blk = Ksl_inner es" "es \<noteq> []" "nodes_ok lt h es"
  using assms by (cases blk) (auto simp: nodes_ok_def)

lemma blk_ok_0E:
  assumes "blk_ok lt 0 blk"
  obtains es where "blk = Ksl_leaf es" "sorted_wrt lt (map fst es)"
  using assms by (cases blk) auto

lemma nodes_ok_append:
  "nodes_ok lt h (as @ bs) \<longleftrightarrow> nodes_ok lt h as \<and> nodes_ok lt h bs \<and> (\<forall>a \<in> set as. \<forall>b \<in> set bs. node_less lt a b)"
  by (auto simp: nodes_ok_def sorted_wrt_append)

lemma nodes_ok_Cons:
  "nodes_ok lt h (e # es) \<longleftrightarrow>
     (\<forall>x \<in> ksl_all_keys (snd e). \<not> lt (fst e) x) \<and> blk_ok lt h (snd e) \<and> blk_sized (snd e) \<and>
     (\<forall>f \<in> set es. node_less lt e f) \<and> nodes_ok lt h es"
  by (auto simp: nodes_ok_def)

lemma nodes_ok_Nil [simp]: "nodes_ok lt h []"
  by (simp add: nodes_ok_def)

lemmas nodes_ok_simps = nodes_ok_append nodes_ok_Cons

abbreviation contents :: "('k, 'd) dwnx_ksl_blk \<Rightarrow> ('k \<times> 'd) list" where
  "contents blk \<equiv> concat (ksl_leaves blk)"

abbreviation nodes_contents :: "('k, 'd) ksl_nodes \<Rightarrow> ('k \<times> 'd) list" where
  "nodes_contents es \<equiv> concat (nodes_leaves es)"

lemma contents_keys: "x \<in> set (contents blk) \<Longrightarrow> fst x \<in> ksl_all_keys blk"
  by (induction blk) (force simp: snds.simps)+

lemma nodes_contents_keys: "x \<in> set (nodes_contents es) \<Longrightarrow> \<exists>e \<in> set es. fst x \<in> ksl_all_keys (snd e)"
  using contents_keys by fastforce

section \<open>Parts of a block\<close>

lemma blk_take_n [simp]: "blk_n (blk_take n blk) = min n (blk_n blk)"
  by (cases blk) simp_all

lemma blk_drop_n [simp]: "blk_n (blk_drop n blk) = blk_n blk - n"
  by (cases blk) simp_all

lemma split_contents: "contents (blk_take n blk) @ contents (blk_drop n blk) = contents blk"
  by (cases blk) (simp_all flip: concat_append map_append)

lemma split_keys: "ksl_all_keys (blk_take n blk) \<union> ksl_all_keys (blk_drop n blk) = ksl_all_keys blk"
  by (cases blk) (simp_all flip: image_Un set_append UN_Un)

lemma split_ok:
  assumes "blk_ok lt h blk" and "0 < n" "n < blk_n blk"
  shows "blk_ok lt h (blk_take n blk)" and "blk_ok lt h (blk_drop n blk)"
proof -
  have "blk_ok lt h (blk_take n blk) \<and> blk_ok lt h (blk_drop n blk)"
  proof (cases h)
    case 0
    with assms obtain es where "blk = Ksl_leaf es" "sorted_wrt lt (map fst es)" by (auto elim: blk_ok_0E)
    then show ?thesis using 0 by (simp add: sorted_wrt_take sorted_wrt_drop flip: take_map drop_map)
  next
    case (Suc h')
    with assms obtain es where "blk = Ksl_inner es" "nodes_ok lt h' (take n es @ drop n es)" "length es > n"
      by (auto elim: blk_ok_SucE)
    then show ?thesis using Suc assms(2) by (simp only: nodes_ok_append blk_take.simps blk_drop.simps blk_ok_inner) auto
  qed
  then show "blk_ok lt h (blk_take n blk)" "blk_ok lt h (blk_drop n blk)" by simp_all
qed

lemma blk_append_ok:
  assumes "blk_ok lt h as" and "blk_ok lt h bs" and "\<forall>x \<in> ksl_all_keys as. \<forall>y \<in> ksl_all_keys bs. lt x y"
  obtains blk where "blk_append as bs = Ok blk" "blk_ok lt h blk" "blk_n blk = blk_n as + blk_n bs"
    "contents blk = contents as @ contents bs" "ksl_all_keys blk = ksl_all_keys as \<union> ksl_all_keys bs"
proof (cases h)
  case 0
  with assms obtain xs ys where "as = Ksl_leaf xs" "bs = Ksl_leaf ys" "sorted_wrt lt (map fst xs)" "sorted_wrt lt (map fst ys)"
    by (auto elim!: blk_ok_0E)
  then show ?thesis
    using that [of "Ksl_leaf (xs @ ys)"] assms(3) 0
    by (auto simp: sorted_wrt_append)
next
  case (Suc h')
  with assms obtain xs ys where "as = Ksl_inner xs" "bs = Ksl_inner ys" "nodes_ok lt h' xs" "nodes_ok lt h' ys" "xs \<noteq> []"
    by (auto elim!: blk_ok_SucE)
  then show ?thesis
    using that [of "Ksl_inner (xs @ ys)"] assms(3) Suc
    by (auto simp: blk_ok_inner nodes_ok_append node_less_def simp del: blk_ok.simps)
qed

context ksl_order
begin

lemma last_key:
  assumes "blk_ok lt h blk" and "0 < blk_n blk"
  shows "blk_last_key blk \<in> ksl_all_keys blk" and "\<And>x. x \<in> ksl_all_keys blk \<Longrightarrow> \<not> lt (blk_last_key blk) x"
proof -
  have "blk_last_key blk \<in> ksl_all_keys blk \<and> (\<forall>x \<in> ksl_all_keys blk. \<not> lt (blk_last_key blk) x)"
  proof (cases h)
    case 0
    with assms obtain es where es: "blk = Ksl_leaf es" "sorted_wrt lt (map fst es)" by (auto elim: blk_ok_0E)
    with assms(2) obtain xs e where "es = xs @ [e]" by (cases es rule: rev_cases) auto
    with es show ?thesis by (auto simp: dwnx_ksl_blk_nth_key_def nth_append sorted_wrt_append dest: asym)
  next
    case (Suc h')
    with assms obtain es where es: "blk = Ksl_inner es" "nodes_ok lt h' es" by (auto elim: blk_ok_SucE)
    with assms(2) obtain xs e where "es = xs @ [e]" by (cases es rule: rev_cases) auto
    then have k: "blk_last_key blk = fst e" "ksl_all_keys blk = (\<Union>e \<in> set xs. node_keys e) \<union> node_keys e"
      using es(1) by (auto simp: dwnx_ksl_blk_nth_key_def nth_append)
    have o: "\<And>f x. f \<in> set xs \<Longrightarrow> x \<in> node_keys f \<Longrightarrow> \<not> lt (fst f) x" "\<And>x. x \<in> node_keys e \<Longrightarrow> \<not> lt (fst e) x"
      "\<And>f. f \<in> set xs \<Longrightarrow> lt (fst f) (fst e)"
      using es(2) \<open>es = xs @ [e]\<close> by (auto simp: nodes_ok_def node_less_def sorted_wrt_append)
    show ?thesis unfolding k using o by (blast dest: asym le_less)
  qed
  then show "blk_last_key blk \<in> ksl_all_keys blk" "\<And>x. x \<in> ksl_all_keys blk \<Longrightarrow> \<not> lt (blk_last_key blk) x" by simp_all
qed

lemma split_less:
  assumes "blk_ok lt h blk" and "x \<in> ksl_all_keys (blk_take n blk)" and "y \<in> ksl_all_keys (blk_drop n blk)"
  shows "lt x y"
proof (cases h)
  case 0
  with assms(1) obtain es where es: "blk = Ksl_leaf es" "sorted_wrt lt (map fst (take n es @ drop n es))" by (auto elim: blk_ok_0E)
  then show ?thesis using assms(2,3) by (simp only: map_append sorted_wrt_append) auto
next
  case (Suc h')
  with assms(1) obtain es where es: "blk = Ksl_inner es" "nodes_ok lt h' (take n es @ drop n es)" by (auto elim: blk_ok_SucE)
  then obtain e f where "e \<in> set (take n es)" "x \<in> node_keys e" "f \<in> set (drop n es)" "y \<in> node_keys f"
    "\<not> lt (fst e) x" "node_less lt e f"
    using assms(2,3) by (simp only: nodes_ok_append) (auto simp: nodes_ok_def)
  then show ?thesis unfolding node_less_def by (blast intro: le_less)
qed

lemma nodes_contents_less: "node_less lt e f \<Longrightarrow> x \<in> ksl_all_keys (snd f) \<Longrightarrow> lt (fst e) x"
  by (simp add: node_less_def)

text \<open>A node under another key, or with other keys below it.\<close>

lemma node_less_left: "node_less lt e f \<Longrightarrow> \<not> lt (fst e) (fst e') \<Longrightarrow> node_less lt e' f"
  unfolding node_less_def by (blast intro: le_less)

lemma node_less_right: "node_less lt e f \<Longrightarrow> (\<And>x. x \<in> node_keys f' \<Longrightarrow> x \<in> node_keys f \<or> lt (fst e) x) \<Longrightarrow> node_less lt e f'"
  unfolding node_less_def by blast

end

section \<open>The steps on the nodes of a block\<close>

text \<open>The nodes \<open>es\<close> with the node \<open>i\<close> in focus, when the key that is looked for is at or below it.\<close>

definition focus ::
    "('k \<Rightarrow> 'k \<Rightarrow> bool) \<Rightarrow> nat \<Rightarrow> 'k \<Rightarrow> ('k, 'd) ksl_nodes \<Rightarrow> ('k, 'd) ksl_nodes \<Rightarrow>
     'k \<Rightarrow> ('k, 'd) dwnx_ksl_blk \<Rightarrow> ('k, 'd) ksl_nodes \<Rightarrow> bool" where
  "focus lt h key es pre k blk suf \<longleftrightarrow>
     nodes_ok lt h (pre @ (k, blk) # suf) \<and>
     nodes_contents (pre @ (k, blk) # suf) = nodes_contents es \<and>
     (\<Union>e \<in> set (pre @ (k, blk) # suf). node_keys e) \<subseteq> (\<Union>e \<in> set es. node_keys e) \<and>
     (\<forall>e \<in> set pre. lt (fst e) key) \<and> (\<forall>e \<in> set suf. \<forall>x \<in> node_keys e. lt key x)"

lemma nodes_update: "(pre @ e # suf)[length pre := e'] = pre @ e' # suf"
  by simp

lemma in_node_wp:
  assumes "i = length pre"
  shows "wp (in_node (pre @ (k, b) # suf) i r) Q E \<longleftrightarrow>
    wp r (\<lambda>it s. Q (it\<lparr>it_blk := length (nodes_leaves pre) + it_blk it\<rparr>) (fst s, Ksl_inner (pre @ (k, snd s) # suf)))
         (\<lambda>e s. E e (fst s, Ksl_inner (pre @ (k, snd s) # suf)))"
  using assms by (cases r) (auto split: prod.splits simp: nth_append)

lemma search_def_nth:
  assumes "i = ksl_search_def lt (map fst es) key"
  shows "i \<le> length es" and "\<forall>e \<in> set (take i es). lt (fst e) key" and "i < length es \<Longrightarrow> \<not> lt (fst (es ! i)) key"
proof -
  have "i \<le> length es \<and> (\<forall>e \<in> set (take i es). lt (fst e) key) \<and> (i < length es \<longrightarrow> \<not> lt (fst (es ! i)) key)"
    using assms by (induction es arbitrary: i) auto
  then show "i \<le> length es" "\<forall>e \<in> set (take i es). lt (fst e) key" "i < length es \<Longrightarrow> \<not> lt (fst (es ! i)) key" by simp_all
qed

lemma search_split:
  assumes "i = ksl_search_def lt (map fst es) key" and "i \<noteq> length es"
  obtains pre e suf where "es = pre @ e # suf" "i = length pre" "\<forall>e \<in> set pre. lt (fst e) key" "\<not> lt (fst e) key"
proof
  have i: "i < length es" using search_def_nth(1) [OF assms(1)] assms(2) by simp
  show "es = take i es @ es ! i # drop (Suc i) es" using i by (rule id_take_nth_drop)
  show "i = length (take i es)" using i by simp
qed (use search_def_nth [OF assms(1)] assms(2) in auto)

lemma search_all: "ksl_search_def lt (map fst es) key = length es \<Longrightarrow> e \<in> set es \<Longrightarrow> lt (fst e) key"
  using search_def_nth(2) [OF refl, of lt es key] by simp

context ksl_order
begin

lemma focus_start:
  assumes "nodes_ok lt h (pre @ (k, blk) # suf)" and "\<forall>e \<in> set pre. lt (fst e) key" and "\<not> lt k key"
  shows "focus lt h key (pre @ (k, blk) # suf) pre k blk suf"
proof -
  have "\<forall>e \<in> set suf. \<forall>x \<in> node_keys e. lt key x"
    using assms(1,3) by (auto simp: nodes_ok_simps node_less_def intro: le_less)
  then show ?thesis using assms by (simp add: focus_def)
qed

lemma split_blk_wp:
  assumes "blk_ok lt h blk" and "blk_n blk = DWNX_KSL_MAX_NBLK"
  shows "wp (ksl_split_blk mem blk) (\<lambda>(l, r) mem. l = blk_take DWNX_KSL_MIN_NBLK blk \<and> r = blk_drop DWNX_KSL_MIN_NBLK blk)
    (\<lambda>e mem. e = ERR_NOMEM)"
  using assms(2)
  by (auto simp: ksl_split_blk_def Let_def DWNX_KSL_MAX_NBLK_def DWNX_KSL_MIN_NBLK_def DWNX_KSL_DEGR_def split: prod.split)

text \<open>The two halves of a full block.\<close>

lemma halves:
  assumes b: "blk_ok lt h blk" "blk_n blk = DWNX_KSL_MAX_NBLK"
  defines "l \<equiv> blk_take DWNX_KSL_MIN_NBLK blk" and "r \<equiv> blk_drop DWNX_KSL_MIN_NBLK blk"
  shows "blk_ok lt h l" "blk_ok lt h r" "blk_n l = DWNX_KSL_MIN_NBLK" "blk_n r = DWNX_KSL_MIN_NBLK"
    "contents blk = contents l @ contents r" "ksl_all_keys blk = ksl_all_keys l \<union> ksl_all_keys r"
    "blk_last_key l \<in> ksl_all_keys l" "\<And>x. x \<in> ksl_all_keys l \<Longrightarrow> \<not> lt (blk_last_key l) x"
    "\<And>x. x \<in> ksl_all_keys r \<Longrightarrow> lt (blk_last_key l) x"
proof -
  have n: "0 < DWNX_KSL_MIN_NBLK" "DWNX_KSL_MIN_NBLK < blk_n blk"
    using b(2) by (simp_all add: DWNX_KSL_MAX_NBLK_def DWNX_KSL_MIN_NBLK_def DWNX_KSL_DEGR_def)
  show l: "blk_ok lt h l" "blk_ok lt h r" using split_ok [OF b(1) n] by (simp_all add: l_def r_def)
  show s: "blk_n l = DWNX_KSL_MIN_NBLK" "blk_n r = DWNX_KSL_MIN_NBLK"
    using b(2) n by (simp_all add: l_def r_def DWNX_KSL_MAX_NBLK_def DWNX_KSL_MIN_NBLK_def)
  show "contents blk = contents l @ contents r" "ksl_all_keys blk = ksl_all_keys l \<union> ksl_all_keys r"
    by (simp_all add: l_def r_def split_contents split_keys del: concat_append)
  show k: "blk_last_key l \<in> ksl_all_keys l" "\<And>x. x \<in> ksl_all_keys l \<Longrightarrow> \<not> lt (blk_last_key l) x"
    using last_key [OF l(1)] s n(1) by auto
  show "\<And>x. x \<in> ksl_all_keys r \<Longrightarrow> lt (blk_last_key l) x"
    using split_less [OF b(1)] k(1) by (simp add: l_def r_def)
qed

lemma split_node_ok:
  assumes ok: "nodes_ok lt h (pre @ (k, blk) # suf)" and n: "blk_n blk = DWNX_KSL_MAX_NBLK"
  defines "l \<equiv> blk_take DWNX_KSL_MIN_NBLK blk" and "r \<equiv> blk_drop DWNX_KSL_MIN_NBLK blk"
  shows "nodes_ok lt h (pre @ (blk_last_key l, l) # (k, r) # suf)"
    and "nodes_contents (pre @ (blk_last_key l, l) # (k, r) # suf) = nodes_contents (pre @ (k, blk) # suf)"
    and "(\<Union>e \<in> set (pre @ (blk_last_key l, l) # (k, r) # suf). node_keys e) \<subseteq> (\<Union>e \<in> set (pre @ (k, blk) # suf). node_keys e)"
proof -
  have b: "blk_ok lt h blk" using ok by (simp add: nodes_ok_simps)
  note h = halves [OF b n, folded l_def r_def]
  have k: "\<And>x. x \<in> ksl_all_keys blk \<Longrightarrow> \<not> lt k x" using ok by (simp add: nodes_ok_simps)
  have less: "lt (blk_last_key l) k"
  proof -
    obtain y where "y \<in> ksl_all_keys r" using h(4) last_key(1) [OF h(2)] by (auto simp: DWNX_KSL_MIN_NBLK_def DWNX_KSL_DEGR_def)
    then show ?thesis using h(9) k h(6) less_le by blast
  qed
  show "nodes_ok lt h (pre @ (blk_last_key l, l) # (k, r) # suf)"
    using ok h less k
    by (auto simp: nodes_ok_simps node_less_def blk_sized_def DWNX_KSL_MAX_NBLK_def DWNX_KSL_MIN_NBLK_def dest: asym intro: trans)
  show "nodes_contents (pre @ (blk_last_key l, l) # (k, r) # suf) = nodes_contents (pre @ (k, blk) # suf)"
    using h(5) by simp
  show "(\<Union>e \<in> set (pre @ (blk_last_key l, l) # (k, r) # suf). node_keys e) \<subseteq> (\<Union>e \<in> set (pre @ (k, blk) # suf). node_keys e)"
    using h(6,7) by auto
qed

end

end
