(* ===== verification/KslInsert.thy ===== *)
theory KslInsert
  imports KslInv
begin

text \<open>Insertion into the ordered map keeps the invariant and adds the element at its place.\<close>

section \<open>What an insertion leaves\<close>

text \<open>The element at the iterator, before the greater and after the smaller ones.\<close>

definition inserted ::
    "('k \<Rightarrow> 'k \<Rightarrow> bool) \<Rightarrow> 'k \<Rightarrow> 'd \<Rightarrow> ('k, 'd) dwnx_ksl_blk \<Rightarrow> ('k, 'd) dwnx_ksl_blk \<Rightarrow> dwnx_ksl_it \<Rightarrow> bool" where
  "inserted lt key data blk blk' it \<longleftrightarrow>
     (\<exists>L u v R. ksl_leaves blk' = L @ (u @ (key, data) # v) # R \<and> it = \<lparr>it_blk = length L, it_i = length u\<rparr> \<and>
        contents blk = concat L @ u @ v @ concat R \<and>
        (\<forall>x \<in> set (concat L @ u). lt (fst x) key) \<and> (\<forall>x \<in> set (v @ concat R). lt key (fst x)))"

definition insert_ok ::
    "('k \<Rightarrow> 'k \<Rightarrow> bool) \<Rightarrow> nat \<Rightarrow> 'k \<Rightarrow> ('k, 'd) dwnx_ksl_blk \<Rightarrow> ('k, 'd) dwnx_ksl_blk \<Rightarrow> bool" where
  "insert_ok lt h key blk blk' \<longleftrightarrow>
     blk_ok lt h blk' \<and> blk_n blk \<le> blk_n blk' \<and> blk_n blk' \<le> DWNX_KSL_MAX_NBLK \<and>
     ksl_all_keys blk' \<subseteq> insert key (ksl_all_keys blk)"

lemma inserted_lift:
  assumes "inserted lt key data b b' it"
    and "contents blk = nodes_contents pre @ contents b @ nodes_contents suf"
    and "\<forall>x \<in> set (nodes_contents pre). lt (fst x) key" and "\<forall>x \<in> set (nodes_contents suf). lt key (fst x)"
  shows "inserted lt key data blk (Ksl_inner (pre @ (k, b') # suf)) (it\<lparr>it_blk := length (nodes_leaves pre) + it_blk it\<rparr>)"
proof -
  obtain L u v R where i: "ksl_leaves b' = L @ (u @ (key, data) # v) # R" "it = \<lparr>it_blk = length L, it_i = length u\<rparr>"
    "contents b = concat L @ u @ v @ concat R" "\<forall>x \<in> set (concat L @ u). lt (fst x) key" "\<forall>x \<in> set (v @ concat R). lt key (fst x)"
    using assms(1) by (auto simp: inserted_def)
  show ?thesis
    unfolding inserted_def
    by (rule exI [of _ "nodes_leaves pre @ L"], rule exI [of _ u], rule exI [of _ v], rule exI [of _ "R @ nodes_leaves suf"])
      (use i assms(2-4) in \<open>simp add: ball_Un\<close>)
qed

context ksl_order
begin

lemma focusD:
  assumes "focus lt h key es pre k b suf"
  shows "nodes_ok lt h pre" "nodes_ok lt h suf" "\<And>x. x \<in> ksl_all_keys b \<Longrightarrow> \<not> lt k x" "blk_ok lt h b" "blk_sized b"
    "\<And>f. f \<in> set suf \<Longrightarrow> node_less lt (k, b) f" "\<And>e. e \<in> set pre \<Longrightarrow> node_less lt e (k, b)"
    "\<And>e f. e \<in> set pre \<Longrightarrow> f \<in> set suf \<Longrightarrow> node_less lt e f"
    "\<And>e. e \<in> set pre \<Longrightarrow> lt (fst e) key" "\<And>e x. e \<in> set suf \<Longrightarrow> x \<in> node_keys e \<Longrightarrow> lt key x"
    "nodes_contents (pre @ (k, b) # suf) = nodes_contents es"
    "(\<Union>e \<in> set pre. node_keys e) \<union> (node_keys (k, b) \<union> (\<Union>e \<in> set suf. node_keys e)) \<subseteq> (\<Union>e \<in> set es. node_keys e)"
proof -
  have ok: "nodes_ok lt h (pre @ (k, b) # suf)" and c: "nodes_contents (pre @ (k, b) # suf) = nodes_contents es"
    and keys: "(\<Union>e \<in> set (pre @ (k, b) # suf). node_keys e) \<subseteq> (\<Union>e \<in> set es. node_keys e)"
    and pre: "\<forall>e \<in> set pre. lt (fst e) key" and suf: "\<forall>e \<in> set suf. \<forall>x \<in> node_keys e. lt key x"
    using assms unfolding focus_def by blast+
  from ok show "nodes_ok lt h pre" "nodes_ok lt h suf" "\<And>x. x \<in> ksl_all_keys b \<Longrightarrow> \<not> lt k x" "blk_ok lt h b" "blk_sized b"
    "\<And>f. f \<in> set suf \<Longrightarrow> node_less lt (k, b) f" "\<And>e. e \<in> set pre \<Longrightarrow> node_less lt e (k, b)"
    "\<And>e f. e \<in> set pre \<Longrightarrow> f \<in> set suf \<Longrightarrow> node_less lt e f"
    by (simp_all add: nodes_ok_simps)
  show "\<And>e. e \<in> set pre \<Longrightarrow> lt (fst e) key" "\<And>e x. e \<in> set suf \<Longrightarrow> x \<in> node_keys e \<Longrightarrow> lt key x"
    using pre suf by blast+
  show "(\<Union>e \<in> set pre. node_keys e) \<union> (node_keys (k, b) \<union> (\<Union>e \<in> set suf. node_keys e)) \<subseteq> (\<Union>e \<in> set es. node_keys e)"
    using keys by (simp only: set_append list.set UN_Un UN_insert)
qed (use assms in \<open>unfold focus_def, blast\<close>)

lemma focus_trans:
  assumes "focus lt h key es1 pre k b suf" and "nodes_contents es1 = nodes_contents es"
    and "(\<Union>e \<in> set es1. node_keys e) \<subseteq> (\<Union>e \<in> set es. node_keys e)"
  shows "focus lt h key es pre k b suf"
  using assms(1) unfolding focus_def assms(2)
  by (elim conjE, intro conjI) (assumption | rule subset_trans [OF _ assms(3)])+

lemma focus_contents:
  assumes "focus lt h key es pre k b suf"
  shows "\<forall>x \<in> set (nodes_contents pre). lt (fst x) key" and "\<forall>x \<in> set (nodes_contents suf). lt key (fst x)"
    and "contents (Ksl_inner es) = nodes_contents pre @ contents b @ nodes_contents suf"
proof -
  note f = focusD [OF assms]
  show "\<forall>x \<in> set (nodes_contents pre). lt (fst x) key"
  proof
    fix x assume "x \<in> set (nodes_contents pre)"
    then obtain e where e: "e \<in> set pre" "fst x \<in> ksl_all_keys (snd e)" using nodes_contents_keys by blast
    have "\<not> lt (fst e) (fst x)" using f(1) e unfolding nodes_ok_def by blast
    then show "lt (fst x) key" using f(9) [OF e(1)] by (rule le_less)
  qed
  show "\<forall>x \<in> set (nodes_contents suf). lt key (fst x)"
  proof
    fix x assume "x \<in> set (nodes_contents suf)"
    then obtain e where "e \<in> set suf" "fst x \<in> ksl_all_keys (snd e)" using nodes_contents_keys by blast
    then show "lt key (fst x)" using f(10) by blast
  qed
  show "contents (Ksl_inner es) = nodes_contents pre @ contents b @ nodes_contents suf" using f(11) by simp
qed

lemma insert_back:
  assumes f: "focus lt h key es pre k b suf" and b: "insert_ok lt h key b b'"
    and k: "k' = k \<and> \<not> lt k key \<or> k' = key \<and> suf = [] \<and> (\<forall>x \<in> ksl_all_keys b. lt x key)"
    and n: "length es \<le> length (pre @ (k', b') # suf)" "length (pre @ (k', b') # suf) \<le> DWNX_KSL_MAX_NBLK"
  shows "insert_ok lt (Suc h) key (Ksl_inner es) (Ksl_inner (pre @ (k', b') # suf))"
proof -
  note f = focusD [OF f]
  have b': "blk_ok lt h b'" "blk_sized b'" "ksl_all_keys b' \<subseteq> insert key (ksl_all_keys b)"
    using b f(5) by (auto simp: insert_ok_def blk_sized_def)
  have "node_less lt e (k', b')" if "e \<in> set pre" for e
    by (rule node_less_right [OF f(7) [OF that]]) (use f(9) [OF that] b'(3) k in auto)
  moreover have "\<not> lt k' x" if "x \<in> ksl_all_keys b'" for x
    using that b'(3) k f(3) asym irrefl by blast
  moreover have "node_less lt (k', b') f" if "f \<in> set suf" for f
    using f(6) [OF that] that k by (auto simp: node_less_def)
  ultimately have "nodes_ok lt h (pre @ (k', b') # suf)"
    using f(1,2,8) b'(1,2) by (simp add: nodes_ok_simps)
  moreover have "(\<Union>e \<in> set (pre @ (k', b') # suf). node_keys e) \<subseteq> insert key (\<Union>e \<in> set es. node_keys e)"
  proof -
    have "node_keys (k', b') \<subseteq> insert key (node_keys (k, b))" using b'(3) k by auto
    then show ?thesis using f(12) by (simp only: set_append list.set UN_Un UN_insert) blast
  qed
  ultimately show ?thesis using n by (simp add: insert_ok_def blk_ok_inner del: blk_ok.simps)
qed

section \<open>The loops\<close>

lemma nodes_below:
  assumes "nodes_ok lt h es" and "\<And>e. e \<in> set es \<Longrightarrow> lt (fst e) key" and "e \<in> set es" and "x \<in> node_keys e"
  shows "lt x key"
proof -
  have "\<not> lt (fst e) x" using assms(1,3,4) by (auto simp: nodes_ok_def)
  then show ?thesis using assms(2) [OF assms(3)] by (rule le_less)
qed

lemma wp_case_map:
  "wp (case r of SAbort \<Rightarrow> SAbort | SErr e s \<Rightarrow> SErr e (f s) | SOk x s \<Rightarrow> g x s) Q E \<longleftrightarrow>
     wp r (\<lambda>x s. wp (g x s) Q E) (\<lambda>e s. E e (f s))"
  by (cases r) simp_all

lemma split_full_node_wp:
  assumes "nodes_ok lt h (pre @ (k, b) # suf)"
  shows "wp (split_full_node mem (pre @ (k, b) # suf) (length pre))
    (\<lambda>es' mem. if blk_n b = DWNX_KSL_MAX_NBLK
       then let l = blk_take DWNX_KSL_MIN_NBLK b in es' = pre @ (blk_last_key l, l) # (k, blk_drop DWNX_KSL_MIN_NBLK b) # suf
       else es' = pre @ (k, b) # suf)
    (\<lambda>e mem. e = ERR_NOMEM)"
proof (cases "blk_n b = DWNX_KSL_MAX_NBLK")
  case True
  have b: "blk_ok lt h b" using assms by (simp add: nodes_ok_simps)
  show ?thesis
    using wp_mono [OF split_blk_wp [OF b True, of mem]] True
    by (auto simp: split_full_node_def ksl_split_node_def nth_append Let_def)
qed (simp add: split_full_node_def nth_append)

lemma insert_same:
  assumes "blk_ok lt h blk" and "blk_n blk < DWNX_KSL_MAX_NBLK"
  shows "insert_ok lt h key blk blk"
  using assms by (auto simp: insert_ok_def)

lemma insert_leaf:
  assumes "blk_ok lt 0 (Ksl_leaf (as @ bs))" and "length (as @ bs) < DWNX_KSL_MAX_NBLK"
    and "\<forall>x \<in> set as. lt (fst x) key" and "\<forall>x \<in> set bs. lt key (fst x)"
  shows "insert_ok lt 0 key (Ksl_leaf (as @ bs)) (Ksl_leaf (as @ (key, data) # bs))"
    and "inserted lt key data (Ksl_leaf (as @ bs)) (Ksl_leaf (as @ (key, data) # bs)) (dwnx_ksl_it_init 0 (length as))"
proof -
  show "insert_ok lt 0 key (Ksl_leaf (as @ bs)) (Ksl_leaf (as @ (key, data) # bs))"
    using assms by (auto simp: insert_ok_def sorted_wrt_append)
  show "inserted lt key data (Ksl_leaf (as @ bs)) (Ksl_leaf (as @ (key, data) # bs)) (dwnx_ksl_it_init 0 (length as))"
    unfolding inserted_def
    by (rule exI [of _ "[]"], rule exI [of _ as], rule exI [of _ bs], rule exI [of _ "[]"])
      (use assms(3,4) in \<open>simp add: dwnx_ksl_it_init_def\<close>)
qed

lemma insert_last_wp:
  assumes "blk_ok lt h blk" and "blk_n blk < DWNX_KSL_MAX_NBLK" and "\<forall>x \<in> ksl_all_keys blk. lt x key"
  shows "wp (ksl_insert_last mem blk key data)
    (\<lambda>it s. insert_ok lt h key blk (snd s) \<and> inserted lt key data blk (snd s) it)
    (\<lambda>e s. insert_ok lt h key blk (snd s) \<and> contents (snd s) = contents blk \<and> e = ERR_NOMEM)"
  using assms
proof (induction h arbitrary: blk mem)
  case 0
  then obtain es where es: "blk = Ksl_leaf es" by (auto elim: blk_ok_0E)
  then show ?case
    using insert_leaf [of es "[]" key data] 0 by (simp add: ksl_insert_node_def)
next
  case (Suc h)
  then obtain es where es: "blk = Ksl_inner es" "es \<noteq> []" "nodes_ok lt h es" by (auto elim: blk_ok_SucE)
  from es(2) obtain pre k b where e: "es = pre @ [(k, b)]" by (cases es rule: rev_cases) auto
  have less: "\<forall>x \<in> ksl_all_keys b. lt x key" "\<forall>e \<in> set pre. lt (fst e) key" "lt k key"
    using Suc.prems(3) es(1) e by auto
  have step: "wp (in_node (pre' @ [(key, b')]) (length pre') (ksl_insert_last mem' b' key data))
      (\<lambda>it s. insert_ok lt (Suc h) key blk (snd s) \<and> inserted lt key data blk (snd s) it)
      (\<lambda>e s. insert_ok lt (Suc h) key blk (snd s) \<and> contents (snd s) = contents blk \<and> e = ERR_NOMEM)"
    if f: "focus lt h key es pre' k b' []" and n: "blk_n b' < DWNX_KSL_MAX_NBLK" "\<forall>x \<in> ksl_all_keys b'. lt x key"
      and len: "length es \<le> Suc (length pre')" "Suc (length pre') \<le> DWNX_KSL_MAX_NBLK" for pre' b' mem'
  proof -
    have b': "blk_ok lt h b'" using f by (simp add: focus_def nodes_ok_simps)
    have put: "insert_ok lt (Suc h) key blk (Ksl_inner (pre' @ [(key, b'')]))" if "insert_ok lt h key b' b''" for b''
      using insert_back [OF f that, of key] n(2) len es(1) by simp
    have lift: "inserted lt key data blk (Ksl_inner (pre' @ [(key, b'')])) (it\<lparr>it_blk := length (nodes_leaves pre') + it_blk it\<rparr>)"
      if "inserted lt key data b' b'' it" for b'' it
      using inserted_lift [OF that, of blk pre' "[]"] focus_contents [OF f] es(1) by simp
    show ?thesis
      unfolding in_node_wp [OF refl]
      by (rule wp_mono [OF Suc.IH [OF b' n]]) (use put lift focus_contents(3) [OF f] es(1) in auto)
  qed
  have run: "ksl_insert_last mem blk key data =
      (case split_full_node mem es (length pre) of
         SAbort \<Rightarrow> SAbort
       | SErr e mem \<Rightarrow> SErr e (mem, Ksl_inner es)
       | SOk es' mem \<Rightarrow>
           in_node (es'[length es' - 1 := (key, snd (es' ! (length es' - 1)))]) (length es' - 1)
             (ksl_insert_last mem (snd (es' ! (length es' - 1))) key data))"
    unfolding es(1) ksl_insert_last.simps Let_def using es(2) e by simp
  have len: "length es = Suc (length pre)" "length es < DWNX_KSL_MAX_NBLK" using e Suc.prems(2) es(1) by simp_all
  have same: "insert_ok lt (Suc h) key blk (Ksl_inner es)" using insert_same [OF Suc.prems(1,2)] es(1) by simp
  have ok: "nodes_ok lt h (pre @ (k, b) # [])" using es(3) e by simp
  show ?case
    unfolding run wp_case_map
  proof (rule wp_mono [OF split_full_node_wp [OF ok, of mem, folded e]], goal_cases)
    case (1 es' mem')
    show ?case
    proof (cases "blk_n b = DWNX_KSL_MAX_NBLK")
      case True
      let ?l = "blk_take DWNX_KSL_MIN_NBLK b" and ?r = "blk_drop DWNX_KSL_MIN_NBLK b"
      have b: "blk_ok lt h b" using ok by (simp add: nodes_ok_simps)
      note h = halves [OF b True] and s = split_node_ok [OF ok True]
      have "\<forall>x \<in> ksl_all_keys ?l \<union> ksl_all_keys ?r. lt x key" using less(1) h(6) by simp
      moreover from this have "lt (blk_last_key ?l) key" using h(7) by simp
      ultimately have "focus lt h key es (pre @ [(blk_last_key ?l, ?l)]) k ?r []"
        using s less(2) e by (simp add: focus_def)
      then show ?thesis
        using step [of "pre @ [(blk_last_key ?l, ?l)]" ?r mem'] 1 True less(1) h(4,6) len
        by (simp add: Let_def nth_append list_update_append DWNX_KSL_MAX_NBLK_def DWNX_KSL_MIN_NBLK_def DWNX_KSL_DEGR_def)
    next
      case False
      have "focus lt h key es pre k b []" using ok less e by (simp add: focus_def)
      moreover have "blk_sized b" using ok by (simp add: nodes_ok_simps)
      ultimately show ?thesis
        using step [of pre b mem'] 1 False less(1) len e by (simp add: blk_sized_def)
    qed
  qed (use same es(1) in simp)
qed

lemma insert_loop_wp:
  assumes "blk_ok lt h blk" and "blk_n blk < DWNX_KSL_MAX_NBLK"
  shows "wp (ksl_insert_loop lt (ksl_search_def lt) mem blk key data)
    (\<lambda>it s. insert_ok lt h key blk (snd s) \<and> inserted lt key data blk (snd s) it)
    (\<lambda>e s. insert_ok lt h key blk (snd s) \<and> contents (snd s) = contents blk \<and>
       (e = ERR_NOMEM \<or> e = ERR_INVALID_ARGUMENT \<and> (\<exists>x \<in> set (contents blk). key_equal lt (fst x) key)))"
    (is "wp _ (?Q h blk) (?E h blk)")
  using assms
proof (induction h arbitrary: blk mem)
  case 0
  then obtain es where es: "blk = Ksl_leaf es" "sorted_wrt lt (map fst es)" by (auto elim: blk_ok_0E)
  define i where "i = ksl_search_def lt (map fst es) key"
  note s = search_def_nth [OF i_def]
  have n: "length (take i es @ drop i es) < DWNX_KSL_MAX_NBLK" using 0(2) es(1) by simp
  show ?case
  proof (cases "i < length es \<and> \<not> lt key (fst (es ! i))")
    case True
    then have "\<exists>x \<in> set es. key_equal lt (fst x) key"
      using s(3) by (intro bexI [of _ "es ! i"]) (simp_all add: key_equal_def)
    then show ?thesis using True insert_same [OF 0] es(1) i_def by simp
  next
    case False
    have "\<forall>x \<in> set (drop i es). lt key (fst x)"
    proof (cases "drop i es")
      case (Cons x xs)
      have "sorted_wrt lt (map fst (drop i es))" using es(2) by (simp add: sorted_wrt_drop flip: drop_map)
      then have "\<forall>y \<in> set xs. lt (fst x) (fst y)" using Cons by simp
      moreover have "lt key (fst x)" using False Cons nth_via_drop [OF Cons] by (metis drop_all list.distinct(1) not_le)
      ultimately show ?thesis using Cons trans by auto
    qed simp
    moreover have "blk_ok lt 0 (Ksl_leaf (take i es @ drop i es))" using es(2) by simp
    moreover have "length (take i es) = i" using s(1) by simp
    ultimately have "insert_ok lt 0 key blk (Ksl_leaf (take i es @ (key, data) # drop i es))"
      "inserted lt key data blk (Ksl_leaf (take i es @ (key, data) # drop i es)) (dwnx_ksl_it_init 0 i)"
      using insert_leaf [OF _ n, of key data] s(2) es(1) by simp_all
    moreover have "ksl_insert_loop lt (ksl_search_def lt) mem blk key data =
        SOk (dwnx_ksl_it_init 0 i) (mem, Ksl_leaf (take i es @ (key, data) # drop i es))"
      using False n unfolding es(1) ksl_insert_loop.simps i_def [symmetric] by (simp add: ksl_insert_node_def Let_def)
    ultimately show ?thesis by simp
  qed
next
  case (Suc h)
  then obtain es where es: "blk = Ksl_inner es" "es \<noteq> []" "nodes_ok lt h es" by (auto elim: blk_ok_SucE)
  define i where "i = ksl_search_def lt (map fst es) key"
  show ?case
  proof (cases "i = length es")
    case True
    have "\<forall>x \<in> ksl_all_keys blk. lt x key"
      using nodes_below [OF es(3) search_all [OF True [unfolded i_def]]] es(1) by auto
    then have "wp (ksl_insert_last mem blk key data) (?Q (Suc h) blk) (?E (Suc h) blk)"
      by (intro wp_mono [OF insert_last_wp [OF Suc.prems]]) auto
    then show ?thesis using True es(1) i_def by simp
  next
    case False
    from search_split [OF i_def False] obtain pre e suf where
      e: "es = pre @ e # suf" "i = length pre" "\<forall>e \<in> set pre. lt (fst e) key" "\<not> lt (fst e) key" .
    obtain k b where kb: "e = (k, b)" by (cases e)
    have ok: "nodes_ok lt h (pre @ (k, b) # suf)" and k: "\<not> lt k key" using es(3) e kb by auto
    have step: "wp (in_node (pre' @ (k', b') # suf') (length pre') (ksl_insert_loop lt (ksl_search_def lt) mem' b' key data))
        (?Q (Suc h) blk) (?E (Suc h) blk)"
      if f: "focus lt h key es pre' k' b' suf'" and n: "blk_n b' < DWNX_KSL_MAX_NBLK" "\<not> lt k' key"
        and len: "length es \<le> length (pre' @ (k', b') # suf')" "length (pre' @ (k', b') # suf') \<le> DWNX_KSL_MAX_NBLK"
      for pre' k' b' suf' mem'
    proof -
      have put: "insert_ok lt (Suc h) key blk (Ksl_inner (pre' @ (k', b'') # suf'))" if "insert_ok lt h key b' b''" for b''
        using insert_back [OF f that, of k'] n(2) len es(1) by simp
      have lift: "inserted lt key data blk (Ksl_inner (pre' @ (k', b'') # suf')) (it\<lparr>it_blk := length (nodes_leaves pre') + it_blk it\<rparr>)"
        if "inserted lt key data b' b'' it" for b'' it
        using inserted_lift [OF that] focus_contents [OF f] es(1) by blast
      show ?thesis
        unfolding in_node_wp [OF refl]
        by (rule wp_mono [OF Suc.IH [OF focusD(4) [OF f] n(1)]]) (use put lift focus_contents(3) [OF f] es(1) in auto)
    qed
    have n: "length es < DWNX_KSL_MAX_NBLK" using Suc.prems(2) es(1) by simp
    have err: "insert_ok lt (Suc h) key blk (Ksl_inner es)" using insert_same [OF Suc.prems] es(1) by simp
    have eq: "pre @ (k, b) # suf = es" using e(1) kb by simp
    have nth: "snd (es ! length pre) = b" using e(1) kb by simp
    have run: "ksl_insert_loop lt (ksl_search_def lt) mem blk key data =
        (case split_full_node mem es (length pre) of
           SAbort \<Rightarrow> SAbort
         | SErr e mem \<Rightarrow> SErr e (mem, Ksl_inner es)
         | SOk es' mem \<Rightarrow>
             let j = (if blk_n b = DWNX_KSL_MAX_NBLK \<and> lt (fst (es' ! length pre)) key then length pre + 1 else length pre)
             in if length es' \<le> j then SAbort
                else in_node es' j (ksl_insert_loop lt (ksl_search_def lt) mem (snd (es' ! j)) key data))"
      using False unfolding es(1) ksl_insert_loop.simps i_def [symmetric] Let_def e(2) nth by (simp add: e(1))
    show ?thesis
      unfolding run wp_case_map
    proof (rule wp_mono [OF split_full_node_wp [OF ok, of mem, unfolded eq]], goal_cases)
      case (1 es' mem')
      show ?case
      proof (cases "blk_n b = DWNX_KSL_MAX_NBLK")
        case True
        let ?l = "blk_take DWNX_KSL_MIN_NBLK b" and ?r = "blk_drop DWNX_KSL_MIN_NBLK b"
        let ?kl = "blk_last_key ?l"
        have b: "blk_ok lt h b" using ok by (simp add: nodes_ok_simps)
        note h = halves [OF b True] and s = split_node_ok [OF ok True, unfolded eq]
        have es': "es' = pre @ (?kl, ?l) # (k, ?r) # suf" using 1 True by (simp add: Let_def)
        have half: "DWNX_KSL_MIN_NBLK < DWNX_KSL_MAX_NBLK"
          by (simp add: DWNX_KSL_MAX_NBLK_def DWNX_KSL_MIN_NBLK_def DWNX_KSL_DEGR_def)
        show ?thesis
        proof (cases "lt ?kl key")
          case less: True
          have "focus lt h key ((pre @ [(?kl, ?l)]) @ (k, ?r) # suf) (pre @ [(?kl, ?l)]) k ?r suf"
            by (rule focus_start) (use s(1) e(3) less k in simp_all)
          from focus_trans [OF this] have f: "focus lt h key es (pre @ [(?kl, ?l)]) k ?r suf" using s(2,3) by simp
          show ?thesis
            using step [OF f, of mem'] h(4) half k n e(1) less True es' by (simp add: nth_append)
        next
          case ge: False
          have "focus lt h key (pre @ (?kl, ?l) # (k, ?r) # suf) pre ?kl ?l ((k, ?r) # suf)"
            by (rule focus_start) (use s(1) e(3) ge in simp_all)
          from focus_trans [OF this] have f: "focus lt h key es pre ?kl ?l ((k, ?r) # suf)" using s(2,3) by simp
          show ?thesis
            using step [OF f, of mem'] h(3) half n e(1) ge True es' by (simp add: nth_append)
        qed
      next
        case False
        have f: "focus lt h key es pre k b suf" using focus_start [OF ok e(3) k] e(1) kb by simp
        have "blk_n b < DWNX_KSL_MAX_NBLK" using False focusD(5) [OF f] by (simp add: blk_sized_def)
        then show ?thesis using step [OF f _ k, of mem'] 1 False n e(1) kb by (simp add: nth_append)
      qed
    qed (use err es(1) in simp)
  qed
qed

end

end
