(* ===== verification/KslRemove.thy ===== *)
theory KslRemove
  imports KslInsert
begin

text \<open>Removal from the ordered map keeps the invariant and takes out the element; when there is none
  the elements stay as they are, although blocks may have been merged or shifted.\<close>

section \<open>What a removal leaves\<close>

definition removed ::
    "('k \<Rightarrow> 'k \<Rightarrow> bool) \<Rightarrow> 'k \<Rightarrow> ('k, 'd) dwnx_ksl_blk \<Rightarrow> ('k, 'd) dwnx_ksl_blk \<Rightarrow> dwnx_ksl_it \<Rightarrow> bool" where
  "removed lt key blk blk' it \<longleftrightarrow>
     (\<exists>L u x v R. ksl_leaves blk' = L @ (u @ v) # R \<and> it = \<lparr>it_blk = length L, it_i = length u\<rparr> \<and>
        contents blk = concat L @ u @ x # v @ concat R \<and> key_equal lt (fst x) key)"

definition remove_ok ::
    "('k \<Rightarrow> 'k \<Rightarrow> bool) \<Rightarrow> nat \<Rightarrow> ('k, 'd) dwnx_ksl_blk \<Rightarrow> ('k, 'd) dwnx_ksl_blk \<Rightarrow> bool" where
  "remove_ok lt h blk blk' \<longleftrightarrow>
     blk_ok lt h blk' \<and> blk_n blk \<le> Suc (blk_n blk') \<and> blk_n blk' \<le> DWNX_KSL_MAX_NBLK \<and>
     ksl_all_keys blk' \<subseteq> ksl_all_keys blk"

definition key_absent :: "('k \<Rightarrow> 'k \<Rightarrow> bool) \<Rightarrow> 'k \<Rightarrow> ('k \<times> 'd) list \<Rightarrow> bool" where
  "key_absent lt key xs \<longleftrightarrow> (\<forall>x \<in> set xs. \<not> key_equal lt (fst x) key)"

definition root_ok :: "('k \<Rightarrow> 'k \<Rightarrow> bool) \<Rightarrow> nat \<Rightarrow> ('k, 'd) dwnx_ksl_blk \<Rightarrow> bool" where
  "root_ok lt h blk \<longleftrightarrow> blk_ok lt h blk \<and> blk_n blk \<le> DWNX_KSL_MAX_NBLK \<and> (0 < h \<longrightarrow> 2 \<le> blk_n blk)"

definition removal_ok ::
    "('k \<Rightarrow> 'k \<Rightarrow> bool) \<Rightarrow> bool \<Rightarrow> nat \<Rightarrow> ('k, 'd) dwnx_ksl_blk \<Rightarrow> ('k, 'd) dwnx_ksl_blk \<Rightarrow> bool" where
  "removal_ok lt is_root h blk blk' \<longleftrightarrow>
     ksl_all_keys blk' \<subseteq> ksl_all_keys blk \<and> (if is_root then \<exists>h'. root_ok lt h' blk' else remove_ok lt h blk blk')"

lemma removed_lift:
  assumes "removed lt key b b' it" and "contents blk = nodes_contents pre @ contents b @ nodes_contents suf"
  shows "removed lt key blk (Ksl_inner (pre @ (k, b') # suf)) (it\<lparr>it_blk := length (nodes_leaves pre) + it_blk it\<rparr>)"
proof -
  obtain L u x v R where r: "ksl_leaves b' = L @ (u @ v) # R" "it = \<lparr>it_blk = length L, it_i = length u\<rparr>"
    "contents b = concat L @ u @ x # v @ concat R" "key_equal lt (fst x) key"
    using assms(1) by (auto simp: removed_def)
  show ?thesis
    unfolding removed_def
    by (rule exI [of _ "nodes_leaves pre @ L"], rule exI [of _ u], rule exI [of _ x], rule exI [of _ v],
        rule exI [of _ "R @ nodes_leaves suf"]) (use r assms(2) in simp)
qed

context ksl_order
begin

lemma absent_lift:
  assumes "focus lt h key es pre k b suf" and "key_absent lt key (contents b)"
  shows "key_absent lt key (contents (Ksl_inner es))"
  using focus_contents [OF assms(1)] assms(2) unfolding key_absent_def key_equal_def
  by (simp only: set_append ball_Un) blast

lemma remove_back:
  assumes f: "focus lt h key es pre k b suf" and b: "remove_ok lt h b b'" "DWNX_KSL_MIN_NBLK < blk_n b"
    and n: "length es \<le> Suc (length (pre @ (k, b') # suf))" "length (pre @ (k, b') # suf) \<le> DWNX_KSL_MAX_NBLK"
  shows "remove_ok lt (Suc h) (Ksl_inner es) (Ksl_inner (pre @ (k, b') # suf))"
proof -
  note f = focusD [OF f]
  have b': "blk_ok lt h b'" "blk_sized b'" "ksl_all_keys b' \<subseteq> ksl_all_keys b"
    using b f(5) by (auto simp: remove_ok_def blk_sized_def)
  have "node_less lt e (k, b')" if "e \<in> set pre" for e
    by (rule node_less_right [OF f(7) [OF that]]) (use b'(3) in auto)
  moreover have "\<not> lt k x" if "x \<in> ksl_all_keys b'" for x
    using that b'(3) f(3) by blast
  moreover have "node_less lt (k, b') f" if "f \<in> set suf" for f
    using f(6) [OF that] by (simp add: node_less_def)
  ultimately have "nodes_ok lt h (pre @ (k, b') # suf)"
    using f(1,2,8) b'(1,2) by (simp add: nodes_ok_simps)
  moreover have "(\<Union>e \<in> set (pre @ (k, b') # suf). node_keys e) \<subseteq> (\<Union>e \<in> set es. node_keys e)"
  proof -
    have "node_keys (k, b') \<subseteq> node_keys (k, b)" using b'(3) by auto
    then show ?thesis using f(12) by (simp only: set_append list.set UN_Un UN_insert) blast
  qed
  ultimately show ?thesis using n by (simp add: remove_ok_def blk_ok_inner del: blk_ok.simps)
qed

section \<open>Merging and shifting\<close>

text \<open>Two neighbours, and what may take their place.\<close>

lemma neighbours:
  assumes "nodes_ok lt h (pre @ (k1, b1) # (k2, b2) # suf)"
  shows "blk_ok lt h b1" "blk_ok lt h b2" "blk_sized b1" "blk_sized b2"
    "\<forall>x \<in> ksl_all_keys b1. \<forall>y \<in> ksl_all_keys b2. lt x y" "lt k1 k2"
    "\<And>x. x \<in> ksl_all_keys b1 \<Longrightarrow> \<not> lt k1 x" "\<And>x. x \<in> ksl_all_keys b2 \<Longrightarrow> \<not> lt k2 x" "\<And>x. x \<in> ksl_all_keys b2 \<Longrightarrow> lt k1 x"
proof -
  have ok: "nodes_ok lt h ((k1, b1) # (k2, b2) # suf)" using assms by (simp add: nodes_ok_append)
  show "blk_ok lt h b1" "blk_ok lt h b2" "blk_sized b1" "blk_sized b2" "lt k1 k2"
    using ok unfolding nodes_ok_Cons node_less_def by simp_all
  show k1: "\<not> lt k1 x" if "x \<in> ksl_all_keys b1" for x
    using ok that unfolding nodes_ok_Cons node_less_def by simp
  show "\<not> lt k2 x" if "x \<in> ksl_all_keys b2" for x
    using ok that unfolding nodes_ok_Cons node_less_def by simp
  show k2: "lt k1 x" if "x \<in> ksl_all_keys b2" for x
    using ok that unfolding nodes_ok_Cons node_less_def by simp
  show "\<forall>x \<in> ksl_all_keys b1. \<forall>y \<in> ksl_all_keys b2. lt x y"
  proof (intro ballI)
    fix x y assume "x \<in> ksl_all_keys b1" "y \<in> ksl_all_keys b2"
    then show "lt x y" using le_less [OF k1 k2] by blast
  qed
qed

text \<open>The nodes \<open>mid\<close> in the place of two neighbours.\<close>

lemma replace_two:
  assumes ok: "nodes_ok lt h (pre @ (k1, b1) # (k2, b2) # suf)" and mid: "nodes_ok lt h mid"
    and keys: "(\<Union>e \<in> set mid. node_keys e) \<subseteq> node_keys (k1, b1) \<union> node_keys (k2, b2)"
    and c: "nodes_contents mid = contents b1 @ contents b2"
  shows "nodes_ok lt h (pre @ mid @ suf)" "nodes_contents (pre @ mid @ suf) = nodes_contents (pre @ (k1, b1) # (k2, b2) # suf)"
    "(\<Union>e \<in> set (pre @ mid @ suf). node_keys e) \<subseteq> (\<Union>e \<in> set (pre @ (k1, b1) # (k2, b2) # suf). node_keys e)"
proof -
  have old: "nodes_ok lt h pre" "nodes_ok lt h suf" "\<And>e f. e \<in> set pre \<Longrightarrow> f \<in> set suf \<Longrightarrow> node_less lt e f"
    "\<And>e. e \<in> set pre \<Longrightarrow> node_less lt e (k1, b1)" "\<And>e. e \<in> set pre \<Longrightarrow> node_less lt e (k2, b2)"
    "\<And>f. f \<in> set suf \<Longrightarrow> node_less lt (k2, b2) f"
    using ok by (simp_all add: nodes_ok_simps)
  note nb = neighbours [OF ok]
  have top: "\<not> lt k2 x" if "x \<in> node_keys (k1, b1) \<union> node_keys (k2, b2)" for x
  proof
    assume l: "lt k2 x"
    have "x \<in> node_keys (k1, b1)" using that l nb(8) [of x] by auto
    then have "\<not> lt k1 x" using nb(7) [of x] by auto
    then have "lt x k2" using nb(6) by (rule le_less)
    then show False using l asym by blast
  qed
  have "node_less lt e f" if "e \<in> set pre" "f \<in> set mid" for e f
  proof -
    have k: "x \<in> node_keys (k1, b1) \<union> node_keys (k2, b2)" if "x \<in> node_keys f" for x
      using keys that \<open>f \<in> set mid\<close> by blast
    have o: "lt (fst e) x" if "x \<in> node_keys (k1, b1) \<or> x \<in> node_keys (k2, b2)" for x
      using old(4,5) [OF \<open>e \<in> set pre\<close>] that unfolding node_less_def by blast
    show ?thesis unfolding node_less_def using k o by blast
  qed
  moreover have "node_less lt e f" if "e \<in> set mid" "f \<in> set suf" for e f
  proof (rule node_less_left [OF old(6) [OF that(2)]])
    have "fst e \<in> node_keys (k1, b1) \<union> node_keys (k2, b2)" using keys that(1) by blast
    then show "\<not> lt (fst (k2, b2)) (fst e)" using top [of "fst e"] by simp
  qed
  ultimately show "nodes_ok lt h (pre @ mid @ suf)" using old(1-3) mid by (simp add: nodes_ok_append ball_Un)
  show "nodes_contents (pre @ mid @ suf) = nodes_contents (pre @ (k1, b1) # (k2, b2) # suf)" using c by simp
  show "(\<Union>e \<in> set (pre @ mid @ suf). node_keys e) \<subseteq> (\<Union>e \<in> set (pre @ (k1, b1) # (k2, b2) # suf). node_keys e)"
    using keys by (simp only: set_append list.set UN_Un UN_insert) blast
qed

text \<open>A merged block has room, because both were as small as they may be.\<close>

lemma merge_wp:
  assumes ok: "nodes_ok lt h (pre @ (k1, b1) # (k2, b2) # suf)" and n: "blk_n b1 = DWNX_KSL_MIN_NBLK" "blk_n b2 = DWNX_KSL_MIN_NBLK"
  obtains b where
    "ksl_merge_node is_root (pre @ (k1, b1) # (k2, b2) # suf) (length pre) =
       Ok (if is_root \<and> pre = [] \<and> suf = [] then None else Some (pre @ (blk_last_key b, b) # suf), b)"
    "blk_ok lt h b" "blk_n b = DWNX_KSL_MAX_NBLK" "contents b = contents b1 @ contents b2"
    "ksl_all_keys b = ksl_all_keys b1 \<union> ksl_all_keys b2" "nodes_ok lt h [(blk_last_key b, b)]"
    "blk_last_key b \<in> ksl_all_keys b"
proof -
  note nb = neighbours [OF ok]
  from blk_append_ok [OF nb(1,2,5)] obtain b where b: "blk_append b1 b2 = Ok b" "blk_ok lt h b" "blk_n b = blk_n b1 + blk_n b2"
    "contents b = contents b1 @ contents b2" "ksl_all_keys b = ksl_all_keys b1 \<union> ksl_all_keys b2" .
  have s: "blk_n b = DWNX_KSL_MAX_NBLK" using b(3) n by (simp add: DWNX_KSL_MAX_NBLK_def DWNX_KSL_MIN_NBLK_def)
  then have pos: "0 < blk_n b" by (simp add: DWNX_KSL_MAX_NBLK_def DWNX_KSL_DEGR_def)
  show ?thesis
  proof (rule that)
    have "ksl_remove_node (pre @ (k1, b1) # (k2, b2) # suf) (length pre + 1) = pre @ (k1, b1) # suf"
      by (simp add: ksl_remove_node_def)
    then show "ksl_merge_node is_root (pre @ (k1, b1) # (k2, b2) # suf) (length pre) =
       Ok (if is_root \<and> pre = [] \<and> suf = [] then None else Some (pre @ (blk_last_key b, b) # suf), b)"
      using b(1) n by (simp add: ksl_merge_node_def nth_append Let_def DWNX_KSL_MAX_NBLK_def DWNX_KSL_MIN_NBLK_def)
    show "nodes_ok lt h [(blk_last_key b, b)]"
      using b(2) s last_key [OF b(2) pos] by (simp add: nodes_ok_Cons blk_sized_def DWNX_KSL_MAX_NBLK_def DWNX_KSL_MIN_NBLK_def)
    show "blk_last_key b \<in> ksl_all_keys b" by (rule last_key(1) [OF b(2) pos])
  qed (use b s in auto)
qed

text \<open>Moving entries from one neighbour to the other.\<close>

lemma shift_left_wp:
  assumes ok: "nodes_ok lt h (pre @ (k1, b1) # (k2, b2) # suf)" and n: "blk_n b1 = DWNX_KSL_MIN_NBLK" "DWNX_KSL_MIN_NBLK < blk_n b2"
  obtains b b' where
    "ksl_shift_left (pre @ (k1, b1) # (k2, b2) # suf) (length pre + 1) = Ok (pre @ (blk_last_key b, b) # (k2, b') # suf)"
    "DWNX_KSL_MIN_NBLK < blk_n b" "contents b @ contents b' = contents b1 @ contents b2"
    "ksl_all_keys b \<union> ksl_all_keys b' = ksl_all_keys b1 \<union> ksl_all_keys b2"
    "nodes_ok lt h [(blk_last_key b, b), (k2, b')]" "ksl_all_keys b' \<subseteq> ksl_all_keys b2" "blk_last_key b \<in> ksl_all_keys b"
proof -
  note nb = neighbours [OF ok]
  define m where "m = (blk_n b1 + blk_n b2 + 1) div 2 - blk_n b1"
  have m: "0 < m" "m < blk_n b2" "DWNX_KSL_MIN_NBLK + m \<le> blk_n b2" "blk_n b1 + m \<le> DWNX_KSL_MAX_NBLK"
    using n nb(4) by (auto simp: m_def blk_sized_def DWNX_KSL_MAX_NBLK_def DWNX_KSL_MIN_NBLK_def DWNX_KSL_DEGR_def)
  have less_max: "blk_n b1 < DWNX_KSL_MAX_NBLK" using n(1) by (simp add: DWNX_KSL_MAX_NBLK_def DWNX_KSL_MIN_NBLK_def DWNX_KSL_DEGR_def)
  note part = split_ok [OF nb(2) m(1,2)]
  have keys: "ksl_all_keys b2 = ksl_all_keys (blk_take m b2) \<union> ksl_all_keys (blk_drop m b2)" by (simp add: split_keys)
  then have "\<forall>x \<in> ksl_all_keys b1. \<forall>y \<in> ksl_all_keys (blk_take m b2). lt x y" using nb(5) by blast
  from blk_append_ok [OF nb(1) part(1) this] obtain b where b: "blk_append b1 (blk_take m b2) = Ok b" "blk_ok lt h b"
    "blk_n b = blk_n b1 + blk_n (blk_take m b2)" "contents b = contents b1 @ contents (blk_take m b2)"
    "ksl_all_keys b = ksl_all_keys b1 \<union> ksl_all_keys (blk_take m b2)" .
  have s: "blk_n b = blk_n b1 + m" using b(3) m(2) by simp
  note last = last_key [OF b(2)]
  have less: "lt (blk_last_key b) x" if "x \<in> ksl_all_keys (blk_drop m b2)" for x
  proof -
    have "\<forall>y \<in> ksl_all_keys b. lt y x" using b(5) that keys nb(5) split_less [OF nb(2)] by blast
    then show ?thesis using last(1) s m(1) by simp
  qed
  show ?thesis
  proof (rule that)
    show "ksl_shift_left (pre @ (k1, b1) # (k2, b2) # suf) (length pre + 1) = Ok (pre @ (blk_last_key b, b) # (k2, blk_drop m b2) # suf)"
      using b(1) m nb(3,4) n(2) less_max m(1) [unfolded m_def] unfolding ksl_shift_left_def
      by (simp add: nth_append Let_def list_update_append blk_sized_def flip: m_def [simplified] del: zero_less_diff)
    show "nodes_ok lt h [(blk_last_key b, b), (k2, blk_drop m b2)]"
    proof -
      have "blk_sized b" using s m n by (simp add: blk_sized_def)
      moreover have "blk_sized (blk_drop m b2)" using m nb(4) unfolding blk_sized_def blk_drop_n by linarith
      moreover have "\<not> lt (blk_last_key b) x" if "x \<in> ksl_all_keys b" for x
        using last(2) that s m(1) by simp
      moreover have "\<not> lt k2 x" if "x \<in> ksl_all_keys (blk_drop m b2)" for x
        using nb(8) that keys by blast
      moreover have "lt (blk_last_key b) k2"
      proof -
        obtain y where y: "y \<in> ksl_all_keys (blk_drop m b2)" using last_key(1) [OF part(2)] m(2) by auto
        then have "\<not> lt k2 y" using nb(8) keys by blast
        then show ?thesis using less [OF y] less_le by blast
      qed
      ultimately show ?thesis
        using b(2) part(2) less by (simp add: nodes_ok_Cons node_less_def)
    qed
    show "DWNX_KSL_MIN_NBLK < blk_n b" using s n m(1) by simp
    show "contents b @ contents (blk_drop m b2) = contents b1 @ contents b2"
      using b(4) split_contents [of m b2] by simp
    show "blk_last_key b \<in> ksl_all_keys b" using last(1) s m(1) by simp
  qed (use b(5) keys in auto)
qed

lemma shift_right_wp:
  assumes ok: "nodes_ok lt h (pre @ (k1, b1) # (k2, b2) # suf)" and n: "DWNX_KSL_MIN_NBLK < blk_n b1" "blk_n b2 = DWNX_KSL_MIN_NBLK"
  obtains b b' where
    "ksl_shift_right (pre @ (k1, b1) # (k2, b2) # suf) (length pre) = Ok (pre @ (blk_last_key b, b) # (k2, b') # suf)"
    "DWNX_KSL_MIN_NBLK < blk_n b'" "contents b @ contents b' = contents b1 @ contents b2"
    "ksl_all_keys b \<union> ksl_all_keys b' = ksl_all_keys b1 \<union> ksl_all_keys b2"
    "nodes_ok lt h [(blk_last_key b, b), (k2, b')]" "blk_last_key b \<in> ksl_all_keys b1"
proof -
  note nb = neighbours [OF ok]
  define m where "m = (blk_n b1 + blk_n b2 + 1) div 2 - blk_n b2"
  define l where "l = blk_n b1 - m"
  have m: "0 < m" "m < blk_n b1" "DWNX_KSL_MIN_NBLK + m \<le> blk_n b1" "blk_n b2 + m \<le> DWNX_KSL_MAX_NBLK"
    using n nb(3) by (auto simp: m_def blk_sized_def DWNX_KSL_MAX_NBLK_def DWNX_KSL_MIN_NBLK_def DWNX_KSL_DEGR_def)
  then have l: "0 < l" "l < blk_n b1" "blk_n b1 - l = m" "blk_n b1 - Suc m = l - Suc 0" by (simp_all add: l_def)
  have less_max: "blk_n b2 < DWNX_KSL_MAX_NBLK" using n(2) by (simp add: DWNX_KSL_MAX_NBLK_def DWNX_KSL_MIN_NBLK_def DWNX_KSL_DEGR_def)
  note part = split_ok [OF nb(1) l(1,2)]
  have keys: "ksl_all_keys b1 = ksl_all_keys (blk_take l b1) \<union> ksl_all_keys (blk_drop l b1)" by (simp add: split_keys)
  then have "\<forall>x \<in> ksl_all_keys (blk_drop l b1). \<forall>y \<in> ksl_all_keys b2. lt x y" using nb(5) by blast
  from blk_append_ok [OF part(2) nb(2) this] obtain b where b: "blk_append (blk_drop l b1) b2 = Ok b" "blk_ok lt h b"
    "blk_n b = blk_n (blk_drop l b1) + blk_n b2" "contents b = contents (blk_drop l b1) @ contents b2"
    "ksl_all_keys b = ksl_all_keys (blk_drop l b1) \<union> ksl_all_keys b2" .
  let ?l = "blk_take l b1"
  have s: "blk_n b = m + blk_n b2" "blk_n ?l = l" using b(3) l by simp_all
  have last: "blk_last_key ?l \<in> ksl_all_keys ?l" "\<And>x. x \<in> ksl_all_keys ?l \<Longrightarrow> \<not> lt (blk_last_key ?l) x"
    using last_key [OF part(1)] l by (simp_all del: length_greater_0_conv)
  have less: "lt (blk_last_key ?l) x" if "x \<in> ksl_all_keys b" for x
  proof -
    have "x \<in> ksl_all_keys (blk_drop l b1) \<or> x \<in> ksl_all_keys b2" using b(5) that by blast
    then show ?thesis using split_less [OF nb(1) last(1), of x] nb(5) keys last(1) by blast
  qed
  have top: "\<not> lt k2 x" if x: "x \<in> ksl_all_keys b" for x
  proof
    assume l2: "lt k2 x"
    then have "x \<in> ksl_all_keys b1" using b(5) x nb(8) [of x] keys by blast
    then have "\<not> lt k1 x" by (rule nb(7))
    then have "lt x k2" using nb(6) by (rule le_less)
    then show False using l2 asym by blast
  qed
  show ?thesis
  proof (rule that)
    show "ksl_shift_right (pre @ (k1, b1) # (k2, b2) # suf) (length pre) = Ok (pre @ (blk_last_key ?l, ?l) # (k2, b) # suf)"
      using b(1) m l(2,4) nb(3,4) n(1) less_max m(1) [unfolded m_def] unfolding ksl_shift_right_def
      by (simp add: nth_append Let_def list_update_append blk_sized_def flip: m_def [simplified] l_def del: zero_less_diff)
    show "nodes_ok lt h [(blk_last_key ?l, ?l), (k2, b)]"
    proof -
      have "blk_sized b" using s(1) m n by (simp add: blk_sized_def)
      moreover have "blk_sized ?l" using m nb(3) s(2) unfolding blk_sized_def l_def by linarith
      moreover have "lt (blk_last_key ?l) k2"
      proof -
        have "\<not> lt k1 (blk_last_key ?l)" using nb(7) last(1) keys by blast
        then show ?thesis using nb(6) by (rule le_less)
      qed
      ultimately show ?thesis
        using b(2) part(1) less top last(2) by (simp add: nodes_ok_Cons node_less_def)
    qed
    show "DWNX_KSL_MIN_NBLK < blk_n b" using s n m(1) by simp
    show "contents ?l @ contents b = contents b1 @ contents b2"
      using b(4) split_contents [of l b1] by simp
    show "blk_last_key ?l \<in> ksl_all_keys b1" using last(1) keys by blast
  qed (use b(5) keys in auto)
qed

section \<open>The loop\<close>

lemma remove_leaf:
  assumes "blk_ok lt 0 (Ksl_leaf (u @ x # v))" and "key_equal lt (fst x) key" and "length (u @ x # v) \<le> DWNX_KSL_MAX_NBLK"
  shows "removal_ok lt is_root 0 (Ksl_leaf (u @ x # v)) (Ksl_leaf (u @ v))"
    and "removed lt key (Ksl_leaf (u @ x # v)) (Ksl_leaf (u @ v)) (dwnx_ksl_it_init 0 (length u))"
proof -
  show "removal_ok lt is_root 0 (Ksl_leaf (u @ x # v)) (Ksl_leaf (u @ v))"
    using assms by (auto simp: removal_ok_def remove_ok_def root_ok_def sorted_wrt_append intro: exI [of _ 0])
  show "removed lt key (Ksl_leaf (u @ x # v)) (Ksl_leaf (u @ v)) (dwnx_ksl_it_init 0 (length u))"
    unfolding removed_def
    by (rule exI [of _ "[]"], rule exI [of _ u], rule exI [of _ x], rule exI [of _ v], rule exI [of _ "[]"])
      (use assms(2) in \<open>simp add: dwnx_ksl_it_init_def\<close>)
qed

lemma removal_same:
  assumes "blk_ok lt h blk" and "blk_n blk \<le> DWNX_KSL_MAX_NBLK" and "is_root \<Longrightarrow> 0 < h \<Longrightarrow> 2 \<le> blk_n blk"
  shows "removal_ok lt is_root h blk blk"
  using assms by (auto simp: removal_ok_def remove_ok_def root_ok_def)

lemma remove_loop_wp:
  assumes "blk_ok lt h blk" and "blk_n blk \<le> DWNX_KSL_MAX_NBLK" and "is_root \<Longrightarrow> 0 < h \<Longrightarrow> 2 \<le> blk_n blk"
    and "\<not> is_root \<Longrightarrow> DWNX_KSL_MIN_NBLK < blk_n blk"
  shows "wp (ksl_remove_loop lt (ksl_search_def lt) mem is_root blk key)
    (\<lambda>it s. fst s = mem \<and> removal_ok lt is_root h blk (snd s) \<and> removed lt key blk (snd s) it)
    (\<lambda>e s. fst s = mem \<and> removal_ok lt is_root h blk (snd s) \<and> contents (snd s) = contents blk \<and>
       key_absent lt key (contents blk) \<and> e = ERR_INVALID_ARGUMENT)"
    (is "wp _ (?Q is_root h blk) (?E is_root h blk)")
  using assms
proof (induction h arbitrary: blk is_root)
  case 0
  then obtain es where es: "blk = Ksl_leaf es" "sorted_wrt lt (map fst es)" by (auto elim: blk_ok_0E)
  define i where "i = ksl_search_def lt (map fst es) key"
  note same = removal_same [OF 0(1-3)]
  have run: "ksl_remove_loop lt (ksl_search_def lt) mem is_root blk key =
      (if i = length es then SErr ERR_INVALID_ARGUMENT (mem, blk)
       else if lt key (fst (es ! i)) then SErr ERR_INVALID_ARGUMENT (mem, blk)
       else SOk (dwnx_ksl_it_init 0 i) (mem, Ksl_leaf (ksl_remove_node es i)))"
    unfolding es(1) ksl_remove_loop.simps i_def [symmetric] Let_def ..
  show ?case
  proof (cases "i = length es")
    case True
    have "key_absent lt key (contents blk)"
      using search_all [OF True [unfolded i_def]] es(1) by (auto simp: key_absent_def key_equal_def)
    then show ?thesis unfolding run using True same by simp
  next
    case False
    from search_split [OF i_def False] obtain u x v where
      e: "es = u @ x # v" "i = length u" "\<forall>e \<in> set u. lt (fst e) key" "\<not> lt (fst x) key" .
    show ?thesis
    proof (cases "lt key (fst x)")
      case True
      then have "\<forall>y \<in> set v. lt key (fst y)" using es(2) e(1) trans by (auto simp: sorted_wrt_append)
      then have "key_absent lt key (contents blk)"
        using e(1,3) True es(1) by (auto simp: key_absent_def key_equal_def)
      then show ?thesis unfolding run using True False e(1,2) same by simp
    next
      case not: False
      then have "key_equal lt (fst x) key" using e(4) by (simp add: key_equal_def)
      then show ?thesis
        unfolding run using remove_leaf [of u x v key] not False e(1,2) es(1) 0(1,2) by (simp add: ksl_remove_node_def)
    qed
  qed
next
  case (Suc h)
  then obtain es where es: "blk = Ksl_inner es" "es \<noteq> []" "nodes_ok lt h es" by (auto elim: blk_ok_SucE)
  define i where "i = ksl_search_def lt (map fst es) key"
  have n: "length es \<le> DWNX_KSL_MAX_NBLK" using Suc.prems(2) es(1) by simp
  note same = removal_same [OF Suc.prems(1-3)]
  show ?case
  proof (cases "i = length es")
    case True
    have "lt (fst x) key" if x: "x \<in> set (nodes_contents es)" for x
    proof -
      obtain e where "e \<in> set es" "fst x \<in> ksl_all_keys (snd e)" using nodes_contents_keys [OF x] by blast
      then show ?thesis using nodes_below [OF es(3) search_all [OF True [unfolded i_def]], of e "fst x"] by blast
    qed
    then have "key_absent lt key (contents blk)"
      unfolding key_absent_def key_equal_def es(1) ksl_leaves.simps by blast
    then show ?thesis using True same es(1) by (simp add: Let_def flip: i_def)
  next
    case False
    from search_split [OF i_def False] obtain pre e suf where
      e: "es = pre @ e # suf" "i = length pre" "\<forall>e \<in> set pre. lt (fst e) key" "\<not> lt (fst e) key" .
    obtain k b where kb: "e = (k, b)" by (cases e)
    have eq: "es = pre @ (k, b) # suf" using e(1) kb by simp
    have ok: "nodes_ok lt h (pre @ (k, b) # suf)" and k: "\<not> lt k key" using es(3) eq e(4) kb by auto
    have f0: "focus lt h key es pre k b suf" using focus_start [OF ok e(3) k] eq by simp
    note f0D = focusD [OF f0]
    have step: "wp (in_node (pre' @ (k', b') # suf') (length pre') (ksl_remove_loop lt (ksl_search_def lt) mem False b' key))
        (?Q is_root (Suc h) blk) (?E is_root (Suc h) blk)"
      if f: "focus lt h key es pre' k' b' suf'" and b': "DWNX_KSL_MIN_NBLK < blk_n b'"
        and len: "length es \<le> Suc (length (pre' @ (k', b') # suf'))" "length (pre' @ (k', b') # suf') \<le> length es"
          "is_root \<Longrightarrow> 2 \<le> length (pre' @ (k', b') # suf')"
      for pre' k' b' suf'
    proof -
      note fD = focusD [OF f]
      have put: "removal_ok lt is_root (Suc h) blk (Ksl_inner (pre' @ (k', b'') # suf'))" if "removal_ok lt False h b' b''" for b''
      proof -
        have "remove_ok lt (Suc h) (Ksl_inner es) (Ksl_inner (pre' @ (k', b'') # suf'))"
          by (rule remove_back [OF f _ b']) (use that len n in \<open>simp_all add: removal_ok_def\<close>)
        then show ?thesis
          using len(3) n es(1) unfolding removal_ok_def remove_ok_def root_ok_def
          by (cases is_root) (simp_all del: blk_ok.simps, rule exI [of _ "Suc h"], simp del: blk_ok.simps)
      qed
      have lift: "removed lt key blk (Ksl_inner (pre' @ (k', b'') # suf')) (it\<lparr>it_blk := length (nodes_leaves pre') + it_blk it\<rparr>)"
        if "removed lt key b' b'' it" for b'' it
        using removed_lift [OF that] focus_contents(3) [OF f] es(1) by blast
      have sized: "blk_n b' \<le> DWNX_KSL_MAX_NBLK" using fD(5) by (simp add: blk_sized_def)
      have "wp (ksl_remove_loop lt (ksl_search_def lt) mem False b' key) (?Q False h b') (?E False h b')"
        by (rule Suc.IH [OF fD(4) sized]) (use b' in simp_all)
      then show ?thesis
        unfolding in_node_wp [OF refl]
      proof (rule wp_mono, goal_cases)
        case (1 it s)
        then show ?case using put lift by simp
      next
        case (2 e s)
        then show ?case using put [of "snd s"] absent_lift [OF f] focus_contents(3) [OF f] unfolding es(1) by simp
      qed
    qed
    define merge where "merge = (\<lambda>i. case ksl_merge_node is_root es i of
        Ok (None, b) \<Rightarrow> ksl_remove_loop lt (ksl_search_def lt) mem True b key
      | Ok (Some es', b) \<Rightarrow> in_node es' i (ksl_remove_loop lt (ksl_search_def lt) mem False b key)
      | _ \<Rightarrow> SAbort)"
    have merged: "wp (merge (length pre')) (?Q is_root (Suc h) blk) (?E is_root (Suc h) blk)"
      if es': "es = pre' @ (k1, b1) # (k2, b2) # suf'" and small: "blk_n b1 = DWNX_KSL_MIN_NBLK" "blk_n b2 = DWNX_KSL_MIN_NBLK"
        and pre': "\<forall>e \<in> set pre'. lt (fst e) key" and suf': "\<forall>e \<in> set suf'. \<forall>x \<in> node_keys e. lt key x"
      for pre' k1 b1 k2 b2 suf'
    proof -
      have ok': "nodes_ok lt h (pre' @ (k1, b1) # (k2, b2) # suf')" using es(3) es' by simp
      from merge_wp [OF ok' small, of is_root, folded es'] obtain m where
        m: "ksl_merge_node is_root es (length pre') =
            Ok (if is_root \<and> pre' = [] \<and> suf' = [] then None else Some (pre' @ (blk_last_key m, m) # suf'), m)"
          "blk_ok lt h m" "blk_n m = DWNX_KSL_MAX_NBLK" "contents m = contents b1 @ contents b2"
          "ksl_all_keys m = ksl_all_keys b1 \<union> ksl_all_keys b2" "nodes_ok lt h [(blk_last_key m, m)]"
          "blk_last_key m \<in> ksl_all_keys m" .
      have size: "2 \<le> blk_n m" "DWNX_KSL_MIN_NBLK < blk_n m"
        using m(3) by (simp_all add: DWNX_KSL_MAX_NBLK_def DWNX_KSL_MIN_NBLK_def DWNX_KSL_DEGR_def)
      show ?thesis
      proof (cases "is_root \<and> pre' = [] \<and> suf' = []")
        case True
        have c: "contents m = contents blk" using m(4) es(1) es' True by simp
        have ck: "ksl_all_keys m \<subseteq> ksl_all_keys blk" using m(5) es(1) es' True by auto
        have "wp (ksl_remove_loop lt (ksl_search_def lt) mem True m key) (?Q True h m) (?E True h m)"
          by (rule Suc.IH [OF m(2)]) (use m(3) size in simp_all)
        then have "wp (ksl_remove_loop lt (ksl_search_def lt) mem True m key) (?Q True (Suc h) blk) (?E True (Suc h) blk)"
          by (rule wp_mono) (use subset_trans [OF _ ck] in \<open>simp_all add: removal_ok_def removed_def c\<close>)
        then show ?thesis using True m(1) by (simp add: merge_def)
      next
        case False
        have keys: "(\<Union>e \<in> set [(blk_last_key m, m)]. node_keys e) \<subseteq> node_keys (k1, b1) \<union> node_keys (k2, b2)"
          using m(5,7) by auto
        have c: "nodes_contents [(blk_last_key m, m)] = contents b1 @ contents b2" using m(4) by simp
        note r = replace_two [OF ok' m(6) keys c, folded es']
        have f: "focus lt h key es pre' (blk_last_key m) m suf'"
          using r pre' suf' by (simp add: focus_def)
        have "is_root \<Longrightarrow> 2 \<le> length (pre' @ (blk_last_key m, m) # suf')"
          using False by (cases pre'; cases suf') simp_all
        from step [OF f size(2) _ _ this] show ?thesis
          using m(1) es' False by (simp add: merge_def)
      qed
    qed
    have sized: "DWNX_KSL_MIN_NBLK \<le> blk_n b" using f0D(5) by (simp add: blk_sized_def)
    have nth: "snd (es ! length pre) = b" "length pre < length es" using eq by simp_all
    have here: "(length pre = length es) = False" "(length es < length pre) = False" using nth(2) by simp_all
    have run: "ksl_remove_loop lt (ksl_search_def lt) mem is_root blk key =
        (if blk_n b > DWNX_KSL_MIN_NBLK
         then in_node es (length pre) (ksl_remove_loop lt (ksl_search_def lt) mem False b key)
         else sassert (blk_n b = DWNX_KSL_MIN_NBLK)
           (if length pre + 1 < length es \<and> blk_n (snd (es ! (length pre + 1))) > DWNX_KSL_MIN_NBLK then
              (case ksl_shift_left es (length pre + 1) of
                 Ok es' \<Rightarrow> in_node es' (length pre) (ksl_remove_loop lt (ksl_search_def lt) mem False (snd (es' ! length pre)) key)
               | _ \<Rightarrow> SAbort)
            else if length pre > 0 \<and> blk_n (snd (es ! (length pre - 1))) > DWNX_KSL_MIN_NBLK then
              (case ksl_shift_right es (length pre - 1) of
                 Ok es' \<Rightarrow> in_node es' (length pre) (ksl_remove_loop lt (ksl_search_def lt) mem False (snd (es' ! length pre)) key)
               | _ \<Rightarrow> SAbort)
            else if length pre + 1 < length es then merge (length pre)
            else sassert (length pre > 0) (merge (length pre - 1))))"
      unfolding es(1) ksl_remove_loop.simps i_def [symmetric] Let_def e(2) nth(1) merge_def here if_False ..
    show ?thesis
    proof (cases "DWNX_KSL_MIN_NBLK < blk_n b")
      case True
      then show ?thesis
        using step [OF f0 True] eq Suc.prems(3) es(1) unfolding run by simp
    next
      case False
      then have small: "blk_n b = DWNX_KSL_MIN_NBLK" using sized by simp
      have other: "blk_n b' = DWNX_KSL_MIN_NBLK" if "(k', b') \<in> set es" "\<not> DWNX_KSL_MIN_NBLK < blk_n b'" for k' b'
        using es(3) that by (fastforce simp: nodes_ok_def blk_sized_def)
      consider (left) k2 b2 suf' where "suf = (k2, b2) # suf'" "DWNX_KSL_MIN_NBLK < blk_n b2"
        | (right) pre' k0 b0 where "pre = pre' @ [(k0, b0)]" "DWNX_KSL_MIN_NBLK < blk_n b0"
            "\<not> (length pre + 1 < length es \<and> blk_n (snd (es ! (length pre + 1))) > DWNX_KSL_MIN_NBLK)"
        | (up) k2 b2 suf' where "suf = (k2, b2) # suf'" "blk_n b2 = DWNX_KSL_MIN_NBLK"
            "\<not> (length pre > 0 \<and> blk_n (snd (es ! (length pre - 1))) > DWNX_KSL_MIN_NBLK)"
        | (down) pre' k0 b0 where "suf = []" "pre = pre' @ [(k0, b0)]" "blk_n b0 = DWNX_KSL_MIN_NBLK"
      proof (cases suf)
        case Nil
        then have "pre \<noteq> []" using Suc.prems(3,4) small es(1) eq
          by (cases is_root) (auto simp: DWNX_KSL_MIN_NBLK_def DWNX_KSL_DEGR_def)
        then obtain pre' k0 b0 where p: "pre = pre' @ [(k0, b0)]" by (cases pre rule: rev_cases) auto
        show thesis
        proof (cases "DWNX_KSL_MIN_NBLK < blk_n b0")
          case True
          then show thesis using right [OF p] Nil eq by simp
        next
          case False
          then show thesis using down [OF Nil p] other [of k0 b0] p eq by simp
        qed
      next
        case (Cons e2 suf')
        obtain k2 b2 where e2: "e2 = (k2, b2)" by (cases e2)
        show thesis
        proof (cases "DWNX_KSL_MIN_NBLK < blk_n b2")
          case True
          then show thesis using left Cons e2 by simp
        next
          case b2: False
          show thesis
          proof (cases "length pre > 0 \<and> blk_n (snd (es ! (length pre - 1))) > DWNX_KSL_MIN_NBLK")
            case True
            then obtain pre' k0 b0 where p: "pre = pre' @ [(k0, b0)]" by (cases pre rule: rev_cases) auto
            then show thesis using True right [OF p] Cons e2 b2 eq by (simp add: nth_append)
          next
            case False
            then show thesis using up [of k2 b2 suf'] other [of k2 b2] Cons e2 b2 eq by simp
          qed
        qed
      qed
      then show ?thesis
      proof cases
        case left
        have ok': "nodes_ok lt h (pre @ (k, b) # (k2, b2) # suf')" using ok left(1) by simp
        have eq': "pre @ (k, b) # (k2, b2) # suf' = es" using eq left(1) by simp
        from shift_left_wp [OF ok' small left(2), unfolded eq'] obtain l r where
          s: "ksl_shift_left es (length pre + 1) = Ok (pre @ (blk_last_key l, l) # (k2, r) # suf')"
            "DWNX_KSL_MIN_NBLK < blk_n l" "contents l @ contents r = contents b @ contents b2"
            "ksl_all_keys l \<union> ksl_all_keys r = ksl_all_keys b \<union> ksl_all_keys b2"
            "nodes_ok lt h [(blk_last_key l, l), (k2, r)]" "ksl_all_keys r \<subseteq> ksl_all_keys b2" "blk_last_key l \<in> ksl_all_keys l" .
        have keys: "(\<Union>e \<in> set [(blk_last_key l, l), (k2, r)]. node_keys e) \<subseteq> node_keys (k, b) \<union> node_keys (k2, b2)"
          using s(4,7) by auto
        have c: "nodes_contents [(blk_last_key l, l), (k2, r)] = contents b @ contents b2" using s(3) by simp
        note r = replace_two [OF ok' s(5) keys c, unfolded eq']
        have "\<forall>e \<in> set ((k2, r) # suf'). \<forall>x \<in> node_keys e. lt key x"
        proof (intro ballI)
          fix e x assume "e \<in> set ((k2, r) # suf')" "x \<in> node_keys e"
          then have "(\<exists>e' \<in> set suf. x \<in> node_keys e')" using left(1) s(6) by (auto simp: subset_iff)
          then show "lt key x" using f0D(10) by blast
        qed
        then have f: "focus lt h key es pre (blk_last_key l) l ((k2, r) # suf')"
          using r e(3) by (simp add: focus_def)
        have "length pre + 1 < length es \<and> blk_n (snd (es ! (length pre + 1))) > DWNX_KSL_MIN_NBLK"
          using eq left by (simp add: nth_append)
        then show ?thesis
          using step [OF f s(2)] eq left(1) Suc.prems(3) es(1) small unfolding run s(1) by simp
      next
        case right
        have ok': "nodes_ok lt h (pre' @ (k0, b0) # (k, b) # suf)" using ok right(1) by simp
        have eq': "pre' @ (k0, b0) # (k, b) # suf = es" using eq right(1) by simp
        from shift_right_wp [OF ok' right(2) small, unfolded eq'] obtain l r where
          s: "ksl_shift_right es (length pre') = Ok (pre' @ (blk_last_key l, l) # (k, r) # suf)"
            "DWNX_KSL_MIN_NBLK < blk_n r" "contents l @ contents r = contents b0 @ contents b"
            "ksl_all_keys l \<union> ksl_all_keys r = ksl_all_keys b0 \<union> ksl_all_keys b"
            "nodes_ok lt h [(blk_last_key l, l), (k, r)]" "blk_last_key l \<in> ksl_all_keys b0" .
        have keys: "(\<Union>e \<in> set [(blk_last_key l, l), (k, r)]. node_keys e) \<subseteq> node_keys (k0, b0) \<union> node_keys (k, b)"
          using s(4,6) by auto
        have c: "nodes_contents [(blk_last_key l, l), (k, r)] = contents b0 @ contents b" using s(3) by simp
        note r = replace_two [OF ok' s(5) keys c, unfolded eq']
        have "lt (blk_last_key l) key"
        proof (rule le_less)
          show "\<not> lt k0 (blk_last_key l)" using neighbours(7) [OF ok'] s(6) by blast
          show "lt k0 key" using e(3) right(1) by simp
        qed
        then have f: "focus lt h key es (pre' @ [(blk_last_key l, l)]) k r suf"
          using r e(3) right(1) f0D(10) by (simp add: focus_def)
        have "length pre > 0 \<and> blk_n (snd (es ! (length pre - 1))) > DWNX_KSL_MIN_NBLK" "length pre - 1 = length pre'"
          using eq right by (simp_all add: nth_append)
        note here' = this
        have w: "wp (in_node (pre' @ (blk_last_key l, l) # (k, r) # suf) (length pre)
            (ksl_remove_loop lt (ksl_search_def lt) mem False r key)) (?Q is_root (Suc h) blk) (?E is_root (Suc h) blk)"
          using step [OF f s(2)] eq right(1) Suc.prems(3) es(1) by simp
        have c1: "(DWNX_KSL_MIN_NBLK < blk_n b) = False" using small by simp
        have c2: "(length pre + 1 < length es \<and> blk_n (snd (es ! (length pre + 1))) > DWNX_KSL_MIN_NBLK) = False"
          using right(3) by blast
        have c3: "(length pre > 0 \<and> blk_n (snd (es ! length pre')) > DWNX_KSL_MIN_NBLK) = True" using here' by simp
        have at: "snd ((pre' @ (blk_last_key l, l) # (k, r) # suf) ! length pre) = r" using right(1) by (simp add: nth_append)
        show ?thesis
          unfolding run c1 c2 c3 if_False if_True here'(2) s(1) res.case at wp_sassert using small w by blast
      next
        case up
        have no: "\<not> (length pre + 1 < length es \<and> blk_n (snd (es ! (length pre + 1))) > DWNX_KSL_MIN_NBLK)" "length pre + 1 < length es"
          using eq up(1,2) by (simp_all add: nth_append)
        have "wp (merge (length pre)) (?Q is_root (Suc h) blk) (?E is_root (Suc h) blk)"
        proof (rule merged [OF _ small up(2) e(3)])
          show "es = pre @ (k, b) # (k2, b2) # suf'" using eq up(1) by simp
          show "\<forall>e \<in> set suf'. \<forall>x \<in> node_keys e. lt key x" using f0D(10) unfolding up(1) by auto
        qed
        then show ?thesis using no up(3) small unfolding run by (cases "pre = []") simp_all
      next
        case down
        have no: "\<not> length pre + 1 < length es" "length pre > 0" "length pre - 1 = length pre'"
          "\<not> (length pre > 0 \<and> blk_n (snd (es ! (length pre - 1))) > DWNX_KSL_MIN_NBLK)"
          using eq down by (simp_all add: nth_append)
        have "wp (merge (length pre')) (?Q is_root (Suc h) blk) (?E is_root (Suc h) blk)"
          by (rule merged [of pre' k0 b0 k b "[]", OF _ down(3) small]) (use eq down(1,2) e(3) in simp_all)
        then show ?thesis using no small unfolding run by simp
      qed
    qed
  qed
qed

end

end
