(* ===== verification/KslFind.thy ===== *)
theory KslFind
  imports KslRemove
begin

text \<open>Finding a place in the ordered map, and changing a key in place.\<close>

section \<open>Places\<close>

text \<open>An iterator at the element number \<open>n\<close>, or at the end.\<close>

definition it_at :: "'a list list \<Rightarrow> dwnx_ksl_it \<Rightarrow> nat \<Rightarrow> bool" where
  "it_at ls it n \<longleftrightarrow>
     it_blk it < length ls \<and> it_i it \<le> length (ls ! it_blk it) \<and> length (concat (take (it_blk it) ls)) + it_i it = n"

definition it_settled :: "'a list list \<Rightarrow> dwnx_ksl_it \<Rightarrow> bool" where
  "it_settled ls it \<longleftrightarrow> it_i it < length (ls ! it_blk it) \<or> it_blk it + 1 = length ls"

text \<open>No leaf is empty but a root.\<close>

definition leaves_ok :: "'a list list \<Rightarrow> bool" where
  "leaves_ok ls \<longleftrightarrow> length ls = 1 \<or> ls \<noteq> [] \<and> [] \<notin> set ls"

lemma it_settle_at:
  assumes "it_at ls it n" and "leaves_ok ls"
  shows "it_at ls (it_settle ls it) n" and "it_settled ls (it_settle ls it)"
proof -
  have "it_at ls (it_settle ls it) n \<and> it_settled ls (it_settle ls it)"
  proof (cases "it_i it = length (ls ! it_blk it) \<and> it_blk it + 1 < length ls")
    case True
    then have "ls ! (it_blk it + 1) \<in> set ls" by simp
    moreover have "[] \<notin> set ls" using assms(2) True by (auto simp: leaves_ok_def)
    ultimately have "ls ! (it_blk it + 1) \<noteq> []" by metis
    then show ?thesis
      using True assms(1)
      by (auto simp: it_settle_def it_at_def it_settled_def dwnx_ksl_it_init_def take_Suc_conv_app_nth)
  next
    case False
    then show ?thesis using assms(1) by (auto simp: it_settle_def it_at_def it_settled_def)
  qed
  then show "it_at ls (it_settle ls it) n" "it_settled ls (it_settle ls it)" by simp_all
qed

lemma concat_split_at: "l < length ls \<Longrightarrow> concat ls = concat (take l ls) @ ls ! l @ concat (drop (Suc l) ls)"
  by (subst id_take_nth_drop [of l ls]) simp_all

lemma it_at_element:
  assumes "it_at ls it n" and "it_settled ls it"
  shows "n \<le> length (concat ls)" and "n = length (concat ls) \<longleftrightarrow> it_i it = length (ls ! it_blk it) \<and> it_blk it + 1 = length ls"
    and "n < length (concat ls) \<Longrightarrow> concat ls ! n = ls ! it_blk it ! it_i it"
proof -
  have l: "it_blk it < length ls" "n = length (concat (take (it_blk it) ls)) + it_i it" "it_i it \<le> length (ls ! it_blk it)"
    using assms(1) by (auto simp: it_at_def)
  note c = concat_split_at [OF l(1)]
  have len: "length (concat ls) = length (concat (take (it_blk it) ls)) + length (ls ! it_blk it) + length (concat (drop (Suc (it_blk it)) ls))"
    by (subst c) (simp only: length_append add.assoc)
  show "n \<le> length (concat ls)" unfolding len using l by linarith
  show e: "n = length (concat ls) \<longleftrightarrow> it_i it = length (ls ! it_blk it) \<and> it_blk it + 1 = length ls"
  proof
    assume "n = length (concat ls)"
    then have "it_i it = length (ls ! it_blk it)" using l len by linarith
    then show "it_i it = length (ls ! it_blk it) \<and> it_blk it + 1 = length ls"
      using assms(2) by (simp add: it_settled_def)
  next
    assume "it_i it = length (ls ! it_blk it) \<and> it_blk it + 1 = length ls"
    then show "n = length (concat ls)" unfolding len using l(2) by simp
  qed
  assume "n < length (concat ls)"
  then have "it_i it \<noteq> length (ls ! it_blk it) \<or> it_blk it + 1 \<noteq> length ls" using e by auto
  then have "it_i it < length (ls ! it_blk it)" using assms(2) l(3) by (auto simp: it_settled_def)
  then show "concat ls ! n = ls ! it_blk it ! it_i it"
    unfolding l(2) by (subst c) (simp add: nth_append del: concat_append)
qed

section \<open>The leaves\<close>

lemma takeWhile_stop: "takeWhile p ys = [] \<Longrightarrow> takeWhile p (xs @ ys) = takeWhile p xs"
  by (induction xs) simp_all

lemma sorted_wrt_appendI:
  "sorted_wrt lt xs \<Longrightarrow> sorted_wrt lt ys \<Longrightarrow> \<forall>x \<in> set xs. \<forall>y \<in> set ys. lt x y \<Longrightarrow> sorted_wrt lt (xs @ ys)"
  by (simp add: sorted_wrt_append)

lemma search_takeWhile: "ksl_search_def cmp (map fst es) key = length (takeWhile (\<lambda>x. cmp (fst x) key) es)"
  by (induction es) simp_all

lemma leaves_nonempty:
  assumes "blk_ok lt h blk" and "0 < h \<or> blk_sized blk"
  shows "[] \<notin> set (ksl_leaves blk)" and "ksl_leaves blk \<noteq> []"
proof -
  have "[] \<notin> set (ksl_leaves blk) \<and> ksl_leaves blk \<noteq> []"
    using assms
  proof (induction h arbitrary: blk)
    case 0
    then show ?case by (auto elim!: blk_ok_0E simp: blk_sized_def DWNX_KSL_MIN_NBLK_def DWNX_KSL_DEGR_def)
  next
    case (Suc h)
    then obtain es where es: "blk = Ksl_inner es" "es \<noteq> []" "nodes_ok lt h es" by (auto elim: blk_ok_SucE)
    then have "\<forall>e \<in> set es. [] \<notin> set (ksl_leaves (snd e)) \<and> ksl_leaves (snd e) \<noteq> []"
      using Suc.IH by (simp add: nodes_ok_def)
    then show ?case using es(1,2) by (cases es) auto
  qed
  then show "[] \<notin> set (ksl_leaves blk)" "ksl_leaves blk \<noteq> []" by simp_all
qed

lemma root_leaves_ok: "root_ok lt h blk \<Longrightarrow> leaves_ok (ksl_leaves blk)"
  using leaves_nonempty [of lt h blk]
  by (cases h) (auto simp: root_ok_def leaves_ok_def elim!: blk_ok_0E)

text \<open>A property of keys that holds up to some place in the order.\<close>

definition cuts :: "('k \<Rightarrow> 'k \<Rightarrow> bool) \<Rightarrow> ('k \<Rightarrow> bool) \<Rightarrow> 'k set \<Rightarrow> bool" where
  "cuts lt p ks \<longleftrightarrow> (\<forall>a \<in> ks. \<forall>b \<in> ks. p b \<longrightarrow> \<not> lt b a \<longrightarrow> p a)"

lemma cutsD: "cuts lt p ks \<Longrightarrow> a \<in> ks \<Longrightarrow> b \<in> ks \<Longrightarrow> p b \<Longrightarrow> \<not> lt b a \<Longrightarrow> p a"
  unfolding cuts_def by blast

lemma cuts_mono: "cuts lt p ks \<Longrightarrow> ks' \<subseteq> ks \<Longrightarrow> cuts lt p ks'"
  unfolding cuts_def by blast

context ksl_order
begin

lemma contents_sorted: "blk_ok lt h blk \<Longrightarrow> sorted_wrt lt (map fst (contents blk))"
proof (induction h arbitrary: blk)
  case 0
  then show ?case by (auto elim!: blk_ok_0E)
next
  case (Suc h)
  then obtain es where es: "blk = Ksl_inner es" "nodes_ok lt h es" by (auto elim: blk_ok_SucE)
  have "sorted_wrt lt (map fst (nodes_contents es))"
    using es(2)
  proof (induction es)
    case (Cons e es)
    have less: "lt (fst x) (fst y)" if x: "x \<in> set (contents (snd e))" and y: "y \<in> set (nodes_contents es)" for x y
    proof -
      obtain f where f: "f \<in> set es" "fst y \<in> ksl_all_keys (snd f)" using nodes_contents_keys [OF y] by blast
      have "\<not> lt (fst e) (fst x)" "lt (fst e) (fst y)"
        using Cons.prems contents_keys [OF x] f by (auto simp: nodes_ok_Cons node_less_def)
      then show ?thesis by (rule le_less)
    qed
    have all: "\<forall>x \<in> set (map fst (contents (snd e))). \<forall>y \<in> set (map fst (nodes_contents es)). lt x y"
      unfolding set_map using less by blast
    have sorted: "sorted_wrt lt (map fst (contents (snd e)))" "sorted_wrt lt (map fst (nodes_contents es))"
      using Suc.IH Cons by (simp_all add: nodes_ok_Cons)
    have eq: "map fst (nodes_contents (e # es)) = map fst (contents (snd e)) @ map fst (nodes_contents es)" by simp
    show ?case unfolding eq by (rule sorted_wrt_appendI [OF sorted all])
  qed simp
  then show ?case using es(1) by simp
qed

section \<open>The lower bound\<close>

lemma lower_bound_loop:
  assumes "blk_ok lt h blk" and "blk_sized blk \<or> root_ok lt h blk" and "cuts lt (\<lambda>k. cmp k key) (ksl_all_keys blk)"
  shows "\<exists>it. ksl_lower_bound_loop (ksl_search_def cmp) blk key = Ok it \<and>
    it_at (ksl_leaves blk) it (length (takeWhile (\<lambda>x. cmp (fst x) key) (contents blk)))"
  using assms
proof (induction h arbitrary: blk)
  case 0
  then obtain es where "blk = Ksl_leaf es" by (auto elim: blk_ok_0E)
  then show ?case by (simp add: search_takeWhile it_at_def dwnx_ksl_it_init_def length_takeWhile_le)
next
  case (Suc h)
  then obtain es where es: "blk = Ksl_inner es" "es \<noteq> []" "nodes_ok lt h es" by (auto elim: blk_ok_SucE)
  define i where "i = ksl_search_def cmp (map fst es) key"
  have below: "cmp (fst x) key" if "e \<in> set es" "x \<in> set (contents (snd e))" "cmp (fst e) key" for e x
  proof -
    have k: "fst x \<in> ksl_all_keys (snd e)" by (rule contents_keys [OF that(2)])
    then have "\<not> lt (fst e) (fst x)" using es(3) that(1) by (simp add: nodes_ok_def)
    moreover have "fst x \<in> ksl_all_keys blk" "fst e \<in> ksl_all_keys blk" using k that(1) es(1) by auto
    ultimately show ?thesis using cutsD [OF Suc.prems(3)] that(3) by blast
  qed
  show ?case
  proof (cases "i = length es")
    case True
    have all: "\<forall>x \<in> set (nodes_contents es). cmp (fst x) key"
    proof
      fix x assume "x \<in> set (nodes_contents es)"
      then obtain e where "e \<in> set es" "x \<in> set (contents (snd e))" by auto
      then show "cmp (fst x) key" using below search_all [OF True [unfolded i_def]] by blast
    qed
    have ne: "nodes_leaves es \<noteq> []" using leaves_nonempty(2) [OF Suc.prems(1)] es(1) by simp
    then have "nodes_leaves es = butlast (nodes_leaves es) @ [last (nodes_leaves es)]" by simp
    then have len: "length (nodes_contents es) = length (concat (butlast (nodes_leaves es))) + length (last (nodes_leaves es))"
      by (metis concat_append concat.simps append_Nil2 length_append)
    show ?thesis
      using True all ne es(1) len
      by (simp add: takeWhile_eq_all_conv [THEN iffD2] it_at_def dwnx_ksl_it_init_def last_conv_nth butlast_conv_take flip: i_def)
  next
    case False
    from search_split [OF i_def False] obtain pre e suf where
      e: "es = pre @ e # suf" "i = length pre" "\<forall>e \<in> set pre. cmp (fst e) key" "\<not> cmp (fst e) key" .
    obtain k b where kb: "e = (k, b)" by (cases e)
    have b: "blk_ok lt h b" "blk_sized b" using es(3) e(1) kb by (auto simp: nodes_ok_simps)
    have "cuts lt (\<lambda>k. cmp k key) (ksl_all_keys b)" 
      by (rule cuts_mono [OF Suc.prems(3)]) (use es(1) e(1) kb in auto)
    from Suc.IH [OF b(1) disjI1 [OF b(2)] this] obtain it where
      it: "ksl_lower_bound_loop (ksl_search_def cmp) b key = Ok it"
        "it_at (ksl_leaves b) it (length (takeWhile (\<lambda>x. cmp (fst x) key) (contents b)))" by blast
    have pre: "\<forall>x \<in> set (nodes_contents pre). cmp (fst x) key" 
    proof
      fix x assume "x \<in> set (nodes_contents pre)"
      then obtain f where "f \<in> set pre" "x \<in> set (contents (snd f))" by auto
      then show "cmp (fst x) key" using below [of f x] e(1,3) by simp
    qed
    have suf: "\<not> cmp (fst x) key" if x: "x \<in> set (nodes_contents suf)" for x
    proof
      assume p: "cmp (fst x) key"
      obtain f where f: "f \<in> set suf" "fst x \<in> ksl_all_keys (snd f)" using nodes_contents_keys [OF x] by blast
      then have "lt k (fst x)" using es(3) e(1) kb by (auto simp: nodes_ok_simps node_less_def)
      then have "\<not> lt (fst x) k" by (rule asym)
      moreover have "fst x \<in> ksl_all_keys blk" "k \<in> ksl_all_keys blk" using f es(1) e(1) kb by auto
      ultimately have "cmp k key" using cutsD [OF Suc.prems(3)] p by blast
      then show False using e(4) kb by simp
    qed
    have n: "length (takeWhile (\<lambda>x. cmp (fst x) key) (contents blk)) =
        length (nodes_contents pre) + length (takeWhile (\<lambda>x. cmp (fst x) key) (contents b))"
    proof -
      have c: "contents blk = nodes_contents pre @ contents b @ nodes_contents suf" using es(1) e(1) kb by simp
      have "takeWhile (\<lambda>x. cmp (fst x) key) (nodes_contents suf) = []"
        using suf hd_in_set [of "nodes_contents suf"] takeWhile_eq_Nil_iff by blast
      then have "takeWhile (\<lambda>x. cmp (fst x) key) (contents b @ nodes_contents suf) = takeWhile (\<lambda>x. cmp (fst x) key) (contents b)"
        by (rule takeWhile_stop)
      then show ?thesis unfolding c using takeWhile_append2 [of "nodes_contents pre"] pre by (metis length_append)
    qed
    have run: "ksl_lower_bound_loop (ksl_search_def cmp) blk key =
        Ok (it\<lparr>it_blk := length (nodes_leaves pre) + it_blk it\<rparr>)"
    proof -
      have "es ! i = (k, b)" "take i es = pre" "\<not> length es < i" using e(1,2) kb by simp_all
      then show ?thesis
        using it(1) False unfolding es(1) ksl_lower_bound_loop.simps i_def [symmetric] Let_def by simp
    qed
    moreover have "it_at (ksl_leaves blk) (it\<lparr>it_blk := length (nodes_leaves pre) + it_blk it\<rparr>)
        (length (takeWhile (\<lambda>x. cmp (fst x) key) (contents blk)))"
      unfolding n using it(2) es(1) e(1) kb by (auto simp: it_at_def nth_append)
    ultimately show ?thesis by blast
  qed
qed

section \<open>Changing a key\<close>

text \<open>Every key above a block has an element below it that is not after it.\<close>

lemma keys_have_elements:
  assumes "blk_ok lt h blk" and "x \<in> ksl_all_keys blk"
  shows "\<exists>y \<in> set (contents blk). \<not> lt x (fst y)"
  using assms
proof (induction h arbitrary: blk x)
  case 0
  then show ?case by (force elim!: blk_ok_0E)
next
  case (Suc h)
  then obtain es where es: "blk = Ksl_inner es" "nodes_ok lt h es" by (auto elim: blk_ok_SucE)
  then obtain e where e: "e \<in> set es" "x \<in> node_keys e" using Suc.prems(2) by auto
  then have b: "blk_ok lt h (snd e)" "blk_sized (snd e)" "\<And>x. x \<in> ksl_all_keys (snd e) \<Longrightarrow> \<not> lt (fst e) x"
    using es(2) by (simp_all add: nodes_ok_def)
  have "\<exists>y \<in> set (contents (snd e)). \<not> lt x (fst y)"
  proof (cases "x \<in> ksl_all_keys (snd e)")
    case False
    then have x: "x = fst e" using e(2) by blast
    have "contents (snd e) \<noteq> []" using leaves_nonempty [OF b(1)] b(2) by (cases "ksl_leaves (snd e)") auto
    then obtain y where "y \<in> set (contents (snd e))" by (meson hd_in_set)
    then show ?thesis using b(3) [OF contents_keys] x by blast
  qed (rule Suc.IH [OF b(1)])
  then show ?case using e(1) es(1) by auto
qed

lemma middle:
  assumes "u @ x # v = a @ b @ c" and "x \<notin> set a" and "x \<notin> set c"
  obtains u' v' where "b = u' @ x # v'" "u = a @ u'" "v = v' @ c"
  using assms by (auto simp: append_eq_append_conv2 append_eq_Cons_conv Cons_eq_append_conv)

text \<open>The key of one element, in order between its neighbours. Keys above blocks that are smaller than
  the old key must be smaller than the new one, too.\<close>

lemma update_loop:
  assumes "blk_ok lt h blk" and "contents blk = u @ x # v" and "key_equal lt (fst x) old"
    and "\<forall>y \<in> set u. lt (fst y) new" and "\<forall>y \<in> set v. lt new (fst y)"
    and "\<forall>k \<in> ksl_all_keys blk. lt k old \<longrightarrow> lt k new"
  shows "\<exists>blk'. ksl_update_loop lt (ksl_search_def lt) blk old new = Ok blk' \<and> blk_ok lt h blk' \<and>
    contents blk' = u @ (new, snd x) # v \<and> map length (ksl_leaves blk') = map length (ksl_leaves blk) \<and>
    blk_n blk' = blk_n blk \<and>
    ksl_all_keys blk' \<subseteq> insert new {k \<in> ksl_all_keys blk. \<not> key_equal lt k old}"
  using assms
proof (induction h arbitrary: blk u v)
  case 0
  then obtain es where es: "blk = Ksl_leaf es" "sorted_wrt lt (map fst es)" by (auto elim: blk_ok_0E)
  have e: "es = u @ x # v" using 0(2) es(1) by simp
  have less: "lt y old" if "y \<in> fst ` set u" for y
    using that es(2) e 0(3) by (auto simp: sorted_wrt_append key_equal_def intro: less_le)
  have more: "lt old y" if "y \<in> fst ` set v" for y
    using that es(2) e 0(3) by (auto simp: sorted_wrt_append key_equal_def intro: le_less)
  have i: "ksl_search_def lt (map fst es) old = length u"
    using less 0(3) unfolding e search_takeWhile by (simp add: key_equal_def)
  have "ksl_update_loop lt (ksl_search_def lt) blk old new = Ok (Ksl_leaf (u @ (new, snd x) # v))"
    using 0(3) unfolding es(1) ksl_update_loop.simps i Let_def by (simp add: e nth_append)
  moreover have "blk_ok lt 0 (Ksl_leaf (u @ (new, snd x) # v))"
    using es(2) e 0(4,5) by (auto simp: sorted_wrt_append)
  moreover have "ksl_all_keys (Ksl_leaf (u @ (new, snd x) # v)) \<subseteq> insert new {k \<in> ksl_all_keys blk. \<not> key_equal lt k old}"
    using less more es(1) e by (auto simp: key_equal_def)
  ultimately show ?case using es(1) e by simp
next
  case (Suc h)
  then obtain es where es: "blk = Ksl_inner es" "es \<noteq> []" "nodes_ok lt h es" by (auto elim: blk_ok_SucE)
  define i where "i = ksl_search_def lt (map fst es) old"
  have notx: "\<not> lt (fst x) old" "\<not> lt old (fst x)" using Suc.prems(3) by (simp_all add: key_equal_def)
  have c: "nodes_contents es = u @ x # v" using Suc.prems(2) es(1) by simp
  have "i \<noteq> length es"
  proof
    assume i: "i = length es"
    have "x \<in> set (nodes_contents es)" using c by simp
    then obtain e where "e \<in> set es" "fst x \<in> ksl_all_keys (snd e)" using nodes_contents_keys by blast
    then have "lt (fst x) old" using nodes_below [OF es(3) search_all [OF i [unfolded i_def]], of e "fst x"] by blast
    then show False using notx(1) by simp
  qed
  from search_split [OF i_def this] obtain pre e suf where
    e: "es = pre @ e # suf" "i = length pre" "\<forall>e \<in> set pre. lt (fst e) old" "\<not> lt (fst e) old" .
  obtain k b where kb: "e = (k, b)" by (cases e)
  have ok: "nodes_ok lt h (pre @ (k, b) # suf)" and k: "\<not> lt k old" using es(3) e(1,4) kb by auto
  have f: "focus lt h old es pre k b suf" using focus_start [OF ok e(3) k] e(1) kb by simp
  note fD = focusD [OF f] and fc = focus_contents [OF f]
  have notin: "x \<notin> set (nodes_contents pre)" "x \<notin> set (nodes_contents suf)" using fc(1,2) notx by blast+
  have c': "u @ x # v = nodes_contents pre @ contents b @ nodes_contents suf" using c fc(3) by simp
  from middle [OF this notin] obtain u' v' where b: "contents b = u' @ x # v'" "u = nodes_contents pre @ u'" "v = v' @ nodes_contents suf" .
  have sub: "node_keys (k, b) \<subseteq> ksl_all_keys blk" "\<And>e. e \<in> set pre \<Longrightarrow> node_keys e \<subseteq> ksl_all_keys blk"
    "\<And>e. e \<in> set suf \<Longrightarrow> node_keys e \<subseteq> ksl_all_keys blk"
    using es(1) e(1) kb by auto
  have "\<exists>b'. ksl_update_loop lt (ksl_search_def lt) b old new = Ok b' \<and> blk_ok lt h b' \<and>
      contents b' = u' @ (new, snd x) # v' \<and> map length (ksl_leaves b') = map length (ksl_leaves b) \<and>
      blk_n b' = blk_n b \<and> ksl_all_keys b' \<subseteq> insert new {k \<in> ksl_all_keys b. \<not> key_equal lt k old}"
    by (rule Suc.IH [OF fD(4) b(1) Suc.prems(3)]) (use Suc.prems(4-6) b(2,3) sub(1) in auto)
  then obtain b' where b': "ksl_update_loop lt (ksl_search_def lt) b old new = Ok b'" "blk_ok lt h b'"
    "contents b' = u' @ (new, snd x) # v'" "map length (ksl_leaves b') = map length (ksl_leaves b)"
    "blk_n b' = blk_n b" "ksl_all_keys b' \<subseteq> insert new {k \<in> ksl_all_keys b. \<not> key_equal lt k old}" by blast
  define k' where "k' = (if key_equal lt k old \<or> lt k new then new else k)"
  have newkeys: "node_keys (k', b') \<subseteq> insert new (node_keys (k, b))"
    using b'(6) by (auto simp: k'_def)
  have left: "node_less lt p (k', b')" if p: "p \<in> set pre" for p
  proof (rule node_less_right [OF fD(7) [OF p]])
    fix z assume "z \<in> node_keys (k', b')"
    then have "z = new \<or> z \<in> node_keys (k, b)" using newkeys by blast
    moreover have "lt (fst p) old" "fst p \<in> ksl_all_keys blk" using sub(2) [OF p] e(3) p by simp_all
    then have "lt (fst p) new" using Suc.prems(6) by simp
    ultimately show "z \<in> node_keys (k, b) \<or> lt (fst p) z" by metis
  qed
  have top: "\<not> lt k' y" if y: "y \<in> ksl_all_keys b'" for y
  proof -
    consider "y = new" | "y \<in> ksl_all_keys b" "\<not> key_equal lt y old" using b'(6) y by blast
    then show ?thesis
    proof cases
      case 1
      then show ?thesis by (simp add: k'_def)
    next
      case 2
      have ky: "\<not> lt k y" by (rule fD(3) [OF 2(1)])
      have "\<not> lt new y" if "key_equal lt k old"
      proof -
        have "\<not> lt old y" using that ky le_less [of old k y] by (auto simp: key_equal_def)
        then have "lt y old" using 2(2) unfolding key_equal_def by blast
        moreover have "y \<in> ksl_all_keys blk" using 2(1) sub(1) by (simp add: subset_iff)
        ultimately have "lt y new" using Suc.prems(6) by simp
        then show ?thesis by (rule asym)
      qed
      moreover have "\<not> lt new y" if "lt k new"
        using trans [OF that, of y] ky by blast
      ultimately show ?thesis using ky by (simp add: k'_def)
    qed
  qed
  have right: "node_less lt (k', b') g" if g: "g \<in> set suf" for g
  proof (cases "k' = k")
    case True
    then show ?thesis using fD(6) [OF g] by (simp add: node_less_def)
  next
    case False
    then have k': "k' = new" by (auto simp: k'_def split: if_splits)
    have "blk_ok lt (Suc h) (Ksl_inner [g])" using fD(2) g by (auto simp: nodes_ok_def)
    note single = this
    have "lt new z" if z: "z \<in> node_keys g" for z
    proof -
      have "z \<in> ksl_all_keys (Ksl_inner [g])" using z by simp
      from keys_have_elements [OF single this] obtain y where y: "y \<in> set (contents (Ksl_inner [g]))" "\<not> lt z (fst y)" by blast
      then have "y \<in> set v" using g b(3) by auto
      then have "lt new (fst y)" using Suc.prems(5) by blast
      then show ?thesis using y(2) by (rule less_le)
    qed
    then show ?thesis using k' by (simp add: node_less_def)
  qed
  have new: "nodes_ok lt h (pre @ (k', b') # suf)"
    using fD(1,2,5,8) b'(2,5) left top right by (simp add: nodes_ok_simps blk_sized_def)
  have keys: "node_keys g \<subseteq> {k \<in> ksl_all_keys blk. \<not> key_equal lt k old}" if g: "g \<in> set pre \<or> g \<in> set suf" for g
  proof
    fix z assume z: "z \<in> node_keys g"
    from g have "\<not> key_equal lt z old"
    proof
      assume "g \<in> set pre"
      then have "lt z old" using nodes_below [OF fD(1) fD(9) _ z] by simp
      then show ?thesis by (simp add: key_equal_def)
    next
      assume "g \<in> set suf"
      then have "lt old z" using fD(10) [OF _ z] by simp
      then show ?thesis by (simp add: key_equal_def)
    qed
    moreover have "node_keys g \<subseteq> ksl_all_keys blk" using g sub(2,3) by metis
    then have "z \<in> ksl_all_keys blk" using z by (rule subsetD)
    ultimately show "z \<in> {k \<in> ksl_all_keys blk. \<not> key_equal lt k old}" by simp
  qed
  have "k' = new \<or> k' = k \<and> \<not> key_equal lt k old" by (simp add: k'_def)
  then have "node_keys (k', b') \<subseteq> insert new {k \<in> ksl_all_keys blk. \<not> key_equal lt k old}"
    using b'(6) sub(1) by auto
  moreover have "node_keys g \<subseteq> insert new {k \<in> ksl_all_keys blk. \<not> key_equal lt k old}" if "g \<in> set pre \<or> g \<in> set suf" for g
    using keys [OF that] by blast
  ultimately have all: "ksl_all_keys (Ksl_inner (pre @ (k', b') # suf)) \<subseteq> insert new {k \<in> ksl_all_keys blk. \<not> key_equal lt k old}"
    unfolding ksl_all_keys.simps by (intro UN_least) (simp only: set_append list.set Un_iff insert_iff; metis)
  have nth: "es ! i = (k, b)" "(length es \<le> i) = False" using e(1,2) kb by simp_all
  have "es[i := (k', b')] = pre @ (k', b') # suf" using e(1,2) by simp
  then have run: "ksl_update_loop lt (ksl_search_def lt) blk old new = Ok (Ksl_inner (pre @ (k', b') # suf))"
    unfolding es(1) ksl_update_loop.simps i_def [symmetric] Let_def nth if_False fst_conv snd_conv b'(1) bindr.simps k'_def by simp
  show ?case
  proof (intro exI [of _ "Ksl_inner (pre @ (k', b') # suf)"] conjI)
    show "blk_ok lt (Suc h) (Ksl_inner (pre @ (k', b') # suf))" using new by (simp add: blk_ok_inner del: blk_ok.simps)
    show "contents (Ksl_inner (pre @ (k', b') # suf)) = u @ (new, snd x) # v" using b'(3) b(2,3) by simp
    show "map length (ksl_leaves (Ksl_inner (pre @ (k', b') # suf))) = map length (ksl_leaves blk)"
      using b'(4) es(1) e(1) kb by simp
    show "blk_n (Ksl_inner (pre @ (k', b') # suf)) = blk_n blk" using es(1) e(1) by simp
  qed (rule run all)+
qed

end

end
