(* ===== verification/KslMap.thy ===== *)
theory KslMap
  imports KslFind Gaptr
begin

text \<open>
  The ordered map as a list: every operation of \<open>lib/dwnx_ksl.c\<close>, seen through the elements of the
  leaves from left to right, is the operation on an ordered list of keys and data, and an iterator is
  a position in that list. The orders of the map that the library defines are instances.
\<close>

section \<open>The reference: an ordered list\<close>

definition omap_rank :: "('k \<Rightarrow> 'k \<Rightarrow> bool) \<Rightarrow> 'k \<Rightarrow> ('k \<times> 'd) list \<Rightarrow> nat" where
  "omap_rank lt key xs = length (takeWhile (\<lambda>x. lt (fst x) key) xs)"

definition omap_has :: "('k \<Rightarrow> 'k \<Rightarrow> bool) \<Rightarrow> 'k \<Rightarrow> ('k \<times> 'd) list \<Rightarrow> bool" where
  "omap_has lt key xs \<longleftrightarrow> (\<exists>x \<in> set xs. key_equal lt (fst x) key)"

definition omap_insert :: "('k \<Rightarrow> 'k \<Rightarrow> bool) \<Rightarrow> 'k \<Rightarrow> 'd \<Rightarrow> ('k \<times> 'd) list \<Rightarrow> ('k \<times> 'd) list" where
  "omap_insert lt key data xs =
     takeWhile (\<lambda>x. lt (fst x) key) xs @ (key, data) # dropWhile (\<lambda>x. lt (fst x) key) xs"

definition omap_remove :: "('k \<Rightarrow> 'k \<Rightarrow> bool) \<Rightarrow> 'k \<Rightarrow> ('k \<times> 'd) list \<Rightarrow> ('k \<times> 'd) list" where
  "omap_remove lt key xs = filter (\<lambda>x. \<not> key_equal lt (fst x) key) xs"

lemma omap_insert_length: "length (omap_insert lt key data xs) = Suc (length xs)"
  by (induction xs) (simp_all add: omap_insert_def)

definition ksl_contents :: "('k, 'd) dwnx_ksl \<Rightarrow> ('k \<times> 'd) list" where
  "ksl_contents ksl = concat (all_leaves ksl)"

text \<open>The keys of the elements and those above the blocks.\<close>

definition tree_keys :: "('k, 'd) dwnx_ksl \<Rightarrow> 'k set" where
  "tree_keys ksl = (case ksl_root ksl of None \<Rightarrow> {} | Some root \<Rightarrow> ksl_all_keys root)"

text \<open>The iterator stands before the element number \<open>n\<close>, in the leaf that has it.\<close>

definition it_points :: "('k, 'd) dwnx_ksl \<Rightarrow> dwnx_ksl_it \<Rightarrow> nat \<Rightarrow> bool" where
  "it_points ksl it n \<longleftrightarrow> it_at (all_leaves ksl) it n \<and> it_settled (all_leaves ksl) it"

definition ksl_inv :: "('k, 'd) dwnx_ksl \<Rightarrow> bool" where
  "ksl_inv ksl \<longleftrightarrow>
     ksl_order (ksl_compar ksl) \<and> ksl_search ksl = ksl_search_def (ksl_compar ksl) \<and>
     ksl_n ksl = length (ksl_contents ksl) \<and>
     (\<forall>root. ksl_root ksl = Some root \<longrightarrow> (\<exists>h. root_ok (ksl_compar ksl) h root))"

lemma contents_root: "ksl_root ksl = Some root \<Longrightarrow> ksl_contents ksl = contents root"
  by (simp add: ksl_contents_def all_leaves_def)

lemma contents_none: "ksl_root ksl = None \<Longrightarrow> ksl_contents ksl = []"
  by (simp add: ksl_contents_def all_leaves_def)

lemma inv_leaves_ok: "ksl_inv ksl \<Longrightarrow> leaves_ok (all_leaves ksl)"
  using root_leaves_ok
  by (cases "ksl_root ksl") (fastforce simp: ksl_inv_def all_leaves_def leaves_ok_def)+

context ksl_order
begin

lemma rank_split:
  assumes "\<forall>x \<in> set us. lt (fst x) key" and "\<forall>x \<in> set vs. \<not> lt (fst x) key"
  shows "takeWhile (\<lambda>x. lt (fst x) key) (us @ vs) = us" and "dropWhile (\<lambda>x. lt (fst x) key) (us @ vs) = vs"
proof -
  have "takeWhile (\<lambda>x. lt (fst x) key) vs = []" "dropWhile (\<lambda>x. lt (fst x) key) vs = vs"
    using assms(2) by (cases vs; simp)+
  then show "takeWhile (\<lambda>x. lt (fst x) key) (us @ vs) = us" "dropWhile (\<lambda>x. lt (fst x) key) (us @ vs) = vs"
    using takeWhile_append2 [of us] dropWhile_append2 [of us] assms(1) by auto
qed

lemma rank_append:
  "\<forall>x \<in> set us. lt (fst x) key \<Longrightarrow> \<forall>x \<in> set vs. \<not> lt (fst x) key \<Longrightarrow> omap_rank lt key (us @ vs) = length us"
  unfolding omap_rank_def by (subst rank_split(1)) simp_all

lemma inserted_omap:
  assumes "inserted lt key data blk blk' it"
  shows "contents blk' = omap_insert lt key data (contents blk)" and "it_at (ksl_leaves blk') it (omap_rank lt key (contents blk))"
    and "it_settled (ksl_leaves blk') it" and "\<not> omap_has lt key (contents blk)"
    and "ksl_leaves blk' ! it_blk it ! it_i it = (key, data)"
proof -
  obtain L u v R where i: "ksl_leaves blk' = L @ (u @ (key, data) # v) # R" "it = \<lparr>it_blk = length L, it_i = length u\<rparr>"
    "contents blk = (concat L @ u) @ (v @ concat R)" "\<forall>x \<in> set (concat L @ u). lt (fst x) key"
    "\<forall>x \<in> set (v @ concat R). lt key (fst x)"
    using assms by (auto simp: inserted_def)
  have after: "\<forall>x \<in> set (v @ concat R). \<not> lt (fst x) key" using i(5) asym by blast
  show "contents blk' = omap_insert lt key data (contents blk)"
    unfolding omap_insert_def i(3) rank_split [OF i(4) after] i(1) by simp
  show "it_at (ksl_leaves blk') it (omap_rank lt key (contents blk))"
    unfolding i(3) rank_append [OF i(4) after] i(1,2) by (simp add: it_at_def)
  show "it_settled (ksl_leaves blk') it" "ksl_leaves blk' ! it_blk it ! it_i it = (key, data)"
    unfolding i(1,2) by (simp_all add: it_settled_def)
  have "\<forall>x \<in> set (contents blk). lt (fst x) key \<or> lt key (fst x)" 
    unfolding i(3) set_append [of "concat L @ u"] using i(4,5) by blast
  then show "\<not> omap_has lt key (contents blk)" by (auto simp: omap_has_def key_equal_def)
qed

lemma sorted_middle:
  assumes "sorted_wrt lt (map fst (us @ x # vs))" and "key_equal lt (fst x) key"
  shows "\<forall>y \<in> set us. lt (fst y) key" and "\<forall>y \<in> set vs. lt key (fst y)"
proof -
  have x: "\<not> lt key (fst x)" "\<not> lt (fst x) key" using assms(2) by (simp_all add: key_equal_def)
  show "\<forall>y \<in> set us. lt (fst y) key"
  proof
    fix y assume "y \<in> set us"
    then have "lt (fst y) (fst x)" using assms(1) by (simp add: sorted_wrt_append)
    then show "lt (fst y) key" by (rule less_le [OF _ x(1)])
  qed
  show "\<forall>y \<in> set vs. lt key (fst y)"
  proof
    fix y assume "y \<in> set vs"
    then have "lt (fst x) (fst y)" using assms(1) by (simp add: sorted_wrt_append)
    then show "lt key (fst y)" by (rule le_less [OF x(2)])
  qed
qed

lemma omap_remove_middle:
  assumes "sorted_wrt lt (map fst (us @ x # vs))" and "key_equal lt (fst x) key"
  shows "omap_remove lt key (us @ x # vs) = us @ vs" and "omap_rank lt key (us @ x # vs) = length us"
proof -
  note m = sorted_middle [OF assms]
  have "\<forall>y \<in> set us. \<not> key_equal lt (fst y) key" "\<forall>y \<in> set vs. \<not> key_equal lt (fst y) key"
    using m by (simp_all add: key_equal_def)
  then show "omap_remove lt key (us @ x # vs) = us @ vs" using assms(2) by (simp add: omap_remove_def)
  have "\<forall>y \<in> set (x # vs). \<not> lt (fst y) key" using m(2) assms(2) asym unfolding key_equal_def set_simps by blast
  then show "omap_rank lt key (us @ x # vs) = length us" by (rule rank_append [OF m(1)])
qed

lemma removed_omap:
  assumes "removed lt key blk blk' it" and "blk_ok lt h blk"
  shows "contents blk' = omap_remove lt key (contents blk)" and "it_at (ksl_leaves blk') it (omap_rank lt key (contents blk))"
    and "omap_has lt key (contents blk)" and "length (contents blk) = Suc (length (contents blk'))"
proof -
  obtain L u x v R where r: "ksl_leaves blk' = L @ (u @ v) # R" "it = \<lparr>it_blk = length L, it_i = length u\<rparr>"
    "contents blk = (concat L @ u) @ x # (v @ concat R)" "key_equal lt (fst x) key"
    using assms(1) by (auto simp: removed_def)
  have s: "sorted_wrt lt (map fst ((concat L @ u) @ x # (v @ concat R)))"
    using contents_sorted [OF assms(2)] unfolding r(3) .
  note m = omap_remove_middle [OF s r(4)]
  show "contents blk' = omap_remove lt key (contents blk)" unfolding r(3) m(1) r(1) by simp
  show "it_at (ksl_leaves blk') it (omap_rank lt key (contents blk))"
    unfolding r(3) m(2) r(1,2) by (simp add: it_at_def)
  show "omap_has lt key (contents blk)" unfolding r(3) omap_has_def using r(4) by auto
  show "length (contents blk) = Suc (length (contents blk'))" unfolding r(3) r(1) by simp
qed

end

section \<open>Insertion\<close>

context ksl_order
begin

lemma split_root_wp:
  assumes "root_ok lt h root" and "blk_n root = DWNX_KSL_MAX_NBLK"
  shows "wp (ksl_split_root mem root)
    (\<lambda>root' s. root_ok lt (Suc h) root' \<and> blk_n root' < DWNX_KSL_MAX_NBLK \<and> contents root' = contents root \<and>
       ksl_all_keys root' \<subseteq> ksl_all_keys root)
    (\<lambda>e s. e = ERR_NOMEM)"
proof -
  have ok: "blk_ok lt h root" using assms(1) by (simp add: root_ok_def)
  define l where "l = blk_take DWNX_KSL_MIN_NBLK root"
  define r where "r = blk_drop DWNX_KSL_MIN_NBLK root"
  note h = halves [OF ok assms(2), folded l_def r_def]
  have pos: "0 < blk_n r" using h(4) by (simp add: DWNX_KSL_MIN_NBLK_def DWNX_KSL_DEGR_def)
  note k = last_key [OF h(2) pos]
  have "nodes_ok lt h [(blk_last_key l, l), (blk_last_key r, r)]"
    using h k by (simp add: nodes_ok_Cons node_less_def blk_sized_def DWNX_KSL_MAX_NBLK_def DWNX_KSL_MIN_NBLK_def)
  then have new: "root_ok lt (Suc h) (Ksl_inner [(blk_last_key l, l), (blk_last_key r, r)])"
    by (simp add: root_ok_def blk_ok_inner DWNX_KSL_MAX_NBLK_def DWNX_KSL_DEGR_def del: blk_ok.simps)
  have keys: "blk_last_key l \<in> ksl_all_keys root" "blk_last_key r \<in> ksl_all_keys root"
    "ksl_all_keys l \<subseteq> ksl_all_keys root" "ksl_all_keys r \<subseteq> ksl_all_keys root"
    using h(6,7) k(1) by auto
  show ?thesis
    unfolding ksl_split_root_def Let_def
    by (cases "mem_alloc mem"; cases "fst (mem_alloc mem)")
      (auto intro!: wp_mono [OF split_blk_wp [OF ok assms(2)]] new [unfolded One_nat_def] keys [unfolded One_nat_def]
        dest: keys(3,4) [THEN subsetD]
        simp: h(5) DWNX_KSL_MAX_NBLK_def DWNX_KSL_DEGR_def simp flip: l_def r_def)
qed

text \<open>The insertion below a root that may be full.\<close>

lemma insert_root_wp:
  assumes "root_ok lt h root"
  shows "wp (if blk_n root = DWNX_KSL_MAX_NBLK then ksl_split_root mem root else SOk root mem)
    (\<lambda>root' s. \<exists>h'. root_ok lt h' root' \<and> blk_n root' < DWNX_KSL_MAX_NBLK \<and> contents root' = contents root \<and>
       ksl_all_keys root' \<subseteq> ksl_all_keys root)
    (\<lambda>e s. e = ERR_NOMEM)"
proof (cases "blk_n root = DWNX_KSL_MAX_NBLK")
  case True
  show ?thesis unfolding if_P [OF True] by (rule wp_mono [OF split_root_wp [OF assms True]]) blast+
next
  case False
  moreover have "blk_n root < DWNX_KSL_MAX_NBLK" using assms False by (simp add: root_ok_def)
  ultimately show ?thesis using assms by (simp; blast)
qed

lemma insert_ok_root: "root_ok lt h blk \<Longrightarrow> insert_ok lt h key blk blk' \<Longrightarrow> root_ok lt h blk'"
  by (auto simp: root_ok_def insert_ok_def)

lemma insert_below_root:
  assumes "root_ok lt h root" and "blk_n root < DWNX_KSL_MAX_NBLK"
  shows "wp (ksl_insert_loop lt (ksl_search_def lt) mem root key data)
    (\<lambda>it s. root_ok lt h (snd s) \<and> ksl_all_keys (snd s) \<subseteq> insert key (ksl_all_keys root) \<and> inserted lt key data root (snd s) it)
    (\<lambda>e s. root_ok lt h (snd s) \<and> ksl_all_keys (snd s) \<subseteq> insert key (ksl_all_keys root) \<and> contents (snd s) = contents root \<and>
       (e = ERR_NOMEM \<or> e = ERR_INVALID_ARGUMENT \<and> omap_has lt key (contents root)))"
  using assms insert_ok_root [OF assms(1)]
  by (intro wp_mono [OF insert_loop_wp [of h root]]) (auto simp: root_ok_def omap_has_def insert_ok_def)

end

text \<open>An allocation fails only when the list of outcomes says so.\<close>

definition mem_ok :: "dwnx_mem \<Rightarrow> bool" where
  "mem_ok mem \<longleftrightarrow> False \<notin> set mem"

lemma mem_ok_alloc: "mem_ok mem \<Longrightarrow> fst (mem_alloc mem) \<and> mem_ok (snd (mem_alloc mem))"
  by (cases mem) (auto simp: mem_ok_def)

lemma split_blk_mem_ok: "mem_ok mem \<Longrightarrow> ksl_split_blk mem blk = SAbort \<or> (\<exists>p mem'. ksl_split_blk mem blk = SOk p mem' \<and> mem_ok mem')"
  using mem_ok_alloc [of mem] by (cases "mem_alloc mem") (auto simp: ksl_split_blk_def Let_def sassert_def)

lemma split_full_node_mem_ok:
  "mem_ok mem \<Longrightarrow> split_full_node mem es i = SAbort \<or> (\<exists>p mem'. split_full_node mem es i = SOk p mem' \<and> mem_ok mem')"
  using split_blk_mem_ok [of mem "snd (es ! i)"] by (auto simp: split_full_node_def ksl_split_node_def)

lemma split_root_mem_ok:
  "mem_ok mem \<Longrightarrow> ksl_split_root mem root = SAbort \<or> (\<exists>p mem'. ksl_split_root mem root = SOk p mem' \<and> mem_ok mem')"
  using mem_ok_alloc [of mem] split_blk_mem_ok [of "snd (mem_alloc mem)" root]
  by (cases "mem_alloc mem") (auto simp: ksl_split_root_def)

text \<open>A run in which no allocation failed, and from which on none fails.\<close>

definition mem_run :: "(dwnx_mem \<times> 's, 'r) sres \<Rightarrow> bool" where
  "mem_run r \<longleftrightarrow> (\<forall>s. r \<noteq> SErr ERR_NOMEM s) \<and> (\<forall>x s. r = SOk x s \<longrightarrow> mem_ok (fst s))"

lemma mem_run_SAbort [simp]: "mem_run SAbort"
  by (simp add: mem_run_def)

lemma in_node_mem_run: "mem_run r \<Longrightarrow> mem_run (in_node es i r)"
  by (cases r) (auto simp: mem_run_def)

lemma insert_last_mem_ok: "mem_ok mem \<Longrightarrow> mem_run (ksl_insert_last mem blk key data)"
proof (induction mem blk key data rule: ksl_insert_last.induct)
  case (1 mem es key data)
  then show ?case by (simp add: mem_run_def split: res.split)
next
  case (2 mem es key data)
  show ?case
  proof (cases "es = []")
    case False
    from split_full_node_mem_ok [OF 2(2), of es "length es - 1"] show ?thesis
    proof (elim disjE exE conjE)
      fix es' mem' assume s: "split_full_node mem es (length es - 1) = SOk es' mem'" and "mem_ok mem'"
      then have "mem_run (ksl_insert_last mem' (snd (es' ! (length es' - 1))) key data)"
        using 2(1) [OF False s refl refl] by simp
      then show ?thesis using s False by (simp add: Let_def in_node_mem_run)
    qed (use False in \<open>simp add: mem_run_def\<close>)
  qed (simp add: mem_run_def)
qed

lemma insert_loop_mem_ok: "mem_ok mem \<Longrightarrow> mem_run (ksl_insert_loop compar search mem blk key data)"
proof (induction compar search mem blk key data rule: ksl_insert_loop.induct)
  case (1 compar search mem es key data)
  then show ?case by (simp add: mem_run_def Let_def split: res.split)
next
  case (2 compar search mem es key data)
  define i where "i = search (map fst es) key"
  consider "i = length es" | "length es < i" | "i < length es" by linarith
  then show ?case
  proof cases
    case 1
    then show ?thesis using insert_last_mem_ok [OF 2(2), of "Ksl_inner es" key data] by (simp add: Let_def i_def)
  next
    case 3
    from split_full_node_mem_ok [OF 2(2), of es i] show ?thesis
    proof (elim disjE exE conjE)
      fix es' mem' assume s: "split_full_node mem es i = SOk es' mem'" and ok: "mem_ok mem'"
      define j where "j = (if blk_n (snd (es ! i)) = DWNX_KSL_MAX_NBLK \<and> compar (fst (es' ! i)) key then i + 1 else i)"
      have "mem_run (ksl_insert_loop compar search mem' (snd (es' ! j)) key data)" if "\<not> length es' \<le> j"
        using 2(1) [OF i_def _ _ s j_def that] 3 ok by simp
      then show ?thesis
        using s 3 unfolding ksl_insert_loop.simps i_def [symmetric] Let_def
        by (simp add: in_node_mem_run flip: j_def)
    qed (use 3 in \<open>simp add: mem_run_def Let_def flip: i_def\<close>)
  qed (simp add: mem_run_def Let_def flip: i_def)
qed

lemma insert_mem_ok: "mem_ok mem \<Longrightarrow> mem_run (dwnx_ksl_insert (mem, ksl, it) key data)"
proof -
  assume mem: "mem_ok mem"
  obtain root mem1 where r: "(case ksl_root ksl of None \<Rightarrow> ksl_root_init mem | Some root \<Rightarrow> SOk root mem) = SOk root mem1"
    and mem1: "mem_ok mem1"
  proof (cases "ksl_root ksl")
    case None
    then show ?thesis using mem_ok_alloc [OF mem] that [of "Ksl_leaf []" "snd (mem_alloc mem)"]
      by (cases "mem_alloc mem") (simp add: ksl_root_init_def)
  qed (use mem that in simp)
  have "(if blk_n root = DWNX_KSL_MAX_NBLK then ksl_split_root mem1 root else SOk root mem1) = SAbort \<or>
      (\<exists>root' mem'. (if blk_n root = DWNX_KSL_MAX_NBLK then ksl_split_root mem1 root else SOk root mem1) = SOk root' mem' \<and> mem_ok mem')"
    using split_root_mem_ok [OF mem1] mem1 by auto
  then show ?thesis
  proof (elim disjE exE conjE)
    fix root' mem' assume s: "(if blk_n root = DWNX_KSL_MAX_NBLK then ksl_split_root mem1 root else SOk root mem1) = SOk root' mem'"
      and mem': "mem_ok mem'"
    show ?thesis
      using insert_loop_mem_ok [OF mem', of "ksl_compar ksl" "ksl_search ksl" root' key data]
      unfolding dwnx_ksl_insert_def Let_def prod.case r sres.case s mem_run_def
      by (cases "ksl_insert_loop (ksl_compar ksl) (ksl_search ksl) mem' root' key data") auto
  qed (simp add: dwnx_ksl_insert_def r mem_run_def)
qed

lemma inv_rootI:
  assumes "ksl_inv ksl" and "ksl_root ksl' = Some root" and "root_ok (ksl_compar ksl) h root"
    and "ksl_compar ksl' = ksl_compar ksl" and "ksl_search ksl' = ksl_search ksl" and "ksl_n ksl' = length (contents root)"
  shows "ksl_inv ksl'"
  using assms contents_root [OF assms(2)] unfolding ksl_inv_def by auto

lemma wp_caseI:
  assumes "wp r Q' E'" and "\<And>x s. Q' x s \<Longrightarrow> wp (g x s) Q E" and "\<And>e s. E' e s \<Longrightarrow> wp (f e s) Q E"
  shows "wp (case r of SAbort \<Rightarrow> SAbort | SErr e s \<Rightarrow> f e s | SOk x s \<Rightarrow> g x s) Q E"
  using assms by (cases r) simp_all

context ksl_order
begin

lemma insert_root_case:
  assumes "ksl_inv ksl" and "ksl_compar ksl = lt"
  shows "wp (case ksl_root ksl of None \<Rightarrow> ksl_root_init mem | Some root \<Rightarrow> SOk root mem)
    (\<lambda>root mem'. \<exists>h. root_ok lt h root \<and> contents root = ksl_contents ksl \<and> ksl_all_keys root = tree_keys ksl)
    (\<lambda>e mem'. e = ERR_NOMEM)"
proof (cases "ksl_root ksl")
  case None
  have "root_ok lt 0 (Ksl_leaf [])" by (simp add: root_ok_def)
  then show ?thesis
    using None by (cases "mem_alloc mem") (auto simp: ksl_root_init_def contents_none [OF None] tree_keys_def)
next
  case (Some root)
  then show ?thesis using assms by (auto simp: ksl_inv_def contents_root tree_keys_def)
qed

lemma insert_wp:
  assumes inv: "ksl_inv ksl" and lt: "ksl_compar ksl = lt"
  shows "wp (dwnx_ksl_insert (mem, ksl, it) key data)
    (\<lambda>_ (mem', ksl', it').
       ksl_inv ksl' \<and> ksl_compar ksl' = lt \<and> tree_keys ksl' \<subseteq> insert key (tree_keys ksl) \<and>
       \<not> omap_has lt key (ksl_contents ksl) \<and>
       ksl_contents ksl' = omap_insert lt key data (ksl_contents ksl) \<and>
       it_points ksl' it' (omap_rank lt key (ksl_contents ksl)) \<and>
       dwnx_ksl_it_key ksl' it' = key \<and> dwnx_ksl_it_get ksl' it' = data)
    (\<lambda>e (mem', ksl', it').
       ksl_inv ksl' \<and> ksl_compar ksl' = lt \<and> tree_keys ksl' \<subseteq> insert key (tree_keys ksl) \<and>
       ksl_contents ksl' = ksl_contents ksl \<and>
       (e = ERR_NOMEM \<and> it' = it \<or>
        e = ERR_INVALID_ARGUMENT \<and> omap_has lt key (ksl_contents ksl) \<and> it' = dwnx_ksl_end ksl'))"
    (is "wp _ ?Q ?E")
proof -
  have search: "ksl_search ksl = ksl_search_def lt" and n: "ksl_n ksl = length (ksl_contents ksl)"
    using inv lt by (simp_all add: ksl_inv_def)
  have after: "ksl_inv (ksl\<lparr>ksl_root := Some root, ksl_n := m\<rparr>)" if "root_ok lt h root" "m = length (contents root)" for root h m
    by (rule inv_rootI [OF inv, where root = root and h = h]) (use that lt in simp_all)
  have same: "ksl_inv (ksl\<lparr>ksl_root := Some root\<rparr>)" if "root_ok lt h root" "contents root = ksl_contents ksl" for root h
    by (rule inv_rootI [OF inv, where root = root and h = h]) (use that lt n in simp_all)
  have cont: "ksl_contents (ksl\<lparr>ksl_root := Some root\<rparr>) = contents root"
    "ksl_contents (ksl\<lparr>ksl_root := Some root, ksl_n := m\<rparr>) = contents root"
    "all_leaves (ksl\<lparr>ksl_root := Some root, ksl_n := m\<rparr>) = ksl_leaves root"
    "tree_keys (ksl\<lparr>ksl_root := Some root\<rparr>) = ksl_all_keys root"
    "tree_keys (ksl\<lparr>ksl_root := Some root, ksl_n := m\<rparr>) = ksl_all_keys root" for root m
    by (simp_all add: ksl_contents_def all_leaves_def tree_keys_def)
  show ?thesis
    unfolding dwnx_ksl_insert_def Let_def prod.case search lt
  proof (rule wp_caseI [OF insert_root_case [OF inv lt]], goal_cases)
    case (1 root mem1)
    then obtain h where root: "root_ok lt h root" "contents root = ksl_contents ksl" and keys: "ksl_all_keys root = tree_keys ksl" by blast
    show ?case
    proof (rule wp_caseI [OF insert_root_wp [OF root(1)]], goal_cases)
      case (1 r mem2)
      then obtain h' where r: "root_ok lt h' r" "blk_n r < DWNX_KSL_MAX_NBLK" "contents r = ksl_contents ksl"
        and rk: "ksl_all_keys r \<subseteq> tree_keys ksl" using root(2) keys by auto
      have ik: "ksl_all_keys b \<subseteq> insert key (tree_keys ksl)" if "ksl_all_keys b \<subseteq> insert key (ksl_all_keys r)" for b
        using that rk by blast
      show ?case
      proof (rule wp_caseI [OF insert_below_root [OF r(1,2)]], goal_cases)
        case (1 it s)
        note o = inserted_omap [OF conjunct2 [OF conjunct2 [OF 1]], unfolded r(3)]
        have "Suc (ksl_n ksl) = length (contents (snd s))"
          unfolding n o(1) omap_insert_length ..
        then show ?case
          using after [OF conjunct1 [OF 1], of "ksl_n ksl + 1"] o lt cont ik [OF conjunct1 [OF conjunct2 [OF 1]]]
          by (cases s) (simp add: it_points_def dwnx_ksl_it_key_def dwnx_ksl_it_get_def)
      next
        case (2 e s)
        then show ?case using same [of h' "snd s"] r(3) lt cont ik [of "snd s"] by (cases s) auto
      qed
    next
      case (2 e mem')
      then show ?case using same [OF root] cont root(2) lt keys by auto
    qed
  next
    case (2 e mem')
    then show ?case using inv lt by auto
  qed
qed

end

section \<open>Removal\<close>

lemma key_absent_omap: "key_absent lt key xs \<longleftrightarrow> \<not> omap_has lt key xs"
  by (auto simp: key_absent_def omap_has_def)

context ksl_order
begin

lemma remove_below_root:
  assumes inv: "ksl_inv ksl" and lt: "ksl_compar ksl = lt" and root: "root_ok lt h blk" "contents blk = ksl_contents ksl"
    and keys: "ksl_all_keys blk \<subseteq> tree_keys ksl"
  shows "wp (case ksl_remove_loop lt (ksl_search_def lt) mem True blk key of
      SAbort \<Rightarrow> SAbort
    | SErr e (mem, root) \<Rightarrow> SErr e (mem, ksl\<lparr>ksl_root := Some root\<rparr>, dwnx_ksl_end (ksl\<lparr>ksl_root := Some root\<rparr>))
    | SOk it (mem, root) \<Rightarrow>
        SOk () (mem, ksl\<lparr>ksl_root := Some root, ksl_n := ksl_n ksl - 1\<rparr>,
          it_settle (all_leaves (ksl\<lparr>ksl_root := Some root, ksl_n := ksl_n ksl - 1\<rparr>)) it))
    (\<lambda>_ (mem', ksl', it').
       mem' = mem \<and> ksl_inv ksl' \<and> ksl_compar ksl' = lt \<and> tree_keys ksl' \<subseteq> tree_keys ksl \<and> omap_has lt key (ksl_contents ksl) \<and>
       ksl_contents ksl' = omap_remove lt key (ksl_contents ksl) \<and>
       it_points ksl' it' (omap_rank lt key (ksl_contents ksl)))
    (\<lambda>e (mem', ksl', it').
       mem' = mem \<and> ksl_inv ksl' \<and> ksl_compar ksl' = lt \<and> tree_keys ksl' \<subseteq> tree_keys ksl \<and> ksl_contents ksl' = ksl_contents ksl \<and>
       e = ERR_INVALID_ARGUMENT \<and> \<not> omap_has lt key (ksl_contents ksl) \<and> it' = dwnx_ksl_end ksl')"
proof -
  have n: "ksl_n ksl = length (ksl_contents ksl)" using inv by (simp add: ksl_inv_def)
  have ok: "blk_ok lt h blk" "blk_n blk \<le> DWNX_KSL_MAX_NBLK" "0 < h \<Longrightarrow> 2 \<le> blk_n blk" using root(1) by (auto simp: root_ok_def)
  have cont: "ksl_contents (ksl\<lparr>ksl_root := Some root\<rparr>) = contents root"
    "ksl_contents (ksl\<lparr>ksl_root := Some root, ksl_n := m\<rparr>) = contents root"
    "all_leaves (ksl\<lparr>ksl_root := Some root, ksl_n := m\<rparr>) = ksl_leaves root"
    "tree_keys (ksl\<lparr>ksl_root := Some root\<rparr>) = ksl_all_keys root"
    "tree_keys (ksl\<lparr>ksl_root := Some root, ksl_n := m\<rparr>) = ksl_all_keys root" for root m
    by (simp_all add: ksl_contents_def all_leaves_def tree_keys_def)
  show ?thesis
  proof (rule wp_caseI [OF remove_loop_wp [OF ok(1,2)]], goal_cases)
    case 1
    then show ?case using ok(3) by simp
  next
    case 2
    then show ?case by simp
  next
    case (3 it s)
    then obtain h' where s: "fst s = mem" "root_ok lt h' (snd s)" "removed lt key blk (snd s) it" and k: "ksl_all_keys (snd s) \<subseteq> tree_keys ksl"
      using keys by (auto simp: removal_ok_def)
    note o = removed_omap [OF s(3) ok(1), unfolded root(2)]
    have "ksl_inv (ksl\<lparr>ksl_root := Some (snd s), ksl_n := ksl_n ksl - 1\<rparr>)"
      by (rule inv_rootI [OF inv, where root = "snd s" and h = h']) (use s(2) lt n o(4) in simp_all)
    then show ?case
      using s(1) o it_settle_at [OF o(2) root_leaves_ok [OF s(2)]] lt cont k by (cases s) (simp add: it_points_def)
  next
    case (4 e s)
    then obtain h' where s: "fst s = mem" "root_ok lt h' (snd s)" "contents (snd s) = ksl_contents ksl"
      "\<not> omap_has lt key (ksl_contents ksl)" "e = ERR_INVALID_ARGUMENT" "ksl_all_keys (snd s) \<subseteq> tree_keys ksl"
      using root(2) keys by (auto simp: removal_ok_def key_absent_omap)
    have "ksl_inv (ksl\<lparr>ksl_root := Some (snd s)\<rparr>)"
      by (rule inv_rootI [OF inv, where root = "snd s" and h = h']) (use s(2,3) lt n in simp_all)
    then show ?case using s lt cont by (cases s) simp
  qed
qed

lemma remove_wp:
  assumes inv: "ksl_inv ksl" and lt: "ksl_compar ksl = lt"
  shows "wp (dwnx_ksl_remove (mem, ksl, it) key)
    (\<lambda>_ (mem', ksl', it').
       mem' = mem \<and> ksl_inv ksl' \<and> ksl_compar ksl' = lt \<and> tree_keys ksl' \<subseteq> tree_keys ksl \<and> omap_has lt key (ksl_contents ksl) \<and>
       ksl_contents ksl' = omap_remove lt key (ksl_contents ksl) \<and>
       it_points ksl' it' (omap_rank lt key (ksl_contents ksl)))
    (\<lambda>e (mem', ksl', it').
       mem' = mem \<and> ksl_inv ksl' \<and> ksl_compar ksl' = lt \<and> tree_keys ksl' \<subseteq> tree_keys ksl \<and> ksl_contents ksl' = ksl_contents ksl \<and>
       e = ERR_INVALID_ARGUMENT \<and> \<not> omap_has lt key (ksl_contents ksl) \<and>
       it' = (if ksl_root ksl = None then it else dwnx_ksl_end ksl'))" (is "wp _ ?Q ?E")
proof (cases "ksl_root ksl")
  case None
  then show ?thesis using inv lt by (simp add: dwnx_ksl_remove_def contents_none omap_has_def)
next
  case (Some root)
  have search: "ksl_search ksl = ksl_search_def lt" using inv lt by (simp add: ksl_inv_def)
  obtain h where h: "root_ok lt h root" "contents root = ksl_contents ksl" "ksl_all_keys root \<subseteq> tree_keys ksl"
    using inv lt Some contents_root [OF Some] by (auto simp: ksl_inv_def tree_keys_def)
  note below = remove_below_root [OF inv lt, where mem = mem and key = key]
  have run: "wp (case ksl_remove_loop lt (ksl_search_def lt) mem True blk key of
      SAbort \<Rightarrow> SAbort
    | SErr e (mem, root) \<Rightarrow> SErr e (mem, ksl\<lparr>ksl_root := Some root\<rparr>, dwnx_ksl_end (ksl\<lparr>ksl_root := Some root\<rparr>))
    | SOk it (mem, root) \<Rightarrow>
        SOk () (mem, ksl\<lparr>ksl_root := Some root, ksl_n := ksl_n ksl - 1\<rparr>,
          it_settle (all_leaves (ksl\<lparr>ksl_root := Some root, ksl_n := ksl_n ksl - 1\<rparr>)) it)) ?Q ?E"
    if "root_ok lt h blk" "contents blk = ksl_contents ksl" "ksl_all_keys blk \<subseteq> tree_keys ksl" for blk h
    by (rule wp_mono [OF below [OF that]]) (use Some in auto)
  show ?thesis
  proof (cases root)
    case (Ksl_leaf es)
    then show ?thesis
      using run [OF h] unfolding dwnx_ksl_remove_def Let_def prod.case Some search lt by (simp del: ksl_remove_loop.simps)
  next
    case (Ksl_inner es)
    show ?thesis
    proof (cases "length es = 2 \<and> blk_n (snd (es ! 0)) = DWNX_KSL_MIN_NBLK \<and> blk_n (snd (es ! 1)) = DWNX_KSL_MIN_NBLK")
      case False
      show ?thesis
        using run [OF h]
        unfolding dwnx_ksl_remove_def Let_def prod.case Some search lt Ksl_inner option.case dwnx_ksl_blk.case if_not_P [OF False] .
    next
      case True
      then obtain k1 b1 k2 b2 where es: "es = [(k1, b1), (k2, b2)]" "blk_n b1 = DWNX_KSL_MIN_NBLK" "blk_n b2 = DWNX_KSL_MIN_NBLK"
        by (cases es; cases "tl es"; cases "hd es"; cases "hd (tl es)") auto
      obtain h' where h': "h = Suc h'" "nodes_ok lt h' ([] @ (k1, b1) # (k2, b2) # [])"
        using h(1) Ksl_inner es(1) by (cases h) (auto simp: root_ok_def nodes_ok_def)
      obtain b where
        b: "ksl_merge_node True es 0 = Ok (None, b)" "blk_ok lt h' b" "blk_n b = DWNX_KSL_MAX_NBLK" "contents b = contents b1 @ contents b2"
          "ksl_all_keys b = ksl_all_keys b1 \<union> ksl_all_keys b2"
        by (rule merge_wp [OF h'(2) es(2,3), of True]) (simp add: es(1))
      have "root_ok lt h' b" "contents b = ksl_contents ksl" "ksl_all_keys b \<subseteq> tree_keys ksl"
        using b(2-5) h(2,3) Ksl_inner es(1) by (simp_all add: root_ok_def DWNX_KSL_MAX_NBLK_def DWNX_KSL_DEGR_def)
      from run [OF this] show ?thesis
        unfolding dwnx_ksl_remove_def Let_def prod.case Some search lt Ksl_inner option.case dwnx_ksl_blk.case if_P [OF True] b(1) res.case .
    qed
  qed
qed

end

section \<open>Removal at an iterator\<close>

lemma upd_leaf_leaves:
  "l < length (ksl_leaves blk) \<Longrightarrow> ksl_leaves (upd_leaf l f blk) = (ksl_leaves blk)[l := f (ksl_leaves blk ! l)]"
  "l < length (nodes_leaves es) \<Longrightarrow> nodes_leaves (upd_nodes_leaf l f es) = (nodes_leaves es)[l := f (nodes_leaves es ! l)]"
  by (induction l f blk and l f es rule: upd_leaf_upd_nodes_leaf.induct) (auto simp: nth_append list_update_append)

lemma upd_nodes_split:
  assumes "l < length (nodes_leaves es)"
  shows "\<exists>pre k b suf l'. es = pre @ (k, b) # suf \<and> l' < length (ksl_leaves b) \<and>
    upd_nodes_leaf l f es = pre @ (k, upd_leaf l' f b) # suf \<and> nodes_leaves es ! l = ksl_leaves b ! l'"
  using assms
proof (induction es arbitrary: l)
  case (Cons e es)
  obtain k b where e: "e = (k, b)" by (cases e)
  show ?case
  proof (cases "l < length (ksl_leaves b)")
    case True
    then show ?thesis using e by (intro exI [of _ "[]"] exI [of _ k] exI [of _ b] exI [of _ es] exI [of _ l]) (simp add: nth_append)
  next
    case False
    then have "l - length (ksl_leaves b) < length (nodes_leaves es)" using Cons.prems e by simp
    from Cons.IH [OF this] obtain pre k' b' suf l' where i: "es = pre @ (k', b') # suf" "l' < length (ksl_leaves b')"
      "upd_nodes_leaf (l - length (ksl_leaves b)) f es = pre @ (k', upd_leaf l' f b') # suf"
      "nodes_leaves es ! (l - length (ksl_leaves b)) = ksl_leaves b' ! l'" by blast
    have s: "upd_nodes_leaf l f (e # es) = (e # pre) @ (k', upd_leaf l' f b') # suf" using False e i(3) by simp
    have "nodes_leaves (e # es) ! l = ksl_leaves b' ! l'" using False e i(4) by (simp add: nth_append)
    then show ?thesis using s i(1,2) by (metis append_Cons)
  qed
qed simp

lemma nodes_shrink:
  assumes "nodes_ok lt h (pre @ (k, b) # suf)" and "blk_ok lt h b'" "blk_sized b'" "ksl_all_keys b' \<subseteq> ksl_all_keys b"
  shows "nodes_ok lt h (pre @ (k, b') # suf)"
  using assms by (fastforce simp: nodes_ok_simps node_less_def)

lemma remove_node_set: "set (ksl_remove_node es i) \<subseteq> set es"
  by (auto simp: ksl_remove_node_def dest: in_set_takeD in_set_dropD)

lemma remove_node_length: "i < length es \<Longrightarrow> length (ksl_remove_node es i) = length es - 1"
  by (simp add: ksl_remove_node_def)

lemma remove_node_sorted: "sorted_wrt lt (map fst es) \<Longrightarrow> sorted_wrt lt (map fst (ksl_remove_node es i))"
proof -
  assume "sorted_wrt lt (map fst es)"
  then have "sorted_wrt lt (map fst (take i es @ drop i es))" by simp
  moreover have "set (map fst (drop (i + 1) es)) \<subseteq> set (map fst (drop i es))"
    using set_drop_subset_set_drop [of i "i + 1" es] by auto
  moreover have "sorted_wrt lt (map fst (drop (i + 1) es))"
    using \<open>sorted_wrt lt (map fst es)\<close> by (simp add: sorted_wrt_drop flip: drop_map)
  ultimately show ?thesis
    unfolding ksl_remove_node_def map_append sorted_wrt_append by blast
qed

lemma upd_leaf_ok:
  assumes "blk_ok lt h blk" and "l < length (ksl_leaves blk)" and "i < length (ksl_leaves blk ! l)"
    and "0 < h \<Longrightarrow> DWNX_KSL_MIN_NBLK < length (ksl_leaves blk ! l)" and "blk_n blk \<le> DWNX_KSL_MAX_NBLK"
  shows "blk_ok lt h (upd_leaf l (\<lambda>es. ksl_remove_node es i) blk) \<and>
    ksl_all_keys (upd_leaf l (\<lambda>es. ksl_remove_node es i) blk) \<subseteq> ksl_all_keys blk \<and>
    blk_n (upd_leaf l (\<lambda>es. ksl_remove_node es i) blk) = (if h = 0 then blk_n blk - 1 else blk_n blk)"
  using assms
proof (induction h arbitrary: blk l)
  case 0
  then obtain es where es: "blk = Ksl_leaf es" "sorted_wrt lt (map fst es)" by (auto elim: blk_ok_0E)
  then show ?case
    using 0(2,3) remove_node_sorted [OF es(2)] remove_node_set [of es i] remove_node_length [of i es] by auto
next
  case (Suc h)
  then obtain es where es: "blk = Ksl_inner es" "es \<noteq> []" "nodes_ok lt h es" by (auto elim: blk_ok_SucE)
  then have "l < length (nodes_leaves es)" using Suc.prems(2) by simp
  from upd_nodes_split [OF this, of "\<lambda>es. ksl_remove_node es i"] obtain pre k b suf l' where s: "es = pre @ (k, b) # suf"
    "l' < length (ksl_leaves b)" "upd_nodes_leaf l (\<lambda>es. ksl_remove_node es i) es = pre @ (k, upd_leaf l' (\<lambda>es. ksl_remove_node es i) b) # suf"
    "nodes_leaves es ! l = ksl_leaves b ! l'" by blast
  have b: "blk_ok lt h b" "blk_sized b" using es(3) s(1) by (auto simp: nodes_ok_simps)
  have leaf: "ksl_leaves b ! l' = ksl_leaves blk ! l" using s(4) es(1) by simp
  define b' where "b' = upd_leaf l' (\<lambda>es. ksl_remove_node es i) b"
  have b': "blk_ok lt h b'" "ksl_all_keys b' \<subseteq> ksl_all_keys b" "blk_n b' = (if h = 0 then blk_n b - 1 else blk_n b)"
    unfolding b'_def by (use Suc.IH [OF b(1) s(2)] Suc.prems leaf b(2) in \<open>simp_all add: blk_sized_def\<close>)
  have "blk_n b = length (ksl_leaves blk ! l)" if "h = 0"
    using leaf b(1) s(2) that by (auto elim!: blk_ok_0E)
  then have "blk_sized b'" using b(2) b'(3) Suc.prems(4) by (auto simp: blk_sized_def)
  then have "nodes_ok lt h (pre @ (k, b') # suf)" using nodes_shrink [OF es(3) [unfolded s(1)] b'(1) _ b'(2)] by blast
  moreover have "ksl_all_keys (Ksl_inner (pre @ (k, b') # suf)) \<subseteq> ksl_all_keys (Ksl_inner (pre @ (k, b) # suf))"
    using b'(2) by auto
  moreover have "upd_leaf l (\<lambda>es. ksl_remove_node es i) blk = Ksl_inner (pre @ (k, b') # suf)"
    using es(1) s(3) by (simp add: b'_def)
  ultimately show ?case using es(1) s(1) by (simp add: blk_ok_inner del: blk_ok.simps)
qed

lemma leaf_sizes:
  assumes "blk_ok lt h blk" and "0 < h" and "leaf \<in> set (ksl_leaves blk)"
  shows "DWNX_KSL_MIN_NBLK \<le> length leaf"
  using assms
proof (induction h arbitrary: blk)
  case (Suc h)
  then obtain es where es: "blk = Ksl_inner es" "nodes_ok lt h es" by (auto elim: blk_ok_SucE)
  then obtain e where e: "e \<in> set es" "leaf \<in> set (ksl_leaves (snd e))" using Suc.prems(3) by auto
  then have b: "blk_ok lt h (snd e)" "blk_sized (snd e)" using es(2) by (simp_all add: nodes_ok_def)
  show ?case
  proof (cases "h = 0")
    case True
    then show ?thesis using b e(2) by (auto elim!: blk_ok_0E simp: blk_sized_def)
  qed (use Suc.IH [OF b(1)] e(2) in simp)
qed simp

text \<open>The elements before and after the one an iterator stands at.\<close>

lemma it_at_split:
  assumes "it_at ls it n" and "it_i it < length (ls ! it_blk it)"
  obtains us x vs where "concat ls = us @ x # vs" "length us = n"
    "concat (ls[it_blk it := ksl_remove_node (ls ! it_blk it) (it_i it)]) = us @ vs"
    "ls ! it_blk it ! it_i it = x"
proof (rule that)
  define l i where "l = it_blk it" and "i = it_i it"
  have l: "l < length ls" "length (concat (take l ls)) + i = n" and i: "i < length (ls ! l)"
    using assms by (auto simp: it_at_def l_def i_def)
  have leaf: "ls ! l = take i (ls ! l) @ ls ! l ! i # drop (Suc i) (ls ! l)" by (rule id_take_nth_drop [OF i])
  show "concat ls = (concat (take l ls) @ take i (ls ! l)) @ ls ! it_blk it ! it_i it # (drop (Suc i) (ls ! l) @ concat (drop (Suc l) ls))"
    unfolding concat_split_at [OF l(1)] l_def [symmetric] i_def [symmetric] by (subst leaf) simp
  show "concat (ls[it_blk it := ksl_remove_node (ls ! it_blk it) (it_i it)]) =
      (concat (take l ls) @ take i (ls ! l)) @ (drop (Suc i) (ls ! l) @ concat (drop (Suc l) ls))"
    unfolding l_def [symmetric] i_def [symmetric] upd_conv_take_nth_drop [OF l(1)] by (simp add: ksl_remove_node_def)
qed (use assms in \<open>auto simp: it_at_def\<close>)

context ksl_order
begin

lemma remove_hint_wp:
  assumes inv: "ksl_inv ksl" and lt: "ksl_compar ksl = lt" and hint: "it_points ksl hint n" "n < length (ksl_contents ksl)"
    and key: "key_equal lt (fst (ksl_contents ksl ! n)) key"
  shows "wp (dwnx_ksl_remove_hint (mem, ksl, it) hint key)
    (\<lambda>_ (mem', ksl', it').
       mem' = mem \<and> ksl_inv ksl' \<and> ksl_compar ksl' = lt \<and> tree_keys ksl' \<subseteq> tree_keys ksl \<and> n = omap_rank lt key (ksl_contents ksl) \<and>
       ksl_contents ksl' = omap_remove lt key (ksl_contents ksl) \<and> it_points ksl' it' n)
    (\<lambda>e s. False)" (is "wp _ ?Q ?E")
proof -
  obtain root where root: "ksl_root ksl = Some root" 
    using hint(2) contents_none [of ksl] by (cases "ksl_root ksl") auto
  obtain h where h: "root_ok lt h root" using inv lt root by (auto simp: ksl_inv_def)
  then have ok: "blk_ok lt h root" "blk_n root \<le> DWNX_KSL_MAX_NBLK" "0 < h \<Longrightarrow> 2 \<le> blk_n root" by (auto simp: root_ok_def)
  define ls where "ls = ksl_leaves root"
  have ls: "all_leaves ksl = ls" "ksl_contents ksl = concat ls" using root by (simp_all add: all_leaves_def ksl_contents_def ls_def)
  have at: "it_at ls hint n" "it_settled ls hint" using hint(1) ls by (simp_all add: it_points_def)
  have i: "it_i hint < length (ls ! it_blk hint)"
    using at it_at_element(2) [OF at] hint(2) unfolding ls by (auto simp: it_at_def it_settled_def)
  obtain us x vs where s: "concat ls = us @ x # vs" "length us = n"
    "concat (ls[it_blk hint := ksl_remove_node (ls ! it_blk hint) (it_i hint)]) = us @ vs"
    by (rule it_at_split [OF at(1) i])
  have "sorted_wrt lt (map fst (us @ x # vs))" using contents_sorted [OF ok(1)] s(1) by (simp add: ls_def)
  moreover have "key_equal lt (fst x) key" using key unfolding ls s(1) s(2) [symmetric] by simp
  ultimately have o: "omap_remove lt key (ksl_contents ksl) = us @ vs" "omap_rank lt key (ksl_contents ksl) = n" 
    using omap_remove_middle [of us x vs key] s(2) unfolding ls s(1) by simp_all
  have has: "omap_has lt key (ksl_contents ksl)" using key hint(2) by (auto simp: omap_has_def)
  show ?thesis
  proof (cases "\<not> blk_leaf root \<and> length (all_leaves ksl ! it_blk hint) = DWNX_KSL_MIN_NBLK")
    case True
    have "wp (dwnx_ksl_remove (mem, ksl, it) key) ?Q ?E"
      by (rule wp_mono [OF remove_wp [OF inv lt]]) (use has o(2) in auto)
    then show ?thesis unfolding dwnx_ksl_remove_hint_def Let_def prod.case root option.case if_P [OF True] .
  next
    case False
    define blk where "blk = upd_leaf (it_blk hint) (\<lambda>es. ksl_remove_node es (it_i hint)) root"
    have l: "it_blk hint < length (ksl_leaves root)" using at(1) by (simp add: it_at_def ls_def)
    have leaf: "0 < h \<Longrightarrow> DWNX_KSL_MIN_NBLK < length (ksl_leaves root ! it_blk hint)"
    proof -
      assume "0 < h"
      then have "\<not> blk_leaf root" using ok(1) by (cases h; cases root) simp_all
      then have "length (ksl_leaves root ! it_blk hint) \<noteq> DWNX_KSL_MIN_NBLK" using False ls by (simp add: ls_def)
      moreover have "DWNX_KSL_MIN_NBLK \<le> length (ksl_leaves root ! it_blk hint)"
        by (rule leaf_sizes [OF ok(1) \<open>0 < h\<close>]) (use l in simp)
      ultimately show ?thesis by simp
    qed
    have new: "root_ok lt h blk" and keys: "ksl_all_keys blk \<subseteq> ksl_all_keys root"
      using upd_leaf_ok [OF ok(1) l i [unfolded ls_def] leaf ok(2)] ok(2,3) by (auto simp: blk_def root_ok_def)
    have bl: "ksl_leaves blk = ls[it_blk hint := ksl_remove_node (ls ! it_blk hint) (it_i hint)]"
      unfolding blk_def ls_def by (rule upd_leaf_leaves(1) [OF l])
    have c: "contents blk = us @ vs" unfolding bl by (rule s(3))
    define ksl' where "ksl' = ksl\<lparr>ksl_root := Some blk, ksl_n := ksl_n ksl - 1\<rparr>"
    have al: "all_leaves ksl' = ksl_leaves blk" by (simp add: ksl'_def all_leaves_def)
    have "ksl_n ksl = length (us @ x # vs)" using inv s(1) ls(2) by (simp add: ksl_inv_def)
    then have "ksl_inv ksl'"
      by (intro inv_rootI [OF inv, where root = blk and h = h]) (use new lt c in \<open>simp_all add: ksl'_def\<close>)
    moreover have "it_at (ksl_leaves blk) hint n"
      using at(1) i unfolding bl by (simp add: it_at_def remove_node_length)
    note it_settle_at [OF this root_leaves_ok [OF new]]
    ultimately have "?Q () (mem, ksl', it_settle (all_leaves ksl') hint)"
      using o c lt al keys root by (simp add: it_points_def ksl_contents_def) (simp add: ksl'_def tree_keys_def)
    then have "wp (SOk () (mem, ksl', it_settle (all_leaves ksl') hint)) ?Q ?E" unfolding wp_SOk .
    then show ?thesis
      unfolding dwnx_ksl_remove_hint_def Let_def prod.case root option.case if_not_P [OF False] ksl'_def blk_def .
  qed
qed

end

end
