(* ===== verification/KslApi.thy ===== *)
theory KslApi
  imports KslMap
begin

text \<open>
  The rest of the interface of the ordered map: its iterators, the search for a place and the change
  of a key, as operations on the list of its elements; then its orders and the main properties.
\<close>

section \<open>Iterators\<close>

lemma it_points_shape:
  assumes "map length (all_leaves ksl') = map length (all_leaves ksl)"
  shows "it_points ksl' it n \<longleftrightarrow> it_points ksl it n"
proof -
  have s: "length (all_leaves ksl') = length (all_leaves ksl)" using assms by (metis length_map)
  have l: "length (concat (take l (all_leaves ksl'))) = length (concat (take l (all_leaves ksl)))" for l
    unfolding length_concat take_map [symmetric] assms ..
  have "length (all_leaves ksl' ! l) = length (all_leaves ksl ! l)" if "l < length (all_leaves ksl)" for l
    using arg_cong [OF assms, of "\<lambda>xs. xs ! l"] that s by simp
  then show ?thesis by (auto simp: it_points_def it_at_def it_settled_def s l)
qed

lemma it_begin_points:
  assumes "ksl_inv ksl"
  shows "it_points ksl (dwnx_ksl_begin ksl) 0"
proof -
  have "leaves_ok (all_leaves ksl)" by (rule inv_leaves_ok [OF assms])
  then show ?thesis
    by (cases "all_leaves ksl")
      (auto simp: it_points_def it_at_def it_settled_def dwnx_ksl_begin_def dwnx_ksl_it_init_def leaves_ok_def)
qed

lemma it_end_points:
  assumes "ksl_inv ksl"
  shows "it_points ksl (dwnx_ksl_end ksl) (length (ksl_contents ksl))"
proof -
  have "leaves_ok (all_leaves ksl)" by (rule inv_leaves_ok [OF assms])
  then show ?thesis
    by (cases "all_leaves ksl" rule: rev_cases)
      (auto simp: it_points_def it_at_def it_settled_def dwnx_ksl_end_def dwnx_ksl_it_init_def leaves_ok_def ksl_contents_def)
qed

lemma it_end_iff:
  assumes "it_points ksl it n"
  shows "dwnx_ksl_it_end ksl it \<longleftrightarrow> n = length (ksl_contents ksl)"
  using it_at_element(2) [of "all_leaves ksl" it n] assms
  by (auto simp: dwnx_ksl_it_end_def it_points_def ksl_contents_def)

lemma it_element:
  assumes "it_points ksl it n" and "n < length (ksl_contents ksl)"
  shows "dwnx_ksl_it_key ksl it = fst (ksl_contents ksl ! n)" and "dwnx_ksl_it_get ksl it = snd (ksl_contents ksl ! n)"
  using it_at_element(3) [of "all_leaves ksl" it n] assms
  by (simp_all add: dwnx_ksl_it_key_def dwnx_ksl_it_get_def it_points_def ksl_contents_def)

lemma it_inside:
  assumes "it_points ksl it n" and "n < length (ksl_contents ksl)"
  shows "it_i it < length (all_leaves ksl ! it_blk it)"
  using it_end_iff [OF assms(1)] assms
  by (auto simp: dwnx_ksl_it_end_def it_points_def it_at_def it_settled_def)

lemma it_next_points:
  assumes "ksl_inv ksl" and "it_points ksl it n" and "n < length (ksl_contents ksl)"
  shows "it_points ksl (dwnx_ksl_it_next ksl it) (Suc n)"
proof -
  have "it_at (all_leaves ksl) (it\<lparr>it_i := it_i it + 1\<rparr>) (Suc n)"
    using assms(2) it_inside [OF assms(2,3)] by (simp add: it_points_def it_at_def)
  then show ?thesis
    using it_settle_at [OF _ inv_leaves_ok [OF assms(1)]] by (simp add: it_points_def dwnx_ksl_it_next_def)
qed

lemma it_begin_iff:
  assumes "ksl_inv ksl" and "it_points ksl it n"
  shows "dwnx_ksl_it_begin it \<longleftrightarrow> n = 0"
proof -
  define ls where "ls = all_leaves ksl"
  have ls: "leaves_ok ls" using inv_leaves_ok [OF assms(1)] by (simp add: ls_def)
  have at: "it_blk it < length ls" "length (concat (take (it_blk it) ls)) + it_i it = n"
    using assms(2) by (simp_all add: it_points_def it_at_def ls_def)
  have "concat (take (it_blk it) ls) \<noteq> []" if "0 < it_blk it"
  proof -
    obtain x xs where x: "ls = x # xs" using at(1) by (cases ls) auto
    then have "x \<noteq> []" using ls at(1) that by (auto simp: leaves_ok_def)
    then show ?thesis using x that by (cases "it_blk it") auto
  qed
  then show ?thesis using at(2) by (cases "it_blk it") (auto simp: dwnx_ksl_it_begin_def)
qed

lemma it_prev_points:
  assumes "ksl_inv ksl" and "it_points ksl it n" and "0 < n"
  shows "\<exists>it'. dwnx_ksl_it_prev ksl it = Ok it' \<and> it_points ksl it' (n - 1)"
proof -
  define ls where "ls = all_leaves ksl"
  have ls: "leaves_ok ls" using inv_leaves_ok [OF assms(1)] by (simp add: ls_def)
  have at: "it_blk it < length ls" "length (concat (take (it_blk it) ls)) + it_i it = n" "it_i it \<le> length (ls ! it_blk it)"
    using assms(2) by (simp_all add: it_points_def it_at_def ls_def)
  have nb: "\<not> dwnx_ksl_it_begin it" using it_begin_iff [OF assms(1,2)] assms(3) by simp
  show ?thesis
  proof (cases "it_i it = 0")
    case True
    then obtain l where l: "it_blk it = Suc l" using nb by (cases "it_blk it") (auto simp: dwnx_ksl_it_begin_def)
    then have "ls ! l \<in> set ls" "length ls \<noteq> 1" using at(1) by auto
    then have "ls ! l \<noteq> []" using ls unfolding leaves_ok_def by metis
    then show ?thesis
      using True l nb at
      by (cases "ls ! l") (auto simp: dwnx_ksl_it_prev_def dwnx_ksl_it_init_def it_points_def it_at_def it_settled_def
          take_Suc_conv_app_nth simp flip: ls_def)
  next
    case False
    then show ?thesis
      using nb at by (auto simp: dwnx_ksl_it_prev_def it_points_def it_at_def it_settled_def simp flip: ls_def)
  qed
qed

section \<open>Searching and changing a key\<close>

context ksl_order
begin

lemma cuts_lt: "cuts lt (\<lambda>k. lt k key) ks"
  unfolding cuts_def using le_less by blast

lemma lower_bound_points:
  assumes inv: "ksl_inv ksl" and lt: "ksl_compar ksl = lt" and c: "cuts lt (\<lambda>k. cmp k key) (tree_keys ksl)"
  shows "\<exists>it. dwnx_ksl_lower_bound_search ksl key (ksl_search_def cmp) = Ok it \<and>
    it_points ksl it (length (takeWhile (\<lambda>x. cmp (fst x) key) (ksl_contents ksl)))"
proof (cases "ksl_root ksl")
  case None
  then show ?thesis
    by (simp add: dwnx_ksl_lower_bound_search_def contents_none all_leaves_def it_points_def it_at_def it_settled_def dwnx_ksl_it_init_def)
next
  case (Some root)
  obtain h where h: "root_ok lt h root" using inv lt Some by (auto simp: ksl_inv_def)
  have ls: "all_leaves ksl = ksl_leaves root" "ksl_contents ksl = contents root" "tree_keys ksl = ksl_all_keys root"
    using Some by (simp_all add: all_leaves_def ksl_contents_def tree_keys_def)
  have "blk_ok lt h root" using h by (simp add: root_ok_def)
  from lower_bound_loop [OF this disjI2 [OF h], of cmp key] c [unfolded ls] obtain it where
    it: "ksl_lower_bound_loop (ksl_search_def cmp) root key = Ok it"
      "it_at (ksl_leaves root) it (length (takeWhile (\<lambda>x. cmp (fst x) key) (contents root)))" by blast
  show ?thesis
    unfolding dwnx_ksl_lower_bound_search_def Some option.case it(1) bindr.simps it_points_def ls
    using it_settle_at [OF it(2) root_leaves_ok [OF h]] by blast
qed

lemma update_key_ok:
  assumes inv: "ksl_inv ksl" and lt: "ksl_compar ksl = lt" and c: "ksl_contents ksl = us @ x # vs" "key_equal lt (fst x) old"
    and new: "\<forall>y \<in> set us. lt (fst y) new" "\<forall>y \<in> set vs. lt new (fst y)" "\<forall>k \<in> tree_keys ksl. lt k old \<longrightarrow> lt k new"
  shows "\<exists>ksl'. dwnx_ksl_update_key ksl old new = Ok ksl' \<and> ksl_inv ksl' \<and> ksl_compar ksl' = lt \<and>
    ksl_contents ksl' = us @ (new, snd x) # vs \<and> map length (all_leaves ksl') = map length (all_leaves ksl) \<and>
    tree_keys ksl' \<subseteq> insert new {k \<in> tree_keys ksl. \<not> key_equal lt k old}"
proof -
  obtain root where root: "ksl_root ksl = Some root" using c(1) contents_none [of ksl] by (cases "ksl_root ksl") auto
  obtain h where h: "root_ok lt h root" using inv lt root by (auto simp: ksl_inv_def)
  then have ok: "blk_ok lt h root" by (simp add: root_ok_def)
  have ls: "all_leaves ksl = ksl_leaves root" "ksl_contents ksl = contents root" "tree_keys ksl = ksl_all_keys root"
    using root by (simp_all add: all_leaves_def ksl_contents_def tree_keys_def)
  from update_loop [OF ok c(1) [unfolded ls] c(2) new(1,2) new(3) [unfolded ls]] obtain root' where
    r: "ksl_update_loop lt (ksl_search_def lt) root old new = Ok root'" "blk_ok lt h root'"
      "contents root' = us @ (new, snd x) # vs" "map length (ksl_leaves root') = map length (ksl_leaves root)"
      "blk_n root' = blk_n root" "ksl_all_keys root' \<subseteq> insert new {k \<in> ksl_all_keys root. \<not> key_equal lt k old}" by blast
  define ksl' where "ksl' = ksl\<lparr>ksl_root := Some root'\<rparr>"
  have "root_ok lt h root'" using h r(2,5) by (simp add: root_ok_def)
  moreover have "ksl_n ksl = length (us @ x # vs)" using inv c(1) by (simp add: ksl_inv_def)
  ultimately have "ksl_inv ksl'"
    by (intro inv_rootI [OF inv, where root = root' and h = h]) (use lt r(3) in \<open>simp_all add: ksl'_def\<close>)
  moreover have "dwnx_ksl_update_key ksl old new = Ok ksl'"
    using inv lt r(1) root by (simp add: dwnx_ksl_update_key_def ksl_inv_def ksl'_def)
  moreover have "all_leaves ksl' = ksl_leaves root'" "tree_keys ksl' = ksl_all_keys root'" "ksl_compar ksl' = lt"
    using lt by (simp_all add: all_leaves_def tree_keys_def ksl'_def)
  ultimately show ?thesis using r(3,4,6) ls by (simp add: ksl_contents_def)
qed

end

section \<open>The orders of the library\<close>

definition dwnx_ksl_range_search :: "dwnx_range list \<Rightarrow> dwnx_range \<Rightarrow> nat" where
  "dwnx_ksl_range_search = ksl_search_def dwnx_ksl_range_compar"

definition dwnx_ksl_range_exclusive_search :: "dwnx_range list \<Rightarrow> dwnx_range \<Rightarrow> nat" where
  "dwnx_ksl_range_exclusive_search = ksl_search_def dwnx_ksl_range_exclusive_compar"

definition dwnx_ksl_uint64_less :: "u64 \<Rightarrow> u64 \<Rightarrow> bool" where
  "dwnx_ksl_uint64_less lhs rhs \<longleftrightarrow> lhs < rhs"

definition dwnx_ksl_uint64_less_search :: "u64 list \<Rightarrow> u64 \<Rightarrow> nat" where
  "dwnx_ksl_uint64_less_search = ksl_search_def dwnx_ksl_uint64_less"

definition dwnx_ksl_int64_greater :: "i64 \<Rightarrow> i64 \<Rightarrow> bool" where
  "dwnx_ksl_int64_greater lhs rhs \<longleftrightarrow> lhs > rhs"

definition dwnx_ksl_int64_greater_search :: "i64 list \<Rightarrow> i64 \<Rightarrow> nat" where
  "dwnx_ksl_int64_greater_search = ksl_search_def dwnx_ksl_int64_greater"

interpretation range_order: ksl_order dwnx_ksl_range_compar
  by unfold_locales (auto simp: dwnx_ksl_range_compar_def)

interpretation uint64_order: ksl_order dwnx_ksl_uint64_less
  by unfold_locales (auto simp: dwnx_ksl_uint64_less_def)

interpretation int64_order: ksl_order dwnx_ksl_int64_greater
  by unfold_locales (auto simp: dwnx_ksl_int64_greater_def)

lemma init_inv:
  assumes "ksl_order compar" and "dwnx_ksl_init compar (ksl_search_def compar) keylen = Ok ksl"
  shows "ksl_inv ksl \<and> ksl_contents ksl = [] \<and> ksl_compar ksl = compar \<and> ksl_root ksl = None"
  using assms by (auto simp: dwnx_ksl_init_def Let_def assertr_def ksl_inv_def ksl_contents_def all_leaves_def split: if_splits)

lemma clear_inv: "ksl_inv ksl \<Longrightarrow> ksl_inv (dwnx_ksl_clear ksl) \<and> ksl_contents (dwnx_ksl_clear ksl) = []"
  by (auto simp: dwnx_ksl_clear_def ksl_inv_def ksl_contents_def all_leaves_def split: option.split)

section \<open>Properties\<close>

text \<open>Two maps to try them on: a root that is a full leaf, and one above two leaves that are as small as
  they may be.\<close>

definition ksl_full :: "(i64, nat) dwnx_ksl" where
  "ksl_full = \<lparr>ksl_root = Some (Ksl_leaf (map (\<lambda>i. (64 - 2 * int i, i)) [0..<32])), ksl_compar = dwnx_ksl_int64_greater,
     ksl_search = dwnx_ksl_int64_greater_search, ksl_n = 32, ksl_keylen = 8, ksl_aligned_keylen = 8\<rparr>"

definition ksl_small :: "(i64, nat) dwnx_ksl" where
  "ksl_small = \<lparr>ksl_root = Some (Ksl_inner
       [(34, Ksl_leaf (map (\<lambda>i. (64 - 2 * int i, i)) [0..<16])), (2, Ksl_leaf (map (\<lambda>i. (64 - 2 * int i, i)) [16..<32]))]),
     ksl_compar = dwnx_ksl_int64_greater, ksl_search = dwnx_ksl_int64_greater_search, ksl_n = 32, ksl_keylen = 8,
     ksl_aligned_keylen = 8\<rparr>"

lemma descending: "sorted_wrt dwnx_ksl_int64_greater (map fst (map (\<lambda>i. (64 - 2 * int i, i)) [a..<b]))"
  by (induction b) (auto simp: sorted_wrt_append dwnx_ksl_int64_greater_def)

lemma two_leaves_ok:
  assumes "sorted_wrt lt (map fst as)" and "sorted_wrt lt (map fst bs)" and "length as \<in> {16..32}" and "length bs \<in> {16..32}"
    and "\<forall>x \<in> set as. \<not> lt k (fst x)" and "\<forall>x \<in> set bs. \<not> lt k' (fst x) \<and> lt k (fst x)" and "lt k k'"
  shows "root_ok lt 1 (Ksl_inner [(k, Ksl_leaf as), (k', Ksl_leaf bs)])"
  using assms
  by (simp add: root_ok_def node_less_def blk_sized_def DWNX_KSL_MAX_NBLK_def DWNX_KSL_MIN_NBLK_def DWNX_KSL_DEGR_def)

lemma ksl_full_inv: "ksl_inv ksl_full"
proof -
  have "root_ok dwnx_ksl_int64_greater 0 (Ksl_leaf (map (\<lambda>i. (64 - 2 * int i, i)) [0..<32]))"
    using descending [of 0 32] by (simp add: root_ok_def DWNX_KSL_MAX_NBLK_def DWNX_KSL_DEGR_def)
  then show ?thesis
    using int64_order.ksl_order_axioms
    by (auto simp: ksl_inv_def ksl_full_def dwnx_ksl_int64_greater_search_def ksl_contents_def all_leaves_def)
qed

lemma ksl_small_inv: "ksl_inv ksl_small"
proof -
  have "root_ok dwnx_ksl_int64_greater 1 (Ksl_inner
      [(34, Ksl_leaf (map (\<lambda>i. (64 - 2 * int i, i)) [0..<16])), (2, Ksl_leaf (map (\<lambda>i. (64 - 2 * int i, i)) [16..<32]))])"
    by (rule two_leaves_ok [OF descending descending]) (auto simp: dwnx_ksl_int64_greater_def simp del: upt_rec_numeral)
  then show ?thesis
    using int64_order.ksl_order_axioms
    by (auto simp: ksl_inv_def ksl_small_def dwnx_ksl_int64_greater_search_def ksl_contents_def all_leaves_def
        simp del: upt_rec_numeral)
qed

text \<open>C9: Insertion into the ordered map is insertion into an ordered list: it never fails an assertion,
  keeps the balance and the order of the blocks, and returns the place of the new element. It reports
  a key that is there, with the end of the map as the place, and a failed allocation, and then leaves
  the elements as they are.\<close>

theorem ksl_insert_refines:
  assumes "ksl_inv ksl"
  shows "wp (dwnx_ksl_insert (mem, ksl, it) key data)
    (\<lambda>_ (mem', ksl', it').
       ksl_inv ksl' \<and> ksl_compar ksl' = ksl_compar ksl \<and> \<not> omap_has (ksl_compar ksl) key (ksl_contents ksl) \<and>
       ksl_contents ksl' = omap_insert (ksl_compar ksl) key data (ksl_contents ksl) \<and>
       it_points ksl' it' (omap_rank (ksl_compar ksl) key (ksl_contents ksl)) \<and>
       dwnx_ksl_it_key ksl' it' = key \<and> dwnx_ksl_it_get ksl' it' = data)
    (\<lambda>e (mem', ksl', it').
       ksl_inv ksl' \<and> ksl_compar ksl' = ksl_compar ksl \<and> ksl_contents ksl' = ksl_contents ksl \<and>
       (e = ERR_NOMEM \<and> False \<in> set mem \<and> it' = it \<or>
        e = ERR_INVALID_ARGUMENT \<and> omap_has (ksl_compar ksl) key (ksl_contents ksl) \<and> it' = dwnx_ksl_end ksl'))"
proof -
  have ord: "ksl_order (ksl_compar ksl)" using assms by (simp add: ksl_inv_def)
  have "wp (dwnx_ksl_insert (mem, ksl, it) key data) (\<lambda>_ _. True) (\<lambda>e _. e = ERR_NOMEM \<longrightarrow> False \<in> set mem)"
    using insert_mem_ok [of mem ksl it key data] wp_not_abort [OF ksl_order.insert_wp [OF ord assms refl, of mem it key data]]
    by (cases "dwnx_ksl_insert (mem, ksl, it) key data") (auto simp: mem_run_def mem_ok_def)
  from wp_conj [OF ksl_order.insert_wp [OF ord assms refl] this] show ?thesis by (rule wp_mono) auto
qed

theorem ksl_insert_refines_witness:
  "wp (dwnx_ksl_insert ([], ksl_full, dwnx_ksl_end ksl_full) 33 99)
     (\<lambda>_ (mem', ksl', it'). ksl_inv ksl' \<and> dwnx_ksl_it_get ksl' it' = 99 \<and>
        ksl_contents ksl' = omap_insert dwnx_ksl_int64_greater 33 99 (ksl_contents ksl_full))
     (\<lambda>e s. e = ERR_INVALID_ARGUMENT)"
  by (rule wp_mono [OF ksl_insert_refines [OF ksl_full_inv]]) (auto simp: ksl_full_def)

text \<open>C10: Removal is removal from an ordered list: it never fails an assertion whatever blocks it has to
  merge or to shift, keeps the balance and the order of the blocks, and returns the place of the
  element after the removed one. Without such a key it changes no element. Removal at an iterator that
  stands at the key has the same effect, and never fails.\<close>

theorem ksl_remove_refines:
  assumes "ksl_inv ksl"
  shows "wp (dwnx_ksl_remove (mem, ksl, it) key)
    (\<lambda>_ (mem', ksl', it').
       ksl_inv ksl' \<and> ksl_compar ksl' = ksl_compar ksl \<and> omap_has (ksl_compar ksl) key (ksl_contents ksl) \<and>
       ksl_contents ksl' = omap_remove (ksl_compar ksl) key (ksl_contents ksl) \<and>
       it_points ksl' it' (omap_rank (ksl_compar ksl) key (ksl_contents ksl)))
    (\<lambda>e (mem', ksl', it').
       ksl_inv ksl' \<and> ksl_compar ksl' = ksl_compar ksl \<and> ksl_contents ksl' = ksl_contents ksl \<and>
       e = ERR_INVALID_ARGUMENT \<and> \<not> omap_has (ksl_compar ksl) key (ksl_contents ksl)) \<and>
    (\<forall>hint n. it_points ksl hint n \<and> n < length (ksl_contents ksl) \<and> key_equal (ksl_compar ksl) (fst (ksl_contents ksl ! n)) key \<longrightarrow>
       wp (dwnx_ksl_remove_hint (mem, ksl, it) hint key)
         (\<lambda>_ (mem', ksl', it').
            ksl_inv ksl' \<and> ksl_compar ksl' = ksl_compar ksl \<and>
            ksl_contents ksl' = omap_remove (ksl_compar ksl) key (ksl_contents ksl) \<and> it_points ksl' it' n)
         (\<lambda>e s. False))"
proof (intro conjI allI impI)
  have ord: "ksl_order (ksl_compar ksl)" using assms by (simp add: ksl_inv_def)
  show "wp (dwnx_ksl_remove (mem, ksl, it) key)
    (\<lambda>_ (mem', ksl', it').
       ksl_inv ksl' \<and> ksl_compar ksl' = ksl_compar ksl \<and> omap_has (ksl_compar ksl) key (ksl_contents ksl) \<and>
       ksl_contents ksl' = omap_remove (ksl_compar ksl) key (ksl_contents ksl) \<and>
       it_points ksl' it' (omap_rank (ksl_compar ksl) key (ksl_contents ksl)))
    (\<lambda>e (mem', ksl', it').
       ksl_inv ksl' \<and> ksl_compar ksl' = ksl_compar ksl \<and> ksl_contents ksl' = ksl_contents ksl \<and>
       e = ERR_INVALID_ARGUMENT \<and> \<not> omap_has (ksl_compar ksl) key (ksl_contents ksl))"
    by (rule wp_mono [OF ksl_order.remove_wp [OF ord assms refl]]) auto
  fix hint n
  assume "it_points ksl hint n \<and> n < length (ksl_contents ksl) \<and> key_equal (ksl_compar ksl) (fst (ksl_contents ksl ! n)) key"
  then have h: "it_points ksl hint n" "n < length (ksl_contents ksl)" "key_equal (ksl_compar ksl) (fst (ksl_contents ksl ! n)) key"
    by simp_all
  show "wp (dwnx_ksl_remove_hint (mem, ksl, it) hint key)
         (\<lambda>_ (mem', ksl', it').
            ksl_inv ksl' \<and> ksl_compar ksl' = ksl_compar ksl \<and>
            ksl_contents ksl' = omap_remove (ksl_compar ksl) key (ksl_contents ksl) \<and> it_points ksl' it' n)
         (\<lambda>e s. False)"
    by (rule wp_mono [OF ksl_order.remove_hint_wp [OF ord assms refl h]]) auto
qed

theorem ksl_remove_refines_witness:
  "wp (dwnx_ksl_remove ([], ksl_small, dwnx_ksl_end ksl_small) 40)
     (\<lambda>_ (mem', ksl', it'). ksl_inv ksl' \<and>
        ksl_contents ksl' = omap_remove dwnx_ksl_int64_greater 40 (ksl_contents ksl_small))
     (\<lambda>e s. False) \<and>
   wp (dwnx_ksl_remove_hint ([], ksl_small, dwnx_ksl_end ksl_small) \<lparr>it_blk = 0, it_i = 12\<rparr> 40)
     (\<lambda>_ (mem', ksl', it'). it_points ksl' it' 12) (\<lambda>e s. False)"
proof -
  have c: "ksl_compar ksl_small = dwnx_ksl_int64_greater" by (simp add: ksl_small_def)
  have has: "omap_has dwnx_ksl_int64_greater 40 (ksl_contents ksl_small)" by code_simp
  have hint: "it_points ksl_small \<lparr>it_blk = 0, it_i = 12\<rparr> 12 \<and> 12 < length (ksl_contents ksl_small) \<and>
    key_equal (ksl_compar ksl_small) (fst (ksl_contents ksl_small ! 12)) 40" by code_simp
  note r = ksl_remove_refines [OF ksl_small_inv, of "[]" "dwnx_ksl_end ksl_small" 40]
  show ?thesis
  proof
    show "wp (dwnx_ksl_remove ([], ksl_small, dwnx_ksl_end ksl_small) 40)
     (\<lambda>_ (mem', ksl', it'). ksl_inv ksl' \<and>
        ksl_contents ksl' = omap_remove dwnx_ksl_int64_greater 40 (ksl_contents ksl_small))
     (\<lambda>e s. False)"
      by (rule wp_mono [OF conjunct1 [OF r]]) (use has c in auto)
    show "wp (dwnx_ksl_remove_hint ([], ksl_small, dwnx_ksl_end ksl_small) \<lparr>it_blk = 0, it_i = 12\<rparr> 40)
     (\<lambda>_ (mem', ksl', it'). it_points ksl' it' 12) (\<lambda>e s. False)"
      by (rule wp_mono [OF conjunct2 [OF r, THEN spec, THEN spec, THEN mp, OF hint]]) auto
  qed
qed



text \<open>C29: A key can be changed in place when the new one keeps the order of the elements and no key above
  the blocks lies between: then exactly that key changes, every element stays where it is, and the
  order of the blocks is kept.\<close>

theorem ksl_update_key_refines:
  assumes "ksl_inv ksl" and "ksl_contents ksl = us @ x # vs" and "key_equal (ksl_compar ksl) (fst x) old"
    and "\<forall>y \<in> set us. ksl_compar ksl (fst y) new" and "\<forall>y \<in> set vs. ksl_compar ksl new (fst y)"
    and "\<forall>k \<in> tree_keys ksl. ksl_compar ksl k old \<longrightarrow> ksl_compar ksl k new"
  shows "\<exists>ksl'. dwnx_ksl_update_key ksl old new = Ok ksl' \<and> ksl_inv ksl' \<and> ksl_compar ksl' = ksl_compar ksl \<and>
    ksl_contents ksl' = us @ (new, snd x) # vs \<and> (\<forall>it n. it_points ksl' it n \<longleftrightarrow> it_points ksl it n)"
proof -
  have ord: "ksl_order (ksl_compar ksl)" using assms(1) by (simp add: ksl_inv_def)
  from ksl_order.update_key_ok [OF ord assms(1) refl assms(2-6)] show ?thesis using it_points_shape by blast
qed

theorem ksl_update_key_refines_witness:
  "\<exists>ksl'. dwnx_ksl_update_key ksl_small 34 33 = Ok ksl' \<and> ksl_inv ksl' \<and> ksl_contents ksl' ! 15 = (33, 15)"
proof -
  have s: "ksl_contents ksl_small = take 15 (ksl_contents ksl_small) @ (34, 15) # drop 16 (ksl_contents ksl_small)" by code_simp
  have k: "key_equal (ksl_compar ksl_small) (fst (34, 15 :: nat)) 34" by code_simp
  have before: "\<forall>y \<in> set (take 15 (ksl_contents ksl_small)). ksl_compar ksl_small (fst y) 33" by code_simp
  have after: "\<forall>y \<in> set (drop 16 (ksl_contents ksl_small)). ksl_compar ksl_small 33 (fst y)" by code_simp
  have above: "\<forall>k \<in> tree_keys ksl_small. ksl_compar ksl_small k 34 \<longrightarrow> ksl_compar ksl_small k 33"
    by (auto simp: ksl_small_def dwnx_ksl_int64_greater_def)
  have "length (take 15 (ksl_contents ksl_small)) = 15" by code_simp
  then show ?thesis
    using ksl_update_key_refines [OF ksl_small_inv s k before after above] by (auto simp: nth_append)
qed

text \<open>The condition on the keys above the blocks is needed. Here the last element of the first leaf, 61, has
  been removed, and 60 becomes 62, which is in order between 64 and 56; afterwards 62 is in the map, but
  cannot be removed, because 61 sends the search to the first leaf.\<close>

definition ksl_stale :: "(i64, nat) dwnx_ksl" where
  "ksl_stale = \<lparr>ksl_root = Some (Ksl_inner
       [(61, Ksl_leaf (map (\<lambda>i. (128 - 4 * int i, i)) [0..<17])), (0, Ksl_leaf (map (\<lambda>i. (128 - 4 * int i, i)) [17..<33]))]),
     ksl_compar = dwnx_ksl_int64_greater, ksl_search = dwnx_ksl_int64_greater_search, ksl_n = 33, ksl_keylen = 8,
     ksl_aligned_keylen = 8\<rparr>"

lemma ksl_stale_inv: "ksl_inv ksl_stale"
proof -
  have s: "sorted_wrt dwnx_ksl_int64_greater (map fst (map (\<lambda>i. (128 - 4 * int i, i)) [a..<b]))" for a b
    by (induction b) (auto simp: sorted_wrt_append dwnx_ksl_int64_greater_def)
  have "root_ok dwnx_ksl_int64_greater 1 (Ksl_inner
      [(61, Ksl_leaf (map (\<lambda>i. (128 - 4 * int i, i)) [0..<17])), (0, Ksl_leaf (map (\<lambda>i. (128 - 4 * int i, i)) [17..<33]))])"
    by (rule two_leaves_ok [OF s s]) (auto simp: dwnx_ksl_int64_greater_def simp del: upt_rec_numeral)
  then show ?thesis
    using int64_order.ksl_order_axioms
    by (auto simp: ksl_inv_def ksl_stale_def dwnx_ksl_int64_greater_search_def ksl_contents_def all_leaves_def
        simp del: upt_rec_numeral)
qed

lemma update_key_stale:
  "\<exists>ksl'. dwnx_ksl_update_key ksl_stale 60 62 = Ok ksl' \<and> ksl_contents ksl' ! 16 = (64, 16) \<and> ksl_contents ksl' ! 17 = (62, 17) \<and>
     ksl_contents ksl' ! 18 = (56, 18) \<and> (\<exists>s. dwnx_ksl_remove ([], ksl', dwnx_ksl_end ksl') 62 = SErr ERR_INVALID_ARGUMENT s)"
proof -
  have "(case dwnx_ksl_update_key ksl_stale 60 62 of
      Ok ksl' \<Rightarrow> ksl_contents ksl' ! 16 = (64, 16) \<and> ksl_contents ksl' ! 17 = (62, 17) \<and> ksl_contents ksl' ! 18 = (56, 18) \<and>
        (case dwnx_ksl_remove ([], ksl', dwnx_ksl_end ksl') 62 of SErr e s \<Rightarrow> e = ERR_INVALID_ARGUMENT | _ \<Rightarrow> False)
    | _ \<Rightarrow> False)" by code_simp
  then show ?thesis by (auto split: res.splits sres.splits)
qed

end
