(* ===== verification/KslGap.thy ===== *)
theory KslGap
  imports KslApi
begin

text \<open>
  \<open>lib/dwnx_gaptr.c\<close> on the ordered map itself. Theory \<open>Gaptr\<close> models the gaps by the list of the keys
  of the map; here every function calls the operations of \<open>lib/dwnx_ksl.c\<close> as the code does. The
  lemmas show that both run alike, so what \<open>Gaptr\<close> shows holds for the gaps in the blocks of the map.

  The keys above the blocks may be out of date, and a range is looked for with a comparison that is
  not an order. That finds the right place because any two keys in the blocks are equal or apart.
\<close>

type_synonym ksl_gaptr = "(dwnx_range, unit) dwnx_ksl"

definition ksl_gaptr_init :: "ksl_gaptr res" where
  "ksl_gaptr_init = dwnx_ksl_init dwnx_ksl_range_compar dwnx_ksl_range_search 16"

definition ksl_gaptr_gap_init :: "dwnx_mem \<times> ksl_gaptr \<Rightarrow> (dwnx_mem \<times> ksl_gaptr, unit) sres" where
  "ksl_gaptr_gap_init s =
     (let (mem, gap) = s
      in case dwnx_ksl_insert (mem, gap, dwnx_ksl_end gap) \<lparr>r_begin = 0, r_end = UINT64_MAX\<rparr> () of
           SAbort \<Rightarrow> SAbort
         | SErr e (mem, gap, it) \<Rightarrow> SErr e (mem, gap)
         | SOk _ (mem, gap, it) \<Rightarrow> SOk () (mem, gap))"

text \<open>The loop of \<open>dwnx_gaptr_push\<close>; the fuel bounds the number of iterations.\<close>

fun ksl_gaptr_push_loop ::
    "nat \<Rightarrow> dwnx_range \<Rightarrow> dwnx_mem \<times> ksl_gaptr \<times> dwnx_ksl_it \<Rightarrow> (dwnx_mem \<times> ksl_gaptr, unit) sres" where
  "ksl_gaptr_push_loop 0 q s = SAbort"
| "ksl_gaptr_push_loop (Suc fuel) q (mem, gap, it) =
     (if dwnx_ksl_it_end gap it then SOk () (mem, gap)
      else let k = dwnx_ksl_it_key gap it; m = dwnx_range_intersect q k
        in if dwnx_range_len m = 0 then SOk () (mem, gap)
           else if dwnx_range_eq k m then
             (case dwnx_ksl_remove_hint (mem, gap, it) it k of
                SAbort \<Rightarrow> SAbort
              | SErr e s \<Rightarrow> ksl_gaptr_push_loop fuel q s
              | SOk _ s \<Rightarrow> ksl_gaptr_push_loop fuel q s)
           else let (l, r) = dwnx_range_cut k m
             in if dwnx_range_len l \<noteq> 0 then
                  (case dwnx_ksl_update_key gap k l of
                     Ok gap \<Rightarrow>
                       if dwnx_range_len r \<noteq> 0 then
                         (case dwnx_ksl_insert (mem, gap, it) r () of
                            SAbort \<Rightarrow> SAbort
                          | SErr e (mem, gap, it) \<Rightarrow> SErr e (mem, gap)
                          | SOk _ (mem, gap, it) \<Rightarrow> ksl_gaptr_push_loop fuel q (mem, gap, dwnx_ksl_it_next gap it))
                       else ksl_gaptr_push_loop fuel q (mem, gap, dwnx_ksl_it_next gap it)
                   | _ \<Rightarrow> SAbort)
                else if dwnx_range_len r \<noteq> 0 then
                  (case dwnx_ksl_update_key gap k r of
                     Ok gap \<Rightarrow> ksl_gaptr_push_loop fuel q (mem, gap, dwnx_ksl_it_next gap it)
                   | _ \<Rightarrow> SAbort)
                else ksl_gaptr_push_loop fuel q (mem, gap, dwnx_ksl_it_next gap it))"

definition ksl_gaptr_push :: "dwnx_mem \<times> ksl_gaptr \<Rightarrow> u64 \<Rightarrow> u64 \<Rightarrow> (dwnx_mem \<times> ksl_gaptr, unit) sres" where
  "ksl_gaptr_push s offset datalen =
     (let q = \<lparr>r_begin = offset, r_end = offset + datalen\<rparr>
      in sbind (if dwnx_ksl_len (snd s) = 0 then ksl_gaptr_gap_init s else SOk () s) (\<lambda>_ (mem, gap).
         case dwnx_ksl_lower_bound_search gap q dwnx_ksl_range_exclusive_search of
           Ok it \<Rightarrow> ksl_gaptr_push_loop (dwnx_ksl_len gap + 1) q (mem, gap, it)
         | _ \<Rightarrow> SAbort))"

definition ksl_gaptr_first_gap_offset :: "ksl_gaptr \<Rightarrow> u64" where
  "ksl_gaptr_first_gap_offset gap =
     (if dwnx_ksl_len gap = 0 then 0 else r_begin (dwnx_ksl_it_key gap (dwnx_ksl_begin gap)))"

definition ksl_gaptr_get_first_gap_after :: "ksl_gaptr \<Rightarrow> u64 \<Rightarrow> dwnx_range res" where
  "ksl_gaptr_get_first_gap_after gap offset =
     (if dwnx_ksl_len gap = 0 then Ok \<lparr>r_begin = 0, r_end = UINT64_MAX\<rparr>
      else bindr (dwnx_ksl_lower_bound_search gap \<lparr>r_begin = offset, r_end = offset + 1\<rparr>
             dwnx_ksl_range_exclusive_search) (\<lambda>it.
           assertr (\<not> dwnx_ksl_it_end gap it) (Ok (dwnx_ksl_it_key gap it))))"

definition ksl_gaptr_is_pushed :: "ksl_gaptr \<Rightarrow> u64 \<Rightarrow> u64 \<Rightarrow> bool res" where
  "ksl_gaptr_is_pushed gap offset datalen =
     (let q = \<lparr>r_begin = offset, r_end = offset + datalen\<rparr>
      in if dwnx_ksl_len gap = 0 then Ok False
         else bindr (dwnx_ksl_lower_bound_search gap q dwnx_ksl_range_exclusive_search) (\<lambda>it.
           assertr (\<not> dwnx_ksl_it_end gap it)
             (Ok (dwnx_range_len (dwnx_range_intersect q (dwnx_ksl_it_key gap it)) = 0))))"

definition ksl_gaptr_drop_first_gap :: "dwnx_mem \<times> ksl_gaptr \<Rightarrow> (dwnx_mem \<times> ksl_gaptr, unit) sres" where
  "ksl_gaptr_drop_first_gap s =
     (let (mem, gap) = s; it = dwnx_ksl_begin gap
      in if dwnx_ksl_len gap = 0 then SOk () s
         else sassert (\<not> dwnx_ksl_it_end gap it)
           (case dwnx_ksl_remove_hint (mem, gap, it) it (dwnx_ksl_it_key gap it) of
              SAbort \<Rightarrow> SAbort
            | SErr e (mem, gap, it) \<Rightarrow> SOk () (mem, gap)
            | SOk _ (mem, gap, it) \<Rightarrow> SOk () (mem, gap)))"

section \<open>The keys are apart\<close>

definition gap_keys :: "ksl_gaptr \<Rightarrow> dwnx_gaptr" where
  "gap_keys gap = map fst (ksl_contents gap)"

definition apart :: "dwnx_range \<Rightarrow> dwnx_range \<Rightarrow> bool" where
  "apart x y \<longleftrightarrow> r_end x \<le> r_begin y \<or> r_end y \<le> r_begin x"

definition gap_tree :: "ksl_gaptr \<Rightarrow> bool" where
  "gap_tree gap \<longleftrightarrow>
     ksl_inv gap \<and> ksl_compar gap = dwnx_ksl_range_compar \<and>
     (\<forall>x \<in> tree_keys gap. r_begin x < r_end x) \<and> (\<forall>x \<in> tree_keys gap. \<forall>y \<in> tree_keys gap. x = y \<or> apart x y)"

lemma contents_tree_keys: "x \<in> set (ksl_contents gap) \<Longrightarrow> fst x \<in> tree_keys gap"
  by (cases "ksl_root gap") (auto simp: contents_none contents_root tree_keys_def intro: contents_keys simp del: set_concat)

lemma gap_keys_tree: "set (gap_keys gap) \<subseteq> tree_keys gap"
  using contents_tree_keys by (auto simp: gap_keys_def)

lemma inv_sorted: "ksl_inv gap \<Longrightarrow> ksl_compar gap = dwnx_ksl_range_compar \<Longrightarrow> sorted_wrt dwnx_ksl_range_compar (gap_keys gap)"
  using range_order.contents_sorted
  by (cases "ksl_root gap") (fastforce simp: gap_keys_def contents_none contents_root ksl_inv_def root_ok_def)+

lemma apart_order:
  assumes "x = y \<or> apart x y" and "r_begin x < r_end x" and "r_begin y < r_end y" and "r_begin x < r_begin y"
  shows "r_end x \<le> r_begin y"
  using assms by (auto simp: apart_def)

lemma gap_tree_sorted: "gap_tree gap \<Longrightarrow> gaps_sorted (gap_keys gap)"
proof -
  assume g: "gap_tree gap"
  have sub: "x \<in> set (gap_keys gap) \<Longrightarrow> x \<in> tree_keys gap" for x using gap_keys_tree by blast
  have "sorted_wrt (\<lambda>a b. r_end a \<le> r_begin b) (gap_keys gap)"
  proof (rule sorted_wrt_mono_rel [OF _ inv_sorted])
    fix x y assume "x \<in> set (gap_keys gap)" "y \<in> set (gap_keys gap)" "dwnx_ksl_range_compar x y"
    then show "r_end x \<le> r_begin y"
      using g sub apart_order [of x y] by (simp add: gap_tree_def dwnx_ksl_range_compar_def)
  qed (use g in \<open>simp_all add: gap_tree_def\<close>)
  then show ?thesis using g sub by (simp add: gaps_sorted_def gap_tree_def)
qed

lemma gap_tree_cuts:
  assumes "gap_tree gap" and "r_begin q < r_end q"
  shows "cuts dwnx_ksl_range_compar (\<lambda>k. dwnx_ksl_range_exclusive_compar k q) (tree_keys gap)"
proof -
  have c: "dwnx_ksl_range_exclusive_compar k q \<longleftrightarrow> r_end k \<le> r_begin q" if "r_begin k < r_end k" for k
    using that assms(2) by (auto simp: dwnx_ksl_range_exclusive_compar_def not_less max_def min_def split: if_splits)
  have "r_end a \<le> r_end b" if "a \<in> tree_keys gap" "b \<in> tree_keys gap" "r_begin a \<le> r_begin b" for a b
  proof -
    have "a = b \<or> apart a b" "r_begin a < r_end a" "r_begin b < r_end b" using assms(1) that by (simp_all add: gap_tree_def)
    then show ?thesis using that(3) by (auto simp: apart_def)
  qed
  then show ?thesis
    using assms(1) c unfolding cuts_def dwnx_ksl_range_compar_def not_less gap_tree_def by (meson order_trans)
qed

text \<open>One range gives way to parts of it.\<close>

lemma apart_part: "apart x k \<Longrightarrow> r_begin k \<le> r_begin l \<Longrightarrow> r_end l \<le> r_end k \<Longrightarrow> apart x l"
  by (auto simp: apart_def)

lemma apart_sym: "apart x y \<longleftrightarrow> apart y x"
  by (auto simp: apart_def)

section \<open>The operations of the map\<close>

lemma len_keys: "ksl_inv gap \<Longrightarrow> dwnx_ksl_len gap = length (gap_keys gap)"
  by (simp add: dwnx_ksl_len_def ksl_inv_def gap_keys_def)

lemma search_keys: "length (takeWhile (\<lambda>x. cmp (fst x) q) (ksl_contents gap)) = keys_search cmp (gap_keys gap) q"
  by (simp add: keys_search_def gap_keys_def takeWhile_map comp_def)

lemma search_points:
  assumes "gap_tree gap" and "r_begin q < r_end q"
  shows "\<exists>it. dwnx_ksl_lower_bound_search gap q dwnx_ksl_range_exclusive_search = Ok it \<and>
    it_points gap it (keys_search dwnx_ksl_range_exclusive_compar (gap_keys gap) q)"
  using range_order.lower_bound_points [of gap dwnx_ksl_range_exclusive_compar q] gap_tree_cuts [OF assms] assms(1)
  unfolding dwnx_ksl_range_exclusive_search_def search_keys gap_tree_def by blast

lemma key_points:
  "it_points gap it i \<Longrightarrow> i < length (gap_keys gap) \<Longrightarrow> dwnx_ksl_it_key gap it = gap_keys gap ! i"
  by (simp add: it_element(1) gap_keys_def)

lemma end_points: "it_points gap it i \<Longrightarrow> dwnx_ksl_it_end gap it \<longleftrightarrow> i = length (gap_keys gap)"
  by (simp add: it_end_iff gap_keys_def)

lemma gap_tree_mono:
  assumes "gap_tree gap" and "ksl_inv gap'" and "ksl_compar gap' = dwnx_ksl_range_compar" and "tree_keys gap' \<subseteq> tree_keys gap"
  shows "gap_tree gap'"
  using assms by (auto simp: gap_tree_def)

lemma gap_keys_eq: "ksl_contents gap = xs \<Longrightarrow> gap_keys gap = map fst xs"
  by (simp add: gap_keys_def)

lemma key_at:
  assumes "i < length (gap_keys gap)"
  obtains us x vs where "ksl_contents gap = us @ x # vs" "length us = i" "gap_keys gap ! i = fst x"
    "gap_keys gap = map fst us @ fst x # map fst vs"
proof (rule that)
  have i: "i < length (ksl_contents gap)" using assms by (simp add: gap_keys_def)
  show c: "ksl_contents gap = take i (ksl_contents gap) @ ksl_contents gap ! i # drop (Suc i) (ksl_contents gap)"
    by (rule id_take_nth_drop [OF i])
  show "gap_keys gap = map fst (take i (ksl_contents gap)) @ fst (ksl_contents gap ! i) # map fst (drop (Suc i) (ksl_contents gap))"
    unfolding gap_keys_def by (subst c) simp
qed (use assms in \<open>simp_all add: gap_keys_def\<close>)

lemma range_equal: "key_equal dwnx_ksl_range_compar x y \<longleftrightarrow> r_begin x = r_begin y"
  by (auto simp: key_equal_def dwnx_ksl_range_compar_def)

lemma remove_points:
  assumes gap: "gap_tree gap" and it: "it_points gap it i" "i < length (gap_keys gap)"
  shows "wp (dwnx_ksl_remove_hint (mem, gap, it) it (gap_keys gap ! i))
    (\<lambda>_ (mem', gap', it'). mem' = mem \<and> gap_tree gap' \<and> gap_keys gap' = keys_remove (gap_keys gap) i \<and> it_points gap' it' i)
    (\<lambda>e s. False)"
proof -
  have inv: "ksl_inv gap" "ksl_compar gap = dwnx_ksl_range_compar" using gap by (simp_all add: gap_tree_def)
  obtain us x vs where c: "ksl_contents gap = us @ x # vs" "length us = i" "gap_keys gap ! i = fst x"
    "gap_keys gap = map fst us @ fst x # map fst vs" by (rule key_at [OF it(2)])
  have n: "i < length (ksl_contents gap)" using it(2) by (simp add: gap_keys_def)
  have e: "key_equal dwnx_ksl_range_compar (fst (ksl_contents gap ! i)) (gap_keys gap ! i)"
    using n by (simp add: gap_keys_def range_equal)
  have "sorted_wrt dwnx_ksl_range_compar (map fst (us @ x # vs))" using inv_sorted [OF inv] c(4) by simp
  from range_order.omap_remove_middle(1) [OF this, of "fst x"]
  have r: "omap_remove dwnx_ksl_range_compar (gap_keys gap ! i) (ksl_contents gap) = us @ vs" using c by (simp add: range_equal)
  have "keys_remove (gap_keys gap) i = map fst (us @ vs)" unfolding c(4) keys_remove_def using c(2) by simp
  note keys = this [folded r]
  show ?thesis
    by (rule wp_mono [OF range_order.remove_hint_wp [OF inv it(1) n e]])
      (auto simp: keys dest!: gap_keys_eq intro: gap_tree_mono [OF gap])
qed

lemma update_points:
  assumes gap: "gap_tree gap" and i: "i < length (gap_keys gap)" and k: "k = gap_keys gap ! i"
    and new: "r_begin k \<le> r_begin k'" "r_end k' \<le> r_end k" "r_begin k' < r_end k'"
  shows "\<exists>gap'. dwnx_ksl_update_key gap k k' = Ok gap' \<and> gap_tree gap' \<and> gap_keys gap' = (gap_keys gap)[i := k'] \<and>
    (\<forall>it. it_points gap' it i \<longleftrightarrow> it_points gap it i) \<and> (\<forall>x \<in> tree_keys gap'. x = k' \<or> apart x k)"
proof -
  have inv: "ksl_inv gap" "ksl_compar gap = dwnx_ksl_range_compar" using gap by (simp_all add: gap_tree_def)
  obtain us x vs where c: "ksl_contents gap = us @ x # vs" "length us = i" "gap_keys gap ! i = fst x"
    "gap_keys gap = map fst us @ fst x # map fst vs" by (rule key_at [OF i])
  have s: "gaps_sorted (map fst us @ k # map fst vs)" using gap_tree_sorted [OF gap] c(3,4) k by simp
  have kt: "k \<in> tree_keys gap" using gap_keys_tree [of gap] i k by (meson nth_mem subsetD)
  have new1: "\<forall>y \<in> set us. dwnx_ksl_range_compar (fst y) k'"
  proof
    fix y assume "y \<in> set us"
    then have "r_begin (fst y) < r_begin k" using gaps_sorted_before [OF s, of "fst y"] by simp
    then show "dwnx_ksl_range_compar (fst y) k'" using new(1) by (simp add: dwnx_ksl_range_compar_def)
  qed
  have new2: "\<forall>y \<in> set vs. dwnx_ksl_range_compar k' (fst y)"
  proof
    fix y assume "y \<in> set vs"
    then have "r_end k \<le> r_begin (fst y)" using gaps_sorted_later [OF s, of "fst y"] by simp
    then show "dwnx_ksl_range_compar k' (fst y)" using new(2,3) unfolding dwnx_ksl_range_compar_def by (meson less_le_trans)
  qed
  have new3: "\<forall>y \<in> tree_keys gap. dwnx_ksl_range_compar y k \<longrightarrow> dwnx_ksl_range_compar y k'"
    using new(1) by (auto simp: dwnx_ksl_range_compar_def)
  have "r_begin (fst x) = r_begin k" using c(3) k by simp
  from range_order.update_key_ok [OF inv c(1), of k k', unfolded range_equal, OF this new1 new2 new3]
  obtain gap' where g: "dwnx_ksl_update_key gap k k' = Ok gap'" "ksl_inv gap'" "ksl_compar gap' = dwnx_ksl_range_compar"
    "ksl_contents gap' = us @ (k', snd x) # vs" "map length (all_leaves gap') = map length (all_leaves gap)"
    "tree_keys gap' \<subseteq> insert k' {y \<in> tree_keys gap. r_begin y \<noteq> r_begin k}"
    by blast
  have pair: "x = y \<or> apart x y" if "x \<in> tree_keys gap" "y \<in> tree_keys gap" for x y
    using gap that by (simp add: gap_tree_def)
  have keys: "x = k' \<or> x \<in> tree_keys gap \<and> apart x k" if "x \<in> tree_keys gap'" for x
  proof -
    have "x = k' \<or> x \<in> tree_keys gap \<and> r_begin x \<noteq> r_begin k" using subsetD [OF g(6) that] by simp
    then show ?thesis using pair [OF _ kt, of x] by auto
  qed
  have part: "x = k' \<or> x \<in> tree_keys gap \<and> apart x k'" if "x \<in> tree_keys gap'" for x
    using keys [OF that] apart_part [OF _ new(1,2), of x] by auto
  have "gap_tree gap'"
    unfolding gap_tree_def
  proof (intro conjI ballI)
    fix x y assume "x \<in> tree_keys gap'" "y \<in> tree_keys gap'"
    from part [OF this(1)] part [OF this(2)] show "x = y \<or> apart x y"
      using pair [of x y] by (auto simp: apart_sym [of k'])
  next
    fix x assume "x \<in> tree_keys gap'"
    from part [OF this] show "r_begin x < r_end x" using gap new(3) by (auto simp: gap_tree_def)
  qed (rule g(2,3))+
  moreover have "gap_keys gap' = (gap_keys gap)[i := k']" unfolding c(4) c(2) [symmetric] using g(4) by (simp add: gap_keys_def list_update_append)
  moreover have "it_points gap' it i \<longleftrightarrow> it_points gap it i" for it by (rule it_points_shape [OF g(5)])
  moreover have "\<forall>x \<in> tree_keys gap'. x = k' \<or> apart x k" using keys by blast
  ultimately show ?thesis using g(1) by blast
qed

lemma insert_points:
  assumes gap: "gap_tree gap" and r: "r_begin r < r_end r" "\<forall>x \<in> tree_keys gap. apart x r"
  defines "n \<equiv> keys_search dwnx_ksl_range_compar (gap_keys gap) r"
  shows "wp (dwnx_ksl_insert (mem, gap, it) r ())
    (\<lambda>_ (mem', gap', it'). gap_tree gap' \<and> gap_keys gap' = take n (gap_keys gap) @ r # drop n (gap_keys gap) \<and> it_points gap' it' n)
    (\<lambda>e (mem', gap', it'). e = ERR_NOMEM \<and> gap_tree gap' \<and> gap_keys gap' = gap_keys gap)"
    and "keys_insert (True # m) (gap_keys gap) r = (m, Ok (take n (gap_keys gap) @ r # drop n (gap_keys gap), n))"
    and "keys_insert (False # m) (gap_keys gap) r = (m, Err ERR_NOMEM)"
proof -
  have inv: "ksl_inv gap" "ksl_compar gap = dwnx_ksl_range_compar" using gap by (simp_all add: gap_tree_def)
  have other: "r_begin x \<noteq> r_begin r" if "x \<in> tree_keys gap" for x
  proof -
    have "apart x r" "r_begin x < r_end x" using that r gap by (simp_all add: gap_tree_def)
    then show ?thesis using r(1) by (auto simp: apart_def)
  qed
  have absent: "\<not> omap_has dwnx_ksl_range_compar r (ksl_contents gap)"
    unfolding omap_has_def range_equal using other [OF contents_tree_keys] by blast
  have tree: "gap_tree gap'" if "ksl_inv gap'" "ksl_compar gap' = dwnx_ksl_range_compar" "tree_keys gap' \<subseteq> insert r (tree_keys gap)" for gap'
    unfolding gap_tree_def
  proof (intro conjI ballI)
    fix x y assume "x \<in> tree_keys gap'" "y \<in> tree_keys gap'"
    then have "x = r \<or> x \<in> tree_keys gap" "y = r \<or> y \<in> tree_keys gap" using that(3) by blast+
    then show "x = y \<or> apart x y" using r(2) gap apart_sym [of x y] unfolding gap_tree_def by blast
  next
    fix x assume "x \<in> tree_keys gap'"
    then show "r_begin x < r_end x" using that(3) gap r(1) unfolding gap_tree_def by blast
  qed (rule that(1,2))+
  have ins: "map fst (omap_insert dwnx_ksl_range_compar r () (ksl_contents gap)) = take n (gap_keys gap) @ r # drop n (gap_keys gap)"
    unfolding omap_insert_def n_def keys_search_def gap_keys_def
    by (simp add: takeWhile_map comp_def take_map drop_map flip: takeWhile_eq_take dropWhile_eq_drop)
  have rank: "omap_rank dwnx_ksl_range_compar r (ksl_contents gap) = n"
    unfolding omap_rank_def n_def by (rule search_keys)
  show "wp (dwnx_ksl_insert (mem, gap, it) r ())
    (\<lambda>_ (mem', gap', it'). gap_tree gap' \<and> gap_keys gap' = take n (gap_keys gap) @ r # drop n (gap_keys gap) \<and> it_points gap' it' n)
    (\<lambda>e (mem', gap', it'). e = ERR_NOMEM \<and> gap_tree gap' \<and> gap_keys gap' = gap_keys gap)"
    by (rule wp_mono [OF range_order.insert_wp [OF inv]]) (use tree ins rank absent in \<open>auto simp: gap_keys_eq [OF refl] dest!: gap_keys_eq\<close>)
  have "\<not> (n < length (gap_keys gap) \<and> \<not> dwnx_ksl_range_compar r (gap_keys gap ! n))"
  proof
    assume n: "n < length (gap_keys gap) \<and> \<not> dwnx_ksl_range_compar r (gap_keys gap ! n)"
    then have "\<not> dwnx_ksl_range_compar (gap_keys gap ! n) r"
      using nth_length_takeWhile [of "\<lambda>k. dwnx_ksl_range_compar k r" "gap_keys gap"] by (simp add: n_def keys_search_def)
    then have "r_begin (gap_keys gap ! n) = r_begin r" using n by (simp add: dwnx_ksl_range_compar_def)
    moreover have "gap_keys gap ! n \<in> tree_keys gap" using gap_keys_tree [of gap] n by (meson nth_mem subsetD)
    ultimately show False using other by blast
  qed
  then show "keys_insert (True # m) (gap_keys gap) r = (m, Ok (take n (gap_keys gap) @ r # drop n (gap_keys gap), n))"
    "keys_insert (False # m) (gap_keys gap) r = (m, Err ERR_NOMEM)"
    by (simp_all add: keys_insert_def flip: n_def)
qed

section \<open>The tracker\<close>

text \<open>The run on the map and the run on the list of its keys have the same outcome, if the allocations
  of the second turn out as those of the first.\<close>

definition push_sim ::
    "dwnx_mem \<Rightarrow> (dwnx_mem \<times> ksl_gaptr, unit) sres \<Rightarrow> (dwnx_mem \<times> dwnx_gaptr, unit) sres \<Rightarrow> bool" where
  "push_sim mem r r' \<longleftrightarrow>
     (case r of
        SAbort \<Rightarrow> r' = SAbort
      | SErr e (mem', gap') \<Rightarrow> e = ERR_NOMEM \<and> \<not> mem_ok mem \<and> gap_tree gap' \<and> (\<exists>m. r' = SErr e (m, gap_keys gap'))
      | SOk _ (mem', gap') \<Rightarrow> (mem_ok mem \<longrightarrow> mem_ok mem') \<and> gap_tree gap' \<and> (\<exists>m. r' = SOk () (m, gap_keys gap')))"

lemma push_sim_SOk [simp]:
  "push_sim mem (SOk u (mem', gap)) r' \<longleftrightarrow> (mem_ok mem \<longrightarrow> mem_ok mem') \<and> gap_tree gap \<and> (\<exists>m. r' = SOk () (m, gap_keys gap))"
  by (simp add: push_sim_def)

lemma push_sim_SErr [simp]:
  "push_sim mem (SErr e (mem', gap)) r' \<longleftrightarrow>
     e = ERR_NOMEM \<and> \<not> mem_ok mem \<and> gap_tree gap \<and> (\<exists>m. r' = SErr e (m, gap_keys gap))"
  by (simp add: push_sim_def)

lemma push_sim_SAbort [simp]: "push_sim mem SAbort r' \<longleftrightarrow> r' = SAbort"
  by (simp add: push_sim_def)

lemma push_sim_mono: "push_sim mem' r r' \<Longrightarrow> (mem_ok mem \<Longrightarrow> mem_ok mem') \<Longrightarrow> push_sim mem r r'"
  by (auto simp: push_sim_def split: sres.splits)

text \<open>An insertion of a range that is apart from all keys, in both.\<close>

lemma insert_sim:
  assumes "gap_tree gap" and "r_begin r < r_end r" "\<forall>x \<in> tree_keys gap. apart x r"
  obtains (ok) mem' gap' it' n where "dwnx_ksl_insert (mem, gap, it) r () = SOk () (mem', gap', it')"
      "mem_ok mem \<Longrightarrow> mem_ok mem'" "gap_tree gap'" "it_points gap' it' n" "n < length (gap_keys gap')"
      "\<And>m. keys_insert (True # m) (gap_keys gap) r = (m, Ok (gap_keys gap', n))"
    | (nomem) mem' gap' it' where "dwnx_ksl_insert (mem, gap, it) r () = SErr ERR_NOMEM (mem', gap', it')"
      "\<not> mem_ok mem" "gap_tree gap'" "gap_keys gap' = gap_keys gap"
      "\<And>m. keys_insert (False # m) (gap_keys gap) r = (m, Err ERR_NOMEM)"
proof -
  note p = insert_points(1) [OF assms, of mem it] and q = insert_points(2,3) [OF assms]
  have run: "mem_ok mem \<Longrightarrow> mem_run (dwnx_ksl_insert (mem, gap, it) r ())" by (rule insert_mem_ok)
  show thesis
  proof (cases "dwnx_ksl_insert (mem, gap, it) r ()")
    case (SOk u s)
    obtain mem' gap' it' where s: "s = (mem', gap', it')" by (cases s)
    show thesis
    proof (rule ok)
      show "dwnx_ksl_insert (mem, gap, it) r () = SOk () (mem', gap', it')" using SOk s by simp
      show "mem_ok mem \<Longrightarrow> mem_ok mem'" using run SOk s by (simp add: mem_run_def)
    qed (use p q SOk s in \<open>simp_all add: keys_search_def length_takeWhile_le less_Suc_eq_le\<close>)
  next
    case (SErr e s)
    obtain mem' gap' it' where s: "s = (mem', gap', it')" by (cases s)
    show thesis
    proof (rule nomem)
      show "dwnx_ksl_insert (mem, gap, it) r () = SErr ERR_NOMEM (mem', gap', it')" using p(1) SErr s by simp
      then show "\<not> mem_ok mem" using run by (auto simp: mem_run_def)
    qed (use p q SErr s in simp_all)
  qed (use p in simp)
qed

lemma cut_parts:
  assumes "dwnx_range_len (dwnx_range_intersect q k) \<noteq> 0"
  shows "r_begin k \<le> r_begin (dwnx_range_intersect q k)" "r_end (dwnx_range_intersect q k) \<le> r_end k"
    "r_begin (dwnx_range_intersect q k) < r_end (dwnx_range_intersect q k)"
  using assms by (auto simp: dwnx_range_intersect_def Let_def dwnx_range_init_def split: if_splits)

lemma update_sim:
  assumes "gap_tree gap" and "i < length (gap_keys gap)" and "k = gap_keys gap ! i"
    and "r_begin k \<le> r_begin k'" "r_end k' \<le> r_end k" "r_begin k' < r_end k'"
  obtains gap' where "dwnx_ksl_update_key gap k k' = Ok gap'" "keys_update (gap_keys gap) k k' = Ok (gap_keys gap')"
    "gap_tree gap'" "length (gap_keys gap') = length (gap_keys gap)" "\<forall>it. it_points gap it i \<longrightarrow> it_points gap' it i"
    "\<forall>x \<in> tree_keys gap'. x = k' \<or> apart x k"
proof -
  obtain pre suf where c: "gap_keys gap = pre @ k # suf" "length pre = i"
    using id_take_nth_drop [OF assms(2)] assms(2,3) that by (metis length_take min.absorb4)
  have "keys_update (gap_keys gap) k k' = Ok ((gap_keys gap)[i := k'])"
    using keys_update_at [of pre k suf k'] gap_tree_sorted [OF assms(1)] c by auto
  then show thesis using update_points [OF assms] that by fastforce
qed

lemma push_loop_sim:
  assumes "gap_tree gap" and "it_points gap it i" and "i \<le> length (gap_keys gap)"
  shows "\<exists>m. push_sim mem (ksl_gaptr_push_loop fuel q (mem, gap, it)) (gaptr_push_loop fuel q (m, gap_keys gap) i)"
  using assms
proof (induction fuel arbitrary: mem gap it i)
  case (Suc fuel)
  have inv: "ksl_inv gap" using Suc.prems(1) by (simp add: gap_tree_def)
  note e = end_points [OF Suc.prems(2)]
  have step: "\<exists>m. push_sim mem (ksl_gaptr_push_loop fuel q (mem', gap', dwnx_ksl_it_next gap' it'))
      (gaptr_push_loop fuel q (m, gap_keys gap') (n + 1))"
    if "gap_tree gap'" "it_points gap' it' n" "n < length (gap_keys gap')" "mem_ok mem \<Longrightarrow> mem_ok mem'" for mem' gap' it' n
  proof -
    have "it_points gap' (dwnx_ksl_it_next gap' it') (Suc n)"
      by (rule it_next_points) (use that in \<open>simp_all add: gap_tree_def gap_keys_def\<close>)
    from Suc.IH [OF that(1) this, of mem'] that(3,4) push_sim_mono show ?thesis by fastforce
  qed
  show ?case
  proof (cases "i = length (gap_keys gap)")
    case True
    then show ?thesis using e Suc.prems(1) by simp
  next
    case False
    then have i: "i < length (gap_keys gap)" using Suc.prems(3) by simp
    define k where "k = gap_keys gap ! i"
    define m where "m = dwnx_range_intersect q k"
    have key: "dwnx_ksl_it_key gap it = k" using key_points [OF Suc.prems(2) i] by (simp add: k_def)
    show ?thesis
    proof (cases "dwnx_range_len m = 0")
      case True
      then show ?thesis using e False Suc.prems(1) key by (simp add: Let_def flip: k_def m_def)
    next
      case m: False
      note p = cut_parts [OF m [unfolded m_def], folded m_def]
      define l where "l = fst (dwnx_range_cut k m)"
      define r where "r = snd (dwnx_range_cut k m)"
      have cut: "dwnx_range_cut k m = (l, r)" by (simp add: l_def r_def)
      have c: "dwnx_ksl_it_end gap it = False" "(dwnx_range_len m = 0) = False" "(i = length (gap_keys gap)) = False"
        using e False m by simp_all
      have lr: "r_begin l = r_begin k" "r_end l = r_begin m" "r_begin r = r_end m" "r_end r = r_end k"
        by (simp_all add: l_def r_def dwnx_range_cut_def)
      have run: "ksl_gaptr_push_loop (Suc fuel) q (mem, gap, it) =
          (if dwnx_range_eq k m then
             (case dwnx_ksl_remove_hint (mem, gap, it) it k of
                SAbort \<Rightarrow> SAbort
              | SErr e s \<Rightarrow> ksl_gaptr_push_loop fuel q s
              | SOk _ s \<Rightarrow> ksl_gaptr_push_loop fuel q s)
           else if dwnx_range_len l \<noteq> 0 then
             (case dwnx_ksl_update_key gap k l of
                Ok gap \<Rightarrow>
                  if dwnx_range_len r \<noteq> 0 then
                    (case dwnx_ksl_insert (mem, gap, it) r () of
                       SAbort \<Rightarrow> SAbort
                     | SErr e (mem, gap, it) \<Rightarrow> SErr e (mem, gap)
                     | SOk _ (mem, gap, it) \<Rightarrow> ksl_gaptr_push_loop fuel q (mem, gap, dwnx_ksl_it_next gap it))
                  else ksl_gaptr_push_loop fuel q (mem, gap, dwnx_ksl_it_next gap it)
              | _ \<Rightarrow> SAbort)
           else if dwnx_range_len r \<noteq> 0 then
             (case dwnx_ksl_update_key gap k r of
                Ok gap \<Rightarrow> ksl_gaptr_push_loop fuel q (mem, gap, dwnx_ksl_it_next gap it)
              | _ \<Rightarrow> SAbort)
           else ksl_gaptr_push_loop fuel q (mem, gap, dwnx_ksl_it_next gap it))"
        unfolding ksl_gaptr_push_loop.simps key Let_def m_def [symmetric] cut prod.case c if_False ..
      have run': "gaptr_push_loop (Suc fuel) q (mem', gap_keys gap) i =
          (if dwnx_range_eq k m then gaptr_push_loop fuel q (mem', keys_remove (gap_keys gap) i) i
           else if dwnx_range_len l \<noteq> 0 then
             (case keys_update (gap_keys gap) k l of
                Ok gap \<Rightarrow>
                  if dwnx_range_len r \<noteq> 0 then
                    (case keys_insert mem' gap r of
                       (mem, Ok (gap, i)) \<Rightarrow> gaptr_push_loop fuel q (mem, gap) (i + 1)
                     | (mem, Err e) \<Rightarrow> SErr e (mem, gap)
                     | (mem, Abort) \<Rightarrow> SAbort)
                  else gaptr_push_loop fuel q (mem', gap) (i + 1)
              | _ \<Rightarrow> SAbort)
           else if dwnx_range_len r \<noteq> 0 then
             (case keys_update (gap_keys gap) k r of
                Ok gap \<Rightarrow> gaptr_push_loop fuel q (mem', gap) (i + 1)
              | _ \<Rightarrow> SAbort)
           else gaptr_push_loop fuel q (mem', gap_keys gap) (i + 1))" for mem'
        unfolding gaptr_push_loop.simps k_def [symmetric] Let_def m_def [symmetric] cut prod.case c if_False ..
      consider (whole) "dwnx_range_eq k m" | (both) "\<not> dwnx_range_eq k m" "dwnx_range_len l \<noteq> 0" "dwnx_range_len r \<noteq> 0"
        | (left) "\<not> dwnx_range_eq k m" "dwnx_range_len l \<noteq> 0" "dwnx_range_len r = 0"
        | (right) "\<not> dwnx_range_eq k m" "dwnx_range_len l = 0" "dwnx_range_len r \<noteq> 0"
        | (none) "\<not> dwnx_range_eq k m" "dwnx_range_len l = 0" "dwnx_range_len r = 0" by blast
      then show ?thesis
      proof cases
        case whole
        note w = remove_points [OF Suc.prems(1,2) i, of mem, folded k_def]
        then obtain gap' it' where s: "dwnx_ksl_remove_hint (mem, gap, it) it k = SOk () (mem, gap', it')" "gap_tree gap'"
          "gap_keys gap' = keys_remove (gap_keys gap) i" "it_points gap' it' i"
          by (cases "dwnx_ksl_remove_hint (mem, gap, it) it k") auto
        have "i \<le> length (gap_keys gap')" using i s(3) by (simp add: keys_remove_def)
        from Suc.IH [OF s(2,4) this, of mem] show ?thesis unfolding run run' using whole s(1,3) by simp
      next
        case left
        have l: "r_begin k \<le> r_begin l" "r_end l \<le> r_end k" "r_begin l < r_end l" using lr p left by auto
        obtain gap' where u: "dwnx_ksl_update_key gap k l = Ok gap'" "keys_update (gap_keys gap) k l = Ok (gap_keys gap')"
          "gap_tree gap'" "length (gap_keys gap') = length (gap_keys gap)" "\<forall>it. it_points gap it i \<longrightarrow> it_points gap' it i"
          "\<forall>x \<in> tree_keys gap'. x = l \<or> apart x k"
          by (rule update_sim [OF Suc.prems(1) i k_def l])
        show ?thesis unfolding run run' using left u(1,2) step [OF u(3) u(5) [THEN spec, THEN mp, OF Suc.prems(2)], of mem] i u(4) by simp
      next
        case right
        have r: "r_begin k \<le> r_begin r" "r_end r \<le> r_end k" "r_begin r < r_end r" using lr p right by auto
        obtain gap' where u: "dwnx_ksl_update_key gap k r = Ok gap'" "keys_update (gap_keys gap) k r = Ok (gap_keys gap')"
          "gap_tree gap'" "length (gap_keys gap') = length (gap_keys gap)" "\<forall>it. it_points gap it i \<longrightarrow> it_points gap' it i"
          "\<forall>x \<in> tree_keys gap'. x = r \<or> apart x k"
          by (rule update_sim [OF Suc.prems(1) i k_def r])
        show ?thesis unfolding run run' using right u(1,2) step [OF u(3) u(5) [THEN spec, THEN mp, OF Suc.prems(2)], of mem] i u(4) by simp
      next
        case none
        show ?thesis unfolding run run' using none step [OF Suc.prems(1,2) i, of mem] by simp
      next
        case both
        have l: "r_begin k \<le> r_begin l" "r_end l \<le> r_end k" "r_begin l < r_end l"
          and r: "r_begin k \<le> r_begin r" "r_end r \<le> r_end k" "r_begin r < r_end r" "r_end l \<le> r_begin r"
          using lr p both by auto
        obtain gap1 where u: "dwnx_ksl_update_key gap k l = Ok gap1" "keys_update (gap_keys gap) k l = Ok (gap_keys gap1)"
          "gap_tree gap1" "length (gap_keys gap1) = length (gap_keys gap)" "\<forall>it. it_points gap it i \<longrightarrow> it_points gap1 it i"
          "\<forall>x \<in> tree_keys gap1. x = l \<or> apart x k"
          by (rule update_sim [OF Suc.prems(1) i k_def l])
        have a: "\<forall>x \<in> tree_keys gap1. apart x r"
        proof
          fix x assume "x \<in> tree_keys gap1"
          from bspec [OF u(6) this] show "apart x r" using apart_part [OF _ r(1,2), of x] r(4) by (auto simp: apart_def)
        qed
        show ?thesis
        proof (cases rule: insert_sim [OF u(3) r(3) a, of mem it])
          case (1 mem' gap' it' n)
          from step [OF 1(3-5), of mem'] 1(2) obtain m' where
            "push_sim mem (ksl_gaptr_push_loop fuel q (mem', gap', dwnx_ksl_it_next gap' it'))
              (gaptr_push_loop fuel q (m', gap_keys gap') (n + 1))" by blast
          then show ?thesis
            unfolding run run' using both u(1,2) 1(1,6) by (intro exI [of _ "True # m'"]) simp
        next
          case (2 mem' gap' it')
          then show ?thesis
            unfolding run run' using both u(1,2) by (intro exI [of _ "[False]"]) simp
        qed
      qed
    qed
  qed
qed simp

lemma empty_tree: "ksl_inv gap \<Longrightarrow> ksl_compar gap = dwnx_ksl_range_compar \<Longrightarrow> ksl_contents gap = [] \<Longrightarrow> tree_keys gap = {}"
  using range_order.keys_have_elements
  by (cases "ksl_root gap") (fastforce simp: tree_keys_def ksl_inv_def root_ok_def contents_root)+

lemma gap_init_sim:
  assumes "gap_tree gap" and "gap_keys gap = []"
  shows "\<exists>b. \<forall>m. push_sim mem (ksl_gaptr_gap_init (mem, gap)) (gaptr_gap_init (b # m, gap_keys gap)) \<and>
    (\<forall>u s. gaptr_gap_init (b # m, gap_keys gap) = SOk u s \<longrightarrow> fst s = m)"
proof -
  have a: "\<forall>x \<in> tree_keys gap. apart x \<lparr>r_begin = 0, r_end = UINT64_MAX\<rparr>"
    using empty_tree [of gap] assms by (simp add: gap_tree_def gap_keys_def)
  have "r_begin \<lparr>r_begin = 0, r_end = UINT64_MAX\<rparr> < r_end \<lparr>r_begin = 0, r_end = UINT64_MAX\<rparr>"
    by (simp add: UINT64_MAX_def)
  note i = insert_sim [OF assms(1) this a, of mem "dwnx_ksl_end gap"]
  show ?thesis
  proof (cases rule: i)
    case (1 mem' gap' it' n)
    then show ?thesis by (intro exI [of _ True]) (simp add: ksl_gaptr_gap_init_def gaptr_gap_init_def)
  next
    case (2 mem' gap' it')
    then show ?thesis by (intro exI [of _ False]) (simp add: ksl_gaptr_gap_init_def gaptr_gap_init_def)
  qed
qed

lemma gaptr_push_sim:
  assumes gap: "gap_tree gap" and q: "offset < offset + datalen"
  shows "\<exists>m. push_sim mem (ksl_gaptr_push (mem, gap) offset datalen) (dwnx_gaptr_push (m, gap_keys gap) offset datalen)"
proof -
  let ?q = "\<lparr>r_begin = offset, r_end = offset + datalen\<rparr>"
  have loop: "\<exists>m. push_sim mem (case dwnx_ksl_lower_bound_search gap ?q dwnx_ksl_range_exclusive_search of
          Ok it \<Rightarrow> ksl_gaptr_push_loop (dwnx_ksl_len gap + 1) ?q (mem, gap, it) | _ \<Rightarrow> SAbort)
        (gaptr_push_loop (length (gap_keys gap) + 1) ?q (m, gap_keys gap)
           (keys_search dwnx_ksl_range_exclusive_compar (gap_keys gap) ?q))"
    if gap: "gap_tree gap" for mem gap
  proof -
    obtain it where it: "dwnx_ksl_lower_bound_search gap ?q dwnx_ksl_range_exclusive_search = Ok it"
      "it_points gap it (keys_search dwnx_ksl_range_exclusive_compar (gap_keys gap) ?q)"
      using search_points [OF gap, of ?q] q by auto
    have "dwnx_ksl_len gap = length (gap_keys gap)" using gap by (simp add: len_keys gap_tree_def)
    note len = this
    have "keys_search dwnx_ksl_range_exclusive_compar (gap_keys gap) ?q \<le> length (gap_keys gap)"
      by (simp add: keys_search_def length_takeWhile_le)
    then show ?thesis unfolding it(1) res.case len by (rule push_loop_sim [OF gap it(2)])
  qed
  have len: "dwnx_ksl_len gap = length (gap_keys gap)" using gap by (simp add: len_keys gap_tree_def)
  show ?thesis
  proof (cases "gap_keys gap = []")
    case False
    then show ?thesis using loop [OF gap, of mem] len by (simp add: ksl_gaptr_push_def dwnx_gaptr_push_def Let_def)
  next
    case True
    obtain b where b: "\<And>m. push_sim mem (ksl_gaptr_gap_init (mem, gap)) (gaptr_gap_init (b # m, gap_keys gap))"
      "\<And>m u s. gaptr_gap_init (b # m, gap_keys gap) = SOk u s \<Longrightarrow> fst s = m"
      using gap_init_sim [OF gap True, of mem] by blast
    show ?thesis
    proof (cases "ksl_gaptr_gap_init (mem, gap)")
      case (SOk u s)
      obtain mem1 gap1 where s: "s = (mem1, gap1)" by (cases s)
      then have g: "gap_tree gap1" "mem_ok mem \<Longrightarrow> mem_ok mem1" using b(1) SOk by auto
      from loop [OF g(1), of mem1] obtain m where m: "push_sim mem (case dwnx_ksl_lower_bound_search gap1 ?q dwnx_ksl_range_exclusive_search of
          Ok it \<Rightarrow> ksl_gaptr_push_loop (dwnx_ksl_len gap1 + 1) ?q (mem1, gap1, it) | _ \<Rightarrow> SAbort)
        (gaptr_push_loop (length (gap_keys gap1) + 1) ?q (m, gap_keys gap1)
           (keys_search dwnx_ksl_range_exclusive_compar (gap_keys gap1) ?q))"
        using push_sim_mono g(2) by blast
      obtain m1 where "gaptr_gap_init (b # m, gap_keys gap) = SOk () (m1, gap_keys gap1)" using b(1) [of m] SOk s by auto
      then have "gaptr_gap_init (b # m, gap_keys gap) = SOk () (m, gap_keys gap1)" using b(2) by fastforce
      then show ?thesis
        using m SOk s True len unfolding ksl_gaptr_push_def dwnx_gaptr_push_def Let_def snd_conv
        by (intro exI [of _ "b # m"]) simp
    next
      case (SErr e s)
      then show ?thesis
        using b(1) [of "[]"] True len
        by (intro exI [of _ "[b]"]) (cases s; auto simp: ksl_gaptr_push_def dwnx_gaptr_push_def Let_def)
    next
      case SAbort
      then show ?thesis
        using b(1) [of "[]"] True len
        by (intro exI [of _ "[b]"]) (simp add: ksl_gaptr_push_def dwnx_gaptr_push_def Let_def)
    qed
  qed
qed

lemma search_less: "gap_tree gap \<Longrightarrow> it_points gap it i \<Longrightarrow> \<not> dwnx_ksl_it_end gap it \<Longrightarrow> i < length (gap_keys gap)"
  using it_at_element(1) [of "all_leaves gap" it i]
  by (auto simp: end_points it_points_def gap_keys_def ksl_contents_def le_less)

lemma is_pushed_keys:
  assumes gap: "gap_tree gap" and q: "offset < offset + datalen"
  shows "ksl_gaptr_is_pushed gap offset datalen = dwnx_gaptr_is_pushed (gap_keys gap) offset datalen"
proof -
  let ?q = "\<lparr>r_begin = offset, r_end = offset + datalen\<rparr>"
  obtain it where it: "dwnx_ksl_lower_bound_search gap ?q dwnx_ksl_range_exclusive_search = Ok it"
    "it_points gap it (keys_search dwnx_ksl_range_exclusive_compar (gap_keys gap) ?q)"
    using search_points [OF gap, of ?q] q by auto
  have "dwnx_ksl_len gap = length (gap_keys gap)" using gap by (simp add: len_keys gap_tree_def)
  then show ?thesis
    using it end_points [OF it(2)] key_points [OF it(2) search_less [OF gap it(2)]]
    by (cases "dwnx_ksl_it_end gap it") (simp_all add: ksl_gaptr_is_pushed_def dwnx_gaptr_is_pushed_def Let_def)
qed

lemma first_gap_after_keys:
  assumes gap: "gap_tree gap" and q: "offset < offset + 1"
  shows "ksl_gaptr_get_first_gap_after gap offset = dwnx_gaptr_get_first_gap_after (gap_keys gap) offset"
proof -
  let ?q = "\<lparr>r_begin = offset, r_end = offset + 1\<rparr>"
  obtain it where it: "dwnx_ksl_lower_bound_search gap ?q dwnx_ksl_range_exclusive_search = Ok it"
    "it_points gap it (keys_search dwnx_ksl_range_exclusive_compar (gap_keys gap) ?q)"
    using search_points [OF gap, of ?q] q by auto
  have "dwnx_ksl_len gap = length (gap_keys gap)" using gap by (simp add: len_keys gap_tree_def)
  then show ?thesis
    using it end_points [OF it(2)] key_points [OF it(2) search_less [OF gap it(2)]]
    by (cases "dwnx_ksl_it_end gap it") (simp_all add: ksl_gaptr_get_first_gap_after_def dwnx_gaptr_get_first_gap_after_def Let_def)
qed

lemma begin_keys:
  assumes "gap_tree gap" and "gap_keys gap \<noteq> []"
  shows "it_points gap (dwnx_ksl_begin gap) 0" and "\<not> dwnx_ksl_it_end gap (dwnx_ksl_begin gap)"
    and "dwnx_ksl_it_key gap (dwnx_ksl_begin gap) = gap_keys gap ! 0"
proof -
  show p: "it_points gap (dwnx_ksl_begin gap) 0" using assms(1) it_begin_points [of gap] by (simp add: gap_tree_def)
  show "\<not> dwnx_ksl_it_end gap (dwnx_ksl_begin gap)" using end_points [OF p] assms(2) by simp
  show "dwnx_ksl_it_key gap (dwnx_ksl_begin gap) = gap_keys gap ! 0" by (rule key_points [OF p]) (use assms(2) in simp)
qed

lemma first_gap_keys: "gap_tree gap \<Longrightarrow> ksl_gaptr_first_gap_offset gap = dwnx_gaptr_first_gap_offset (gap_keys gap)"
  using begin_keys(3) [of gap]
  by (cases "gap_keys gap = []")
    (auto simp: ksl_gaptr_first_gap_offset_def dwnx_gaptr_first_gap_offset_def len_keys gap_tree_def)

lemma drop_first_keys:
  assumes "gap_tree gap"
  shows "\<exists>gap'. ksl_gaptr_drop_first_gap (mem, gap) = SOk () (mem, gap') \<and> gap_tree gap' \<and>
    gap_keys gap' = dwnx_gaptr_drop_first_gap (gap_keys gap)"
proof (cases "gap_keys gap = []")
  case True
  then show ?thesis
    using assms by (auto simp: ksl_gaptr_drop_first_gap_def dwnx_gaptr_drop_first_gap_def len_keys gap_tree_def)
next
  case False
  have len: "dwnx_ksl_len gap = length (gap_keys gap)" using assms by (simp add: len_keys gap_tree_def)
  note b = begin_keys [OF assms False]
  have "0 < length (gap_keys gap)" using False by simp
  from remove_points [OF assms b(1) this, of mem, folded b(3)] show ?thesis
    using False b(2) len
    by (cases "dwnx_ksl_remove_hint (mem, gap, dwnx_ksl_begin gap) (dwnx_ksl_begin gap) (dwnx_ksl_it_key gap (dwnx_ksl_begin gap))")
      (auto simp: ksl_gaptr_drop_first_gap_def dwnx_gaptr_drop_first_gap_def)
qed

lemma gaptr_init_tree:
  obtains gap where "ksl_gaptr_init = Ok gap" "gap_tree gap" "gap_keys gap = []"
proof -
  obtain gap where g: "ksl_gaptr_init = Ok gap" "ksl_root gap = None"
    by (auto simp: ksl_gaptr_init_def dwnx_ksl_init_def Let_def)
  then have i: "ksl_inv gap" "ksl_contents gap = []" "ksl_compar gap = dwnx_ksl_range_compar"
    using init_inv [OF range_order.ksl_order_axioms, of 16 gap] by (simp_all add: ksl_gaptr_init_def dwnx_ksl_range_search_def)
  then show thesis using that g by (simp add: gap_tree_def gap_keys_def tree_keys_def)
qed

section \<open>The tracker on the ordered map is a set of offsets\<close>

text \<open>C11: The gap tracker, run on the blocks of the ordered map as the code does it, is a set of offsets: a
  push never fails an assertion, fails only when an allocation does, adds exactly its range, and the
  query answers from that set for any range. Iterators stay valid across the removals, the changes of
  keys and the insertions of one push.\<close>

theorem ksl_gaptr_push_refines:
  assumes "gap_tree gap" and "gaptr_inv (gap_keys gap)" and "offset < offset + datalen" and "offset + datalen < UINT64_MAX"
  shows "case ksl_gaptr_push (mem, gap) offset datalen of
      SOk _ (mem', gap') \<Rightarrow>
        gap_tree gap' \<and> gaptr_inv (gap_keys gap') \<and>
        gaptr_abs (gap_keys gap') = gaptr_abs (gap_keys gap) \<union> {offset ..< offset + datalen} \<and>
        (\<forall>x n. x < x + n \<and> x + n < UINT64_MAX \<longrightarrow>
           ksl_gaptr_is_pushed gap' x n = Ok ({x ..< x + n} \<subseteq> gaptr_abs (gap_keys gap) \<union> {offset ..< offset + datalen}))
    | SErr e (mem', gap') \<Rightarrow> e = ERR_NOMEM \<and> False \<in> set mem \<and> gap_tree gap'
    | SAbort \<Rightarrow> False"
proof -
  obtain m where m: "push_sim mem (ksl_gaptr_push (mem, gap) offset datalen) (dwnx_gaptr_push (m, gap_keys gap) offset datalen)"
    using gaptr_push_sim [OF assms(1,3)] by blast
  note s = gaptr_push_spec [OF assms(2-4), of m]
  show ?thesis
  proof (cases "ksl_gaptr_push (mem, gap) offset datalen")
    case (SOk u p)
    obtain mem' gap' where p: "p = (mem', gap')" by (cases p)
    have t: "gap_tree gap'" and r: "\<exists>m'. dwnx_gaptr_push (m, gap_keys gap) offset datalen = SOk () (m', gap_keys gap')"
      using m unfolding SOk p by simp_all
    from r obtain m' where r': "dwnx_gaptr_push (m, gap_keys gap) offset datalen = SOk () (m', gap_keys gap')" ..
    have g: "gaptr_inv (gap_keys gap')" "gaptr_abs (gap_keys gap') = gaptr_abs (gap_keys gap) \<union> {offset ..< offset + datalen}"
      using s unfolding r' by (simp_all only: sres.inject sres.distinct prod.inject simp_thms) (elim exE conjE; simp)+
    have "ksl_gaptr_is_pushed gap' x n = Ok ({x ..< x + n} \<subseteq> gaptr_abs (gap_keys gap) \<union> {offset ..< offset + datalen})"
      if x: "x < x + n" "x + n < UINT64_MAX" for x n
      unfolding is_pushed_keys [OF t x(1)] gaptr_is_pushed_spec [OF g(1) x] g(2) ..
    then show ?thesis unfolding SOk p sres.case prod.case using t g by blast
  next
    case (SErr e p)
    obtain mem' gap' where p: "p = (mem', gap')" by (cases p)
    have "e = ERR_NOMEM" "\<not> mem_ok mem" "gap_tree gap'" using m unfolding SErr p by simp_all
    then show ?thesis unfolding SErr p by (simp add: mem_ok_def)
  next
    case SAbort
    then have "dwnx_gaptr_push (m, gap_keys gap) offset datalen = SAbort" using m by simp
    then show ?thesis using s by simp
  qed
qed

theorem ksl_gaptr_push_refines_witness:
  "\<exists>gap mem' gap'. ksl_gaptr_init = Ok gap \<and> ksl_gaptr_push ([], gap) 3 4 = SOk () (mem', gap') \<and>
     gaptr_abs (gap_keys gap') = {3 ..< 7} \<and> ksl_gaptr_is_pushed gap' 3 4 = Ok True"
proof -
  obtain gap where g: "ksl_gaptr_init = Ok gap" "gap_tree gap" "gap_keys gap = []" by (rule gaptr_init_tree)
  have n: "(3 :: u64) < 3 + 4" "(3 :: u64) + 4 < UINT64_MAX" by (simp_all add: UINT64_MAX_def)
  have i: "gaptr_inv (gap_keys gap)" "gaptr_abs (gap_keys gap) = {}" using g(3) by (simp_all add: gaptr_inv_def gaptr_abs_def)
  from ksl_gaptr_push_refines [OF g(2) i(1) n, of "[]"] obtain mem' gap' where
    p: "ksl_gaptr_push ([], gap) 3 4 = SOk () (mem', gap')" "gaptr_abs (gap_keys gap') = {3 ..< 7}"
      "\<forall>x n. x < x + n \<and> x + n < UINT64_MAX \<longrightarrow> ksl_gaptr_is_pushed gap' x n = Ok ({x ..< x + n} \<subseteq> {3 ..< 7})"
    unfolding i(2) by (cases "ksl_gaptr_push ([], gap) 3 4") auto
  have "ksl_gaptr_is_pushed gap' 3 4 = Ok True" using p(3) [THEN spec, THEN spec, THEN mp, of 3 4] n by simp
  then show ?thesis using g(1) p(1,2) by blast
qed

end
