(* ===== verification/Conn.thy ===== *)
theory Conn
  imports TransportParams Strm HashMap Pq Gaptr Qre RecordReader Ratelim
begin

text \<open>
  \<open>lib/dwnx_conn.c\<close> and \<open>lib/dwnx_conn.h\<close>, first part: the state of a connection, the calls of the
  application's callbacks, and the operations on streams and on the queue of streams to write.

  The stream objects are in a store from addresses to streams. The hash map \<open>strms\<close> and the priority
  queue \<open>strmq\<close> hold addresses, and following an address that is not in the store aborts, so that a
  use after free is visible. A function that updates the connection returns it in a \<open>sres\<close>: its
  result and the connection, an error and the connection as it is at that return, or an abort.

  The application is a parameter: for every callback it has no function, or one that updates the
  connection (the application's own data, and the library state through the functions of the
  library it calls) and returns a number. The log is not modelled but for the time it keeps.
\<close>

unbundle bit_operations_syntax

section \<open>The state of a connection\<close>

text \<open>\<open>conn->flags\<close>.\<close>

abbreviation CONN_FLAG_QX_TRANSPORT_PARAMETERS_SEEN :: u32 where
  "CONN_FLAG_QX_TRANSPORT_PARAMETERS_SEEN \<equiv> 0x01"
abbreviation CONN_FLAG_QX_TRANSPORT_PARAMETERS_SENT :: u32 where
  "CONN_FLAG_QX_TRANSPORT_PARAMETERS_SENT \<equiv> 0x02"
abbreviation CONN_FLAG_EARLY_TRANSPORT_PARAMS_SET :: u32 where
  "CONN_FLAG_EARLY_TRANSPORT_PARAMS_SET \<equiv> 0x04"
abbreviation CONN_FLAG_EARLY_DATA_REJECTED :: u32 where
  "CONN_FLAG_EARLY_DATA_REJECTED \<equiv> 0x08"

type_synonym strm_ptr = nat

text \<open>
  The members of the nested structs carry their names as prefixes. \<open>conn_mem\<close> is the allocator and
  \<open>conn_next_ptr\<close> the next address it gives out for a stream; address 0 is the null pointer.
  \<open>last_ts\<close> is \<open>log.last_ts\<close>.
\<close>

record ('a, 'u) dwnx_conn =
  conn_mem :: dwnx_mem
  conn_user_data :: 'a
  local_params :: dwnx_transport_params
  remote_params :: dwnx_transport_params
  bidi_idtr :: dwnx_idtr
  uni_idtr :: dwnx_idtr
  vird :: dwnx_varint_reader
  rcrd :: dwnx_record_reader
  crx_unsent_max_offset :: u64
  crx_offset :: u64
  crx_max_offset :: u64
  crx_window :: u64
  crx_ping_last_seq :: i64
  crx_ping_last_resp_seq :: i64
  crx_bidi_unsent_max_streams :: u64
  crx_bidi_max_streams :: u64
  crx_uni_unsent_max_streams :: u64
  crx_uni_max_streams :: u64
  ctx_strmq :: "strm_ptr dwnx_pq"
  ctx_qre :: dwnx_qre
  ctx_offset :: u64
  ctx_max_offset :: u64
  ctx_last_blocked_offset :: u64
  ctx_ping_last_seq :: i64
  ctx_bidi_max_streams :: u64
  ctx_bidi_next_stream_id :: i64
  ctx_uni_max_streams :: u64
  ctx_uni_next_stream_id :: i64
  glitch_rlim :: dwnx_ratelim
  strms :: "strm_ptr dwnx_map"
  last_ts :: dwnx_tstamp
  idle_ts :: dwnx_tstamp
  conn_flags :: u32
  server :: bool
  strm_store :: "strm_ptr \<Rightarrow> 'u dwnx_strm option"
  conn_next_ptr :: strm_ptr

type_synonym ('a, 'u, 'r) conn_res = "(('a, 'u) dwnx_conn, 'r) sres"

definition conn_has :: "('a, 'u) dwnx_conn \<Rightarrow> u32 \<Rightarrow> bool" where
  "conn_has conn fl \<longleftrightarrow> conn_flags conn AND fl \<noteq> 0"

definition conn_set :: "u32 \<Rightarrow> ('a, 'u) dwnx_conn \<Rightarrow> ('a, 'u) dwnx_conn" where
  "conn_set fl conn = conn\<lparr>conn_flags := conn_flags conn OR fl\<rparr>"

text \<open>\<open>strm->x\<close> and \<open>strm->x = y\<close> through the address of a stream.\<close>

definition with_strm ::
    "('a, 'u) dwnx_conn \<Rightarrow> strm_ptr \<Rightarrow> ('u dwnx_strm \<Rightarrow> ('a, 'u, 'r) conn_res) \<Rightarrow> ('a, 'u, 'r) conn_res" where
  "with_strm conn p k = (case strm_store conn p of None \<Rightarrow> SAbort | Some strm \<Rightarrow> k strm)"

definition upd_strm :: "strm_ptr \<Rightarrow> ('u dwnx_strm \<Rightarrow> 'u dwnx_strm) \<Rightarrow> ('a, 'u) dwnx_conn \<Rightarrow> ('a, 'u) dwnx_conn" where
  "upd_strm p f conn = conn\<lparr>strm_store := (strm_store conn)(p := map_option f (strm_store conn p))\<rparr>"

text \<open>Calling a function that returns \<open>res\<close> from one that returns a connection.\<close>

definition sres_of :: "'x res \<Rightarrow> 's \<Rightarrow> ('s, 'x) sres" where
  "sres_of r s = (case r of Ok x \<Rightarrow> SOk x s | Err e \<Rightarrow> SErr e s | Abort \<Rightarrow> SAbort)"

section \<open>Callbacks\<close>

datatype 'u dwnx_event =
    Ev_recv_transport_params dwnx_transport_params
  | Ev_recv_stream_data u32 i64 u64 bytes 'u
  | Ev_stream_open i64
  | Ev_stream_close u32 i64 u64 u64 'u
  | Ev_stream_reset i64 u64 u64 'u
  | Ev_stream_stop_sending i64 u64 'u
  | Ev_recv_stop_sending i64 u64 'u
  | Ev_extend_max_stream_data i64 u64 'u
  | Ev_extend_max_local_streams_bidi u64
  | Ev_extend_max_local_streams_uni u64
  | Ev_extend_max_remote_streams_bidi u64
  | Ev_extend_max_remote_streams_uni u64
  | Ev_write_stream_data_offset i64 u64 nat 'u
  | Ev_recv_datagram bool nat nat bytes

text \<open>\<open>None\<close> is a null function pointer.\<close>

type_synonym ('a, 'u) dwnx_callbacks =
  "'u dwnx_event \<Rightarrow> (('a, 'u) dwnx_conn \<Rightarrow> int \<times> ('a, 'u) dwnx_conn) option"

definition conn_call ::
    "('a, 'u) dwnx_callbacks \<Rightarrow> 'u dwnx_event \<Rightarrow> ('a, 'u) dwnx_conn \<Rightarrow> ('a, 'u, unit) conn_res" where
  "conn_call cb ev conn =
     (case cb ev of
        None \<Rightarrow> SOk () conn
      | Some f \<Rightarrow> (case f conn of (rv, conn) \<Rightarrow>
          if rv \<noteq> 0 then SErr ERR_CALLBACK_FAILURE conn else SOk () conn))"

abbreviation DWNX_STREAM_CLOSE_FLAG_NONE :: u32 where "DWNX_STREAM_CLOSE_FLAG_NONE \<equiv> 0x00"
abbreviation DWNX_STREAM_CLOSE_FLAG_RX_APP_ERROR_CODE_SET :: u32 where
  "DWNX_STREAM_CLOSE_FLAG_RX_APP_ERROR_CODE_SET \<equiv> 0x01"
abbreviation DWNX_STREAM_CLOSE_FLAG_TX_APP_ERROR_CODE_SET :: u32 where
  "DWNX_STREAM_CLOSE_FLAG_TX_APP_ERROR_CODE_SET \<equiv> 0x02"
abbreviation DWNX_STREAM_DATA_FLAG_NONE :: u32 where "DWNX_STREAM_DATA_FLAG_NONE \<equiv> 0x00"
abbreviation DWNX_STREAM_DATA_FLAG_FIN :: u32 where "DWNX_STREAM_DATA_FLAG_FIN \<equiv> 0x01"

definition conn_call_recv_transport_params ::
    "('a, 'u) dwnx_callbacks \<Rightarrow> ('a, 'u) dwnx_conn \<Rightarrow> dwnx_transport_params \<Rightarrow> ('a, 'u, unit) conn_res" where
  "conn_call_recv_transport_params cb conn params = conn_call cb (Ev_recv_transport_params params) conn"

definition conn_call_stream_open ::
    "('a, 'u) dwnx_callbacks \<Rightarrow> ('a, 'u) dwnx_conn \<Rightarrow> strm_ptr \<Rightarrow> ('a, 'u, unit) conn_res" where
  "conn_call_stream_open cb conn p =
     with_strm conn p (\<lambda>strm. conn_call cb (Ev_stream_open (stream_id strm)) conn)"

definition conn_call_recv_stream_data ::
    "('a, 'u) dwnx_callbacks \<Rightarrow> ('a, 'u) dwnx_conn \<Rightarrow> strm_ptr \<Rightarrow> u32 \<Rightarrow> u64 \<Rightarrow> bytes \<Rightarrow> ('a, 'u, unit) conn_res" where
  "conn_call_recv_stream_data cb conn p fl offset data =
     with_strm conn p (\<lambda>strm.
       conn_call cb (Ev_recv_stream_data fl (stream_id strm) offset data (stream_user_data strm)) conn)"

definition stream_close_event :: "'u dwnx_strm \<Rightarrow> 'u dwnx_event" where
  "stream_close_event strm =
     (let (fl, rx_code) =
            (if strm_has strm DWNX_STRM_FLAG_TX_STOP_SENDING_APP_ERROR_CODE_SET
             then (DWNX_STREAM_CLOSE_FLAG_NONE OR DWNX_STREAM_CLOSE_FLAG_RX_APP_ERROR_CODE_SET,
                   tx_stop_sending_app_error_code strm)
             else if strm_has strm DWNX_STRM_FLAG_RX_APP_ERROR_CODE_SET
             then (DWNX_STREAM_CLOSE_FLAG_NONE OR DWNX_STREAM_CLOSE_FLAG_RX_APP_ERROR_CODE_SET,
                   rx_app_error_code strm)
             else (DWNX_STREAM_CLOSE_FLAG_NONE, 0));
          fl = (if strm_has strm DWNX_STRM_FLAG_TX_RESET_STREAM_APP_ERROR_CODE_SET
                then fl OR DWNX_STREAM_CLOSE_FLAG_TX_APP_ERROR_CODE_SET else fl)
      in Ev_stream_close fl (stream_id strm) rx_code (tx_reset_stream_app_error_code strm)
           (stream_user_data strm))"

definition conn_call_stream_close ::
    "('a, 'u) dwnx_callbacks \<Rightarrow> ('a, 'u) dwnx_conn \<Rightarrow> strm_ptr \<Rightarrow> ('a, 'u, unit) conn_res" where
  "conn_call_stream_close cb conn p = with_strm conn p (\<lambda>strm. conn_call cb (stream_close_event strm) conn)"

definition conn_call_stream_reset ::
    "('a, 'u) dwnx_callbacks \<Rightarrow> ('a, 'u) dwnx_conn \<Rightarrow> i64 \<Rightarrow> u64 \<Rightarrow> u64 \<Rightarrow> 'u \<Rightarrow> ('a, 'u, unit) conn_res" where
  "conn_call_stream_reset cb conn sid final_size app_error_code user_data =
     conn_call cb (Ev_stream_reset sid final_size app_error_code user_data) conn"

definition conn_call_recv_stop_sending ::
    "('a, 'u) dwnx_callbacks \<Rightarrow> ('a, 'u) dwnx_conn \<Rightarrow> i64 \<Rightarrow> u64 \<Rightarrow> 'u \<Rightarrow> ('a, 'u, unit) conn_res" where
  "conn_call_recv_stop_sending cb conn sid app_error_code user_data =
     conn_call cb (Ev_recv_stop_sending sid app_error_code user_data) conn"

definition conn_call_extend_max_stream_data ::
    "('a, 'u) dwnx_callbacks \<Rightarrow> ('a, 'u) dwnx_conn \<Rightarrow> strm_ptr \<Rightarrow> i64 \<Rightarrow> u64 \<Rightarrow> ('a, 'u, unit) conn_res" where
  "conn_call_extend_max_stream_data cb conn p sid datalen =
     with_strm conn p (\<lambda>strm. conn_call cb (Ev_extend_max_stream_data sid datalen (stream_user_data strm)) conn)"

definition conn_call_extend_max_local_streams_bidi ::
    "('a, 'u) dwnx_callbacks \<Rightarrow> ('a, 'u) dwnx_conn \<Rightarrow> u64 \<Rightarrow> ('a, 'u, unit) conn_res" where
  "conn_call_extend_max_local_streams_bidi cb conn n = conn_call cb (Ev_extend_max_local_streams_bidi n) conn"

definition conn_call_extend_max_local_streams_uni ::
    "('a, 'u) dwnx_callbacks \<Rightarrow> ('a, 'u) dwnx_conn \<Rightarrow> u64 \<Rightarrow> ('a, 'u, unit) conn_res" where
  "conn_call_extend_max_local_streams_uni cb conn n = conn_call cb (Ev_extend_max_local_streams_uni n) conn"

definition conn_call_stream_stop_sending ::
    "('a, 'u) dwnx_callbacks \<Rightarrow> ('a, 'u) dwnx_conn \<Rightarrow> i64 \<Rightarrow> u64 \<Rightarrow> 'u \<Rightarrow> ('a, 'u, unit) conn_res" where
  "conn_call_stream_stop_sending cb conn sid app_error_code user_data =
     conn_call cb (Ev_stream_stop_sending sid app_error_code user_data) conn"

definition conn_call_extend_max_remote_streams_bidi ::
    "('a, 'u) dwnx_callbacks \<Rightarrow> ('a, 'u) dwnx_conn \<Rightarrow> u64 \<Rightarrow> ('a, 'u, unit) conn_res" where
  "conn_call_extend_max_remote_streams_bidi cb conn n = conn_call cb (Ev_extend_max_remote_streams_bidi n) conn"

definition conn_call_extend_max_remote_streams_uni ::
    "('a, 'u) dwnx_callbacks \<Rightarrow> ('a, 'u) dwnx_conn \<Rightarrow> u64 \<Rightarrow> ('a, 'u, unit) conn_res" where
  "conn_call_extend_max_remote_streams_uni cb conn n = conn_call cb (Ev_extend_max_remote_streams_uni n) conn"

definition conn_call_write_stream_data_offset ::
    "('a, 'u) dwnx_callbacks \<Rightarrow> ('a, 'u) dwnx_conn \<Rightarrow> strm_ptr \<Rightarrow> nat \<Rightarrow> ('a, 'u, unit) conn_res" where
  "conn_call_write_stream_data_offset cb conn p len =
     with_strm conn p (\<lambda>strm.
       conn_call cb (Ev_write_stream_data_offset (stream_id strm) (tx_offset strm) len (stream_user_data strm)) conn)"

definition conn_call_recv_datagram ::
    "('a, 'u) dwnx_callbacks \<Rightarrow> ('a, 'u) dwnx_conn \<Rightarrow> bool \<Rightarrow> nat \<Rightarrow> nat \<Rightarrow> bytes \<Rightarrow> ('a, 'u, unit) conn_res" where
  "conn_call_recv_datagram cb conn fin dgramlen offset data =
     conn_call cb (Ev_recv_datagram fin dgramlen offset data) conn"

section \<open>A new connection\<close>

text \<open>The settings that matter here, and the 64 bits that the callback \<open>rand\<close> supplies.\<close>

record dwnx_settings =
  initial_ts :: dwnx_tstamp
  glitch_ratelim_burst :: u64
  glitch_ratelim_rate :: u64

definition dwnx_settings_default :: dwnx_settings where
  "dwnx_settings_default = \<lparr>initial_ts = 0, glitch_ratelim_burst = 10000, glitch_ratelim_rate = 330\<rparr>"

definition conn_new ::
    "dwnx_mem \<Rightarrow> dwnx_settings \<Rightarrow> dwnx_transport_params \<Rightarrow> u64 \<Rightarrow> 'a \<Rightarrow> ('a, 'u) dwnx_conn res" where
  "conn_new mem settings params sd user_data =
     assertr (initial_max_stream_data_bidi_local params \<le> DWNX_MAX_VARINT)
     (assertr (initial_max_stream_data_bidi_remote params \<le> DWNX_MAX_VARINT)
     (assertr (initial_max_data params \<le> DWNX_MAX_VARINT)
     (assertr (initial_max_streams_bidi params \<le> DWNX_MAX_STREAMS)
     (assertr (initial_max_streams_uni params \<le> DWNX_MAX_STREAMS)
     (assertr (max_idle_timeout params \<noteq> UINT64_MAX)
     (assertr (max_idle_timeout params div DWNX_MILLISECONDS \<le> DWNX_MAX_VARINT)
     (assertr (max_record_size params \<le> DWNX_MAX_VARINT)
     (assertr (max_record_size params \<ge> of_nat DWNX_DEFAULT_MAX_RECORD_SIZE)
     (let (ok, mem) = mem_alloc mem in
      if \<not> ok then Err ERR_NOMEM
      else
        let params = params\<lparr>max_record_size := of_nat DWNX_DEFAULT_MAX_RECORD_SIZE\<rparr>
        in Ok \<lparr>conn_mem = mem, conn_user_data = user_data,
               local_params = params, remote_params = dwnx_transport_params_default,
               bidi_idtr = dwnx_idtr_init, uni_idtr = dwnx_idtr_init,
               vird = dwnx_varint_reader_reset, rcrd = record_reader_zero,
               crx_unsent_max_offset = initial_max_data params, crx_offset = 0,
               crx_max_offset = initial_max_data params, crx_window = initial_max_data params,
               crx_ping_last_seq = -1, crx_ping_last_resp_seq = -1,
               crx_bidi_unsent_max_streams = initial_max_streams_bidi params,
               crx_bidi_max_streams = initial_max_streams_bidi params,
               crx_uni_unsent_max_streams = initial_max_streams_uni params,
               crx_uni_max_streams = initial_max_streams_uni params,
               ctx_strmq = dwnx_pq_init, ctx_qre = dwnx_qre_init,
               ctx_offset = 0, ctx_max_offset = 0, ctx_last_blocked_offset = UINT64_MAX,
               ctx_ping_last_seq = -1,
               ctx_bidi_max_streams = 0, ctx_bidi_next_stream_id = 0,
               ctx_uni_max_streams = 0, ctx_uni_next_stream_id = 0,
               glitch_rlim = dwnx_ratelim_init (glitch_ratelim_burst settings)
                               (glitch_ratelim_rate settings) (initial_ts settings),
               strms = dwnx_map_init sd, last_ts = initial_ts settings, idle_ts = initial_ts settings,
               conn_flags = 0, server = False, strm_store = (\<lambda>_. None), conn_next_ptr = 1\<rparr>)))))))))"

definition dwnx_conn_server_new ::
    "dwnx_mem \<Rightarrow> dwnx_settings \<Rightarrow> dwnx_transport_params \<Rightarrow> u64 \<Rightarrow> 'a \<Rightarrow> ('a, 'u) dwnx_conn res" where
  "dwnx_conn_server_new mem settings params sd user_data =
     bindr (conn_new mem settings params sd user_data) (\<lambda>conn.
     Ok (conn\<lparr>server := True, ctx_bidi_next_stream_id := 1, ctx_uni_next_stream_id := 3\<rparr>))"

definition dwnx_conn_client_new ::
    "dwnx_mem \<Rightarrow> dwnx_settings \<Rightarrow> dwnx_transport_params \<Rightarrow> u64 \<Rightarrow> 'a \<Rightarrow> ('a, 'u) dwnx_conn res" where
  "dwnx_conn_client_new mem settings params sd user_data =
     bindr (conn_new mem settings params sd user_data) (\<lambda>conn.
     Ok (conn\<lparr>ctx_bidi_next_stream_id := 0, ctx_uni_next_stream_id := 2\<rparr>))"

definition conn_update_timestamp ::
    "('a, 'u) dwnx_conn \<Rightarrow> dwnx_tstamp \<Rightarrow> ('a, 'u, unit) conn_res" where
  "conn_update_timestamp conn t = sassert (last_ts conn \<le> t) (SOk () (conn\<lparr>last_ts := t\<rparr>))"

section \<open>Stream IDs\<close>

definition conn_local_stream :: "('a, 'u) dwnx_conn \<Rightarrow> i64 \<Rightarrow> bool" where
  "conn_local_stream conn sid \<longleftrightarrow> sid AND 1 = (if server conn then 1 else 0)"

definition bidi_stream :: "i64 \<Rightarrow> bool" where
  "bidi_stream sid \<longleftrightarrow> sid AND 2 = 0"

section \<open>The queue of streams to write\<close>

text \<open>The comparison reads both streams; the entries of the queue must be alive.\<close>

definition cycle_less :: "(strm_ptr \<Rightarrow> 'u dwnx_strm option) \<Rightarrow> strm_ptr \<Rightarrow> strm_ptr \<Rightarrow> bool" where
  "cycle_less store lhs rhs =
     (case (store lhs, store rhs) of
        (Some ls, Some rs) \<Rightarrow>
          if cycle ls = cycle rs then stream_id ls < stream_id rs else cycle rs - cycle ls \<le> 1
      | _ \<Rightarrow> False)"

definition strmq_alive :: "('a, 'u) dwnx_conn \<Rightarrow> bool" where
  "strmq_alive conn \<longleftrightarrow> list_all (\<lambda>p. strm_store conn p \<noteq> None) (pq_q (ctx_strmq conn))"

text \<open>The member \<open>pe.index\<close> of every stream, and writing it back.\<close>

definition strm_index :: "(strm_ptr \<Rightarrow> 'u dwnx_strm option) \<Rightarrow> strm_ptr pq_index" where
  "strm_index store p = (case store p of None \<Rightarrow> None | Some strm \<Rightarrow> pe_index strm)"

definition put_index :: "strm_ptr pq_index \<Rightarrow> (strm_ptr \<Rightarrow> 'u dwnx_strm option) \<Rightarrow> strm_ptr \<Rightarrow> 'u dwnx_strm option" where
  "put_index index store p = map_option (\<lambda>strm. strm\<lparr>pe_index := index p\<rparr>) (store p)"

definition dwnx_conn_tx_strmq_first_cycle :: "('a, 'u) dwnx_conn \<Rightarrow> ('a, 'u, u64) conn_res" where
  "dwnx_conn_tx_strmq_first_cycle conn =
     (if dwnx_pq_empty (ctx_strmq conn) then SOk 0 conn
      else sbind (sres_of (dwnx_pq_top (ctx_strmq conn)) conn) (\<lambda>p conn.
           with_strm conn p (\<lambda>strm. SOk (cycle strm) conn)))"

definition dwnx_conn_tx_strmq_top :: "('a, 'u) dwnx_conn \<Rightarrow> ('a, 'u, strm_ptr) conn_res" where
  "dwnx_conn_tx_strmq_top conn =
     sassert (\<not> dwnx_pq_empty (ctx_strmq conn)) (sres_of (dwnx_pq_top (ctx_strmq conn)) conn)"

definition dwnx_conn_tx_strmq_pop :: "('a, 'u) dwnx_conn \<Rightarrow> ('a, 'u, unit) conn_res" where
  "dwnx_conn_tx_strmq_pop conn =
     sbind (dwnx_conn_tx_strmq_top conn) (\<lambda>p conn.
     sassert (strmq_alive conn)
       (case dwnx_pq_pop (cycle_less (strm_store conn)) (ctx_strmq conn, strm_index (strm_store conn)) of
          Ok (pq, index) \<Rightarrow>
            SOk () (upd_strm p (\<lambda>strm. strm\<lparr>pe_index := None\<rparr>)
                      (conn\<lparr>ctx_strmq := pq, strm_store := put_index index (strm_store conn)\<rparr>))
        | _ \<Rightarrow> SAbort))"

definition dwnx_conn_tx_strmq_push :: "('a, 'u) dwnx_conn \<Rightarrow> strm_ptr \<Rightarrow> ('a, 'u, unit) conn_res" where
  "dwnx_conn_tx_strmq_push conn p =
     sassert (strm_store conn p \<noteq> None \<and> strmq_alive conn)
       (case dwnx_pq_push (cycle_less (strm_store conn))
               (conn_mem conn, ctx_strmq conn, strm_index (strm_store conn)) p of
          SOk _ (mem, pq, index) \<Rightarrow>
            SOk () (conn\<lparr>conn_mem := mem, ctx_strmq := pq, strm_store := put_index index (strm_store conn)\<rparr>)
        | SErr e (mem, pq, index) \<Rightarrow>
            SErr e (conn\<lparr>conn_mem := mem, ctx_strmq := pq, strm_store := put_index index (strm_store conn)\<rparr>)
        | SAbort \<Rightarrow> SAbort)"

definition dwnx_conn_tx_strmq_push_if_not :: "('a, 'u) dwnx_conn \<Rightarrow> strm_ptr \<Rightarrow> ('a, 'u, unit) conn_res" where
  "dwnx_conn_tx_strmq_push_if_not conn p =
     with_strm conn p (\<lambda>strm.
       if dwnx_strm_is_tx_queued strm then SOk () conn
       else sbind (dwnx_conn_tx_strmq_first_cycle conn) (\<lambda>cyc conn.
            dwnx_conn_tx_strmq_push (upd_strm p (\<lambda>strm. strm\<lparr>cycle := cyc\<rparr>) conn) p))"

text \<open>\<open>dwnx_pq_remove(&conn->tx.strmq, &strm->pe)\<close>.\<close>

definition conn_strmq_remove :: "('a, 'u) dwnx_conn \<Rightarrow> strm_ptr \<Rightarrow> ('a, 'u, unit) conn_res" where
  "conn_strmq_remove conn p =
     sassert (strmq_alive conn)
       (case dwnx_pq_remove (cycle_less (strm_store conn)) (ctx_strmq conn, strm_index (strm_store conn)) p of
          Ok (pq, index) \<Rightarrow> SOk () (conn\<lparr>ctx_strmq := pq, strm_store := put_index index (strm_store conn)\<rparr>)
        | _ \<Rightarrow> SAbort)"

section \<open>Streams\<close>

definition dwnx_conn_find_stream :: "('a, 'u) dwnx_conn \<Rightarrow> i64 \<Rightarrow> ('a, 'u, strm_ptr option) conn_res" where
  "dwnx_conn_find_stream conn sid = sres_of (dwnx_map_find (strms conn) (u64_of_i64 sid)) conn"

definition stream_max_offsets :: "('a, 'u) dwnx_conn \<Rightarrow> i64 \<Rightarrow> u64 \<times> u64" where
  "stream_max_offsets conn sid =
     (if bidi_stream sid then
        (if conn_local_stream conn sid
         then (initial_max_stream_data_bidi_local (local_params conn),
               initial_max_stream_data_bidi_remote (remote_params conn))
         else (initial_max_stream_data_bidi_remote (local_params conn),
               initial_max_stream_data_bidi_local (remote_params conn)))
      else if conn_local_stream conn sid then (0, initial_max_stream_data_uni (remote_params conn))
      else (initial_max_stream_data_uni (local_params conn), 0))"

definition dwnx_conn_create_stream ::
    "('a, 'u) dwnx_conn \<Rightarrow> i64 \<Rightarrow> 'u \<Rightarrow> ('a, 'u, strm_ptr) conn_res" where
  "dwnx_conn_create_stream conn sid user_data =
     (let (ok, mem) = mem_alloc (conn_mem conn); conn = conn\<lparr>conn_mem := mem\<rparr>
      in if \<not> ok then SErr ERR_NOMEM conn
         else
           let (max_rx_offset, max_tx_offset) = stream_max_offsets conn sid;
               strm = dwnx_strm_init sid DWNX_STRM_FLAG_NONE max_rx_offset max_tx_offset user_data;
               strm = (if \<not> bidi_stream sid
                       then if conn_local_stream conn sid then dwnx_strm_shutdown strm DWNX_STRM_FLAG_SHUT_RD
                            else dwnx_strm_shutdown strm DWNX_STRM_FLAG_SHUT_WR
                       else strm);
               p = conn_next_ptr conn;
               conn = conn\<lparr>conn_next_ptr := p + 1\<rparr>
           in case dwnx_map_insert 0 (conn_mem conn, strms conn) (u64_of_i64 sid) p of
                SOk _ (mem, m) \<Rightarrow>
                  SOk p (conn\<lparr>conn_mem := mem, strms := m, strm_store := (strm_store conn)(p := Some strm)\<rparr>)
              | SErr e (mem, m) \<Rightarrow>
                  sassert (e \<noteq> ERR_INVALID_ARGUMENT) (SErr e (conn\<lparr>conn_mem := mem, strms := m\<rparr>))
              | SAbort \<Rightarrow> SAbort)"

definition dwnx_conn_close_stream ::
    "('a, 'u) dwnx_callbacks \<Rightarrow> ('a, 'u) dwnx_conn \<Rightarrow> strm_ptr \<Rightarrow> ('a, 'u, unit) conn_res" where
  "dwnx_conn_close_stream cb conn p =
     sbind (conn_call_stream_close cb conn p) (\<lambda>_ conn.
     with_strm conn p (\<lambda>strm.
     case dwnx_map_remove (strms conn) (u64_of_i64 (stream_id strm)) of
       Err e \<Rightarrow> sassert (e \<noteq> ERR_INVALID_ARGUMENT) (SErr e conn)
     | Abort \<Rightarrow> SAbort
     | Ok m \<Rightarrow>
         (let conn = conn\<lparr>strms := m\<rparr>
          in sbind (if dwnx_strm_is_tx_queued strm then conn_strmq_remove conn p else SOk () conn) (\<lambda>_ conn.
             SOk () (conn\<lparr>strm_store := (strm_store conn)(p := None)\<rparr>)))))"

definition dwnx_conn_close_stream_if_shut_rdwr ::
    "('a, 'u) dwnx_callbacks \<Rightarrow> ('a, 'u) dwnx_conn \<Rightarrow> strm_ptr \<Rightarrow> ('a, 'u, unit) conn_res" where
  "dwnx_conn_close_stream_if_shut_rdwr cb conn p =
     with_strm conn p (\<lambda>strm.
       if \<not> dwnx_strm_should_close_stream strm then SOk () conn else dwnx_conn_close_stream cb conn p)"

section \<open>Flow control\<close>

definition strm_should_send_max_stream_data :: "'u dwnx_strm \<Rightarrow> bool" where
  "strm_should_send_max_stream_data strm \<longleftrightarrow>
     (let inc = rx_unsent_max_offset strm - rx_max_offset strm in rx_window strm < 4 * inc)"

definition conn_should_send_max_data :: "('a, 'u) dwnx_conn \<Rightarrow> bool" where
  "conn_should_send_max_data conn \<longleftrightarrow>
     (let inc = crx_unsent_max_offset conn - crx_max_offset conn in crx_window conn < 4 * inc)"

definition conn_max_data_violated :: "('a, 'u) dwnx_conn \<Rightarrow> u64 \<Rightarrow> bool" where
  "conn_max_data_violated conn datalen \<longleftrightarrow> crx_max_offset conn - crx_offset conn < datalen"

text \<open>Adding \<open>datalen\<close> to an offset, but not beyond \<open>DWNX_MAX_VARINT\<close>.\<close>

definition extend_offset :: "u64 \<Rightarrow> u64 \<Rightarrow> u64" where
  "extend_offset off datalen =
     (if datalen > DWNX_MAX_VARINT \<or> off > DWNX_MAX_VARINT - datalen then DWNX_MAX_VARINT else off + datalen)"

definition dwnx_conn_extend_max_stream_offset ::
    "('a, 'u) dwnx_conn \<Rightarrow> i64 \<Rightarrow> u64 \<Rightarrow> ('a, 'u, unit) conn_res" where
  "dwnx_conn_extend_max_stream_offset conn sid datalen =
     (if \<not> bidi_stream sid \<and> conn_local_stream conn sid then SErr ERR_INVALID_ARGUMENT conn
      else sbind (dwnx_conn_find_stream conn sid) (\<lambda>r conn.
        case r of
          None \<Rightarrow> SOk () conn
        | Some p \<Rightarrow>
            let conn = upd_strm p (\<lambda>strm. strm\<lparr>rx_unsent_max_offset := extend_offset (rx_unsent_max_offset strm) datalen\<rparr>) conn
            in with_strm conn p (\<lambda>strm.
                 if \<not> strm_has strm (DWNX_STRM_FLAG_SHUT_RD OR DWNX_STRM_FLAG_STOP_SENDING) \<and>
                    strm_should_send_max_stream_data strm
                 then dwnx_conn_tx_strmq_push_if_not conn p
                 else SOk () conn)))"

definition dwnx_conn_extend_max_offset :: "('a, 'u) dwnx_conn \<Rightarrow> u64 \<Rightarrow> ('a, 'u) dwnx_conn" where
  "dwnx_conn_extend_max_offset conn datalen =
     conn\<lparr>crx_unsent_max_offset := extend_offset (crx_unsent_max_offset conn) datalen\<rparr>"

definition conn_fc_credits :: "('a, 'u) dwnx_conn \<Rightarrow> 'u dwnx_strm \<Rightarrow> u64" where
  "conn_fc_credits conn strm =
     min (tx_max_offset strm - tx_offset strm) (ctx_max_offset conn - ctx_offset conn)"

definition conn_enforce_flow_control :: "('a, 'u) dwnx_conn \<Rightarrow> 'u dwnx_strm \<Rightarrow> u64 \<Rightarrow> u64" where
  "conn_enforce_flow_control conn strm len = min len (conn_fc_credits conn strm)"

definition handle_max_remote_streams_extension :: "u64 \<Rightarrow> u64 \<Rightarrow> u64" where
  "handle_max_remote_streams_extension unsent n =
     (if DWNX_MAX_STREAMS < n \<or> unsent > DWNX_MAX_STREAMS - n then DWNX_MAX_STREAMS else unsent + n)"

definition dwnx_conn_extend_max_streams_bidi :: "('a, 'u) dwnx_conn \<Rightarrow> u64 \<Rightarrow> ('a, 'u) dwnx_conn" where
  "dwnx_conn_extend_max_streams_bidi conn n =
     conn\<lparr>crx_bidi_unsent_max_streams :=
            handle_max_remote_streams_extension (crx_bidi_unsent_max_streams conn) n\<rparr>"

definition dwnx_conn_extend_max_streams_uni :: "('a, 'u) dwnx_conn \<Rightarrow> u64 \<Rightarrow> ('a, 'u) dwnx_conn" where
  "dwnx_conn_extend_max_streams_uni conn n =
     conn\<lparr>crx_uni_unsent_max_streams :=
            handle_max_remote_streams_extension (crx_uni_unsent_max_streams conn) n\<rparr>"

definition conn_reset_stream :: "('a, 'u) dwnx_conn \<Rightarrow> strm_ptr \<Rightarrow> u64 \<Rightarrow> ('a, 'u, unit) conn_res" where
  "conn_reset_stream conn p app_error_code =
     dwnx_conn_tx_strmq_push_if_not
       (upd_strm p (\<lambda>strm. (strm_set (DWNX_STRM_FLAG_SEND_RESET_STREAM OR
                                DWNX_STRM_FLAG_TX_RESET_STREAM_APP_ERROR_CODE_SET) strm)
                              \<lparr>tx_reset_stream_app_error_code := app_error_code\<rparr>) conn) p"

definition conn_stop_sending :: "('a, 'u) dwnx_conn \<Rightarrow> strm_ptr \<Rightarrow> u64 \<Rightarrow> ('a, 'u, unit) conn_res" where
  "conn_stop_sending conn p app_error_code =
     dwnx_conn_tx_strmq_push_if_not
       (upd_strm p (\<lambda>strm. (strm_set (DWNX_STRM_FLAG_SEND_STOP_SENDING OR
                                DWNX_STRM_FLAG_TX_STOP_SENDING_APP_ERROR_CODE_SET) strm)
                              \<lparr>tx_stop_sending_app_error_code := app_error_code\<rparr>) conn) p"

end
