(* ===== verification/ConnQueue.thy ===== *)
theory ConnQueue
  imports Conn Wp
begin

text \<open>
  The queue of streams to write is a priority queue in the order \<open>cycle_less\<close>. The order compares
  cycles on a ring of 64-bit numbers, so it is one only among streams whose cycles are next to each
  other; the queue keeps to such a window.
\<close>

definition cycle_window :: "(strm_ptr \<Rightarrow> 'u dwnx_strm option) \<Rightarrow> u64 \<Rightarrow> strm_ptr set" where
  "cycle_window store c = {p. \<exists>s. store p = Some s \<and> (cycle s = c \<or> cycle s = c + 1)}"

text \<open>Inside the window the order is by cycle and then by stream ID.\<close>

definition cycle_key :: "(strm_ptr \<Rightarrow> 'u dwnx_strm option) \<Rightarrow> u64 \<Rightarrow> strm_ptr \<Rightarrow> bool \<times> i64" where
  "cycle_key store c p = (case store p of Some s \<Rightarrow> (cycle s \<noteq> c, stream_id s) | None \<Rightarrow> (False, 0))"

lemma cycle_less_key:
  assumes "p \<in> cycle_window store c" and "q \<in> cycle_window store c"
  shows "cycle_less store p q \<longleftrightarrow>
    (\<not> fst (cycle_key store c p) \<and> fst (cycle_key store c q)) \<or>
    (fst (cycle_key store c p) = fst (cycle_key store c q) \<and> snd (cycle_key store c p) < snd (cycle_key store c q))"
proof -
  have far: "\<not> (c - (c + 1) \<le> (1 :: u64))" by (simp add: word_order.extremum_unique)
  then show ?thesis
    using assms by (auto simp: cycle_window_def cycle_less_def cycle_key_def)
qed

interpretation strmq: entry_order "cycle_less store" "cycle_window store c" for store c
proof
  fix x y z
  assume x: "x \<in> cycle_window store c" and y: "y \<in> cycle_window store c"
  show "cycle_less store x y \<Longrightarrow> \<not> cycle_less store y x"
    using x y by (auto simp: cycle_less_key)
  assume z: "z \<in> cycle_window store c"
  show "\<not> cycle_less store x y \<Longrightarrow> \<not> cycle_less store y z \<Longrightarrow> \<not> cycle_less store x z"
    using x y z by (auto simp: cycle_less_key)
qed

section \<open>Properties\<close>

text \<open>C30: The queue of streams is a priority queue: what the top returns is a least entry in the
  order of cycle and stream ID, and popping removes exactly that entry and keeps the heap and the
  index of every entry right.\<close>

theorem strmq_pop_least:
  assumes "pq_inv (cycle_less store) (pq, index)" and "set (pq_q pq) \<subseteq> cycle_window store c" and "pq_q pq \<noteq> []"
  shows "\<exists>p pq' index'. dwnx_pq_top pq = Ok p \<and> (\<forall>r \<in> set (pq_q pq). \<not> cycle_less store r p) \<and>
    dwnx_pq_pop (cycle_less store) (pq, index) = Ok (pq', index') \<and> pq_inv (cycle_less store) (pq', index') \<and>
    mset (pq_q pq) = add_mset p (mset (pq_q pq'))"
proof -
  obtain p where p: "dwnx_pq_top pq = Ok p" "p \<in> set (pq_q pq)" "\<forall>r \<in> set (pq_q pq). \<not> cycle_less store r p"
    using strmq.pq_top_spec [OF assms] by blast
  have "p = pq_q pq ! 0" using p(1) assms(3) by (simp add: dwnx_pq_top_def)
  then show ?thesis using strmq.pq_pop_spec [OF assms] p by (auto simp: insert_DiffM)
qed

text \<open>C31: Pushing adds exactly the new entry or fails for lack of memory with the queue unchanged, and
  removing an entry from the middle removes exactly that one; both keep the heap and the indices.\<close>

theorem strmq_push_remove:
  assumes "pq_inv (cycle_less store) (pq, index)" and "insert item (set (pq_q pq)) \<subseteq> cycle_window store c"
  shows "(item \<notin> set (pq_q pq) \<longrightarrow>
      (\<exists>mem' pq' index'. dwnx_pq_push (cycle_less store) (mem, pq, index) item = SOk () (mem', pq', index') \<and>
         pq_inv (cycle_less store) (pq', index') \<and> mset (pq_q pq') = add_mset item (mset (pq_q pq))) \<or>
      (\<exists>mem'. dwnx_pq_push (cycle_less store) (mem, pq, index) item = SErr ERR_NOMEM (mem', pq, index))) \<and>
    (item \<in> set (pq_q pq) \<longrightarrow>
      (\<exists>pq' index'. dwnx_pq_remove (cycle_less store) (pq, index) item = Ok (pq', index') \<and>
         pq_inv (cycle_less store) (pq', index') \<and> mset (pq_q pq) = add_mset item (mset (pq_q pq'))))"
proof (intro conjI impI)
  assume "item \<notin> set (pq_q pq)"
  then show "(\<exists>mem' pq' index'. dwnx_pq_push (cycle_less store) (mem, pq, index) item = SOk () (mem', pq', index') \<and>
         pq_inv (cycle_less store) (pq', index') \<and> mset (pq_q pq') = add_mset item (mset (pq_q pq))) \<or>
      (\<exists>mem'. dwnx_pq_push (cycle_less store) (mem, pq, index) item = SErr ERR_NOMEM (mem', pq, index))"
    using strmq.pq_push_spec [OF assms(1) _ assms(2), of mem] by blast
next
  assume i: "item \<in> set (pq_q pq)"
  then show "\<exists>pq' index'. dwnx_pq_remove (cycle_less store) (pq, index) item = Ok (pq', index') \<and>
         pq_inv (cycle_less store) (pq', index') \<and> mset (pq_q pq) = add_mset item (mset (pq_q pq'))"
    using strmq.pq_remove_spec [OF assms(1) _ i, of c] assms(2) by (auto simp: insert_DiffM)
qed

text \<open>Two streams for the witnesses.\<close>

definition two_strms :: "strm_ptr \<Rightarrow> nat dwnx_strm option" where
  "two_strms = [1 \<mapsto> dwnx_strm_init 4 0 10 10 0, 2 \<mapsto> dwnx_strm_init 0 0 10 10 0]"

lemma two_strms_window: "insert 1 (set [2]) \<subseteq> cycle_window two_strms 0" "set [2] \<subseteq> cycle_window two_strms 0"
  by (simp_all add: cycle_window_def two_strms_def dwnx_strm_init_def)

lemma two_strms_inv: "pq_inv (cycle_less two_strms) (\<lparr>pq_q = [2], pq_capacity = 4\<rparr>, [2 \<mapsto> 0])"
  by (simp add: pq_inv_def heap_def index_ok_def)

theorem strmq_pop_least_witness:
  "\<exists>pq' index'. dwnx_pq_pop (cycle_less two_strms) (\<lparr>pq_q = [2], pq_capacity = 4\<rparr>, [2 \<mapsto> 0]) = Ok (pq', index')"
  using strmq_pop_least [OF two_strms_inv, of 0] two_strms_window(2) by auto

theorem strmq_push_remove_witness:
  "\<exists>mem' pq' index'. dwnx_pq_push (cycle_less two_strms) ([], \<lparr>pq_q = [2], pq_capacity = 4\<rparr>, [2 \<mapsto> 0]) 1 =
     SOk () (mem', pq', index') \<and> mset (pq_q pq') = {#1, 2#}"
proof -
  have "dwnx_pq_push (cycle_less two_strms) ([], \<lparr>pq_q = [2], pq_capacity = 4\<rparr>, [2 \<mapsto> 0]) 1 \<noteq>
      SErr ERR_NOMEM (mem', pq', index')" for mem' pq' index'
    by (simp add: dwnx_pq_push_def Let_def split: prod.split)
  then show ?thesis
    using conjunct1 [OF strmq_push_remove [OF two_strms_inv, of 1 0 "[]"]] two_strms_window(1) by auto
qed

end
