(* ===== verification/ConnRecv.thy ===== *)
theory ConnRecv
  imports Conn FrameDispatch Err
begin

text \<open>
  \<open>lib/dwnx_conn.c\<close>, second part: the handlers of received frames. Each handler is one definition;
  the steps that the handlers share - the checks of the stream ID, opening a stream that a frame of
  the peer mentions for the first time, and charging a suspicious frame to the rate limiter - are
  definitions of their own.
\<close>

section \<open>Shared steps\<close>

text \<open>\<open>rv = dwnx_ratelim_drain(&conn->glitch_rlim, 1, ts); if (rv != 0) return DWNX_ERR_INTERNAL;\<close>\<close>

definition conn_glitch :: "('a, 'u) dwnx_conn \<Rightarrow> dwnx_tstamp \<Rightarrow> ('a, 'u, unit) conn_res" where
  "conn_glitch conn t =
     (case dwnx_ratelim_drain (glitch_rlim conn) 1 t of
        Ok (ok, r) \<Rightarrow>
          (let conn = conn\<lparr>glitch_rlim := r\<rparr> in if ok then SOk () conn else SErr ERR_INTERNAL conn)
      | _ \<Rightarrow> SAbort)"

text \<open>
  The checks at the head of the handlers of frames about the receiving part of a stream (STREAM,
  RESET_STREAM, STREAM_DATA_BLOCKED) and about its sending part (STOP_SENDING, MAX_STREAM_DATA).
  \<open>None\<close> is no error.
\<close>

definition check_recv_stream_id :: "('a, 'u) dwnx_conn \<Rightarrow> i64 \<Rightarrow> liberr option" where
  "check_recv_stream_id conn sid =
     (let local_stream = conn_local_stream conn sid
      in if bidi_stream sid then
           if local_stream then
             (if ctx_bidi_next_stream_id conn \<le> sid then Some ERR_STREAM_STATE else None)
           else if crx_bidi_max_streams conn < dwnx_ord_stream_id sid then Some ERR_STREAM_LIMIT
           else None
         else if local_stream then Some ERR_STREAM_STATE
         else if crx_uni_max_streams conn < dwnx_ord_stream_id sid then Some ERR_STREAM_LIMIT
         else None)"

definition check_send_stream_id :: "('a, 'u) dwnx_conn \<Rightarrow> i64 \<Rightarrow> liberr option" where
  "check_send_stream_id conn sid =
     (let local_stream = conn_local_stream conn sid
      in if bidi_stream sid then
           if local_stream then
             (if ctx_bidi_next_stream_id conn \<le> sid then Some ERR_STREAM_STATE else None)
           else if crx_bidi_max_streams conn < dwnx_ord_stream_id sid then Some ERR_STREAM_LIMIT
           else None
         else if \<not> local_stream \<or> ctx_uni_next_stream_id conn \<le> sid then Some ERR_STREAM_STATE
         else None)"

text \<open>\<open>dwnx_idtr_open(idtr, stream_id)\<close> for the tracker \<open>idtr\<close> that the checks have chosen.\<close>

definition conn_idtr :: "('a, 'u) dwnx_conn \<Rightarrow> i64 \<Rightarrow> dwnx_idtr" where
  "conn_idtr conn sid = (if bidi_stream sid then bidi_idtr conn else uni_idtr conn)"

definition set_conn_idtr :: "i64 \<Rightarrow> dwnx_mem \<times> dwnx_idtr \<Rightarrow> ('a, 'u) dwnx_conn \<Rightarrow> ('a, 'u) dwnx_conn" where
  "set_conn_idtr sid s conn =
     (if bidi_stream sid then conn\<lparr>conn_mem := fst s, bidi_idtr := snd s\<rparr>
      else conn\<lparr>conn_mem := fst s, uni_idtr := snd s\<rparr>)"

definition conn_idtr_open :: "('a, 'u) dwnx_conn \<Rightarrow> i64 \<Rightarrow> ('a, 'u, unit) conn_res" where
  "conn_idtr_open conn sid =
     (case dwnx_idtr_open (conn_mem conn, conn_idtr conn sid) sid of
        SOk _ s \<Rightarrow> SOk () (set_conn_idtr sid s conn)
      | SErr e s \<Rightarrow> SErr e (set_conn_idtr sid s conn)
      | SAbort \<Rightarrow> SAbort)"

text \<open>
  The stream a frame is for: one that exists, or a new one of the peer. When the peer has used its
  ID before, the stream has been closed, and \<open>closed\<close> is what the handler does then; \<open>fresh\<close> is
  what it checks before it creates the object of a new stream.
\<close>

definition open_remote_stream ::
    "('a, 'u) dwnx_callbacks \<Rightarrow> 'u \<Rightarrow> ('a, 'u) dwnx_conn \<Rightarrow> i64 \<Rightarrow> liberr option \<Rightarrow>
     (('a, 'u) dwnx_conn \<Rightarrow> ('a, 'u, 'r) conn_res) \<Rightarrow>
     (strm_ptr \<Rightarrow> ('a, 'u) dwnx_conn \<Rightarrow> ('a, 'u, 'r) conn_res) \<Rightarrow> ('a, 'u, 'r) conn_res" where
  "open_remote_stream cb null conn sid fresh closed k =
     (case conn_idtr_open conn sid of
        SAbort \<Rightarrow> SAbort
      | SErr e conn \<Rightarrow>
          if dwnx_err_is_fatal (liberr_code e) then SErr e conn
          else sassert (e = ERR_STREAM_IN_USE) (closed conn)
      | SOk _ conn \<Rightarrow>
          (case fresh of
             Some e \<Rightarrow> SErr e conn
           | None \<Rightarrow>
               sbind (dwnx_conn_create_stream conn sid null) (\<lambda>p conn.
               sbind (conn_call_stream_open cb conn p) (\<lambda>_ conn. k p conn))))"

section \<open>Handlers\<close>

definition dwnx_conn_validate_early_transport_params ::
    "('a, 'u) dwnx_conn \<Rightarrow> dwnx_transport_params \<Rightarrow> ('a, 'u, unit) conn_res" where
  "dwnx_conn_validate_early_transport_params conn early =
     (let params = remote_params conn
      in sassert (\<not> server conn)
           (if initial_max_data early > initial_max_data params \<or>
               initial_max_stream_data_bidi_local early > initial_max_stream_data_bidi_local params \<or>
               initial_max_stream_data_bidi_remote early > initial_max_stream_data_bidi_remote params \<or>
               initial_max_stream_data_uni early > initial_max_stream_data_uni params \<or>
               initial_max_streams_bidi early > initial_max_streams_bidi params \<or>
               initial_max_streams_uni early > initial_max_streams_uni params \<or>
               max_datagram_frame_size early > max_datagram_frame_size params
            then SErr ERR_PROTO conn else SOk () conn))"

definition set_max_stream_offset ::
    "('a, 'u) dwnx_callbacks \<Rightarrow> ('a, 'u) dwnx_conn \<Rightarrow> strm_ptr \<Rightarrow> ('a, 'u, unit) conn_res" where
  "set_max_stream_offset cb conn p =
     with_strm conn p (\<lambda>strm.
     sassert (\<not> server conn)
     (sassert (conn_local_stream conn (stream_id strm))
       (let max_offset = (if bidi_stream (stream_id strm)
                          then initial_max_stream_data_bidi_remote (remote_params conn)
                          else initial_max_stream_data_uni (remote_params conn))
        in if tx_max_offset strm < max_offset then
             let conn = upd_strm p (\<lambda>strm. strm\<lparr>tx_max_offset := max_offset\<rparr>) conn
             in if strm_has strm DWNX_STRM_FLAG_SHUT_WR then SOk () conn
                else conn_call_extend_max_stream_data cb conn p (stream_id strm) max_offset
           else SOk () conn)))"

text \<open>
  \<open>dwnx_map_each(&conn->strms, f, conn)\<close>. The walk reads the table of the connection at every
  step, since the callback that \<open>f\<close> calls may open streams.
\<close>

fun each_strm_loop ::
    "nat list \<Rightarrow> (('a, 'u) dwnx_conn \<Rightarrow> strm_ptr \<Rightarrow> ('a, 'u, unit) conn_res) \<Rightarrow> ('a, 'u) dwnx_conn \<Rightarrow> ('a, 'u, unit) conn_res" where
  "each_strm_loop [] f conn = SOk () conn"
| "each_strm_loop (i # is) f conn =
     (if i \<ge> length (slots (strms conn)) then SAbort
      else if slot_psl (slots (strms conn) ! i) = 0 then each_strm_loop is f conn
      else sbind (f conn (slot_data (slots (strms conn) ! i))) (\<lambda>_ conn. each_strm_loop is f conn))"

definition each_strm ::
    "('a, 'u) dwnx_conn \<Rightarrow> (('a, 'u) dwnx_conn \<Rightarrow> strm_ptr \<Rightarrow> ('a, 'u, unit) conn_res) \<Rightarrow> ('a, 'u, unit) conn_res" where
  "each_strm conn f =
     (if map_size (strms conn) = 0 then SOk () conn
      else each_strm_loop [0 ..< map_tablelen (strms conn)] f conn)"

text \<open>After a decoding error the members of \<open>remote.transport_params\<close> are left as they were; the
  connection is closed then.\<close>

definition conn_recv_transport_params ::
    "('a, 'u) dwnx_callbacks \<Rightarrow> ('a, 'u) dwnx_conn \<Rightarrow> bytes \<Rightarrow> ('a, 'u, unit) conn_res" where
  "conn_recv_transport_params cb conn data =
     (let early_params = remote_params conn
      in case dwnx_transport_params_decode data of
           Err e \<Rightarrow> SErr e conn
         | Abort \<Rightarrow> SAbort
         | Ok params \<Rightarrow>
             let conn = conn\<lparr>remote_params := params,
                             rcrd := (rcrd conn)\<lparr>rr_fr := (case rr_fr (rcrd conn) of
                                 Fr_qx_transport_parameters fr \<Rightarrow> Fr_qx_transport_parameters (fr\<lparr>qtp_params := params\<rparr>)
                               | fr \<Rightarrow> fr)\<rparr>\<rparr>
             in if max_record_size params < of_nat DWNX_DEFAULT_MAX_RECORD_SIZE
                then SErr ERR_MALFORMED_TRANSPORT_PARAM conn
                else
                  sbind (if conn_has conn CONN_FLAG_EARLY_TRANSPORT_PARAMS_SET
                         then dwnx_conn_validate_early_transport_params conn early_params
                         else SOk () conn) (\<lambda>_ conn.
                  let conn = conn\<lparr>ctx_bidi_max_streams := initial_max_streams_bidi params,
                                  ctx_uni_max_streams := initial_max_streams_uni params,
                                  ctx_max_offset := initial_max_data params\<rparr>
                  in sbind (if \<not> server conn then each_strm conn (set_max_stream_offset cb) else SOk () conn) (\<lambda>_ conn.
                     sbind (conn_call_recv_transport_params cb conn (remote_params conn)) (\<lambda>_ conn.
                     sbind (if ctx_bidi_max_streams conn \<noteq> 0
                            then conn_call_extend_max_local_streams_bidi cb conn (ctx_bidi_max_streams conn)
                            else SOk () conn) (\<lambda>_ conn.
                     if ctx_uni_max_streams conn \<noteq> 0
                     then conn_call_extend_max_local_streams_uni cb conn (ctx_uni_max_streams conn)
                     else SOk () conn)))))"

definition conn_recv_qx_ping ::
    "('a, 'u) dwnx_conn \<Rightarrow> dwnx_frame_qx_ping \<Rightarrow> dwnx_tstamp \<Rightarrow> ('a, 'u, unit) conn_res" where
  "conn_recv_qx_ping conn fr t =
     (if ping_type fr = DWNX_FRAME_QX_PING_RESPONSE then
        (if ctx_ping_last_seq conn < i64_of_u64 (ping_seq fr) then SErr ERR_PROTO conn else SOk () conn)
      else if crx_ping_last_seq conn \<ge> i64_of_u64 (ping_seq fr) then SErr ERR_PROTO conn
      else sbind (conn_glitch conn t) (\<lambda>_ conn.
           SOk () (conn\<lparr>crx_ping_last_seq := i64_of_u64 (ping_seq fr)\<rparr>)))"

definition conn_recv_stream ::
    "('a, 'u) dwnx_callbacks \<Rightarrow> 'u \<Rightarrow> ('a, 'u) dwnx_conn \<Rightarrow> dwnx_frame_stream \<Rightarrow> ('a, 'u, unit) conn_res" where
  "conn_recv_stream cb null conn fr =
     (let sid = stream_stream_id fr; len = of_nat (stream_len fr) :: u64;
          rest = (\<lambda>p conn.
            with_strm conn p (\<lambda>strm.
              if strm_has strm DWNX_STRM_FLAG_SHUT_RD \<or> rx_last_offset strm \<noteq> stream_offset fr
              then SErr ERR_PROTO conn
              else
                let fr_end_offset = stream_offset fr + len
                in if rx_max_offset strm < fr_end_offset \<or> conn_max_data_violated conn len
                   then SErr ERR_FLOW_CONTROL conn
                   else
                     let conn = conn\<lparr>crx_offset := crx_offset conn + len\<rparr>;
                         conn = upd_strm p (\<lambda>strm. strm\<lparr>rx_last_offset := fr_end_offset\<rparr>) conn
                     in if stream_fin fr then
                          sbind (if stream_len fr = 0 then
                                   let conn = upd_strm p (\<lambda>strm. dwnx_strm_shutdown strm DWNX_STRM_FLAG_SHUT_RD) conn
                                   in conn_call_recv_stream_data cb conn p 1 (stream_offset fr) []
                                 else SOk () conn) (\<lambda>_ conn.
                          dwnx_conn_close_stream_if_shut_rdwr cb conn p)
                        else SOk () conn))
      in case check_recv_stream_id conn sid of
           Some e \<Rightarrow> SErr e conn
         | None \<Rightarrow>
             if DWNX_MAX_VARINT - len < stream_offset fr then SErr ERR_FLOW_CONTROL conn
             else sbind (dwnx_conn_find_stream conn sid) (\<lambda>r conn.
               case r of
                 Some p \<Rightarrow> rest p conn
               | None \<Rightarrow>
                   if conn_local_stream conn sid then SErr ERR_PROTO conn
                   else open_remote_stream cb null conn sid None (\<lambda>conn. SErr ERR_PROTO conn) rest))"

definition conn_recv_stream_data ::
    "('a, 'u) dwnx_callbacks \<Rightarrow> ('a, 'u) dwnx_conn \<Rightarrow> strm_ptr \<Rightarrow> bool \<Rightarrow> u64 \<Rightarrow> bytes \<Rightarrow> ('a, 'u, unit) conn_res" where
  "conn_recv_stream_data cb conn p fin offset data =
     with_strm conn p (\<lambda>strm.
     sbind (if strm_has strm DWNX_STRM_FLAG_STOP_SENDING
            then SOk () (dwnx_conn_extend_max_offset conn (of_nat (length data)))
            else conn_call_recv_stream_data cb conn p
                   (if fin then DWNX_STREAM_DATA_FLAG_FIN else DWNX_STREAM_DATA_FLAG_NONE) offset data) (\<lambda>_ conn.
     if \<not> fin then SOk () conn
     else dwnx_conn_close_stream_if_shut_rdwr cb
            (upd_strm p (\<lambda>strm. dwnx_strm_shutdown strm DWNX_STRM_FLAG_SHUT_RD) conn) p))"

definition conn_recv_reset_stream ::
    "('a, 'u) dwnx_callbacks \<Rightarrow> 'u \<Rightarrow> ('a, 'u) dwnx_conn \<Rightarrow> dwnx_frame_reset_stream \<Rightarrow> ('a, 'u, unit) conn_res" where
  "conn_recv_reset_stream cb null conn fr =
     (let sid = rst_stream_id fr;
          rest = (\<lambda>p conn.
            with_strm conn p (\<lambda>strm.
              if strm_has strm DWNX_STRM_FLAG_SHUT_RD then SErr ERR_PROTO conn
              else if rx_last_offset strm \<noteq> rst_final_size fr then SErr ERR_FINAL_SIZE conn
              else sbind (conn_call_stream_reset cb conn sid (rst_final_size fr) (rst_app_error_code fr)
                            (stream_user_data strm)) (\<lambda>_ conn.
                   dwnx_conn_close_stream_if_shut_rdwr cb
                     (upd_strm p (\<lambda>strm. (strm_set (DWNX_STRM_FLAG_SHUT_RD OR DWNX_STRM_FLAG_RESET_STREAM_RECVED OR
                                              DWNX_STRM_FLAG_RX_APP_ERROR_CODE_SET) strm)
                                            \<lparr>rx_app_error_code := rst_app_error_code fr\<rparr>) conn) p)))
      in case check_recv_stream_id conn sid of
           Some e \<Rightarrow> SErr e conn
         | None \<Rightarrow>
             sbind (dwnx_conn_find_stream conn sid) (\<lambda>r conn.
               case r of
                 Some p \<Rightarrow> rest p conn
               | None \<Rightarrow>
                   if conn_local_stream conn sid then SErr ERR_PROTO conn
                   else open_remote_stream cb null conn sid
                          (if rst_final_size fr \<noteq> 0 then Some ERR_FINAL_SIZE else None)
                          (\<lambda>conn. SErr ERR_PROTO conn) rest))"

definition conn_recv_stop_sending ::
    "('a, 'u) dwnx_callbacks \<Rightarrow> 'u \<Rightarrow> ('a, 'u) dwnx_conn \<Rightarrow> dwnx_frame_stop_sending \<Rightarrow> dwnx_tstamp \<Rightarrow> ('a, 'u, unit) conn_res" where
  "conn_recv_stop_sending cb null conn fr t =
     (let sid = stop_stream_id fr;
          rest = (\<lambda>p conn.
            with_strm conn p (\<lambda>strm.
              if strm_has strm DWNX_STRM_FLAG_STOP_SENDING_RECVED then conn_glitch conn t
              else sbind (conn_call_recv_stop_sending cb conn sid (stop_app_error_code fr) (stream_user_data strm)) (\<lambda>_ conn.
                   with_strm conn p (\<lambda>strm.
                   sbind (if \<not> strm_has strm DWNX_STRM_FLAG_SHUT_WR
                          then conn_reset_stream (upd_strm p (strm_set DWNX_STRM_FLAG_RESET_STREAM) conn) p
                                 (stop_app_error_code fr)
                          else SOk () conn) (\<lambda>_ conn.
                   SOk () (upd_strm p (strm_set (DWNX_STRM_FLAG_SHUT_WR OR DWNX_STRM_FLAG_STOP_SENDING_RECVED)) conn))))))
      in case check_send_stream_id conn sid of
           Some e \<Rightarrow> SErr e conn
         | None \<Rightarrow>
             sbind (dwnx_conn_find_stream conn sid) (\<lambda>r conn.
               case r of
                 Some p \<Rightarrow> rest p conn
               | None \<Rightarrow>
                   if conn_local_stream conn sid then conn_glitch conn t
                   else open_remote_stream cb null conn sid None (\<lambda>conn. conn_glitch conn t) rest))"

definition conn_recv_max_data ::
    "('a, 'u) dwnx_conn \<Rightarrow> dwnx_frame_max_data \<Rightarrow> ('a, 'u, unit) conn_res" where
  "conn_recv_max_data conn fr =
     (if ctx_max_offset conn \<ge> md_max_data fr then SErr ERR_PROTO conn
      else SOk () (conn\<lparr>ctx_max_offset := md_max_data fr\<rparr>))"

definition conn_recv_max_stream_data ::
    "('a, 'u) dwnx_callbacks \<Rightarrow> 'u \<Rightarrow> ('a, 'u) dwnx_conn \<Rightarrow> dwnx_frame_max_stream_data \<Rightarrow> dwnx_tstamp \<Rightarrow> ('a, 'u, unit) conn_res" where
  "conn_recv_max_stream_data cb null conn fr t =
     (let sid = msd_stream_id fr;
          rest = (\<lambda>p conn.
            with_strm conn p (\<lambda>strm.
              if tx_max_offset strm \<ge> msd_max_stream_data fr then SErr ERR_PROTO conn
              else
                let conn = upd_strm p (\<lambda>strm. strm\<lparr>tx_max_offset := msd_max_stream_data fr\<rparr>) conn
                in if strm_has strm DWNX_STRM_FLAG_SHUT_WR then conn_glitch conn t
                   else conn_call_extend_max_stream_data cb conn p sid (msd_max_stream_data fr)))
      in case check_send_stream_id conn sid of
           Some e \<Rightarrow> SErr e conn
         | None \<Rightarrow>
             sbind (dwnx_conn_find_stream conn sid) (\<lambda>r conn.
               case r of
                 Some p \<Rightarrow> rest p conn
               | None \<Rightarrow>
                   if conn_local_stream conn sid then conn_glitch conn t
                   else open_remote_stream cb null conn sid None (\<lambda>conn. conn_glitch conn t) rest))"

definition conn_recv_max_streams ::
    "('a, 'u) dwnx_callbacks \<Rightarrow> ('a, 'u) dwnx_conn \<Rightarrow> dwnx_frame_max_streams \<Rightarrow> ('a, 'u, unit) conn_res" where
  "conn_recv_max_streams cb conn fr =
     (if ms_max_streams fr > DWNX_MAX_STREAMS then SErr ERR_FRAME_ENCODING conn
      else if ms_type fr = DWNX_FRAME_MAX_STREAMS_BIDI then
        (if ctx_bidi_max_streams conn \<ge> ms_max_streams fr then SErr ERR_PROTO conn
         else conn_call_extend_max_local_streams_bidi cb
                (conn\<lparr>ctx_bidi_max_streams := ms_max_streams fr\<rparr>) (ms_max_streams fr))
      else if ctx_uni_max_streams conn \<ge> ms_max_streams fr then SErr ERR_PROTO conn
      else conn_call_extend_max_local_streams_uni cb
             (conn\<lparr>ctx_uni_max_streams := ms_max_streams fr\<rparr>) (ms_max_streams fr))"

definition conn_recv_streams_blocked ::
    "('a, 'u) dwnx_conn \<Rightarrow> dwnx_frame_streams_blocked \<Rightarrow> ('a, 'u, unit) conn_res" where
  "conn_recv_streams_blocked conn fr =
     (if sb_type fr = DWNX_FRAME_STREAMS_BLOCKED_BIDI then
        (if sb_max_streams fr > crx_bidi_max_streams conn then SErr ERR_STREAM_LIMIT conn else SOk () conn)
      else if sb_max_streams fr > crx_uni_max_streams conn then SErr ERR_STREAM_LIMIT conn
      else SOk () conn)"

definition conn_recv_data_blocked ::
    "('a, 'u) dwnx_conn \<Rightarrow> dwnx_frame_data_blocked \<Rightarrow> ('a, 'u, unit) conn_res" where
  "conn_recv_data_blocked conn fr =
     (if db_max_data fr > crx_max_offset conn then SErr ERR_FLOW_CONTROL conn else SOk () conn)"

definition conn_recv_stream_data_blocked ::
    "('a, 'u) dwnx_conn \<Rightarrow> dwnx_frame_stream_data_blocked \<Rightarrow> ('a, 'u, unit) conn_res" where
  "conn_recv_stream_data_blocked conn fr =
     (let sid = sdb_stream_id fr
      in case check_recv_stream_id conn sid of
           Some e \<Rightarrow> SErr e conn
         | None \<Rightarrow>
             sbind (dwnx_conn_find_stream conn sid) (\<lambda>r conn.
               case r of
                 None \<Rightarrow>
                   (if conn_local_stream conn sid then SErr ERR_PROTO conn
                    else case dwnx_idtr_is_open (conn_idtr conn sid) sid of
                           Ok b \<Rightarrow>
                             if b then SErr ERR_PROTO conn
                             else if sdb_max_stream_data fr \<noteq> 0 then SErr ERR_PROTO conn
                             else SOk () conn
                         | _ \<Rightarrow> SAbort)
               | Some p \<Rightarrow>
                   with_strm conn p (\<lambda>strm.
                     if strm_has strm DWNX_STRM_FLAG_SHUT_RD \<or> rx_last_offset strm \<noteq> sdb_max_stream_data fr
                     then SErr ERR_PROTO conn else SOk () conn)))"

definition conn_recv_datagram ::
    "('a, 'u) dwnx_callbacks \<Rightarrow> ('a, 'u) dwnx_conn \<Rightarrow> bool \<Rightarrow> nat \<Rightarrow> nat \<Rightarrow> bytes \<Rightarrow> ('a, 'u, unit) conn_res" where
  "conn_recv_datagram cb conn fin dgramlen offset data = conn_call_recv_datagram cb conn fin dgramlen offset data"

end
