(* ===== verification/ConnInv.thy ===== *)
theory ConnInv
  imports ConnQueue ConnRecv
begin

text \<open>
  The invariant of a connection between two steps of the library, and the proof that the operations
  on streams and on the queue of streams keep it.

  \<^item> \<open>strms_ok\<close>: the map \<open>strms\<close> has exactly the streams that are alive, each under its ID, and every
    stream is within its limits (\<open>strm_ok\<close>).
  \<^item> \<open>queue_ok\<close>: the queue \<open>strmq\<close> is a heap of streams that are alive, and a stream has an index if and
    only if it is in the queue.
  \<^item> \<open>ids_ok\<close>: a stream that is alive has been opened: a local one has an ID below the next one, one of
    the peer has its ID in the tracker.
  \<^item> \<open>flow_ok\<close>: the offsets of the connection are within the limits in both directions.
  \<^item> \<open>out_ok\<close>: the record that has been started is well-formed, and the numbers of pings fit a varint.
  \<^item> \<open>params_ok\<close>, \<open>time_ok\<close>: the transport parameters are in range, and no time is in the future.
  \<^item> \<open>early_ok\<close>: before the peer's parameters arrive there are streams of the client only, within the
    limits of the parameters that were remembered.
\<close>

section \<open>The invariant\<close>

definition strm_ok :: "'u dwnx_strm \<Rightarrow> bool" where
  "strm_ok strm \<longleftrightarrow>
     0 \<le> stream_id strm \<and> stream_id strm < 2 ^ 62 \<and> cycle strm = 0 \<and>
     rx_last_offset strm \<le> rx_max_offset strm \<and> rx_max_offset strm \<le> rx_unsent_max_offset strm \<and>
     rx_unsent_max_offset strm \<le> DWNX_MAX_VARINT \<and>
     tx_offset strm \<le> tx_max_offset strm \<and> tx_max_offset strm \<le> DWNX_MAX_VARINT \<and>
     tx_stop_sending_app_error_code strm \<le> DWNX_MAX_VARINT \<and> tx_reset_stream_app_error_code strm \<le> DWNX_MAX_VARINT"

text \<open>The keys and the IDs of the streams that are alive.\<close>

definition strm_key :: "(strm_ptr \<Rightarrow> 'u dwnx_strm option) \<Rightarrow> strm_ptr \<Rightarrow> u64 option" where
  "strm_key store p = map_option (\<lambda>strm. u64_of_i64 (stream_id strm)) (store p)"

definition live_ids :: "(strm_ptr \<Rightarrow> 'u dwnx_strm option) \<Rightarrow> i64 set" where
  "live_ids store = stream_id ` ran store"

definition strms_ok :: "('a, 'u) dwnx_conn \<Rightarrow> bool" where
  "strms_ok conn \<longleftrightarrow>
     dwnx_map_inv (strms conn) \<and>
     (\<forall>p k. map_abs (strms conn) k = Some p \<longleftrightarrow> strm_key (strm_store conn) p = Some k) \<and>
     (\<forall>p strm. strm_store conn p = Some strm \<longrightarrow> strm_ok strm \<and> p < conn_next_ptr conn)"

definition queue_but :: "strm_ptr set \<Rightarrow> ('a, 'u) dwnx_conn \<Rightarrow> bool" where
  "queue_but X conn \<longleftrightarrow>
     (\<forall>p \<in> set (pq_q (ctx_strmq conn)). strm_store conn p \<noteq> None) \<and>
     pq_inv (cycle_less (strm_store conn)) (ctx_strmq conn, strm_index (strm_store conn)) \<and>
     (\<forall>p. strm_index (strm_store conn) p \<noteq> None \<and> p \<notin> X \<longrightarrow> p \<in> set (pq_q (ctx_strmq conn)))"

abbreviation queue_ok :: "('a, 'u) dwnx_conn \<Rightarrow> bool" where
  "queue_ok \<equiv> queue_but {}"

definition next_local_id :: "('a, 'u) dwnx_conn \<Rightarrow> i64 \<Rightarrow> i64" where
  "next_local_id conn sid = (if bidi_stream sid then ctx_bidi_next_stream_id conn else ctx_uni_next_stream_id conn)"

definition strm_opened :: "('a, 'u) dwnx_conn \<Rightarrow> i64 \<Rightarrow> bool" where
  "strm_opened conn sid \<longleftrightarrow>
     (if conn_local_stream conn sid then sid < next_local_id conn sid
      else id_from_stream_id sid \<in> gaptr_abs (conn_idtr conn sid))"

text \<open>The IDs of one kind of stream: every fourth number.\<close>

definition local_id :: "i64 \<Rightarrow> i64 \<Rightarrow> bool" where
  "local_id c sid \<longleftrightarrow> 0 \<le> sid \<and> sid \<le> 2 ^ 62 + 3 \<and> sid mod 4 = c"

definition ids_ok :: "('a, 'u) dwnx_conn \<Rightarrow> bool" where
  "ids_ok conn \<longleftrightarrow>
     gaptr_inv (bidi_idtr conn) \<and> gaptr_inv (uni_idtr conn) \<and>
     ctx_bidi_max_streams conn \<le> DWNX_MAX_STREAMS \<and> ctx_uni_max_streams conn \<le> DWNX_MAX_STREAMS \<and>
     local_id (if server conn then 1 else 0) (ctx_bidi_next_stream_id conn) \<and>
     local_id (if server conn then 3 else 2) (ctx_uni_next_stream_id conn) \<and>
     (\<forall>sid \<in> live_ids (strm_store conn). strm_opened conn sid)"

definition flow_ok :: "('a, 'u) dwnx_conn \<Rightarrow> bool" where
  "flow_ok conn \<longleftrightarrow>
     crx_offset conn \<le> crx_max_offset conn \<and> crx_max_offset conn \<le> crx_unsent_max_offset conn \<and>
     crx_unsent_max_offset conn \<le> DWNX_MAX_VARINT \<and>
     ctx_offset conn \<le> ctx_max_offset conn \<and> ctx_max_offset conn \<le> DWNX_MAX_VARINT \<and>
     crx_bidi_max_streams conn \<le> crx_bidi_unsent_max_streams conn \<and>
     crx_bidi_unsent_max_streams conn \<le> DWNX_MAX_STREAMS \<and>
     crx_uni_max_streams conn \<le> crx_uni_unsent_max_streams conn \<and>
     crx_uni_unsent_max_streams conn \<le> DWNX_MAX_STREAMS"

definition params_ok :: "('a, 'u) dwnx_conn \<Rightarrow> bool" where
  "params_ok conn \<longleftrightarrow>
     transport_params_valid (local_params conn) \<and> transport_params_valid (remote_params conn) \<and>
     max_record_size (local_params conn) = of_nat DWNX_DEFAULT_MAX_RECORD_SIZE"

definition time_ok :: "('a, 'u) dwnx_conn \<Rightarrow> bool" where
  "time_ok conn \<longleftrightarrow> rl_ts (glitch_rlim conn) \<le> last_ts conn \<and> idle_ts conn \<le> last_ts conn"

definition out_ok :: "('a, 'u) dwnx_conn \<Rightarrow> bool" where
  "out_ok conn \<longleftrightarrow>
     (qre_started (ctx_qre conn) \<longrightarrow> qre_inv (ctx_qre conn)) \<and>
     crx_ping_last_seq conn < 2 ^ 62 \<and> -1 \<le> crx_ping_last_resp_seq conn"

text \<open>The transport parameters of the peer have not been processed.\<close>

definition params_pending :: "('a, 'u) dwnx_conn \<Rightarrow> bool" where
  "params_pending conn \<longleftrightarrow>
     \<not> conn_has conn CONN_FLAG_QX_TRANSPORT_PARAMETERS_SEEN \<or>
     rr_state (rcrd conn) = READ_STATE_QX_TRANSPORT_PARAMETERS_LEN \<or>
     rr_state (rcrd conn) = READ_STATE_QX_TRANSPORT_PARAMETERS_PARAMS"

definition early_ok :: "('a, 'u) dwnx_conn \<Rightarrow> bool" where
  "early_ok conn \<longleftrightarrow>
     (conn_has conn CONN_FLAG_EARLY_TRANSPORT_PARAMS_SET \<longrightarrow> \<not> server conn) \<and>
     (params_pending conn \<longrightarrow>
        (\<forall>sid \<in> live_ids (strm_store conn). conn_local_stream conn sid) \<and>
        ctx_max_offset conn = initial_max_data (remote_params conn) \<and>
        (conn_has conn CONN_FLAG_EARLY_TRANSPORT_PARAMS_SET \<or> ctx_offset conn = 0))"

definition conn_ok :: "('a, 'u) dwnx_conn \<Rightarrow> bool" where
  "conn_ok conn \<longleftrightarrow>
     strms_ok conn \<and> queue_ok conn \<and> ids_ok conn \<and> flow_ok conn \<and> params_ok conn \<and> time_ok conn \<and> early_ok conn \<and>
     out_ok conn"

lemma conn_okI:
  "strms_ok conn \<Longrightarrow> queue_ok conn \<Longrightarrow> ids_ok conn \<Longrightarrow> flow_ok conn \<Longrightarrow> params_ok conn \<Longrightarrow>
   time_ok conn \<Longrightarrow> early_ok conn \<Longrightarrow> out_ok conn \<Longrightarrow> conn_ok conn"
  by (simp add: conn_ok_def)

lemma conn_okD:
  assumes "conn_ok conn"
  shows "strms_ok conn" "queue_ok conn" "ids_ok conn" "flow_ok conn" "params_ok conn" "time_ok conn" "early_ok conn" "out_ok conn"
  using assms by (simp_all add: conn_ok_def)

section \<open>Simple facts\<close>

lemma wp_with_strm [simp, wp_rules]:
  "wp (with_strm conn p k) Q E \<longleftrightarrow> (\<exists>strm. strm_store conn p = Some strm \<and> wp (k strm) Q E)"
  by (simp add: with_strm_def split: option.split)

lemma strm_set_fields [simp]:
  "stream_id (strm_set fl s) = stream_id s" "cycle (strm_set fl s) = cycle s" "pe_index (strm_set fl s) = pe_index s"
  "stream_id (strm_clear fl s) = stream_id s" "cycle (strm_clear fl s) = cycle s" "pe_index (strm_clear fl s) = pe_index s"
  "stream_id (dwnx_strm_shutdown s fl) = stream_id s" "cycle (dwnx_strm_shutdown s fl) = cycle s"
  "pe_index (dwnx_strm_shutdown s fl) = pe_index s"
  "strm_ok (strm_set fl s) = strm_ok s" "strm_ok (strm_clear fl s) = strm_ok s"
  "strm_ok (dwnx_strm_shutdown s fl) = strm_ok s"
  by (simp_all add: strm_set_def strm_clear_def dwnx_strm_shutdown_def strm_ok_def)

lemma put_index_Some:
  "put_index idx store p = Some s' \<longleftrightarrow> (\<exists>s. store p = Some s \<and> s' = s\<lparr>pe_index := idx p\<rparr>)"
  by (auto simp: put_index_def)

lemma put_index_None [simp]: "put_index idx store p = None \<longleftrightarrow> store p = None"
  by (simp add: put_index_def)

lemma cycle_less_put_index [simp]: "cycle_less (put_index idx store) = cycle_less store"
  by (intro ext) (simp add: cycle_less_def put_index_def split: option.split)

lemma strm_index_put_index: "strm_index (put_index idx store) p = (if store p = None then None else idx p)"
  by (simp add: strm_index_def put_index_def split: option.split)

lemma strm_ok_index [simp]: "strm_ok (s\<lparr>pe_index := i\<rparr>) = strm_ok s"
  by (simp add: strm_ok_def)

lemma u64_of_i64_inj:
  assumes "0 \<le> a" "a < 2 ^ 62" "0 \<le> b" "b < 2 ^ 62" "u64_of_i64 a = u64_of_i64 b"
  shows "a = b"
proof -
  have "uint (word_of_int a :: u64) = a" "uint (word_of_int b :: u64) = b"
    using assms(1-4) by (simp_all add: unsigned_of_int take_bit_int_eq_self)
  then show ?thesis using assms(5) by (metis u64_of_i64_def)
qed

lemma strm_key_put_index [simp]: "strm_key (put_index idx store) = strm_key store"
  by (simp add: fun_eq_iff strm_key_def put_index_def option.map_comp comp_def)

lemma live_ids_put_index [simp]: "live_ids (put_index idx store) = live_ids store"
  by (force simp: live_ids_def ran_def image_def put_index_Some)

lemma live_idsI: "store p = Some strm \<Longrightarrow> stream_id strm \<in> live_ids store"
  by (auto simp: live_ids_def ran_def)

lemma strms_ok_strm: "strms_ok conn \<Longrightarrow> strm_store conn p = Some strm \<Longrightarrow> strm_ok strm"
  by (simp add: strms_ok_def)

lemma strms_ok_map:
  "strms_ok conn \<Longrightarrow> strm_store conn p = Some strm \<Longrightarrow> map_abs (strms conn) (u64_of_i64 (stream_id strm)) = Some p"
  by (simp add: strms_ok_def strm_key_def)

lemma strms_ok_alive:
  "strms_ok conn \<Longrightarrow> map_abs (strms conn) k = Some p \<Longrightarrow>
     \<exists>strm. strm_store conn p = Some strm \<and> u64_of_i64 (stream_id strm) = k"
  by (simp add: strms_ok_def strm_key_def)

lemma alive_window:
  assumes "strms_ok conn" and "strm_store conn p \<noteq> None"
  shows "p \<in> cycle_window (strm_store conn) 0"
proof -
  obtain strm where "strm_store conn p = Some strm" using assms(2) by blast
  then show ?thesis using strms_ok_strm [OF assms(1)] by (auto simp: strm_ok_def cycle_window_def)
qed

lemma queue_window:
  assumes "strms_ok conn" and "queue_but X conn"
  shows "set (pq_q (ctx_strmq conn)) \<subseteq> cycle_window (strm_store conn) 0"
proof
  fix p assume "p \<in> set (pq_q (ctx_strmq conn))"
  then have "strm_store conn p \<noteq> None" using assms(2) by (simp add: queue_but_def)
  then show "p \<in> cycle_window (strm_store conn) 0" by (rule alive_window [OF assms(1)])
qed

lemma queue_alive: "queue_but X conn \<Longrightarrow> strmq_alive conn"
  by (simp add: strmq_alive_def queue_but_def list_all_iff)

lemma queue_index:
  assumes "queue_ok conn" and "strm_store conn p = Some strm"
  shows "dwnx_strm_is_tx_queued strm \<longleftrightarrow> p \<in> set (pq_q (ctx_strmq conn))"
proof
  show "p \<in> set (pq_q (ctx_strmq conn))" if "dwnx_strm_is_tx_queued strm"
    using that assms by (simp add: queue_but_def dwnx_strm_is_tx_queued_def strm_index_def)
  show "dwnx_strm_is_tx_queued strm" if "p \<in> set (pq_q (ctx_strmq conn))"
    using that assms
    by (auto simp: queue_but_def pq_inv_def index_ok_def in_set_conv_nth strm_index_def dwnx_strm_is_tx_queued_def)
qed

lemma find_stream_wp:
  assumes "strms_ok conn"
  shows "dwnx_conn_find_stream conn sid = SOk (map_abs (strms conn) (u64_of_i64 sid)) conn"
  using dmap.find_abs [of "strms conn"] assms by (simp add: dwnx_conn_find_stream_def sres_of_def strms_ok_def)

lemma find_stream_alive:
  assumes "strms_ok conn" and "map_abs (strms conn) (u64_of_i64 sid) = Some p" and "0 \<le> sid" and "sid < 2 ^ 62"
  shows "\<exists>strm. strm_store conn p = Some strm \<and> stream_id strm = sid"
proof -
  obtain strm where s: "strm_store conn p = Some strm" "u64_of_i64 (stream_id strm) = u64_of_i64 sid"
    using strms_ok_alive [OF assms(1,2)] by blast
  then have "strm_ok strm" using strms_ok_strm [OF assms(1)] by simp
  then have "stream_id strm = sid" using u64_of_i64_inj s(2) assms(3,4) by (simp add: strm_ok_def)
  then show ?thesis using s(1) by simp
qed

section \<open>The queue\<close>

text \<open>The queue operations change nothing but the queue, the indices and the memory.\<close>

definition queue_changed :: "('a, 'u) dwnx_conn \<Rightarrow> ('a, 'u) dwnx_conn \<Rightarrow> bool" where
  "queue_changed conn conn' \<longleftrightarrow>
     (\<exists>m pq idx. conn' = conn\<lparr>conn_mem := m, ctx_strmq := pq, strm_store := put_index idx (strm_store conn)\<rparr>)"

lemma queue_changed_parts:
  assumes "queue_changed conn conn'"
  shows "strms_ok conn' = strms_ok conn" "ids_ok conn' = ids_ok conn" "flow_ok conn' = flow_ok conn"
    "params_ok conn' = params_ok conn" "time_ok conn' = time_ok conn" "early_ok conn' = early_ok conn"
    "out_ok conn' = out_ok conn"
proof -
  obtain m pq idx where c: "conn' = conn\<lparr>conn_mem := m, ctx_strmq := pq, strm_store := put_index idx (strm_store conn)\<rparr>"
    using assms by (auto simp: queue_changed_def)
  have l: "conn_local_stream conn' = conn_local_stream conn" "conn_idtr conn' = conn_idtr conn"
    "next_local_id conn' = next_local_id conn"
    unfolding c by (simp_all add: fun_eq_iff conn_local_stream_def conn_idtr_def next_local_id_def)
  have o: "strm_opened conn' = strm_opened conn" by (simp add: fun_eq_iff strm_opened_def l)
  show "strms_ok conn' = strms_ok conn"
    by (simp add: strms_ok_def c put_index_Some) (metis strm_ok_index)
  show "ids_ok conn' = ids_ok conn"
    using o by (simp add: ids_ok_def c)
  show "flow_ok conn' = flow_ok conn" "params_ok conn' = params_ok conn" "time_ok conn' = time_ok conn"
    "out_ok conn' = out_ok conn"
    by (simp_all add: c flow_ok_def params_ok_def time_ok_def out_ok_def)
  show "early_ok conn' = early_ok conn"
    using l by (simp add: early_ok_def c params_pending_def conn_has_def)
qed

lemma queue_changed_ok: "conn_ok conn \<Longrightarrow> queue_changed conn conn' \<Longrightarrow> queue_ok conn' \<Longrightarrow> conn_ok conn'"
  by (simp add: conn_ok_def queue_changed_parts)

lemma queue_changed_store:
  assumes "queue_changed conn conn'" and "strm_store conn p = Some s"
  shows "\<exists>i. strm_store conn' p = Some (s\<lparr>pe_index := i\<rparr>)"
  using assms by (auto simp: queue_changed_def put_index_Some)

lemma put_index_id [simp]: "put_index (strm_index store) store = store"
  by (auto simp: fun_eq_iff put_index_def strm_index_def map_option_case split: option.split)

lemma queue_changed_mem: "queue_changed conn (conn\<lparr>conn_mem := m\<rparr>)"
  unfolding queue_changed_def
  by (intro exI [of _ m] exI [of _ "ctx_strmq conn"] exI [of _ "strm_index (strm_store conn)"]) simp

lemma queue_changed_refl: "queue_changed conn conn"
  using queue_changed_mem [of conn "conn_mem conn"] by simp

lemma pq_inv_index_cong:
  "(\<And>p. p \<in> set (pq_q pq) \<Longrightarrow> idx p = idx' p) \<Longrightarrow> pq_inv lt (pq, idx) = pq_inv lt (pq, idx')"
  by (simp add: pq_inv_def index_ok_def)

text \<open>A queue that has been updated in place of the old one.\<close>

lemma queue_but_update:
  assumes conn: "queue_but X conn" and inv: "pq_inv (cycle_less (strm_store conn)) (pq, idx)"
    and alive: "\<forall>p \<in> set (pq_q pq). strm_store conn p \<noteq> None"
    and other: "\<forall>p. strm_store conn p \<noteq> None \<and> p \<notin> set (pq_q pq) \<and> p \<notin> Y \<longrightarrow>
      idx p = None \<or> idx p = strm_index (strm_store conn) p \<and> p \<notin> set (pq_q (ctx_strmq conn)) \<and> p \<notin> X"
  shows "queue_but Y (conn\<lparr>conn_mem := m, ctx_strmq := pq, strm_store := put_index idx (strm_store conn)\<rparr>)"
proof -
  have "pq_inv (cycle_less (strm_store conn)) (pq, strm_index (put_index idx (strm_store conn)))"
    using inv alive by (subst pq_inv_index_cong [of _ _ idx]) (auto simp: strm_index_put_index)
  moreover have "p \<in> set (pq_q pq)"
    if "strm_store conn p \<noteq> None" "p \<notin> Y" "idx p \<noteq> None" for p
  proof (rule ccontr)
    assume n: "p \<notin> set (pq_q pq)"
    then have "idx p = strm_index (strm_store conn) p" "p \<notin> set (pq_q (ctx_strmq conn))" "p \<notin> X"
      using other that by auto
    then show False using conn that by (auto simp: queue_but_def)
  qed
  ultimately show ?thesis
    using alive by (auto simp: queue_but_def strm_index_put_index)
qed

lemma first_cycle_eq:
  assumes "strms_ok conn" and "queue_but X conn"
  shows "dwnx_conn_tx_strmq_first_cycle conn = SOk 0 conn"
proof (cases "dwnx_pq_empty (ctx_strmq conn)")
  case True
  then show ?thesis by (simp add: dwnx_conn_tx_strmq_first_cycle_def)
next
  case False
  then have q: "pq_q (ctx_strmq conn) \<noteq> []" by (simp add: dwnx_pq_empty_def)
  then have "pq_q (ctx_strmq conn) ! 0 \<in> set (pq_q (ctx_strmq conn))" by simp
  then obtain s where "strm_store conn (pq_q (ctx_strmq conn) ! 0) = Some s" "strm_ok s"
    using assms strms_ok_strm by (fastforce simp: queue_but_def)
  then show ?thesis
    using False q by (simp add: dwnx_conn_tx_strmq_first_cycle_def dwnx_pq_top_def sres_of_def with_strm_def strm_ok_def)
qed

lemma strmq_push_wp:
  assumes s: "strms_ok conn" and q: "queue_ok conn" and p: "strm_store conn p \<noteq> None"
    and new: "p \<notin> set (pq_q (ctx_strmq conn))"
  shows "wp (dwnx_conn_tx_strmq_push conn p)
    (\<lambda>_ conn'. queue_changed conn conn' \<and> queue_ok conn' \<and> set (pq_q (ctx_strmq conn')) = insert p (set (pq_q (ctx_strmq conn))))
    (\<lambda>e conn'. e = ERR_NOMEM \<and> queue_changed conn conn' \<and> queue_ok conn' \<and> ctx_strmq conn' = ctx_strmq conn)"
proof -
  let ?idx = "strm_index (strm_store conn)"
  have inv: "pq_inv (cycle_less (strm_store conn)) (ctx_strmq conn, ?idx)" using q by (simp add: queue_but_def)
  have alive: "\<forall>r \<in> set (pq_q (ctx_strmq conn)). strm_store conn r \<noteq> None" using q by (simp add: queue_but_def)
  have win: "insert p (set (pq_q (ctx_strmq conn))) \<subseteq> cycle_window (strm_store conn) 0"
    using queue_window [OF s q] alive_window [OF s p] by simp
  from strmq.pq_push_spec [OF inv new win, of "conn_mem conn"] show ?thesis
  proof (elim disjE exE conjE)
    fix mem' pq' idx'
    assume r: "dwnx_pq_push (cycle_less (strm_store conn)) (conn_mem conn, ctx_strmq conn, ?idx) p = SOk () (mem', pq', idx')"
      and i: "pq_inv (cycle_less (strm_store conn)) (pq', idx')"
      and m: "mset (pq_q pq') = add_mset p (mset (pq_q (ctx_strmq conn)))"
      and o: "\<forall>r. r \<noteq> p \<and> r \<notin> set (pq_q (ctx_strmq conn)) \<longrightarrow> idx' r = ?idx r"
    have set: "set (pq_q pq') = insert p (set (pq_q (ctx_strmq conn)))"
      using m by (metis set_mset_add_mset_insert set_mset_mset)
    have "queue_ok (conn\<lparr>conn_mem := mem', ctx_strmq := pq', strm_store := put_index idx' (strm_store conn)\<rparr>)"
      using alive p o by (intro queue_but_update [OF q i]) (auto simp: set)
    then show ?thesis using r set p queue_alive [OF q] by (auto simp: queue_changed_def dwnx_conn_tx_strmq_push_def)
  next
    fix mem'
    assume r: "dwnx_pq_push (cycle_less (strm_store conn)) (conn_mem conn, ctx_strmq conn, ?idx) p =
      SErr ERR_NOMEM (mem', ctx_strmq conn, ?idx)"
    let ?c = "conn\<lparr>conn_mem := mem', ctx_strmq := ctx_strmq conn, strm_store := put_index ?idx (strm_store conn)\<rparr>"
    have "queue_ok ?c" using alive q by (intro queue_but_update [OF q inv]) auto
    moreover have "queue_changed conn ?c" unfolding queue_changed_def by blast
    ultimately show ?thesis using r p queue_alive [OF q] by (simp add: dwnx_conn_tx_strmq_push_def)
  qed
qed

lemma upd_strm_same: "strm_store conn p = Some s \<Longrightarrow> f s = s \<Longrightarrow> upd_strm p f conn = conn"
  by (simp add: upd_strm_def fun_upd_idem)

lemma push_if_not_wp:
  assumes s: "strms_ok conn" and q: "queue_ok conn" and p: "strm_store conn p \<noteq> None"
  shows "wp (dwnx_conn_tx_strmq_push_if_not conn p)
    (\<lambda>_ conn'. queue_changed conn conn' \<and> queue_ok conn' \<and> set (pq_q (ctx_strmq conn')) = insert p (set (pq_q (ctx_strmq conn))))
    (\<lambda>e conn'. e = ERR_NOMEM \<and> queue_changed conn conn' \<and> queue_ok conn' \<and> ctx_strmq conn' = ctx_strmq conn)"
proof -
  obtain strm where strm: "strm_store conn p = Some strm" using p by blast
  then have c: "cycle strm = 0" using strms_ok_strm [OF s] by (simp add: strm_ok_def)
  show ?thesis
  proof (cases "dwnx_strm_is_tx_queued strm")
    case True
    then show ?thesis
      using strm q queue_index [OF q strm] queue_changed_refl [of conn]
      by (simp add: dwnx_conn_tx_strmq_push_if_not_def insert_absorb)
  next
    case False
    have "upd_strm p (\<lambda>strm. strm\<lparr>cycle := 0\<rparr>) conn = conn" by (rule upd_strm_same [OF strm]) (simp add: c)
    then show ?thesis
      using False strm strmq_push_wp [OF s q p] queue_index [OF q strm]
      by (simp add: dwnx_conn_tx_strmq_push_if_not_def first_cycle_eq [OF s q])
  qed
qed

lemma strmq_top_eq:
  assumes "queue_ok conn" and "pq_q (ctx_strmq conn) \<noteq> []"
  shows "dwnx_conn_tx_strmq_top conn = SOk (pq_q (ctx_strmq conn) ! 0) conn"
  using assms by (simp add: dwnx_conn_tx_strmq_top_def dwnx_pq_empty_def dwnx_pq_top_def sres_of_def)

lemma strmq_pop_wp:
  assumes s: "strms_ok conn" and q: "queue_ok conn" and ne: "pq_q (ctx_strmq conn) \<noteq> []"
  shows "wp (dwnx_conn_tx_strmq_pop conn)
    (\<lambda>_ conn'. queue_changed conn conn' \<and> queue_ok conn' \<and>
      mset (pq_q (ctx_strmq conn)) = add_mset (pq_q (ctx_strmq conn) ! 0) (mset (pq_q (ctx_strmq conn'))))
    (\<lambda>_ _. False)"
proof -
  let ?idx = "strm_index (strm_store conn)" and ?p = "pq_q (ctx_strmq conn) ! 0"
  have inv: "pq_inv (cycle_less (strm_store conn)) (ctx_strmq conn, ?idx)" using q by (simp add: queue_but_def)
  obtain pq' idx' where r: "dwnx_pq_pop (cycle_less (strm_store conn)) (ctx_strmq conn, ?idx) = Ok (pq', idx')"
    and i: "pq_inv (cycle_less (strm_store conn)) (pq', idx')"
    and m: "mset (pq_q pq') = mset (pq_q (ctx_strmq conn)) - {#?p#}"
    and o: "\<forall>r. r \<notin> set (pq_q (ctx_strmq conn)) \<longrightarrow> idx' r = ?idx r"
    using strmq.pq_pop_spec [OF inv queue_window [OF s q] ne] by blast
  have pin: "?p \<in> set (pq_q (ctx_strmq conn))" using ne by simp
  have d: "distinct (pq_q (ctx_strmq conn))" using inv index_ok_distinct by (fastforce simp: pq_inv_def)
  have set: "set (pq_q pq') = set (pq_q (ctx_strmq conn)) - {?p}"
    using m d by (metis mset_remove1 set_mset_mset set_remove1_eq)
  let ?c = "conn\<lparr>conn_mem := conn_mem conn, ctx_strmq := pq', strm_store := put_index (idx'(?p := None)) (strm_store conn)\<rparr>"
  have "pq_inv (cycle_less (strm_store conn)) (pq', idx'(?p := None))"
    using i by (subst pq_inv_index_cong [of _ _ idx']) (auto simp: set)
  then have ok: "queue_ok ?c"
    using q o by (intro queue_but_update [OF q]) (auto simp: set queue_but_def)
  have "upd_strm ?p (\<lambda>strm. strm\<lparr>pe_index := None\<rparr>)
      (conn\<lparr>ctx_strmq := pq', strm_store := put_index idx' (strm_store conn)\<rparr>) = ?c"
    by (simp add: upd_strm_def fun_eq_iff put_index_def option.map_comp comp_def)
  then have "dwnx_conn_tx_strmq_pop conn = SOk () ?c"
    using r queue_alive [OF q] by (simp add: dwnx_conn_tx_strmq_pop_def strmq_top_eq [OF q ne])
  moreover have "queue_changed conn ?c" unfolding queue_changed_def by blast
  moreover have "mset (pq_q (ctx_strmq conn)) = add_mset ?p (mset (pq_q pq'))" using m pin by simp
  ultimately show ?thesis using ok by simp
qed

lemma strmq_remove_wp:
  assumes win: "set (pq_q (ctx_strmq conn)) \<subseteq> cycle_window (strm_store conn) 0"
    and q: "queue_ok conn" and pin: "p \<in> set (pq_q (ctx_strmq conn))"
  shows "wp (conn_strmq_remove conn p)
    (\<lambda>_ conn'. queue_changed conn conn' \<and> queue_but {p} conn' \<and>
      set (pq_q (ctx_strmq conn')) = set (pq_q (ctx_strmq conn)) - {p})
    (\<lambda>_ _. False)"
proof -
  let ?idx = "strm_index (strm_store conn)"
  have inv: "pq_inv (cycle_less (strm_store conn)) (ctx_strmq conn, ?idx)" using q by (simp add: queue_but_def)
  obtain pq' idx' where r: "dwnx_pq_remove (cycle_less (strm_store conn)) (ctx_strmq conn, ?idx) p = Ok (pq', idx')"
    and i: "pq_inv (cycle_less (strm_store conn)) (pq', idx')"
    and m: "mset (pq_q pq') = mset (pq_q (ctx_strmq conn)) - {#p#}"
    and o: "\<forall>r. r \<notin> set (pq_q (ctx_strmq conn)) \<longrightarrow> idx' r = ?idx r"
    using strmq.pq_remove_spec [OF inv win pin] by blast
  have d: "distinct (pq_q (ctx_strmq conn))" using inv index_ok_distinct by (fastforce simp: pq_inv_def)
  have set: "set (pq_q pq') = set (pq_q (ctx_strmq conn)) - {p}"
    using m d by (metis mset_remove1 set_mset_mset set_remove1_eq)
  let ?c = "conn\<lparr>conn_mem := conn_mem conn, ctx_strmq := pq', strm_store := put_index idx' (strm_store conn)\<rparr>"
  have "queue_but {p} ?c"
    using q o by (intro queue_but_update [OF q i]) (auto simp: set queue_but_def)
  moreover have "queue_changed conn ?c" unfolding queue_changed_def by blast
  moreover have "conn_strmq_remove conn p = SOk () ?c"
    using r queue_alive [OF q] by (simp add: conn_strmq_remove_def)
  ultimately show ?thesis using set by simp
qed

section \<open>Updating a stream\<close>

lemma upd_strm_fields [simp]:
  "conn_mem (upd_strm p f conn) = conn_mem conn" "conn_user_data (upd_strm p f conn) = conn_user_data conn"
  "local_params (upd_strm p f conn) = local_params conn" "remote_params (upd_strm p f conn) = remote_params conn"
  "bidi_idtr (upd_strm p f conn) = bidi_idtr conn" "uni_idtr (upd_strm p f conn) = uni_idtr conn"
  "vird (upd_strm p f conn) = vird conn" "rcrd (upd_strm p f conn) = rcrd conn"
  "crx_offset (upd_strm p f conn) = crx_offset conn" "crx_max_offset (upd_strm p f conn) = crx_max_offset conn"
  "crx_unsent_max_offset (upd_strm p f conn) = crx_unsent_max_offset conn"
  "ctx_strmq (upd_strm p f conn) = ctx_strmq conn" "ctx_qre (upd_strm p f conn) = ctx_qre conn"
  "ctx_offset (upd_strm p f conn) = ctx_offset conn" "ctx_max_offset (upd_strm p f conn) = ctx_max_offset conn"
  "ctx_last_blocked_offset (upd_strm p f conn) = ctx_last_blocked_offset conn"
  "ctx_bidi_max_streams (upd_strm p f conn) = ctx_bidi_max_streams conn"
  "ctx_uni_max_streams (upd_strm p f conn) = ctx_uni_max_streams conn"
  "ctx_bidi_next_stream_id (upd_strm p f conn) = ctx_bidi_next_stream_id conn"
  "ctx_uni_next_stream_id (upd_strm p f conn) = ctx_uni_next_stream_id conn"
  "glitch_rlim (upd_strm p f conn) = glitch_rlim conn" "strms (upd_strm p f conn) = strms conn"
  "last_ts (upd_strm p f conn) = last_ts conn" "idle_ts (upd_strm p f conn) = idle_ts conn"
  "conn_flags (upd_strm p f conn) = conn_flags conn" "server (upd_strm p f conn) = server conn"
  "conn_next_ptr (upd_strm p f conn) = conn_next_ptr conn"
  "strm_store (upd_strm p f conn) = (strm_store conn)(p := map_option f (strm_store conn p))"
  by (simp_all add: upd_strm_def)

definition strm_step :: "('u dwnx_strm \<Rightarrow> 'u dwnx_strm) \<Rightarrow> 'u dwnx_strm \<Rightarrow> bool" where
  "strm_step f s \<longleftrightarrow> strm_ok (f s) \<and> stream_id (f s) = stream_id s \<and> pe_index (f s) = pe_index s"

lemma upd_strm_parts:
  assumes s: "strms_ok conn" and p: "strm_store conn p = Some strm" and f: "strm_step f strm"
  shows "strms_ok (upd_strm p f conn)" "queue_but X (upd_strm p f conn) = queue_but X conn"
    "ids_ok (upd_strm p f conn) = ids_ok conn" "flow_ok (upd_strm p f conn) = flow_ok conn"
    "params_ok (upd_strm p f conn) = params_ok conn" "time_ok (upd_strm p f conn) = time_ok conn"
    "early_ok (upd_strm p f conn) = early_ok conn" "out_ok (upd_strm p f conn) = out_ok conn"
proof -
  let ?st = "(strm_store conn)(p := map_option f (strm_store conn p))"
  have st: "?st = (strm_store conn)(p \<mapsto> f strm)" by (simp add: p)
  have id: "stream_id (f strm) = stream_id strm" "pe_index (f strm) = pe_index strm" and ok: "strm_ok (f strm)"
    using f by (simp_all add: strm_step_def)
  have cyc: "cycle (f strm) = cycle strm" using ok strms_ok_strm [OF s p] by (simp add: strm_ok_def)
  have key: "strm_key ?st = strm_key (strm_store conn)" by (simp add: fun_eq_iff strm_key_def p id)
  have live: "live_ids ?st = live_ids (strm_store conn)"
  proof -
    have "map_option stream_id \<circ> ?st = map_option stream_id \<circ> strm_store conn" by (simp add: fun_eq_iff p id)
    then have "ran (map_option stream_id \<circ> ?st) = ran (map_option stream_id \<circ> strm_store conn)" by simp
    moreover have "live_ids st' = ran (map_option stream_id \<circ> st')" for st' :: "strm_ptr \<Rightarrow> 'b dwnx_strm option"
      by (auto simp: live_ids_def ran_def image_def)
    ultimately show ?thesis by simp
  qed
  have less: "cycle_less ?st = cycle_less (strm_store conn)"
    by (auto simp: fun_eq_iff cycle_less_def p id cyc split: option.split)
  have idx: "strm_index ?st = strm_index (strm_store conn)" by (simp add: fun_eq_iff strm_index_def p id)
  have l: "conn_local_stream (upd_strm p f conn) = conn_local_stream conn" "conn_idtr (upd_strm p f conn) = conn_idtr conn"
    "next_local_id (upd_strm p f conn) = next_local_id conn"
    by (simp_all add: fun_eq_iff conn_local_stream_def conn_idtr_def next_local_id_def)
  have o: "strm_opened (upd_strm p f conn) = strm_opened conn" by (simp add: fun_eq_iff strm_opened_def l)
  show "strms_ok (upd_strm p f conn)"
    using s ok p key [unfolded st] by (simp add: strms_ok_def)
  show "queue_but X (upd_strm p f conn) = queue_but X conn"
  proof -
    have "?st r = None \<longleftrightarrow> strm_store conn r = None" for r by (simp add: p)
    then show ?thesis unfolding queue_but_def upd_strm_fields less idx by presburger
  qed
  show "ids_ok (upd_strm p f conn) = ids_ok conn" by (simp add: ids_ok_def live o)
  show "flow_ok (upd_strm p f conn) = flow_ok conn" "params_ok (upd_strm p f conn) = params_ok conn"
    "time_ok (upd_strm p f conn) = time_ok conn" "out_ok (upd_strm p f conn) = out_ok conn"
    by (simp_all add: flow_ok_def params_ok_def time_ok_def out_ok_def upd_strm_def)
  show "early_ok (upd_strm p f conn) = early_ok conn"
    by (simp add: early_ok_def live l conn_has_def params_pending_def)
qed

lemma upd_strm_ok:
  "conn_ok conn \<Longrightarrow> strm_store conn p = Some strm \<Longrightarrow> strm_step f strm \<Longrightarrow> conn_ok (upd_strm p f conn)"
  using upd_strm_parts [of conn p strm f] by (simp add: conn_ok_def)

section \<open>What the steps of the application leave alone\<close>

definition strm_kept :: "'u dwnx_strm \<Rightarrow> 'u dwnx_strm \<Rightarrow> bool" where
  "strm_kept s s' \<longleftrightarrow>
     stream_id s' = stream_id s \<and> rx_last_offset s' = rx_last_offset s \<and>
     tx_offset s' = tx_offset s \<and> tx_max_offset s' = tx_max_offset s \<and>
     strm_has s' DWNX_STRM_FLAG_SHUT_RD = strm_has s DWNX_STRM_FLAG_SHUT_RD"

definition strms_kept :: "strm_ptr set \<Rightarrow> ('a, 'u) dwnx_conn \<Rightarrow> ('a, 'u) dwnx_conn \<Rightarrow> bool" where
  "strms_kept X conn conn' \<longleftrightarrow>
     (\<forall>p s. p \<notin> X \<and> strm_store conn p = Some s \<longrightarrow> (\<exists>s'. strm_store conn' p = Some s' \<and> strm_kept s s'))"

definition same_reader :: "('a, 'u) dwnx_conn \<Rightarrow> ('a, 'u) dwnx_conn \<Rightarrow> bool" where
  "same_reader conn conn' \<longleftrightarrow>
     rcrd conn' = rcrd conn \<and> vird conn' = vird conn \<and> conn_flags conn' = conn_flags conn \<and>
     server conn' = server conn \<and> local_params conn' = local_params conn \<and> last_ts conn' = last_ts conn"

definition kept_but :: "strm_ptr set \<Rightarrow> ('a, 'u) dwnx_conn \<Rightarrow> ('a, 'u) dwnx_conn \<Rightarrow> bool" where
  "kept_but X conn conn' \<longleftrightarrow>
     same_reader conn conn' \<and> strms_kept X conn conn' \<and>
     remote_params conn' = remote_params conn \<and> ctx_qre conn' = ctx_qre conn \<and>
     crx_offset conn' = crx_offset conn \<and> crx_max_offset conn' = crx_max_offset conn \<and>
     ctx_offset conn' = ctx_offset conn \<and> ctx_max_offset conn' = ctx_max_offset conn \<and>
     ctx_bidi_max_streams conn' = ctx_bidi_max_streams conn \<and> ctx_uni_max_streams conn' = ctx_uni_max_streams conn \<and>
     length (slots (strms conn)) \<le> length (slots (strms conn'))"

abbreviation kept :: "('a, 'u) dwnx_conn \<Rightarrow> ('a, 'u) dwnx_conn \<Rightarrow> bool" where
  "kept \<equiv> kept_but {}"

section \<open>What each part depends on\<close>

text \<open>Updating a member that a part of the invariant does not read leaves the part as it is.\<close>

lemma conn_local_stream_frame [simp]:
  "conn_local_stream (conn\<lparr>conn_mem := v0\<rparr>) sid \<longleftrightarrow> conn_local_stream conn sid"
  "conn_local_stream (conn\<lparr>conn_user_data := v1\<rparr>) sid \<longleftrightarrow> conn_local_stream conn sid"
  "conn_local_stream (conn\<lparr>remote_params := v2\<rparr>) sid \<longleftrightarrow> conn_local_stream conn sid"
  "conn_local_stream (conn\<lparr>bidi_idtr := v3\<rparr>) sid \<longleftrightarrow> conn_local_stream conn sid"
  "conn_local_stream (conn\<lparr>uni_idtr := v4\<rparr>) sid \<longleftrightarrow> conn_local_stream conn sid"
  "conn_local_stream (conn\<lparr>vird := v5\<rparr>) sid \<longleftrightarrow> conn_local_stream conn sid"
  "conn_local_stream (conn\<lparr>rcrd := v6\<rparr>) sid \<longleftrightarrow> conn_local_stream conn sid"
  "conn_local_stream (conn\<lparr>crx_unsent_max_offset := v7\<rparr>) sid \<longleftrightarrow> conn_local_stream conn sid"
  "conn_local_stream (conn\<lparr>crx_offset := v8\<rparr>) sid \<longleftrightarrow> conn_local_stream conn sid"
  "conn_local_stream (conn\<lparr>crx_max_offset := v9\<rparr>) sid \<longleftrightarrow> conn_local_stream conn sid"
  "conn_local_stream (conn\<lparr>crx_ping_last_seq := v10\<rparr>) sid \<longleftrightarrow> conn_local_stream conn sid"
  "conn_local_stream (conn\<lparr>crx_ping_last_resp_seq := v11\<rparr>) sid \<longleftrightarrow> conn_local_stream conn sid"
  "conn_local_stream (conn\<lparr>crx_bidi_unsent_max_streams := v12\<rparr>) sid \<longleftrightarrow> conn_local_stream conn sid"
  "conn_local_stream (conn\<lparr>crx_bidi_max_streams := v13\<rparr>) sid \<longleftrightarrow> conn_local_stream conn sid"
  "conn_local_stream (conn\<lparr>crx_uni_unsent_max_streams := v14\<rparr>) sid \<longleftrightarrow> conn_local_stream conn sid"
  "conn_local_stream (conn\<lparr>crx_uni_max_streams := v15\<rparr>) sid \<longleftrightarrow> conn_local_stream conn sid"
  "conn_local_stream (conn\<lparr>ctx_strmq := v16\<rparr>) sid \<longleftrightarrow> conn_local_stream conn sid"
  "conn_local_stream (conn\<lparr>ctx_qre := v17\<rparr>) sid \<longleftrightarrow> conn_local_stream conn sid"
  "conn_local_stream (conn\<lparr>ctx_offset := v18\<rparr>) sid \<longleftrightarrow> conn_local_stream conn sid"
  "conn_local_stream (conn\<lparr>ctx_max_offset := v19\<rparr>) sid \<longleftrightarrow> conn_local_stream conn sid"
  "conn_local_stream (conn\<lparr>ctx_last_blocked_offset := v20\<rparr>) sid \<longleftrightarrow> conn_local_stream conn sid"
  "conn_local_stream (conn\<lparr>ctx_bidi_max_streams := v21\<rparr>) sid \<longleftrightarrow> conn_local_stream conn sid"
  "conn_local_stream (conn\<lparr>ctx_bidi_next_stream_id := v22\<rparr>) sid \<longleftrightarrow> conn_local_stream conn sid"
  "conn_local_stream (conn\<lparr>ctx_uni_max_streams := v23\<rparr>) sid \<longleftrightarrow> conn_local_stream conn sid"
  "conn_local_stream (conn\<lparr>ctx_uni_next_stream_id := v24\<rparr>) sid \<longleftrightarrow> conn_local_stream conn sid"
  "conn_local_stream (conn\<lparr>glitch_rlim := v25\<rparr>) sid \<longleftrightarrow> conn_local_stream conn sid"
  "conn_local_stream (conn\<lparr>strms := v26\<rparr>) sid \<longleftrightarrow> conn_local_stream conn sid"
  "conn_local_stream (conn\<lparr>last_ts := v27\<rparr>) sid \<longleftrightarrow> conn_local_stream conn sid"
  "conn_local_stream (conn\<lparr>idle_ts := v28\<rparr>) sid \<longleftrightarrow> conn_local_stream conn sid"
  "conn_local_stream (conn\<lparr>conn_flags := v29\<rparr>) sid \<longleftrightarrow> conn_local_stream conn sid"
  "conn_local_stream (conn\<lparr>strm_store := v30\<rparr>) sid \<longleftrightarrow> conn_local_stream conn sid"
  "conn_local_stream (conn\<lparr>conn_next_ptr := v31\<rparr>) sid \<longleftrightarrow> conn_local_stream conn sid"
  by (simp_all add: conn_local_stream_def)

lemma conn_has_frame [simp]:
  "conn_has (conn\<lparr>conn_mem := v0\<rparr>) fl \<longleftrightarrow> conn_has conn fl"
  "conn_has (conn\<lparr>conn_user_data := v1\<rparr>) fl \<longleftrightarrow> conn_has conn fl"
  "conn_has (conn\<lparr>remote_params := v2\<rparr>) fl \<longleftrightarrow> conn_has conn fl"
  "conn_has (conn\<lparr>bidi_idtr := v3\<rparr>) fl \<longleftrightarrow> conn_has conn fl"
  "conn_has (conn\<lparr>uni_idtr := v4\<rparr>) fl \<longleftrightarrow> conn_has conn fl"
  "conn_has (conn\<lparr>vird := v5\<rparr>) fl \<longleftrightarrow> conn_has conn fl"
  "conn_has (conn\<lparr>rcrd := v6\<rparr>) fl \<longleftrightarrow> conn_has conn fl"
  "conn_has (conn\<lparr>crx_unsent_max_offset := v7\<rparr>) fl \<longleftrightarrow> conn_has conn fl"
  "conn_has (conn\<lparr>crx_offset := v8\<rparr>) fl \<longleftrightarrow> conn_has conn fl"
  "conn_has (conn\<lparr>crx_max_offset := v9\<rparr>) fl \<longleftrightarrow> conn_has conn fl"
  "conn_has (conn\<lparr>crx_ping_last_seq := v10\<rparr>) fl \<longleftrightarrow> conn_has conn fl"
  "conn_has (conn\<lparr>crx_ping_last_resp_seq := v11\<rparr>) fl \<longleftrightarrow> conn_has conn fl"
  "conn_has (conn\<lparr>crx_bidi_unsent_max_streams := v12\<rparr>) fl \<longleftrightarrow> conn_has conn fl"
  "conn_has (conn\<lparr>crx_bidi_max_streams := v13\<rparr>) fl \<longleftrightarrow> conn_has conn fl"
  "conn_has (conn\<lparr>crx_uni_unsent_max_streams := v14\<rparr>) fl \<longleftrightarrow> conn_has conn fl"
  "conn_has (conn\<lparr>crx_uni_max_streams := v15\<rparr>) fl \<longleftrightarrow> conn_has conn fl"
  "conn_has (conn\<lparr>ctx_strmq := v16\<rparr>) fl \<longleftrightarrow> conn_has conn fl"
  "conn_has (conn\<lparr>ctx_qre := v17\<rparr>) fl \<longleftrightarrow> conn_has conn fl"
  "conn_has (conn\<lparr>ctx_offset := v18\<rparr>) fl \<longleftrightarrow> conn_has conn fl"
  "conn_has (conn\<lparr>ctx_max_offset := v19\<rparr>) fl \<longleftrightarrow> conn_has conn fl"
  "conn_has (conn\<lparr>ctx_last_blocked_offset := v20\<rparr>) fl \<longleftrightarrow> conn_has conn fl"
  "conn_has (conn\<lparr>ctx_bidi_max_streams := v21\<rparr>) fl \<longleftrightarrow> conn_has conn fl"
  "conn_has (conn\<lparr>ctx_bidi_next_stream_id := v22\<rparr>) fl \<longleftrightarrow> conn_has conn fl"
  "conn_has (conn\<lparr>ctx_uni_max_streams := v23\<rparr>) fl \<longleftrightarrow> conn_has conn fl"
  "conn_has (conn\<lparr>ctx_uni_next_stream_id := v24\<rparr>) fl \<longleftrightarrow> conn_has conn fl"
  "conn_has (conn\<lparr>glitch_rlim := v25\<rparr>) fl \<longleftrightarrow> conn_has conn fl"
  "conn_has (conn\<lparr>strms := v26\<rparr>) fl \<longleftrightarrow> conn_has conn fl"
  "conn_has (conn\<lparr>last_ts := v27\<rparr>) fl \<longleftrightarrow> conn_has conn fl"
  "conn_has (conn\<lparr>idle_ts := v28\<rparr>) fl \<longleftrightarrow> conn_has conn fl"
  "conn_has (conn\<lparr>strm_store := v30\<rparr>) fl \<longleftrightarrow> conn_has conn fl"
  "conn_has (conn\<lparr>conn_next_ptr := v31\<rparr>) fl \<longleftrightarrow> conn_has conn fl"
  by (simp_all add: conn_has_def)

lemma conn_idtr_frame [simp]:
  "conn_idtr (conn\<lparr>conn_mem := v0\<rparr>) sid = conn_idtr conn sid"
  "conn_idtr (conn\<lparr>conn_user_data := v1\<rparr>) sid = conn_idtr conn sid"
  "conn_idtr (conn\<lparr>remote_params := v2\<rparr>) sid = conn_idtr conn sid"
  "conn_idtr (conn\<lparr>vird := v5\<rparr>) sid = conn_idtr conn sid"
  "conn_idtr (conn\<lparr>rcrd := v6\<rparr>) sid = conn_idtr conn sid"
  "conn_idtr (conn\<lparr>crx_unsent_max_offset := v7\<rparr>) sid = conn_idtr conn sid"
  "conn_idtr (conn\<lparr>crx_offset := v8\<rparr>) sid = conn_idtr conn sid"
  "conn_idtr (conn\<lparr>crx_max_offset := v9\<rparr>) sid = conn_idtr conn sid"
  "conn_idtr (conn\<lparr>crx_ping_last_seq := v10\<rparr>) sid = conn_idtr conn sid"
  "conn_idtr (conn\<lparr>crx_ping_last_resp_seq := v11\<rparr>) sid = conn_idtr conn sid"
  "conn_idtr (conn\<lparr>crx_bidi_unsent_max_streams := v12\<rparr>) sid = conn_idtr conn sid"
  "conn_idtr (conn\<lparr>crx_bidi_max_streams := v13\<rparr>) sid = conn_idtr conn sid"
  "conn_idtr (conn\<lparr>crx_uni_unsent_max_streams := v14\<rparr>) sid = conn_idtr conn sid"
  "conn_idtr (conn\<lparr>crx_uni_max_streams := v15\<rparr>) sid = conn_idtr conn sid"
  "conn_idtr (conn\<lparr>ctx_strmq := v16\<rparr>) sid = conn_idtr conn sid"
  "conn_idtr (conn\<lparr>ctx_qre := v17\<rparr>) sid = conn_idtr conn sid"
  "conn_idtr (conn\<lparr>ctx_offset := v18\<rparr>) sid = conn_idtr conn sid"
  "conn_idtr (conn\<lparr>ctx_max_offset := v19\<rparr>) sid = conn_idtr conn sid"
  "conn_idtr (conn\<lparr>ctx_last_blocked_offset := v20\<rparr>) sid = conn_idtr conn sid"
  "conn_idtr (conn\<lparr>ctx_bidi_max_streams := v21\<rparr>) sid = conn_idtr conn sid"
  "conn_idtr (conn\<lparr>ctx_bidi_next_stream_id := v22\<rparr>) sid = conn_idtr conn sid"
  "conn_idtr (conn\<lparr>ctx_uni_max_streams := v23\<rparr>) sid = conn_idtr conn sid"
  "conn_idtr (conn\<lparr>ctx_uni_next_stream_id := v24\<rparr>) sid = conn_idtr conn sid"
  "conn_idtr (conn\<lparr>glitch_rlim := v25\<rparr>) sid = conn_idtr conn sid"
  "conn_idtr (conn\<lparr>strms := v26\<rparr>) sid = conn_idtr conn sid"
  "conn_idtr (conn\<lparr>last_ts := v27\<rparr>) sid = conn_idtr conn sid"
  "conn_idtr (conn\<lparr>idle_ts := v28\<rparr>) sid = conn_idtr conn sid"
  "conn_idtr (conn\<lparr>conn_flags := v29\<rparr>) sid = conn_idtr conn sid"
  "conn_idtr (conn\<lparr>strm_store := v30\<rparr>) sid = conn_idtr conn sid"
  "conn_idtr (conn\<lparr>conn_next_ptr := v31\<rparr>) sid = conn_idtr conn sid"
  by (simp_all add: conn_idtr_def)

lemma next_local_id_frame [simp]:
  "next_local_id (conn\<lparr>conn_mem := v0\<rparr>) sid = next_local_id conn sid"
  "next_local_id (conn\<lparr>conn_user_data := v1\<rparr>) sid = next_local_id conn sid"
  "next_local_id (conn\<lparr>remote_params := v2\<rparr>) sid = next_local_id conn sid"
  "next_local_id (conn\<lparr>bidi_idtr := v3\<rparr>) sid = next_local_id conn sid"
  "next_local_id (conn\<lparr>uni_idtr := v4\<rparr>) sid = next_local_id conn sid"
  "next_local_id (conn\<lparr>vird := v5\<rparr>) sid = next_local_id conn sid"
  "next_local_id (conn\<lparr>rcrd := v6\<rparr>) sid = next_local_id conn sid"
  "next_local_id (conn\<lparr>crx_unsent_max_offset := v7\<rparr>) sid = next_local_id conn sid"
  "next_local_id (conn\<lparr>crx_offset := v8\<rparr>) sid = next_local_id conn sid"
  "next_local_id (conn\<lparr>crx_max_offset := v9\<rparr>) sid = next_local_id conn sid"
  "next_local_id (conn\<lparr>crx_ping_last_seq := v10\<rparr>) sid = next_local_id conn sid"
  "next_local_id (conn\<lparr>crx_ping_last_resp_seq := v11\<rparr>) sid = next_local_id conn sid"
  "next_local_id (conn\<lparr>crx_bidi_unsent_max_streams := v12\<rparr>) sid = next_local_id conn sid"
  "next_local_id (conn\<lparr>crx_bidi_max_streams := v13\<rparr>) sid = next_local_id conn sid"
  "next_local_id (conn\<lparr>crx_uni_unsent_max_streams := v14\<rparr>) sid = next_local_id conn sid"
  "next_local_id (conn\<lparr>crx_uni_max_streams := v15\<rparr>) sid = next_local_id conn sid"
  "next_local_id (conn\<lparr>ctx_strmq := v16\<rparr>) sid = next_local_id conn sid"
  "next_local_id (conn\<lparr>ctx_qre := v17\<rparr>) sid = next_local_id conn sid"
  "next_local_id (conn\<lparr>ctx_offset := v18\<rparr>) sid = next_local_id conn sid"
  "next_local_id (conn\<lparr>ctx_max_offset := v19\<rparr>) sid = next_local_id conn sid"
  "next_local_id (conn\<lparr>ctx_last_blocked_offset := v20\<rparr>) sid = next_local_id conn sid"
  "next_local_id (conn\<lparr>ctx_bidi_max_streams := v21\<rparr>) sid = next_local_id conn sid"
  "next_local_id (conn\<lparr>ctx_uni_max_streams := v23\<rparr>) sid = next_local_id conn sid"
  "next_local_id (conn\<lparr>glitch_rlim := v25\<rparr>) sid = next_local_id conn sid"
  "next_local_id (conn\<lparr>strms := v26\<rparr>) sid = next_local_id conn sid"
  "next_local_id (conn\<lparr>last_ts := v27\<rparr>) sid = next_local_id conn sid"
  "next_local_id (conn\<lparr>idle_ts := v28\<rparr>) sid = next_local_id conn sid"
  "next_local_id (conn\<lparr>conn_flags := v29\<rparr>) sid = next_local_id conn sid"
  "next_local_id (conn\<lparr>strm_store := v30\<rparr>) sid = next_local_id conn sid"
  "next_local_id (conn\<lparr>conn_next_ptr := v31\<rparr>) sid = next_local_id conn sid"
  by (simp_all add: next_local_id_def)

lemma strm_opened_frame [simp]:
  "strm_opened (conn\<lparr>conn_mem := v0\<rparr>) sid \<longleftrightarrow> strm_opened conn sid"
  "strm_opened (conn\<lparr>conn_user_data := v1\<rparr>) sid \<longleftrightarrow> strm_opened conn sid"
  "strm_opened (conn\<lparr>remote_params := v2\<rparr>) sid \<longleftrightarrow> strm_opened conn sid"
  "strm_opened (conn\<lparr>vird := v5\<rparr>) sid \<longleftrightarrow> strm_opened conn sid"
  "strm_opened (conn\<lparr>rcrd := v6\<rparr>) sid \<longleftrightarrow> strm_opened conn sid"
  "strm_opened (conn\<lparr>crx_unsent_max_offset := v7\<rparr>) sid \<longleftrightarrow> strm_opened conn sid"
  "strm_opened (conn\<lparr>crx_offset := v8\<rparr>) sid \<longleftrightarrow> strm_opened conn sid"
  "strm_opened (conn\<lparr>crx_max_offset := v9\<rparr>) sid \<longleftrightarrow> strm_opened conn sid"
  "strm_opened (conn\<lparr>crx_ping_last_seq := v10\<rparr>) sid \<longleftrightarrow> strm_opened conn sid"
  "strm_opened (conn\<lparr>crx_ping_last_resp_seq := v11\<rparr>) sid \<longleftrightarrow> strm_opened conn sid"
  "strm_opened (conn\<lparr>crx_bidi_unsent_max_streams := v12\<rparr>) sid \<longleftrightarrow> strm_opened conn sid"
  "strm_opened (conn\<lparr>crx_bidi_max_streams := v13\<rparr>) sid \<longleftrightarrow> strm_opened conn sid"
  "strm_opened (conn\<lparr>crx_uni_unsent_max_streams := v14\<rparr>) sid \<longleftrightarrow> strm_opened conn sid"
  "strm_opened (conn\<lparr>crx_uni_max_streams := v15\<rparr>) sid \<longleftrightarrow> strm_opened conn sid"
  "strm_opened (conn\<lparr>ctx_strmq := v16\<rparr>) sid \<longleftrightarrow> strm_opened conn sid"
  "strm_opened (conn\<lparr>ctx_qre := v17\<rparr>) sid \<longleftrightarrow> strm_opened conn sid"
  "strm_opened (conn\<lparr>ctx_offset := v18\<rparr>) sid \<longleftrightarrow> strm_opened conn sid"
  "strm_opened (conn\<lparr>ctx_max_offset := v19\<rparr>) sid \<longleftrightarrow> strm_opened conn sid"
  "strm_opened (conn\<lparr>ctx_last_blocked_offset := v20\<rparr>) sid \<longleftrightarrow> strm_opened conn sid"
  "strm_opened (conn\<lparr>ctx_bidi_max_streams := v21\<rparr>) sid \<longleftrightarrow> strm_opened conn sid"
  "strm_opened (conn\<lparr>ctx_uni_max_streams := v23\<rparr>) sid \<longleftrightarrow> strm_opened conn sid"
  "strm_opened (conn\<lparr>glitch_rlim := v25\<rparr>) sid \<longleftrightarrow> strm_opened conn sid"
  "strm_opened (conn\<lparr>strms := v26\<rparr>) sid \<longleftrightarrow> strm_opened conn sid"
  "strm_opened (conn\<lparr>last_ts := v27\<rparr>) sid \<longleftrightarrow> strm_opened conn sid"
  "strm_opened (conn\<lparr>idle_ts := v28\<rparr>) sid \<longleftrightarrow> strm_opened conn sid"
  "strm_opened (conn\<lparr>conn_flags := v29\<rparr>) sid \<longleftrightarrow> strm_opened conn sid"
  "strm_opened (conn\<lparr>strm_store := v30\<rparr>) sid \<longleftrightarrow> strm_opened conn sid"
  "strm_opened (conn\<lparr>conn_next_ptr := v31\<rparr>) sid \<longleftrightarrow> strm_opened conn sid"
  by (simp_all add: strm_opened_def)

lemma params_pending_frame [simp]:
  "params_pending (conn\<lparr>conn_mem := v0\<rparr>) \<longleftrightarrow> params_pending conn"
  "params_pending (conn\<lparr>conn_user_data := v1\<rparr>) \<longleftrightarrow> params_pending conn"
  "params_pending (conn\<lparr>remote_params := v2\<rparr>) \<longleftrightarrow> params_pending conn"
  "params_pending (conn\<lparr>bidi_idtr := v3\<rparr>) \<longleftrightarrow> params_pending conn"
  "params_pending (conn\<lparr>uni_idtr := v4\<rparr>) \<longleftrightarrow> params_pending conn"
  "params_pending (conn\<lparr>vird := v5\<rparr>) \<longleftrightarrow> params_pending conn"
  "params_pending (conn\<lparr>crx_unsent_max_offset := v7\<rparr>) \<longleftrightarrow> params_pending conn"
  "params_pending (conn\<lparr>crx_offset := v8\<rparr>) \<longleftrightarrow> params_pending conn"
  "params_pending (conn\<lparr>crx_max_offset := v9\<rparr>) \<longleftrightarrow> params_pending conn"
  "params_pending (conn\<lparr>crx_ping_last_seq := v10\<rparr>) \<longleftrightarrow> params_pending conn"
  "params_pending (conn\<lparr>crx_ping_last_resp_seq := v11\<rparr>) \<longleftrightarrow> params_pending conn"
  "params_pending (conn\<lparr>crx_bidi_unsent_max_streams := v12\<rparr>) \<longleftrightarrow> params_pending conn"
  "params_pending (conn\<lparr>crx_bidi_max_streams := v13\<rparr>) \<longleftrightarrow> params_pending conn"
  "params_pending (conn\<lparr>crx_uni_unsent_max_streams := v14\<rparr>) \<longleftrightarrow> params_pending conn"
  "params_pending (conn\<lparr>crx_uni_max_streams := v15\<rparr>) \<longleftrightarrow> params_pending conn"
  "params_pending (conn\<lparr>ctx_strmq := v16\<rparr>) \<longleftrightarrow> params_pending conn"
  "params_pending (conn\<lparr>ctx_qre := v17\<rparr>) \<longleftrightarrow> params_pending conn"
  "params_pending (conn\<lparr>ctx_offset := v18\<rparr>) \<longleftrightarrow> params_pending conn"
  "params_pending (conn\<lparr>ctx_max_offset := v19\<rparr>) \<longleftrightarrow> params_pending conn"
  "params_pending (conn\<lparr>ctx_last_blocked_offset := v20\<rparr>) \<longleftrightarrow> params_pending conn"
  "params_pending (conn\<lparr>ctx_bidi_max_streams := v21\<rparr>) \<longleftrightarrow> params_pending conn"
  "params_pending (conn\<lparr>ctx_bidi_next_stream_id := v22\<rparr>) \<longleftrightarrow> params_pending conn"
  "params_pending (conn\<lparr>ctx_uni_max_streams := v23\<rparr>) \<longleftrightarrow> params_pending conn"
  "params_pending (conn\<lparr>ctx_uni_next_stream_id := v24\<rparr>) \<longleftrightarrow> params_pending conn"
  "params_pending (conn\<lparr>glitch_rlim := v25\<rparr>) \<longleftrightarrow> params_pending conn"
  "params_pending (conn\<lparr>strms := v26\<rparr>) \<longleftrightarrow> params_pending conn"
  "params_pending (conn\<lparr>last_ts := v27\<rparr>) \<longleftrightarrow> params_pending conn"
  "params_pending (conn\<lparr>idle_ts := v28\<rparr>) \<longleftrightarrow> params_pending conn"
  "params_pending (conn\<lparr>strm_store := v30\<rparr>) \<longleftrightarrow> params_pending conn"
  "params_pending (conn\<lparr>conn_next_ptr := v31\<rparr>) \<longleftrightarrow> params_pending conn"
  by (simp_all add: params_pending_def)

lemma strms_ok_frame [simp]:
  "strms_ok (conn\<lparr>conn_mem := v0\<rparr>) \<longleftrightarrow> strms_ok conn"
  "strms_ok (conn\<lparr>conn_user_data := v1\<rparr>) \<longleftrightarrow> strms_ok conn"
  "strms_ok (conn\<lparr>remote_params := v2\<rparr>) \<longleftrightarrow> strms_ok conn"
  "strms_ok (conn\<lparr>bidi_idtr := v3\<rparr>) \<longleftrightarrow> strms_ok conn"
  "strms_ok (conn\<lparr>uni_idtr := v4\<rparr>) \<longleftrightarrow> strms_ok conn"
  "strms_ok (conn\<lparr>vird := v5\<rparr>) \<longleftrightarrow> strms_ok conn"
  "strms_ok (conn\<lparr>rcrd := v6\<rparr>) \<longleftrightarrow> strms_ok conn"
  "strms_ok (conn\<lparr>crx_unsent_max_offset := v7\<rparr>) \<longleftrightarrow> strms_ok conn"
  "strms_ok (conn\<lparr>crx_offset := v8\<rparr>) \<longleftrightarrow> strms_ok conn"
  "strms_ok (conn\<lparr>crx_max_offset := v9\<rparr>) \<longleftrightarrow> strms_ok conn"
  "strms_ok (conn\<lparr>crx_ping_last_seq := v10\<rparr>) \<longleftrightarrow> strms_ok conn"
  "strms_ok (conn\<lparr>crx_ping_last_resp_seq := v11\<rparr>) \<longleftrightarrow> strms_ok conn"
  "strms_ok (conn\<lparr>crx_bidi_unsent_max_streams := v12\<rparr>) \<longleftrightarrow> strms_ok conn"
  "strms_ok (conn\<lparr>crx_bidi_max_streams := v13\<rparr>) \<longleftrightarrow> strms_ok conn"
  "strms_ok (conn\<lparr>crx_uni_unsent_max_streams := v14\<rparr>) \<longleftrightarrow> strms_ok conn"
  "strms_ok (conn\<lparr>crx_uni_max_streams := v15\<rparr>) \<longleftrightarrow> strms_ok conn"
  "strms_ok (conn\<lparr>ctx_strmq := v16\<rparr>) \<longleftrightarrow> strms_ok conn"
  "strms_ok (conn\<lparr>ctx_qre := v17\<rparr>) \<longleftrightarrow> strms_ok conn"
  "strms_ok (conn\<lparr>ctx_offset := v18\<rparr>) \<longleftrightarrow> strms_ok conn"
  "strms_ok (conn\<lparr>ctx_max_offset := v19\<rparr>) \<longleftrightarrow> strms_ok conn"
  "strms_ok (conn\<lparr>ctx_last_blocked_offset := v20\<rparr>) \<longleftrightarrow> strms_ok conn"
  "strms_ok (conn\<lparr>ctx_bidi_max_streams := v21\<rparr>) \<longleftrightarrow> strms_ok conn"
  "strms_ok (conn\<lparr>ctx_bidi_next_stream_id := v22\<rparr>) \<longleftrightarrow> strms_ok conn"
  "strms_ok (conn\<lparr>ctx_uni_max_streams := v23\<rparr>) \<longleftrightarrow> strms_ok conn"
  "strms_ok (conn\<lparr>ctx_uni_next_stream_id := v24\<rparr>) \<longleftrightarrow> strms_ok conn"
  "strms_ok (conn\<lparr>glitch_rlim := v25\<rparr>) \<longleftrightarrow> strms_ok conn"
  "strms_ok (conn\<lparr>last_ts := v27\<rparr>) \<longleftrightarrow> strms_ok conn"
  "strms_ok (conn\<lparr>idle_ts := v28\<rparr>) \<longleftrightarrow> strms_ok conn"
  "strms_ok (conn\<lparr>conn_flags := v29\<rparr>) \<longleftrightarrow> strms_ok conn"
  by (simp_all add: strms_ok_def)

lemma queue_but_frame [simp]:
  "queue_but X (conn\<lparr>conn_mem := v0\<rparr>) \<longleftrightarrow> queue_but X conn"
  "queue_but X (conn\<lparr>conn_user_data := v1\<rparr>) \<longleftrightarrow> queue_but X conn"
  "queue_but X (conn\<lparr>remote_params := v2\<rparr>) \<longleftrightarrow> queue_but X conn"
  "queue_but X (conn\<lparr>bidi_idtr := v3\<rparr>) \<longleftrightarrow> queue_but X conn"
  "queue_but X (conn\<lparr>uni_idtr := v4\<rparr>) \<longleftrightarrow> queue_but X conn"
  "queue_but X (conn\<lparr>vird := v5\<rparr>) \<longleftrightarrow> queue_but X conn"
  "queue_but X (conn\<lparr>rcrd := v6\<rparr>) \<longleftrightarrow> queue_but X conn"
  "queue_but X (conn\<lparr>crx_unsent_max_offset := v7\<rparr>) \<longleftrightarrow> queue_but X conn"
  "queue_but X (conn\<lparr>crx_offset := v8\<rparr>) \<longleftrightarrow> queue_but X conn"
  "queue_but X (conn\<lparr>crx_max_offset := v9\<rparr>) \<longleftrightarrow> queue_but X conn"
  "queue_but X (conn\<lparr>crx_ping_last_seq := v10\<rparr>) \<longleftrightarrow> queue_but X conn"
  "queue_but X (conn\<lparr>crx_ping_last_resp_seq := v11\<rparr>) \<longleftrightarrow> queue_but X conn"
  "queue_but X (conn\<lparr>crx_bidi_unsent_max_streams := v12\<rparr>) \<longleftrightarrow> queue_but X conn"
  "queue_but X (conn\<lparr>crx_bidi_max_streams := v13\<rparr>) \<longleftrightarrow> queue_but X conn"
  "queue_but X (conn\<lparr>crx_uni_unsent_max_streams := v14\<rparr>) \<longleftrightarrow> queue_but X conn"
  "queue_but X (conn\<lparr>crx_uni_max_streams := v15\<rparr>) \<longleftrightarrow> queue_but X conn"
  "queue_but X (conn\<lparr>ctx_qre := v17\<rparr>) \<longleftrightarrow> queue_but X conn"
  "queue_but X (conn\<lparr>ctx_offset := v18\<rparr>) \<longleftrightarrow> queue_but X conn"
  "queue_but X (conn\<lparr>ctx_max_offset := v19\<rparr>) \<longleftrightarrow> queue_but X conn"
  "queue_but X (conn\<lparr>ctx_last_blocked_offset := v20\<rparr>) \<longleftrightarrow> queue_but X conn"
  "queue_but X (conn\<lparr>ctx_bidi_max_streams := v21\<rparr>) \<longleftrightarrow> queue_but X conn"
  "queue_but X (conn\<lparr>ctx_bidi_next_stream_id := v22\<rparr>) \<longleftrightarrow> queue_but X conn"
  "queue_but X (conn\<lparr>ctx_uni_max_streams := v23\<rparr>) \<longleftrightarrow> queue_but X conn"
  "queue_but X (conn\<lparr>ctx_uni_next_stream_id := v24\<rparr>) \<longleftrightarrow> queue_but X conn"
  "queue_but X (conn\<lparr>glitch_rlim := v25\<rparr>) \<longleftrightarrow> queue_but X conn"
  "queue_but X (conn\<lparr>strms := v26\<rparr>) \<longleftrightarrow> queue_but X conn"
  "queue_but X (conn\<lparr>last_ts := v27\<rparr>) \<longleftrightarrow> queue_but X conn"
  "queue_but X (conn\<lparr>idle_ts := v28\<rparr>) \<longleftrightarrow> queue_but X conn"
  "queue_but X (conn\<lparr>conn_flags := v29\<rparr>) \<longleftrightarrow> queue_but X conn"
  "queue_but X (conn\<lparr>conn_next_ptr := v31\<rparr>) \<longleftrightarrow> queue_but X conn"
  by (simp_all add: queue_but_def)

lemma ids_ok_frame [simp]:
  "ids_ok (conn\<lparr>conn_mem := v0\<rparr>) \<longleftrightarrow> ids_ok conn"
  "ids_ok (conn\<lparr>conn_user_data := v1\<rparr>) \<longleftrightarrow> ids_ok conn"
  "ids_ok (conn\<lparr>remote_params := v2\<rparr>) \<longleftrightarrow> ids_ok conn"
  "ids_ok (conn\<lparr>vird := v5\<rparr>) \<longleftrightarrow> ids_ok conn"
  "ids_ok (conn\<lparr>rcrd := v6\<rparr>) \<longleftrightarrow> ids_ok conn"
  "ids_ok (conn\<lparr>crx_unsent_max_offset := v7\<rparr>) \<longleftrightarrow> ids_ok conn"
  "ids_ok (conn\<lparr>crx_offset := v8\<rparr>) \<longleftrightarrow> ids_ok conn"
  "ids_ok (conn\<lparr>crx_max_offset := v9\<rparr>) \<longleftrightarrow> ids_ok conn"
  "ids_ok (conn\<lparr>crx_ping_last_seq := v10\<rparr>) \<longleftrightarrow> ids_ok conn"
  "ids_ok (conn\<lparr>crx_ping_last_resp_seq := v11\<rparr>) \<longleftrightarrow> ids_ok conn"
  "ids_ok (conn\<lparr>crx_bidi_unsent_max_streams := v12\<rparr>) \<longleftrightarrow> ids_ok conn"
  "ids_ok (conn\<lparr>crx_bidi_max_streams := v13\<rparr>) \<longleftrightarrow> ids_ok conn"
  "ids_ok (conn\<lparr>crx_uni_unsent_max_streams := v14\<rparr>) \<longleftrightarrow> ids_ok conn"
  "ids_ok (conn\<lparr>crx_uni_max_streams := v15\<rparr>) \<longleftrightarrow> ids_ok conn"
  "ids_ok (conn\<lparr>ctx_strmq := v16\<rparr>) \<longleftrightarrow> ids_ok conn"
  "ids_ok (conn\<lparr>ctx_qre := v17\<rparr>) \<longleftrightarrow> ids_ok conn"
  "ids_ok (conn\<lparr>ctx_offset := v18\<rparr>) \<longleftrightarrow> ids_ok conn"
  "ids_ok (conn\<lparr>ctx_max_offset := v19\<rparr>) \<longleftrightarrow> ids_ok conn"
  "ids_ok (conn\<lparr>ctx_last_blocked_offset := v20\<rparr>) \<longleftrightarrow> ids_ok conn"
  "ids_ok (conn\<lparr>glitch_rlim := v25\<rparr>) \<longleftrightarrow> ids_ok conn"
  "ids_ok (conn\<lparr>strms := v26\<rparr>) \<longleftrightarrow> ids_ok conn"
  "ids_ok (conn\<lparr>last_ts := v27\<rparr>) \<longleftrightarrow> ids_ok conn"
  "ids_ok (conn\<lparr>idle_ts := v28\<rparr>) \<longleftrightarrow> ids_ok conn"
  "ids_ok (conn\<lparr>conn_flags := v29\<rparr>) \<longleftrightarrow> ids_ok conn"
  "ids_ok (conn\<lparr>conn_next_ptr := v31\<rparr>) \<longleftrightarrow> ids_ok conn"
  by (simp_all add: ids_ok_def)

lemma flow_ok_frame [simp]:
  "flow_ok (conn\<lparr>conn_mem := v0\<rparr>) \<longleftrightarrow> flow_ok conn"
  "flow_ok (conn\<lparr>conn_user_data := v1\<rparr>) \<longleftrightarrow> flow_ok conn"
  "flow_ok (conn\<lparr>remote_params := v2\<rparr>) \<longleftrightarrow> flow_ok conn"
  "flow_ok (conn\<lparr>bidi_idtr := v3\<rparr>) \<longleftrightarrow> flow_ok conn"
  "flow_ok (conn\<lparr>uni_idtr := v4\<rparr>) \<longleftrightarrow> flow_ok conn"
  "flow_ok (conn\<lparr>vird := v5\<rparr>) \<longleftrightarrow> flow_ok conn"
  "flow_ok (conn\<lparr>rcrd := v6\<rparr>) \<longleftrightarrow> flow_ok conn"
  "flow_ok (conn\<lparr>crx_ping_last_seq := v10\<rparr>) \<longleftrightarrow> flow_ok conn"
  "flow_ok (conn\<lparr>crx_ping_last_resp_seq := v11\<rparr>) \<longleftrightarrow> flow_ok conn"
  "flow_ok (conn\<lparr>ctx_strmq := v16\<rparr>) \<longleftrightarrow> flow_ok conn"
  "flow_ok (conn\<lparr>ctx_qre := v17\<rparr>) \<longleftrightarrow> flow_ok conn"
  "flow_ok (conn\<lparr>ctx_last_blocked_offset := v20\<rparr>) \<longleftrightarrow> flow_ok conn"
  "flow_ok (conn\<lparr>ctx_bidi_max_streams := v21\<rparr>) \<longleftrightarrow> flow_ok conn"
  "flow_ok (conn\<lparr>ctx_bidi_next_stream_id := v22\<rparr>) \<longleftrightarrow> flow_ok conn"
  "flow_ok (conn\<lparr>ctx_uni_max_streams := v23\<rparr>) \<longleftrightarrow> flow_ok conn"
  "flow_ok (conn\<lparr>ctx_uni_next_stream_id := v24\<rparr>) \<longleftrightarrow> flow_ok conn"
  "flow_ok (conn\<lparr>glitch_rlim := v25\<rparr>) \<longleftrightarrow> flow_ok conn"
  "flow_ok (conn\<lparr>strms := v26\<rparr>) \<longleftrightarrow> flow_ok conn"
  "flow_ok (conn\<lparr>last_ts := v27\<rparr>) \<longleftrightarrow> flow_ok conn"
  "flow_ok (conn\<lparr>idle_ts := v28\<rparr>) \<longleftrightarrow> flow_ok conn"
  "flow_ok (conn\<lparr>conn_flags := v29\<rparr>) \<longleftrightarrow> flow_ok conn"
  "flow_ok (conn\<lparr>strm_store := v30\<rparr>) \<longleftrightarrow> flow_ok conn"
  "flow_ok (conn\<lparr>conn_next_ptr := v31\<rparr>) \<longleftrightarrow> flow_ok conn"
  by (simp_all add: flow_ok_def)

lemma params_ok_frame [simp]:
  "params_ok (conn\<lparr>conn_mem := v0\<rparr>) \<longleftrightarrow> params_ok conn"
  "params_ok (conn\<lparr>conn_user_data := v1\<rparr>) \<longleftrightarrow> params_ok conn"
  "params_ok (conn\<lparr>bidi_idtr := v3\<rparr>) \<longleftrightarrow> params_ok conn"
  "params_ok (conn\<lparr>uni_idtr := v4\<rparr>) \<longleftrightarrow> params_ok conn"
  "params_ok (conn\<lparr>vird := v5\<rparr>) \<longleftrightarrow> params_ok conn"
  "params_ok (conn\<lparr>rcrd := v6\<rparr>) \<longleftrightarrow> params_ok conn"
  "params_ok (conn\<lparr>crx_unsent_max_offset := v7\<rparr>) \<longleftrightarrow> params_ok conn"
  "params_ok (conn\<lparr>crx_offset := v8\<rparr>) \<longleftrightarrow> params_ok conn"
  "params_ok (conn\<lparr>crx_max_offset := v9\<rparr>) \<longleftrightarrow> params_ok conn"
  "params_ok (conn\<lparr>crx_ping_last_seq := v10\<rparr>) \<longleftrightarrow> params_ok conn"
  "params_ok (conn\<lparr>crx_ping_last_resp_seq := v11\<rparr>) \<longleftrightarrow> params_ok conn"
  "params_ok (conn\<lparr>crx_bidi_unsent_max_streams := v12\<rparr>) \<longleftrightarrow> params_ok conn"
  "params_ok (conn\<lparr>crx_bidi_max_streams := v13\<rparr>) \<longleftrightarrow> params_ok conn"
  "params_ok (conn\<lparr>crx_uni_unsent_max_streams := v14\<rparr>) \<longleftrightarrow> params_ok conn"
  "params_ok (conn\<lparr>crx_uni_max_streams := v15\<rparr>) \<longleftrightarrow> params_ok conn"
  "params_ok (conn\<lparr>ctx_strmq := v16\<rparr>) \<longleftrightarrow> params_ok conn"
  "params_ok (conn\<lparr>ctx_qre := v17\<rparr>) \<longleftrightarrow> params_ok conn"
  "params_ok (conn\<lparr>ctx_offset := v18\<rparr>) \<longleftrightarrow> params_ok conn"
  "params_ok (conn\<lparr>ctx_max_offset := v19\<rparr>) \<longleftrightarrow> params_ok conn"
  "params_ok (conn\<lparr>ctx_last_blocked_offset := v20\<rparr>) \<longleftrightarrow> params_ok conn"
  "params_ok (conn\<lparr>ctx_bidi_max_streams := v21\<rparr>) \<longleftrightarrow> params_ok conn"
  "params_ok (conn\<lparr>ctx_bidi_next_stream_id := v22\<rparr>) \<longleftrightarrow> params_ok conn"
  "params_ok (conn\<lparr>ctx_uni_max_streams := v23\<rparr>) \<longleftrightarrow> params_ok conn"
  "params_ok (conn\<lparr>ctx_uni_next_stream_id := v24\<rparr>) \<longleftrightarrow> params_ok conn"
  "params_ok (conn\<lparr>glitch_rlim := v25\<rparr>) \<longleftrightarrow> params_ok conn"
  "params_ok (conn\<lparr>strms := v26\<rparr>) \<longleftrightarrow> params_ok conn"
  "params_ok (conn\<lparr>last_ts := v27\<rparr>) \<longleftrightarrow> params_ok conn"
  "params_ok (conn\<lparr>idle_ts := v28\<rparr>) \<longleftrightarrow> params_ok conn"
  "params_ok (conn\<lparr>conn_flags := v29\<rparr>) \<longleftrightarrow> params_ok conn"
  "params_ok (conn\<lparr>strm_store := v30\<rparr>) \<longleftrightarrow> params_ok conn"
  "params_ok (conn\<lparr>conn_next_ptr := v31\<rparr>) \<longleftrightarrow> params_ok conn"
  by (simp_all add: params_ok_def)

lemma time_ok_frame [simp]:
  "time_ok (conn\<lparr>conn_mem := v0\<rparr>) \<longleftrightarrow> time_ok conn"
  "time_ok (conn\<lparr>conn_user_data := v1\<rparr>) \<longleftrightarrow> time_ok conn"
  "time_ok (conn\<lparr>remote_params := v2\<rparr>) \<longleftrightarrow> time_ok conn"
  "time_ok (conn\<lparr>bidi_idtr := v3\<rparr>) \<longleftrightarrow> time_ok conn"
  "time_ok (conn\<lparr>uni_idtr := v4\<rparr>) \<longleftrightarrow> time_ok conn"
  "time_ok (conn\<lparr>vird := v5\<rparr>) \<longleftrightarrow> time_ok conn"
  "time_ok (conn\<lparr>rcrd := v6\<rparr>) \<longleftrightarrow> time_ok conn"
  "time_ok (conn\<lparr>crx_unsent_max_offset := v7\<rparr>) \<longleftrightarrow> time_ok conn"
  "time_ok (conn\<lparr>crx_offset := v8\<rparr>) \<longleftrightarrow> time_ok conn"
  "time_ok (conn\<lparr>crx_max_offset := v9\<rparr>) \<longleftrightarrow> time_ok conn"
  "time_ok (conn\<lparr>crx_ping_last_seq := v10\<rparr>) \<longleftrightarrow> time_ok conn"
  "time_ok (conn\<lparr>crx_ping_last_resp_seq := v11\<rparr>) \<longleftrightarrow> time_ok conn"
  "time_ok (conn\<lparr>crx_bidi_unsent_max_streams := v12\<rparr>) \<longleftrightarrow> time_ok conn"
  "time_ok (conn\<lparr>crx_bidi_max_streams := v13\<rparr>) \<longleftrightarrow> time_ok conn"
  "time_ok (conn\<lparr>crx_uni_unsent_max_streams := v14\<rparr>) \<longleftrightarrow> time_ok conn"
  "time_ok (conn\<lparr>crx_uni_max_streams := v15\<rparr>) \<longleftrightarrow> time_ok conn"
  "time_ok (conn\<lparr>ctx_strmq := v16\<rparr>) \<longleftrightarrow> time_ok conn"
  "time_ok (conn\<lparr>ctx_qre := v17\<rparr>) \<longleftrightarrow> time_ok conn"
  "time_ok (conn\<lparr>ctx_offset := v18\<rparr>) \<longleftrightarrow> time_ok conn"
  "time_ok (conn\<lparr>ctx_max_offset := v19\<rparr>) \<longleftrightarrow> time_ok conn"
  "time_ok (conn\<lparr>ctx_last_blocked_offset := v20\<rparr>) \<longleftrightarrow> time_ok conn"
  "time_ok (conn\<lparr>ctx_bidi_max_streams := v21\<rparr>) \<longleftrightarrow> time_ok conn"
  "time_ok (conn\<lparr>ctx_bidi_next_stream_id := v22\<rparr>) \<longleftrightarrow> time_ok conn"
  "time_ok (conn\<lparr>ctx_uni_max_streams := v23\<rparr>) \<longleftrightarrow> time_ok conn"
  "time_ok (conn\<lparr>ctx_uni_next_stream_id := v24\<rparr>) \<longleftrightarrow> time_ok conn"
  "time_ok (conn\<lparr>strms := v26\<rparr>) \<longleftrightarrow> time_ok conn"
  "time_ok (conn\<lparr>conn_flags := v29\<rparr>) \<longleftrightarrow> time_ok conn"
  "time_ok (conn\<lparr>strm_store := v30\<rparr>) \<longleftrightarrow> time_ok conn"
  "time_ok (conn\<lparr>conn_next_ptr := v31\<rparr>) \<longleftrightarrow> time_ok conn"
  by (simp_all add: time_ok_def)

lemma out_ok_frame [simp]:
  "out_ok (conn\<lparr>conn_mem := v0\<rparr>) \<longleftrightarrow> out_ok conn"
  "out_ok (conn\<lparr>conn_user_data := v1\<rparr>) \<longleftrightarrow> out_ok conn"
  "out_ok (conn\<lparr>remote_params := v2\<rparr>) \<longleftrightarrow> out_ok conn"
  "out_ok (conn\<lparr>bidi_idtr := v3\<rparr>) \<longleftrightarrow> out_ok conn"
  "out_ok (conn\<lparr>uni_idtr := v4\<rparr>) \<longleftrightarrow> out_ok conn"
  "out_ok (conn\<lparr>vird := v5\<rparr>) \<longleftrightarrow> out_ok conn"
  "out_ok (conn\<lparr>rcrd := v6\<rparr>) \<longleftrightarrow> out_ok conn"
  "out_ok (conn\<lparr>crx_unsent_max_offset := v7\<rparr>) \<longleftrightarrow> out_ok conn"
  "out_ok (conn\<lparr>crx_offset := v8\<rparr>) \<longleftrightarrow> out_ok conn"
  "out_ok (conn\<lparr>crx_max_offset := v9\<rparr>) \<longleftrightarrow> out_ok conn"
  "out_ok (conn\<lparr>crx_bidi_unsent_max_streams := v12\<rparr>) \<longleftrightarrow> out_ok conn"
  "out_ok (conn\<lparr>crx_bidi_max_streams := v13\<rparr>) \<longleftrightarrow> out_ok conn"
  "out_ok (conn\<lparr>crx_uni_unsent_max_streams := v14\<rparr>) \<longleftrightarrow> out_ok conn"
  "out_ok (conn\<lparr>crx_uni_max_streams := v15\<rparr>) \<longleftrightarrow> out_ok conn"
  "out_ok (conn\<lparr>ctx_strmq := v16\<rparr>) \<longleftrightarrow> out_ok conn"
  "out_ok (conn\<lparr>ctx_offset := v18\<rparr>) \<longleftrightarrow> out_ok conn"
  "out_ok (conn\<lparr>ctx_max_offset := v19\<rparr>) \<longleftrightarrow> out_ok conn"
  "out_ok (conn\<lparr>ctx_last_blocked_offset := v20\<rparr>) \<longleftrightarrow> out_ok conn"
  "out_ok (conn\<lparr>ctx_bidi_max_streams := v21\<rparr>) \<longleftrightarrow> out_ok conn"
  "out_ok (conn\<lparr>ctx_bidi_next_stream_id := v22\<rparr>) \<longleftrightarrow> out_ok conn"
  "out_ok (conn\<lparr>ctx_uni_max_streams := v23\<rparr>) \<longleftrightarrow> out_ok conn"
  "out_ok (conn\<lparr>ctx_uni_next_stream_id := v24\<rparr>) \<longleftrightarrow> out_ok conn"
  "out_ok (conn\<lparr>strms := v26\<rparr>) \<longleftrightarrow> out_ok conn"
  "out_ok (conn\<lparr>conn_flags := v29\<rparr>) \<longleftrightarrow> out_ok conn"
  "out_ok (conn\<lparr>strm_store := v30\<rparr>) \<longleftrightarrow> out_ok conn"
  "out_ok (conn\<lparr>conn_next_ptr := v31\<rparr>) \<longleftrightarrow> out_ok conn"
  "out_ok (conn\<lparr>glitch_rlim := w0\<rparr>) \<longleftrightarrow> out_ok conn"
  "out_ok (conn\<lparr>last_ts := w1\<rparr>) \<longleftrightarrow> out_ok conn"
  "out_ok (conn\<lparr>idle_ts := w2\<rparr>) \<longleftrightarrow> out_ok conn"
  by (simp_all add: out_ok_def)

lemma early_ok_frame [simp]:
  "early_ok (conn\<lparr>conn_mem := v0\<rparr>) \<longleftrightarrow> early_ok conn"
  "early_ok (conn\<lparr>conn_user_data := v1\<rparr>) \<longleftrightarrow> early_ok conn"
  "early_ok (conn\<lparr>bidi_idtr := v3\<rparr>) \<longleftrightarrow> early_ok conn"
  "early_ok (conn\<lparr>uni_idtr := v4\<rparr>) \<longleftrightarrow> early_ok conn"
  "early_ok (conn\<lparr>vird := v5\<rparr>) \<longleftrightarrow> early_ok conn"
  "early_ok (conn\<lparr>crx_unsent_max_offset := v7\<rparr>) \<longleftrightarrow> early_ok conn"
  "early_ok (conn\<lparr>crx_offset := v8\<rparr>) \<longleftrightarrow> early_ok conn"
  "early_ok (conn\<lparr>crx_max_offset := v9\<rparr>) \<longleftrightarrow> early_ok conn"
  "early_ok (conn\<lparr>crx_ping_last_seq := v10\<rparr>) \<longleftrightarrow> early_ok conn"
  "early_ok (conn\<lparr>crx_ping_last_resp_seq := v11\<rparr>) \<longleftrightarrow> early_ok conn"
  "early_ok (conn\<lparr>crx_bidi_unsent_max_streams := v12\<rparr>) \<longleftrightarrow> early_ok conn"
  "early_ok (conn\<lparr>crx_bidi_max_streams := v13\<rparr>) \<longleftrightarrow> early_ok conn"
  "early_ok (conn\<lparr>crx_uni_unsent_max_streams := v14\<rparr>) \<longleftrightarrow> early_ok conn"
  "early_ok (conn\<lparr>crx_uni_max_streams := v15\<rparr>) \<longleftrightarrow> early_ok conn"
  "early_ok (conn\<lparr>ctx_strmq := v16\<rparr>) \<longleftrightarrow> early_ok conn"
  "early_ok (conn\<lparr>ctx_qre := v17\<rparr>) \<longleftrightarrow> early_ok conn"
  "early_ok (conn\<lparr>ctx_last_blocked_offset := v20\<rparr>) \<longleftrightarrow> early_ok conn"
  "early_ok (conn\<lparr>ctx_bidi_max_streams := v21\<rparr>) \<longleftrightarrow> early_ok conn"
  "early_ok (conn\<lparr>ctx_bidi_next_stream_id := v22\<rparr>) \<longleftrightarrow> early_ok conn"
  "early_ok (conn\<lparr>ctx_uni_max_streams := v23\<rparr>) \<longleftrightarrow> early_ok conn"
  "early_ok (conn\<lparr>ctx_uni_next_stream_id := v24\<rparr>) \<longleftrightarrow> early_ok conn"
  "early_ok (conn\<lparr>glitch_rlim := v25\<rparr>) \<longleftrightarrow> early_ok conn"
  "early_ok (conn\<lparr>strms := v26\<rparr>) \<longleftrightarrow> early_ok conn"
  "early_ok (conn\<lparr>last_ts := v27\<rparr>) \<longleftrightarrow> early_ok conn"
  "early_ok (conn\<lparr>idle_ts := v28\<rparr>) \<longleftrightarrow> early_ok conn"
  "early_ok (conn\<lparr>conn_next_ptr := v31\<rparr>) \<longleftrightarrow> early_ok conn"
  by (simp_all add: early_ok_def)

lemma same_reader_frame [simp]:
  "same_reader c (conn\<lparr>conn_mem := v0\<rparr>) \<longleftrightarrow> same_reader c conn"
  "same_reader c (conn\<lparr>conn_user_data := v1\<rparr>) \<longleftrightarrow> same_reader c conn"
  "same_reader c (conn\<lparr>remote_params := v2\<rparr>) \<longleftrightarrow> same_reader c conn"
  "same_reader c (conn\<lparr>bidi_idtr := v3\<rparr>) \<longleftrightarrow> same_reader c conn"
  "same_reader c (conn\<lparr>uni_idtr := v4\<rparr>) \<longleftrightarrow> same_reader c conn"
  "same_reader c (conn\<lparr>crx_unsent_max_offset := v7\<rparr>) \<longleftrightarrow> same_reader c conn"
  "same_reader c (conn\<lparr>crx_offset := v8\<rparr>) \<longleftrightarrow> same_reader c conn"
  "same_reader c (conn\<lparr>crx_max_offset := v9\<rparr>) \<longleftrightarrow> same_reader c conn"
  "same_reader c (conn\<lparr>crx_ping_last_seq := v10\<rparr>) \<longleftrightarrow> same_reader c conn"
  "same_reader c (conn\<lparr>crx_ping_last_resp_seq := v11\<rparr>) \<longleftrightarrow> same_reader c conn"
  "same_reader c (conn\<lparr>crx_bidi_unsent_max_streams := v12\<rparr>) \<longleftrightarrow> same_reader c conn"
  "same_reader c (conn\<lparr>crx_bidi_max_streams := v13\<rparr>) \<longleftrightarrow> same_reader c conn"
  "same_reader c (conn\<lparr>crx_uni_unsent_max_streams := v14\<rparr>) \<longleftrightarrow> same_reader c conn"
  "same_reader c (conn\<lparr>crx_uni_max_streams := v15\<rparr>) \<longleftrightarrow> same_reader c conn"
  "same_reader c (conn\<lparr>ctx_strmq := v16\<rparr>) \<longleftrightarrow> same_reader c conn"
  "same_reader c (conn\<lparr>ctx_qre := v17\<rparr>) \<longleftrightarrow> same_reader c conn"
  "same_reader c (conn\<lparr>ctx_offset := v18\<rparr>) \<longleftrightarrow> same_reader c conn"
  "same_reader c (conn\<lparr>ctx_max_offset := v19\<rparr>) \<longleftrightarrow> same_reader c conn"
  "same_reader c (conn\<lparr>ctx_last_blocked_offset := v20\<rparr>) \<longleftrightarrow> same_reader c conn"
  "same_reader c (conn\<lparr>ctx_bidi_max_streams := v21\<rparr>) \<longleftrightarrow> same_reader c conn"
  "same_reader c (conn\<lparr>ctx_bidi_next_stream_id := v22\<rparr>) \<longleftrightarrow> same_reader c conn"
  "same_reader c (conn\<lparr>ctx_uni_max_streams := v23\<rparr>) \<longleftrightarrow> same_reader c conn"
  "same_reader c (conn\<lparr>ctx_uni_next_stream_id := v24\<rparr>) \<longleftrightarrow> same_reader c conn"
  "same_reader c (conn\<lparr>glitch_rlim := v25\<rparr>) \<longleftrightarrow> same_reader c conn"
  "same_reader c (conn\<lparr>strms := v26\<rparr>) \<longleftrightarrow> same_reader c conn"
  "same_reader c (conn\<lparr>idle_ts := v28\<rparr>) \<longleftrightarrow> same_reader c conn"
  "same_reader c (conn\<lparr>strm_store := v30\<rparr>) \<longleftrightarrow> same_reader c conn"
  "same_reader c (conn\<lparr>conn_next_ptr := v31\<rparr>) \<longleftrightarrow> same_reader c conn"
  by (simp_all add: same_reader_def)

lemma strms_kept_frame [simp]:
  "strms_kept X c (conn\<lparr>conn_mem := v0\<rparr>) \<longleftrightarrow> strms_kept X c conn"
  "strms_kept X c (conn\<lparr>conn_user_data := v1\<rparr>) \<longleftrightarrow> strms_kept X c conn"
  "strms_kept X c (conn\<lparr>remote_params := v2\<rparr>) \<longleftrightarrow> strms_kept X c conn"
  "strms_kept X c (conn\<lparr>bidi_idtr := v3\<rparr>) \<longleftrightarrow> strms_kept X c conn"
  "strms_kept X c (conn\<lparr>uni_idtr := v4\<rparr>) \<longleftrightarrow> strms_kept X c conn"
  "strms_kept X c (conn\<lparr>vird := v5\<rparr>) \<longleftrightarrow> strms_kept X c conn"
  "strms_kept X c (conn\<lparr>rcrd := v6\<rparr>) \<longleftrightarrow> strms_kept X c conn"
  "strms_kept X c (conn\<lparr>crx_unsent_max_offset := v7\<rparr>) \<longleftrightarrow> strms_kept X c conn"
  "strms_kept X c (conn\<lparr>crx_offset := v8\<rparr>) \<longleftrightarrow> strms_kept X c conn"
  "strms_kept X c (conn\<lparr>crx_max_offset := v9\<rparr>) \<longleftrightarrow> strms_kept X c conn"
  "strms_kept X c (conn\<lparr>crx_ping_last_seq := v10\<rparr>) \<longleftrightarrow> strms_kept X c conn"
  "strms_kept X c (conn\<lparr>crx_ping_last_resp_seq := v11\<rparr>) \<longleftrightarrow> strms_kept X c conn"
  "strms_kept X c (conn\<lparr>crx_bidi_unsent_max_streams := v12\<rparr>) \<longleftrightarrow> strms_kept X c conn"
  "strms_kept X c (conn\<lparr>crx_bidi_max_streams := v13\<rparr>) \<longleftrightarrow> strms_kept X c conn"
  "strms_kept X c (conn\<lparr>crx_uni_unsent_max_streams := v14\<rparr>) \<longleftrightarrow> strms_kept X c conn"
  "strms_kept X c (conn\<lparr>crx_uni_max_streams := v15\<rparr>) \<longleftrightarrow> strms_kept X c conn"
  "strms_kept X c (conn\<lparr>ctx_strmq := v16\<rparr>) \<longleftrightarrow> strms_kept X c conn"
  "strms_kept X c (conn\<lparr>ctx_qre := v17\<rparr>) \<longleftrightarrow> strms_kept X c conn"
  "strms_kept X c (conn\<lparr>ctx_offset := v18\<rparr>) \<longleftrightarrow> strms_kept X c conn"
  "strms_kept X c (conn\<lparr>ctx_max_offset := v19\<rparr>) \<longleftrightarrow> strms_kept X c conn"
  "strms_kept X c (conn\<lparr>ctx_last_blocked_offset := v20\<rparr>) \<longleftrightarrow> strms_kept X c conn"
  "strms_kept X c (conn\<lparr>ctx_bidi_max_streams := v21\<rparr>) \<longleftrightarrow> strms_kept X c conn"
  "strms_kept X c (conn\<lparr>ctx_bidi_next_stream_id := v22\<rparr>) \<longleftrightarrow> strms_kept X c conn"
  "strms_kept X c (conn\<lparr>ctx_uni_max_streams := v23\<rparr>) \<longleftrightarrow> strms_kept X c conn"
  "strms_kept X c (conn\<lparr>ctx_uni_next_stream_id := v24\<rparr>) \<longleftrightarrow> strms_kept X c conn"
  "strms_kept X c (conn\<lparr>glitch_rlim := v25\<rparr>) \<longleftrightarrow> strms_kept X c conn"
  "strms_kept X c (conn\<lparr>strms := v26\<rparr>) \<longleftrightarrow> strms_kept X c conn"
  "strms_kept X c (conn\<lparr>last_ts := v27\<rparr>) \<longleftrightarrow> strms_kept X c conn"
  "strms_kept X c (conn\<lparr>idle_ts := v28\<rparr>) \<longleftrightarrow> strms_kept X c conn"
  "strms_kept X c (conn\<lparr>conn_flags := v29\<rparr>) \<longleftrightarrow> strms_kept X c conn"
  "strms_kept X c (conn\<lparr>conn_next_ptr := v31\<rparr>) \<longleftrightarrow> strms_kept X c conn"
  by (simp_all add: strms_kept_def)

lemma kept_but_frame [simp]:
  "kept_but X c (conn\<lparr>conn_mem := v0\<rparr>) \<longleftrightarrow> kept_but X c conn"
  "kept_but X c (conn\<lparr>conn_user_data := v1\<rparr>) \<longleftrightarrow> kept_but X c conn"
  "kept_but X c (conn\<lparr>bidi_idtr := v3\<rparr>) \<longleftrightarrow> kept_but X c conn"
  "kept_but X c (conn\<lparr>uni_idtr := v4\<rparr>) \<longleftrightarrow> kept_but X c conn"
  "kept_but X c (conn\<lparr>crx_unsent_max_offset := v7\<rparr>) \<longleftrightarrow> kept_but X c conn"
  "kept_but X c (conn\<lparr>crx_ping_last_seq := v10\<rparr>) \<longleftrightarrow> kept_but X c conn"
  "kept_but X c (conn\<lparr>crx_ping_last_resp_seq := v11\<rparr>) \<longleftrightarrow> kept_but X c conn"
  "kept_but X c (conn\<lparr>crx_bidi_unsent_max_streams := v12\<rparr>) \<longleftrightarrow> kept_but X c conn"
  "kept_but X c (conn\<lparr>crx_bidi_max_streams := v13\<rparr>) \<longleftrightarrow> kept_but X c conn"
  "kept_but X c (conn\<lparr>crx_uni_unsent_max_streams := v14\<rparr>) \<longleftrightarrow> kept_but X c conn"
  "kept_but X c (conn\<lparr>crx_uni_max_streams := v15\<rparr>) \<longleftrightarrow> kept_but X c conn"
  "kept_but X c (conn\<lparr>ctx_strmq := v16\<rparr>) \<longleftrightarrow> kept_but X c conn"
  "kept_but X c (conn\<lparr>ctx_last_blocked_offset := v20\<rparr>) \<longleftrightarrow> kept_but X c conn"
  "kept_but X c (conn\<lparr>ctx_bidi_next_stream_id := v22\<rparr>) \<longleftrightarrow> kept_but X c conn"
  "kept_but X c (conn\<lparr>ctx_uni_next_stream_id := v24\<rparr>) \<longleftrightarrow> kept_but X c conn"
  "kept_but X c (conn\<lparr>glitch_rlim := v25\<rparr>) \<longleftrightarrow> kept_but X c conn"
  "kept_but X c (conn\<lparr>idle_ts := v28\<rparr>) \<longleftrightarrow> kept_but X c conn"
  "kept_but X c (conn\<lparr>conn_next_ptr := v31\<rparr>) \<longleftrightarrow> kept_but X c conn"
  by (simp_all add: kept_but_def)

text \<open>The relations between two states.\<close>

lemma strm_kept_refl [simp]: "strm_kept s s"
  by (simp add: strm_kept_def)

lemma same_reader_refl [simp]: "same_reader conn conn"
  by (simp add: same_reader_def)

lemma same_reader_trans: "same_reader a b \<Longrightarrow> same_reader b c \<Longrightarrow> same_reader a c"
  by (simp add: same_reader_def)

lemma kept_refl [simp]: "kept_but X conn conn"
  by (simp add: kept_but_def strms_kept_def)

lemma strm_kept_trans: "strm_kept r s \<Longrightarrow> strm_kept s t \<Longrightarrow> strm_kept r t"
  by (simp add: strm_kept_def)

lemma strms_kept_trans: "strms_kept X a b \<Longrightarrow> strms_kept X b c \<Longrightarrow> strms_kept X a c"
  unfolding strms_kept_def using strm_kept_trans by blast

lemma kept_trans: "kept_but X a b \<Longrightarrow> kept_but X b c \<Longrightarrow> kept_but X a c"
  using strms_kept_trans [of X a b c] by (simp add: kept_but_def same_reader_def)

lemma kept_mono: "kept_but X a b \<Longrightarrow> X \<subseteq> Y \<Longrightarrow> kept_but Y a b"
  by (auto simp: kept_but_def strms_kept_def)

lemma kept_same_reader: "kept_but X a b \<Longrightarrow> same_reader a b"
  by (simp add: kept_but_def)

lemma kept_strm:
  "kept_but X conn conn' \<Longrightarrow> p \<notin> X \<Longrightarrow> strm_store conn p = Some s \<Longrightarrow> \<exists>s'. strm_store conn' p = Some s' \<and> strm_kept s s'"
  by (simp add: kept_but_def strms_kept_def)

lemma strm_kept_index [simp]: "strm_kept s (s\<lparr>pe_index := i\<rparr>)"
  by (simp add: strm_kept_def strm_has_def)

lemma queue_changed_kept: "queue_changed conn conn' \<Longrightarrow> kept_but X conn conn'"
  by (auto simp: queue_changed_def kept_but_def same_reader_def strms_kept_def put_index_Some)

lemma upd_strm_kept: "strm_store conn p = Some s \<Longrightarrow> strm_kept s (f s) \<Longrightarrow> kept conn (upd_strm p f conn)"
  by (auto simp: kept_but_def same_reader_def strms_kept_def)

definition stays_ok :: "('a, 'u) dwnx_conn \<Rightarrow> ('a, 'u) dwnx_conn \<Rightarrow> bool" where
  "stays_ok conn conn' \<longleftrightarrow> conn_ok conn' \<and> kept conn conn'"

lemma stays_ok_trans: "stays_ok a b \<Longrightarrow> stays_ok b c \<Longrightarrow> stays_ok a c"
  using kept_trans [of "{}" a b c] by (simp add: stays_ok_def)

lemma stays_ok_refl: "conn_ok conn \<Longrightarrow> stays_ok conn conn"
  by (simp add: stays_ok_def)

lemma upd_strm_stays_ok:
  "conn_ok conn \<Longrightarrow> strm_store conn p = Some s \<Longrightarrow> strm_step f s \<Longrightarrow> strm_kept s (f s) \<Longrightarrow>
   stays_ok conn (upd_strm p f conn)"
  by (simp add: stays_ok_def upd_strm_ok upd_strm_kept)

lemma push_if_not_stays_ok:
  assumes "conn_ok conn" and "strm_store conn p \<noteq> None"
  shows "wp (dwnx_conn_tx_strmq_push_if_not conn p) (\<lambda>_. stays_ok conn) (\<lambda>e conn'. e = ERR_NOMEM \<and> stays_ok conn conn')"
  by (rule wp_mono [OF push_if_not_wp [OF conn_okD(1,2) [OF assms(1)] assms(2)]])
    (simp_all add: stays_ok_def queue_changed_kept queue_changed_ok [OF assms(1)])

end
