(* ===== verification/ConnWrite.thy ===== *)
theory ConnWrite
  imports ConnRecv
begin

text \<open>
  \<open>lib/dwnx_conn.c\<close>, third part: shutting streams down, opening streams, and writing records.

  A function with a pointer \<open>pdatalen\<close> or \<open>paccepted\<close> for a second result keeps the number it
  points to beside the connection, since it is set on some of the error returns too. The bytes of a
  record are the contents of the buffer of the record encoder. The loop over the queue of streams
  in \<open>dwnx_conn_write_ctrl_frames\<close> takes the number of its rounds as an argument, \<open>fuel\<close>: a callback
  could keep it running by queueing streams.
\<close>

section \<open>Shutting streams down\<close>

definition conn_shutdown_stream_write :: "('a, 'u) dwnx_conn \<Rightarrow> strm_ptr \<Rightarrow> u64 \<Rightarrow> ('a, 'u, unit) conn_res" where
  "conn_shutdown_stream_write conn p app_error_code =
     with_strm conn p (\<lambda>strm.
       if strm_has strm DWNX_STRM_FLAG_SHUT_WR then SOk () conn
       else conn_reset_stream (upd_strm p (strm_set (DWNX_STRM_FLAG_SHUT_WR OR DWNX_STRM_FLAG_RESET_STREAM)) conn) p
              app_error_code)"

definition conn_shutdown_stream_read :: "('a, 'u) dwnx_conn \<Rightarrow> strm_ptr \<Rightarrow> u64 \<Rightarrow> ('a, 'u, unit) conn_res" where
  "conn_shutdown_stream_read conn p app_error_code =
     with_strm conn p (\<lambda>strm.
       if strm_has strm (DWNX_STRM_FLAG_STOP_SENDING OR DWNX_STRM_FLAG_SHUT_RD) then SOk () conn
       else conn_stop_sending (upd_strm p (strm_set DWNX_STRM_FLAG_STOP_SENDING) conn) p app_error_code)"

definition dwnx_conn_shutdown_stream :: "('a, 'u) dwnx_conn \<Rightarrow> i64 \<Rightarrow> u64 \<Rightarrow> ('a, 'u, unit) conn_res" where
  "dwnx_conn_shutdown_stream conn sid app_error_code =
     sbind (dwnx_conn_find_stream conn sid) (\<lambda>r conn.
       case r of
         None \<Rightarrow> SOk () conn
       | Some p \<Rightarrow>
           sbind (if bidi_stream sid \<or> \<not> conn_local_stream conn sid
                  then conn_shutdown_stream_read conn p app_error_code else SOk () conn) (\<lambda>_ conn.
           if bidi_stream sid \<or> conn_local_stream conn sid
           then conn_shutdown_stream_write conn p app_error_code else SOk () conn))"

definition dwnx_conn_shutdown_stream_write :: "('a, 'u) dwnx_conn \<Rightarrow> i64 \<Rightarrow> u64 \<Rightarrow> ('a, 'u, unit) conn_res" where
  "dwnx_conn_shutdown_stream_write conn sid app_error_code =
     (if \<not> bidi_stream sid \<and> \<not> conn_local_stream conn sid then SErr ERR_INVALID_ARGUMENT conn
      else sbind (dwnx_conn_find_stream conn sid) (\<lambda>r conn.
        case r of None \<Rightarrow> SOk () conn | Some p \<Rightarrow> conn_shutdown_stream_write conn p app_error_code))"

definition dwnx_conn_shutdown_stream_read :: "('a, 'u) dwnx_conn \<Rightarrow> i64 \<Rightarrow> u64 \<Rightarrow> ('a, 'u, unit) conn_res" where
  "dwnx_conn_shutdown_stream_read conn sid app_error_code =
     (if \<not> bidi_stream sid \<and> conn_local_stream conn sid then SErr ERR_INVALID_ARGUMENT conn
      else sbind (dwnx_conn_find_stream conn sid) (\<lambda>r conn.
        case r of None \<Rightarrow> SOk () conn | Some p \<Rightarrow> conn_shutdown_stream_read conn p app_error_code))"

section \<open>Opening streams\<close>

definition dwnx_conn_get_streams_bidi_left :: "('a, 'u) dwnx_conn \<Rightarrow> u64" where
  "dwnx_conn_get_streams_bidi_left conn =
     (let n = dwnx_ord_stream_id (ctx_bidi_next_stream_id conn)
      in if n > ctx_bidi_max_streams conn then 0 else ctx_bidi_max_streams conn - n + 1)"

definition dwnx_conn_get_streams_uni_left :: "('a, 'u) dwnx_conn \<Rightarrow> u64" where
  "dwnx_conn_get_streams_uni_left conn =
     (let n = dwnx_ord_stream_id (ctx_uni_next_stream_id conn)
      in if n > ctx_uni_max_streams conn then 0 else ctx_uni_max_streams conn - n + 1)"

text \<open>The result is the ID stored in \<open>*pstream_id\<close>.\<close>

definition dwnx_conn_open_bidi_stream :: "('a, 'u) dwnx_conn \<Rightarrow> 'u \<Rightarrow> ('a, 'u, i64) conn_res" where
  "dwnx_conn_open_bidi_stream conn user_data =
     (if dwnx_conn_get_streams_bidi_left conn = 0 then SErr ERR_STREAM_ID_BLOCKED conn
      else sbind (dwnx_conn_create_stream conn (ctx_bidi_next_stream_id conn) user_data) (\<lambda>_ conn.
           let sid = ctx_bidi_next_stream_id conn
           in SOk sid (conn\<lparr>ctx_bidi_next_stream_id := sid + 4\<rparr>)))"

definition dwnx_conn_open_uni_stream :: "('a, 'u) dwnx_conn \<Rightarrow> 'u \<Rightarrow> ('a, 'u, i64) conn_res" where
  "dwnx_conn_open_uni_stream conn user_data =
     (if dwnx_conn_get_streams_uni_left conn = 0 then SErr ERR_STREAM_ID_BLOCKED conn
      else sbind (dwnx_conn_create_stream conn (ctx_uni_next_stream_id conn) user_data) (\<lambda>_ conn.
           let sid = ctx_uni_next_stream_id conn
           in SOk sid (conn\<lparr>ctx_uni_next_stream_id := sid + 4\<rparr>)))"

section \<open>Writing frames\<close>

definition conn_encode_frame :: "('a, 'u) dwnx_conn \<Rightarrow> dwnx_frame \<Rightarrow> ('a, 'u, unit) conn_res" where
  "conn_encode_frame conn fr =
     (case dwnx_qre_encode_frame (ctx_qre conn) fr of
        Ok q \<Rightarrow> SOk () (conn\<lparr>ctx_qre := q\<rparr>)
      | Err e \<Rightarrow> SErr e conn
      | Abort \<Rightarrow> SAbort)"

definition dwnx_conn_write_transport_params :: "('a, 'u) dwnx_conn \<Rightarrow> ('a, 'u, unit) conn_res" where
  "dwnx_conn_write_transport_params conn =
     conn_encode_frame conn
       (Fr_qx_transport_parameters \<lparr>qtp_type = DWNX_FRAME_QX_TRANSPORT_PARAMETERS, qtp_params = local_params conn\<rparr>)"

definition dwnx_conn_write_data_blocked :: "('a, 'u) dwnx_conn \<Rightarrow> ('a, 'u, unit) conn_res" where
  "dwnx_conn_write_data_blocked conn =
     (if ctx_offset conn < ctx_max_offset conn \<or> ctx_offset conn = ctx_last_blocked_offset conn then SOk () conn
      else sassert (ctx_offset conn = ctx_max_offset conn)
        (sbind (conn_encode_frame conn
                  (Fr_data_blocked \<lparr>db_type = DWNX_FRAME_DATA_BLOCKED, db_max_data = ctx_offset conn\<rparr>)) (\<lambda>_ conn.
         SOk () (conn\<lparr>ctx_last_blocked_offset := ctx_offset conn\<rparr>))))"

definition dwnx_conn_write_stream_data_blocked :: "('a, 'u) dwnx_conn \<Rightarrow> strm_ptr \<Rightarrow> ('a, 'u, unit) conn_res" where
  "dwnx_conn_write_stream_data_blocked conn p =
     with_strm conn p (\<lambda>strm.
       if tx_offset strm < tx_max_offset strm \<or> tx_offset strm = tx_last_blocked_offset strm then SOk () conn
       else sassert (tx_offset strm = tx_max_offset strm)
         (sbind (conn_encode_frame conn
                   (Fr_stream_data_blocked \<lparr>sdb_type = DWNX_FRAME_STREAM_DATA_BLOCKED,
                      sdb_stream_id = stream_id strm, sdb_max_stream_data = tx_offset strm\<rparr>)) (\<lambda>_ conn.
          SOk () (upd_strm p (\<lambda>strm. strm\<lparr>tx_last_blocked_offset := tx_offset strm\<rparr>) conn))))"

text \<open>\<open>(rv = write_data_blocked(...)) != 0 || (rv = write_stream_data_blocked(...)) != 0\<close>.\<close>

definition write_blocked :: "('a, 'u) dwnx_conn \<Rightarrow> strm_ptr \<Rightarrow> ('a, 'u, unit) conn_res" where
  "write_blocked conn p =
     sbind (dwnx_conn_write_data_blocked conn) (\<lambda>_ conn. dwnx_conn_write_stream_data_blocked conn p)"

text \<open>A callback whose failure is asserted to be fatal.\<close>

definition assert_fatal :: "('a, 'u, unit) conn_res \<Rightarrow> ('a, 'u, unit) conn_res" where
  "assert_fatal r = (case r of SErr e conn \<Rightarrow> sassert (dwnx_err_is_fatal (liberr_code e)) (SErr e conn) | _ \<Rightarrow> r)"

definition dwnx_conn_write_max_streams ::
    "('a, 'u) dwnx_callbacks \<Rightarrow> ('a, 'u) dwnx_conn \<Rightarrow> ('a, 'u, unit) conn_res" where
  "dwnx_conn_write_max_streams cb conn =
     sbind (if crx_bidi_unsent_max_streams conn > crx_bidi_max_streams conn then
              sbind (assert_fatal (conn_call_extend_max_remote_streams_bidi cb conn
                                     (crx_bidi_unsent_max_streams conn))) (\<lambda>_ conn.
              sbind (conn_encode_frame conn
                       (Fr_max_streams \<lparr>ms_type = DWNX_FRAME_MAX_STREAMS_BIDI,
                          ms_max_streams = crx_bidi_unsent_max_streams conn\<rparr>)) (\<lambda>_ conn.
              SOk () (conn\<lparr>crx_bidi_max_streams := crx_bidi_unsent_max_streams conn\<rparr>)))
            else SOk () conn) (\<lambda>_ conn.
     if crx_uni_unsent_max_streams conn > crx_uni_max_streams conn then
       sbind (assert_fatal (conn_call_extend_max_remote_streams_uni cb conn
                              (crx_uni_unsent_max_streams conn))) (\<lambda>_ conn.
       sbind (conn_encode_frame conn
                (Fr_max_streams \<lparr>ms_type = DWNX_FRAME_MAX_STREAMS_UNI,
                   ms_max_streams = crx_uni_unsent_max_streams conn\<rparr>)) (\<lambda>_ conn.
       SOk () (conn\<lparr>crx_uni_max_streams := crx_uni_unsent_max_streams conn\<rparr>)))
     else SOk () conn)"

section \<open>Control frames\<close>

definition write_max_data :: "('a, 'u) dwnx_conn \<Rightarrow> ('a, 'u, unit) conn_res" where
  "write_max_data conn =
     (if conn_should_send_max_data conn then
        sbind (conn_encode_frame conn
                 (Fr_max_data \<lparr>md_type = DWNX_FRAME_MAX_DATA, md_max_data = crx_unsent_max_offset conn\<rparr>)) (\<lambda>_ conn.
        SOk () (conn\<lparr>crx_max_offset := crx_unsent_max_offset conn\<rparr>))
      else SOk () conn)"

definition write_ping_response :: "('a, 'u) dwnx_conn \<Rightarrow> ('a, 'u, unit) conn_res" where
  "write_ping_response conn =
     (if crx_ping_last_seq conn > crx_ping_last_resp_seq conn then
        sbind (conn_encode_frame conn
                 (Fr_qx_ping \<lparr>ping_type = DWNX_FRAME_QX_PING_RESPONSE,
                              ping_seq = u64_of_i64 (crx_ping_last_seq conn)\<rparr>)) (\<lambda>_ conn.
        SOk () (conn\<lparr>crx_ping_last_resp_seq := crx_ping_last_seq conn\<rparr>))
      else SOk () conn)"

text \<open>
  The parts of the body of the loop over the queue, for the stream at its top. The first one has the
  result \<open>True\<close> when it has closed the stream and the loop continues.
\<close>

definition write_strm_reset ::
    "('a, 'u) dwnx_callbacks \<Rightarrow> ('a, 'u) dwnx_conn \<Rightarrow> strm_ptr \<Rightarrow> ('a, 'u, bool) conn_res" where
  "write_strm_reset cb conn p =
     with_strm conn p (\<lambda>strm.
       if strm_has strm DWNX_STRM_FLAG_SEND_RESET_STREAM then
         sbind (conn_encode_frame conn
                  (Fr_reset_stream \<lparr>rst_type = DWNX_FRAME_RESET_STREAM, rst_stream_id = stream_id strm,
                     rst_app_error_code = tx_reset_stream_app_error_code strm, rst_final_size = tx_offset strm\<rparr>)) (\<lambda>_ conn.
         let conn = upd_strm p (strm_clear DWNX_STRM_FLAG_SEND_RESET_STREAM) conn
         in with_strm conn p (\<lambda>strm.
            if dwnx_strm_should_close_stream strm then
              sbind (dwnx_conn_tx_strmq_pop conn) (\<lambda>_ conn.
              sbind (dwnx_conn_close_stream cb conn p) (\<lambda>_ conn. SOk True conn))
            else SOk False conn))
       else SOk False conn)"

definition write_strm_stop_sending ::
    "('a, 'u) dwnx_callbacks \<Rightarrow> ('a, 'u) dwnx_conn \<Rightarrow> strm_ptr \<Rightarrow> ('a, 'u, unit) conn_res" where
  "write_strm_stop_sending cb conn p =
     with_strm conn p (\<lambda>strm.
       if strm_has strm DWNX_STRM_FLAG_SEND_STOP_SENDING then
         sbind (if \<not> strm_has strm DWNX_STRM_FLAG_SHUT_RD then
                  sbind (assert_fatal (conn_call_stream_stop_sending cb conn (stream_id strm)
                           (tx_stop_sending_app_error_code strm) (stream_user_data strm))) (\<lambda>_ conn.
                  with_strm conn p (\<lambda>strm.
                  conn_encode_frame conn
                    (Fr_stop_sending \<lparr>stop_type = DWNX_FRAME_STOP_SENDING, stop_stream_id = stream_id strm,
                       stop_app_error_code = tx_stop_sending_app_error_code strm\<rparr>)))
                else SOk () conn) (\<lambda>_ conn.
         SOk () (upd_strm p (strm_clear DWNX_STRM_FLAG_SEND_STOP_SENDING) conn))
       else SOk () conn)"

definition write_strm_max_stream_data :: "('a, 'u) dwnx_conn \<Rightarrow> strm_ptr \<Rightarrow> ('a, 'u, unit) conn_res" where
  "write_strm_max_stream_data conn p =
     with_strm conn p (\<lambda>strm.
       if \<not> strm_has strm (DWNX_STRM_FLAG_SHUT_RD OR DWNX_STRM_FLAG_STOP_SENDING) \<and>
          strm_should_send_max_stream_data strm then
         sbind (conn_encode_frame conn
                  (Fr_max_stream_data \<lparr>msd_type = DWNX_FRAME_MAX_STREAM_DATA, msd_stream_id = stream_id strm,
                     msd_max_stream_data = rx_unsent_max_offset strm\<rparr>)) (\<lambda>_ conn.
         SOk () (upd_strm p (\<lambda>strm. strm\<lparr>rx_max_offset := rx_unsent_max_offset strm\<rparr>) conn))
       else SOk () conn)"

definition write_strm_blocked :: "('a, 'u) dwnx_conn \<Rightarrow> strm_ptr \<Rightarrow> ('a, 'u, unit) conn_res" where
  "write_strm_blocked conn p =
     with_strm conn p (\<lambda>strm.
       if strm_has strm DWNX_STRM_FLAG_SEND_STREAM_DATA_BLOCKED then
         sbind (if \<not> strm_has strm DWNX_STRM_FLAG_SHUT_WR then write_blocked conn p else SOk () conn) (\<lambda>_ conn.
         SOk () (upd_strm p (strm_clear DWNX_STRM_FLAG_SEND_STREAM_DATA_BLOCKED) conn))
       else SOk () conn)"

fun write_strmq ::
    "nat \<Rightarrow> ('a, 'u) dwnx_callbacks \<Rightarrow> ('a, 'u) dwnx_conn \<Rightarrow> ('a, 'u, unit) conn_res" where
  "write_strmq 0 cb conn = SAbort"
| "write_strmq (Suc fuel) cb conn =
     (if dwnx_pq_empty (ctx_strmq conn) then SOk () conn
      else sbind (dwnx_conn_tx_strmq_top conn) (\<lambda>p conn.
           sbind (write_strm_reset cb conn p) (\<lambda>closed conn.
           if closed then write_strmq fuel cb conn
           else
             sbind (write_strm_stop_sending cb conn p) (\<lambda>_ conn.
             sbind (write_strm_max_stream_data conn p) (\<lambda>_ conn.
             sbind (write_strm_blocked conn p) (\<lambda>_ conn.
             sbind (dwnx_conn_tx_strmq_pop conn) (\<lambda>_ conn.
             write_strmq fuel cb conn)))))))"

definition dwnx_conn_write_ctrl_frames ::
    "nat \<Rightarrow> ('a, 'u) dwnx_callbacks \<Rightarrow> ('a, 'u) dwnx_conn \<Rightarrow> ('a, 'u, unit) conn_res" where
  "dwnx_conn_write_ctrl_frames fuel cb conn =
     sbind (write_max_data conn) (\<lambda>_ conn.
     sbind (write_ping_response conn) (\<lambda>_ conn.
     sbind (write_strmq fuel cb conn) (\<lambda>_ conn.
     dwnx_conn_write_max_streams cb conn)))"

section \<open>Stream data and datagrams\<close>

abbreviation DWNX_WRITE_STREAM_FLAG_NONE :: u32 where "DWNX_WRITE_STREAM_FLAG_NONE \<equiv> 0x00"
abbreviation DWNX_WRITE_STREAM_FLAG_FIN :: u32 where "DWNX_WRITE_STREAM_FLAG_FIN \<equiv> 0x02"

text \<open>The connection and the number behind \<open>pdatalen\<close> or \<open>paccepted\<close>.\<close>

type_synonym ('a, 'u, 'r) out_res = "(('a, 'u) dwnx_conn \<times> int, 'r) sres"

definition with_out :: "int \<Rightarrow> ('a, 'u, 'r) conn_res \<Rightarrow> ('a, 'u, 'r) out_res" where
  "with_out out r = (case r of SOk x conn \<Rightarrow> SOk x (conn, out) | SErr e conn \<Rightarrow> SErr e (conn, out) | SAbort \<Rightarrow> SAbort)"

text \<open>
  What follows a failed attempt to write the BLOCKED frames:
  \<open>assert(DWNX_ERR_NOBUF == rv)\<close>, and the stream is queued so that they are sent later.
\<close>

definition or_queue_blocked :: "('a, 'u, unit) conn_res \<Rightarrow> strm_ptr \<Rightarrow> ('a, 'u, unit) conn_res" where
  "or_queue_blocked r p =
     (case r of
        SErr e conn \<Rightarrow>
          sassert (e = ERR_NOBUF)
            (dwnx_conn_tx_strmq_push_if_not (upd_strm p (strm_set DWNX_STRM_FLAG_SEND_STREAM_DATA_BLOCKED) conn) p)
      | _ \<Rightarrow> r)"

definition dwnx_conn_write_stream_frame ::
    "('a, 'u) dwnx_callbacks \<Rightarrow> ('a, 'u) dwnx_conn \<times> int \<Rightarrow> strm_ptr \<Rightarrow> u32 \<Rightarrow> dwnx_vec list \<Rightarrow> ('a, 'u, unit) out_res" where
  "dwnx_conn_write_stream_frame cb s p fl datav =
     (let (conn, pdatalen) = s; datalen = dwnx_vec_len datav
      in case strm_store conn p of
           None \<Rightarrow> SAbort
         | Some strm \<Rightarrow>
         let ndatalen = conn_enforce_flow_control conn strm datalen
         in if ndatalen = 0 \<and> datalen \<noteq> 0 then
              with_out pdatalen
                (sbind (or_queue_blocked (write_blocked conn p) p) (\<lambda>_ conn.
                 with_strm conn p (\<lambda>strm.
                   if tx_max_offset strm = tx_offset strm then SErr ERR_STREAM_DATA_BLOCKED conn else SOk () conn)))
            else
              case dwnx_qre_stream_max_datalen (ctx_qre conn) (stream_id strm) (tx_offset strm) ndatalen of
                Ok None \<Rightarrow> SErr ERR_NOBUF (conn, pdatalen)
              | Ok (Some wdatalen) \<Rightarrow>
                  if wdatalen = 0 \<and> datalen \<noteq> 0 then SErr ERR_NOBUF (conn, pdatalen)
                  else
                    let fin = (fl AND DWNX_WRITE_STREAM_FLAG_FIN \<noteq> 0 \<and> datalen = of_nat wdatalen);
                        flags = DWNX_STREAM_LEN_BIT;
                        flags = (if tx_offset strm \<noteq> 0 then flags OR DWNX_STREAM_OFF_BIT else flags);
                        flags = (if fin then flags OR DWNX_STREAM_FIN_BIT else flags);
                        fr = \<lparr>stream_type = DWNX_FRAME_STREAM, stream_flags = flags, stream_fin = fin,
                              stream_stream_id = stream_id strm, stream_offset = tx_offset strm,
                              stream_len = wdatalen, stream_data = datav\<rparr>
                    in case conn_encode_frame conn (Fr_stream fr) of
                         SOk _ conn \<Rightarrow>
                           sbind (with_out pdatalen
                             (sbind (conn_call_write_stream_data_offset cb conn p wdatalen) (\<lambda>_ conn.
                              let conn = upd_strm p (\<lambda>strm. (strm_set DWNX_STRM_FLAG_ANY_SENT strm)
                                           \<lparr>tx_offset := tx_offset strm + of_nat wdatalen\<rparr>) conn;
                                  conn = conn\<lparr>ctx_offset := ctx_offset conn + of_nat wdatalen\<rparr>
                              in if fin then
                                   dwnx_conn_close_stream_if_shut_rdwr cb
                                     (upd_strm p (\<lambda>strm. dwnx_strm_shutdown strm DWNX_STRM_FLAG_SHUT_WR) conn) p
                                 else if ndatalen < datalen then or_queue_blocked (write_blocked conn p) p
                                 else SOk () conn))) (\<lambda>_ (conn, _).
                           SOk () (conn, int wdatalen))
                       | _ \<Rightarrow> SAbort
              | _ \<Rightarrow> SAbort)"

definition dwnx_conn_write_datagram_frame ::
    "('a, 'u) dwnx_conn \<times> int \<Rightarrow> dwnx_vec list \<Rightarrow> ('a, 'u, unit) out_res" where
  "dwnx_conn_write_datagram_frame s datav =
     (let (conn, paccepted) = s
      in sbind (with_out paccepted (conn_encode_frame conn
                  (Fr_datagram \<lparr>dgram_type = DWNX_FRAME_DATAGRAM_LEN, dgram_len = unat (dwnx_vec_len datav),
                     dgram_data = datav\<rparr>))) (\<lambda>_ (conn, _).
         SOk () (conn, 1)))"

section \<open>Writing a record\<close>

datatype dwnx_vmsg =
    Vmsg_stream strm_ptr u32 "dwnx_vec list"
  | Vmsg_datagram "dwnx_vec list"

text \<open>\<open>if (rv < 0 && rv != DWNX_ERR_NOBUF) return rv;\<close>; the result is whether \<open>rv == DWNX_ERR_NOBUF\<close>.\<close>

definition allow_nobuf :: "('s, unit) sres \<Rightarrow> ('s, bool) sres" where
  "allow_nobuf r =
     (case r of SOk _ s \<Rightarrow> SOk False s | SErr e s \<Rightarrow> (if e = ERR_NOBUF then SOk True s else SErr e s) | SAbort \<Rightarrow> SAbort)"

text \<open>The record is started unless it has been, with the transport parameters in the first one.\<close>

definition vmsg_start ::
    "nat \<Rightarrow> ('a, 'u) dwnx_callbacks \<Rightarrow> ('a, 'u) dwnx_conn \<Rightarrow> nat \<Rightarrow> ('a, 'u, bool) conn_res" where
  "vmsg_start fuel cb conn destlen =
     (if dwnx_qre_has_started (ctx_qre conn) then SOk False conn
      else
        case dwnx_qre_start (ctx_qre conn) destlen of
          Ok q \<Rightarrow>
            let conn = conn\<lparr>ctx_qre := q\<rparr>
            in sbind (if \<not> conn_has conn CONN_FLAG_QX_TRANSPORT_PARAMETERS_SENT then
                        (case dwnx_conn_write_transport_params conn of
                           SOk _ conn \<Rightarrow> SOk () (conn_set CONN_FLAG_QX_TRANSPORT_PARAMETERS_SENT conn)
                         | SErr e conn \<Rightarrow> SErr e (conn\<lparr>ctx_qre := dwnx_qre_reset (ctx_qre conn)\<rparr>)
                         | SAbort \<Rightarrow> SAbort)
                      else SOk () conn) (\<lambda>_ conn.
               allow_nobuf (dwnx_conn_write_ctrl_frames fuel cb conn))
        | _ \<Rightarrow> SAbort)"

definition dwnx_conn_write_vmsg ::
    "nat \<Rightarrow> ('a, 'u) dwnx_callbacks \<Rightarrow> ('a, 'u) dwnx_conn \<times> int \<Rightarrow> nat \<Rightarrow> dwnx_vmsg option \<Rightarrow> dwnx_tstamp \<Rightarrow>
     ('a, 'u, nat) out_res" where
  "dwnx_conn_write_vmsg fuel cb s destlen vmsg t =
     (let (conn, out) = s
      in if destlen \<le> DWNX_QRE_RECORDLEN_SIZE then SErr ERR_NOBUF (conn, out)
         else sbind (with_out out (vmsg_start fuel cb conn destlen)) (\<lambda>nobuf (conn, out).
           sbind (if \<not> nobuf then
                    (case vmsg of
                       None \<Rightarrow> SOk () (conn, out)
                     | Some m \<Rightarrow>
                         sbind (allow_nobuf (case m of
                                   Vmsg_stream p fl datav \<Rightarrow> dwnx_conn_write_stream_frame cb (conn, out) p fl datav
                                 | Vmsg_datagram datav \<Rightarrow> dwnx_conn_write_datagram_frame (conn, out) datav)) (\<lambda>nobuf (conn, out).
                         if \<not> nobuf \<and> dwnx_qre_left (ctx_qre conn) \<noteq> 0 then SErr ERR_WRITE_MORE (conn, out)
                         else SOk () (conn, out)))
                  else SOk () (conn, out)) (\<lambda>_ (conn, out).
           sbind (with_out out (allow_nobuf (dwnx_conn_write_max_streams cb conn))) (\<lambda>_ (conn, out).
           case dwnx_qre_final (ctx_qre conn) of
             Ok (nwrite, q) \<Rightarrow>
               let conn = conn\<lparr>ctx_qre := q\<rparr>
               in if nwrite = 0 then SOk 0 (conn, out) else SOk nwrite (conn\<lparr>idle_ts := t\<rparr>, out)
           | _ \<Rightarrow> SAbort))))"

definition dwnx_conn_writev_stream ::
    "nat \<Rightarrow> ('a, 'u) dwnx_callbacks \<Rightarrow> ('a, 'u) dwnx_conn \<Rightarrow> nat \<Rightarrow> u32 \<Rightarrow> i64 \<Rightarrow> dwnx_vec list \<Rightarrow> dwnx_tstamp \<Rightarrow>
     ('a, 'u, nat) out_res" where
  "dwnx_conn_writev_stream fuel cb conn destlen fl sid datav t =
     sbind (with_out (-1) (conn_update_timestamp conn t)) (\<lambda>_ (conn, out).
     if sid \<noteq> -1 then
       sbind (with_out out (dwnx_conn_find_stream conn sid)) (\<lambda>r (conn, out).
         case r of
           None \<Rightarrow> SErr ERR_STREAM_NOT_FOUND (conn, out)
         | Some p \<Rightarrow>
             (case strm_store conn p of
                None \<Rightarrow> SAbort
              | Some strm \<Rightarrow>
                  if strm_has strm DWNX_STRM_FLAG_SHUT_WR then SErr ERR_STREAM_SHUT_WR (conn, out)
                  else
                    case dwnx_vec_len_varint datav of
                      None \<Rightarrow> SErr ERR_INVALID_ARGUMENT (conn, out)
                    | Some datalen \<Rightarrow>
                        if datalen = 0 \<and> fl AND DWNX_WRITE_STREAM_FLAG_FIN = 0 \<and>
                           strm_has strm DWNX_STRM_FLAG_ANY_SENT
                        then dwnx_conn_write_vmsg fuel cb (conn, out) destlen None t
                        else if datalen > DWNX_MAX_VARINT - tx_offset strm \<or>
                                datalen > DWNX_MAX_VARINT - ctx_offset conn
                        then SErr ERR_INVALID_ARGUMENT (conn, out)
                        else dwnx_conn_write_vmsg fuel cb (conn, out) destlen (Some (Vmsg_stream p fl datav)) t))
     else dwnx_conn_write_vmsg fuel cb (conn, out) destlen None t)"

definition dwnx_conn_write_record ::
    "nat \<Rightarrow> ('a, 'u) dwnx_callbacks \<Rightarrow> ('a, 'u) dwnx_conn \<Rightarrow> nat \<Rightarrow> dwnx_tstamp \<Rightarrow> ('a, 'u, nat) out_res" where
  "dwnx_conn_write_record fuel cb conn destlen t =
     dwnx_conn_writev_stream fuel cb conn destlen DWNX_WRITE_STREAM_FLAG_NONE (-1) [] t"

definition dwnx_conn_write_stream ::
    "nat \<Rightarrow> ('a, 'u) dwnx_callbacks \<Rightarrow> ('a, 'u) dwnx_conn \<Rightarrow> nat \<Rightarrow> u32 \<Rightarrow> i64 \<Rightarrow> bytes \<Rightarrow> dwnx_tstamp \<Rightarrow>
     ('a, 'u, nat) out_res" where
  "dwnx_conn_write_stream fuel cb conn destlen fl sid data t =
     dwnx_conn_writev_stream fuel cb conn destlen fl sid (if data \<noteq> [] then [data] else []) t"

definition dwnx_conn_writev_datagram ::
    "nat \<Rightarrow> ('a, 'u) dwnx_callbacks \<Rightarrow> ('a, 'u) dwnx_conn \<Rightarrow> nat \<Rightarrow> dwnx_vec list \<Rightarrow> dwnx_tstamp \<Rightarrow>
     ('a, 'u, nat) out_res" where
  "dwnx_conn_writev_datagram fuel cb conn destlen datav t =
     sbind (with_out 0 (conn_update_timestamp conn t)) (\<lambda>_ (conn, out).
     if max_datagram_frame_size (remote_params conn) = 0 then SErr ERR_INVALID_STATE (conn, out)
     else
       case dwnx_vec_len_varint datav of
         None \<Rightarrow> SErr ERR_INVALID_ARGUMENT (conn, out)
       | Some datalen \<Rightarrow>
           (case dwnx_frame_datagram_framelen (unat datalen) of
              Ok n \<Rightarrow>
                if min (unat (max_datagram_frame_size (remote_params conn))) DWNX_DEFAULT_MAX_RECORD_SIZE < n
                then SErr ERR_INVALID_ARGUMENT (conn, out)
                else dwnx_conn_write_vmsg fuel cb (conn, out) destlen (Some (Vmsg_datagram datav)) t
            | _ \<Rightarrow> SAbort))"

definition dwnx_conn_write_datagram ::
    "nat \<Rightarrow> ('a, 'u) dwnx_callbacks \<Rightarrow> ('a, 'u) dwnx_conn \<Rightarrow> nat \<Rightarrow> bytes \<Rightarrow> dwnx_tstamp \<Rightarrow>
     ('a, 'u, nat) out_res" where
  "dwnx_conn_write_datagram fuel cb conn destlen data t =
     dwnx_conn_writev_datagram fuel cb conn destlen [data] t"

end
