(* ===== verification/ConnApp.thy ===== *)
theory ConnApp
  imports ConnInv ConnWrite
begin

text \<open>
  Streams that are created and closed, and the steps of the application. A callback may call the
  functions of the library that extend limits, open streams and shut streams down, any number of times and in
  any order, and change the application's own data; that is the hypothesis \<open>app_ok\<close> about the
  application. The invariant is kept by every such step.
\<close>

section \<open>The map of streams\<close>

lemma map_insert_loop_hashbits:
  "map_insert_loop fuel m idx key psl data = Ok m' \<Longrightarrow> hashbits m' = hashbits m"
proof (induction fuel arbitrary: m idx key psl data)
  case (Suc fuel)
  show ?case
    using Suc.prems Suc.IH by (auto simp: Let_def map_set_entry_def split: if_splits)
qed simp

lemma map_insert_hashbits:
  assumes "dwnx_map_insert null (mem, m) k d = SOk () (mem', m') \<or> dwnx_map_insert null (mem, m) k d = SErr e (mem', m')"
  shows "hashbits m \<le> hashbits m'"
  using assms
  by (auto simp: dwnx_map_insert_def map_resize_def map_insert_def bindr_eq_Ok DWNX_INITIAL_HASHBITS_def Let_def
      dest!: map_insert_loop_hashbits split: if_splits res.splits prod.splits)

lemma map_inv_length: "dwnx_map_inv m \<Longrightarrow> length (slots m) = (if hashbits m = 0 then 0 else 2 ^ hashbits m)"
  by (auto simp: dwnx_map_inv_def map_table_inv_def map_table_but_def map_tablelen_def)

lemma map_insert_length:
  assumes "dwnx_map_inv m"
    and "dwnx_map_insert null (mem, m) k d = SOk () (mem', m') \<or> dwnx_map_insert null (mem, m) k d = SErr e (mem', m')"
  shows "length (slots m) \<le> length (slots m')"
proof -
  have "dwnx_map_inv m'" using dmap.insert_ok [OF assms(1)] dmap.insert_err [OF assms(1)] assms(2) by blast
  then show ?thesis
    using map_insert_hashbits [OF assms(2)] map_inv_length [OF assms(1)] map_inv_length [of m']
    by (auto simp: power_increasing)
qed

lemma map_slot_abs:
  assumes "dwnx_map_inv m" and "i < length (slots m)" and "slot_psl (slots m ! i) \<noteq> 0"
  shows "map_abs m (slot_key (slots m ! i)) = Some (slot_data (slots m ! i))"
proof -
  have t: "map_table_inv m" and l: "length (slots m) = map_tablelen m"
    using assms(1,2) by (auto simp: dwnx_map_inv_def map_table_inv_def map_table_but_def)
  have "map_occupied m i" using assms(2,3) l by (simp add: map_occupied_def)
  then have "(slot_key (slots m ! i), slot_data (slots m ! i)) \<in> map_entries m"
    unfolding map_entries_def entries_but_def by (intro image_eqI [of _ _ i]) simp_all
  then show ?thesis by (simp add: map_abs_table [OF t])
qed

section \<open>Creating a stream\<close>

definition created :: "i64 \<Rightarrow> strm_ptr \<Rightarrow> ('a, 'u) dwnx_conn \<Rightarrow> ('a, 'u) dwnx_conn \<Rightarrow> bool" where
  "created sid p conn conn' \<longleftrightarrow>
     strms_ok conn' \<and> queue_ok conn' \<and> length (slots (strms conn)) \<le> length (slots (strms conn')) \<and>
     (\<exists>m mp strm. conn' = conn\<lparr>conn_mem := m, conn_next_ptr := p + 1, strms := mp,
                               strm_store := (strm_store conn)(p \<mapsto> strm)\<rparr> \<and>
        strm_store conn p = None \<and> stream_id strm = sid \<and>
        strm = (let (max_rx_offset, max_tx_offset) = stream_max_offsets conn sid;
                    strm = dwnx_strm_init sid DWNX_STRM_FLAG_NONE max_rx_offset max_tx_offset (stream_user_data strm)
                in if bidi_stream sid then strm
                   else dwnx_strm_shutdown strm (if conn_local_stream conn sid then DWNX_STRM_FLAG_SHUT_RD
                                                 else DWNX_STRM_FLAG_SHUT_WR)))"

lemma conn_mem_stays_ok: "conn_ok conn \<Longrightarrow> stays_ok conn (conn\<lparr>conn_mem := m\<rparr>)"
  using queue_changed_ok [OF _ queue_changed_mem, of conn m] queue_changed_kept [OF queue_changed_mem, of "{}" conn m]
  by (simp add: stays_ok_def conn_ok_def queue_but_def)

lemma next_ptr_stays_ok: "conn_ok conn \<Longrightarrow> conn_next_ptr conn \<le> n \<Longrightarrow> stays_ok conn (conn\<lparr>conn_next_ptr := n\<rparr>)"
  by (auto simp: stays_ok_def conn_ok_def strms_ok_def kept_but_def same_reader_def strms_kept_def) (meson less_le_trans)

lemma params_stream_limits:
  assumes "params_ok conn"
  shows "fst (stream_max_offsets conn sid) \<le> DWNX_MAX_VARINT" and "snd (stream_max_offsets conn sid) \<le> DWNX_MAX_VARINT"
  using assms by (auto simp: params_ok_def transport_params_valid_def stream_max_offsets_def)

lemma strm_init_fields [simp]:
  "stream_id (dwnx_strm_init sid fl a b u) = sid" "pe_index (dwnx_strm_init sid fl a b u) = None"
  "cycle (dwnx_strm_init sid fl a b u) = 0" "stream_user_data (dwnx_strm_init sid fl a b u) = u"
  "stream_user_data (dwnx_strm_shutdown s fl) = stream_user_data s"
  by (simp_all add: dwnx_strm_init_def dwnx_strm_shutdown_def strm_set_def)

lemma strm_init_ok:
  "0 \<le> sid \<Longrightarrow> sid < 2 ^ 62 \<Longrightarrow> a \<le> DWNX_MAX_VARINT \<Longrightarrow> b \<le> DWNX_MAX_VARINT \<Longrightarrow>
     strm_ok (dwnx_strm_init sid fl a b u)"
  by (simp add: strm_ok_def dwnx_strm_init_def)

lemma live_ids_insert: "store p = None \<Longrightarrow> live_ids (store(p \<mapsto> strm)) = insert (stream_id strm) (live_ids store)"
  by (simp add: live_ids_def)

lemma insert_strm_parts:
  assumes conn: "strms_ok conn" "queue_ok conn"
    and m: "dwnx_map_insert null (mem, strms conn) (u64_of_i64 (stream_id strm)) p = SOk u (mem', mp)"
    and p: "p = conn_next_ptr conn" and strm: "strm_ok strm" "pe_index strm = None"
  shows "strms_ok (conn\<lparr>conn_mem := mem', conn_next_ptr := p + 1, strms := mp, strm_store := (strm_store conn)(p \<mapsto> strm)\<rparr>)"
    and "queue_ok (conn\<lparr>conn_mem := mem', conn_next_ptr := p + 1, strms := mp, strm_store := (strm_store conn)(p \<mapsto> strm)\<rparr>)"
    and "strm_store conn p = None"
proof -
  have inv: "dwnx_map_inv (strms conn)"
    and map: "\<And>q k. map_abs (strms conn) k = Some q \<longleftrightarrow> strm_key (strm_store conn) q = Some k"
    and ptr: "\<And>q s. strm_store conn q = Some s \<Longrightarrow> strm_ok s \<and> q < conn_next_ptr conn"
    using conn(1) by (auto simp: strms_ok_def)
  note i = dmap.insert_ok [OF inv m]
  show none: "strm_store conn p = None" using ptr [of p] p by (cases "strm_store conn p") auto
  have k0: "strm_key (strm_store conn) q = Some k \<Longrightarrow> k \<noteq> u64_of_i64 (stream_id strm)" for q k
    using map [of "u64_of_i64 (stream_id strm)" q] i by auto
  have key: "strm_key ((strm_store conn)(p \<mapsto> strm)) = (strm_key (strm_store conn))(p \<mapsto> u64_of_i64 (stream_id strm))"
    by (simp add: fun_eq_iff strm_key_def)
  have "map_abs mp k = Some q \<longleftrightarrow> strm_key ((strm_store conn)(p \<mapsto> strm)) q = Some k" for q k
    unfolding key using i map [of k q] k0 [of q k] none by (auto simp: strm_key_def)
  then show "strms_ok (conn\<lparr>conn_mem := mem', conn_next_ptr := p + 1, strms := mp, strm_store := (strm_store conn)(p \<mapsto> strm)\<rparr>)"
    using i strm(1) ptr p by (auto simp: strms_ok_def less_Suc_eq)
  let ?st = "(strm_store conn)(p \<mapsto> strm)"
  have alive: "q \<in> set (pq_q (ctx_strmq conn)) \<Longrightarrow> strm_store conn q \<noteq> None \<and> q \<noteq> p" for q
    using conn(2) none by (auto simp: queue_but_def)
  have idx: "strm_index ?st = strm_index (strm_store conn)"
    using none strm(2) by (simp add: fun_eq_iff strm_index_def)
  have "heap (cycle_less ?st) (pq_q (ctx_strmq conn)) = heap (cycle_less (strm_store conn)) (pq_q (ctx_strmq conn))"
  proof -
    have "cycle_less ?st (pq_q (ctx_strmq conn) ! i) (pq_q (ctx_strmq conn) ! j) =
        cycle_less (strm_store conn) (pq_q (ctx_strmq conn) ! i) (pq_q (ctx_strmq conn) ! j)"
      if "i < length (pq_q (ctx_strmq conn))" "j < length (pq_q (ctx_strmq conn))" for i j
      using alive [of "pq_q (ctx_strmq conn) ! i"] alive [of "pq_q (ctx_strmq conn) ! j"] that
      by (simp add: cycle_less_def)
    moreover have "(i - 1) div 2 < length (pq_q (ctx_strmq conn))" if "i < length (pq_q (ctx_strmq conn))" for i
      using that by linarith
    ultimately show ?thesis by (simp add: heap_def)
  qed
  then show "queue_ok (conn\<lparr>conn_mem := mem', conn_next_ptr := p + 1, strms := mp, strm_store := ?st\<rparr>)"
    using conn(2) idx by (auto simp: queue_but_def pq_inv_def)
qed

lemma create_stream_wp:
  assumes conn: "conn_ok conn" and sid: "0 \<le> sid" "sid < 2 ^ 62"
    and new: "map_abs (strms conn) (u64_of_i64 sid) = None"
  shows "wp (dwnx_conn_create_stream conn sid user_data) (\<lambda>p conn'. created sid p conn conn')
    (\<lambda>e conn'. e = ERR_NOMEM \<and> stays_ok conn conn')"
proof (cases "mem_alloc (conn_mem conn)")
  case (Pair ok m)
  define strm where "strm = (let (a, b) = stream_max_offsets conn sid;
                    strm = dwnx_strm_init sid DWNX_STRM_FLAG_NONE a b user_data
                in if bidi_stream sid then strm
                   else dwnx_strm_shutdown strm (if conn_local_stream conn sid then DWNX_STRM_FLAG_SHUT_RD
                                                 else DWNX_STRM_FLAG_SHUT_WR))"
  have f: "stream_id strm = sid" "pe_index strm = None" "stream_user_data strm = user_data" "strm_ok strm"
    using strm_init_ok [OF sid params_stream_limits [OF conn_okD(5) [OF conn], of sid]]
    by (auto simp: strm_def Let_def split: prod.split)
  let ?c = "conn\<lparr>conn_mem := m, conn_next_ptr := conn_next_ptr conn + 1\<rparr>"
  have c1: "stays_ok conn ?c"
  proof -
    have 1: "stays_ok conn (conn\<lparr>conn_mem := m\<rparr>)" by (rule conn_mem_stays_ok [OF conn])
    then have "stays_ok (conn\<lparr>conn_mem := m\<rparr>) (conn\<lparr>conn_mem := m, conn_next_ptr := conn_next_ptr conn + 1\<rparr>)"
      by (intro next_ptr_stays_ok) (simp_all add: stays_ok_def)
    then show ?thesis using 1 stays_ok_trans by blast
  qed
  have same: "stream_max_offsets (conn\<lparr>conn_mem := m'\<rparr>) sid = stream_max_offsets conn sid"
    "conn_local_stream (conn\<lparr>conn_mem := m'\<rparr>) sid = conn_local_stream conn sid" for m'
    by (simp_all add: stream_max_offsets_def conn_local_stream_def)
  have run: "dwnx_conn_create_stream conn sid user_data =
      (if \<not> ok then SErr ERR_NOMEM (conn\<lparr>conn_mem := m\<rparr>)
       else case dwnx_map_insert 0 (m, strms conn) (u64_of_i64 sid) (conn_next_ptr conn) of
                SOk _ (mem, mp) \<Rightarrow>
                  SOk (conn_next_ptr conn) (?c\<lparr>conn_mem := mem, strms := mp, strm_store := (strm_store conn)(conn_next_ptr conn \<mapsto> strm)\<rparr>)
              | SErr e (mem, mp) \<Rightarrow> sassert (e \<noteq> ERR_INVALID_ARGUMENT) (SErr e (?c\<lparr>conn_mem := mem, strms := mp\<rparr>))
              | SAbort \<Rightarrow> SAbort)"
    by (auto simp: dwnx_conn_create_stream_def Pair strm_def Let_def same split: prod.split sres.split)
  have mi: "dwnx_map_inv (strms conn)" using conn by (simp add: conn_ok_def strms_ok_def)
  show ?thesis
  proof (cases ok)
    case False
    then show ?thesis using run conn_mem_stays_ok [OF conn] by simp
  next
    case True
    from map_insert_cases [OF mi, of 0 m "u64_of_i64 sid" "conn_next_ptr conn"]
    consider (nomem) s where "dwnx_map_insert 0 (m, strms conn) (u64_of_i64 sid) (conn_next_ptr conn) = SErr ERR_NOMEM (s, strms conn)"
      | (ok) mem1 m1 where "dwnx_map_insert 0 (m, strms conn) (u64_of_i64 sid) (conn_next_ptr conn) = SOk () (mem1, m1)"
      using new by blast
    then show ?thesis
    proof cases
      case nomem
      have "stays_ok ?c (?c\<lparr>conn_mem := s\<rparr>)" using c1 by (intro conn_mem_stays_ok) (simp add: stays_ok_def)
      then have "stays_ok conn (?c\<lparr>conn_mem := s\<rparr>)" using c1 stays_ok_trans by blast
      then show ?thesis using run nomem True by simp
    next
      case ok
      let ?d = "conn\<lparr>conn_mem := mem1, conn_next_ptr := conn_next_ptr conn + 1, strms := m1,
                     strm_store := (strm_store conn)(conn_next_ptr conn \<mapsto> strm)\<rparr>"
      have "dwnx_conn_create_stream conn sid user_data = SOk (conn_next_ptr conn) ?d"
        using run ok True by simp
      moreover have "created sid (conn_next_ptr conn) conn ?d"
        unfolding created_def
      proof (intro conjI exI)
        show "strms_ok ?d" "queue_ok ?d" "strm_store conn (conn_next_ptr conn) = None"
          using insert_strm_parts [OF conn_okD(1,2) [OF conn], of 0 m strm "conn_next_ptr conn" "()" mem1 m1] ok f by simp_all
        show "length (slots (strms conn)) \<le> length (slots (strms ?d))"
          using map_insert_length [OF mi disjI1 [OF ok]] by simp
        show "stream_id strm = sid" by (rule f)
        show "strm = (let (a, b) = stream_max_offsets conn sid;
                    strm = dwnx_strm_init sid DWNX_STRM_FLAG_NONE a b (stream_user_data strm)
                in if bidi_stream sid then strm
                   else dwnx_strm_shutdown strm (if conn_local_stream conn sid then DWNX_STRM_FLAG_SHUT_RD
                                                 else DWNX_STRM_FLAG_SHUT_WR))"
          unfolding f(3) by (rule strm_def)
      qed (rule refl)
      ultimately show ?thesis by simp
    qed
  qed
qed

lemma created_kept: "created sid p conn conn' \<Longrightarrow> kept conn conn'"
  by (auto simp: created_def kept_but_def same_reader_def strms_kept_def)

lemma created_strm:
  "created sid p conn conn' \<Longrightarrow> \<exists>strm. strm_store conn' p = Some strm \<and> stream_id strm = sid"
  by (auto simp: created_def)

lemma created_ok:
  assumes c: "created sid p conn conn'" and conn: "conn_ok conn" and opened: "strm_opened conn sid"
    and early: "params_pending conn \<Longrightarrow> conn_local_stream conn sid"
  shows "stays_ok conn conn'"
proof -
  obtain m mp strm where e: "conn' = conn\<lparr>conn_mem := m, conn_next_ptr := p + 1, strms := mp, strm_store := (strm_store conn)(p \<mapsto> strm)\<rparr>"
    and none: "strm_store conn p = None" and id: "stream_id strm = sid"
    using c by (auto simp: created_def)
  have l: "conn_local_stream conn' = conn_local_stream conn" "strm_opened conn' = strm_opened conn"
    unfolding e by (simp_all add: fun_eq_iff conn_local_stream_def conn_idtr_def next_local_id_def strm_opened_def)
  have live: "live_ids (strm_store conn') = insert sid (live_ids (strm_store conn))"
    using none id by (simp add: e live_ids_insert)
  have "conn_ok conn'"
  proof (rule conn_okI)
    show "strms_ok conn'" "queue_ok conn'" using c by (simp_all add: created_def)
    show "ids_ok conn'" using conn_okD(3) [OF conn] opened unfolding ids_ok_def live l by (simp add: e)
    show "flow_ok conn'" "params_ok conn'" "time_ok conn'" "out_ok conn'"
      using conn by (simp_all add: e conn_ok_def flow_ok_def params_ok_def time_ok_def out_ok_def)
    show "early_ok conn'"
      using conn_okD(7) [OF conn] early unfolding early_ok_def live l by (simp add: e conn_has_def params_pending_def)
  qed
  then show ?thesis using created_kept [OF c] by (simp add: stays_ok_def)
qed

section \<open>The functions of the library that a callback may call\<close>

lemma word_sum_room:
  fixes x n m :: "'a::len word"
  shows "n \<le> m \<Longrightarrow> x \<le> m - n \<Longrightarrow> x \<le> x + n" and "n \<le> m \<Longrightarrow> x \<le> m - n \<Longrightarrow> x + n \<le> m"
  by unat_arith+

lemma extend_offset_bounds:
  assumes "off \<le> DWNX_MAX_VARINT"
  shows "off \<le> extend_offset off n" and "extend_offset off n \<le> DWNX_MAX_VARINT"
  using assms word_sum_room [of n DWNX_MAX_VARINT off] by (auto simp: extend_offset_def not_less)

lemma streams_extension_bounds:
  assumes "m \<le> DWNX_MAX_STREAMS"
  shows "m \<le> handle_max_remote_streams_extension m n" and "handle_max_remote_streams_extension m n \<le> DWNX_MAX_STREAMS"
  using assms word_sum_room [of n DWNX_MAX_STREAMS m] by (auto simp: handle_max_remote_streams_extension_def not_less)

lemma extend_max_offset_ok:
  assumes "conn_ok conn"
  shows "stays_ok conn (dwnx_conn_extend_max_offset conn n)"
proof -
  have "flow_ok (dwnx_conn_extend_max_offset conn n)"
    using conn_okD(4) [OF assms] extend_offset_bounds [of "crx_unsent_max_offset conn" n]
    by (auto simp: flow_ok_def dwnx_conn_extend_max_offset_def intro: order.trans)
  then show ?thesis using assms by (simp add: stays_ok_def conn_ok_def dwnx_conn_extend_max_offset_def)
qed

lemma extend_max_streams_ok:
  assumes "conn_ok conn"
  shows "stays_ok conn (dwnx_conn_extend_max_streams_bidi conn n)" and "stays_ok conn (dwnx_conn_extend_max_streams_uni conn n)"
proof -
  have "flow_ok (dwnx_conn_extend_max_streams_bidi conn n)" "flow_ok (dwnx_conn_extend_max_streams_uni conn n)"
    using conn_okD(4) [OF assms] streams_extension_bounds [of "crx_bidi_unsent_max_streams conn" n]
      streams_extension_bounds [of "crx_uni_unsent_max_streams conn" n]
    by (auto simp: flow_ok_def dwnx_conn_extend_max_streams_bidi_def dwnx_conn_extend_max_streams_uni_def intro: order.trans)
  then show "stays_ok conn (dwnx_conn_extend_max_streams_bidi conn n)" "stays_ok conn (dwnx_conn_extend_max_streams_uni conn n)"
    using assms
    by (simp_all add: stays_ok_def conn_ok_def dwnx_conn_extend_max_streams_bidi_def dwnx_conn_extend_max_streams_uni_def)
qed

text \<open>Every one of them keeps the invariant, with every result.\<close>

abbreviation stays :: "('a, 'u) dwnx_conn \<Rightarrow> ('a, 'u, 'r) conn_res \<Rightarrow> bool" where
  "stays conn r \<equiv> wp r (\<lambda>_. stays_ok conn) (\<lambda>_. stays_ok conn)"

lemma stays_mono: "stays c r \<Longrightarrow> stays_ok conn c \<Longrightarrow> stays conn r"
  by (erule wp_mono) (blast intro: stays_ok_trans)+

lemma stays_bind: "stays conn r \<Longrightarrow> (\<And>x c. stays_ok conn c \<Longrightarrow> stays c (f x c)) \<Longrightarrow> stays conn (sbind r f)"
  by (cases r) (auto intro: stays_mono)

lemma stays_okD: "stays_ok conn c \<Longrightarrow> conn_ok c"
  by (simp add: stays_ok_def)

lemma stays_ok_strm: "stays_ok conn c \<Longrightarrow> strm_store conn p = Some s \<Longrightarrow> \<exists>s'. strm_store c p = Some s' \<and> strm_kept s s'"
  using kept_strm [of "{}" conn c p s] by (simp add: stays_ok_def)

lemma push_if_not_stays:
  "conn_ok conn \<Longrightarrow> strm_store conn p \<noteq> None \<Longrightarrow> stays conn (dwnx_conn_tx_strmq_push_if_not conn p)"
  by (rule wp_mono [OF push_if_not_stays_ok]) auto

lemma flag_step:
  "strm_ok s \<Longrightarrow> strm_step (strm_set fl) s" "strm_ok s \<Longrightarrow> strm_step (strm_clear fl) s"
  "strm_ok s \<Longrightarrow> strm_step (\<lambda>s. dwnx_strm_shutdown s fl) s"
  by (simp_all add: strm_step_def)

lemma strm_set_kept: "fl AND DWNX_STRM_FLAG_SHUT_RD = 0 \<Longrightarrow> strm_kept s (strm_set fl s)"
  by (simp add: strm_kept_def strm_has_set) (simp add: strm_set_def)

lemma upd_push_stays:
  assumes conn: "conn_ok conn" and p: "strm_store conn p = Some s" and f: "strm_step f s" "strm_kept s (f s)"
  shows "stays conn (dwnx_conn_tx_strmq_push_if_not (upd_strm p f conn) p)"
proof -
  have u: "stays_ok conn (upd_strm p f conn)" by (rule upd_strm_stays_ok [OF conn p f])
  have "stays (upd_strm p f conn) (dwnx_conn_tx_strmq_push_if_not (upd_strm p f conn) p)"
    using u p by (intro push_if_not_stays) (simp_all add: stays_ok_def)
  then show ?thesis using u by (rule stays_mono)
qed

lemma reset_stream_stays:
  assumes "conn_ok conn" and "strm_store conn p = Some s" and "code \<le> DWNX_MAX_VARINT"
  shows "stays conn (conn_reset_stream conn p code)" and "stays conn (conn_stop_sending conn p code)"
proof -
  have "strm_ok s" using assms conn_okD(1) strms_ok_strm by blast
  then show "stays conn (conn_reset_stream conn p code)" "stays conn (conn_stop_sending conn p code)"
    unfolding conn_reset_stream_def conn_stop_sending_def
    using assms(3)
    by (intro upd_push_stays [OF assms(1,2)];
        simp add: strm_step_def strm_ok_def strm_set_def strm_kept_def strm_has_def bit.conj_disj_distrib2)+
qed

lemma extend_max_stream_offset_stays:
  assumes conn: "conn_ok conn"
  shows "stays conn (dwnx_conn_extend_max_stream_offset conn sid n)"
proof (cases "map_abs (strms conn) (u64_of_i64 sid)")
  case None
  then show ?thesis
    using stays_ok_refl [OF conn]
    by (simp add: dwnx_conn_extend_max_stream_offset_def find_stream_wp [OF conn_okD(1) [OF conn]])
next
  case (Some p)
  obtain s where s: "strm_store conn p = Some s" using strms_ok_alive [OF conn_okD(1) [OF conn] Some] by blast
  have ok: "strm_ok s" using s conn_okD(1) [OF conn] strms_ok_strm by blast
  let ?f = "\<lambda>strm. strm\<lparr>rx_unsent_max_offset := extend_offset (rx_unsent_max_offset strm) n\<rparr>"
  have f: "strm_step ?f s" "strm_kept s (?f s)"
    using ok extend_offset_bounds [of "rx_unsent_max_offset s" n]
    by (auto simp: strm_step_def strm_ok_def strm_kept_def strm_has_def intro: order.trans)
  have u: "stays_ok conn (upd_strm p ?f conn)" by (rule upd_strm_stays_ok [OF conn s f])
  show ?thesis
    using u upd_push_stays [OF conn s f] s Some
    by (simp add: dwnx_conn_extend_max_stream_offset_def find_stream_wp [OF conn_okD(1) [OF conn]] wp_if Let_def stays_ok_refl [OF conn])
qed

lemma shutdown_write_stays:
  assumes conn: "conn_ok conn" and p: "strm_store conn p = Some s" and code: "code \<le> DWNX_MAX_VARINT"
  shows "stays conn (conn_shutdown_stream_write conn p code)"
proof (cases "strm_has s DWNX_STRM_FLAG_SHUT_WR")
  case True
  then show ?thesis using p stays_ok_refl [OF conn] by (simp add: conn_shutdown_stream_write_def)
next
  case False
  let ?f = "strm_set (DWNX_STRM_FLAG_SHUT_WR OR DWNX_STRM_FLAG_RESET_STREAM)"
  have ok: "strm_ok s" using p conn_okD(1) [OF conn] strms_ok_strm by blast
  have u: "stays_ok conn (upd_strm p ?f conn)"
    by (intro upd_strm_stays_ok [OF conn p] flag_step [OF ok] strm_set_kept) simp
  have "stays (upd_strm p ?f conn) (conn_reset_stream (upd_strm p ?f conn) p code)"
    using p by (intro reset_stream_stays(1) [OF stays_okD [OF u] _ code]) simp
  then show ?thesis using False p stays_mono [OF _ u] by (simp add: conn_shutdown_stream_write_def)
qed

lemma shutdown_read_stays:
  assumes conn: "conn_ok conn" and p: "strm_store conn p = Some s" and code: "code \<le> DWNX_MAX_VARINT"
  shows "stays conn (conn_shutdown_stream_read conn p code)"
proof (cases "strm_has s (DWNX_STRM_FLAG_STOP_SENDING OR DWNX_STRM_FLAG_SHUT_RD)")
  case True
  then show ?thesis using p stays_ok_refl [OF conn] by (simp add: conn_shutdown_stream_read_def)
next
  case False
  let ?f = "strm_set DWNX_STRM_FLAG_STOP_SENDING"
  have ok: "strm_ok s" using p conn_okD(1) [OF conn] strms_ok_strm by blast
  have u: "stays_ok conn (upd_strm p ?f conn)"
    by (intro upd_strm_stays_ok [OF conn p] flag_step [OF ok] strm_set_kept) simp
  have "stays (upd_strm p ?f conn) (conn_stop_sending (upd_strm p ?f conn) p code)"
    using p by (intro reset_stream_stays(2) [OF stays_okD [OF u] _ code]) simp
  then show ?thesis using False p stays_mono [OF _ u] by (simp add: conn_shutdown_stream_read_def)
qed

lemma shutdown_stays:
  assumes conn: "conn_ok conn" and code: "code \<le> DWNX_MAX_VARINT"
  shows "stays conn (dwnx_conn_shutdown_stream conn sid code)"
    and "stays conn (dwnx_conn_shutdown_stream_write conn sid code)"
    and "stays conn (dwnx_conn_shutdown_stream_read conn sid code)"
proof -
  note s = conn_okD(1) [OF conn] and refl = stays_ok_refl [OF conn]
  note find = find_stream_wp [OF s]
  have r: "stays conn (conn_shutdown_stream_read conn p code)" and w: "stays conn (conn_shutdown_stream_write conn p code)"
    if "map_abs (strms conn) (u64_of_i64 sid) = Some p" for p
    using strms_ok_alive [OF s that] shutdown_read_stays [OF conn _ code] shutdown_write_stays [OF conn _ code] by blast+
  show "stays conn (dwnx_conn_shutdown_stream_write conn sid code)"
    using w refl by (simp add: dwnx_conn_shutdown_stream_write_def find split: option.split)
  show "stays conn (dwnx_conn_shutdown_stream_read conn sid code)"
    using r refl by (simp add: dwnx_conn_shutdown_stream_read_def find split: option.split)
  show "stays conn (dwnx_conn_shutdown_stream conn sid code)"
  proof (cases "map_abs (strms conn) (u64_of_i64 sid)")
    case None
    then show ?thesis using refl by (simp add: dwnx_conn_shutdown_stream_def find)
  next
    case (Some p)
    obtain strm where p: "strm_store conn p = Some strm" using strms_ok_alive [OF s Some] by blast
    have w: "stays c (if bidi_stream sid \<or> conn_local_stream c sid then conn_shutdown_stream_write c p code else SOk () c)"
      if c: "stays_ok conn c" for c
      using stays_ok_strm [OF c p] shutdown_write_stays [OF stays_okD [OF c] _ code] stays_ok_refl [OF stays_okD [OF c]] by auto
    have "stays conn (sbind (if bidi_stream sid \<or> \<not> conn_local_stream conn sid
                  then conn_shutdown_stream_read conn p code else SOk () conn) (\<lambda>_ conn.
           if bidi_stream sid \<or> conn_local_stream conn sid
           then conn_shutdown_stream_write conn p code else SOk () conn))"
      by (rule stays_bind) (use r [OF Some] refl w in simp_all)
    then show ?thesis unfolding dwnx_conn_shutdown_stream_def find sbind.simps Some option.case .
  qed
qed

section \<open>Opening local streams\<close>

lemma bidi_stream_mod: "bidi_stream sid \<longleftrightarrow> sid mod 4 < 2"
proof -
  have "sid AND 2 = 0 \<longleftrightarrow> \<not> bit sid 1"
    using and_exp_eq_0_iff_not_bit [of sid 1] by simp
  also have "bit sid 1 \<longleftrightarrow> odd (sid div 2)" by (simp add: bit_iff_odd)
  finally show ?thesis unfolding bidi_stream_def by presburger
qed

lemma conn_local_stream_mod: "conn_local_stream conn sid \<longleftrightarrow> sid mod 2 = (if server conn then 1 else 0)"
  by (simp add: conn_local_stream_def and_one_eq)

lemma mod4_parity: "(sid :: int) mod 2 = sid mod 4 mod 2"
  by presburger

text \<open>The next ID of a kind is of that kind, and free.\<close>

lemma next_id_kind:
  assumes "ids_ok conn"
  shows "bidi_stream (ctx_bidi_next_stream_id conn)" "\<not> bidi_stream (ctx_uni_next_stream_id conn)"
    "conn_local_stream conn (ctx_bidi_next_stream_id conn)" "conn_local_stream conn (ctx_uni_next_stream_id conn)"
  using assms mod4_parity [of "ctx_bidi_next_stream_id conn"] mod4_parity [of "ctx_uni_next_stream_id conn"]
  by (cases "server conn"; simp add: ids_ok_def local_id_def bidi_stream_mod conn_local_stream_mod)+

lemma ord_stream_id_le:
  assumes "0 \<le> sid" and "sid \<le> 2 ^ 62 + 3" and "m \<le> DWNX_MAX_STREAMS" and "dwnx_ord_stream_id sid \<le> m"
  shows "sid < 2 ^ 62"
proof (rule ccontr)
  assume "\<not> sid < 2 ^ 62"
  then have "sid div 4 = 2 ^ 60" using assms(2) by simp
  then have "dwnx_ord_stream_id sid = 2 ^ 60 + 1"
    by (simp add: dwnx_ord_stream_id_def drop_bit_eq_div u64_of_i64_def)
  then show False using assms(3,4) by (simp add: DWNX_MAX_STREAMS_def word_le_nat_alt)
qed

lemma local_id_free:
  assumes conn: "conn_ok conn" and sid: "0 \<le> sid" "sid < 2 ^ 62"
    and l: "conn_local_stream conn sid" and n: "next_local_id conn sid \<le> sid"
  shows "map_abs (strms conn) (u64_of_i64 sid) = None"
proof (rule ccontr)
  assume "\<not> ?thesis"
  then obtain p where p: "map_abs (strms conn) (u64_of_i64 sid) = Some p" by auto
  obtain s where "strm_store conn p = Some s" "stream_id s = sid"
    using find_stream_alive [OF conn_okD(1) [OF conn] p sid] by blast
  then have "sid \<in> live_ids (strm_store conn)" using live_idsI by blast
  then show False using conn_okD(3) [OF conn] l n by (auto simp: ids_ok_def strm_opened_def)
qed

lemma next_id_step:
  assumes conn: "conn_ok conn" and c: "created sid p conn c" and l: "conn_local_stream conn sid"
    and n: "next_local_id conn sid = sid" and sid: "sid < 2 ^ 62" and k: "ids_ok conn"
  shows "bidi_stream sid \<Longrightarrow> stays_ok conn (c\<lparr>ctx_bidi_next_stream_id := sid + 4\<rparr>)"
    and "\<not> bidi_stream sid \<Longrightarrow> stays_ok conn (c\<lparr>ctx_uni_next_stream_id := sid + 4\<rparr>)"
proof -
  obtain m mp strm where e: "c = conn\<lparr>conn_mem := m, conn_next_ptr := p + 1, strms := mp, strm_store := (strm_store conn)(p \<mapsto> strm)\<rparr>"
    and none: "strm_store conn p = None" and id: "stream_id strm = sid"
    using c by (auto simp: created_def)
  have live: "live_ids (strm_store c) = insert sid (live_ids (strm_store conn))"
    using none id by (simp add: e live_ids_insert)
  have op: "\<And>x. x \<in> live_ids (strm_store conn) \<Longrightarrow> strm_opened conn x" using k by (simp add: ids_ok_def)
  have early: "early_ok c"
    using conn_okD(7) [OF conn] l unfolding early_ok_def live by (simp add: e conn_has_def params_pending_def)
  have rest: "flow_ok c" "params_ok c" "time_ok c" "out_ok c" "strms_ok c" "queue_ok c"
    using conn c by (simp_all add: e conn_ok_def created_def)
  note kept = created_kept [OF c]
  { assume b: "bidi_stream sid"
    let ?d = "c\<lparr>ctx_bidi_next_stream_id := sid + 4\<rparr>"
    have nb: "ctx_bidi_next_stream_id conn = sid" using n b by (simp add: next_local_id_def)
    have "strm_opened ?d x" if "x \<in> live_ids (strm_store ?d)" for x
      using that op [of x] live l b nb
      by (auto simp: e strm_opened_def next_local_id_def conn_idtr_def conn_local_stream_def)
    then have "ids_ok ?d"
      using k nb sid by (auto simp: ids_ok_def e local_id_def)
    then show "stays_ok conn ?d" using rest early kept by (simp add: stays_ok_def conn_ok_def)
  next
    assume b: "\<not> bidi_stream sid"
    let ?d = "c\<lparr>ctx_uni_next_stream_id := sid + 4\<rparr>"
    have nb: "ctx_uni_next_stream_id conn = sid" using n b by (simp add: next_local_id_def)
    have "strm_opened ?d x" if "x \<in> live_ids (strm_store ?d)" for x
      using that op [of x] live l b nb
      by (auto simp: e strm_opened_def next_local_id_def conn_idtr_def conn_local_stream_def)
    then have "ids_ok ?d"
      using k nb sid by (auto simp: ids_ok_def e local_id_def)
    then show "stays_ok conn ?d" using rest early kept by (simp add: stays_ok_def conn_ok_def) }
qed

lemma open_stream_stays:
  assumes conn: "conn_ok conn"
  shows "stays conn (dwnx_conn_open_bidi_stream conn user_data)" and "stays conn (dwnx_conn_open_uni_stream conn user_data)"
proof -
  note ids = conn_okD(3) [OF conn] and refl = stays_ok_refl [OF conn] and kind = next_id_kind [OF conn_okD(3) [OF conn]]
  let ?b = "ctx_bidi_next_stream_id conn" and ?u = "ctx_uni_next_stream_id conn"
  show "stays conn (dwnx_conn_open_bidi_stream conn user_data)"
  proof (cases "dwnx_conn_get_streams_bidi_left conn = 0")
    case True
    then show ?thesis using refl by (simp add: dwnx_conn_open_bidi_stream_def)
  next
    case False
    then have "dwnx_ord_stream_id ?b \<le> ctx_bidi_max_streams conn"
      by (auto simp: dwnx_conn_get_streams_bidi_left_def Let_def not_less split: if_splits)
    then have b: "0 \<le> ?b" "?b < 2 ^ 62"
      using ids ord_stream_id_le [of ?b "ctx_bidi_max_streams conn"] by (auto simp: ids_ok_def local_id_def)
    have n: "next_local_id conn ?b = ?b" using kind(1) by (simp add: next_local_id_def)
    have "map_abs (strms conn) (u64_of_i64 ?b) = None" using local_id_free [OF conn b kind(3)] n by simp
    from create_stream_wp [OF conn b this, of user_data]
    have "stays conn (sbind (dwnx_conn_create_stream conn ?b user_data) (\<lambda>_ c.
        let sid = ctx_bidi_next_stream_id c in SOk sid (c\<lparr>ctx_bidi_next_stream_id := sid + 4\<rparr>)))"
      unfolding wp_sbind
    proof (rule wp_mono, goal_cases)
      case (1 p c)
      have "ctx_bidi_next_stream_id c = ?b" using 1 by (auto simp: created_def)
      then show ?case using next_id_step(1) [OF conn 1 kind(3) n b(2) ids kind(1)] by (simp add: Let_def)
    qed simp
    then show ?thesis using False by (simp add: dwnx_conn_open_bidi_stream_def)
  qed
  show "stays conn (dwnx_conn_open_uni_stream conn user_data)"
  proof (cases "dwnx_conn_get_streams_uni_left conn = 0")
    case True
    then show ?thesis using refl by (simp add: dwnx_conn_open_uni_stream_def)
  next
    case False
    then have "dwnx_ord_stream_id ?u \<le> ctx_uni_max_streams conn"
      by (auto simp: dwnx_conn_get_streams_uni_left_def Let_def not_less split: if_splits)
    then have u: "0 \<le> ?u" "?u < 2 ^ 62"
      using ids ord_stream_id_le [of ?u "ctx_uni_max_streams conn"] by (auto simp: ids_ok_def local_id_def)
    have n: "next_local_id conn ?u = ?u" using kind(2) by (simp add: next_local_id_def)
    have "map_abs (strms conn) (u64_of_i64 ?u) = None" using local_id_free [OF conn u kind(4)] n by simp
    from create_stream_wp [OF conn u this, of user_data]
    have "stays conn (sbind (dwnx_conn_create_stream conn ?u user_data) (\<lambda>_ c.
        let sid = ctx_uni_next_stream_id c in SOk sid (c\<lparr>ctx_uni_next_stream_id := sid + 4\<rparr>)))"
      unfolding wp_sbind
    proof (rule wp_mono, goal_cases)
      case (1 p c)
      have "ctx_uni_next_stream_id c = ?u" using 1 by (auto simp: created_def)
      then show ?case using next_id_step(2) [OF conn 1 kind(4) n u(2) ids kind(2)] by (simp add: Let_def)
    qed simp
    then show ?thesis using False by (simp add: dwnx_conn_open_uni_stream_def)
  qed
qed

section \<open>The application\<close>

text \<open>A call of the library returns the connection in the state \<open>conn'\<close>.\<close>

definition returns :: "('s, 'r) sres \<Rightarrow> 's \<Rightarrow> bool" where
  "returns r s \<longleftrightarrow> (\<exists>x. r = SOk x s) \<or> (\<exists>e. r = SErr e s)"

lemma wp_returns: "wp r (\<lambda>_. Q) (\<lambda>_. Q) \<Longrightarrow> returns r s \<Longrightarrow> Q s"
  by (auto simp: returns_def)

inductive app_step :: "('a, 'u) dwnx_conn \<Rightarrow> ('a, 'u) dwnx_conn \<Rightarrow> bool" where
  app_data: "app_step conn (conn\<lparr>conn_user_data := d\<rparr>)"
| app_extend_offset: "app_step conn (dwnx_conn_extend_max_offset conn n)"
| app_extend_stream: "returns (dwnx_conn_extend_max_stream_offset conn sid n) conn' \<Longrightarrow> app_step conn conn'"
| app_extend_bidi: "app_step conn (dwnx_conn_extend_max_streams_bidi conn n)"
| app_extend_uni: "app_step conn (dwnx_conn_extend_max_streams_uni conn n)"
| app_shutdown: "code \<le> DWNX_MAX_VARINT \<Longrightarrow> returns (dwnx_conn_shutdown_stream conn sid code) conn' \<Longrightarrow> app_step conn conn'"
| app_shutdown_write: "code \<le> DWNX_MAX_VARINT \<Longrightarrow> returns (dwnx_conn_shutdown_stream_write conn sid code) conn' \<Longrightarrow> app_step conn conn'"
| app_shutdown_read: "code \<le> DWNX_MAX_VARINT \<Longrightarrow> returns (dwnx_conn_shutdown_stream_read conn sid code) conn' \<Longrightarrow> app_step conn conn'"
| app_open_bidi: "returns (dwnx_conn_open_bidi_stream conn ud) conn' \<Longrightarrow> app_step conn conn'"
| app_open_uni: "returns (dwnx_conn_open_uni_stream conn ud) conn' \<Longrightarrow> app_step conn conn'"

inductive app_steps :: "('a, 'u) dwnx_conn \<Rightarrow> ('a, 'u) dwnx_conn \<Rightarrow> bool" where
  app_none: "app_steps conn conn"
| app_more: "app_steps conn c \<Longrightarrow> app_step c conn' \<Longrightarrow> app_steps conn conn'"

text \<open>What is assumed of the callbacks.\<close>

definition app_ok :: "('a, 'u) dwnx_callbacks \<Rightarrow> bool" where
  "app_ok cb \<longleftrightarrow> (\<forall>ev f conn. cb ev = Some f \<longrightarrow> app_steps conn (snd (f conn)))"

lemma user_data_stays_ok: "conn_ok conn \<Longrightarrow> stays_ok conn (conn\<lparr>conn_user_data := d\<rparr>)"
  by (simp add: stays_ok_def conn_ok_def)

lemma app_step_ok: "app_step conn conn' \<Longrightarrow> conn_ok conn \<Longrightarrow> stays_ok conn conn'"
proof (induction rule: app_step.induct)
  case (app_extend_stream conn sid n conn')
  then show ?case using wp_returns [OF extend_max_stream_offset_stays] by blast
next
  case (app_shutdown code conn sid conn')
  then show ?case using wp_returns [OF shutdown_stays(1)] by blast
next
  case (app_shutdown_write code conn sid conn')
  then show ?case using wp_returns [OF shutdown_stays(2)] by blast
next
  case (app_shutdown_read code conn sid conn')
  then show ?case using wp_returns [OF shutdown_stays(3)] by blast
next
  case (app_open_bidi conn ud conn')
  then show ?case using wp_returns [OF open_stream_stays(1) [OF app_open_bidi(2)] app_open_bidi(1)] by simp
next
  case (app_open_uni conn ud conn')
  then show ?case using wp_returns [OF open_stream_stays(2) [OF app_open_uni(2)] app_open_uni(1)] by simp
qed (auto intro: user_data_stays_ok extend_max_offset_ok extend_max_streams_ok)

lemma app_steps_ok: "app_steps conn conn' \<Longrightarrow> conn_ok conn \<Longrightarrow> stays_ok conn conn'"
proof (induction rule: app_steps.induct)
  case (app_more conn c conn')
  then have c: "stays_ok conn c" by simp
  then have "stays_ok c conn'" using app_more.hyps(2) app_step_ok stays_okD by blast
  then show ?case by (rule stays_ok_trans [OF c])
qed (rule stays_ok_refl)

lemma conn_call_wp:
  assumes "app_ok cb" and "conn_ok conn"
  shows "wp (conn_call cb ev conn) (\<lambda>_. stays_ok conn) (\<lambda>e conn'. e = ERR_CALLBACK_FAILURE \<and> stays_ok conn conn')"
proof (cases "cb ev")
  case None
  then show ?thesis using stays_ok_refl [OF assms(2)] by (simp add: conn_call_def)
next
  case (Some f)
  then have "app_steps conn (snd (f conn))" using assms(1) by (simp add: app_ok_def)
  then have "stays_ok conn (snd (f conn))" by (rule app_steps_ok [OF _ assms(2)])
  then show ?thesis using Some by (cases "f conn") (simp add: conn_call_def)
qed

section \<open>Closing a stream\<close>

lemma map_shift_loop_hashbits: "map_shift_loop fuel m i j = Ok m' \<Longrightarrow> hashbits m' = hashbits m"
proof (induction fuel arbitrary: m i j)
  case (Suc fuel)
  show ?case using Suc.prems Suc.IH by (auto simp: Let_def map_set_entry_def split: if_splits)
qed simp

lemma map_remove_hashbits: "dwnx_map_remove m k = Ok m' \<Longrightarrow> hashbits m' = hashbits m"
  by (auto simp: dwnx_map_remove_def bindr_eq_Ok Let_def dest!: map_shift_loop_hashbits split: if_splits res.splits option.splits)

lemma queue_delete:
  assumes q: "queue_but {p} conn" and p: "p \<notin> set (pq_q (ctx_strmq conn))"
  shows "queue_ok (conn\<lparr>strm_store := (strm_store conn)(p := None)\<rparr>)"
proof -
  let ?st = "(strm_store conn)(p := None)" and ?q = "pq_q (ctx_strmq conn)"
  have ne: "?q ! i \<noteq> p" if "i < length ?q" for i using p that by (metis nth_mem)
  have "heap (cycle_less ?st) ?q = heap (cycle_less (strm_store conn)) ?q"
  proof -
    have "cycle_less ?st (?q ! i) (?q ! j) = cycle_less (strm_store conn) (?q ! i) (?q ! j)"
      if "i < length ?q" "j < length ?q" for i j
      using ne [OF that(1)] ne [OF that(2)] by (simp add: cycle_less_def)
    moreover have "(i - 1) div 2 < length ?q" if "i < length ?q" for i using that by linarith
    ultimately show ?thesis by (simp add: heap_def)
  qed
  moreover have "index_ok (?q, strm_index ?st) = index_ok (?q, strm_index (strm_store conn))"
    using ne by (auto simp: index_ok_def strm_index_def)
  moreover have "r \<in> set ?q" if "strm_index ?st r \<noteq> None" for r
  proof -
    have "r \<noteq> p" "strm_index (strm_store conn) r \<noteq> None"
      using that by (auto simp: strm_index_def split: if_splits)
    then show ?thesis using q by (auto simp: queue_but_def)
  qed
  ultimately show ?thesis
    using q p by (auto simp: queue_but_def pq_inv_def)
qed

lemma delete_strms_ok:
  assumes s: "strms_ok conn" and p: "strm_store conn p = Some strm"
    and m: "dwnx_map_inv m" "map_abs m = (map_abs (strms conn))(u64_of_i64 (stream_id strm) := None)"
  shows "strms_ok (conn\<lparr>strms := m, strm_store := (strm_store conn)(p := None)\<rparr>)"
proof -
  have map: "\<And>q k. map_abs (strms conn) k = Some q \<longleftrightarrow> strm_key (strm_store conn) q = Some k"
    and ptr: "\<And>q s. strm_store conn q = Some s \<Longrightarrow> strm_ok s \<and> q < conn_next_ptr conn"
    using s by (auto simp: strms_ok_def)
  have k: "strm_key (strm_store conn) p = Some (u64_of_i64 (stream_id strm))" using p by (simp add: strm_key_def)
  have key: "strm_key ((strm_store conn)(p := None)) = (strm_key (strm_store conn))(p := None)"
    by (simp add: fun_eq_iff strm_key_def)
  have "map_abs m k' = Some q \<longleftrightarrow> strm_key ((strm_store conn)(p := None)) q = Some k'" for q k'
    unfolding m(2) key using map [of k' q] map [of k' p] k by auto
  then show ?thesis using m(1) ptr by (auto simp: strms_ok_def split: if_splits)
qed

lemma live_ids_delete: "live_ids (store(p := None)) \<subseteq> live_ids store"
  by (auto simp: live_ids_def ran_def split: if_splits)

lemma delete_parts:
  assumes "ids_ok conn" and "early_ok conn"
  shows "ids_ok (conn\<lparr>strms := m, strm_store := (strm_store conn)(p := None)\<rparr>)"
    and "early_ok (conn\<lparr>strms := m, strm_store := (strm_store conn)(p := None)\<rparr>)"
  using assms live_ids_delete [of "strm_store conn" p]
  by (auto simp: ids_ok_def early_ok_def subset_iff)

definition strm_closed :: "strm_ptr \<Rightarrow> ('a, 'u) dwnx_conn \<Rightarrow> ('a, 'u) dwnx_conn \<Rightarrow> bool" where
  "strm_closed p conn conn' \<longleftrightarrow> conn_ok conn' \<and> kept_but {p} conn conn' \<and> strm_store conn' p = None"

lemma close_stream_tail:
  assumes conn: "conn_ok conn" and p: "strm_store conn p = Some strm"
  shows "wp (case dwnx_map_remove (strms conn) (u64_of_i64 (stream_id strm)) of
       Err e \<Rightarrow> sassert (e \<noteq> ERR_INVALID_ARGUMENT) (SErr e conn)
     | Abort \<Rightarrow> SAbort
     | Ok m \<Rightarrow>
         (let conn = conn\<lparr>strms := m\<rparr>
          in sbind (if dwnx_strm_is_tx_queued strm then conn_strmq_remove conn p else SOk () conn) (\<lambda>_ conn.
             SOk () (conn\<lparr>strm_store := (strm_store conn)(p := None)\<rparr>))))
     (\<lambda>_. strm_closed p conn) (\<lambda>_ _. False)"
proof -
  note s = conn_okD(1) [OF conn] and q = conn_okD(2) [OF conn]
  let ?k = "u64_of_i64 (stream_id strm)"
  have "map_abs (strms conn) ?k \<noteq> None" using strms_ok_map [OF s p] by simp
  then obtain m where m: "dwnx_map_remove (strms conn) ?k = Ok m" "dwnx_map_inv m"
    "map_abs m = (map_abs (strms conn))(?k := None)"
    using dmap.remove_present [of "strms conn" ?k] s by (auto simp: strms_ok_def)
  have len: "length (slots m) = length (slots (strms conn))"
    using map_inv_length [OF m(2)] map_inv_length [of "strms conn"] map_remove_hashbits [OF m(1)] s
    by (simp add: strms_ok_def)
  let ?c = "conn\<lparr>strms := m\<rparr>"
  have result: "strm_closed p conn (c\<lparr>strm_store := (strm_store c)(p := None)\<rparr>)"
    if c: "queue_changed ?c c" "queue_but {p} c" "p \<notin> set (pq_q (ctx_strmq c))" for c
  proof -
    obtain mm pq idx where e: "c = conn\<lparr>strms := m, conn_mem := mm, ctx_strmq := pq, strm_store := put_index idx (strm_store conn)\<rparr>"
      using c(1) by (auto simp: queue_changed_def)
    let ?d = "conn\<lparr>conn_mem := mm, ctx_strmq := pq, strm_store := put_index idx (strm_store conn)\<rparr>"
    have qc: "queue_changed conn ?d" by (auto simp: queue_changed_def)
    have d: "strms_ok ?d" "ids_ok ?d" "flow_ok ?d" "params_ok ?d" "time_ok ?d" "early_ok ?d" "out_ok ?d"
      using queue_changed_parts [OF qc] conn by (simp_all only: conn_ok_def)
    have fin: "c\<lparr>strm_store := (strm_store c)(p := None)\<rparr> = ?d\<lparr>strms := m, strm_store := (strm_store ?d)(p := None)\<rparr>"
      by (simp add: e)
    obtain i where pd: "strm_store ?d p = Some (strm\<lparr>pe_index := i\<rparr>)" using queue_changed_store [OF qc p] by blast
    have "strms_ok (?d\<lparr>strms := m, strm_store := (strm_store ?d)(p := None)\<rparr>)"
      using m by (intro delete_strms_ok [OF d(1) pd]) simp_all
    moreover note delete_parts [OF d(2,6), where m = m and p = p]
    moreover have "queue_ok (c\<lparr>strm_store := (strm_store c)(p := None)\<rparr>)" by (rule queue_delete [OF c(2,3)])
    ultimately have "conn_ok (c\<lparr>strm_store := (strm_store c)(p := None)\<rparr>)"
      using d(3-5,7) unfolding fin by (simp add: conn_ok_def)
    moreover have "kept_but {p} conn (c\<lparr>strm_store := (strm_store c)(p := None)\<rparr>)"
      using len by (auto simp: e kept_but_def same_reader_def strms_kept_def put_index_Some)
    ultimately show ?thesis by (simp add: strm_closed_def)
  qed
  show ?thesis
  proof (cases "dwnx_strm_is_tx_queued strm")
    case True
    have "p \<in> set (pq_q (ctx_strmq ?c))" using True queue_index [OF q p] by simp
    from strmq_remove_wp [OF _ _ this]
    have "wp (conn_strmq_remove ?c p) (\<lambda>_ c. queue_changed ?c c \<and> queue_but {p} c \<and>
        set (pq_q (ctx_strmq c)) = set (pq_q (ctx_strmq ?c)) - {p}) (\<lambda>_ _. False)"
      using queue_window [OF s q] q by simp
    then show ?thesis
      using True m(1) result by (auto elim!: wp_mono)
  next
    case False
    then have "queue_but {p} ?c" "p \<notin> set (pq_q (ctx_strmq ?c))"
      using q queue_index [OF q p] by (auto simp: queue_but_def)
    then show ?thesis using False m(1) result [OF queue_changed_refl] by simp
  qed
qed

lemma close_stream_wp:
  assumes cb: "app_ok cb" and conn: "conn_ok conn" and p: "strm_store conn p \<noteq> None"
  shows "wp (dwnx_conn_close_stream cb conn p) (\<lambda>_. strm_closed p conn) (\<lambda>e conn'. e = ERR_CALLBACK_FAILURE)"
proof -
  obtain strm where strm: "strm_store conn p = Some strm" using p by blast
  have tail: "wp (with_strm c p (\<lambda>strm. case dwnx_map_remove (strms c) (u64_of_i64 (stream_id strm)) of
       Err e \<Rightarrow> sassert (e \<noteq> ERR_INVALID_ARGUMENT) (SErr e c)
     | Abort \<Rightarrow> SAbort
     | Ok m \<Rightarrow>
         (let conn = c\<lparr>strms := m\<rparr>
          in sbind (if dwnx_strm_is_tx_queued strm then conn_strmq_remove conn p else SOk () conn) (\<lambda>_ conn.
             SOk () (conn\<lparr>strm_store := (strm_store conn)(p := None)\<rparr>)))))
     (\<lambda>_. strm_closed p conn) (\<lambda>e conn'. e = ERR_CALLBACK_FAILURE)" if c: "stays_ok conn c" for c
  proof -
    obtain s' where s': "strm_store c p = Some s'" using stays_ok_strm [OF c strm] by blast
    have "strm_closed p conn c'" if "strm_closed p c c'" for c'
      using that c kept_trans [of "{p}" conn c c'] kept_mono [of "{}" conn c "{p}"] by (simp add: strm_closed_def stays_ok_def)
    then show ?thesis
      using close_stream_tail [OF stays_okD [OF c] s'] s' by (auto elim!: wp_mono)
  qed
  have call: "wp (conn_call_stream_close cb conn p) (\<lambda>_. stays_ok conn) (\<lambda>e conn'. e = ERR_CALLBACK_FAILURE)"
    unfolding conn_call_stream_close_def using strm by (auto intro: wp_mono [OF conn_call_wp [OF cb conn]])
  show ?thesis
    unfolding dwnx_conn_close_stream_def wp_sbind by (rule wp_mono [OF call]) (use tail in auto)
qed

lemma close_if_shut_wp:
  assumes cb: "app_ok cb" and conn: "conn_ok conn" and p: "strm_store conn p \<noteq> None"
  shows "wp (dwnx_conn_close_stream_if_shut_rdwr cb conn p)
    (\<lambda>_ conn'. stays_ok conn conn' \<or> strm_closed p conn conn') (\<lambda>e conn'. e = ERR_CALLBACK_FAILURE)"
  using p stays_ok_refl [OF conn] wp_mono [OF close_stream_wp [OF assms]]
  by (auto simp: dwnx_conn_close_stream_if_shut_rdwr_def)

end
