(* ===== verification/ConnRead.thy ===== *)
theory ConnRead
  imports ConnRecv
begin

text \<open>
  \<open>dwnx_conn_read\<close> in \<open>lib/dwnx_conn.c\<close>: the state machine that reads records and frames from bytes
  that arrive in pieces of any size. Every case of its switch is one definition, named after the
  state.

  Where a case falls through to the next one, it has just set the state of that case and checked
  that there are bytes left, so falling through is the same as another round of the loop; it is
  \<open>Read_next\<close>. \<open>Frame_done\<close> is \<open>goto frame_done\<close> and \<open>Read_return\<close> is \<open>return 0\<close>.
\<close>

datatype read_next = Read_next bytes | Frame_done bytes | Read_return

type_synonym ('a, 'u) read_res = "('a, 'u, read_next) conn_res"

definition upd_rcrd :: "(dwnx_record_reader \<Rightarrow> dwnx_record_reader) \<Rightarrow> ('a, 'u) dwnx_conn \<Rightarrow> ('a, 'u) dwnx_conn" where
  "upd_rcrd f conn = conn\<lparr>rcrd := f (rcrd conn)\<rparr>"

abbreviation set_state :: "dwnx_record_read_state \<Rightarrow> ('a, 'u) dwnx_conn \<Rightarrow> ('a, 'u) dwnx_conn" where
  "set_state st \<equiv> upd_rcrd (\<lambda>r. r\<lparr>rr_state := st\<rparr>)"

abbreviation set_fr :: "dwnx_frame \<Rightarrow> ('a, 'u) dwnx_conn \<Rightarrow> ('a, 'u) dwnx_conn" where
  "set_fr fr \<equiv> upd_rcrd (\<lambda>r. r\<lparr>rr_fr := fr\<rparr>)"

abbreviation rec_left :: "('a, 'u) dwnx_conn \<Rightarrow> nat" where
  "rec_left conn \<equiv> record_left (rcrd conn)"

text \<open>
  The lines that every case reading a varint begins with: read what there is of it, return when it
  is not complete yet, reset the reader and go on with the reader as it was (its \<open>acc\<close> and \<open>vlen\<close>).
\<close>

definition read_field ::
    "('a, 'u) dwnx_conn \<Rightarrow> bytes \<Rightarrow>
     (dwnx_varint_reader \<Rightarrow> ('a, 'u) dwnx_conn \<Rightarrow> bytes \<Rightarrow> ('a, 'u) read_res) \<Rightarrow> ('a, 'u) read_res" where
  "read_field conn p k =
     (let len = dwnx_record_reader_avail (rcrd conn) (length p)
      in case dwnx_varint_reader_read (vird conn) (take len p) (rec_left conn = len) of
           SAbort \<Rightarrow> SAbort
         | SErr e v \<Rightarrow> SErr ERR_FRAME_ENCODING (conn\<lparr>vird := v\<rparr>)
         | SOk nread v \<Rightarrow>
             let conn = upd_rcrd (\<lambda>r. r\<lparr>record_left := record_left r - nread\<rparr>) (conn\<lparr>vird := v\<rparr>)
             in if \<not> dwnx_varint_reader_done v then SOk Read_return conn
                else k v (conn\<lparr>vird := dwnx_varint_reader_reset\<rparr>) (drop nread p))"

text \<open>\<open>if (rcrd->record_left == 0) return DWNX_ERR_FRAME_ENCODING;\<close> and the next state; at the begin
  of a frame, the members of its kind are set after that.\<close>

definition expect_more :: "('a, 'u) dwnx_conn \<Rightarrow> bytes \<Rightarrow> dwnx_record_read_state \<Rightarrow> ('a, 'u) read_res" where
  "expect_more conn p st =
     (if rec_left conn = 0 then SErr ERR_FRAME_ENCODING conn else SOk (Read_next p) (set_state st conn))"

definition begin_frame ::
    "('a, 'u) dwnx_conn \<Rightarrow> bytes \<Rightarrow> dwnx_frame \<Rightarrow> dwnx_record_read_state \<Rightarrow> ('a, 'u) read_res" where
  "begin_frame conn p fr st =
     (if rec_left conn = 0 then SErr ERR_FRAME_ENCODING conn
      else SOk (Read_next p) (set_state st (set_fr fr conn)))"

text \<open>\<open>rv = handler(...); if (rv != 0) return rv; goto frame_done;\<close>\<close>

definition then_frame_done :: "bytes \<Rightarrow> ('a, 'u, unit) conn_res \<Rightarrow> ('a, 'u) read_res" where
  "then_frame_done p r = sbind r (\<lambda>_ conn. SOk (Frame_done p) conn)"

section \<open>The cases of the switch\<close>

definition read_record_size :: "('a, 'u) dwnx_conn \<Rightarrow> bytes \<Rightarrow> ('a, 'u) read_res" where
  "read_record_size conn p =
     (case dwnx_varint_reader_read (vird conn) p False of
        SAbort \<Rightarrow> SAbort
      | SErr e v \<Rightarrow> SAbort
      | SOk nread v \<Rightarrow>
          sassert (nread > 0)
            (let conn = conn\<lparr>vird := v\<rparr>; p = drop nread p
             in if \<not> dwnx_varint_reader_done v then SOk Read_return conn
                else
                  let vint = acc v; conn = conn\<lparr>vird := dwnx_varint_reader_reset\<rparr>
                  in if vint > max_record_size (local_params conn) \<or> vint = 0
                     then SErr ERR_FRAME_ENCODING conn
                     else SOk (Read_next p)
                            (upd_rcrd (\<lambda>r. r\<lparr>record_left := unat vint, rr_state := READ_STATE_FRAME_TYPE\<rparr>) conn)))"

text \<open>The padding bytes after the first one.\<close>

definition padding_run :: "bytes \<Rightarrow> nat \<Rightarrow> nat" where
  "padding_run p n = length (takeWhile (\<lambda>b. b = 0) (take n p))"

definition read_frame_type ::
    "('a, 'u) dwnx_callbacks \<Rightarrow> ('a, 'u) dwnx_conn \<Rightarrow> bytes \<Rightarrow> ('a, 'u) read_res" where
  "read_frame_type cb conn p =
     read_field conn p (\<lambda>v conn p.
       let vint = acc v; conn = upd_rcrd (\<lambda>r. r\<lparr>rr_typelen := vlen v\<rparr>) conn
       in if \<not> conn_has conn CONN_FLAG_QX_TRANSPORT_PARAMETERS_SEEN \<and> vint \<noteq> DWNX_FRAME_QX_TRANSPORT_PARAMETERS
          then SErr ERR_PROTO conn
          else if vint = DWNX_FRAME_QX_TRANSPORT_PARAMETERS then
            (if conn_has conn CONN_FLAG_QX_TRANSPORT_PARAMETERS_SEEN then SErr ERR_PROTO conn
             else begin_frame (conn_set CONN_FLAG_QX_TRANSPORT_PARAMETERS_SEEN conn) p
                    (Fr_qx_transport_parameters \<lparr>qtp_type = vint, qtp_params = dwnx_transport_params_default\<rparr>)
                    READ_STATE_QX_TRANSPORT_PARAMETERS_LEN)
          else if vint = DWNX_FRAME_QX_PING_REQUEST \<or> vint = DWNX_FRAME_QX_PING_RESPONSE then
            begin_frame conn p (Fr_qx_ping \<lparr>ping_type = vint, ping_seq = 0\<rparr>) READ_STATE_QX_PING_SEQ
          else if vint = DWNX_FRAME_PADDING then
            (let n = padding_run p (rec_left conn)
             in SOk (Frame_done (drop n p))
                  (set_fr (Fr_padding \<lparr>padding_type = DWNX_FRAME_PADDING, padding_len = 1 + n\<rparr>)
                    (upd_rcrd (\<lambda>r. r\<lparr>record_left := record_left r - n\<rparr>) conn)))
          else if vint = DWNX_FRAME_RESET_STREAM then
            begin_frame conn p (Fr_reset_stream \<lparr>rst_type = DWNX_FRAME_RESET_STREAM, rst_stream_id = 0,
                                  rst_app_error_code = 0, rst_final_size = 0\<rparr>) READ_STATE_RESET_STREAM_STREAM_ID
          else if vint = DWNX_FRAME_STOP_SENDING then
            begin_frame conn p (Fr_stop_sending \<lparr>stop_type = DWNX_FRAME_STOP_SENDING, stop_stream_id = 0,
                                  stop_app_error_code = 0\<rparr>) READ_STATE_STOP_SENDING_STREAM_ID
          else if vint = DWNX_FRAME_MAX_DATA then
            begin_frame conn p (Fr_max_data \<lparr>md_type = DWNX_FRAME_MAX_DATA, md_max_data = 0\<rparr>)
              READ_STATE_MAX_DATA_MAX_DATA
          else if vint = DWNX_FRAME_MAX_STREAM_DATA then
            begin_frame conn p (Fr_max_stream_data \<lparr>msd_type = DWNX_FRAME_MAX_STREAM_DATA, msd_stream_id = 0,
                                  msd_max_stream_data = 0\<rparr>) READ_STATE_MAX_STREAM_DATA_STREAM_ID
          else if vint = DWNX_FRAME_MAX_STREAMS_BIDI \<or> vint = DWNX_FRAME_MAX_STREAMS_UNI then
            begin_frame conn p (Fr_max_streams \<lparr>ms_type = vint, ms_max_streams = 0\<rparr>)
              READ_STATE_MAX_STREAMS_MAX_STREAMS
          else if vint = DWNX_FRAME_DATA_BLOCKED then
            begin_frame conn p (Fr_data_blocked \<lparr>db_type = DWNX_FRAME_DATA_BLOCKED, db_max_data = 0\<rparr>)
              READ_STATE_DATA_BLOCKED_OFFSET
          else if vint = DWNX_FRAME_STREAM_DATA_BLOCKED then
            begin_frame conn p (Fr_stream_data_blocked \<lparr>sdb_type = DWNX_FRAME_STREAM_DATA_BLOCKED,
                                  sdb_stream_id = 0, sdb_max_stream_data = 0\<rparr>)
              READ_STATE_STREAM_DATA_BLOCKED_STREAM_ID
          else if vint = DWNX_FRAME_STREAMS_BLOCKED_BIDI \<or> vint = DWNX_FRAME_STREAMS_BLOCKED_UNI then
            begin_frame conn p (Fr_streams_blocked \<lparr>sb_type = vint, sb_max_streams = 0\<rparr>)
              READ_STATE_STREAMS_BLOCKED_MAX_STREAMS
          else if vint = DWNX_FRAME_CONNECTION_CLOSE \<or> vint = DWNX_FRAME_CONNECTION_CLOSE_APP then
            begin_frame conn p (Fr_connection_close \<lparr>cc_type = vint, cc_error_code = 0, cc_frame_type = 0,
                                  cc_reasonlen = 0, cc_reason = []\<rparr>) READ_STATE_CONNECTION_CLOSE_ERROR_CODE
          else if vint = DWNX_FRAME_DATAGRAM then
            (if max_datagram_frame_size (local_params conn) = 0 \<or>
                max_datagram_frame_size (local_params conn) < of_nat (rr_typelen (rcrd conn) + rec_left conn)
             then SErr ERR_PROTO conn
             else
               let conn = set_fr (Fr_datagram \<lparr>dgram_type = vint, dgram_len = rec_left conn, dgram_data = []\<rparr>) conn
               in if rec_left conn = 0 then then_frame_done p (conn_recv_datagram cb conn True 0 0 [])
                  else SOk (Read_next p)
                         (set_state READ_STATE_DATAGRAM_DATA (upd_rcrd (\<lambda>r. r\<lparr>field_left := record_left r\<rparr>) conn)))
          else if vint = DWNX_FRAME_DATAGRAM_LEN then
            (if max_datagram_frame_size (local_params conn) \<le> of_nat (rr_typelen (rcrd conn)) then SErr ERR_PROTO conn
             else begin_frame conn p (Fr_datagram \<lparr>dgram_type = vint, dgram_len = 0, dgram_data = []\<rparr>)
                    READ_STATE_DATAGRAM_LEN)
          else if vint AND NOT (DWNX_FRAME_STREAM - 1) = DWNX_FRAME_STREAM then
            (let fl = ucast (vint AND 0x7) :: u8
             in begin_frame conn p (Fr_stream \<lparr>stream_type = DWNX_FRAME_STREAM, stream_flags = fl,
                  stream_fin = (fl AND DWNX_STREAM_FIN_BIT \<noteq> 0), stream_stream_id = 0, stream_offset = 0,
                  stream_len = 0, stream_data = []\<rparr>) READ_STATE_STREAM_STREAM_ID)
          else SErr ERR_FRAME_ENCODING conn)"

definition read_qx_transport_parameters_len ::
    "('a, 'u) dwnx_callbacks \<Rightarrow> ('a, 'u) dwnx_conn \<Rightarrow> bytes \<Rightarrow> ('a, 'u) read_res" where
  "read_qx_transport_parameters_len cb conn p =
     read_field conn p (\<lambda>v conn p.
       let vint = unat (acc v)
       in if vint > rec_left conn then SErr ERR_FRAME_ENCODING conn
          else if vint = 0 then then_frame_done p (conn_recv_transport_params cb conn [])
          else if vint \<le> length p then
            sbind (conn_recv_transport_params cb conn (take vint p)) (\<lambda>_ conn.
              SOk (Frame_done (drop vint p)) (upd_rcrd (\<lambda>r. r\<lparr>record_left := record_left r - vint\<rparr>) conn))
          else
            let (ok, mem) = mem_alloc (conn_mem conn); conn = conn\<lparr>conn_mem := mem\<rparr>
            in if \<not> ok then SErr ERR_NOMEM conn
               else SOk (Read_next p)
                      (set_state READ_STATE_QX_TRANSPORT_PARAMETERS_PARAMS
                        (upd_rcrd (\<lambda>r. r\<lparr>rr_buf := Some (dwnx_buf_init vint)\<rparr>) conn)))"

text \<open>Copying what there is into the buffer of the reader.\<close>

definition read_into_buf ::
    "('a, 'u) dwnx_conn \<Rightarrow> bytes \<Rightarrow>
     (dwnx_buf \<Rightarrow> ('a, 'u) dwnx_conn \<Rightarrow> bytes \<Rightarrow> ('a, 'u) read_res) \<Rightarrow> ('a, 'u) read_res" where
  "read_into_buf conn p k =
     (case rr_buf (rcrd conn) of
        None \<Rightarrow> SAbort
      | Some buf \<Rightarrow>
          let len = dwnx_record_reader_buf_avail (rcrd conn) buf (length p);
              buf = buf_append buf (take len p);
              conn = upd_rcrd (\<lambda>r. r\<lparr>rr_buf := Some buf, record_left := record_left r - len\<rparr>) conn
          in if dwnx_buf_left buf \<noteq> 0 then SOk Read_return conn else k buf conn (drop len p))"

definition read_qx_transport_parameters_params ::
    "('a, 'u) dwnx_callbacks \<Rightarrow> ('a, 'u) dwnx_conn \<Rightarrow> bytes \<Rightarrow> ('a, 'u) read_res" where
  "read_qx_transport_parameters_params cb conn p =
     read_into_buf conn p (\<lambda>buf conn p.
       then_frame_done p (conn_recv_transport_params cb conn (drop (buf_pos buf) (buf_data buf))))"

definition read_qx_ping_seq ::
    "('a, 'u) dwnx_conn \<Rightarrow> dwnx_tstamp \<Rightarrow> bytes \<Rightarrow> ('a, 'u) read_res" where
  "read_qx_ping_seq conn t p =
     read_field conn p (\<lambda>v conn p.
       case rr_fr (rcrd conn) of
         Fr_qx_ping fr \<Rightarrow>
           let fr = fr\<lparr>ping_seq := acc v\<rparr>
           in then_frame_done p (conn_recv_qx_ping (set_fr (Fr_qx_ping fr) conn) fr t)
       | _ \<Rightarrow> SAbort)"

text \<open>The lines after the header of a STREAM frame is complete.\<close>

definition stream_header_done ::
    "('a, 'u) dwnx_callbacks \<Rightarrow> 'u \<Rightarrow> ('a, 'u) dwnx_conn \<Rightarrow> bytes \<Rightarrow> dwnx_frame_stream \<Rightarrow> nat \<Rightarrow> ('a, 'u) read_res" where
  "stream_header_done cb null conn p fr len =
     (let fr = fr\<lparr>stream_len := len\<rparr>;
          conn = upd_rcrd (\<lambda>r. r\<lparr>rr_fr := Fr_stream fr, field_left := len\<rparr>) conn
      in sbind (conn_recv_stream cb null conn fr) (\<lambda>_ conn.
         if field_left (rcrd conn) = 0 then SOk (Frame_done p) conn
         else SOk (Read_next p) (set_state READ_STATE_STREAM_DATA conn)))"

definition read_stream_stream_id ::
    "('a, 'u) dwnx_callbacks \<Rightarrow> 'u \<Rightarrow> ('a, 'u) dwnx_conn \<Rightarrow> bytes \<Rightarrow> ('a, 'u) read_res" where
  "read_stream_stream_id cb null conn p =
     read_field conn p (\<lambda>v conn p.
       case rr_fr (rcrd conn) of
         Fr_stream fr \<Rightarrow>
           let fr = fr\<lparr>stream_stream_id := i64_of_u64 (acc v)\<rparr>
           in if stream_flags fr AND DWNX_STREAM_OFF_BIT \<noteq> 0 then
                expect_more (set_fr (Fr_stream fr) conn) p READ_STATE_STREAM_OFFSET
              else if stream_flags fr AND DWNX_STREAM_LEN_BIT \<noteq> 0 then
                begin_frame (set_fr (Fr_stream fr) conn) p (Fr_stream (fr\<lparr>stream_offset := 0\<rparr>)) READ_STATE_STREAM_LENGTH
              else stream_header_done cb null conn p (fr\<lparr>stream_offset := 0\<rparr>) (rec_left conn)
       | _ \<Rightarrow> SAbort)"

definition read_stream_offset ::
    "('a, 'u) dwnx_callbacks \<Rightarrow> 'u \<Rightarrow> ('a, 'u) dwnx_conn \<Rightarrow> bytes \<Rightarrow> ('a, 'u) read_res" where
  "read_stream_offset cb null conn p =
     read_field conn p (\<lambda>v conn p.
       case rr_fr (rcrd conn) of
         Fr_stream fr \<Rightarrow>
           let fr = fr\<lparr>stream_offset := acc v\<rparr>
           in if stream_flags fr AND DWNX_STREAM_LEN_BIT \<noteq> 0 then
                expect_more (set_fr (Fr_stream fr) conn) p READ_STATE_STREAM_LENGTH
              else stream_header_done cb null conn p fr (rec_left conn)
       | _ \<Rightarrow> SAbort)"

definition read_stream_length ::
    "('a, 'u) dwnx_callbacks \<Rightarrow> 'u \<Rightarrow> ('a, 'u) dwnx_conn \<Rightarrow> bytes \<Rightarrow> ('a, 'u) read_res" where
  "read_stream_length cb null conn p =
     read_field conn p (\<lambda>v conn p.
       case rr_fr (rcrd conn) of
         Fr_stream fr \<Rightarrow>
           if unat (acc v) > rec_left conn then SErr ERR_FRAME_ENCODING conn
           else stream_header_done cb null conn p fr (unat (acc v))
       | _ \<Rightarrow> SAbort)"

definition read_stream_data ::
    "('a, 'u) dwnx_callbacks \<Rightarrow> ('a, 'u) dwnx_conn \<Rightarrow> bytes \<Rightarrow> ('a, 'u) read_res" where
  "read_stream_data cb conn p =
     (case rr_fr (rcrd conn) of
        Fr_stream fr \<Rightarrow>
          sbind (dwnx_conn_find_stream conn (stream_stream_id fr)) (\<lambda>r conn.
            case r of
              None \<Rightarrow> SAbort
            | Some q \<Rightarrow>
                let len = dwnx_record_reader_field_avail (rcrd conn) (length p)
                in with_strm conn q (\<lambda>strm.
                   sbind (conn_recv_stream_data cb conn q (stream_fin fr \<and> field_left (rcrd conn) = len)
                            (rx_last_offset strm - of_nat (field_left (rcrd conn))) (take len p)) (\<lambda>_ conn.
                   let conn = upd_rcrd (\<lambda>r. r\<lparr>record_left := record_left r - len, field_left := field_left r - len\<rparr>) conn
                   in if field_left (rcrd conn) \<noteq> 0 then SOk Read_return conn
                      else SOk (Frame_done (drop len p)) conn)))
      | _ \<Rightarrow> SAbort)"

definition read_reset_stream_stream_id :: "('a, 'u) dwnx_conn \<Rightarrow> bytes \<Rightarrow> ('a, 'u) read_res" where
  "read_reset_stream_stream_id conn p =
     read_field conn p (\<lambda>v conn p.
       case rr_fr (rcrd conn) of
         Fr_reset_stream fr \<Rightarrow>
           expect_more (set_fr (Fr_reset_stream (fr\<lparr>rst_stream_id := i64_of_u64 (acc v)\<rparr>)) conn) p
             READ_STATE_RESET_STREAM_APP_ERROR_CODE
       | _ \<Rightarrow> SAbort)"

definition read_reset_stream_app_error_code :: "('a, 'u) dwnx_conn \<Rightarrow> bytes \<Rightarrow> ('a, 'u) read_res" where
  "read_reset_stream_app_error_code conn p =
     read_field conn p (\<lambda>v conn p.
       case rr_fr (rcrd conn) of
         Fr_reset_stream fr \<Rightarrow>
           expect_more (set_fr (Fr_reset_stream (fr\<lparr>rst_app_error_code := acc v\<rparr>)) conn) p
             READ_STATE_RESET_STREAM_FINAL_SIZE
       | _ \<Rightarrow> SAbort)"

definition read_reset_stream_final_size ::
    "('a, 'u) dwnx_callbacks \<Rightarrow> 'u \<Rightarrow> ('a, 'u) dwnx_conn \<Rightarrow> bytes \<Rightarrow> ('a, 'u) read_res" where
  "read_reset_stream_final_size cb null conn p =
     read_field conn p (\<lambda>v conn p.
       case rr_fr (rcrd conn) of
         Fr_reset_stream fr \<Rightarrow>
           let fr = fr\<lparr>rst_final_size := acc v\<rparr>
           in then_frame_done p (conn_recv_reset_stream cb null (set_fr (Fr_reset_stream fr) conn) fr)
       | _ \<Rightarrow> SAbort)"

definition read_stop_sending_stream_id :: "('a, 'u) dwnx_conn \<Rightarrow> bytes \<Rightarrow> ('a, 'u) read_res" where
  "read_stop_sending_stream_id conn p =
     read_field conn p (\<lambda>v conn p.
       case rr_fr (rcrd conn) of
         Fr_stop_sending fr \<Rightarrow>
           expect_more (set_fr (Fr_stop_sending (fr\<lparr>stop_stream_id := i64_of_u64 (acc v)\<rparr>)) conn) p
             READ_STATE_STOP_SENDING_APP_ERROR_CODE
       | _ \<Rightarrow> SAbort)"

definition read_stop_sending_app_error_code ::
    "('a, 'u) dwnx_callbacks \<Rightarrow> 'u \<Rightarrow> ('a, 'u) dwnx_conn \<Rightarrow> dwnx_tstamp \<Rightarrow> bytes \<Rightarrow> ('a, 'u) read_res" where
  "read_stop_sending_app_error_code cb null conn t p =
     read_field conn p (\<lambda>v conn p.
       case rr_fr (rcrd conn) of
         Fr_stop_sending fr \<Rightarrow>
           let fr = fr\<lparr>stop_app_error_code := acc v\<rparr>
           in then_frame_done p (conn_recv_stop_sending cb null (set_fr (Fr_stop_sending fr) conn) fr t)
       | _ \<Rightarrow> SAbort)"

definition read_max_data_max_data :: "('a, 'u) dwnx_conn \<Rightarrow> bytes \<Rightarrow> ('a, 'u) read_res" where
  "read_max_data_max_data conn p =
     read_field conn p (\<lambda>v conn p.
       case rr_fr (rcrd conn) of
         Fr_max_data fr \<Rightarrow>
           let fr = fr\<lparr>md_max_data := acc v\<rparr>
           in then_frame_done p (conn_recv_max_data (set_fr (Fr_max_data fr) conn) fr)
       | _ \<Rightarrow> SAbort)"

definition read_max_stream_data_stream_id :: "('a, 'u) dwnx_conn \<Rightarrow> bytes \<Rightarrow> ('a, 'u) read_res" where
  "read_max_stream_data_stream_id conn p =
     read_field conn p (\<lambda>v conn p.
       case rr_fr (rcrd conn) of
         Fr_max_stream_data fr \<Rightarrow>
           expect_more (set_fr (Fr_max_stream_data (fr\<lparr>msd_stream_id := i64_of_u64 (acc v)\<rparr>)) conn) p
             READ_STATE_MAX_STREAM_DATA_MAX_STREAM_DATA
       | _ \<Rightarrow> SAbort)"

definition read_max_stream_data_max_stream_data ::
    "('a, 'u) dwnx_callbacks \<Rightarrow> 'u \<Rightarrow> ('a, 'u) dwnx_conn \<Rightarrow> dwnx_tstamp \<Rightarrow> bytes \<Rightarrow> ('a, 'u) read_res" where
  "read_max_stream_data_max_stream_data cb null conn t p =
     read_field conn p (\<lambda>v conn p.
       case rr_fr (rcrd conn) of
         Fr_max_stream_data fr \<Rightarrow>
           let fr = fr\<lparr>msd_max_stream_data := acc v\<rparr>
           in then_frame_done p (conn_recv_max_stream_data cb null (set_fr (Fr_max_stream_data fr) conn) fr t)
       | _ \<Rightarrow> SAbort)"

definition read_max_streams_max_streams ::
    "('a, 'u) dwnx_callbacks \<Rightarrow> ('a, 'u) dwnx_conn \<Rightarrow> bytes \<Rightarrow> ('a, 'u) read_res" where
  "read_max_streams_max_streams cb conn p =
     read_field conn p (\<lambda>v conn p.
       case rr_fr (rcrd conn) of
         Fr_max_streams fr \<Rightarrow>
           let fr = fr\<lparr>ms_max_streams := acc v\<rparr>
           in then_frame_done p (conn_recv_max_streams cb (set_fr (Fr_max_streams fr) conn) fr)
       | _ \<Rightarrow> SAbort)"

definition read_data_blocked_offset :: "('a, 'u) dwnx_conn \<Rightarrow> bytes \<Rightarrow> ('a, 'u) read_res" where
  "read_data_blocked_offset conn p =
     read_field conn p (\<lambda>v conn p.
       case rr_fr (rcrd conn) of
         Fr_data_blocked fr \<Rightarrow>
           let fr = fr\<lparr>db_max_data := acc v\<rparr>
           in then_frame_done p (conn_recv_data_blocked (set_fr (Fr_data_blocked fr) conn) fr)
       | _ \<Rightarrow> SAbort)"

definition read_stream_data_blocked_stream_id :: "('a, 'u) dwnx_conn \<Rightarrow> bytes \<Rightarrow> ('a, 'u) read_res" where
  "read_stream_data_blocked_stream_id conn p =
     read_field conn p (\<lambda>v conn p.
       case rr_fr (rcrd conn) of
         Fr_stream_data_blocked fr \<Rightarrow>
           expect_more (set_fr (Fr_stream_data_blocked (fr\<lparr>sdb_stream_id := i64_of_u64 (acc v)\<rparr>)) conn) p
             READ_STATE_STREAM_DATA_BLOCKED_OFFSET
       | _ \<Rightarrow> SAbort)"

definition read_stream_data_blocked_offset :: "('a, 'u) dwnx_conn \<Rightarrow> bytes \<Rightarrow> ('a, 'u) read_res" where
  "read_stream_data_blocked_offset conn p =
     read_field conn p (\<lambda>v conn p.
       case rr_fr (rcrd conn) of
         Fr_stream_data_blocked fr \<Rightarrow>
           let fr = fr\<lparr>sdb_max_stream_data := acc v\<rparr>
           in then_frame_done p (conn_recv_stream_data_blocked (set_fr (Fr_stream_data_blocked fr) conn) fr)
       | _ \<Rightarrow> SAbort)"

definition read_streams_blocked_max_streams :: "('a, 'u) dwnx_conn \<Rightarrow> bytes \<Rightarrow> ('a, 'u) read_res" where
  "read_streams_blocked_max_streams conn p =
     read_field conn p (\<lambda>v conn p.
       case rr_fr (rcrd conn) of
         Fr_streams_blocked fr \<Rightarrow>
           let fr = fr\<lparr>sb_max_streams := acc v\<rparr>
           in then_frame_done p (conn_recv_streams_blocked (set_fr (Fr_streams_blocked fr) conn) fr)
       | _ \<Rightarrow> SAbort)"

definition read_connection_close_error_code :: "('a, 'u) dwnx_conn \<Rightarrow> bytes \<Rightarrow> ('a, 'u) read_res" where
  "read_connection_close_error_code conn p =
     read_field conn p (\<lambda>v conn p.
       case rr_fr (rcrd conn) of
         Fr_connection_close fr \<Rightarrow>
           expect_more (set_fr (Fr_connection_close (fr\<lparr>cc_error_code := acc v\<rparr>)) conn) p
             (if cc_type fr = DWNX_FRAME_CONNECTION_CLOSE_APP then READ_STATE_CONNECTION_CLOSE_REASONLEN
              else READ_STATE_CONNECTION_CLOSE_FRAME_TYPE)
       | _ \<Rightarrow> SAbort)"

definition read_connection_close_frame_type :: "('a, 'u) dwnx_conn \<Rightarrow> bytes \<Rightarrow> ('a, 'u) read_res" where
  "read_connection_close_frame_type conn p =
     read_field conn p (\<lambda>v conn p.
       case rr_fr (rcrd conn) of
         Fr_connection_close fr \<Rightarrow>
           expect_more (set_fr (Fr_connection_close (fr\<lparr>cc_frame_type := acc v\<rparr>)) conn) p
             READ_STATE_CONNECTION_CLOSE_REASONLEN
       | _ \<Rightarrow> SAbort)"

definition read_connection_close_reasonlen :: "('a, 'u) dwnx_conn \<Rightarrow> bytes \<Rightarrow> ('a, 'u) read_res" where
  "read_connection_close_reasonlen conn p =
     read_field conn p (\<lambda>v conn p.
       case rr_fr (rcrd conn) of
         Fr_connection_close fr \<Rightarrow>
           let vint = unat (acc v)
           in if vint > rec_left conn then SErr ERR_FRAME_ENCODING conn
              else
                let fr = fr\<lparr>cc_reasonlen := vint\<rparr>
                in if vint \<le> length p then
                     SErr ERR_DRAINING
                       (set_state READ_STATE_DRAINING
                         (set_fr (Fr_connection_close (fr\<lparr>cc_reason := take vint p\<rparr>)) conn))
                   else
                     let (ok, mem) = mem_alloc (conn_mem conn); conn = set_fr (Fr_connection_close fr) (conn\<lparr>conn_mem := mem\<rparr>)
                     in if \<not> ok then SErr ERR_NOMEM conn
                        else SOk (Read_next p)
                               (set_state READ_STATE_CONNECTION_CLOSE_REASON
                                 (upd_rcrd (\<lambda>r. r\<lparr>rr_buf := Some (dwnx_buf_init vint)\<rparr>) conn))
       | _ \<Rightarrow> SAbort)"

text \<open>The reason points to the buffer, so its bytes are known once the buffer is full.\<close>

definition read_connection_close_reason :: "('a, 'u) dwnx_conn \<Rightarrow> bytes \<Rightarrow> ('a, 'u) read_res" where
  "read_connection_close_reason conn p =
     read_into_buf conn p (\<lambda>buf conn p.
       case rr_fr (rcrd conn) of
         Fr_connection_close fr \<Rightarrow>
           SErr ERR_DRAINING
             (set_state READ_STATE_DRAINING (set_fr (Fr_connection_close (fr\<lparr>cc_reason := buf_data buf\<rparr>)) conn))
       | _ \<Rightarrow> SAbort)"

definition read_datagram_len ::
    "('a, 'u) dwnx_callbacks \<Rightarrow> ('a, 'u) dwnx_conn \<Rightarrow> bytes \<Rightarrow> ('a, 'u) read_res" where
  "read_datagram_len cb conn p =
     read_field conn p (\<lambda>v conn p.
       case rr_fr (rcrd conn) of
         Fr_datagram fr \<Rightarrow>
           if of_nat (rr_typelen (rcrd conn) + vlen v) + acc v > max_datagram_frame_size (local_params conn)
           then SErr ERR_PROTO conn
           else if unat (acc v) > rec_left conn then SErr ERR_FRAME_ENCODING conn
           else
             let conn = upd_rcrd (\<lambda>r. r\<lparr>rr_fr := Fr_datagram (fr\<lparr>dgram_len := unat (acc v)\<rparr>),
                                         field_left := unat (acc v)\<rparr>) conn
             in if field_left (rcrd conn) = 0 then then_frame_done p (conn_recv_datagram cb conn True 0 0 [])
                else SOk (Read_next p) (set_state READ_STATE_DATAGRAM_DATA conn)
       | _ \<Rightarrow> SAbort)"

definition read_datagram_data ::
    "('a, 'u) dwnx_callbacks \<Rightarrow> ('a, 'u) dwnx_conn \<Rightarrow> bytes \<Rightarrow> ('a, 'u) read_res" where
  "read_datagram_data cb conn p =
     (case rr_fr (rcrd conn) of
        Fr_datagram fr \<Rightarrow>
          let len = dwnx_record_reader_field_avail (rcrd conn) (length p)
          in sbind (conn_recv_datagram cb conn (field_left (rcrd conn) = len) (dgram_len fr)
                      (dgram_len fr - field_left (rcrd conn)) (take len p)) (\<lambda>_ conn.
             let conn = upd_rcrd (\<lambda>r. r\<lparr>record_left := record_left r - len, field_left := field_left r - len\<rparr>) conn
             in if field_left (rcrd conn) \<noteq> 0 then SOk Read_return conn
                else SOk (Frame_done (drop len p)) conn)
      | _ \<Rightarrow> SAbort)"

section \<open>The loop\<close>

definition conn_read_state ::
    "('a, 'u) dwnx_callbacks \<Rightarrow> 'u \<Rightarrow> ('a, 'u) dwnx_conn \<Rightarrow> dwnx_tstamp \<Rightarrow> bytes \<Rightarrow> ('a, 'u) read_res" where
  "conn_read_state cb null conn t p =
     (case rr_state (rcrd conn) of
        READ_STATE_RECORD_SIZE \<Rightarrow> read_record_size conn p
      | READ_STATE_FRAME_TYPE \<Rightarrow> read_frame_type cb conn p
      | READ_STATE_QX_TRANSPORT_PARAMETERS_LEN \<Rightarrow> read_qx_transport_parameters_len cb conn p
      | READ_STATE_QX_TRANSPORT_PARAMETERS_PARAMS \<Rightarrow> read_qx_transport_parameters_params cb conn p
      | READ_STATE_QX_PING_SEQ \<Rightarrow> read_qx_ping_seq conn t p
      | READ_STATE_STREAM_STREAM_ID \<Rightarrow> read_stream_stream_id cb null conn p
      | READ_STATE_STREAM_OFFSET \<Rightarrow> read_stream_offset cb null conn p
      | READ_STATE_STREAM_LENGTH \<Rightarrow> read_stream_length cb null conn p
      | READ_STATE_STREAM_DATA \<Rightarrow> read_stream_data cb conn p
      | READ_STATE_RESET_STREAM_STREAM_ID \<Rightarrow> read_reset_stream_stream_id conn p
      | READ_STATE_RESET_STREAM_APP_ERROR_CODE \<Rightarrow> read_reset_stream_app_error_code conn p
      | READ_STATE_RESET_STREAM_FINAL_SIZE \<Rightarrow> read_reset_stream_final_size cb null conn p
      | READ_STATE_STOP_SENDING_STREAM_ID \<Rightarrow> read_stop_sending_stream_id conn p
      | READ_STATE_STOP_SENDING_APP_ERROR_CODE \<Rightarrow> read_stop_sending_app_error_code cb null conn t p
      | READ_STATE_MAX_DATA_MAX_DATA \<Rightarrow> read_max_data_max_data conn p
      | READ_STATE_MAX_STREAM_DATA_STREAM_ID \<Rightarrow> read_max_stream_data_stream_id conn p
      | READ_STATE_MAX_STREAM_DATA_MAX_STREAM_DATA \<Rightarrow> read_max_stream_data_max_stream_data cb null conn t p
      | READ_STATE_MAX_STREAMS_MAX_STREAMS \<Rightarrow> read_max_streams_max_streams cb conn p
      | READ_STATE_DATA_BLOCKED_OFFSET \<Rightarrow> read_data_blocked_offset conn p
      | READ_STATE_STREAM_DATA_BLOCKED_STREAM_ID \<Rightarrow> read_stream_data_blocked_stream_id conn p
      | READ_STATE_STREAM_DATA_BLOCKED_OFFSET \<Rightarrow> read_stream_data_blocked_offset conn p
      | READ_STATE_STREAMS_BLOCKED_MAX_STREAMS \<Rightarrow> read_streams_blocked_max_streams conn p
      | READ_STATE_CONNECTION_CLOSE_ERROR_CODE \<Rightarrow> read_connection_close_error_code conn p
      | READ_STATE_CONNECTION_CLOSE_FRAME_TYPE \<Rightarrow> read_connection_close_frame_type conn p
      | READ_STATE_CONNECTION_CLOSE_REASONLEN \<Rightarrow> read_connection_close_reasonlen conn p
      | READ_STATE_CONNECTION_CLOSE_REASON \<Rightarrow> read_connection_close_reason conn p
      | READ_STATE_DATAGRAM_LEN \<Rightarrow> read_datagram_len cb conn p
      | READ_STATE_DATAGRAM_DATA \<Rightarrow> read_datagram_data cb conn p
      | READ_STATE_DRAINING \<Rightarrow> SErr ERR_DRAINING conn
      | READ_STATE_CLOSING \<Rightarrow> SErr ERR_CLOSING conn)"

definition frame_done :: "('a, 'u) dwnx_conn \<Rightarrow> dwnx_tstamp \<Rightarrow> ('a, 'u) dwnx_conn" where
  "frame_done conn t =
     (let conn = upd_rcrd dwnx_record_reader_reset conn
      in if rr_state (rcrd conn) = READ_STATE_RECORD_SIZE then conn\<lparr>idle_ts := t\<rparr> else conn)"

text \<open>The fuel bounds the rounds of the loop; every round takes at least one byte.\<close>

fun conn_read_loop ::
    "nat \<Rightarrow> ('a, 'u) dwnx_callbacks \<Rightarrow> 'u \<Rightarrow> ('a, 'u) dwnx_conn \<Rightarrow> dwnx_tstamp \<Rightarrow> bytes \<Rightarrow> ('a, 'u, unit) conn_res" where
  "conn_read_loop 0 cb null conn t p = SAbort"
| "conn_read_loop (Suc fuel) cb null conn t p =
     (if p = [] then SOk () conn
      else case conn_read_state cb null conn t p of
             SAbort \<Rightarrow> SAbort
           | SErr e conn \<Rightarrow> SErr e conn
           | SOk Read_return conn \<Rightarrow> SOk () conn
           | SOk (Read_next p) conn \<Rightarrow> conn_read_loop fuel cb null conn t p
           | SOk (Frame_done p) conn \<Rightarrow> conn_read_loop fuel cb null (frame_done conn t) t p)"

definition dwnx_conn_read ::
    "('a, 'u) dwnx_callbacks \<Rightarrow> 'u \<Rightarrow> ('a, 'u) dwnx_conn \<Rightarrow> bytes \<Rightarrow> dwnx_tstamp \<Rightarrow> ('a, 'u, unit) conn_res" where
  "dwnx_conn_read cb null conn data t =
     sbind (conn_update_timestamp conn t) (\<lambda>_ conn.
     if data = [] then
       (case rr_state (rcrd conn) of
          READ_STATE_DRAINING \<Rightarrow> SErr ERR_DRAINING conn
        | READ_STATE_CLOSING \<Rightarrow> SErr ERR_CLOSING conn
        | _ \<Rightarrow> SOk () conn)
     else conn_read_loop (length data + 1) cb null conn t data)"

end
