(* ===== verification/ConnSafe.thy ===== *)
theory ConnSafe
  imports ConnApp ConnRead
begin

text \<open>
  The handlers of received frames keep the invariant and never abort, whatever the peer sends, for
  every application whose callbacks call only the functions in \<open>app_step\<close>.
\<close>

abbreviation safe :: "('s, 'r) sres \<Rightarrow> ('r \<Rightarrow> 's \<Rightarrow> bool) \<Rightarrow> bool" where
  "safe r Q \<equiv> wp r Q (\<lambda>_ _. True)"

lemma safe_mono: "wp r Q' E \<Longrightarrow> (\<And>x s. Q' x s \<Longrightarrow> Q x s) \<Longrightarrow> safe r Q"
  by (erule wp_mono) simp_all

definition handled :: "('a, 'u) dwnx_conn \<Rightarrow> ('a, 'u) dwnx_conn \<Rightarrow> bool" where
  "handled conn conn' \<longleftrightarrow> conn_ok conn' \<and> same_reader conn conn'"

lemma handled_refl: "conn_ok conn \<Longrightarrow> handled conn conn"
  by (simp add: handled_def)

lemma handled_trans: "handled a b \<Longrightarrow> handled b c \<Longrightarrow> handled a c"
  using same_reader_trans [of a b c] by (simp add: handled_def)

lemma stays_handled: "stays_ok conn c \<Longrightarrow> handled conn c"
  by (simp add: stays_ok_def handled_def kept_but_def)

lemma closed_handled: "strm_closed p conn c \<Longrightarrow> handled conn c"
  by (simp add: strm_closed_def handled_def kept_but_def)

lemma handled_ok: "handled conn c \<Longrightarrow> conn_ok c"
  by (simp add: handled_def)

lemma pending_reader: "same_reader a b \<Longrightarrow> params_pending b = params_pending a"
  by (simp add: same_reader_def params_pending_def conn_has_def)

section \<open>Shared steps\<close>

lemma ratelim_drain_total:
  assumes "rl_ts r \<le> t"
  shows "\<exists>ok r'. dwnx_ratelim_drain r n t = Ok (ok, r') \<and> rl_ts r' \<le> t"
  using assms by (auto simp: dwnx_ratelim_drain_def ratelim_update_def Let_def)

lemma conn_glitch_safe:
  assumes conn: "conn_ok conn" and t: "t = last_ts conn"
  shows "safe (conn_glitch conn t) (\<lambda>_. stays_ok conn)"
proof -
  have "rl_ts (glitch_rlim conn) \<le> t" using conn_okD(6) [OF conn] t by (simp add: time_ok_def)
  then obtain ok r where r: "dwnx_ratelim_drain (glitch_rlim conn) 1 t = Ok (ok, r)" "rl_ts r \<le> t"
    using ratelim_drain_total by blast
  have "time_ok (conn\<lparr>glitch_rlim := r\<rparr>)"
    using conn_okD(6) [OF conn] r(2) t by (simp add: time_ok_def)
  then show ?thesis using r conn by (simp add: conn_glitch_def stays_ok_def conn_ok_def Let_def)
qed

lemma strm_opened_mono:
  assumes "strm_opened conn x" and "gaptr_abs (conn_idtr conn x) \<subseteq> gaptr_abs (conn_idtr c x)"
    and "conn_local_stream c x = conn_local_stream conn x" and "next_local_id c x = next_local_id conn x"
  shows "strm_opened c x"
  using assms by (auto simp: strm_opened_def split: if_splits)

lemma set_conn_idtr_ok:
  assumes conn: "conn_ok conn" and g: "gaptr_inv g" "gaptr_abs (conn_idtr conn sid) \<subseteq> gaptr_abs g"
  shows "stays_ok conn (set_conn_idtr sid (m, g) conn)"
proof -
  let ?c = "set_conn_idtr sid (m, g) conn"
  have sub: "gaptr_abs (conn_idtr conn x) \<subseteq> gaptr_abs (conn_idtr ?c x)" for x
    using g(2) by (auto simp: conn_idtr_def set_conn_idtr_def split: if_splits)
  have "strm_opened ?c x" if "x \<in> live_ids (strm_store conn)" for x
  proof (rule strm_opened_mono [OF _ sub])
    show "strm_opened conn x" using conn_okD(3) [OF conn] that by (simp add: ids_ok_def)
  qed (simp_all add: set_conn_idtr_def)
  then have "ids_ok ?c" using conn_okD(3) [OF conn] g(1) by (auto simp: ids_ok_def set_conn_idtr_def)
  then show ?thesis using conn by (auto simp: stays_ok_def conn_ok_def set_conn_idtr_def)
qed

lemma conn_idtr_open_wp:
  assumes conn: "conn_ok conn" and sid: "0 \<le> sid" "sid < 2 ^ 62" and remote: "\<not> conn_local_stream conn sid"
  shows "wp (conn_idtr_open conn sid)
    (\<lambda>_ c. stays_ok conn c \<and> strm_opened c sid \<and> strms c = strms conn)
    (\<lambda>e c. e = ERR_STREAM_IN_USE \<and> stays_ok conn c \<or> e = ERR_NOMEM)"
proof -
  have inv: "gaptr_inv (conn_idtr conn sid)" using conn_okD(3) [OF conn] by (simp add: ids_ok_def conn_idtr_def)
  let ?id = "id_from_stream_id sid"
  have same: "set_conn_idtr sid (m, conn_idtr conn sid) conn = conn\<lparr>conn_mem := m\<rparr>" for m
    by (simp add: set_conn_idtr_def conn_idtr_def)
  from idtr_open_spec [OF inv sid, of "conn_mem conn"]
  consider (used) "dwnx_idtr_open (conn_mem conn, conn_idtr conn sid) sid = SErr ERR_STREAM_IN_USE (conn_mem conn, conn_idtr conn sid)"
    | (ok) m g where "dwnx_idtr_open (conn_mem conn, conn_idtr conn sid) sid = SOk () (m, g)" "gaptr_inv g"
        "gaptr_abs g = insert ?id (gaptr_abs (conn_idtr conn sid))"
    | (nomem) s where "dwnx_idtr_open (conn_mem conn, conn_idtr conn sid) sid = SErr ERR_NOMEM s"
    by auto
  then show ?thesis
  proof cases
    case used
    then show ?thesis using stays_ok_refl [OF conn] by (simp add: conn_idtr_open_def same)
  next
    case ok
    have "stays_ok conn (set_conn_idtr sid (m, g) conn)" using ok by (intro set_conn_idtr_ok [OF conn]) auto
    moreover have "strm_opened (set_conn_idtr sid (m, g) conn) sid"
      using remote ok(3) by (simp add: strm_opened_def set_conn_idtr_def conn_idtr_def)
    moreover have "strms (set_conn_idtr sid (m, g) conn) = strms conn" by (simp add: set_conn_idtr_def)
    ultimately show ?thesis using ok(1) by (simp add: conn_idtr_open_def)
  qed (simp add: conn_idtr_open_def)
qed

lemma local_same_reader: "same_reader a b \<Longrightarrow> conn_local_stream b sid = conn_local_stream a sid"
  by (simp add: same_reader_def conn_local_stream_def)

lemma stays_local: "stays_ok a b \<Longrightarrow> conn_local_stream b sid = conn_local_stream a sid"
  by (simp add: stays_ok_def kept_but_def local_same_reader)

definition is_strm :: "('a, 'u) dwnx_conn \<Rightarrow> i64 \<Rightarrow> strm_ptr \<Rightarrow> bool" where
  "is_strm conn sid p \<longleftrightarrow> (\<exists>strm. strm_store conn p = Some strm \<and> stream_id strm = sid)"

lemma is_strm_stays: "is_strm conn sid p \<Longrightarrow> stays_ok conn c \<Longrightarrow> is_strm c sid p"
  using stays_ok_strm [of conn c p] by (fastforce simp: is_strm_def strm_kept_def)

lemma open_remote_stream_safe:
  assumes cb: "app_ok cb" and conn: "conn_ok conn" and sid: "0 \<le> sid" "sid < 2 ^ 62"
    and remote: "\<not> conn_local_stream conn sid" and np: "\<not> params_pending conn"
    and none: "map_abs (strms conn) (u64_of_i64 sid) = None"
    and used: "\<And>c. stays_ok conn c \<Longrightarrow> safe (was_closed c) Q"
    and k: "\<And>p c. stays_ok conn c \<Longrightarrow> is_strm c sid p \<Longrightarrow> safe (k p c) Q"
  shows "safe (open_remote_stream cb null conn sid fresh was_closed k) Q"
proof -
  have new: "safe (case fresh of Some e \<Rightarrow> SErr e c
           | None \<Rightarrow> sbind (dwnx_conn_create_stream c sid null) (\<lambda>p c. sbind (conn_call_stream_open cb c p) (\<lambda>_ c. k p c))) Q"
    if c: "stays_ok conn c" "strm_opened c sid" "strms c = strms conn" for c
  proof (cases fresh)
    case None
    have np': "\<not> params_pending c" using np c(1) pending_reader by (metis kept_same_reader stays_ok_def)
    have opened: "stays_ok conn d \<and> is_strm d sid p" if "created sid p c d" for p d
      using created_ok [OF that stays_okD [OF c(1)] c(2)] np' c(1) stays_ok_trans created_strm [OF that]
      by (auto simp: is_strm_def)
    have call: "safe (sbind (conn_call_stream_open cb d p) (\<lambda>_ c. k p c)) Q" if d: "stays_ok conn d" "is_strm d sid p" for p d
    proof -
      obtain s where s: "strm_store d p = Some s" using d(2) by (auto simp: is_strm_def)
      have "safe (conn_call_stream_open cb d p) (\<lambda>_ c. stays_ok conn c \<and> is_strm c sid p)"
        unfolding conn_call_stream_open_def using s
        by (auto intro!: safe_mono [OF conn_call_wp [OF cb stays_okD [OF d(1)]]] intro: stays_ok_trans [OF d(1)] is_strm_stays [OF d(2)])
      then show ?thesis unfolding wp_sbind by (rule safe_mono) (use k in blast)
    qed
    have "safe (dwnx_conn_create_stream c sid null) (\<lambda>p d. stays_ok conn d \<and> is_strm d sid p)"
      by (rule safe_mono [OF create_stream_wp [OF stays_okD [OF c(1)] sid]]) (use c(3) none opened in auto)
    then have "safe (sbind (dwnx_conn_create_stream c sid null) (\<lambda>p c. sbind (conn_call_stream_open cb c p) (\<lambda>_ c. k p c))) Q"
      unfolding wp_sbind [of "dwnx_conn_create_stream c sid null"] by (rule safe_mono) (use call in blast)
    then show ?thesis by (simp add: None)
  qed simp
  show ?thesis
    using conn_idtr_open_wp [OF conn sid remote] new used
    by (auto simp: open_remote_stream_def err_is_fatal_iff wp_iff [of "conn_idtr_open conn sid"] split: sres.split)
qed

section \<open>Frames about the connection\<close>

lemma recv_max_data_safe:
  assumes conn: "conn_ok conn" and np: "\<not> params_pending conn" and v: "md_max_data fr \<le> DWNX_MAX_VARINT"
  shows "safe (conn_recv_max_data conn fr) (\<lambda>_. handled conn)"
proof -
  have "flow_ok (conn\<lparr>ctx_max_offset := md_max_data fr\<rparr>)" if "ctx_max_offset conn < md_max_data fr"
    using conn_okD(4) [OF conn] v that by (auto simp: flow_ok_def intro: order.trans)
  moreover have "early_ok (conn\<lparr>ctx_max_offset := md_max_data fr\<rparr>)"
    using conn_okD(7) [OF conn] np by (simp add: early_ok_def)
  ultimately show ?thesis
    using conn by (auto simp: conn_recv_max_data_def handled_def conn_ok_def not_le)
qed

lemma handled_call:
  assumes cb: "app_ok cb" and conn: "handled conn c"
  shows "safe (conn_call cb ev c) (\<lambda>_. handled conn)"
  by (rule safe_mono [OF conn_call_wp [OF cb handled_ok [OF conn]]]) (blast intro: handled_trans [OF conn] stays_handled)

lemma recv_max_streams_safe:
  assumes cb: "app_ok cb" and conn: "conn_ok conn"
  shows "safe (conn_recv_max_streams cb conn fr) (\<lambda>_. handled conn)"
proof -
  have "handled conn (conn\<lparr>ctx_bidi_max_streams := ms_max_streams fr\<rparr>)" "handled conn (conn\<lparr>ctx_uni_max_streams := ms_max_streams fr\<rparr>)"
    if "ms_max_streams fr \<le> DWNX_MAX_STREAMS"
    using conn that by (simp_all add: handled_def conn_ok_def ids_ok_def)
  then show ?thesis
    by (auto simp: conn_recv_max_streams_def conn_call_extend_max_local_streams_bidi_def not_less
        conn_call_extend_max_local_streams_uni_def intro: handled_call [OF cb])
qed

lemma recv_ping_safe:
  assumes conn: "conn_ok conn" and t: "t = last_ts conn" and seq: "ping_seq fr \<le> DWNX_MAX_VARINT"
  shows "safe (conn_recv_qx_ping conn fr t) (\<lambda>_. handled conn)"
proof -
  let ?n = "i64_of_u64 (ping_seq fr)"
  have "?n < 2 ^ 62" using i64_of_u64_small(2) [OF seq] by (simp add: stream_id_valid_def)
  then have "handled conn (c\<lparr>crx_ping_last_seq := ?n\<rparr>)" if "stays_ok conn c" for c
    using stays_handled [OF that] by (simp add: handled_def conn_ok_def out_ok_def)
  then have "safe (sbind (conn_glitch conn t) (\<lambda>_ conn. SOk () (conn\<lparr>crx_ping_last_seq := i64_of_u64 (ping_seq fr)\<rparr>))) (\<lambda>_. handled conn)"
    unfolding wp_sbind by (intro safe_mono [OF conn_glitch_safe [OF conn t]]) simp
  then show ?thesis using handled_refl [OF conn] by (simp add: conn_recv_qx_ping_def wp_if)
qed

lemma recv_blocked_safe:
  assumes "conn_ok conn"
  shows "safe (conn_recv_streams_blocked conn fr) (\<lambda>_. handled conn)"
    and "safe (conn_recv_data_blocked conn fr') (\<lambda>_. handled conn)"
  using handled_refl [OF assms] by (simp_all add: conn_recv_streams_blocked_def conn_recv_data_blocked_def)

lemma recv_datagram_safe:
  assumes "app_ok cb" and "conn_ok conn"
  shows "safe (conn_recv_datagram cb conn fin dgramlen offset data) (\<lambda>_. handled conn)"
  using handled_call [OF assms(1) handled_refl [OF assms(2)]]
  by (simp add: conn_recv_datagram_def conn_call_recv_datagram_def)

section \<open>Frames about a stream\<close>

lemma close_if_shut_handled:
  assumes cb: "app_ok cb" and conn: "handled conn c" and p: "strm_store c p \<noteq> None"
  shows "safe (dwnx_conn_close_stream_if_shut_rdwr cb c p) (\<lambda>_. handled conn)"
  by (rule safe_mono [OF close_if_shut_wp [OF cb handled_ok [OF conn] p]])
    (blast intro: handled_trans [OF conn] stays_handled closed_handled)

lemma upd_strm_handled:
  assumes "conn_ok conn" and "strm_store conn p = Some s" and "strm_step f s"
  shows "handled conn (upd_strm p f conn)"
  using upd_strm_ok [OF assms] by (simp add: handled_def same_reader_def)

lemma conn_strm_ok: "conn_ok conn \<Longrightarrow> strm_store conn p = Some s \<Longrightarrow> strm_ok s"
  using conn_okD(1) strms_ok_strm by blast

text \<open>The frame is for a stream that exists, for one that has been closed, or for a new one.\<close>

lemma find_stream_safe:
  assumes conn: "conn_ok conn"
    and none: "map_abs (strms conn) (u64_of_i64 sid) = None \<Longrightarrow> safe (f None conn) Q"
    and some: "\<And>p s. map_abs (strms conn) (u64_of_i64 sid) = Some p \<Longrightarrow> strm_store conn p = Some s \<Longrightarrow> safe (f (Some p) conn) Q"
  shows "safe (sbind (dwnx_conn_find_stream conn sid) f) Q"
  using none some strms_ok_alive [OF conn_okD(1) [OF conn], of "u64_of_i64 sid"]
  by (cases "map_abs (strms conn) (u64_of_i64 sid)") (auto simp: find_stream_wp [OF conn_okD(1) [OF conn]])

lemma find_or_open_safe:
  assumes cb: "app_ok cb" and conn: "conn_ok conn" and sid: "0 \<le> sid" "sid < 2 ^ 62" and np: "\<not> params_pending conn"
    and gone: "safe (local_gone conn) Q" and used: "\<And>c. stays_ok conn c \<Longrightarrow> safe (was_closed c) Q"
    and rest: "\<And>p c. stays_ok conn c \<Longrightarrow> is_strm c sid p \<Longrightarrow> safe (rest p c) Q"
  shows "safe (sbind (dwnx_conn_find_stream conn sid) (\<lambda>r conn. case r of
       Some p \<Rightarrow> rest p conn
     | None \<Rightarrow> if conn_local_stream conn sid then local_gone conn
               else open_remote_stream cb null conn sid fresh was_closed rest)) Q"
proof (rule find_stream_safe [OF conn], goal_cases)
  case 1
  then show ?case
    using open_remote_stream_safe [OF cb conn sid _ np 1 used rest] gone by simp
next
  case (2 p s)
  then show ?case
    using rest [OF stays_ok_refl [OF conn]] find_stream_alive [OF conn_okD(1) [OF conn] 2(1) sid]
    by (auto simp: is_strm_def)
qed

lemma call_strm_safe:
  assumes cb: "app_ok cb" and c: "stays_ok conn c" "is_strm c sid p"
    and f: "\<And>d s. stays_ok conn d \<Longrightarrow> stays_ok c d \<Longrightarrow> strm_store d p = Some s \<Longrightarrow> stream_id s = sid \<Longrightarrow> safe (f () d) Q"
  shows "safe (sbind (conn_call cb ev c) f) Q"
proof -
  have "safe (conn_call cb ev c) (\<lambda>u d. safe (f u d) Q)"
  proof (rule safe_mono [OF conn_call_wp [OF cb stays_okD [OF c(1)]]])
    fix u d assume d: "stays_ok c d"
    obtain s where "strm_store d p = Some s" "stream_id s = sid" using is_strm_stays [OF c(2) d] by (auto simp: is_strm_def)
    then show "safe (f u d) Q" using f [OF stays_ok_trans [OF c(1) d] d] by simp
  qed
  then show ?thesis by simp
qed

lemma glitch_handled: "stays_ok conn c \<Longrightarrow> t = last_ts conn \<Longrightarrow> safe (conn_glitch c t) (\<lambda>_. handled conn)"
  by (rule safe_mono [OF conn_glitch_safe])
    (auto simp: stays_ok_def kept_but_def same_reader_def handled_def)

lemma flag_handled:
  assumes "stays_ok conn c" and "strm_store c p = Some s"
  shows "handled conn (upd_strm p (strm_set fl) c)"
  using upd_strm_handled [OF stays_okD [OF assms(1)] assms(2) flag_step(1)]
    conn_strm_ok [OF stays_okD [OF assms(1)] assms(2)] handled_trans [OF stays_handled [OF assms(1)]] by blast

lemma flag_stays:
  assumes "stays_ok conn c" and "strm_store c p = Some s" and "fl AND DWNX_STRM_FLAG_SHUT_RD = 0"
  shows "stays_ok conn (upd_strm p (strm_set fl) c)"
  using upd_strm_stays_ok [OF stays_okD [OF assms(1)] assms(2) flag_step(1) strm_set_kept [OF assms(3)]]
    conn_strm_ok [OF stays_okD [OF assms(1)] assms(2)] stays_ok_trans [OF assms(1)] by blast

lemma recv_stop_sending_safe:
  assumes cb: "app_ok cb" and conn: "conn_ok conn" and np: "\<not> params_pending conn"
    and sid: "0 \<le> stop_stream_id fr" "stop_stream_id fr < 2 ^ 62" and t: "t = last_ts conn"
    and code: "stop_app_error_code fr \<le> DWNX_MAX_VARINT"
  shows "safe (conn_recv_stop_sending cb null conn fr t) (\<lambda>_. handled conn)"
proof -
  let ?code = "stop_app_error_code fr"
  let ?set = "strm_set (DWNX_STRM_FLAG_SHUT_WR OR DWNX_STRM_FLAG_STOP_SENDING_RECVED)"
  have reset: "safe (sbind (if \<not> strm_has s DWNX_STRM_FLAG_SHUT_WR
                          then conn_reset_stream (upd_strm p (strm_set DWNX_STRM_FLAG_RESET_STREAM) c) p ?code
                          else SOk () c) (\<lambda>_ c. SOk () (upd_strm p ?set c))) (\<lambda>_. handled conn)"
    if c: "stays_ok conn c" "strm_store c p = Some s" for c p s
  proof (cases "strm_has s DWNX_STRM_FLAG_SHUT_WR")
    case False
    let ?d = "upd_strm p (strm_set DWNX_STRM_FLAG_RESET_STREAM) c"
    have d: "stays_ok conn ?d" by (rule flag_stays [OF c]) simp
    have r: "stays ?d (conn_reset_stream ?d p ?code)"
      using c(2) by (intro reset_stream_stays(1) [OF stays_okD [OF d] _ code]) simp
    have "handled conn (upd_strm p ?set e)" if e: "stays_ok ?d e" for e
      using stays_ok_strm [OF e, of p] c(2) flag_handled [OF stays_ok_trans [OF d e]] by auto
    then show ?thesis unfolding wp_sbind using False by (auto intro: safe_mono [OF r])
  qed (use flag_handled [OF c] in simp)
  show ?thesis
  proof (cases "check_send_stream_id conn (stop_stream_id fr)")
    case None
    show ?thesis
      unfolding conn_recv_stop_sending_def Let_def None option.case
    proof (rule find_or_open_safe [OF cb conn sid np], goal_cases)
      case 1 show ?case by (rule glitch_handled [OF stays_ok_refl [OF conn] t])
    next
      case (2 c) then show ?case by (rule glitch_handled [OF _ t])
    next
      case (3 p c)
      then obtain s where s: "strm_store c p = Some s" by (auto simp: is_strm_def)
      show ?case
        unfolding wp_with_strm wp_if conn_call_recv_stop_sending_def
        by (intro exI [of _ s] conjI impI s glitch_handled [OF 3(1) t] call_strm_safe [OF cb 3])
          (use reset in \<open>simp del: wp_sbind\<close>)
    qed
  qed (simp add: conn_recv_stop_sending_def)
qed

lemma recv_max_stream_data_safe:
  assumes cb: "app_ok cb" and conn: "conn_ok conn" and np: "\<not> params_pending conn"
    and sid: "0 \<le> msd_stream_id fr" "msd_stream_id fr < 2 ^ 62" and v: "msd_max_stream_data fr \<le> DWNX_MAX_VARINT"
    and t: "t = last_ts conn"
  shows "safe (conn_recv_max_stream_data cb null conn fr t) (\<lambda>_. handled conn)"
proof (cases "check_send_stream_id conn (msd_stream_id fr)")
  case None
  let ?f = "\<lambda>strm. strm\<lparr>tx_max_offset := msd_max_stream_data fr\<rparr>"
  show ?thesis
    unfolding conn_recv_max_stream_data_def Let_def None option.case
  proof (rule find_or_open_safe [OF cb conn sid np], goal_cases)
    case 1 show ?case by (rule glitch_handled [OF stays_ok_refl [OF conn] t])
  next
    case (2 c) then show ?case by (rule glitch_handled [OF _ t])
  next
    case (3 p c)
    then obtain s where s: "strm_store c p = Some s" by (auto simp: is_strm_def)
    have ok: "strm_ok s" by (rule conn_strm_ok [OF stays_okD [OF 3(1)] s])
    have "handled conn (upd_strm p ?f c)" if "tx_max_offset s < msd_max_stream_data fr"
    proof -
      have "strm_step ?f s" using ok v that by (auto simp: strm_step_def strm_ok_def intro: order.trans)
      then show ?thesis
        using upd_strm_handled [OF stays_okD [OF 3(1)] s] handled_trans [OF stays_handled [OF 3(1)]] by blast
    qed
    note u = this
    have "safe (conn_glitch (upd_strm p ?f c) t) (\<lambda>_. handled conn)" if "tx_max_offset s < msd_max_stream_data fr"
      by (rule safe_mono [OF conn_glitch_safe [OF handled_ok [OF u [OF that]]]])
        (use 3(1) t u [OF that] in \<open>auto simp: stays_ok_def kept_but_def same_reader_def handled_def\<close>)
    then show ?case
      using s u by (auto simp: wp_if conn_call_extend_max_stream_data_def intro!: handled_call [OF cb])
  qed
qed (simp add: conn_recv_max_stream_data_def)

lemma recv_reset_stream_safe:
  assumes cb: "app_ok cb" and conn: "conn_ok conn" and np: "\<not> params_pending conn"
    and sid: "0 \<le> rst_stream_id fr" "rst_stream_id fr < 2 ^ 62"
  shows "safe (conn_recv_reset_stream cb null conn fr) (\<lambda>_. handled conn)"
proof (cases "check_recv_stream_id conn (rst_stream_id fr)")
  case None
  let ?f = "\<lambda>strm. (strm_set (DWNX_STRM_FLAG_SHUT_RD OR DWNX_STRM_FLAG_RESET_STREAM_RECVED OR
                            DWNX_STRM_FLAG_RX_APP_ERROR_CODE_SET) strm)\<lparr>rx_app_error_code := rst_app_error_code fr\<rparr>"
  have f: "strm_step ?f s" if "strm_ok s" for s
    using that by (simp add: strm_step_def strm_ok_def strm_set_def)
  have close: "safe (dwnx_conn_close_stream_if_shut_rdwr cb (upd_strm p ?f d) p) (\<lambda>_. handled conn)"
    if d: "stays_ok conn d" "strm_store d p = Some s" for d p s
  proof -
    have "handled conn (upd_strm p ?f d)"
      using upd_strm_handled [OF stays_okD [OF d(1)] d(2) f [OF conn_strm_ok [OF stays_okD [OF d(1)] d(2)]]]
        handled_trans [OF stays_handled [OF d(1)]] by blast
    then show ?thesis using d(2) by (intro close_if_shut_handled [OF cb]) simp_all
  qed
  show ?thesis
    unfolding conn_recv_reset_stream_def Let_def None option.case
  proof (rule find_or_open_safe [OF cb conn sid np], goal_cases)
    case (3 p c)
    then obtain s where s: "strm_store c p = Some s" by (auto simp: is_strm_def)
    show ?case
      unfolding wp_with_strm wp_if conn_call_stream_reset_def wp_SErr
      by (intro exI [of _ s] conjI impI s TrueI call_strm_safe [OF cb 3]) (use close in \<open>simp del: wp_sbind\<close>)
  qed simp_all
qed (simp add: conn_recv_reset_stream_def)

lemma recv_stream_data_blocked_safe:
  assumes conn: "conn_ok conn" and sid: "0 \<le> sdb_stream_id fr" "sdb_stream_id fr < 2 ^ 62"
  shows "safe (conn_recv_stream_data_blocked conn fr) (\<lambda>_. handled conn)"
proof (cases "check_recv_stream_id conn (sdb_stream_id fr)")
  case None
  have "gaptr_inv (conn_idtr conn (sdb_stream_id fr))" using conn_okD(3) [OF conn] by (simp add: ids_ok_def conn_idtr_def)
  note o = idtr_is_open_spec [OF this sid]
  show ?thesis
    unfolding conn_recv_stream_data_blocked_def Let_def None option.case
    by (rule find_stream_safe [OF conn]) (use o handled_refl [OF conn] in \<open>auto simp: wp_if\<close>)
qed (simp add: conn_recv_stream_data_blocked_def)

section \<open>Stream data\<close>

text \<open>What \<open>conn_recv_stream\<close> leaves behind for the data of the frame that follow.\<close>

definition receiving :: "('a, 'u) dwnx_conn \<Rightarrow> i64 \<Rightarrow> nat \<Rightarrow> bool" where
  "receiving conn sid n \<longleftrightarrow>
     (\<exists>p strm. map_abs (strms conn) (u64_of_i64 sid) = Some p \<and> strm_store conn p = Some strm \<and> stream_id strm = sid \<and>
        \<not> strm_has strm DWNX_STRM_FLAG_SHUT_RD \<and> n \<le> unat (rx_last_offset strm))"

lemma receivingI:
  assumes "conn_ok conn" and "strm_store conn p = Some strm" and "stream_id strm = sid"
    and "\<not> strm_has strm DWNX_STRM_FLAG_SHUT_RD" and "n \<le> unat (rx_last_offset strm)"
  shows "receiving conn sid n"
  using strms_ok_map [OF conn_okD(1) [OF assms(1)] assms(2)] assms by (auto simp: receiving_def)

lemma recv_bytes_ok:
  assumes c: "conn_ok c" and s: "strm_store c p = Some s"
    and off: "rx_last_offset s = off" "n \<le> DWNX_MAX_VARINT" "\<not> DWNX_MAX_VARINT - n < off"
    and lim: "\<not> rx_max_offset s < off + n" "\<not> conn_max_data_violated c n"
  shows "handled c (upd_strm p (\<lambda>strm. strm\<lparr>rx_last_offset := off + n\<rparr>) (c\<lparr>crx_offset := crx_offset c + n\<rparr>))"
    and "unat (off + n) = unat off + unat n"
proof -
  have le: "n \<le> DWNX_MAX_VARINT" "off \<le> DWNX_MAX_VARINT - n" using off by (simp_all add: not_less)
  show "unat (off + n) = unat off + unat n" using word_sum_exact_unat [OF le] by (simp add: add.commute)
  have f: "crx_offset c \<le> crx_max_offset c" "n \<le> crx_max_offset c - crx_offset c"
    using conn_okD(4) [OF c] lim(2) by (simp_all add: flow_ok_def conn_max_data_violated_def not_less)
  have "flow_ok (c\<lparr>crx_offset := crx_offset c + n\<rparr>)"
    using conn_okD(4) [OF c] word_sum_exact(1) [OF f] by (simp add: flow_ok_def)
  then have "conn_ok (c\<lparr>crx_offset := crx_offset c + n\<rparr>)" using c by (simp add: conn_ok_def)
  moreover have "strm_step (\<lambda>strm. strm\<lparr>rx_last_offset := off + n\<rparr>) s"
    using conn_strm_ok [OF c s] lim(1) by (simp add: strm_step_def strm_ok_def not_less)
  ultimately have "conn_ok (upd_strm p (\<lambda>strm. strm\<lparr>rx_last_offset := off + n\<rparr>) (c\<lparr>crx_offset := crx_offset c + n\<rparr>))"
    using s upd_strm_ok by fastforce
  then show "handled c (upd_strm p (\<lambda>strm. strm\<lparr>rx_last_offset := off + n\<rparr>) (c\<lparr>crx_offset := crx_offset c + n\<rparr>))"
    by (simp add: handled_def same_reader_def)
qed

lemma shut_rd_handled:
  assumes "handled conn c" and "strm_store c p = Some s"
  shows "handled conn (upd_strm p (\<lambda>strm. dwnx_strm_shutdown strm fl) c)"
  using upd_strm_handled [OF handled_ok [OF assms(1)] assms(2) flag_step(3)]
    conn_strm_ok [OF handled_ok [OF assms(1)] assms(2)] handled_trans [OF assms(1)] by blast

lemma call_handled_safe:
  assumes cb: "app_ok cb" and c: "handled conn c" and s: "strm_store c p = Some s"
    and f: "\<And>d s'. handled conn d \<Longrightarrow> strm_store d p = Some s' \<Longrightarrow> safe (f () d) Q"
  shows "safe (sbind (conn_call cb ev c) f) Q"
proof -
  have "safe (conn_call cb ev c) (\<lambda>u d. safe (f u d) Q)"
  proof (rule safe_mono [OF conn_call_wp [OF cb handled_ok [OF c]]])
    fix u d assume d: "stays_ok c d"
    show "safe (f u d) Q" using f handled_trans [OF c stays_handled [OF d]] stays_ok_strm [OF d s] by auto
  qed
  then show ?thesis by simp
qed

lemma recv_stream_safe:
  assumes cb: "app_ok cb" and conn: "conn_ok conn" and np: "\<not> params_pending conn"
    and sid: "0 \<le> stream_stream_id fr" "stream_stream_id fr < 2 ^ 62" and len: "stream_len fr < 2 ^ 62"
  shows "safe (conn_recv_stream cb null conn fr)
    (\<lambda>_ c. handled conn c \<and> (0 < stream_len fr \<longrightarrow> receiving c (stream_stream_id fr) (stream_len fr)))"
proof (cases "check_recv_stream_id conn (stream_stream_id fr)")
  case None
  let ?sid = "stream_stream_id fr" and ?n = "of_nat (stream_len fr) :: u64" and ?off = "stream_offset fr"
  let ?Q = "\<lambda>_ c. handled conn c \<and> (0 < stream_len fr \<longrightarrow> receiving c ?sid (stream_len fr))"
  let ?upd = "\<lambda>p c. upd_strm p (\<lambda>strm. strm\<lparr>rx_last_offset := ?off + ?n\<rparr>) (c\<lparr>crx_offset := crx_offset c + ?n\<rparr>)"
  have un: "unat ?n = stream_len fr" using len by (simp add: unat_of_nat)
  have n: "?n \<le> DWNX_MAX_VARINT" using len by (simp add: unat_le_max_varint un)
  have data: "safe (if stream_fin fr then
                          sbind (if stream_len fr = 0 then
                                   let conn = upd_strm p (\<lambda>strm. dwnx_strm_shutdown strm DWNX_STRM_FLAG_SHUT_RD) (?upd p c)
                                   in conn_call_recv_stream_data cb conn p 1 ?off []
                                 else SOk () (?upd p c)) (\<lambda>_ conn. dwnx_conn_close_stream_if_shut_rdwr cb conn p)
                        else SOk () (?upd p c)) ?Q"
    if c: "stays_ok conn c" "strm_store c p = Some s" "stream_id s = ?sid"
      and ok: "\<not> strm_has s DWNX_STRM_FLAG_SHUT_RD" "rx_last_offset s = ?off" "\<not> DWNX_MAX_VARINT - ?n < ?off"
        "\<not> rx_max_offset s < ?off + ?n" "\<not> conn_max_data_violated c ?n" for p c s
  proof -
    note r = recv_bytes_ok [OF stays_okD [OF c(1)] c(2) ok(2) n ok(3-5)]
    have h: "handled conn (?upd p c)" using handled_trans [OF stays_handled [OF c(1)] r(1)] .
    let ?s = "s\<lparr>rx_last_offset := ?off + ?n\<rparr>"
    have s': "strm_store (?upd p c) p = Some ?s" using c(2) by simp
    have nshut: "\<not> strm_has ?s DWNX_STRM_FLAG_SHUT_RD" using ok(1) by (simp add: strm_has_def)
    have recv: "receiving (?upd p c) ?sid (stream_len fr)"
      using r(2) un c(3) by (intro receivingI [OF handled_ok [OF h] s' _ nshut]) simp_all
    consider "\<not> stream_fin fr" | "stream_fin fr" "stream_len fr = 0" | "stream_fin fr" "0 < stream_len fr" by blast
    then show ?thesis
    proof cases
      case 1
      then show ?thesis using h recv by simp
    next
      case 2
      let ?d = "upd_strm p (\<lambda>strm. dwnx_strm_shutdown strm DWNX_STRM_FLAG_SHUT_RD) (?upd p c)"
      have d: "handled conn ?d" by (rule shut_rd_handled [OF h s'])
      have ds: "strm_store ?d p = Some (dwnx_strm_shutdown ?s DWNX_STRM_FLAG_SHUT_RD)" using c(2) by simp
      have "safe (sbind (conn_call cb ev ?d) (\<lambda>_ conn. dwnx_conn_close_stream_if_shut_rdwr cb conn p)) (\<lambda>_. handled conn)" for ev
        by (rule call_handled_safe [OF cb d ds]) (simp add: close_if_shut_handled [OF cb])
      then have "safe (sbind (conn_call_recv_stream_data cb ?d p 1 ?off []) (\<lambda>_ conn. dwnx_conn_close_stream_if_shut_rdwr cb conn p)) (\<lambda>_. handled conn)"
        unfolding conn_call_recv_stream_data_def with_strm_def ds option.case .
      then show ?thesis using 2 by (simp only: Let_def if_True refl less_irrefl simp_thms)
    next
      case 3
      have "\<not> dwnx_strm_should_close_stream ?s" using nshut by (simp add: strm_should_close_iff)
      then have "dwnx_conn_close_stream_if_shut_rdwr cb (?upd p c) p = SOk () (?upd p c)"
        unfolding dwnx_conn_close_stream_if_shut_rdwr_def with_strm_def s' option.case by simp
      then show ?thesis using 3 h recv by simp
    qed
  qed
  show ?thesis
    unfolding conn_recv_stream_def Let_def None option.case wp_if wp_SErr
  proof (intro conjI impI TrueI, rule find_or_open_safe [OF cb conn sid np], goal_cases)
    case off: (3 p c)
    then obtain s where s: "strm_store c p = Some s" "stream_id s = ?sid" by (auto simp: is_strm_def)
    show ?case
      unfolding wp_with_strm
    proof (intro exI [of _ s] conjI s(1))
      show "safe (if strm_has s DWNX_STRM_FLAG_SHUT_RD \<or> rx_last_offset s \<noteq> ?off then SErr ERR_PROTO c
              else if rx_max_offset s < ?off + ?n \<or> conn_max_data_violated c ?n then SErr ERR_FLOW_CONTROL c
              else if stream_fin fr then
                          sbind (if stream_len fr = 0 then
                                   conn_call_recv_stream_data cb (upd_strm p (\<lambda>strm. dwnx_strm_shutdown strm DWNX_STRM_FLAG_SHUT_RD) (?upd p c)) p 1 ?off []
                                 else SOk () (?upd p c)) (\<lambda>_ conn. dwnx_conn_close_stream_if_shut_rdwr cb conn p)
                        else SOk () (?upd p c)) ?Q"
        using data [OF off(2) s, unfolded Let_def] off(1) by (cases "rx_last_offset s = ?off") (auto simp del: wp_sbind)
    qed
  qed simp_all
qed (simp add: conn_recv_stream_def)

lemma recv_stream_data_safe:
  assumes cb: "app_ok cb" and conn: "conn_ok conn" and p: "strm_store conn p \<noteq> None"
  shows "safe (conn_recv_stream_data cb conn p fin offset data) (\<lambda>_ c. handled conn c \<and> (\<not> fin \<longrightarrow> stays_ok conn c))"
proof -
  obtain s where s: "strm_store conn p = Some s" using p by blast
  let ?call = "if strm_has s DWNX_STRM_FLAG_STOP_SENDING
            then SOk () (dwnx_conn_extend_max_offset conn (of_nat (length data)))
            else conn_call_recv_stream_data cb conn p
                   (if fin then DWNX_STREAM_DATA_FLAG_FIN else DWNX_STREAM_DATA_FLAG_NONE) offset data"
  have call: "safe ?call (\<lambda>_. stays_ok conn)"
    using s extend_max_offset_ok [OF conn]
    by (auto simp: conn_call_recv_stream_data_def intro: safe_mono [OF conn_call_wp [OF cb conn]])
  have close: "safe (dwnx_conn_close_stream_if_shut_rdwr cb
            (upd_strm p (\<lambda>strm. dwnx_strm_shutdown strm DWNX_STRM_FLAG_SHUT_RD) c) p) (\<lambda>_. handled conn)"
    if c: "stays_ok conn c" for c
  proof -
    obtain s' where s': "strm_store c p = Some s'" using stays_ok_strm [OF c s] by blast
    show ?thesis
      using s' by (intro close_if_shut_handled [OF cb] shut_rd_handled [OF stays_handled [OF c] s']) simp
  qed
  have "safe (sbind ?call (\<lambda>_ conn. if \<not> fin then SOk () conn
     else dwnx_conn_close_stream_if_shut_rdwr cb
            (upd_strm p (\<lambda>strm. dwnx_strm_shutdown strm DWNX_STRM_FLAG_SHUT_RD) conn) p))
      (\<lambda>_ c. handled conn c \<and> (\<not> fin \<longrightarrow> stays_ok conn c))"
    unfolding wp_sbind by (rule safe_mono [OF call]) (use close in \<open>auto simp: stays_handled\<close>)
  then show ?thesis
    using s unfolding conn_recv_stream_data_def wp_with_strm by blast
qed

section \<open>Transport parameters\<close>

lemma transport_params_decode_safe_aux:
  "dwnx_transport_params_decode data \<noteq> Abort"
  "dwnx_transport_params_decode data = Ok params \<Longrightarrow> transport_params_valid params"
  using transport_params_decode_loop_neq_Abort transport_params_decode_loop_valid [OF transport_params_default_valid]
  by (auto simp: dwnx_transport_params_decode_def)

definition growing :: "('a, 'u) dwnx_conn \<Rightarrow> ('a, 'u) dwnx_conn \<Rightarrow> bool" where
  "growing conn c \<longleftrightarrow> handled conn c \<and> length (slots (strms conn)) \<le> length (slots (strms c))"

lemma growing_trans: "growing a b \<Longrightarrow> growing b c \<Longrightarrow> growing a c"
  using handled_trans [of a b c] by (simp add: growing_def)

lemma set_max_stream_offset_safe:
  assumes cb: "app_ok cb" and conn: "conn_ok conn" and pending: "params_pending conn" and client: "\<not> server conn"
    and p: "strm_store conn p = Some s"
  shows "safe (set_max_stream_offset cb conn p) (\<lambda>_. growing conn)"
proof -
  have l: "conn_local_stream conn (stream_id s)"
    using conn_okD(7) [OF conn] pending live_idsI [where store = "strm_store conn", OF p] by (simp add: early_ok_def)
  let ?m = "if bidi_stream (stream_id s) then initial_max_stream_data_bidi_remote (remote_params conn)
            else initial_max_stream_data_uni (remote_params conn)"
  let ?f = "\<lambda>strm. strm\<lparr>tx_max_offset := ?m\<rparr>"
  have m: "?m \<le> DWNX_MAX_VARINT" using conn_okD(5) [OF conn] by (simp add: params_ok_def transport_params_valid_def)
  have u: "growing conn (upd_strm p ?f conn)" if "tx_max_offset s < ?m"
  proof -
    have "strm_step ?f s" using conn_strm_ok [OF conn p] m that by (auto simp: strm_step_def strm_ok_def intro: order.trans)
    then show ?thesis using upd_strm_handled [OF conn p] by (simp add: growing_def)
  qed
  have call: "safe (conn_call cb ev (upd_strm p ?f conn)) (\<lambda>_. growing conn)" if "tx_max_offset s < ?m" for ev
  proof -
    have "growing conn c" if "stays_ok (upd_strm p ?f conn) c" for c
    proof (rule growing_trans [OF u])
      show "growing (upd_strm p ?f conn) c"
        using stays_handled [OF that] that by (simp add: growing_def stays_ok_def kept_but_def)
    qed (use \<open>tx_max_offset s < ?m\<close> in simp)
    then show ?thesis
      by (intro safe_mono [OF conn_call_wp [OF cb]]) (use u [OF that] in \<open>simp_all add: growing_def handled_ok\<close>)
  qed
  have refl: "growing conn conn" using handled_refl [OF conn] by (simp add: growing_def)
  show ?thesis
    using p client l refl u call
    by (simp add: set_max_stream_offset_def wp_if Let_def conn_call_extend_max_stream_data_def)
qed

lemma each_strm_loop_safe:
  assumes cb: "app_ok cb" and c: "growing conn c" and pending: "params_pending conn" and client: "\<not> server conn"
    and idx: "\<forall>i \<in> set is. i < length (slots (strms conn))"
  shows "safe (each_strm_loop is (set_max_stream_offset cb) c) (\<lambda>_. growing conn)"
  using c idx
proof (induction "is" arbitrary: c)
  case (Cons i "is")
  have ok: "conn_ok c" and r: "same_reader conn c" and i: "i < length (slots (strms c))"
    using Cons.prems by (auto simp: growing_def handled_def)
  have pc: "params_pending c" "\<not> server c" using r pending client pending_reader [OF r] by (simp_all add: same_reader_def)
  have IH: "safe (each_strm_loop is (set_max_stream_offset cb) d) (\<lambda>_. growing conn)" if "growing c d" for d
    using Cons.IH [OF growing_trans [OF Cons.prems(1) that]] Cons.prems(2) by simp
  show ?case
  proof (cases "slot_psl (slots (strms c) ! i) = 0")
    case True
    have "growing c c" using handled_refl [OF ok] by (simp add: growing_def)
    then show ?thesis using True i IH by simp
  next
    case False
    have inv: "dwnx_map_inv (strms c)" using ok by (simp add: conn_ok_def strms_ok_def)
    obtain s where "strm_store c (slot_data (slots (strms c) ! i)) = Some s"
      using strms_ok_alive [OF conn_okD(1) [OF ok] map_slot_abs [OF inv i False]] by blast
    then have "safe (sbind (set_max_stream_offset cb c (slot_data (slots (strms c) ! i)))
        (\<lambda>_ d. each_strm_loop is (set_max_stream_offset cb) d)) (\<lambda>_. growing conn)"
      unfolding wp_sbind by (intro safe_mono [OF set_max_stream_offset_safe [OF cb ok pc]] IH)
    then show ?thesis using False i by simp
  qed
qed simp

lemma each_strm_safe:
  assumes cb: "app_ok cb" and conn: "conn_ok conn" and pending: "params_pending conn" and client: "\<not> server conn"
  shows "safe (each_strm conn (set_max_stream_offset cb)) (\<lambda>_. handled conn)"
proof (cases "map_size (strms conn) = 0")
  case False
  have inv: "dwnx_map_inv (strms conn)" using conn by (simp add: conn_ok_def strms_ok_def)
  have len: "length (slots (strms conn)) = map_tablelen (strms conn)"
    using map_inv_table(1) [OF inv False] by (simp add: map_table_inv_def map_table_but_def)
  have g: "growing conn conn" using handled_refl [OF conn] by (simp add: growing_def)
  have "safe (each_strm_loop [0..<map_tablelen (strms conn)] (set_max_stream_offset cb) conn) (\<lambda>_. growing conn)"
    by (rule each_strm_loop_safe [OF cb g pending client]) (simp add: len)
  then show ?thesis
    using False by (auto simp: each_strm_def growing_def elim: safe_mono)
qed (use handled_refl [OF conn] in \<open>simp add: each_strm_def\<close>)

lemma new_params_ok:
  assumes conn: "conn_ok conn" and pending: "params_pending conn" and valid: "transport_params_valid params"
    and c: "c = conn\<lparr>remote_params := params, rcrd := (rcrd conn)\<lparr>rr_fr := fr\<rparr>,
                     ctx_bidi_max_streams := initial_max_streams_bidi params,
                     ctx_uni_max_streams := initial_max_streams_uni params,
                     ctx_max_offset := initial_max_data params\<rparr>"
    and early: "conn_has conn CONN_FLAG_EARLY_TRANSPORT_PARAMS_SET \<Longrightarrow>
      initial_max_data (remote_params conn) \<le> initial_max_data params"
  shows "conn_ok c"
proof -
  have pc: "params_pending c" using pending by (simp add: c params_pending_def conn_has_def)
  have e: "(conn_has conn CONN_FLAG_EARLY_TRANSPORT_PARAMS_SET \<longrightarrow> \<not> server conn)"
    "\<forall>sid \<in> live_ids (strm_store conn). conn_local_stream conn sid"
    "ctx_max_offset conn = initial_max_data (remote_params conn)"
    "conn_has conn CONN_FLAG_EARLY_TRANSPORT_PARAMS_SET \<or> ctx_offset conn = 0"
    using conn_okD(7) [OF conn] pending by (simp_all add: early_ok_def)
  have f: "flow_ok conn" using conn by (simp add: conn_ok_def)
  have "ctx_offset conn \<le> initial_max_data params"
    using e f early by (auto simp: flow_ok_def intro: order.trans)
  then have "flow_ok c" using f valid by (simp add: c flow_ok_def transport_params_valid_def)
  moreover have "early_ok c" using e pc by (simp add: c early_ok_def)
  moreover have "ids_ok c" using conn valid by (simp add: c conn_ok_def ids_ok_def transport_params_valid_def)
  moreover have "params_ok c" using conn valid by (simp add: c conn_ok_def params_ok_def)
  moreover have "strms_ok c" "queue_ok c" "time_ok c" "out_ok c" using conn by (simp_all add: c conn_ok_def)
  ultimately show ?thesis by (simp add: conn_ok_def)
qed

lemma recv_transport_params_safe:
  assumes cb: "app_ok cb" and conn: "conn_ok conn" and pending: "params_pending conn"
  shows "safe (conn_recv_transport_params cb conn data)
    (\<lambda>_ c. \<exists>fr. handled (conn\<lparr>rcrd := (rcrd conn)\<lparr>rr_fr := fr\<rparr>\<rparr>) c)"
proof (cases "dwnx_transport_params_decode data")
  case (Ok params)
  have valid: "transport_params_valid params" using transport_params_decode_safe_aux Ok by blast
  define fr where "fr = (case rr_fr (rcrd conn) of
      Fr_qx_transport_parameters fr \<Rightarrow> Fr_qx_transport_parameters (fr\<lparr>qtp_params := params\<rparr>) | fr \<Rightarrow> fr)"
  let ?base = "conn\<lparr>rcrd := (rcrd conn)\<lparr>rr_fr := fr\<rparr>\<rparr>"
  let ?c1 = "conn\<lparr>remote_params := params, rcrd := (rcrd conn)\<lparr>rr_fr := fr\<rparr>\<rparr>"
  let ?c2 = "?c1\<lparr>ctx_bidi_max_streams := initial_max_streams_bidi params, ctx_uni_max_streams := initial_max_streams_uni params,
                ctx_max_offset := initial_max_data params\<rparr>"
  have tail: "safe (sbind (if \<not> server ?c2 then each_strm ?c2 (set_max_stream_offset cb) else SOk () ?c2) (\<lambda>_ conn.
                     sbind (conn_call_recv_transport_params cb conn (remote_params conn)) (\<lambda>_ conn.
                     sbind (if ctx_bidi_max_streams conn \<noteq> 0
                            then conn_call_extend_max_local_streams_bidi cb conn (ctx_bidi_max_streams conn)
                            else SOk () conn) (\<lambda>_ conn.
                     if ctx_uni_max_streams conn \<noteq> 0
                     then conn_call_extend_max_local_streams_uni cb conn (ctx_uni_max_streams conn)
                     else SOk () conn)))) (\<lambda>_. handled ?base)"
    if c2: "conn_ok ?c2"
  proof -
    have p2: "params_pending ?c2" using pending by (simp add: params_pending_def conn_has_def)
    have base: "handled ?base ?c2" using c2 by (simp add: handled_def same_reader_def)
    have each: "safe (if \<not> server ?c2 then each_strm ?c2 (set_max_stream_offset cb) else SOk () ?c2) (\<lambda>_. handled ?base)"
      using base by (auto intro: safe_mono [OF each_strm_safe [OF cb c2 p2]] handled_trans [OF base])
    note call = handled_call [OF cb, of ?base]
    have uni: "safe (if ctx_uni_max_streams c \<noteq> 0 then conn_call_extend_max_local_streams_uni cb c (ctx_uni_max_streams c) else SOk () c)
        (\<lambda>_. handled ?base)" if "handled ?base c" for c
      using that call [OF that] by (simp add: conn_call_extend_max_local_streams_uni_def)
    have bidi: "safe (if ctx_bidi_max_streams c \<noteq> 0 then conn_call_extend_max_local_streams_bidi cb c (ctx_bidi_max_streams c) else SOk () c)
        (\<lambda>_. handled ?base)" if "handled ?base c" for c
      using that call [OF that] by (simp add: conn_call_extend_max_local_streams_bidi_def)
    have recv: "safe (conn_call_recv_transport_params cb c (remote_params c)) (\<lambda>_. handled ?base)" if "handled ?base c" for c
      using call [OF that] by (simp add: conn_call_recv_transport_params_def)
    show ?thesis
      unfolding wp_sbind
      by (rule safe_mono [OF each], rule safe_mono [OF recv], assumption, rule safe_mono [OF bidi], assumption, rule uni)
  qed
  define v where "v = (if conn_has conn CONN_FLAG_EARLY_TRANSPORT_PARAMS_SET
      then dwnx_conn_validate_early_transport_params ?c1 (remote_params conn) else SOk () ?c1)"
  define rest where "rest = (\<lambda>(_ :: unit) conn.
      let conn = conn\<lparr>ctx_bidi_max_streams := initial_max_streams_bidi params,
                      ctx_uni_max_streams := initial_max_streams_uni params,
                      ctx_max_offset := initial_max_data params\<rparr>
      in sbind (if \<not> server conn then each_strm conn (set_max_stream_offset cb) else SOk () conn) (\<lambda>_ conn.
         sbind (conn_call_recv_transport_params cb conn (remote_params conn)) (\<lambda>_ conn.
         sbind (if ctx_bidi_max_streams conn \<noteq> 0
                then conn_call_extend_max_local_streams_bidi cb conn (ctx_bidi_max_streams conn)
                else SOk () conn) (\<lambda>_ conn.
         if ctx_uni_max_streams conn \<noteq> 0
         then conn_call_extend_max_local_streams_uni cb conn (ctx_uni_max_streams conn)
         else SOk () conn))))"
  have run: "conn_recv_transport_params cb conn data =
      (if max_record_size params < of_nat DWNX_DEFAULT_MAX_RECORD_SIZE then SErr ERR_MALFORMED_TRANSPORT_PARAM ?c1
       else sbind v rest)"
    by (simp add: conn_recv_transport_params_def Ok fr_def Let_def v_def rest_def conn_has_def)
  have v: "safe v (\<lambda>_ c. c = ?c1 \<and> conn_ok ?c2)"
    using conn_okD(7) [OF conn] new_params_ok [OF conn pending valid refl, of fr]
    by (auto simp: v_def dwnx_conn_validate_early_transport_params_def Let_def early_ok_def not_less)
  have "safe (rest u ?c1) (\<lambda>_. handled ?base)" if "conn_ok ?c2" for u
    using tail [OF that] unfolding rest_def Let_def .
  then have "safe (sbind v rest) (\<lambda>_. handled ?base)" unfolding wp_sbind by (intro safe_mono [OF v]) blast
  then have "safe (conn_recv_transport_params cb conn data) (\<lambda>_. handled ?base)" by (simp add: run)
  then show ?thesis by (rule safe_mono) blast
next
  case Abort
  then show ?thesis using transport_params_decode_safe_aux by blast
qed (simp add: conn_recv_transport_params_def)

end
