(* ===== verification/ConnReader.thy ===== *)
theory ConnReader
  imports ConnSafe
begin

text \<open>
  \<open>dwnx_conn_read\<close> never aborts, whatever bytes arrive and however they are cut: the invariant of the
  reader between two rounds of its loop, that each case of the switch keeps it, and that the rounds
  the model allows are enough, since every round takes at least one byte.
\<close>

section \<open>The varint reader\<close>

definition vird_ok :: "dwnx_varint_reader \<Rightarrow> bool" where
  "vird_ok v \<longleftrightarrow> v = dwnx_varint_reader_reset \<or> (\<exists>pre vl. vird_partial v pre vl)"

lemma vird_ok_reset [simp]: "vird_ok dwnx_varint_reader_reset"
  by (simp add: vird_ok_def)

definition vird_next :: "bytes \<Rightarrow> bool \<Rightarrow> nat \<Rightarrow> dwnx_varint_reader \<Rightarrow> bool" where
  "vird_next data fin n v \<longleftrightarrow>
     0 < n \<and> n \<le> length data \<and>
     (if dwnx_varint_reader_done v then acc v \<le> DWNX_MAX_VARINT else vird_ok v \<and> \<not> fin)"

lemma varint_reader_first_next:
  assumes "data \<noteq> []"
  shows "wp (dwnx_varint_reader_read dwnx_varint_reader_reset data False) (vird_next data False) (\<lambda>_ _. False)"
  using varint_reader_first_partial [OF assms] uvvalue_read_le [of data] assms
  by (auto simp: varint_reader_first [OF assms] vird_next_def dwnx_varint_reader_done_def vird_ok_def)

lemma varint_reader_more_next:
  assumes v: "vird_partial v pre vl" and data: "data \<noteq> []"
  shows "wp (dwnx_varint_reader_read v data False) (vird_next data False) (\<lambda>_ _. False)"
proof -
  have "uvvalue (pre @ take (vl - length pre) data) \<le> DWNX_MAX_VARINT"
    using v data by (intro uvvalue_le) (auto simp: vird_partial_def)
  moreover have "length pre < vl" using v by (simp add: vird_partial_def)
  ultimately show ?thesis
    using varint_reader_more_partial [OF v, of data] data
    by (auto simp: varint_reader_more [OF v data] vird_next_def dwnx_varint_reader_done_def vird_ok_def)
qed

lemma varint_reader_next:
  assumes "vird_ok v" and "data \<noteq> []"
  shows "wp (dwnx_varint_reader_read v data False) (vird_next data False) (\<lambda>_ _. False)"
  using assms varint_reader_first_next varint_reader_more_next by (auto simp: vird_ok_def)

lemma varint_reader_read_True:
  assumes "dwnx_varint_reader_read v data False = SOk n v'" and "data \<noteq> []"
  shows "if dwnx_varint_reader_done v' then dwnx_varint_reader_read v data True = SOk n v'
    else \<exists>e v''. dwnx_varint_reader_read v data True = SErr e v''"
  using assms
  by (cases "acc v = 0 \<and> vlen v = 0")
    (auto simp: dwnx_varint_reader_read_def dwnx_varint_reader_done_def Let_def min_def split: res.splits if_splits)

lemma varint_reader_fin:
  assumes "vird_ok v" and "data \<noteq> []"
  shows "wp (dwnx_varint_reader_read v data fin) (vird_next data fin) (\<lambda>_ _. True)"
proof (cases fin)
  case True
  then show ?thesis
    using varint_reader_next [OF assms] varint_reader_read_True [OF _ assms(2), of v]
    by (cases "dwnx_varint_reader_read v data False") (auto simp: vird_next_def split: if_splits)
next
  case False
  then show ?thesis using varint_reader_next [OF assms] by (auto elim: wp_mono)
qed

section \<open>The invariant of the reader\<close>

text \<open>What the states after the first varint of a frame expect in \<open>fr\<close>.\<close>

fun frame_fits :: "dwnx_record_read_state \<Rightarrow> dwnx_frame \<Rightarrow> bool" where
  "frame_fits READ_STATE_QX_PING_SEQ fr = (\<exists>f. fr = Fr_qx_ping f)"
| "frame_fits READ_STATE_STREAM_STREAM_ID fr = (\<exists>f. fr = Fr_stream f)"
| "frame_fits READ_STATE_STREAM_OFFSET fr = (\<exists>f. fr = Fr_stream f \<and> stream_id_valid (stream_stream_id f))"
| "frame_fits READ_STATE_STREAM_LENGTH fr = (\<exists>f. fr = Fr_stream f \<and> stream_id_valid (stream_stream_id f))"
| "frame_fits READ_STATE_STREAM_DATA fr = (\<exists>f. fr = Fr_stream f \<and> stream_id_valid (stream_stream_id f))"
| "frame_fits READ_STATE_RESET_STREAM_STREAM_ID fr = (\<exists>f. fr = Fr_reset_stream f)"
| "frame_fits READ_STATE_RESET_STREAM_APP_ERROR_CODE fr = (\<exists>f. fr = Fr_reset_stream f \<and> stream_id_valid (rst_stream_id f))"
| "frame_fits READ_STATE_RESET_STREAM_FINAL_SIZE fr = (\<exists>f. fr = Fr_reset_stream f \<and> stream_id_valid (rst_stream_id f))"
| "frame_fits READ_STATE_STOP_SENDING_STREAM_ID fr = (\<exists>f. fr = Fr_stop_sending f)"
| "frame_fits READ_STATE_STOP_SENDING_APP_ERROR_CODE fr = (\<exists>f. fr = Fr_stop_sending f \<and> stream_id_valid (stop_stream_id f))"
| "frame_fits READ_STATE_MAX_DATA_MAX_DATA fr = (\<exists>f. fr = Fr_max_data f)"
| "frame_fits READ_STATE_MAX_STREAM_DATA_STREAM_ID fr = (\<exists>f. fr = Fr_max_stream_data f)"
| "frame_fits READ_STATE_MAX_STREAM_DATA_MAX_STREAM_DATA fr = (\<exists>f. fr = Fr_max_stream_data f \<and> stream_id_valid (msd_stream_id f))"
| "frame_fits READ_STATE_MAX_STREAMS_MAX_STREAMS fr = (\<exists>f. fr = Fr_max_streams f)"
| "frame_fits READ_STATE_DATA_BLOCKED_OFFSET fr = (\<exists>f. fr = Fr_data_blocked f)"
| "frame_fits READ_STATE_STREAM_DATA_BLOCKED_STREAM_ID fr = (\<exists>f. fr = Fr_stream_data_blocked f)"
| "frame_fits READ_STATE_STREAM_DATA_BLOCKED_OFFSET fr = (\<exists>f. fr = Fr_stream_data_blocked f \<and> stream_id_valid (sdb_stream_id f))"
| "frame_fits READ_STATE_STREAMS_BLOCKED_MAX_STREAMS fr = (\<exists>f. fr = Fr_streams_blocked f)"
| "frame_fits READ_STATE_CONNECTION_CLOSE_ERROR_CODE fr = (\<exists>f. fr = Fr_connection_close f)"
| "frame_fits READ_STATE_CONNECTION_CLOSE_FRAME_TYPE fr = (\<exists>f. fr = Fr_connection_close f)"
| "frame_fits READ_STATE_CONNECTION_CLOSE_REASONLEN fr = (\<exists>f. fr = Fr_connection_close f)"
| "frame_fits READ_STATE_CONNECTION_CLOSE_REASON fr = (\<exists>f. fr = Fr_connection_close f)"
| "frame_fits READ_STATE_DATAGRAM_LEN fr = (\<exists>f. fr = Fr_datagram f)"
| "frame_fits READ_STATE_DATAGRAM_DATA fr = (\<exists>f. fr = Fr_datagram f)"
| "frame_fits _ fr = True"

abbreviation data_state :: "dwnx_record_read_state \<Rightarrow> bool" where
  "data_state st \<equiv> st = READ_STATE_STREAM_DATA \<or> st = READ_STATE_DATAGRAM_DATA"

abbreviation buf_state :: "dwnx_record_read_state \<Rightarrow> bool" where
  "buf_state st \<equiv> st = READ_STATE_QX_TRANSPORT_PARAMETERS_PARAMS \<or> st = READ_STATE_CONNECTION_CLOSE_REASON"

abbreviation end_state :: "dwnx_record_read_state \<Rightarrow> bool" where
  "end_state st \<equiv> st = READ_STATE_DRAINING \<or> st = READ_STATE_CLOSING"

text \<open>The states that read a varint of a frame.\<close>

definition field_state :: "dwnx_record_read_state \<Rightarrow> bool" where
  "field_state st \<longleftrightarrow> st \<noteq> READ_STATE_RECORD_SIZE \<and> \<not> data_state st \<and> \<not> buf_state st \<and> \<not> end_state st"

definition buf_ready :: "dwnx_record_reader \<Rightarrow> bool" where
  "buf_ready r \<longleftrightarrow> (\<exists>buf. rr_buf r = Some buf \<and> 0 < dwnx_buf_left buf \<and> dwnx_buf_left buf \<le> record_left r)"

definition stream_ready :: "('a, 'u) dwnx_conn \<Rightarrow> bool" where
  "stream_ready conn \<longleftrightarrow>
     (\<exists>fr. rr_fr (rcrd conn) = Fr_stream fr \<and> receiving conn (stream_stream_id fr) (field_left (rcrd conn)))"

text \<open>Nothing may be sent before the parameters of the peer are known, unless some were remembered.\<close>

definition no_early_credit :: "('a, 'u) dwnx_conn \<Rightarrow> bool" where
  "no_early_credit conn \<longleftrightarrow>
     (params_pending conn \<and> \<not> conn_has conn CONN_FLAG_EARLY_TRANSPORT_PARAMS_SET \<longrightarrow> ctx_max_offset conn = 0)"

definition reader_ok :: "('a, 'u) dwnx_conn \<Rightarrow> bool" where
  "reader_ok conn \<longleftrightarrow>
     (let r = rcrd conn; st = rr_state r in
      vird_ok (vird conn) \<and> record_left r \<le> DWNX_DEFAULT_MAX_RECORD_SIZE \<and>
      (st \<noteq> READ_STATE_RECORD_SIZE \<and> st \<noteq> READ_STATE_FRAME_TYPE \<and> \<not> end_state st \<longrightarrow>
         conn_has conn CONN_FLAG_QX_TRANSPORT_PARAMETERS_SEEN) \<and>
      (st \<noteq> READ_STATE_RECORD_SIZE \<and> \<not> end_state st \<longrightarrow> 0 < record_left r) \<and>
      frame_fits st (rr_fr r) \<and>
      (data_state st \<longrightarrow> 0 < field_left r \<and> field_left r \<le> record_left r) \<and>
      (buf_state st \<longrightarrow> buf_ready r) \<and>
      (st = READ_STATE_STREAM_DATA \<longrightarrow> stream_ready conn) \<and> no_early_credit conn)"

text \<open>The connection between two rounds, and after the last byte of a frame.\<close>

definition read_ok :: "dwnx_tstamp \<Rightarrow> ('a, 'u) dwnx_conn \<Rightarrow> bool" where
  "read_ok t conn \<longleftrightarrow> conn_ok conn \<and> reader_ok conn \<and> last_ts conn = t"

definition frame_read :: "dwnx_tstamp \<Rightarrow> ('a, 'u) dwnx_conn \<Rightarrow> bool" where
  "frame_read t conn \<longleftrightarrow>
     conn_ok conn \<and> vird_ok (vird conn) \<and> record_left (rcrd conn) \<le> DWNX_DEFAULT_MAX_RECORD_SIZE \<and>
     conn_has conn CONN_FLAG_QX_TRANSPORT_PARAMETERS_SEEN \<and> last_ts conn = t"

fun read_post :: "dwnx_tstamp \<Rightarrow> nat \<Rightarrow> read_next \<Rightarrow> ('a, 'u) dwnx_conn \<Rightarrow> bool" where
  "read_post t n (Read_next p) conn \<longleftrightarrow> length p < n \<and> read_ok t conn"
| "read_post t n (Frame_done p) conn \<longleftrightarrow> length p < n \<and> frame_read t conn"
| "read_post t n Read_return conn \<longleftrightarrow> read_ok t conn"

lemma read_okI:
  assumes "frame_read t conn" and "0 < record_left (rcrd conn)" and "frame_fits (rr_state (rcrd conn)) (rr_fr (rcrd conn))"
    and "data_state (rr_state (rcrd conn)) \<Longrightarrow> 0 < field_left (rcrd conn) \<and> field_left (rcrd conn) \<le> record_left (rcrd conn)"
    and "buf_state (rr_state (rcrd conn)) \<Longrightarrow> buf_ready (rcrd conn)"
    and "rr_state (rcrd conn) = READ_STATE_STREAM_DATA \<Longrightarrow> stream_ready conn"
    and "no_early_credit conn"
  shows "read_ok t conn"
  unfolding read_ok_def reader_ok_def Let_def using assms by (simp add: frame_read_def)

lemma read_okD:
  assumes "read_ok t conn"
  shows "conn_ok conn" "last_ts conn = t" "vird_ok (vird conn)" "record_left (rcrd conn) \<le> DWNX_DEFAULT_MAX_RECORD_SIZE"
    "frame_fits (rr_state (rcrd conn)) (rr_fr (rcrd conn))"
    "data_state (rr_state (rcrd conn)) \<longrightarrow> 0 < field_left (rcrd conn) \<and> field_left (rcrd conn) \<le> record_left (rcrd conn)"
    "buf_state (rr_state (rcrd conn)) \<longrightarrow> buf_ready (rcrd conn)"
    "rr_state (rcrd conn) = READ_STATE_STREAM_DATA \<longrightarrow> stream_ready conn"
    "rr_state (rcrd conn) \<noteq> READ_STATE_RECORD_SIZE \<and> \<not> end_state (rr_state (rcrd conn)) \<longrightarrow> 0 < record_left (rcrd conn)"
    "no_early_credit conn"
  using assms unfolding read_ok_def reader_ok_def Let_def by - (elim conjE, assumption)+

lemma read_ok_frame:
  assumes "read_ok t conn" and "rr_state (rcrd conn) \<noteq> READ_STATE_RECORD_SIZE" "rr_state (rcrd conn) \<noteq> READ_STATE_FRAME_TYPE"
    "\<not> end_state (rr_state (rcrd conn))"
  shows "frame_read t conn"
  using assms unfolding read_ok_def reader_ok_def Let_def frame_read_def by (simp only: simp_thms)

text \<open>The reader is no part of the invariant of the connection, but for what is pending.\<close>

lemma conn_ok_reader:
  assumes "conn_ok conn" and "params_pending (conn\<lparr>vird := v, rcrd := r\<rparr>) \<Longrightarrow> params_pending conn"
  shows "conn_ok (conn\<lparr>vird := v, rcrd := r\<rparr>)"
proof -
  have "early_ok (conn\<lparr>vird := v, rcrd := r\<rparr>)"
    using conn_okD(7) [OF assms(1)] assms(2) by (auto simp: early_ok_def)
  then show ?thesis using assms(1) by (simp add: conn_ok_def)
qed

lemma params_pending_reader:
  "params_pending (conn\<lparr>vird := v, rcrd := r\<rparr>) \<longleftrightarrow>
     \<not> conn_has conn CONN_FLAG_QX_TRANSPORT_PARAMETERS_SEEN \<or>
     rr_state r = READ_STATE_QX_TRANSPORT_PARAMETERS_LEN \<or> rr_state r = READ_STATE_QX_TRANSPORT_PARAMETERS_PARAMS"
  by (simp add: params_pending_def)

lemma upd_rcrd_eq: "upd_rcrd f conn = conn\<lparr>vird := vird conn, rcrd := f (rcrd conn)\<rparr>"
  by (simp add: upd_rcrd_def)

abbreviation pending_state :: "dwnx_record_read_state \<Rightarrow> bool" where
  "pending_state st \<equiv> st = READ_STATE_QX_TRANSPORT_PARAMETERS_LEN \<or> st = READ_STATE_QX_TRANSPORT_PARAMETERS_PARAMS"

lemma early_credit_upd:
  assumes "no_early_credit conn" and "pending_state (rr_state (f (rcrd conn))) \<Longrightarrow> pending_state (rr_state (rcrd conn))"
  shows "no_early_credit (upd_rcrd f conn)"
  using assms by (auto simp: no_early_credit_def params_pending_def upd_rcrd_def)

lemma early_credit_seen:
  assumes "conn_has conn CONN_FLAG_QX_TRANSPORT_PARAMETERS_SEEN" and "\<not> pending_state (rr_state (rcrd conn))"
  shows "no_early_credit conn"
  using assms by (simp add: no_early_credit_def params_pending_def)

lemma early_credit_fields [simp]:
  "no_early_credit (conn\<lparr>vird := v\<rparr>) = no_early_credit conn"
  "no_early_credit (conn\<lparr>conn_mem := m\<rparr>) = no_early_credit conn"
  "no_early_credit (conn\<lparr>idle_ts := t\<rparr>) = no_early_credit conn"
  "no_early_credit (conn\<lparr>last_ts := t\<rparr>) = no_early_credit conn"
  by (simp_all add: no_early_credit_def params_pending_def conn_has_def)

section \<open>Steps the cases share\<close>

lemma read_field_safe:
  assumes conn: "read_ok t conn" and st: "field_state (rr_state (rcrd conn))" and p: "p \<noteq> []"
    and k: "\<And>v c p'. conn_ok c \<Longrightarrow> last_ts c = t \<Longrightarrow> record_left (rcrd c) \<le> DWNX_DEFAULT_MAX_RECORD_SIZE \<Longrightarrow>
      vird c = dwnx_varint_reader_reset \<Longrightarrow> rr_state (rcrd c) = rr_state (rcrd conn) \<Longrightarrow>
      rr_fr (rcrd c) = rr_fr (rcrd conn) \<Longrightarrow> conn_flags c = conn_flags conn \<Longrightarrow>
      no_early_credit c \<Longrightarrow>
      acc v \<le> DWNX_MAX_VARINT \<Longrightarrow> length p' < length p \<Longrightarrow> safe (k v c p') (read_post t (length p))"
  shows "safe (read_field conn p k) (read_post t (length p))"
proof -
  let ?left = "record_left (rcrd conn)"
  let ?len = "min (length p) ?left"
  let ?took = "\<lambda>v (n :: nat). conn\<lparr>vird := v, rcrd := (rcrd conn)\<lparr>record_left := ?left - n\<rparr>\<rparr>"
  have r: "vird_ok (vird conn)" "0 < ?left" "?left \<le> DWNX_DEFAULT_MAX_RECORD_SIZE" and ok: "conn_ok conn"
    using conn st by (auto simp: read_ok_def reader_ok_def field_state_def Let_def)
  have took: "conn_ok (?took v n)" for v n
    by (rule conn_ok_reader [OF ok]) (simp add: params_pending_def)
  have credit: "no_early_credit (?took v n)" for v n
    using read_okD(10) [OF conn] by (simp add: no_early_credit_def params_pending_def)
  have ret: "read_ok t (?took v n)" if "vird_ok v" "n < ?left" for v n
    using conn st took [where v = v and n = n] credit [where v = v and n = n] that by (auto simp: read_ok_def reader_ok_def field_state_def Let_def)
  have data: "take ?len p \<noteq> []" using p r by (simp add: min_def)
  have took_next: "vird_next (take ?len p) (?left = ?len) n v \<Longrightarrow>
      safe (if \<not> dwnx_varint_reader_done v then SOk Read_return (?took v n)
            else k v (?took dwnx_varint_reader_reset n) (drop n p)) (read_post t (length p))" for n v
    using ret [where v = v and n = n] k [OF took [where v = dwnx_varint_reader_reset and n = n], of v "drop n p"] r conn
      credit [where v = dwnx_varint_reader_reset and n = n]
    by (auto simp: vird_next_def read_ok_def min_def split: if_splits)
  have swap: "conn\<lparr>rcrd := r, vird := v\<rparr> = conn\<lparr>vird := v, rcrd := r\<rparr>" for r v
    by simp
  have read: "wp (dwnx_varint_reader_read (vird conn) (take ?len p) (?left = ?len)) (vird_next (take ?len p) (?left = ?len)) (\<lambda>_ _. True)"
    by (rule varint_reader_fin [OF r(1) data])
  then show ?thesis
  proof (cases "dwnx_varint_reader_read (vird conn) (take ?len p) (?left = ?len)")
    case (SOk n v)
    then have "vird_next (take ?len p) (?left = ?len) n v" using read by simp
    from took_next [OF this] show ?thesis
      using SOk by (simp add: read_field_def dwnx_record_reader_avail_def Let_def upd_rcrd_def swap split: if_splits)
  qed (simp_all add: read_field_def dwnx_record_reader_avail_def Let_def)
qed

text \<open>The same for the states after the type of the frame.\<close>

lemma frame_field_safe:
  fixes conn :: "('a, 'u) dwnx_conn"
  assumes conn: "read_ok t conn" and st: "rr_state (rcrd conn) = st" "field_state st" "st \<noteq> READ_STATE_FRAME_TYPE"
    and p: "p \<noteq> []"
    and k: "\<And>v c p'. frame_read t c \<Longrightarrow> no_early_credit c \<Longrightarrow> rr_state (rcrd c) = st \<Longrightarrow> frame_fits st (rr_fr (rcrd c)) \<Longrightarrow>
      acc v \<le> DWNX_MAX_VARINT \<Longrightarrow> stream_id_valid (i64_of_u64 (acc v)) \<Longrightarrow> length p' < length p \<Longrightarrow>
      safe (k v c p') (read_post t (length p))"
  shows "safe (read_field conn p k) (read_post t (length p))"
proof (rule read_field_safe [OF conn _ p])
  fix v :: dwnx_varint_reader and c :: "('a, 'u) dwnx_conn" and p' :: bytes
  assume c: "conn_ok c" "last_ts c = t" "record_left (rcrd c) \<le> DWNX_DEFAULT_MAX_RECORD_SIZE"
    "vird c = dwnx_varint_reader_reset" "rr_state (rcrd c) = rr_state (rcrd conn)"
    "rr_fr (rcrd c) = rr_fr (rcrd conn)" "conn_flags c = conn_flags conn"
    and early: "no_early_credit c" and v: "acc v \<le> DWNX_MAX_VARINT" "length p' < length p"
  have "frame_read t conn" by (rule read_ok_frame [OF conn]) (use st in \<open>auto simp: field_state_def\<close>)
  then have f: "frame_read t c" "frame_fits st (rr_fr (rcrd c))"
    using read_okD(5) [OF conn] st(1) c by (simp_all add: frame_read_def conn_has_def)
  show "safe (k v c p') (read_post t (length p))"
    using c(5) st(1) v(2) by (intro k [OF f(1) early _ f(2) v(1) i64_of_u64_small(2) [OF v(1)]]) simp_all
qed (use st in simp)

lemma frame_read_set_fr [simp]: "frame_read t (set_fr fr conn) = frame_read t conn"
proof -
  have "conn_ok (set_fr fr conn) = conn_ok conn"
    by (simp add: upd_rcrd_def conn_ok_def early_ok_def params_pending_def)
  then show ?thesis by (simp add: frame_read_def upd_rcrd_def)
qed

lemma frame_read_handled: "frame_read t conn \<Longrightarrow> handled conn c \<Longrightarrow> frame_read t c"
  by (auto simp: frame_read_def handled_def same_reader_def conn_has_def)

lemma then_frame_done_safe:
  assumes "frame_read t conn" and "safe r (\<lambda>_. handled conn)" and "length p < n"
  shows "safe (then_frame_done p r) (read_post t n)"
  unfolding then_frame_done_def wp_sbind
  by (rule safe_mono [OF assms(2)]) (use assms frame_read_handled in auto)

text \<open>Going on to a state that reads another varint of the frame.\<close>

lemma next_state_ok:
  assumes conn: "frame_read t conn" and st: "pending_state st \<longrightarrow> pending_state (rr_state (rcrd conn))"
    and left: "0 < record_left (rcrd conn)" and fits: "frame_fits st (rr_fr (rcrd conn))"
    and data: "data_state st \<longrightarrow> 0 < field_left (rcrd conn) \<and> field_left (rcrd conn) \<le> record_left (rcrd conn)"
    and buf: "buf_state st \<longrightarrow> buf_ready (rcrd conn)" and strm: "st = READ_STATE_STREAM_DATA \<longrightarrow> stream_ready conn"
    and early: "pending_state st \<longrightarrow> no_early_credit conn"
  shows "read_ok t (set_state st conn)"
proof -
  have "conn_ok (set_state st conn)"
    unfolding upd_rcrd_eq
    by (rule conn_ok_reader) (use conn st in \<open>auto simp: frame_read_def params_pending_def\<close>)
  then have "frame_read t (set_state st conn)" using conn by (simp add: frame_read_def upd_rcrd_def)
  moreover have "no_early_credit (set_state st conn)"
    using early st conn by (auto simp: no_early_credit_def params_pending_def upd_rcrd_def frame_read_def)
  ultimately show ?thesis
    by (intro read_okI)
      (use left fits data buf strm in \<open>simp_all add: upd_rcrd_def buf_ready_def stream_ready_def receiving_def\<close>)
qed

lemma expect_more_safe:
  assumes "frame_read t conn" and "field_state st" and "\<not> pending_state st" and "frame_fits st (rr_fr (rcrd conn))"
    and "length p < n"
  shows "safe (expect_more conn p st) (read_post t n)"
  using assms next_state_ok [OF assms(1), of st] by (auto simp: expect_more_def field_state_def)

lemma begin_frame_safe:
  assumes "frame_read t conn" and "field_state st" and "\<not> pending_state st" and "frame_fits st fr"
    and "length p < n"
  shows "safe (begin_frame conn p fr st) (read_post t n)"
proof -
  have "frame_read t (set_fr fr conn)" using assms by simp
  from next_state_ok [OF this, of st] show ?thesis
    using assms by (auto simp: begin_frame_def field_state_def) (auto simp: upd_rcrd_def)
qed

section \<open>Records and the type of a frame\<close>

lemma read_record_size_safe:
  assumes conn: "read_ok t conn" and st: "rr_state (rcrd conn) = READ_STATE_RECORD_SIZE" and p: "p \<noteq> []"
  shows "safe (read_record_size conn p) (read_post t (length p))"
proof -
  have r: "vird_ok (vird conn)" and ok: "conn_ok conn" using conn by (auto simp: read_ok_def reader_ok_def Let_def)
  have max: "max_record_size (local_params conn) = of_nat DWNX_DEFAULT_MAX_RECORD_SIZE"
    using conn_okD(5) [OF ok] by (simp add: params_ok_def)
  have ret: "read_ok t (conn\<lparr>vird := v\<rparr>)" if "vird_ok v" for v
    using conn that st by (auto simp: read_ok_def reader_ok_def conn_ok_def Let_def)
  have fin: "read_ok t (upd_rcrd (\<lambda>r. r\<lparr>record_left := unat w, rr_state := READ_STATE_FRAME_TYPE\<rparr>)
      (conn\<lparr>vird := dwnx_varint_reader_reset\<rparr>))"
    if "\<not> max_record_size (local_params conn) < w" "w \<noteq> 0" for w
  proof -
    have "unat w \<le> DWNX_DEFAULT_MAX_RECORD_SIZE" "0 < unat w"
      using that by (auto simp: max not_less word_le_nat_alt DWNX_DEFAULT_MAX_RECORD_SIZE_def unat_gt_0)
    moreover have "conn_ok (conn\<lparr>vird := dwnx_varint_reader_reset,
        rcrd := (rcrd conn)\<lparr>record_left := unat w, rr_state := READ_STATE_FRAME_TYPE\<rparr>\<rparr>)"
      by (rule conn_ok_reader [OF ok]) (simp add: params_pending_def)
    moreover have "no_early_credit (upd_rcrd (\<lambda>r. r\<lparr>record_left := unat w, rr_state := READ_STATE_FRAME_TYPE\<rparr>)
        (conn\<lparr>vird := dwnx_varint_reader_reset\<rparr>))"
      by (rule early_credit_upd) (use read_okD(10) [OF conn] in simp_all)
    ultimately show ?thesis
      using conn by (simp add: upd_rcrd_def read_ok_def reader_ok_def Let_def)
  qed
  have read: "wp (dwnx_varint_reader_read (vird conn) p False) (vird_next p False) (\<lambda>_ _. False)"
    by (rule varint_reader_next [OF r p])
  then show ?thesis
    using ret fin
    by (cases "dwnx_varint_reader_read (vird conn) p False")
      (auto simp: read_record_size_def vird_next_def Let_def split: if_splits)
qed

lemma conn_set_seen_flags [simp]:
  "conn_has (conn_set CONN_FLAG_QX_TRANSPORT_PARAMETERS_SEEN conn) CONN_FLAG_QX_TRANSPORT_PARAMETERS_SEEN"
  "conn_has (conn_set CONN_FLAG_QX_TRANSPORT_PARAMETERS_SEEN conn) CONN_FLAG_EARLY_TRANSPORT_PARAMS_SET =
     conn_has conn CONN_FLAG_EARLY_TRANSPORT_PARAMS_SET"
  by (simp_all add: conn_has_def conn_set_def word_ao_dist)

lemma seen_ok:
  assumes "conn_ok conn" and "\<not> conn_has conn CONN_FLAG_QX_TRANSPORT_PARAMETERS_SEEN"
  shows "conn_ok (upd_rcrd f (conn_set CONN_FLAG_QX_TRANSPORT_PARAMETERS_SEEN conn))"
proof -
  let ?c = "upd_rcrd f (conn_set CONN_FLAG_QX_TRANSPORT_PARAMETERS_SEEN conn)"
  have "params_pending conn" using assms(2) by (simp add: params_pending_def)
  then have "early_ok ?c"
    using conn_okD(7) [OF assms(1)] conn_set_seen_flags(2) [of conn]
    by (simp add: early_ok_def upd_rcrd_def conn_set_def)
  moreover have "strms_ok ?c" "queue_ok ?c" "ids_ok ?c" "flow_ok ?c" "params_ok ?c" "time_ok ?c" "out_ok ?c"
    using assms(1) by (simp_all add: conn_ok_def upd_rcrd_def conn_set_def)
  ultimately show ?thesis by (simp add: conn_ok_def)
qed

lemma frame_read_upd:
  assumes "frame_read t conn" and "rr_state (f (rcrd conn)) = rr_state (rcrd conn)"
    and "record_left (f (rcrd conn)) \<le> record_left (rcrd conn)"
  shows "frame_read t (upd_rcrd f conn)"
proof -
  have "conn_ok (upd_rcrd f conn)"
    unfolding upd_rcrd_eq
    by (rule conn_ok_reader) (use assms in \<open>auto simp: frame_read_def params_pending_def\<close>)
  then show ?thesis using assms by (simp add: frame_read_def upd_rcrd_def)
qed

lemma begin_params_safe:
  assumes "conn_ok conn" and "\<not> conn_has conn CONN_FLAG_QX_TRANSPORT_PARAMETERS_SEEN" and "vird_ok (vird conn)"
    and "record_left (rcrd conn) \<le> DWNX_DEFAULT_MAX_RECORD_SIZE" and "last_ts conn = t" and "length p < n"
    and early: "no_early_credit conn"
  shows "safe (begin_frame (conn_set CONN_FLAG_QX_TRANSPORT_PARAMETERS_SEEN conn) p fr READ_STATE_QX_TRANSPORT_PARAMETERS_LEN)
    (read_post t n)"
proof -
  have "upd_rcrd f (upd_rcrd g c) = upd_rcrd (f \<circ> g) c" for f g and c :: "('a, 'b) dwnx_conn"
    by (simp add: upd_rcrd_def)
  moreover have "conn_has (upd_rcrd f c) fl = conn_has c fl" for f fl and c :: "('a, 'b) dwnx_conn"
    by (simp add: upd_rcrd_def)
  moreover have "no_early_credit (upd_rcrd f (conn_set CONN_FLAG_QX_TRANSPORT_PARAMETERS_SEEN conn))" for f
    using assms(2) early conn_set_seen_flags(2) [of conn]
    by (simp add: no_early_credit_def params_pending_def upd_rcrd_def conn_set_def)
  ultimately show ?thesis
    using assms seen_ok [OF assms(1,2)]
    by (simp add: begin_frame_def read_ok_def reader_ok_def Let_def) (simp add: upd_rcrd_def conn_set_def)
qed

lemma read_frame_type_datagram_safe:
  assumes cb: "app_ok cb" and c: "frame_read t conn" and p: "length p < n" and fr: "\<exists>f. fr = Fr_datagram f"
  shows "safe (then_frame_done p (conn_recv_datagram cb (set_fr fr conn) True 0 0 [])) (read_post t n)"
    and "0 < rec_left (set_fr fr conn) \<Longrightarrow>
      read_ok t (set_state READ_STATE_DATAGRAM_DATA (upd_rcrd (\<lambda>r. r\<lparr>field_left := record_left r\<rparr>) (set_fr fr conn)))"
proof -
  let ?c = "set_fr fr conn"
  have c': "frame_read t ?c" using c by simp
  show "safe (then_frame_done p (conn_recv_datagram cb ?c True 0 0 [])) (read_post t n)"
    by (rule then_frame_done_safe [OF c' recv_datagram_safe [OF cb] p]) (use c' in \<open>simp add: frame_read_def\<close>)
  show "read_ok t (set_state READ_STATE_DATAGRAM_DATA (upd_rcrd (\<lambda>r. r\<lparr>field_left := record_left r\<rparr>) ?c))"
    if "0 < rec_left ?c"
    by (rule next_state_ok [OF frame_read_upd [OF c']])
      (use that fr in \<open>auto simp: upd_rcrd_def\<close>)
qed

lemma read_frame_type_safe:
  fixes conn :: "('a, 'u) dwnx_conn"
  assumes cb: "app_ok cb" and conn: "read_ok t conn" and st: "rr_state (rcrd conn) = READ_STATE_FRAME_TYPE" and p: "p \<noteq> []"
  shows "safe (read_frame_type cb conn p) (read_post t (length p))"
  unfolding read_frame_type_def
proof (rule read_field_safe [OF conn _ p], goal_cases)
  case (2 v c p')
  note c = 2(1-5) and p' = 2(10)
  let ?f = "\<lambda>r. r\<lparr>rr_typelen := vlen v\<rparr>"
  let ?c = "upd_rcrd ?f c"
  have ok: "conn_ok ?c" unfolding upd_rcrd_eq by (rule conn_ok_reader [OF c(1)]) (simp add: params_pending_def)
  have early: "no_early_credit ?c" by (rule early_credit_upd [OF 2(8)]) simp
  have parts: "last_ts ?c = t" "record_left (rcrd ?c) \<le> DWNX_DEFAULT_MAX_RECORD_SIZE" "vird_ok (vird ?c)"
    using c by (simp_all add: upd_rcrd_def)
  have unseen: "safe (begin_frame (conn_set CONN_FLAG_QX_TRANSPORT_PARAMETERS_SEEN ?c) p' fr READ_STATE_QX_TRANSPORT_PARAMETERS_LEN)
      (read_post t (length p))" if "\<not> conn_has ?c CONN_FLAG_QX_TRANSPORT_PARAMETERS_SEEN" for fr
    by (rule begin_params_safe [OF ok that parts(3,2,1) p' early])
  have seen: "frame_read t ?c" if "conn_has ?c CONN_FLAG_QX_TRANSPORT_PARAMETERS_SEEN"
    using ok parts that by (simp add: frame_read_def)
  have frame: "safe (begin_frame ?c p' fr st) (read_post t (length p))"
    if "conn_has ?c CONN_FLAG_QX_TRANSPORT_PARAMETERS_SEEN" "field_state st" "\<not> pending_state st" "frame_fits st fr" for fr st
    using begin_frame_safe [OF seen that(2,3,4) p'] that(1) .
  have pad: "frame_read t (upd_rcrd (\<lambda>r. r\<lparr>record_left := record_left r - m\<rparr>) ?c)"
    if "conn_has ?c CONN_FLAG_QX_TRANSPORT_PARAMETERS_SEEN" for m
    by (rule frame_read_upd [OF seen [OF that]]) simp_all
  note dgram = read_frame_type_datagram_safe [OF cb seen p']
  define c1 where "c1 = ?c"
  show ?case
    using p' unfolding Let_def c1_def [symmetric]
    by (simp add: wp_if unseen [folded c1_def] frame [folded c1_def] pad [folded c1_def] dgram [folded c1_def]
        field_state_def padding_run_def less_imp_diff_less)
qed (use st in \<open>simp add: field_state_def\<close>)

section \<open>The members of a frame\<close>

lemma upd_rcrd_fields [simp]:
  "rcrd (upd_rcrd f conn) = f (rcrd conn)" "vird (upd_rcrd f conn) = vird conn"
  "conn_has (upd_rcrd f conn) fl = conn_has conn fl"
  by (simp_all add: upd_rcrd_def)

lemma frame_read_facts:
  assumes "frame_read t c"
  shows "conn_ok (set_fr fr c)" "last_ts (set_fr fr c) = t" "t = last_ts (set_fr fr c)"
    "\<not> pending_state (rr_state (rcrd c)) \<Longrightarrow> \<not> params_pending (set_fr fr c)"
proof -
  have "frame_read t (set_fr fr c)" using assms by simp
  then show "conn_ok (set_fr fr c)" "last_ts (set_fr fr c) = t" "t = last_ts (set_fr fr c)"
    by (simp_all add: frame_read_def)
  show "\<not> pending_state (rr_state (rcrd c)) \<Longrightarrow> \<not> params_pending (set_fr fr c)"
    using assms by (simp add: frame_read_def params_pending_def upd_rcrd_def)
qed

text \<open>The states that read a member in the middle of a frame.\<close>

lemma read_reset_stream_stream_id_safe:
  assumes "read_ok t conn" and "rr_state (rcrd conn) = READ_STATE_RESET_STREAM_STREAM_ID" and "p \<noteq> []"
  shows "safe (read_reset_stream_stream_id conn p) (read_post t (length p))"
  unfolding read_reset_stream_stream_id_def
  by (rule frame_field_safe [OF assms(1,2) _ _ assms(3)]) (auto simp: field_state_def intro!: expect_more_safe)

lemma read_reset_stream_app_error_code_safe:
  assumes "read_ok t conn" and "rr_state (rcrd conn) = READ_STATE_RESET_STREAM_APP_ERROR_CODE" and "p \<noteq> []"
  shows "safe (read_reset_stream_app_error_code conn p) (read_post t (length p))"
  unfolding read_reset_stream_app_error_code_def
  by (rule frame_field_safe [OF assms(1,2) _ _ assms(3)]) (auto simp: field_state_def intro!: expect_more_safe)

lemma read_stop_sending_stream_id_safe:
  assumes "read_ok t conn" and "rr_state (rcrd conn) = READ_STATE_STOP_SENDING_STREAM_ID" and "p \<noteq> []"
  shows "safe (read_stop_sending_stream_id conn p) (read_post t (length p))"
  unfolding read_stop_sending_stream_id_def
  by (rule frame_field_safe [OF assms(1,2) _ _ assms(3)]) (auto simp: field_state_def intro!: expect_more_safe)

lemma read_max_stream_data_stream_id_safe:
  assumes "read_ok t conn" and "rr_state (rcrd conn) = READ_STATE_MAX_STREAM_DATA_STREAM_ID" and "p \<noteq> []"
  shows "safe (read_max_stream_data_stream_id conn p) (read_post t (length p))"
  unfolding read_max_stream_data_stream_id_def
  by (rule frame_field_safe [OF assms(1,2) _ _ assms(3)]) (auto simp: field_state_def intro!: expect_more_safe)

lemma read_stream_data_blocked_stream_id_safe:
  assumes "read_ok t conn" and "rr_state (rcrd conn) = READ_STATE_STREAM_DATA_BLOCKED_STREAM_ID" and "p \<noteq> []"
  shows "safe (read_stream_data_blocked_stream_id conn p) (read_post t (length p))"
  unfolding read_stream_data_blocked_stream_id_def
  by (rule frame_field_safe [OF assms(1,2) _ _ assms(3)]) (auto simp: field_state_def intro!: expect_more_safe)

lemma read_connection_close_error_code_safe:
  assumes "read_ok t conn" and "rr_state (rcrd conn) = READ_STATE_CONNECTION_CLOSE_ERROR_CODE" and "p \<noteq> []"
  shows "safe (read_connection_close_error_code conn p) (read_post t (length p))"
  unfolding read_connection_close_error_code_def
  by (rule frame_field_safe [OF assms(1,2) _ _ assms(3)]) (auto simp: field_state_def intro!: expect_more_safe)

lemma read_connection_close_frame_type_safe:
  assumes "read_ok t conn" and "rr_state (rcrd conn) = READ_STATE_CONNECTION_CLOSE_FRAME_TYPE" and "p \<noteq> []"
  shows "safe (read_connection_close_frame_type conn p) (read_post t (length p))"
  unfolding read_connection_close_frame_type_def
  by (rule frame_field_safe [OF assms(1,2) _ _ assms(3)]) (auto simp: field_state_def intro!: expect_more_safe)

text \<open>The states that read the last member of a frame, and call its handler.\<close>

lemma read_qx_ping_seq_safe:
  assumes "read_ok t conn" and "rr_state (rcrd conn) = READ_STATE_QX_PING_SEQ" and "p \<noteq> []"
  shows "safe (read_qx_ping_seq conn t p) (read_post t (length p))"
  unfolding read_qx_ping_seq_def
  by (rule frame_field_safe [OF assms(1,2) _ _ assms(3)])
    (auto simp: field_state_def stream_id_valid_def frame_read_facts Let_def intro!: then_frame_done_safe [OF _ recv_ping_safe])

lemma read_reset_stream_final_size_safe:
  assumes "app_ok cb" and "read_ok t conn" and "rr_state (rcrd conn) = READ_STATE_RESET_STREAM_FINAL_SIZE" and "p \<noteq> []"
  shows "safe (read_reset_stream_final_size cb null conn p) (read_post t (length p))"
  unfolding read_reset_stream_final_size_def
  by (rule frame_field_safe [OF assms(2,3) _ _ assms(4)])
    (auto simp: field_state_def stream_id_valid_def frame_read_facts Let_def intro!: then_frame_done_safe [OF _ recv_reset_stream_safe [OF assms(1)]])

lemma read_stop_sending_app_error_code_safe:
  assumes "app_ok cb" and "read_ok t conn" and "rr_state (rcrd conn) = READ_STATE_STOP_SENDING_APP_ERROR_CODE" and "p \<noteq> []"
  shows "safe (read_stop_sending_app_error_code cb null conn t p) (read_post t (length p))"
  unfolding read_stop_sending_app_error_code_def
  by (rule frame_field_safe [OF assms(2,3) _ _ assms(4)])
    (auto simp: field_state_def stream_id_valid_def frame_read_facts Let_def intro!: then_frame_done_safe [OF _ recv_stop_sending_safe [OF assms(1)]])

lemma read_max_data_max_data_safe:
  assumes "read_ok t conn" and "rr_state (rcrd conn) = READ_STATE_MAX_DATA_MAX_DATA" and "p \<noteq> []"
  shows "safe (read_max_data_max_data conn p) (read_post t (length p))"
  unfolding read_max_data_max_data_def
  by (rule frame_field_safe [OF assms(1,2) _ _ assms(3)])
    (auto simp: field_state_def stream_id_valid_def frame_read_facts Let_def intro!: then_frame_done_safe [OF _ recv_max_data_safe])

lemma read_max_stream_data_max_stream_data_safe:
  assumes "app_ok cb" and "read_ok t conn" and "rr_state (rcrd conn) = READ_STATE_MAX_STREAM_DATA_MAX_STREAM_DATA" and "p \<noteq> []"
  shows "safe (read_max_stream_data_max_stream_data cb null conn t p) (read_post t (length p))"
  unfolding read_max_stream_data_max_stream_data_def
  by (rule frame_field_safe [OF assms(2,3) _ _ assms(4)])
    (auto simp: field_state_def stream_id_valid_def frame_read_facts Let_def intro!: then_frame_done_safe [OF _ recv_max_stream_data_safe [OF assms(1)]])

lemma read_max_streams_max_streams_safe:
  assumes "app_ok cb" and "read_ok t conn" and "rr_state (rcrd conn) = READ_STATE_MAX_STREAMS_MAX_STREAMS" and "p \<noteq> []"
  shows "safe (read_max_streams_max_streams cb conn p) (read_post t (length p))"
  unfolding read_max_streams_max_streams_def
  by (rule frame_field_safe [OF assms(2,3) _ _ assms(4)])
    (auto simp: field_state_def stream_id_valid_def frame_read_facts Let_def intro!: then_frame_done_safe [OF _ recv_max_streams_safe [OF assms(1)]])

lemma read_data_blocked_offset_safe:
  assumes "read_ok t conn" and "rr_state (rcrd conn) = READ_STATE_DATA_BLOCKED_OFFSET" and "p \<noteq> []"
  shows "safe (read_data_blocked_offset conn p) (read_post t (length p))"
  unfolding read_data_blocked_offset_def
  by (rule frame_field_safe [OF assms(1,2) _ _ assms(3)])
    (auto simp: field_state_def stream_id_valid_def frame_read_facts Let_def intro!: then_frame_done_safe [OF _ recv_blocked_safe(2)])

lemma read_stream_data_blocked_offset_safe:
  assumes "read_ok t conn" and "rr_state (rcrd conn) = READ_STATE_STREAM_DATA_BLOCKED_OFFSET" and "p \<noteq> []"
  shows "safe (read_stream_data_blocked_offset conn p) (read_post t (length p))"
  unfolding read_stream_data_blocked_offset_def
  by (rule frame_field_safe [OF assms(1,2) _ _ assms(3)])
    (auto simp: field_state_def stream_id_valid_def frame_read_facts Let_def intro!: then_frame_done_safe [OF _ recv_stream_data_blocked_safe])

lemma read_streams_blocked_max_streams_safe:
  assumes "read_ok t conn" and "rr_state (rcrd conn) = READ_STATE_STREAMS_BLOCKED_MAX_STREAMS" and "p \<noteq> []"
  shows "safe (read_streams_blocked_max_streams conn p) (read_post t (length p))"
  unfolding read_streams_blocked_max_streams_def
  by (rule frame_field_safe [OF assms(1,2) _ _ assms(3)])
    (auto simp: field_state_def stream_id_valid_def frame_read_facts Let_def intro!: then_frame_done_safe [OF _ recv_blocked_safe(1)])

section \<open>STREAM frames\<close>

lemma max_record_size_less: "n \<le> DWNX_DEFAULT_MAX_RECORD_SIZE \<Longrightarrow> n < 2 ^ 62"
  by (simp add: DWNX_DEFAULT_MAX_RECORD_SIZE_def)

lemma frame_read_same: "frame_read t conn \<Longrightarrow> handled conn c \<Longrightarrow> rcrd c = rcrd conn"
  by (simp add: handled_def same_reader_def)

lemma stream_header_done_safe:
  assumes cb: "app_ok cb" and conn: "frame_read t conn" and st: "\<not> pending_state (rr_state (rcrd conn))"
    and sid: "stream_id_valid (stream_stream_id fr)" and len: "len \<le> record_left (rcrd conn)" and p: "length p < n"
  shows "safe (stream_header_done cb null conn p fr len) (read_post t n)"
proof -
  let ?fr = "fr\<lparr>stream_len := len\<rparr>"
  let ?c = "upd_rcrd (\<lambda>r. r\<lparr>rr_fr := Fr_stream ?fr, field_left := len\<rparr>) conn"
  have c: "frame_read t ?c" by (rule frame_read_upd [OF conn]) simp_all
  have np: "\<not> params_pending ?c" using c st by (simp add: frame_read_def params_pending_def)
  have l: "stream_len ?fr < 2 ^ 62"
    using len conn max_record_size_less [of len] by (simp add: frame_read_def)
  have recv: "safe (conn_recv_stream cb null ?c ?fr)
      (\<lambda>_ c. handled ?c c \<and> (0 < len \<longrightarrow> receiving c (stream_stream_id fr) len))"
    by (rule safe_mono [OF recv_stream_safe [OF cb _ np _ _ l]])
      (use c sid in \<open>auto simp: frame_read_def stream_id_valid_def\<close>)
  have data: "read_ok t (set_state READ_STATE_STREAM_DATA d)"
    if "handled ?c d" "receiving d (stream_stream_id fr) len" "0 < len" for d
  proof -
    have r: "rcrd d = rcrd ?c" using frame_read_same [OF c that(1)] .
    show ?thesis
      by (rule next_state_ok [OF frame_read_handled [OF c that(1)]])
        (use r len sid that in \<open>auto simp: stream_ready_def\<close>)
  qed
  have "safe (if field_left (rcrd d) = 0 then SOk (Frame_done p) d
              else SOk (Read_next p) (set_state READ_STATE_STREAM_DATA d)) (read_post t n)"
    if "handled ?c d" "0 < len \<longrightarrow> receiving d (stream_stream_id fr) len" for d
    using data [OF that(1)] that frame_read_handled [OF c that(1)] frame_read_same [OF c that(1)] p by simp
  then show ?thesis
    unfolding stream_header_done_def Let_def wp_sbind by (intro safe_mono [OF recv]) blast
qed

lemma read_stream_stream_id_safe:
  assumes "app_ok cb" and "read_ok t conn" and "rr_state (rcrd conn) = READ_STATE_STREAM_STREAM_ID" and "p \<noteq> []"
  shows "safe (read_stream_stream_id cb null conn p) (read_post t (length p))"
  unfolding read_stream_stream_id_def
  by (rule frame_field_safe [OF assms(2,3) _ _ assms(4)])
    (auto simp: field_state_def Let_def intro!: expect_more_safe begin_frame_safe stream_header_done_safe [OF assms(1)])

lemma read_stream_offset_safe:
  assumes "app_ok cb" and "read_ok t conn" and "rr_state (rcrd conn) = READ_STATE_STREAM_OFFSET" and "p \<noteq> []"
  shows "safe (read_stream_offset cb null conn p) (read_post t (length p))"
  unfolding read_stream_offset_def
  by (rule frame_field_safe [OF assms(2,3) _ _ assms(4)])
    (auto simp: field_state_def Let_def intro!: expect_more_safe stream_header_done_safe [OF assms(1)])

lemma read_stream_length_safe:
  assumes "app_ok cb" and "read_ok t conn" and "rr_state (rcrd conn) = READ_STATE_STREAM_LENGTH" and "p \<noteq> []"
  shows "safe (read_stream_length cb null conn p) (read_post t (length p))"
  unfolding read_stream_length_def
  by (rule frame_field_safe [OF assms(2,3) _ _ assms(4)])
    (auto simp: field_state_def Let_def intro!: stream_header_done_safe [OF assms(1)])

lemma receiving_stays:
  assumes "receiving conn sid n" and c: "stays_ok conn c" and "m \<le> n"
  shows "receiving c sid m"
proof -
  obtain p s where s: "strm_store conn p = Some s" "stream_id s = sid" "\<not> strm_has s DWNX_STRM_FLAG_SHUT_RD"
    "n \<le> unat (rx_last_offset s)"
    using assms(1) by (auto simp: receiving_def)
  obtain s' where s': "strm_store c p = Some s'" "strm_kept s s'" using stays_ok_strm [OF c s(1)] by blast
  show ?thesis
    by (rule receivingI [OF stays_okD [OF c] s'(1)]) (use s s'(2) assms(3) in \<open>simp_all add: strm_kept_def\<close>)
qed

text \<open>Taking \<open>len\<close> bytes of the data of a frame.\<close>

abbreviation take_data :: "nat \<Rightarrow> ('a, 'u) dwnx_conn \<Rightarrow> ('a, 'u) dwnx_conn" where
  "take_data len \<equiv> upd_rcrd (\<lambda>r. r\<lparr>record_left := record_left r - len, field_left := field_left r - len\<rparr>)"

lemma take_data_ok:
  assumes conn: "read_ok t conn" and st: "data_state (rr_state (rcrd conn))" and c: "handled conn c"
    and len: "len = dwnx_record_reader_field_avail (rcrd conn) (length p)" and p: "p \<noteq> []"
  shows "frame_read t (take_data len c)" and "0 < len" and "len \<le> length p"
    and "field_left (rcrd conn) \<noteq> len \<Longrightarrow>
      rr_state (rcrd conn) = READ_STATE_STREAM_DATA \<longrightarrow> stream_ready (take_data len c) \<Longrightarrow> read_ok t (take_data len c)"
proof -
  have r: "rcrd c = rcrd conn" "conn_flags c = conn_flags conn"
    using c by (simp_all add: handled_def same_reader_def)
  have f: "0 < field_left (rcrd conn)" "field_left (rcrd conn) \<le> record_left (rcrd conn)"
    "frame_fits (rr_state (rcrd conn)) (rr_fr (rcrd conn))"
    using read_okD(5,6) [OF conn] st by simp_all
  have m: "len \<le> field_left (rcrd conn)" by (simp add: len dwnx_record_reader_field_avail_def)
  show l: "0 < len" "len \<le> length p"
    using f(1,2) p by (simp_all add: len dwnx_record_reader_field_avail_def dwnx_record_reader_avail_def)
  have "frame_read t conn" by (rule read_ok_frame [OF conn]) (use st in auto)
  then have "frame_read t c" using c by (rule frame_read_handled)
  then show fr: "frame_read t (take_data len c)" by (rule frame_read_upd) simp_all
  assume more: "field_left (rcrd conn) \<noteq> len" "rr_state (rcrd conn) = READ_STATE_STREAM_DATA \<longrightarrow> stream_ready (take_data len c)"
  have "0 < field_left (rcrd conn) - len" "field_left (rcrd conn) - len \<le> record_left (rcrd conn) - len"
    "0 < record_left (rcrd conn) - len"
    using m more(1) f(1,2) by linarith+
  moreover have "no_early_credit (take_data len c)"
    by (rule early_credit_seen) (use fr st r(1) in \<open>auto simp: frame_read_def\<close>)
  ultimately show "read_ok t (take_data len c)"
    by (intro read_okI [OF fr]) (use f(3) more(2) st r(1) in auto)
qed

lemma stream_ready_take:
  assumes "receiving c sid (field_left (rcrd c) - len)" and "rr_fr (rcrd c) = Fr_stream fr" and "stream_stream_id fr = sid"
  shows "stream_ready (take_data len c)"
  using assms by (auto simp: stream_ready_def receiving_def upd_rcrd_def)

lemma read_stream_data_safe:
  assumes cb: "app_ok cb" and conn: "read_ok t conn" and st: "rr_state (rcrd conn) = READ_STATE_STREAM_DATA" and p: "p \<noteq> []"
  shows "safe (read_stream_data cb conn p) (read_post t (length p))"
proof -
  obtain fr where fr: "rr_fr (rcrd conn) = Fr_stream fr" and rec: "receiving conn (stream_stream_id fr) (field_left (rcrd conn))"
    using read_okD(8) [OF conn] st by (auto simp: stream_ready_def)
  have ok: "conn_ok conn" using conn by (simp add: read_ok_def)
  define len where "len = dwnx_record_reader_field_avail (rcrd conn) (length p)"
  note take = take_data_ok [OF conn disjI1 [OF st] _ len_def p]
  have done': "safe (let c = take_data len d in
      if field_left (rcrd c) \<noteq> 0 then SOk Read_return c else SOk (Frame_done (drop len p)) c) (read_post t (length p))"
    if d: "handled conn d" "\<not> (stream_fin fr \<and> field_left (rcrd conn) = len) \<longrightarrow> stays_ok conn d" for d
  proof -
    have r: "rcrd d = rcrd conn" using d(1) by (simp add: handled_def same_reader_def)
    have m: "len \<le> field_left (rcrd conn)" by (simp add: len_def dwnx_record_reader_field_avail_def)
    have "stream_ready (take_data len d)" if "field_left (rcrd conn) \<noteq> len"
      using receiving_stays [OF rec, of d "field_left (rcrd conn) - len"] d(2) that r fr by (auto intro: stream_ready_take)
    then show ?thesis
      using take [OF d(1)] m r by (auto simp: Let_def)
  qed
  have some: "safe (with_strm conn q (\<lambda>strm.
      sbind (conn_recv_stream_data cb conn q (stream_fin fr \<and> field_left (rcrd conn) = len)
               (rx_last_offset strm - of_nat (field_left (rcrd conn))) (take len p)) (\<lambda>_ conn.
      let conn = take_data len conn
      in if field_left (rcrd conn) \<noteq> 0 then SOk Read_return conn
         else SOk (Frame_done (drop len p)) conn))) (read_post t (length p))"
    if "strm_store conn q = Some s" for q s
  proof -
    have recv: "safe (conn_recv_stream_data cb conn q fin off data) (\<lambda>_ c. handled conn c \<and> (\<not> fin \<longrightarrow> stays_ok conn c))" for fin off data
      by (rule recv_stream_data_safe [OF cb ok]) (use that in simp)
    show ?thesis
      unfolding wp_with_strm wp_sbind
    proof (intro exI conjI, rule that, rule safe_mono [OF recv], goal_cases)
      case (1 x d)
      then show ?case using done' by blast
    qed
  qed
  show ?thesis
    unfolding read_stream_data_def fr dwnx_frame.case
  proof (rule find_stream_safe [OF ok], goal_cases)
    case 1
    then show ?case using rec by (simp add: receiving_def)
  next
    case (2 q s)
    then show ?case using some [OF 2(2)] by (simp only: len_def Let_def option.case)
  qed
qed

section \<open>DATAGRAM frames\<close>

lemma read_datagram_len_safe:
  assumes cb: "app_ok cb" and conn: "read_ok t conn" and st: "rr_state (rcrd conn) = READ_STATE_DATAGRAM_LEN" and p: "p \<noteq> []"
  shows "safe (read_datagram_len cb conn p) (read_post t (length p))"
  unfolding read_datagram_len_def
proof (rule frame_field_safe [OF conn st _ _ p], goal_cases)
  case (3 v c p')
  then obtain fr where fr: "rr_fr (rcrd c) = Fr_datagram fr" by auto
  let ?f = "\<lambda>r. r\<lparr>rr_fr := Fr_datagram (fr\<lparr>dgram_len := unat (acc v)\<rparr>), field_left := unat (acc v)\<rparr>"
  have c: "frame_read t (upd_rcrd ?f c)" by (rule frame_read_upd [OF 3(1)]) simp_all
  then have "safe (then_frame_done p' (conn_recv_datagram cb (upd_rcrd ?f c) True 0 0 [])) (read_post t (length p))"
    by (intro then_frame_done_safe [OF c recv_datagram_safe [OF cb] 3(7)]) (simp add: frame_read_def)
  moreover have "read_ok t (set_state READ_STATE_DATAGRAM_DATA (upd_rcrd ?f c))"
    if "unat (acc v) \<noteq> 0" "unat (acc v) \<le> rec_left c"
    by (rule next_state_ok [OF c]) (use that in auto)
  ultimately show ?case
    using 3(7) fr by (cases "unat (acc v) = 0") (simp_all add: wp_if Let_def)
qed (simp_all add: field_state_def)

lemma read_datagram_data_safe:
  assumes cb: "app_ok cb" and conn: "read_ok t conn" and st: "rr_state (rcrd conn) = READ_STATE_DATAGRAM_DATA" and p: "p \<noteq> []"
  shows "safe (read_datagram_data cb conn p) (read_post t (length p))"
proof -
  obtain fr where fr: "rr_fr (rcrd conn) = Fr_datagram fr"
    using read_okD(5) [OF conn] st by auto
  have ok: "conn_ok conn" using conn by (simp add: read_ok_def)
  define len where "len = dwnx_record_reader_field_avail (rcrd conn) (length p)"
  note take = take_data_ok [OF conn disjI2 [OF st] _ len_def p]
  have rest: "safe (let c = take_data len d in
      if field_left (rcrd c) \<noteq> 0 then SOk Read_return c else SOk (Frame_done (drop len p)) c) (read_post t (length p))"
    if d: "handled conn d" for d
  proof -
    have r: "rcrd d = rcrd conn" using d by (simp add: handled_def same_reader_def)
    show ?thesis using take [OF d] r st p by (auto simp: Let_def)
  qed
  show ?thesis
    unfolding read_datagram_data_def fr dwnx_frame.case len_def [symmetric] Let_def [of len] wp_sbind
    by (rule safe_mono [OF recv_datagram_safe [OF cb ok]]) (rule rest)
qed

section \<open>Buffered members\<close>

lemma read_into_buf_safe:
  assumes conn: "read_ok t conn" and st: "rr_state (rcrd conn) = st" "buf_state st" and p: "p \<noteq> []"
    and k: "\<And>buf c p'. frame_read t c \<Longrightarrow> rr_state (rcrd c) = st \<Longrightarrow> rr_fr (rcrd c) = rr_fr (rcrd conn) \<Longrightarrow>
      length p' < length p \<Longrightarrow> safe (k buf c p') (read_post t (length p))"
  shows "safe (read_into_buf conn p k) (read_post t (length p))"
proof -
  obtain buf where buf: "rr_buf (rcrd conn) = Some buf" "0 < dwnx_buf_left buf" "dwnx_buf_left buf \<le> record_left (rcrd conn)"
    using read_okD(7) [OF conn] st by (auto simp: buf_ready_def)
  define len where "len = dwnx_record_reader_buf_avail (rcrd conn) buf (length p)"
  let ?buf = "buf_append buf (take len p)"
  let ?c = "upd_rcrd (\<lambda>r. r\<lparr>rr_buf := Some ?buf, record_left := record_left r - len\<rparr>) conn"
  have len: "0 < len" "len \<le> length p" "len \<le> dwnx_buf_left buf"
    using buf p by (simp_all add: len_def dwnx_record_reader_buf_avail_def dwnx_record_reader_avail_def)
  have left: "dwnx_buf_left ?buf = dwnx_buf_left buf - len"
    using len by (simp add: dwnx_buf_left_def buf_append_def)
  have "frame_read t conn" by (rule read_ok_frame [OF conn]) (use st in auto)
  then have c: "frame_read t ?c" by (rule frame_read_upd) simp_all
  have "read_ok t ?c" if "dwnx_buf_left ?buf \<noteq> 0"
  proof -
    have "frame_fits st (rr_fr (rcrd conn))" using read_okD(5) [OF conn] st(1) by simp
    moreover have "buf_ready (rcrd ?c)" using that left buf by (simp add: buf_ready_def)
    moreover have "0 < record_left (rcrd ?c)" using that left buf by simp
    moreover have "no_early_credit ?c" by (rule early_credit_upd [OF read_okD(10) [OF conn]]) simp
    ultimately show ?thesis
      by (intro read_okI [OF c]) (use st in auto)
  qed
  then show ?thesis
    using k [OF c, of "drop len p" ?buf] len st
    by (simp add: read_into_buf_def buf(1) len_def [symmetric] Let_def wp_if)
qed

lemma frame_recv_params_safe:
  assumes cb: "app_ok cb" and conn: "frame_read t conn" and st: "pending_state (rr_state (rcrd conn))"
  shows "safe (conn_recv_transport_params cb conn data) (\<lambda>_. frame_read t)"
proof -
  have "params_pending conn" "conn_ok conn" using st conn by (auto simp: params_pending_def frame_read_def)
  moreover have "frame_read t c" if "handled (conn\<lparr>rcrd := (rcrd conn)\<lparr>rr_fr := fr\<rparr>\<rparr>) c" for fr c
    using frame_read_handled [OF _ that, of t] frame_read_set_fr [of t fr conn] conn by (simp add: upd_rcrd_def)
  ultimately show ?thesis by (intro safe_mono [OF recv_transport_params_safe [OF cb]]) blast+
qed

lemma read_params_safe:
  assumes cb: "app_ok cb" and conn: "read_ok t conn" and p: "p \<noteq> []"
    and st: "rr_state (rcrd conn) = READ_STATE_QX_TRANSPORT_PARAMETERS_PARAMS"
  shows "safe (read_qx_transport_parameters_params cb conn p) (read_post t (length p))"
  unfolding read_qx_transport_parameters_params_def
  by (rule read_into_buf_safe [OF conn st _ p])
    (auto simp: then_frame_done_def intro!: safe_mono [OF frame_recv_params_safe [OF cb]])

lemma frame_read_mem: "frame_read t conn \<Longrightarrow> frame_read t (conn\<lparr>conn_mem := m\<rparr>)"
  by (simp add: frame_read_def conn_ok_def)

lemma buffer_state_ok:
  assumes conn: "frame_read t conn" and st: "buf_state st" "pending_state st \<longrightarrow> pending_state (rr_state (rcrd conn))"
    and n: "0 < n" "n \<le> record_left (rcrd conn)" and fits: "frame_fits st (rr_fr (rcrd conn))"
    and early: "pending_state st \<longrightarrow> no_early_credit conn"
  shows "read_ok t (set_state st (upd_rcrd (\<lambda>r. r\<lparr>rr_buf := Some (dwnx_buf_init n)\<rparr>) conn))"
proof (rule next_state_ok)
  show "frame_read t (upd_rcrd (\<lambda>r. r\<lparr>rr_buf := Some (dwnx_buf_init n)\<rparr>) conn)"
    by (rule frame_read_upd [OF conn]) simp_all
  show "pending_state st \<longrightarrow> no_early_credit (upd_rcrd (\<lambda>r. r\<lparr>rr_buf := Some (dwnx_buf_init n)\<rparr>) conn)"
    using early by (auto intro: early_credit_upd)
qed (use st n fits in \<open>auto simp: buf_ready_def dwnx_buf_left_def dwnx_buf_init_def\<close>)

lemma read_params_len_safe:
  assumes cb: "app_ok cb" and conn: "read_ok t conn" and p: "p \<noteq> []"
    and st: "rr_state (rcrd conn) = READ_STATE_QX_TRANSPORT_PARAMETERS_LEN"
  shows "safe (read_qx_transport_parameters_len cb conn p) (read_post t (length p))"
  unfolding read_qx_transport_parameters_len_def
proof (rule frame_field_safe [OF conn st _ _ p], goal_cases)
  case (3 v c p')
  let ?n = "unat (acc v)"
  have recv: "safe (conn_recv_transport_params cb c data) (\<lambda>_. frame_read t)" for data
    by (rule frame_recv_params_safe [OF cb 3(1)]) (simp add: 3(3))
  have empty: "safe (then_frame_done p' (conn_recv_transport_params cb c [])) (read_post t (length p))"
    unfolding then_frame_done_def wp_sbind by (rule safe_mono [OF recv]) (use 3(7) in simp)
  have direct: "safe (sbind (conn_recv_transport_params cb c data) (\<lambda>_ conn.
      SOk (Frame_done (drop ?n p')) (upd_rcrd (\<lambda>r. r\<lparr>record_left := record_left r - ?n\<rparr>) conn))) (read_post t (length p))" for data
    unfolding wp_sbind by (rule safe_mono [OF recv]) (use 3(7) in \<open>auto intro: frame_read_upd\<close>)
  have buffer: "read_ok t (set_state READ_STATE_QX_TRANSPORT_PARAMETERS_PARAMS
      (upd_rcrd (\<lambda>r. r\<lparr>rr_buf := Some (dwnx_buf_init ?n)\<rparr>) (c\<lparr>conn_mem := m\<rparr>)))"
    if "0 < ?n" "\<not> rec_left c < ?n" for m
    by (rule buffer_state_ok [OF frame_read_mem [OF 3(1)]]) (use 3(2,3) that in simp_all)
  show ?case
    using empty direct buffer 3(7) by (simp add: Let_def wp_if split: prod.split)
qed (simp_all add: field_state_def)

section \<open>CONNECTION_CLOSE frames\<close>

lemma read_reasonlen_safe:
  assumes conn: "read_ok t conn" and p: "p \<noteq> []"
    and st: "rr_state (rcrd conn) = READ_STATE_CONNECTION_CLOSE_REASONLEN"
  shows "safe (read_connection_close_reasonlen conn p) (read_post t (length p))"
  unfolding read_connection_close_reasonlen_def
proof (rule frame_field_safe [OF conn st _ _ p], goal_cases)
  case (3 v c p')
  then obtain fr where fr: "rr_fr (rcrd c) = Fr_connection_close fr" by auto
  let ?n = "unat (acc v)"
  have c: "frame_read t (set_fr f (c\<lparr>conn_mem := m\<rparr>))" for f m
    using frame_read_mem [OF 3(1)] by simp
  have "read_ok t (set_state READ_STATE_CONNECTION_CLOSE_REASON
      (upd_rcrd (\<lambda>r. r\<lparr>rr_buf := Some (dwnx_buf_init ?n)\<rparr>) (set_fr (Fr_connection_close f) (c\<lparr>conn_mem := m\<rparr>))))"
    if "\<not> ?n \<le> length p'" "\<not> rec_left c < ?n" for m f
    by (rule buffer_state_ok [OF c]) (use that in auto)
  then show ?case
    using fr 3(7) by (simp add: Let_def wp_if split: prod.split)
qed (simp_all add: field_state_def)

lemma read_reason_safe:
  assumes conn: "read_ok t conn" and p: "p \<noteq> []" and st: "rr_state (rcrd conn) = READ_STATE_CONNECTION_CLOSE_REASON"
  shows "safe (read_connection_close_reason conn p) (read_post t (length p))"
  unfolding read_connection_close_reason_def
  by (rule read_into_buf_safe [OF conn st _ p]) (use read_okD(5) [OF conn] st in auto)

section \<open>The loop\<close>

lemmas read_state_safe =
  read_record_size_safe read_frame_type_safe read_params_len_safe read_params_safe read_qx_ping_seq_safe
  read_stream_stream_id_safe read_stream_offset_safe read_stream_length_safe read_stream_data_safe
  read_reset_stream_stream_id_safe read_reset_stream_app_error_code_safe read_reset_stream_final_size_safe
  read_stop_sending_stream_id_safe read_stop_sending_app_error_code_safe read_max_data_max_data_safe
  read_max_stream_data_stream_id_safe read_max_stream_data_max_stream_data_safe read_max_streams_max_streams_safe
  read_data_blocked_offset_safe read_stream_data_blocked_stream_id_safe read_stream_data_blocked_offset_safe
  read_streams_blocked_max_streams_safe read_connection_close_error_code_safe read_connection_close_frame_type_safe
  read_reasonlen_safe read_reason_safe read_datagram_len_safe read_datagram_data_safe

lemma conn_read_state_safe:
  assumes "app_ok cb" and "read_ok t conn" and "p \<noteq> []"
  shows "safe (conn_read_state cb null conn t p) (read_post t (length p))"
  by (cases "rr_state (rcrd conn)") (simp_all add: conn_read_state_def read_state_safe assms)

lemma reader_ok_time [simp]:
  "reader_ok (conn\<lparr>idle_ts := t\<rparr>) = reader_ok conn" "reader_ok (conn\<lparr>last_ts := t\<rparr>) = reader_ok conn"
  by (simp_all add: reader_ok_def stream_ready_def receiving_def conn_has_def Let_def)

lemma frame_done_ok:
  assumes conn: "frame_read t conn"
  shows "read_ok t (frame_done conn t)"
proof -
  let ?r = "dwnx_record_reader_reset (rcrd conn)"
  let ?c = "upd_rcrd dwnx_record_reader_reset conn"
  have st: "rr_state ?r = (if record_left (rcrd conn) \<noteq> 0 then READ_STATE_FRAME_TYPE else READ_STATE_RECORD_SIZE)"
    "record_left ?r = record_left (rcrd conn)"
    by (simp_all add: dwnx_record_reader_reset_def record_reader_next_frame_def Let_def)
  have ok: "conn_ok ?c"
    unfolding upd_rcrd_eq
    by (rule conn_ok_reader) (use conn st in \<open>auto simp: frame_read_def params_pending_def split: if_splits\<close>)
  have "no_early_credit ?c"
    by (rule early_credit_seen) (use conn st in \<open>auto simp: frame_read_def\<close>)
  then have "reader_ok ?c"
    using conn st by (cases "record_left (rcrd conn) = 0") (simp_all add: reader_ok_def frame_read_def Let_def)
  then have r: "reader_ok (?c\<lparr>idle_ts := t\<rparr>)" by simp
  have t: "last_ts ?c = t" using conn by (simp add: frame_read_def upd_rcrd_def)
  have "conn_ok (?c\<lparr>idle_ts := t\<rparr>)" using ok t by (simp add: conn_ok_def time_ok_def)
  with ok r t \<open>reader_ok ?c\<close> show ?thesis by (simp add: frame_done_def read_ok_def Let_def)
qed

lemma conn_read_loop_safe:
  assumes "app_ok cb" and "read_ok t conn" and "length p < fuel"
  shows "safe (conn_read_loop fuel cb null conn t p) (\<lambda>_. read_ok t)"
  using assms(2,3)
proof (induction fuel arbitrary: conn p)
  case (Suc fuel)
  show ?case
  proof (cases "p = []")
    case False
    have post: "safe (conn_read_state cb null conn t p) (read_post t (length p))"
      by (rule conn_read_state_safe [OF assms(1) Suc.prems(1) False])
    show ?thesis
    proof (cases "conn_read_state cb null conn t p")
      case (SOk r c)
      with post have r: "read_post t (length p) r c" by simp
      show ?thesis
        using r SOk False Suc.prems(2) frame_done_ok by (cases r) (auto intro!: Suc.IH)
    qed (use post False in simp_all)
  qed (use Suc.prems in simp)
qed simp

section \<open>New connections\<close>

lemma conn_new_ok:
  assumes new: "dwnx_conn_server_new mem settings params sd ud = Ok conn \<or>
      dwnx_conn_client_new mem settings params sd ud = Ok conn"
    and uni: "initial_max_stream_data_uni params \<le> DWNX_MAX_VARINT"
    and dgram: "max_datagram_frame_size params \<le> DWNX_MAX_VARINT"
  shows "conn_ok conn" and "reader_ok conn" and "last_ts conn = initial_ts settings"
proof -
  obtain c where c: "conn_new mem settings params sd ud = Ok c"
    and conn: "conn = c\<lparr>server := True, ctx_bidi_next_stream_id := 1, ctx_uni_next_stream_id := 3\<rparr> \<or>
      conn = c\<lparr>ctx_bidi_next_stream_id := 0, ctx_uni_next_stream_id := 2\<rparr>"
    using new by (auto simp: dwnx_conn_server_new_def dwnx_conn_client_new_def bindr_eq_Ok)
  have asserted: "assertr b r = Ok x \<longleftrightarrow> b \<and> r = Ok x" for b and r :: "'x res" and x
    by (simp add: assertr_def)
  note c' = c [unfolded conn_new_def asserted Let_def]
  have valid: "transport_params_valid (local_params c)" "transport_params_valid (remote_params c)"
    "max_record_size (local_params c) = of_nat DWNX_DEFAULT_MAX_RECORD_SIZE"
    using c' uni dgram transport_params_default_valid
    by (auto simp: transport_params_valid_def split: prod.splits if_splits)
  have parts: "strms c = dwnx_map_init sd" "strm_store c = (\<lambda>_. None)" "ctx_strmq c = dwnx_pq_init"
    "bidi_idtr c = dwnx_idtr_init" "uni_idtr c = dwnx_idtr_init" "conn_flags c = 0" "\<not> server c"
    "rcrd c = record_reader_zero" "vird c = dwnx_varint_reader_reset"
    "last_ts c = initial_ts settings" "idle_ts c = initial_ts settings" "rl_ts (glitch_rlim c) = initial_ts settings"
    "ctx_offset c = 0" "ctx_max_offset c = 0" "ctx_bidi_max_streams c = 0" "ctx_uni_max_streams c = 0"
    "remote_params c = dwnx_transport_params_default" "flow_ok c" "out_ok c"
    using c' by (auto simp: flow_ok_def out_ok_def dwnx_qre_init_def dwnx_ratelim_init_def Let_def split: prod.splits if_splits)
  have m: "dwnx_map_inv (dwnx_map_init sd :: strm_ptr dwnx_map)" "map_abs (dwnx_map_init sd :: strm_ptr dwnx_map) k = None" for k
    by (auto simp: dwnx_map_inv_def dwnx_map_init_def map_abs_def)
  have g: "gaptr_inv dwnx_idtr_init" by (simp add: dwnx_idtr_init_def)
  have "strms_ok c" using m parts(1,2) by (simp add: strms_ok_def strm_key_def)
  moreover have "queue_ok c"
    using parts(2,3) by (simp add: queue_but_def pq_inv_def heap_def index_ok_def strm_index_def dwnx_pq_init_def)
  moreover have "params_ok c" using valid by (simp add: params_ok_def)
  moreover have "time_ok c" using parts by (simp add: time_ok_def)
  moreover have "early_ok conn" "ids_ok conn"
    using conn parts g by (auto simp: early_ok_def conn_has_def live_ids_def dwnx_transport_params_default_def ids_ok_def local_id_def)
  moreover have "strms_ok (c\<lparr>server := True\<rparr>) = strms_ok c" "queue_ok (c\<lparr>server := True\<rparr>) = queue_ok c"
    "flow_ok (c\<lparr>server := True\<rparr>) = flow_ok c" "params_ok (c\<lparr>server := True\<rparr>) = params_ok c"
    "time_ok (c\<lparr>server := True\<rparr>) = time_ok c" "out_ok (c\<lparr>server := True\<rparr>) = out_ok c"
    by (simp_all add: strms_ok_def queue_but_def flow_ok_def params_ok_def time_ok_def out_ok_def)
  ultimately show "conn_ok conn" using conn parts(18,19) by (auto simp: conn_ok_def)
  show "reader_ok conn"
    using conn parts(8,9,14) by (auto simp: reader_ok_def record_reader_zero_def no_early_credit_def Let_def)
  show "last_ts conn = initial_ts settings" using conn parts by auto
qed

section \<open>Reading\<close>

lemma last_ts_ok:
  assumes "conn_ok conn" and "last_ts conn \<le> t"
  shows "conn_ok (conn\<lparr>last_ts := t\<rparr>)"
proof -
  let ?c = "conn\<lparr>last_ts := t\<rparr>"
  have "strms_ok ?c = strms_ok conn" "queue_ok ?c = queue_ok conn" "flow_ok ?c = flow_ok conn" "params_ok ?c = params_ok conn"
    by (simp_all add: strms_ok_def queue_but_def flow_ok_def params_ok_def)
  moreover have "conn_local_stream ?c x = conn_local_stream conn x" "next_local_id ?c x = next_local_id conn x"
    "conn_idtr ?c x = conn_idtr conn x" for x
    by (simp_all add: conn_local_stream_def next_local_id_def conn_idtr_def)
  then have "ids_ok ?c = ids_ok conn" "early_ok ?c = early_ok conn"
    by (simp_all add: ids_ok_def early_ok_def strm_opened_def params_pending_def conn_has_def)
  moreover have "time_ok ?c" using assms by (auto simp: conn_ok_def time_ok_def)
  moreover have "out_ok ?c = out_ok conn" by simp
  ultimately show ?thesis using assms(1) by (simp only: conn_ok_def simp_thms)
qed

lemma conn_read_wp:
  assumes cb: "app_ok cb" and conn: "conn_ok conn" "reader_ok conn" and t: "last_ts conn \<le> t"
  shows "safe (dwnx_conn_read cb null conn data t) (\<lambda>_. read_ok t)"
proof -
  have "read_ok t (conn\<lparr>last_ts := t\<rparr>)"
    using last_ts_ok [OF conn(1) t] conn(2) by (simp add: read_ok_def)
  then show ?thesis
    using t conn_read_loop_safe [OF cb, where conn = "conn\<lparr>last_ts := t\<rparr>" and t = t and p = data and fuel = "length data + 1"]
    by (cases "data = []")
      (auto simp: dwnx_conn_read_def conn_update_timestamp_def simp del: conn_read_loop.simps split: dwnx_record_read_state.split)
qed

end
