(* ===== verification/ConnWriter.thy ===== *)
theory ConnWriter
  imports ConnReader
begin

text \<open>
  Writing a record never aborts, and leaves the connection and its reader as the library expects
  them. The callbacks that run inside the loop over the queue of streams must leave the queue alone
  (\<open>quiet_app\<close>): the loop then takes one stream off the queue in each round, so as many rounds as
  there are streams in the queue are enough.
\<close>

section \<open>What writing leaves alone\<close>

text \<open>What the reader relies on, and the streams that receive data.\<close>

definition rx_kept :: "('a, 'u) dwnx_conn \<Rightarrow> ('a, 'u) dwnx_conn \<Rightarrow> bool" where
  "rx_kept conn c \<longleftrightarrow>
     rcrd c = rcrd conn \<and> vird c = vird conn \<and> server c = server conn \<and> local_params c = local_params conn \<and>
     last_ts c = last_ts conn \<and> remote_params c = remote_params conn \<and> ctx_max_offset c = ctx_max_offset conn \<and>
     (conn_has c CONN_FLAG_QX_TRANSPORT_PARAMETERS_SEEN \<longleftrightarrow> conn_has conn CONN_FLAG_QX_TRANSPORT_PARAMETERS_SEEN) \<and>
     (conn_has c CONN_FLAG_EARLY_TRANSPORT_PARAMS_SET \<longleftrightarrow> conn_has conn CONN_FLAG_EARLY_TRANSPORT_PARAMS_SET) \<and>
     (\<forall>p s. strm_store conn p = Some s \<and> \<not> strm_has s DWNX_STRM_FLAG_SHUT_RD \<longrightarrow>
        (\<exists>s'. strm_store c p = Some s' \<and> \<not> strm_has s' DWNX_STRM_FLAG_SHUT_RD \<and>
              stream_id s' = stream_id s \<and> rx_last_offset s' = rx_last_offset s))"

text \<open>The streams that send data.\<close>

definition tx_kept :: "('a, 'u) dwnx_conn \<Rightarrow> ('a, 'u) dwnx_conn \<Rightarrow> bool" where
  "tx_kept conn c \<longleftrightarrow>
     (\<forall>p s. strm_store conn p = Some s \<and> \<not> strm_has s DWNX_STRM_FLAG_SHUT_WR \<longrightarrow>
        (\<exists>s'. strm_store c p = Some s' \<and> \<not> strm_has s' DWNX_STRM_FLAG_SHUT_WR))"

definition wrote :: "('a, 'u) dwnx_conn \<Rightarrow> ('a, 'u) dwnx_conn \<Rightarrow> bool" where
  "wrote conn c \<longleftrightarrow> conn_ok c \<and> rx_kept conn c"

definition ctrl_wrote :: "('a, 'u) dwnx_conn \<Rightarrow> ('a, 'u) dwnx_conn \<Rightarrow> bool" where
  "ctrl_wrote conn c \<longleftrightarrow> wrote conn c \<and> tx_kept conn c \<and> qre_started (ctx_qre c)"

lemma rx_kept_refl [simp]: "rx_kept conn conn"
  by (simp add: rx_kept_def)

lemma rx_kept_trans: "rx_kept a b \<Longrightarrow> rx_kept b c \<Longrightarrow> rx_kept a c"
  unfolding rx_kept_def by (elim conjE) (intro conjI; metis)

lemma tx_kept_refl [simp]: "tx_kept conn conn"
  by (simp add: tx_kept_def)

lemma tx_kept_trans: "tx_kept a b \<Longrightarrow> tx_kept b c \<Longrightarrow> tx_kept a c"
  unfolding tx_kept_def by blast

lemma wrote_refl: "conn_ok conn \<Longrightarrow> wrote conn conn"
  by (simp add: wrote_def)

lemma wrote_trans: "wrote a b \<Longrightarrow> wrote b c \<Longrightarrow> wrote a c"
  using rx_kept_trans by (auto simp: wrote_def)

lemma ctrl_wrote_refl: "conn_ok conn \<Longrightarrow> qre_started (ctx_qre conn) \<Longrightarrow> ctrl_wrote conn conn"
  by (simp add: ctrl_wrote_def wrote_refl)

lemma ctrl_wrote_trans: "ctrl_wrote a b \<Longrightarrow> ctrl_wrote b c \<Longrightarrow> ctrl_wrote a c"
  using wrote_trans tx_kept_trans by (auto simp: ctrl_wrote_def)

lemma ctrl_wroteD: "ctrl_wrote conn c \<Longrightarrow> conn_ok c" "ctrl_wrote conn c \<Longrightarrow> qre_started (ctx_qre c)"
  "ctrl_wrote conn c \<Longrightarrow> wrote conn c"
  by (simp_all add: ctrl_wrote_def wrote_def)

lemma wroteD: "wrote conn c \<Longrightarrow> conn_ok c" "wrote conn c \<Longrightarrow> rx_kept conn c"
  by (simp_all add: wrote_def)

lemma stays_rx_kept: "stays_ok conn c \<Longrightarrow> rx_kept conn c"
  unfolding stays_ok_def kept_but_def same_reader_def strms_kept_def rx_kept_def strm_kept_def conn_has_def
  by auto

lemma stays_wrote: "stays_ok conn c \<Longrightarrow> wrote conn c"
  by (simp add: wrote_def stays_okD stays_rx_kept)

lemma stays_started: "stays_ok conn c \<Longrightarrow> qre_started (ctx_qre c) = qre_started (ctx_qre conn)"
  by (simp add: stays_ok_def kept_but_def)

lemma early_credit_kept:
  assumes "rx_kept conn c" and "no_early_credit conn"
  shows "no_early_credit c"
  using assms by (simp add: rx_kept_def no_early_credit_def params_pending_def)

lemma reader_ok_wrote:
  assumes r: "reader_ok conn" and c: "wrote conn c"
  shows "reader_ok c"
proof -
  have k: "rcrd c = rcrd conn" "vird c = vird conn"
    "conn_has c CONN_FLAG_QX_TRANSPORT_PARAMETERS_SEEN = conn_has conn CONN_FLAG_QX_TRANSPORT_PARAMETERS_SEEN"
    using c by (simp_all add: wrote_def rx_kept_def)
  have "receiving c sid n" if rec: "receiving conn sid n" for sid n
  proof -
    obtain p s where s: "strm_store conn p = Some s" "stream_id s = sid" "\<not> strm_has s DWNX_STRM_FLAG_SHUT_RD"
      "n \<le> unat (rx_last_offset s)"
      using rec by (auto simp: receiving_def)
    then obtain s' where s': "strm_store c p = Some s'" "\<not> strm_has s' DWNX_STRM_FLAG_SHUT_RD" "stream_id s' = stream_id s"
      "rx_last_offset s' = rx_last_offset s"
      using c by (auto simp: wrote_def rx_kept_def)
    show ?thesis by (rule receivingI [OF wroteD(1) [OF c] s'(1)]) (use s s' in simp_all)
  qed
  then have "stream_ready conn \<Longrightarrow> stream_ready c" by (auto simp: stream_ready_def k(1))
  moreover have "no_early_credit conn \<Longrightarrow> no_early_credit c" by (rule early_credit_kept [OF wroteD(2) [OF c]])
  ultimately show ?thesis using r k unfolding reader_ok_def Let_def by (simp only: simp_thms) blast
qed

section \<open>Steps on the connection\<close>

lemma err_fatal_iff: "dwnx_err_is_fatal (liberr_code e) \<longleftrightarrow> e = ERR_NOMEM \<or> e = ERR_CALLBACK_FAILURE"
  by (cases e) (simp_all add: dwnx_err_is_fatal_def DWNX_ERR_FATAL_def)

text \<open>A member that no part of the relations reads.\<close>

lemma ctrl_qre:
  assumes "conn_ok conn" and "qre_inv q" and "qre_started q"
  shows "ctrl_wrote conn (conn\<lparr>ctx_qre := q\<rparr>)"
proof -
  have "out_ok (conn\<lparr>ctx_qre := q\<rparr>)" using assms conn_okD(8) by (auto simp: out_ok_def)
  then have "conn_ok (conn\<lparr>ctx_qre := q\<rparr>)" using assms(1) by (simp add: conn_ok_def)
  then show ?thesis
    using assms(3) by (simp add: ctrl_wrote_def wrote_def rx_kept_def tx_kept_def)
qed

lemma encode_frame_wp:
  assumes conn: "conn_ok conn" and started: "qre_started (ctx_qre conn)" and fr: "frame_valid fr"
  shows "wp (conn_encode_frame conn fr)
    (\<lambda>_ c. \<exists>q. c = conn\<lparr>ctx_qre := q\<rparr> \<and> ctrl_wrote conn c) (\<lambda>e c. e = ERR_NOBUF \<and> c = conn)"
proof -
  have q: "qre_inv (ctx_qre conn)" using conn_okD(8) [OF conn] started by (simp add: out_ok_def)
  have "ctrl_wrote conn (conn\<lparr>ctx_qre := (ctx_qre conn)\<lparr>qre_buf := buf_append (qre_buf (ctx_qre conn)) (frame_wire fr)\<rparr>\<rparr>)"
    if "length (frame_wire fr) \<le> dwnx_qre_left (ctx_qre conn)"
    using qre_append_inv [OF q that] started by (intro ctrl_qre [OF conn]) simp_all
  then show ?thesis
    by (auto simp: conn_encode_frame_def qre_encode_frame_spec [OF q fr])
qed

text \<open>What a step may do when it fails: a fatal error, or no room with the rest in order.\<close>

abbreviation writes :: "('a, 'u) dwnx_conn \<Rightarrow> ('a, 'u, 'r) conn_res \<Rightarrow> ('r \<Rightarrow> ('a, 'u) dwnx_conn \<Rightarrow> bool) \<Rightarrow> bool" where
  "writes conn r Q \<equiv> wp r Q (\<lambda>e c. dwnx_err_is_fatal (liberr_code e) \<or> e = ERR_NOBUF \<and> ctrl_wrote conn c)"

lemma writes_mono: "writes c r Q \<Longrightarrow> ctrl_wrote conn c \<Longrightarrow> (\<And>x d. Q x d \<Longrightarrow> R x d) \<Longrightarrow> writes conn r R"
  by (erule wp_mono) (auto intro: ctrl_wrote_trans)

lemma writes_bind:
  assumes "writes conn r Q" and "\<And>x c. Q x c \<Longrightarrow> writes conn (f x c) R"
  shows "writes conn (sbind r f) R"
  unfolding wp_sbind by (rule wp_mono [OF assms(1)]) (use assms(2) in auto)

lemma encode_frame_writes:
  assumes "conn_ok conn" and "qre_started (ctx_qre conn)" and "frame_valid fr"
  shows "writes conn (conn_encode_frame conn fr) (\<lambda>_ c. \<exists>q. c = conn\<lparr>ctx_qre := q\<rparr> \<and> ctrl_wrote conn c)"
  by (rule wp_mono [OF encode_frame_wp [OF assms]]) (auto intro: ctrl_wrote_refl assms)

lemma write_max_data_writes:
  assumes conn: "conn_ok conn" "qre_started (ctx_qre conn)"
  shows "writes conn (write_max_data conn) (\<lambda>_ c. ctrl_wrote conn c \<and> ctx_strmq c = ctx_strmq conn)"
proof -
  note f = conn_okD(4) [OF conn(1)]
  have v: "frame_valid (Fr_max_data \<lparr>md_type = DWNX_FRAME_MAX_DATA, md_max_data = crx_unsent_max_offset conn\<rparr>)"
    using f by (simp add: frame_valid_def max_data_valid_def flow_ok_def)
  have "ctrl_wrote conn (conn\<lparr>ctx_qre := q, crx_max_offset := crx_unsent_max_offset conn\<rparr>)"
    if c: "ctrl_wrote conn (conn\<lparr>ctx_qre := q\<rparr>)" for q
  proof -
    have "flow_ok (conn\<lparr>ctx_qre := q, crx_max_offset := crx_unsent_max_offset conn\<rparr>)"
      using f by (auto simp: flow_ok_def intro: order.trans)
    then have "conn_ok (conn\<lparr>ctx_qre := q, crx_max_offset := crx_unsent_max_offset conn\<rparr>)"
      using ctrl_wroteD(1) [OF c] by (simp add: conn_ok_def out_ok_def)
    then show ?thesis using c by (simp add: ctrl_wrote_def wrote_def rx_kept_def tx_kept_def)
  qed
  then show ?thesis
    unfolding write_max_data_def
    by (auto simp: wp_if ctrl_wrote_refl conn intro!: wp_mono [OF encode_frame_wp [OF conn v]])
qed

lemma write_ping_writes:
  assumes conn: "conn_ok conn" "qre_started (ctx_qre conn)"
  shows "writes conn (write_ping_response conn) (\<lambda>_ c. ctrl_wrote conn c \<and> ctx_strmq c = ctx_strmq conn)"
proof -
  let ?fr = "Fr_qx_ping \<lparr>ping_type = DWNX_FRAME_QX_PING_RESPONSE, ping_seq = u64_of_i64 (crx_ping_last_seq conn)\<rparr>"
  have o: "crx_ping_last_seq conn < 2 ^ 62" "-1 \<le> crx_ping_last_resp_seq conn"
    using conn_okD(8) [OF conn(1)] by (simp_all add: out_ok_def)
  have ping_le: "DWNX_FRAME_QX_PING_RESPONSE \<le> DWNX_MAX_VARINT" by (simp add: DWNX_MAX_VARINT_def)
  have v: "frame_valid ?fr" if "crx_ping_last_resp_seq conn < crx_ping_last_seq conn"
    using that o ping_le by (simp add: frame_valid_def qx_ping_valid_def stream_id_valid_def)
  have "ctrl_wrote conn (conn\<lparr>ctx_qre := q, crx_ping_last_resp_seq := crx_ping_last_seq conn\<rparr>)"
    if c: "ctrl_wrote conn (conn\<lparr>ctx_qre := q\<rparr>)" and n: "crx_ping_last_resp_seq conn < crx_ping_last_seq conn" for q
  proof -
    have "out_ok (conn\<lparr>ctx_qre := q, crx_ping_last_resp_seq := crx_ping_last_seq conn\<rparr>)"
      using conn_okD(8) [OF ctrl_wroteD(1) [OF c]] o n by (simp add: out_ok_def)
    then have "conn_ok (conn\<lparr>ctx_qre := q, crx_ping_last_resp_seq := crx_ping_last_seq conn\<rparr>)"
      using ctrl_wroteD(1) [OF c] by (simp add: conn_ok_def)
    then show ?thesis using c by (simp add: ctrl_wrote_def wrote_def rx_kept_def tx_kept_def)
  qed
  then show ?thesis
    unfolding write_ping_response_def
    by (auto simp: wp_if ctrl_wrote_refl conn intro!: wp_mono [OF encode_frame_wp [OF conn v]])
qed

section \<open>Steps on a stream\<close>

definition at_strm :: "strm_ptr \<Rightarrow> ('a, 'u) dwnx_conn \<Rightarrow> ('a, 'u) dwnx_conn \<Rightarrow> bool" where
  "at_strm p conn c \<longleftrightarrow> ctrl_wrote conn c \<and> ctx_strmq c = ctx_strmq conn \<and> strm_store c p \<noteq> None"

lemma at_strm_trans: "at_strm p a b \<Longrightarrow> at_strm p b c \<Longrightarrow> at_strm p a c"
  using ctrl_wrote_trans by (auto simp: at_strm_def)

lemma at_strmD:
  "at_strm p conn c \<Longrightarrow> ctrl_wrote conn c" "at_strm p conn c \<Longrightarrow> conn_ok c"
  "at_strm p conn c \<Longrightarrow> qre_started (ctx_qre c)" "at_strm p conn c \<Longrightarrow> strm_store c p \<noteq> None"
  "at_strm p conn c \<Longrightarrow> ctx_strmq c = ctx_strmq conn"
  by (auto simp: at_strm_def ctrl_wroteD)

lemma at_strm_refl: "conn_ok conn \<Longrightarrow> qre_started (ctx_qre conn) \<Longrightarrow> strm_store conn p \<noteq> None \<Longrightarrow> at_strm p conn conn"
  by (simp add: at_strm_def ctrl_wrote_refl)

lemma upd_strm_at:
  assumes conn: "conn_ok conn" "qre_started (ctx_qre conn)" and p: "strm_store conn p = Some s"
    and f: "strm_step f s" "rx_last_offset (f s) = rx_last_offset s"
      "strm_has (f s) DWNX_STRM_FLAG_SHUT_RD = strm_has s DWNX_STRM_FLAG_SHUT_RD"
      "strm_has (f s) DWNX_STRM_FLAG_SHUT_WR = strm_has s DWNX_STRM_FLAG_SHUT_WR"
  shows "at_strm p conn (upd_strm p f conn)"
proof -
  have "stream_id (f s) = stream_id s" using f(1) by (simp add: strm_step_def)
  then show ?thesis
    using upd_strm_ok [OF conn(1) p f(1)] f conn(2) p
    by (auto simp: at_strm_def ctrl_wrote_def wrote_def rx_kept_def tx_kept_def conn_has_def upd_strm_def)
qed

lemma strm_has_clear: "fl AND g = 0 \<Longrightarrow> strm_has (strm_clear fl s) g = strm_has s g"
proof -
  assume fl: "fl AND g = 0"
  have "(fl OR NOT fl) AND g = (fl AND g) OR (NOT fl AND g)" by (rule bit.conj_disj_distrib2)
  then have "NOT fl AND g = g" using fl by simp
  then show ?thesis by (simp add: strm_has_def strm_clear_def and.assoc)
qed

lemma clear_flag_at:
  assumes "conn_ok conn" "qre_started (ctx_qre conn)" and "strm_store conn p \<noteq> None"
    and "fl AND DWNX_STRM_FLAG_SHUT_RDWR = 0"
  shows "at_strm p conn (upd_strm p (strm_clear fl) conn)"
proof -
  obtain s where s: "strm_store conn p = Some s" using assms(3) by blast
  have "fl AND g = 0" if "DWNX_STRM_FLAG_SHUT_RDWR AND g = g" for g
    using assms(4) that by (metis and.assoc bit.conj_zero_left)
  note g = this [of DWNX_STRM_FLAG_SHUT_RD, simplified] this [of DWNX_STRM_FLAG_SHUT_WR, simplified]
  have ok: "strm_ok s" using strms_ok_strm [OF conn_okD(1) [OF assms(1)] s] .
  show ?thesis
    by (rule upd_strm_at [OF assms(1,2) s flag_step(2) [OF ok]])
      (use g in \<open>simp_all add: strm_has_clear\<close>, simp add: strm_clear_def)
qed

text \<open>A frame is written and then a member of the stream is set.\<close>

lemma encode_then_at:
  assumes conn: "conn_ok conn" "qre_started (ctx_qre conn)" and p: "strm_store conn p \<noteq> None" and fr: "frame_valid fr"
    and k: "\<And>q. at_strm p conn (conn\<lparr>ctx_qre := q\<rparr>) \<Longrightarrow> Q (k (conn\<lparr>ctx_qre := q\<rparr>))"
  shows "writes conn (sbind (conn_encode_frame conn fr) (\<lambda>_ c. SOk () (k c))) (\<lambda>_. Q)"
  by (rule writes_bind [OF encode_frame_writes [OF conn fr]]) (use p k in \<open>auto simp: at_strm_def\<close>)

lemma strm_okD:
  assumes "conn_ok conn" and "strm_store conn p = Some s"
  shows "strm_ok s" "stream_id_valid (stream_id s)" "tx_offset s \<le> tx_max_offset s" "tx_max_offset s \<le> DWNX_MAX_VARINT"
    "tx_offset s \<le> DWNX_MAX_VARINT" "rx_unsent_max_offset s \<le> DWNX_MAX_VARINT"
    "tx_stop_sending_app_error_code s \<le> DWNX_MAX_VARINT" "tx_reset_stream_app_error_code s \<le> DWNX_MAX_VARINT"
proof -
  show ok: "strm_ok s" using strms_ok_strm [OF conn_okD(1) [OF assms(1)] assms(2)] .
  then show "stream_id_valid (stream_id s)" "tx_offset s \<le> tx_max_offset s" "tx_max_offset s \<le> DWNX_MAX_VARINT"
    "tx_offset s \<le> DWNX_MAX_VARINT" "rx_unsent_max_offset s \<le> DWNX_MAX_VARINT"
    "tx_stop_sending_app_error_code s \<le> DWNX_MAX_VARINT" "tx_reset_stream_app_error_code s \<le> DWNX_MAX_VARINT"
    by (auto simp: strm_ok_def stream_id_valid_def)
qed

lemma write_strm_max_stream_data_writes:
  assumes conn: "conn_ok conn" "qre_started (ctx_qre conn)" and p: "strm_store conn p \<noteq> None"
  shows "writes conn (write_strm_max_stream_data conn p) (\<lambda>_. at_strm p conn)"
proof -
  obtain s where s: "strm_store conn p = Some s" using p by blast
  note ok = strm_okD [OF conn(1) s]
  have v: "frame_valid (Fr_max_stream_data \<lparr>msd_type = DWNX_FRAME_MAX_STREAM_DATA, msd_stream_id = stream_id s,
                     msd_max_stream_data = rx_unsent_max_offset s\<rparr>)"
    using ok by (simp add: frame_valid_def max_stream_data_valid_def)
  let ?f = "\<lambda>strm. strm\<lparr>rx_max_offset := rx_unsent_max_offset strm\<rparr>"
  have "at_strm p conn (upd_strm p ?f c)" if c: "at_strm p conn c" "strm_store c p = Some s" for c
  proof (rule at_strm_trans [OF c(1) upd_strm_at [OF at_strmD(2,3) [OF c(1)] c(2)]])
    show "strm_step ?f s" using ok(1) by (auto simp: strm_step_def strm_ok_def)
  qed (simp_all add: strm_has_def)
  then show ?thesis
    unfolding write_strm_max_stream_data_def
    using s by (auto simp: wp_if at_strm_refl conn simp del: wp_sbind intro!: encode_then_at [OF conn p v])
qed

text \<open>The BLOCKED frames; the stream need not be the one at the top of the queue.\<close>

lemma write_data_blocked_writes:
  assumes conn: "conn_ok conn" "qre_started (ctx_qre conn)"
  shows "wp (dwnx_conn_write_data_blocked conn)
    (\<lambda>_ c. ctrl_wrote conn c \<and> ctx_strmq c = ctx_strmq conn \<and> strm_store c = strm_store conn \<and> ctx_offset c = ctx_offset conn)
    (\<lambda>e c. e = ERR_NOBUF \<and> c = conn)"
proof -
  note f = conn_okD(4) [OF conn(1)]
  have v: "frame_valid (Fr_data_blocked \<lparr>db_type = DWNX_FRAME_DATA_BLOCKED, db_max_data = ctx_offset conn\<rparr>)"
    using f by (auto simp: frame_valid_def data_blocked_valid_def flow_ok_def)
  have "ctrl_wrote conn (c\<lparr>ctx_last_blocked_offset := n\<rparr>)" if "ctrl_wrote conn c" for c n
    using that by (simp add: ctrl_wrote_def wrote_def conn_ok_def rx_kept_def tx_kept_def out_ok_def)
  moreover have "\<not> ctx_offset conn < ctx_max_offset conn \<Longrightarrow> ctx_offset conn = ctx_max_offset conn"
    using f by (simp add: flow_ok_def)
  ultimately show ?thesis
    unfolding dwnx_conn_write_data_blocked_def
    by (auto simp: wp_if ctrl_wrote_refl conn intro!: wp_mono [OF encode_frame_wp [OF conn v]])
qed

lemma write_stream_data_blocked_writes:
  assumes conn: "conn_ok conn" "qre_started (ctx_qre conn)" and p: "strm_store conn p \<noteq> None"
  shows "wp (dwnx_conn_write_stream_data_blocked conn p) (\<lambda>_. at_strm p conn) (\<lambda>e c. e = ERR_NOBUF \<and> c = conn)"
proof -
  obtain s where s: "strm_store conn p = Some s" using p by blast
  note ok = strm_okD [OF conn(1) s]
  have v: "frame_valid (Fr_stream_data_blocked \<lparr>sdb_type = DWNX_FRAME_STREAM_DATA_BLOCKED,
                      sdb_stream_id = stream_id s, sdb_max_stream_data = tx_offset s\<rparr>)"
    using ok by (simp add: frame_valid_def stream_data_blocked_valid_def)
  let ?f = "\<lambda>strm. strm\<lparr>tx_last_blocked_offset := tx_offset strm\<rparr>"
  have "at_strm p conn (upd_strm p ?f c)" if c: "at_strm p conn c" "strm_store c p = Some s" for c
  proof (rule at_strm_trans [OF c(1) upd_strm_at [OF at_strmD(2,3) [OF c(1)] c(2)]])
    show "strm_step ?f s" using ok(1) by (auto simp: strm_step_def strm_ok_def)
  qed (simp_all add: strm_has_def)
  then have "at_strm p conn (upd_strm p ?f (conn\<lparr>ctx_qre := q\<rparr>))" if "ctrl_wrote conn (conn\<lparr>ctx_qre := q\<rparr>)" for q
    using that s by (simp add: at_strm_def)
  then have enc: "wp (conn_encode_frame conn (Fr_stream_data_blocked \<lparr>sdb_type = DWNX_FRAME_STREAM_DATA_BLOCKED,
                      sdb_stream_id = stream_id s, sdb_max_stream_data = tx_offset s\<rparr>))
      (\<lambda>_ c. at_strm p conn (upd_strm p ?f c)) (\<lambda>e c. e = ERR_NOBUF \<and> c = conn)"
    by (intro wp_mono [OF encode_frame_wp [OF conn v]]) auto
  show ?thesis
    unfolding dwnx_conn_write_stream_data_blocked_def
    using s ok(3) enc by (auto simp: wp_if at_strm_refl conn)
qed

lemma write_blocked_writes:
  assumes conn: "conn_ok conn" "qre_started (ctx_qre conn)" and p: "strm_store conn p \<noteq> None"
  shows "wp (write_blocked conn p) (\<lambda>_. at_strm p conn) (\<lambda>e c. e = ERR_NOBUF \<and> at_strm p conn c)"
  unfolding write_blocked_def wp_sbind
proof (rule wp_mono [OF write_data_blocked_writes [OF conn]], goal_cases)
  case (1 u c)
  then have c: "at_strm p conn c" using p by (simp add: at_strm_def)
  show ?case
    by (rule wp_mono [OF write_stream_data_blocked_writes [OF at_strmD(2,3,4) [OF c]]])
      (use c in \<open>auto intro: at_strm_trans [OF c]\<close>)
qed (use p in \<open>auto intro: at_strm_refl conn\<close>)

lemma write_strm_blocked_writes:
  assumes conn: "conn_ok conn" "qre_started (ctx_qre conn)" and p: "strm_store conn p \<noteq> None"
  shows "writes conn (write_strm_blocked conn p) (\<lambda>_. at_strm p conn)"
proof -
  obtain s where s: "strm_store conn p = Some s" using p by blast
  have clear: "at_strm p conn (upd_strm p (strm_clear DWNX_STRM_FLAG_SEND_STREAM_DATA_BLOCKED) c)"
    if c: "at_strm p conn c" for c
    by (rule at_strm_trans [OF c clear_flag_at [OF at_strmD(2,3,4) [OF c]]]) simp
  have "writes conn (write_blocked conn p) (\<lambda>_. at_strm p conn)"
    by (rule wp_mono [OF write_blocked_writes [OF conn p]]) (auto dest: at_strmD(1))
  moreover have "at_strm p conn conn" by (rule at_strm_refl [OF conn p])
  ultimately have "writes conn (if \<not> strm_has s DWNX_STRM_FLAG_SHUT_WR then write_blocked conn p else SOk () conn)
      (\<lambda>_. at_strm p conn)"
    by simp
  then have "writes conn (sbind (if \<not> strm_has s DWNX_STRM_FLAG_SHUT_WR then write_blocked conn p else SOk () conn) (\<lambda>_ conn.
         SOk () (upd_strm p (strm_clear DWNX_STRM_FLAG_SEND_STREAM_DATA_BLOCKED) conn))) (\<lambda>_. at_strm p conn)"
    by (rule writes_bind) (simp add: clear)
  then show ?thesis
    unfolding write_strm_blocked_def
    using s \<open>at_strm p conn conn\<close> by (simp only: wp_with_strm option.inject ex_simps simp_thms wp_if wp_SOk)
qed

section \<open>The callbacks in the loop\<close>

text \<open>The events of the loop over the queue of streams.\<close>

fun loop_event :: "'u dwnx_event \<Rightarrow> bool" where
  "loop_event (Ev_stream_close _ _ _ _ _) = True"
| "loop_event (Ev_stream_stop_sending _ _ _) = True"
| "loop_event _ = False"

definition quiet :: "('a, 'u) dwnx_conn \<Rightarrow> ('a, 'u) dwnx_conn \<Rightarrow> bool" where
  "quiet conn c \<longleftrightarrow>
     ctx_strmq c = ctx_strmq conn \<and>
     (\<forall>p s s'. strm_store conn p = Some s \<and> strm_store c p = Some s' \<longrightarrow>
        strm_has s' DWNX_STRM_FLAG_SHUT_WR = strm_has s DWNX_STRM_FLAG_SHUT_WR)"

definition quiet_app :: "('a, 'u) dwnx_callbacks \<Rightarrow> bool" where
  "quiet_app cb \<longleftrightarrow> app_ok cb \<and> (\<forall>ev f conn. loop_event ev \<and> cb ev = Some f \<longrightarrow> quiet conn (snd (f conn)))"

lemma quiet_appD: "quiet_app cb \<Longrightarrow> app_ok cb"
  by (simp add: quiet_app_def)

lemma stays_ctrl:
  assumes c: "stays_ok conn c" and q: "quiet conn c" and started: "qre_started (ctx_qre conn)"
  shows "ctrl_wrote conn c"
proof -
  have "tx_kept conn c"
    unfolding tx_kept_def
  proof (intro allI impI, elim conjE)
    fix p s
    assume s: "strm_store conn p = Some s" "\<not> strm_has s DWNX_STRM_FLAG_SHUT_WR"
    then obtain s' where "strm_store c p = Some s'" using stays_ok_strm [OF c] by blast
    then show "\<exists>s'. strm_store c p = Some s' \<and> \<not> strm_has s' DWNX_STRM_FLAG_SHUT_WR"
      using q s by (auto simp: quiet_def)
  qed
  then show ?thesis using stays_wrote [OF c] stays_started [OF c] started by (simp add: ctrl_wrote_def)
qed

lemma quiet_call_wp:
  assumes cb: "quiet_app cb" and ev: "loop_event ev" and conn: "conn_ok conn"
  shows "wp (conn_call cb ev conn) (\<lambda>_ c. stays_ok conn c \<and> quiet conn c) (\<lambda>e _. e = ERR_CALLBACK_FAILURE)"
proof -
  have "wp (conn_call cb ev conn) (\<lambda>_ c. quiet conn c) (\<lambda>_ _. True)"
    using cb ev by (auto simp: conn_call_def quiet_app_def quiet_def split: option.split prod.split)
      (metis snd_conv)+
  from wp_conj [OF conn_call_wp [OF quiet_appD [OF cb] conn] this] show ?thesis
    by (rule wp_mono) auto
qed

lemma loop_event_close: "loop_event (stream_close_event s)"
  by (simp add: stream_close_event_def Let_def split: prod.split)

section \<open>Closing a stream\<close>

lemma should_close_shut:
  "dwnx_strm_should_close_stream s \<Longrightarrow> strm_has s DWNX_STRM_FLAG_SHUT_RD \<and> strm_has s DWNX_STRM_FLAG_SHUT_WR"
  by (simp add: strm_should_close_iff)

text \<open>What remains of the connection when the stream is freed.\<close>

lemma closed_wrote:
  assumes c: "strm_closed p conn c" and p: "strm_store conn p = Some s" "strm_has s DWNX_STRM_FLAG_SHUT_RD"
  shows "wrote conn c"
proof -
  have "\<exists>s'. strm_store c r = Some s' \<and> \<not> strm_has s' DWNX_STRM_FLAG_SHUT_RD \<and>
      stream_id s' = stream_id u \<and> rx_last_offset s' = rx_last_offset u"
    if u: "strm_store conn r = Some u" "\<not> strm_has u DWNX_STRM_FLAG_SHUT_RD" for r u
  proof -
    have "r \<noteq> p" using p u by auto
    then show ?thesis
      using kept_strm [of "{p}" conn c r u] c u by (auto simp: strm_closed_def strm_kept_def)
  qed
  then show ?thesis
    using c by (auto simp: wrote_def strm_closed_def rx_kept_def kept_but_def same_reader_def conn_has_def)
qed

lemma wp_case:
  "wp r Q E \<Longrightarrow> (case r of SOk x s \<Rightarrow> P x s | _ \<Rightarrow> True) \<Longrightarrow> wp r (\<lambda>x s. Q x s \<and> P x s) E"
  by (cases r) simp_all

lemma close_unqueued:
  assumes "\<not> dwnx_strm_is_tx_queued s"
  shows "case (case dwnx_map_remove (strms c) k of
       Err e \<Rightarrow> sassert (e \<noteq> ERR_INVALID_ARGUMENT) (SErr e c)
     | Abort \<Rightarrow> SAbort
     | Ok m \<Rightarrow>
         (let conn = c\<lparr>strms := m\<rparr>
          in sbind (if dwnx_strm_is_tx_queued s then conn_strmq_remove conn p else SOk () conn) (\<lambda>_ conn.
             SOk () (conn\<lparr>strm_store := (strm_store conn)(p := None)\<rparr>)))) of
       SOk _ d \<Rightarrow> \<exists>m. d = c\<lparr>strms := m, strm_store := (strm_store c)(p := None)\<rparr>
     | _ \<Rightarrow> True"
  using assms by (auto simp: sassert_def split: res.split)

lemma close_quiet:
  assumes cb: "quiet_app cb" and conn: "conn_ok conn" "qre_started (ctx_qre conn)"
    and p: "strm_store conn p = Some s" "dwnx_strm_should_close_stream s" and q: "p \<notin> set (pq_q (ctx_strmq conn))"
  shows "writes conn (dwnx_conn_close_stream cb conn p) (\<lambda>_ c. ctrl_wrote conn c \<and> ctx_strmq c = ctx_strmq conn)"
proof -
  have tail: "wp (with_strm c p (\<lambda>strm. case dwnx_map_remove (strms c) (u64_of_i64 (stream_id strm)) of
       Err e \<Rightarrow> sassert (e \<noteq> ERR_INVALID_ARGUMENT) (SErr e c)
     | Abort \<Rightarrow> SAbort
     | Ok m \<Rightarrow>
         (let conn = c\<lparr>strms := m\<rparr>
          in sbind (if dwnx_strm_is_tx_queued strm then conn_strmq_remove conn p else SOk () conn) (\<lambda>_ conn.
             SOk () (conn\<lparr>strm_store := (strm_store conn)(p := None)\<rparr>)))))
     (\<lambda>_ d. ctrl_wrote conn d \<and> ctx_strmq d = ctx_strmq conn) (\<lambda>_ _. False)"
    (is "wp (with_strm c p ?k) _ _") if c: "stays_ok conn c" "quiet conn c" for c
  proof -
    obtain s' where s': "strm_store c p = Some s'" "strm_kept s s'" using stays_ok_strm [OF c(1) p(1)] by blast
    have shut: "strm_has s' DWNX_STRM_FLAG_SHUT_RD" "strm_has s' DWNX_STRM_FLAG_SHUT_WR"
      using should_close_shut [OF p(2)] s' p(1) c(2) by (auto simp: strm_kept_def quiet_def)
    have nq: "\<not> dwnx_strm_is_tx_queued s'"
      using queue_index [OF conn_okD(2) [OF stays_okD [OF c(1)]] s'(1)] q c(2) by (simp add: quiet_def)
    note cw = stays_ctrl [OF c conn(2)]
    have "ctrl_wrote c d \<and> ctx_strmq d = ctx_strmq c"
      if d: "strm_closed p c d" "d = c\<lparr>strms := m, strm_store := (strm_store c)(p := None)\<rparr>" for d m
      using closed_wrote [OF d(1) s'(1) shut(1)] ctrl_wroteD(2) [OF cw] d(2) s'(1) shut(2)
      by (auto simp: ctrl_wrote_def tx_kept_def)
    moreover have "ctx_strmq c = ctx_strmq conn" using c(2) by (simp add: quiet_def)
    ultimately have fin: "ctrl_wrote conn d \<and> ctx_strmq d = ctx_strmq conn"
      if "strm_closed p c d" "d = c\<lparr>strms := m, strm_store := (strm_store c)(p := None)\<rparr>" for d m
      using that ctrl_wrote_trans [OF cw] by metis
    show ?thesis
      unfolding wp_with_strm
      by (intro exI conjI, rule s'(1), rule wp_mono [OF wp_case [OF close_stream_tail [OF stays_okD [OF c(1)] s'(1)]
            close_unqueued [OF nq, where c = c and k = "u64_of_i64 (stream_id s')" and p = p]]])
        (use fin in blast)+
  qed
  have call: "wp (conn_call_stream_close cb conn p) (\<lambda>_ c. stays_ok conn c \<and> quiet conn c) (\<lambda>e _. e = ERR_CALLBACK_FAILURE)"
    unfolding conn_call_stream_close_def using p(1) quiet_call_wp [OF cb loop_event_close conn(1)] by simp
  show ?thesis
    unfolding dwnx_conn_close_stream_def wp_sbind
  proof (rule wp_mono [OF call], goal_cases)
    case (1 u c)
    show ?case by (rule wp_mono [OF tail]) (use 1 in simp_all)
  qed (simp add: dwnx_err_is_fatal_def DWNX_ERR_FATAL_def)
qed

section \<open>The loop over the queue\<close>

text \<open>The stream at the top of the queue is taken off it.\<close>

lemma strmq_pop_writes:
  assumes conn: "conn_ok conn" "qre_started (ctx_qre conn)" and ne: "pq_q (ctx_strmq conn) \<noteq> []"
  shows "wp (dwnx_conn_tx_strmq_pop conn)
    (\<lambda>_ c. ctrl_wrote conn c \<and> pq_q (ctx_strmq conn) ! 0 \<notin> set (pq_q (ctx_strmq c)) \<and>
       length (pq_q (ctx_strmq c)) < length (pq_q (ctx_strmq conn)) \<and>
       (\<forall>p s. strm_store conn p = Some s \<longrightarrow> (\<exists>i. strm_store c p = Some (s\<lparr>pe_index := i\<rparr>)))) (\<lambda>_ _. False)"
proof (rule wp_mono [OF strmq_pop_wp [OF conn_okD(1,2) [OF conn(1)] ne]], goal_cases)
  case (1 u c)
  then have qc: "queue_changed conn c" "queue_ok c"
    and m: "mset (pq_q (ctx_strmq conn)) = add_mset (pq_q (ctx_strmq conn) ! 0) (mset (pq_q (ctx_strmq c)))"
    by simp_all
  have store: "\<exists>i. strm_store c p = Some (s\<lparr>pe_index := i\<rparr>)" if "strm_store conn p = Some s" for p s
    using queue_changed_store [OF qc(1) that] .
  have stays: "stays_ok conn c"
    using queue_changed_ok [OF conn(1) qc] queue_changed_kept [OF qc(1)] by (simp add: stays_ok_def)
  have "tx_kept conn c" using store by (fastforce simp: tx_kept_def strm_has_def)
  then have "ctrl_wrote conn c"
    using stays_wrote [OF stays] stays_started [OF stays] conn(2) by (simp add: ctrl_wrote_def)
  moreover have "distinct (pq_q (ctx_strmq conn))"
    using conn_okD(2) [OF conn(1)] index_ok_distinct by (fastforce simp: queue_but_def pq_inv_def)
  then have "pq_q (ctx_strmq conn) ! 0 \<notin> set (pq_q (ctx_strmq c))"
    using mset_eq_imp_distinct_iff [of "pq_q (ctx_strmq conn)" "pq_q (ctx_strmq conn) ! 0 # pq_q (ctx_strmq c)"] m by simp
  moreover have "length (pq_q (ctx_strmq conn)) = Suc (length (pq_q (ctx_strmq c)))"
    using arg_cong [OF m, of size] by simp
  ultimately show ?case using store by simp
qed simp

lemma write_strm_reset_writes:
  assumes cb: "quiet_app cb" and conn: "conn_ok conn" "qre_started (ctx_qre conn)"
    and ne: "pq_q (ctx_strmq conn) \<noteq> []" and p: "p = pq_q (ctx_strmq conn) ! 0" "strm_store conn p \<noteq> None"
  shows "writes conn (write_strm_reset cb conn p)
    (\<lambda>closed c. if closed then ctrl_wrote conn c \<and> length (pq_q (ctx_strmq c)) < length (pq_q (ctx_strmq conn))
                else at_strm p conn c)"
proof -
  obtain s where s: "strm_store conn p = Some s" using p(2) by blast
  note ok = strm_okD [OF conn(1) s]
  have v: "frame_valid (Fr_reset_stream \<lparr>rst_type = DWNX_FRAME_RESET_STREAM, rst_stream_id = stream_id s,
                     rst_app_error_code = tx_reset_stream_app_error_code s, rst_final_size = tx_offset s\<rparr>)"
    using ok by (simp add: frame_valid_def reset_stream_valid_def)
  let ?u = "upd_strm p (strm_clear DWNX_STRM_FLAG_SEND_RESET_STREAM)"
  have cleared: "writes conn (with_strm (?u c) p (\<lambda>strm.
            if dwnx_strm_should_close_stream strm then
              sbind (dwnx_conn_tx_strmq_pop (?u c)) (\<lambda>_ conn.
              sbind (dwnx_conn_close_stream cb conn p) (\<lambda>_ conn. SOk True conn))
            else SOk False (?u c)))
      (\<lambda>closed c. if closed then ctrl_wrote conn c \<and> length (pq_q (ctx_strmq c)) < length (pq_q (ctx_strmq conn))
                  else at_strm p conn c)" if c: "at_strm p conn c" for c
  proof -
    have u: "at_strm p conn (?u c)"
      by (rule at_strm_trans [OF c clear_flag_at [OF at_strmD(2,3,4) [OF c]]]) simp
    obtain s' where s': "strm_store (?u c) p = Some s'" using at_strmD(4) [OF u] by blast
    have top: "pq_q (ctx_strmq (?u c)) \<noteq> []" "p = pq_q (ctx_strmq (?u c)) ! 0"
      using at_strmD(5) [OF u] ne p by simp_all
    have close: "writes conn (sbind (dwnx_conn_close_stream cb d p) (\<lambda>_ conn. SOk True conn))
        (\<lambda>closed c. if closed then ctrl_wrote conn c \<and> length (pq_q (ctx_strmq c)) < length (pq_q (ctx_strmq conn))
                    else at_strm p conn c)"
      if sc: "dwnx_strm_should_close_stream s'" and d: "ctrl_wrote (?u c) d" "p \<notin> set (pq_q (ctx_strmq d))"
        "length (pq_q (ctx_strmq d)) < length (pq_q (ctx_strmq (?u c)))"
        "strm_store d p = Some (s'\<lparr>pe_index := i\<rparr>)" for d i
    proof -
      have cd: "ctrl_wrote conn d" using ctrl_wrote_trans [OF at_strmD(1) [OF u] d(1)] .
      have "dwnx_strm_should_close_stream (s'\<lparr>pe_index := i\<rparr>)" using sc by (simp add: dwnx_strm_should_close_stream_def strm_has_def)
      from close_quiet [OF cb ctrl_wroteD(1,2) [OF d(1)] d(4) this d(2)]
      have "writes conn (dwnx_conn_close_stream cb d p) (\<lambda>_ e. ctrl_wrote conn e \<and> ctx_strmq e = ctx_strmq d)"
        by (rule wp_mono) (auto intro: ctrl_wrote_trans [OF cd])
      then show ?thesis unfolding wp_sbind by (rule wp_mono) (use d(3) at_strmD(5) [OF u] in auto)
    qed
    have "writes conn (sbind (dwnx_conn_tx_strmq_pop (?u c)) (\<lambda>_ conn.
              sbind (dwnx_conn_close_stream cb conn p) (\<lambda>_ conn. SOk True conn)))
        (\<lambda>closed c. if closed then ctrl_wrote conn c \<and> length (pq_q (ctx_strmq c)) < length (pq_q (ctx_strmq conn))
                    else at_strm p conn c)" if "dwnx_strm_should_close_stream s'"
      unfolding wp_sbind [of "dwnx_conn_tx_strmq_pop (?u c)"]
    proof (rule wp_mono [OF strmq_pop_writes [OF at_strmD(2,3) [OF u] top(1)]], goal_cases)
      case (1 x d)
      then obtain i where "strm_store d p = Some (s'\<lparr>pe_index := i\<rparr>)" using s' by blast
      then show ?case using 1 top(2) by (intro close [OF that]) simp_all
    qed simp
    then show ?thesis unfolding wp_with_strm using s' u by (intro exI [of _ s']) (simp add: wp_if)
  qed
  have "at_strm p conn (conn\<lparr>ctx_qre := q\<rparr>)" if "ctrl_wrote conn (conn\<lparr>ctx_qre := q\<rparr>)" for q
    using that p(2) by (simp add: at_strm_def)
  then have "writes conn (sbind (conn_encode_frame conn
                  (Fr_reset_stream \<lparr>rst_type = DWNX_FRAME_RESET_STREAM, rst_stream_id = stream_id s,
                     rst_app_error_code = tx_reset_stream_app_error_code s, rst_final_size = tx_offset s\<rparr>)) (\<lambda>_ conn.
         let conn = upd_strm p (strm_clear DWNX_STRM_FLAG_SEND_RESET_STREAM) conn
         in with_strm conn p (\<lambda>strm.
            if dwnx_strm_should_close_stream strm then
              sbind (dwnx_conn_tx_strmq_pop conn) (\<lambda>_ conn.
              sbind (dwnx_conn_close_stream cb conn p) (\<lambda>_ conn. SOk True conn))
            else SOk False conn)))
      (\<lambda>closed c. if closed then ctrl_wrote conn c \<and> length (pq_q (ctx_strmq c)) < length (pq_q (ctx_strmq conn))
                  else at_strm p conn c)"
    unfolding Let_def by (intro writes_bind [OF encode_frame_writes [OF conn v]] cleared) blast
  then show ?thesis
    unfolding write_strm_reset_def wp_with_strm
    using s at_strm_refl [OF conn p(2)] by (intro exI [of _ s] conjI) (simp_all only: wp_if wp_SOk simp_thms if_False)
qed

lemma assert_fatal_wp:
  "wp r Q (\<lambda>e _. e = ERR_CALLBACK_FAILURE) \<Longrightarrow> wp (assert_fatal r) Q (\<lambda>e _. e = ERR_CALLBACK_FAILURE)"
  by (cases r) (simp_all add: assert_fatal_def dwnx_err_is_fatal_def DWNX_ERR_FATAL_def)

lemma fatal_codes [simp]: "dwnx_err_is_fatal (-501)" "dwnx_err_is_fatal (-502)" "\<not> dwnx_err_is_fatal (-202)"
  by (simp_all add: dwnx_err_is_fatal_def DWNX_ERR_FATAL_def)

lemma write_strm_stop_sending_writes:
  assumes cb: "quiet_app cb" and conn: "conn_ok conn" "qre_started (ctx_qre conn)" and p: "strm_store conn p \<noteq> None"
  shows "writes conn (write_strm_stop_sending cb conn p) (\<lambda>_. at_strm p conn)"
proof -
  obtain s where s: "strm_store conn p = Some s" using p by blast
  let ?ev = "Ev_stream_stop_sending (stream_id s) (tx_stop_sending_app_error_code s) (stream_user_data s)"
  have frame: "writes conn (with_strm c p (\<lambda>strm. conn_encode_frame c
                    (Fr_stop_sending \<lparr>stop_type = DWNX_FRAME_STOP_SENDING, stop_stream_id = stream_id strm,
                       stop_app_error_code = tx_stop_sending_app_error_code strm\<rparr>))) (\<lambda>_. at_strm p conn)"
    if c: "at_strm p conn c" for c
  proof -
    obtain s' where s': "strm_store c p = Some s'" using at_strmD(4) [OF c] by blast
    have v: "frame_valid (Fr_stop_sending \<lparr>stop_type = DWNX_FRAME_STOP_SENDING, stop_stream_id = stream_id s',
                       stop_app_error_code = tx_stop_sending_app_error_code s'\<rparr>)"
      using strm_okD [OF at_strmD(2) [OF c] s'] by (simp add: frame_valid_def stop_sending_valid_def)
    show ?thesis
      unfolding wp_with_strm
    proof (intro exI conjI, rule s', rule wp_mono [OF encode_frame_wp [OF at_strmD(2,3) [OF c] v]], goal_cases)
      case (1 x d)
      then have "at_strm p c d" using s' by (auto simp: at_strm_def)
      then show ?case by (rule at_strm_trans [OF c])
    qed (use at_strmD(1) [OF c] in simp)
  qed
  have refl: "at_strm p conn conn" by (rule at_strm_refl [OF conn p])
  have call: "wp (assert_fatal (conn_call_stream_stop_sending cb conn (stream_id s) (tx_stop_sending_app_error_code s) (stream_user_data s)))
      (\<lambda>_ c. stays_ok conn c \<and> quiet conn c) (\<lambda>e _. e = ERR_CALLBACK_FAILURE)"
    unfolding conn_call_stream_stop_sending_def by (intro assert_fatal_wp quiet_call_wp [OF cb _ conn(1)]) simp
  have called: "at_strm p conn c" if "stays_ok conn c \<and> quiet conn c" for c
    using stays_ctrl [of conn c] stays_ok_strm [of conn c p s] that conn(2) s by (auto simp: at_strm_def quiet_def)
  have "writes conn (sbind (assert_fatal (conn_call_stream_stop_sending cb conn (stream_id s)
                           (tx_stop_sending_app_error_code s) (stream_user_data s))) (\<lambda>_ c.
                  with_strm c p (\<lambda>strm. conn_encode_frame c
                    (Fr_stop_sending \<lparr>stop_type = DWNX_FRAME_STOP_SENDING, stop_stream_id = stream_id strm,
                       stop_app_error_code = tx_stop_sending_app_error_code strm\<rparr>)))) (\<lambda>_. at_strm p conn)"
    unfolding wp_sbind by (rule wp_mono [OF call]) (use frame called in \<open>blast, simp\<close>)
  then have "writes conn (if \<not> strm_has s DWNX_STRM_FLAG_SHUT_RD then
                  sbind (assert_fatal (conn_call_stream_stop_sending cb conn (stream_id s)
                           (tx_stop_sending_app_error_code s) (stream_user_data s))) (\<lambda>_ c.
                  with_strm c p (\<lambda>strm. conn_encode_frame c
                    (Fr_stop_sending \<lparr>stop_type = DWNX_FRAME_STOP_SENDING, stop_stream_id = stream_id strm,
                       stop_app_error_code = tx_stop_sending_app_error_code strm\<rparr>)))
                else SOk () conn) (\<lambda>_. at_strm p conn)"
    using refl by (simp only: wp_if wp_SOk simp_thms)
  then have "writes conn (sbind (if \<not> strm_has s DWNX_STRM_FLAG_SHUT_RD then
                  sbind (assert_fatal (conn_call_stream_stop_sending cb conn (stream_id s)
                           (tx_stop_sending_app_error_code s) (stream_user_data s))) (\<lambda>_ c.
                  with_strm c p (\<lambda>strm. conn_encode_frame c
                    (Fr_stop_sending \<lparr>stop_type = DWNX_FRAME_STOP_SENDING, stop_stream_id = stream_id strm,
                       stop_app_error_code = tx_stop_sending_app_error_code strm\<rparr>)))
                else SOk () conn) (\<lambda>_ conn.
         SOk () (upd_strm p (strm_clear DWNX_STRM_FLAG_SEND_STOP_SENDING) conn))) (\<lambda>_. at_strm p conn)"
  proof (rule writes_bind, goal_cases)
    case (1 x c)
    have "at_strm p conn (upd_strm p (strm_clear DWNX_STRM_FLAG_SEND_STOP_SENDING) c)"
      by (rule at_strm_trans [OF 1 clear_flag_at [OF at_strmD(2,3,4) [OF 1]]]) simp
    then show ?case by (simp only: wp_SOk)
  qed
  then show ?thesis
    unfolding write_strm_stop_sending_def wp_with_strm
    using s refl by (intro exI [of _ s] conjI) (simp_all only: wp_if wp_SOk simp_thms)
qed

lemma at_strm_step:
  assumes "at_strm p conn c" and "writes c r (\<lambda>_. at_strm p c)"
  shows "writes conn r (\<lambda>_. at_strm p conn)"
  by (rule writes_mono [OF assms(2) at_strmD(1) [OF assms(1)]]) (rule at_strm_trans [OF assms(1)])

lemma write_strmq_writes:
  assumes cb: "quiet_app cb"
  shows "conn_ok conn \<Longrightarrow> qre_started (ctx_qre conn) \<Longrightarrow> length (pq_q (ctx_strmq conn)) < fuel \<Longrightarrow>
    writes conn (write_strmq fuel cb conn) (\<lambda>_. ctrl_wrote conn)"
proof (induction fuel arbitrary: conn)
  case (Suc fuel)
  note conn = Suc.prems(1,2)
  have loop: "writes conn (write_strmq fuel cb c) (\<lambda>_. ctrl_wrote conn)"
    if c: "ctrl_wrote conn c" "length (pq_q (ctx_strmq c)) < length (pq_q (ctx_strmq conn))" for c
    by (rule writes_mono [OF Suc.IH [OF ctrl_wroteD(1,2) [OF c(1)]] c(1)]) (use Suc.prems(3) c in \<open>auto intro: ctrl_wrote_trans\<close>)
  show ?case
  proof (cases "pq_q (ctx_strmq conn) = []")
    case True
    then show ?thesis using ctrl_wrote_refl [OF conn] by (simp add: dwnx_pq_empty_def)
  next
    case False
    define p where "p = pq_q (ctx_strmq conn) ! 0"
    have p: "strm_store conn p \<noteq> None"
      using conn_okD(2) [OF conn(1)] False unfolding p_def queue_but_def by (metis length_greater_0_conv nth_mem)
    have pop: "writes conn (sbind (dwnx_conn_tx_strmq_pop c) (\<lambda>_ conn. write_strmq fuel cb conn)) (\<lambda>_. ctrl_wrote conn)"
      if c: "at_strm p conn c" for c
      unfolding wp_sbind
    proof (rule wp_mono [OF strmq_pop_writes [OF at_strmD(2,3) [OF c]]], goal_cases)
      case 1
      then show ?case using at_strmD(5) [OF c] False by simp
    next
      case (2 x d)
      then show ?case using at_strmD(1,5) [OF c] by (intro loop) (auto intro: ctrl_wrote_trans)
    qed simp
    have rest: "writes conn (if closed then write_strmq fuel cb c
           else
             sbind (write_strm_stop_sending cb c p) (\<lambda>_ conn.
             sbind (write_strm_max_stream_data conn p) (\<lambda>_ conn.
             sbind (write_strm_blocked conn p) (\<lambda>_ conn.
             sbind (dwnx_conn_tx_strmq_pop conn) (\<lambda>_ conn.
             write_strmq fuel cb conn))))) (\<lambda>_. ctrl_wrote conn)"
      if c: "if closed then ctrl_wrote conn c \<and> length (pq_q (ctx_strmq c)) < length (pq_q (ctx_strmq conn))
             else at_strm p conn c" for closed c
    proof (cases closed)
      case True
      then show ?thesis using loop c by simp
    next
      case False
      then have c: "at_strm p conn c" using c by simp
      have "writes conn (sbind (write_strm_stop_sending cb c p) (\<lambda>_ conn.
             sbind (write_strm_max_stream_data conn p) (\<lambda>_ conn.
             sbind (write_strm_blocked conn p) (\<lambda>_ conn.
             sbind (dwnx_conn_tx_strmq_pop conn) (\<lambda>_ conn.
             write_strmq fuel cb conn))))) (\<lambda>_. ctrl_wrote conn)"
        by (intro writes_bind [OF at_strm_step [OF c write_strm_stop_sending_writes [OF cb at_strmD(2,3,4) [OF c]]]]
            writes_bind [OF at_strm_step [OF _ write_strm_max_stream_data_writes [OF at_strmD(2,3,4)]]]
            writes_bind [OF at_strm_step [OF _ write_strm_blocked_writes [OF at_strmD(2,3,4)]]] pop)
      then show ?thesis using False by simp
    qed
    have "dwnx_conn_tx_strmq_top conn = SOk p conn"
      unfolding p_def by (rule strmq_top_eq [OF conn_okD(2) [OF conn(1)] False])
    then have run: "write_strmq (Suc fuel) cb conn = sbind (write_strm_reset cb conn p) (\<lambda>closed conn.
           if closed then write_strmq fuel cb conn
           else
             sbind (write_strm_stop_sending cb conn p) (\<lambda>_ conn.
             sbind (write_strm_max_stream_data conn p) (\<lambda>_ conn.
             sbind (write_strm_blocked conn p) (\<lambda>_ conn.
             sbind (dwnx_conn_tx_strmq_pop conn) (\<lambda>_ conn.
             write_strmq fuel cb conn)))))"
      using False by (simp add: dwnx_pq_empty_def)
    show ?thesis
      unfolding run by (rule writes_bind [OF write_strm_reset_writes [OF cb conn False p_def p] rest])
  qed
qed simp

end
