(* ===== verification/ConnRecord.thy ===== *)
theory ConnRecord
  imports ConnWriter
begin

text \<open>
  The functions that write a record: control frames, data of a stream or a datagram, and what
  \<open>dwnx_conn_writev_stream\<close> and \<open>dwnx_conn_writev_datagram\<close> return. They keep the invariant of the
  connection and of its reader with every result but a fatal error, after which the library allows
  no call but the one that frees the connection.
\<close>

section \<open>Steps while a record is open\<close>

definition sent :: "('a, 'u) dwnx_conn \<Rightarrow> ('a, 'u) dwnx_conn \<Rightarrow> bool" where
  "sent conn c \<longleftrightarrow> wrote conn c \<and> qre_started (ctx_qre c)"

definition sent_alive :: "('a, 'u) dwnx_conn \<Rightarrow> ('a, 'u) dwnx_conn \<Rightarrow> bool" where
  "sent_alive conn c \<longleftrightarrow> sent conn c \<and> (\<forall>p. strm_store conn p \<noteq> None \<longrightarrow> strm_store c p \<noteq> None)"

lemma sentD: "sent conn c \<Longrightarrow> conn_ok c" "sent conn c \<Longrightarrow> qre_started (ctx_qre c)" "sent conn c \<Longrightarrow> wrote conn c"
  by (simp_all add: sent_def wrote_def)

lemma sent_trans: "sent a b \<Longrightarrow> sent b c \<Longrightarrow> sent a c"
  using wrote_trans by (auto simp: sent_def)

lemma sent_refl: "conn_ok conn \<Longrightarrow> qre_started (ctx_qre conn) \<Longrightarrow> sent conn conn"
  by (simp add: sent_def wrote_refl)

lemma sent_aliveD: "sent_alive conn c \<Longrightarrow> sent conn c"
  "sent_alive conn c \<Longrightarrow> strm_store conn p \<noteq> None \<Longrightarrow> strm_store c p \<noteq> None"
  unfolding sent_alive_def by blast+

lemma sent_alive_trans: "sent_alive a b \<Longrightarrow> sent_alive b c \<Longrightarrow> sent_alive a c"
  using sent_trans unfolding sent_alive_def by blast

lemma sent_alive_refl: "conn_ok conn \<Longrightarrow> qre_started (ctx_qre conn) \<Longrightarrow> sent_alive conn conn"
  by (simp add: sent_alive_def sent_refl)

lemma ctrl_sent: "ctrl_wrote conn c \<Longrightarrow> sent conn c"
  by (simp add: ctrl_wrote_def sent_def)

lemma stays_sent_alive: "stays_ok conn c \<Longrightarrow> qre_started (ctx_qre conn) \<Longrightarrow> sent_alive conn c"
  using stays_ok_strm [of conn c] by (auto simp: sent_alive_def sent_def stays_wrote stays_started)

abbreviation sends ::
    "('s \<Rightarrow> ('a, 'u) dwnx_conn) \<Rightarrow> ('a, 'u) dwnx_conn \<Rightarrow> ('s, 'r) sres \<Rightarrow> ('r \<Rightarrow> 's \<Rightarrow> bool) \<Rightarrow> bool" where
  "sends g conn r Q \<equiv> wp r Q (\<lambda>e s. dwnx_err_is_fatal (liberr_code e) \<or> sent conn (g s))"

lemma writes_sends: "writes conn r Q \<Longrightarrow> (\<And>x c. Q x c \<Longrightarrow> R x c) \<Longrightarrow> sends (\<lambda>c. c) conn r R"
  by (erule wp_mono) (auto dest: ctrl_sent)

section \<open>MAX_STREAMS frames\<close>

lemma limit_sends:
  assumes cb: "app_ok cb" and conn: "conn_ok conn" "qre_started (ctx_qre conn)"
    and ty: "ty = DWNX_FRAME_MAX_STREAMS_BIDI \<or> ty = DWNX_FRAME_MAX_STREAMS_UNI"
    and n: "\<And>c. conn_ok c \<Longrightarrow> n c \<le> DWNX_MAX_STREAMS"
    and upd: "\<And>c. conn_ok c \<Longrightarrow> qre_started (ctx_qre c) \<Longrightarrow> sent_alive c (upd c)"
  shows "wp (sbind (assert_fatal (conn_call cb ev conn)) (\<lambda>_ c.
      sbind (conn_encode_frame c (Fr_max_streams \<lparr>ms_type = ty, ms_max_streams = n c\<rparr>)) (\<lambda>_ c. SOk () (upd c))))
    (\<lambda>_. sent_alive conn) (\<lambda>e c. dwnx_err_is_fatal (liberr_code e) \<or> e = ERR_NOBUF \<and> sent_alive conn c)"
proof -
  have frame: "wp (sbind (conn_encode_frame c (Fr_max_streams \<lparr>ms_type = ty, ms_max_streams = n c\<rparr>)) (\<lambda>_ c. SOk () (upd c)))
      (\<lambda>_. sent_alive conn) (\<lambda>e c. dwnx_err_is_fatal (liberr_code e) \<or> e = ERR_NOBUF \<and> sent_alive conn c)"
    if c: "stays_ok conn c" for c
  proof -
    have s: "sent_alive conn c" using stays_sent_alive [OF c conn(2)] .
    note ok = sentD(1,2) [OF sent_aliveD(1) [OF s]]
    have "n c \<le> DWNX_MAX_VARINT"
      using n [OF ok(1)] by (rule order.trans) (simp add: DWNX_MAX_STREAMS_def DWNX_MAX_VARINT_def)
    then have v: "frame_valid (Fr_max_streams \<lparr>ms_type = ty, ms_max_streams = n c\<rparr>)"
      using ty by (auto simp: frame_valid_def max_streams_valid_def type_byte_def)
    show ?thesis
      unfolding wp_sbind
    proof (rule wp_mono [OF encode_frame_wp [OF ok v]], goal_cases)
      case (1 x d)
      then have "sent_alive c d" by (auto simp: sent_alive_def ctrl_sent)
      then show ?case
        using upd [of d] sent_alive_trans [OF s] sent_alive_trans [of c d] by (auto dest: sent_aliveD(1) sentD)
    qed (use s in simp)
  qed
  show ?thesis
    unfolding wp_sbind [of "assert_fatal (conn_call cb ev conn)"]
    by (rule wp_mono [OF assert_fatal_wp [OF wp_mono [OF conn_call_wp [OF cb conn(1)]]]]) (use frame in auto)
qed

lemma write_max_streams_sends:
  fixes conn :: "('a, 'u) dwnx_conn"
  assumes cb: "app_ok cb" and conn: "conn_ok conn" "qre_started (ctx_qre conn)"
  shows "wp (dwnx_conn_write_max_streams cb conn) (\<lambda>_. sent_alive conn)
    (\<lambda>e c. dwnx_err_is_fatal (liberr_code e) \<or> e = ERR_NOBUF \<and> sent_alive conn c)"
proof -
  have n: "crx_bidi_unsent_max_streams c \<le> DWNX_MAX_STREAMS" "crx_uni_unsent_max_streams c \<le> DWNX_MAX_STREAMS"
    if "conn_ok c" for c :: "('a, 'u) dwnx_conn"
    using conn_okD(4) [OF that] by (simp_all add: flow_ok_def)
  have upd: "sent_alive c (c\<lparr>crx_bidi_max_streams := crx_bidi_unsent_max_streams c\<rparr>)"
    "sent_alive c (c\<lparr>crx_uni_max_streams := crx_uni_unsent_max_streams c\<rparr>)"
    if "conn_ok c" "qre_started (ctx_qre c)" for c :: "('a, 'u) dwnx_conn"
    using that by (simp_all add: sent_alive_def sent_def wrote_def conn_ok_def flow_ok_def out_ok_def rx_kept_def)
  note bidi = limit_sends [where n = crx_bidi_unsent_max_streams
      and upd = "\<lambda>c. c\<lparr>crx_bidi_max_streams := crx_bidi_unsent_max_streams c\<rparr>", OF cb _ _ disjI1 [OF refl] n(1) upd(1)]
  note uni = limit_sends [where n = crx_uni_unsent_max_streams
      and upd = "\<lambda>c. c\<lparr>crx_uni_max_streams := crx_uni_unsent_max_streams c\<rparr>", OF cb _ _ disjI2 [OF refl] n(2) upd(2)]
  have first: "wp (if crx_bidi_unsent_max_streams conn > crx_bidi_max_streams conn then
              sbind (assert_fatal (conn_call cb (Ev_extend_max_remote_streams_bidi (crx_bidi_unsent_max_streams conn)) conn)) (\<lambda>_ conn.
              sbind (conn_encode_frame conn
                       (Fr_max_streams \<lparr>ms_type = DWNX_FRAME_MAX_STREAMS_BIDI,
                          ms_max_streams = crx_bidi_unsent_max_streams conn\<rparr>)) (\<lambda>_ conn.
              SOk () (conn\<lparr>crx_bidi_max_streams := crx_bidi_unsent_max_streams conn\<rparr>)))
            else SOk () conn) (\<lambda>_. sent_alive conn)
      (\<lambda>e c. dwnx_err_is_fatal (liberr_code e) \<or> e = ERR_NOBUF \<and> sent_alive conn c)"
    using bidi [OF conn] sent_alive_refl [OF conn] by (simp only: wp_if wp_SOk simp_thms)
  show ?thesis
    unfolding dwnx_conn_write_max_streams_def conn_call_extend_max_remote_streams_bidi_def
      conn_call_extend_max_remote_streams_uni_def wp_sbind [of "if _ then _ else _"]
  proof (rule wp_mono [OF first], goal_cases)
    case (1 x c)
    note ok = sentD(1,2) [OF sent_aliveD(1) [OF 1]]
    show ?case
      unfolding wp_if wp_SOk
      by (intro conjI impI wp_mono [OF uni [OF ok]]) (use 1 in \<open>auto intro: sent_alive_trans [OF 1]\<close>)
  qed simp
qed

section \<open>Control frames\<close>

definition sendable :: "('a, 'u) dwnx_conn \<Rightarrow> ('a, 'u) dwnx_conn \<Rightarrow> bool" where
  "sendable conn c \<longleftrightarrow> sent conn c \<and>
     (\<forall>p s. strm_store conn p = Some s \<and> \<not> strm_has s DWNX_STRM_FLAG_SHUT_WR \<longrightarrow> strm_store c p \<noteq> None)"

lemma ctrl_sendable: "ctrl_wrote conn c \<Longrightarrow> sendable conn c"
  unfolding sendable_def ctrl_wrote_def tx_kept_def sent_def by fastforce

lemma ctrl_sendable_trans:
  assumes "ctrl_wrote conn c" and "sent_alive c d"
  shows "sendable conn d"
  using assms sent_trans [OF ctrl_sent [OF assms(1)] sent_aliveD(1) [OF assms(2)]]
  unfolding sendable_def sent_alive_def ctrl_wrote_def tx_kept_def by fastforce

lemma write_ctrl_frames_sends:
  assumes cb: "quiet_app cb" and conn: "conn_ok conn" "qre_started (ctx_qre conn)"
    and fuel: "length (pq_q (ctx_strmq conn)) < fuel"
  shows "wp (dwnx_conn_write_ctrl_frames fuel cb conn) (\<lambda>_. sendable conn)
    (\<lambda>e c. dwnx_err_is_fatal (liberr_code e) \<or> e = ERR_NOBUF \<and> sendable conn c)"
proof -
  have last: "wp (dwnx_conn_write_max_streams cb c) (\<lambda>_. sendable conn)
      (\<lambda>e c. dwnx_err_is_fatal (liberr_code e) \<or> e = ERR_NOBUF \<and> sendable conn c)" if c: "ctrl_wrote conn c" for c
    by (rule wp_mono [OF write_max_streams_sends [OF quiet_appD [OF cb] ctrl_wroteD(1,2) [OF c]]])
      (use ctrl_sendable_trans [OF c] in auto)
  have loop: "wp (sbind (write_strmq fuel cb c) (\<lambda>_ c. dwnx_conn_write_max_streams cb c)) (\<lambda>_. sendable conn)
      (\<lambda>e c. dwnx_err_is_fatal (liberr_code e) \<or> e = ERR_NOBUF \<and> sendable conn c)"
    if c: "ctrl_wrote conn c" "ctx_strmq c = ctx_strmq conn" for c
    unfolding wp_sbind
  proof (rule wp_mono [OF write_strmq_writes [OF cb ctrl_wroteD(1,2) [OF c(1)]]], goal_cases)
    case (2 x d)
    show ?case by (rule last [OF ctrl_wrote_trans [OF c(1) 2]])
  qed (use fuel c in \<open>auto intro: ctrl_sendable ctrl_wrote_trans\<close>)
  have ping: "wp (sbind (write_ping_response c) (\<lambda>_ conn. sbind (write_strmq fuel cb conn) (\<lambda>_ c. dwnx_conn_write_max_streams cb c)))
      (\<lambda>_. sendable conn) (\<lambda>e c. dwnx_err_is_fatal (liberr_code e) \<or> e = ERR_NOBUF \<and> sendable conn c)"
    if c: "ctrl_wrote conn c" "ctx_strmq c = ctx_strmq conn" for c
    unfolding wp_sbind [of "write_ping_response c"]
  proof (rule wp_mono [OF write_ping_writes [OF ctrl_wroteD(1,2) [OF c(1)]]], goal_cases)
    case (1 x d)
    show ?case by (rule loop [OF ctrl_wrote_trans [OF c(1)]]) (use 1 c in simp_all)
  qed (use c in \<open>auto intro: ctrl_sendable ctrl_wrote_trans\<close>)
  show ?thesis
    unfolding dwnx_conn_write_ctrl_frames_def wp_sbind [of "write_max_data conn"]
    by (rule wp_mono [OF write_max_data_writes [OF conn]]) (use ping in \<open>auto intro: ctrl_sendable\<close>)
qed

section \<open>STREAM frames\<close>

text \<open>A STREAM frame copies as many bytes of its data as its length says.\<close>

lemma encode_stream_prefix:
  assumes "stream_len f \<le> length (concat (stream_data f))"
  shows "dwnx_qre_encode_frame q (Fr_stream f) =
    dwnx_qre_encode_frame q (Fr_stream (f\<lparr>stream_data := [take (stream_len f) (concat (stream_data f))]\<rparr>))"
  by (simp add: dwnx_qre_encode_frame_def dwnx_frame_encode_buf_def dwnx_frame_encode_def dwnx_frame_encode_stream_def
      copy_stream_data_eq)

lemma stream_max_datalen_total:
  assumes "qre_inv q" and "stream_id_valid sid" and "off \<le> DWNX_MAX_VARINT"
  obtains (none) "dwnx_qre_stream_max_datalen q sid off len = Ok None"
    | (some) n where "dwnx_qre_stream_max_datalen q sid off len = Ok (Some n)" "n \<le> unat len"
proof -
  have "dwnx_buf_left (qre_buf q) \<le> DWNX_DEFAULT_MAX_RECORD_SIZE" using assms(1) by (auto simp: qre_defs)
  then have "\<exists>r. dwnx_qre_stream_max_datalen q sid off len = Ok r"
    using assms(2,3) by (cases "off = 0") (auto simp: dwnx_qre_stream_max_datalen_def Let_def)
  then obtain r where r: "dwnx_qre_stream_max_datalen q sid off len = Ok r" ..
  show thesis
  proof (cases r)
    case (Some n)
    then have "n \<le> unat len"
      using stream_max_datalen_fits(2) [OF _ assms(2,3) refl, of q len n "[replicate n 0]"] r by simp
    then show thesis using that(2) r Some by blast
  qed (use that(1) r in blast)
qed

lemma encode_stream_sends:
  assumes conn: "conn_ok conn" "qre_started (ctx_qre conn)" and sid: "stream_id_valid sid" and off: "off \<le> DWNX_MAX_VARINT"
    and n: "dwnx_qre_stream_max_datalen (ctx_qre conn) sid off len = Ok (Some n)" "n \<le> length (concat vs)"
  shows "\<exists>q. conn_encode_frame conn (Fr_stream \<lparr>stream_type = DWNX_FRAME_STREAM, stream_flags = fl, stream_fin = fin,
       stream_stream_id = sid, stream_offset = off, stream_len = n, stream_data = vs\<rparr>) = SOk () (conn\<lparr>ctx_qre := q\<rparr>) \<and>
     ctrl_wrote conn (conn\<lparr>ctx_qre := q\<rparr>)"
proof -
  let ?f = "\<lparr>stream_type = DWNX_FRAME_STREAM, stream_flags = fl, stream_fin = fin,
       stream_stream_id = sid, stream_offset = off, stream_len = n, stream_data = [take n (concat vs)]\<rparr>"
  have inv: "qre_inv (ctx_qre conn)" using conn_okD(8) [OF conn(1)] conn(2) by (simp add: out_ok_def)
  have "length (concat [take n (concat vs)]) = n" using n(2) by simp
  note fit = stream_max_datalen_fits [where f = ?f, OF n(1) sid off refl this]
  have v: "frame_valid (Fr_stream ?f)" using fit(3) by (simp add: frame_valid_def)
  let ?q = "(ctx_qre conn)\<lparr>qre_buf := buf_append (qre_buf (ctx_qre conn)) (frame_wire (Fr_stream ?f))\<rparr>"
  have w: "length (frame_wire (Fr_stream ?f)) \<le> dwnx_qre_left (ctx_qre conn)" using fit(1) by (simp add: frame_wire_def)
  have "dwnx_qre_encode_frame (ctx_qre conn) (Fr_stream ?f) = Ok ?q"
    using qre_encode_frame_spec [OF inv v] w by simp
  then have "conn_encode_frame conn (Fr_stream \<lparr>stream_type = DWNX_FRAME_STREAM, stream_flags = fl, stream_fin = fin,
       stream_stream_id = sid, stream_offset = off, stream_len = n, stream_data = vs\<rparr>) = SOk () (conn\<lparr>ctx_qre := ?q\<rparr>)"
    using n(2) encode_stream_prefix [of "\<lparr>stream_type = DWNX_FRAME_STREAM, stream_flags = fl, stream_fin = fin,
       stream_stream_id = sid, stream_offset = off, stream_len = n, stream_data = vs\<rparr>" "ctx_qre conn"]
    by (simp add: conn_encode_frame_def)
  moreover have "ctrl_wrote conn (conn\<lparr>ctx_qre := ?q\<rparr>)"
    using qre_append_inv [OF inv w] conn(2) by (intro ctrl_qre [OF conn(1)]) simp_all
  ultimately show ?thesis by blast
qed

text \<open>Counting the bytes that have been sent.\<close>

lemma u64_room: "n \<le> unat (m - x) \<Longrightarrow> x \<le> m \<Longrightarrow> x + of_nat n \<le> (m :: u64)"
proof -
  assume n: "n \<le> unat (m - x)" and x: "x \<le> m"
  have "unat (m - x) < 2 ^ 64" using unsigned_less [of "m - x"] by simp
  then have "unat (of_nat n :: u64) = n" using n by (simp add: unat_of_nat)
  then have "(of_nat n :: u64) \<le> m - x" using n by (simp add: word_le_nat_alt)
  then show ?thesis using x by unat_arith
qed

lemma count_sent:
  assumes conn: "conn_ok conn" "qre_started (ctx_qre conn)" and early: "no_early_credit conn"
    and p: "strm_store conn p = Some s"
    and n: "n \<le> unat (tx_max_offset s - tx_offset s)" "n \<le> unat (ctx_max_offset conn - ctx_offset conn)"
  shows "sent_alive conn
    ((upd_strm p (\<lambda>strm. (strm_set DWNX_STRM_FLAG_ANY_SENT strm)\<lparr>tx_offset := tx_offset strm + of_nat n\<rparr>) conn)
      \<lparr>ctx_offset := ctx_offset conn + of_nat n\<rparr>)" (is "sent_alive conn (?u\<lparr>ctx_offset := ?o\<rparr>)")
proof -
  let ?f = "\<lambda>strm. (strm_set DWNX_STRM_FLAG_ANY_SENT strm)\<lparr>tx_offset := tx_offset strm + of_nat n\<rparr>"
  note ok = strm_okD [OF conn(1) p]
  have tx: "tx_offset s + of_nat n \<le> tx_max_offset s" using u64_room [OF n(1) ok(3)] .
  have u: "at_strm p conn ?u"
  proof (rule upd_strm_at [OF conn p])
    show "strm_step ?f s" using ok(1) tx by (auto simp: strm_step_def strm_ok_def strm_set_def)
  qed (simp_all add: strm_set_def strm_has_def bit.conj_disj_distrib2)
  have o: "ctx_offset conn \<le> ctx_max_offset conn" using conn_okD(4) [OF conn(1)] by (simp add: flow_ok_def)
  have ctx: "?o \<le> ctx_max_offset conn" using u64_room [OF n(2) o] .
  have fl: "flow_ok (?u\<lparr>ctx_offset := ?o\<rparr>)"
    using conn_okD(4) [OF at_strmD(2) [OF u]] ctx by (auto simp: flow_ok_def upd_strm_def)
  have "n = 0" if "params_pending conn" "\<not> conn_has conn CONN_FLAG_EARLY_TRANSPORT_PARAMS_SET"
    using that early o n(2) by (auto simp: no_early_credit_def)
  then have ea: "early_ok (?u\<lparr>ctx_offset := ?o\<rparr>)"
    using conn_okD(7) [OF at_strmD(2) [OF u]] by (auto simp: early_ok_def upd_strm_def conn_has_def params_pending_def conn_local_stream_def)
  have "conn_ok (?u\<lparr>ctx_offset := ?o\<rparr>)"
    using conn_okD [OF at_strmD(2) [OF u]] fl ea by (simp add: conn_ok_def out_ok_def)
  moreover have "rx_kept ?u (?u\<lparr>ctx_offset := ?o\<rparr>)" by (simp add: rx_kept_def)
  ultimately have "sent conn (?u\<lparr>ctx_offset := ?o\<rparr>)"
    using ctrl_sent [OF at_strmD(1) [OF u]] sent_trans [of conn ?u] by (auto simp: sent_def wrote_def)
  then show ?thesis using p by (auto simp: sent_alive_def)
qed

lemma or_queue_blocked_sends:
  assumes conn: "conn_ok conn" "qre_started (ctx_qre conn)" and p: "strm_store conn p \<noteq> None"
  shows "sends (\<lambda>c. c) conn (or_queue_blocked (write_blocked conn p) p) (\<lambda>_ c. sent conn c \<and> strm_store c p \<noteq> None)"
proof -
  have queue: "sends (\<lambda>c. c) conn (dwnx_conn_tx_strmq_push_if_not (upd_strm p (strm_set DWNX_STRM_FLAG_SEND_STREAM_DATA_BLOCKED) c) p)
      (\<lambda>_ c. sent conn c \<and> strm_store c p \<noteq> None)" if c: "at_strm p conn c" for c
  proof -
    obtain s where s: "strm_store c p = Some s" using at_strmD(4) [OF c] by blast
    have "stays c (dwnx_conn_tx_strmq_push_if_not (upd_strm p (strm_set DWNX_STRM_FLAG_SEND_STREAM_DATA_BLOCKED) c) p)"
      by (rule upd_push_stays [OF at_strmD(2) [OF c] s flag_step(1) strm_set_kept])
        (use strm_okD(1) [OF at_strmD(2) [OF c] s] in simp_all)
    moreover have "sent conn d" "strm_store d p \<noteq> None" if "stays_ok c d" for d
      using stays_sent_alive [OF that at_strmD(3) [OF c]] sent_trans [OF ctrl_sent [OF at_strmD(1) [OF c]]] s
      by (auto simp: sent_alive_def)
    ultimately show ?thesis by (auto elim!: wp_mono)
  qed
  have "wp (write_blocked conn p) (\<lambda>_. at_strm p conn) (\<lambda>e c. e = ERR_NOBUF \<and> at_strm p conn c)"
    by (rule write_blocked_writes [OF conn p])
  then show ?thesis
    using queue by (cases "write_blocked conn p") (auto simp: or_queue_blocked_def at_strm_def ctrl_sent)
qed

lemma wp_with_out [simp, wp_rules]: "wp (with_out out r) Q E \<longleftrightarrow> wp r (\<lambda>x c. Q x (c, out)) (\<lambda>e c. E e (c, out))"
  by (cases r) (simp_all add: with_out_def)

lemma shut_wr_sent:
  assumes conn: "conn_ok conn" "qre_started (ctx_qre conn)" and p: "strm_store conn p \<noteq> None"
  shows "sent_alive conn (upd_strm p (\<lambda>strm. dwnx_strm_shutdown strm DWNX_STRM_FLAG_SHUT_WR) conn)"
proof -
  obtain s where s: "strm_store conn p = Some s" using p by blast
  note ok = strm_okD(1) [OF conn(1) s]
  have "conn_ok (upd_strm p (\<lambda>strm. dwnx_strm_shutdown strm DWNX_STRM_FLAG_SHUT_WR) conn)"
    by (rule upd_strm_ok [OF conn(1) s flag_step(3) [OF ok]])
  moreover have "strm_has (dwnx_strm_shutdown s DWNX_STRM_FLAG_SHUT_WR) DWNX_STRM_FLAG_SHUT_RD = strm_has s DWNX_STRM_FLAG_SHUT_RD"
    by (simp add: dwnx_strm_shutdown_def strm_has_set)
  moreover have "rx_last_offset (dwnx_strm_shutdown s DWNX_STRM_FLAG_SHUT_WR) = rx_last_offset s"
    by (simp add: dwnx_strm_shutdown_def strm_set_def)
  ultimately show ?thesis
    using s conn(2) by (auto simp: sent_alive_def sent_def wrote_def rx_kept_def conn_has_def upd_strm_def)
qed

lemma close_if_shut_sends:
  assumes cb: "app_ok cb" and conn: "conn_ok conn" "qre_started (ctx_qre conn)" and p: "strm_store conn p \<noteq> None"
  shows "sends (\<lambda>c. c) conn (dwnx_conn_close_stream_if_shut_rdwr cb conn p) (\<lambda>_. sent conn)"
proof -
  obtain s where s: "strm_store conn p = Some s" using p by blast
  have "sends (\<lambda>c. c) conn (dwnx_conn_close_stream cb conn p) (\<lambda>_. sent conn)" if "dwnx_strm_should_close_stream s"
  proof (rule wp_mono [OF close_stream_wp [OF cb conn(1) p]], goal_cases)
    case (1 x c)
    then show ?case
      using closed_wrote [OF 1 s] should_close_shut [OF that] conn(2) by (simp add: sent_def strm_closed_def kept_but_def)
  qed simp
  then show ?thesis
    using s sent_refl [OF conn] by (simp add: dwnx_conn_close_stream_if_shut_rdwr_def wp_if)
qed

text \<open>The data have been encoded: the application is told, the bytes are counted, and the stream is
  shut down with the last of them.\<close>

lemma data_written_sends:
  assumes cb: "app_ok cb" and conn: "conn_ok conn" "qre_started (ctx_qre conn)" and early: "no_early_credit conn"
    and p: "strm_store conn p = Some s"
    and n: "n \<le> unat (tx_max_offset s - tx_offset s)" "n \<le> unat (ctx_max_offset conn - ctx_offset conn)"
  shows "sends (\<lambda>c. c) conn (sbind (conn_call_write_stream_data_offset cb conn p n) (\<lambda>_ conn.
      let conn = upd_strm p (\<lambda>strm. (strm_set DWNX_STRM_FLAG_ANY_SENT strm)
                   \<lparr>tx_offset := tx_offset strm + of_nat n\<rparr>) conn;
          conn = conn\<lparr>ctx_offset := ctx_offset conn + of_nat n\<rparr>
      in if fin then
           dwnx_conn_close_stream_if_shut_rdwr cb
             (upd_strm p (\<lambda>strm. dwnx_strm_shutdown strm DWNX_STRM_FLAG_SHUT_WR) conn) p
         else if blk then or_queue_blocked (write_blocked conn p) p
         else SOk () conn)) (\<lambda>_. sent conn)"
proof -
  let ?cnt = "\<lambda>c. (upd_strm p (\<lambda>strm. (strm_set DWNX_STRM_FLAG_ANY_SENT strm)\<lparr>tx_offset := tx_offset strm + of_nat n\<rparr>) c)
      \<lparr>ctx_offset := ctx_offset (upd_strm p (\<lambda>strm. (strm_set DWNX_STRM_FLAG_ANY_SENT strm)
        \<lparr>tx_offset := tx_offset strm + of_nat n\<rparr>) c) + of_nat n\<rparr>"
  have rest: "sends (\<lambda>c. c) conn (if fin then
           dwnx_conn_close_stream_if_shut_rdwr cb
             (upd_strm p (\<lambda>strm. dwnx_strm_shutdown strm DWNX_STRM_FLAG_SHUT_WR) d) p
         else if blk then or_queue_blocked (write_blocked d p) p
         else SOk () d) (\<lambda>_. sent conn)" if d: "sent_alive conn d" for d
  proof -
    note ok = sentD(1,2) [OF sent_aliveD(1) [OF d]]
    have pd: "strm_store d p \<noteq> None" using sent_aliveD(2) [OF d] p by simp
    let ?e = "upd_strm p (\<lambda>strm. dwnx_strm_shutdown strm DWNX_STRM_FLAG_SHUT_WR) d"
    have e: "sent_alive conn ?e" by (rule sent_alive_trans [OF d shut_wr_sent [OF ok pd]])
    have "sends (\<lambda>c. c) conn (dwnx_conn_close_stream_if_shut_rdwr cb ?e p) (\<lambda>_. sent conn)"
      by (rule wp_mono [OF close_if_shut_sends [OF cb sentD(1,2) [OF sent_aliveD(1) [OF e]] sent_aliveD(2) [OF e]]])
        (use p sent_trans [OF sent_aliveD(1) [OF e]] in auto)
    moreover have "sends (\<lambda>c. c) conn (or_queue_blocked (write_blocked d p) p) (\<lambda>_. sent conn)"
      by (rule wp_mono [OF or_queue_blocked_sends [OF ok pd]]) (use sent_trans [OF sent_aliveD(1) [OF d]] in auto)
    ultimately show ?thesis using sent_aliveD(1) [OF d] by (simp only: wp_if wp_SOk simp_thms)
  qed
  have counted: "sent_alive conn (?cnt c)" if c: "stays_ok conn c" for c
  proof -
    obtain s' where s': "strm_store c p = Some s'" "strm_kept s s'" using stays_ok_strm [OF c p] by blast
    have "sent_alive c (?cnt c)"
      using count_sent [OF stays_okD [OF c] _ early_credit_kept [OF stays_rx_kept [OF c] early] s'(1), of n] s' n c conn(2)
      by (simp add: stays_started [OF c] strm_kept_def stays_ok_def kept_but_def)
    then show ?thesis by (rule sent_alive_trans [OF stays_sent_alive [OF c conn(2)]])
  qed
  have call: "wp (conn_call_write_stream_data_offset cb conn p n) (\<lambda>_. stays_ok conn) (\<lambda>e c. dwnx_err_is_fatal (liberr_code e))"
    using p by (auto simp: conn_call_write_stream_data_offset_def intro!: wp_mono [OF conn_call_wp [OF cb conn(1)]])
  show ?thesis
    unfolding wp_sbind Let_def by (rule wp_mono [OF call]) (use rest counted in \<open>simp_all only: simp_thms\<close>)
qed

lemma write_stream_frame_sends:
  assumes cb: "app_ok cb" and conn: "conn_ok conn" "qre_started (ctx_qre conn)" and early: "no_early_credit conn"
    and p: "strm_store conn p \<noteq> None" and data: "length (concat datav) \<le> unat DWNX_MAX_VARINT"
  shows "sends fst conn (dwnx_conn_write_stream_frame cb (conn, out) p fl datav) (\<lambda>_ s. sent conn (fst s))"
proof -
  obtain s where s: "strm_store conn p = Some s" using p by blast
  note ok = strm_okD [OF conn(1) s]
  have inv: "qre_inv (ctx_qre conn)" using conn_okD(8) [OF conn(1)] conn(2) by (simp add: out_ok_def)
  define nd where "nd = conn_enforce_flow_control conn s (dwnx_vec_len datav)"
  have len: "unat (dwnx_vec_len datav) = length (concat datav)"
    using data by (simp add: dwnx_vec_len_concat unat_of_nat DWNX_MAX_VARINT_def)
  have nd: "unat nd \<le> length (concat datav)" "unat nd \<le> unat (tx_max_offset s - tx_offset s)"
    "unat nd \<le> unat (ctx_max_offset conn - ctx_offset conn)"
    unfolding nd_def conn_enforce_flow_control_def conn_fc_credits_def len [symmetric]
    by (simp_all add: word_le_nat_alt [symmetric] min_le_iff_disj)
  have blocked: "sends (\<lambda>c. c) conn (sbind (or_queue_blocked (write_blocked conn p) p) (\<lambda>_ conn.
       with_strm conn p (\<lambda>strm.
         if tx_max_offset strm = tx_offset strm then SErr ERR_STREAM_DATA_BLOCKED conn else SOk () conn))) (\<lambda>_. sent conn)"
    unfolding wp_sbind wp_with_strm by (rule wp_mono [OF or_queue_blocked_sends [OF conn p]]) auto
  have written: "sends fst conn (case conn_encode_frame conn (Fr_stream \<lparr>stream_type = DWNX_FRAME_STREAM, stream_flags = flags, stream_fin = fin,
                              stream_stream_id = stream_id s, stream_offset = tx_offset s,
                              stream_len = w, stream_data = datav\<rparr>) of
       SOk _ conn \<Rightarrow>
         sbind (with_out out
           (sbind (conn_call_write_stream_data_offset cb conn p w) (\<lambda>_ conn.
            let conn = upd_strm p (\<lambda>strm. (strm_set DWNX_STRM_FLAG_ANY_SENT strm)
                         \<lparr>tx_offset := tx_offset strm + of_nat w\<rparr>) conn;
                conn = conn\<lparr>ctx_offset := ctx_offset conn + of_nat w\<rparr>
            in if fin then
                 dwnx_conn_close_stream_if_shut_rdwr cb
                   (upd_strm p (\<lambda>strm. dwnx_strm_shutdown strm DWNX_STRM_FLAG_SHUT_WR) conn) p
               else if blk then or_queue_blocked (write_blocked conn p) p
               else SOk () conn))) (\<lambda>_ (conn, _).
         SOk () (conn, int w))
     | _ \<Rightarrow> SAbort) (\<lambda>_ s. sent conn (fst s))"
    if w: "dwnx_qre_stream_max_datalen (ctx_qre conn) (stream_id s) (tx_offset s) nd = Ok (Some w)" "w \<le> unat nd"
    for w flags fin blk
  proof -
    have "w \<le> length (concat datav)" using w(2) nd(1) by simp
    from encode_stream_sends [OF conn ok(2,5) w(1) this, of flags fin]
    obtain q where q: "conn_encode_frame conn (Fr_stream \<lparr>stream_type = DWNX_FRAME_STREAM, stream_flags = flags, stream_fin = fin,
                              stream_stream_id = stream_id s, stream_offset = tx_offset s,
                              stream_len = w, stream_data = datav\<rparr>) = SOk () (conn\<lparr>ctx_qre := q\<rparr>)"
      and c: "ctrl_wrote conn (conn\<lparr>ctx_qre := q\<rparr>)" by blast
    let ?c = "conn\<lparr>ctx_qre := q\<rparr>"
    have e: "no_early_credit ?c" using early by (simp add: no_early_credit_def)
    have "sends (\<lambda>c. c) conn (sbind (conn_call_write_stream_data_offset cb ?c p w) (\<lambda>_ conn.
            let conn = upd_strm p (\<lambda>strm. (strm_set DWNX_STRM_FLAG_ANY_SENT strm)
                         \<lparr>tx_offset := tx_offset strm + of_nat w\<rparr>) conn;
                conn = conn\<lparr>ctx_offset := ctx_offset conn + of_nat w\<rparr>
            in if fin then
                 dwnx_conn_close_stream_if_shut_rdwr cb
                   (upd_strm p (\<lambda>strm. dwnx_strm_shutdown strm DWNX_STRM_FLAG_SHUT_WR) conn) p
               else if blk then or_queue_blocked (write_blocked conn p) p
               else SOk () conn)) (\<lambda>_. sent conn)"
      by (rule wp_mono [OF data_written_sends [OF cb ctrl_wroteD(1,2) [OF c] e]])
        (use s w(2) nd sent_trans [OF ctrl_sent [OF c]] in \<open>auto\<close>)
    then show ?thesis unfolding q sres.case wp_sbind [of "with_out _ _"] wp_with_out by (rule wp_mono) auto
  qed
  have zero: "nd = 0 \<longleftrightarrow> unat nd = 0" by (simp add: unat_eq_0)
  show ?thesis
  proof (cases rule: stream_max_datalen_total [OF inv ok(2,5), of nd, case_names none some])
    case none
    then show ?thesis
      using s blocked sent_refl [OF conn]
      by (simp add: dwnx_conn_write_stream_frame_def Let_def nd_def [symmetric] wp_if del: wp_sbind)
  next
    case (some w)
    show ?thesis
      using s blocked sent_refl [OF conn] some written [OF some]
      by (simp add: dwnx_conn_write_stream_frame_def Let_def nd_def [symmetric] wp_if del: wp_sbind)
  qed
qed

section \<open>Records\<close>

lemma write_datagram_frame_sends:
  assumes conn: "conn_ok conn" "qre_started (ctx_qre conn)" and data: "length (concat datav) \<le> unat DWNX_MAX_VARINT"
  shows "sends fst conn (dwnx_conn_write_datagram_frame (conn, out) datav) (\<lambda>_ s. sent conn (fst s))"
proof -
  have len: "unat (dwnx_vec_len datav) = length (concat datav)"
    using data by (simp add: dwnx_vec_len_concat unat_of_nat DWNX_MAX_VARINT_def)
  have v: "frame_valid (Fr_datagram \<lparr>dgram_type = DWNX_FRAME_DATAGRAM_LEN, dgram_len = unat (dwnx_vec_len datav),
                     dgram_data = datav\<rparr>)"
    using data len by (simp add: frame_valid_def datagram_valid_def type_byte_def DWNX_MAX_VARINT_def)
  have "sends (\<lambda>c. c) conn (conn_encode_frame conn (Fr_datagram \<lparr>dgram_type = DWNX_FRAME_DATAGRAM_LEN,
      dgram_len = unat (dwnx_vec_len datav), dgram_data = datav\<rparr>)) (\<lambda>_. sent conn)"
    by (rule wp_mono [OF encode_frame_wp [OF conn v]]) (auto intro: ctrl_sent sent_refl conn)
  then show ?thesis
    unfolding dwnx_conn_write_datagram_frame_def Let_def prod.case wp_sbind wp_with_out by (rule wp_mono) auto
qed

lemma wp_allow_nobuf:
  "wp (allow_nobuf r) Q E \<longleftrightarrow> wp r (\<lambda>_. Q False) (\<lambda>e s. if e = ERR_NOBUF then Q True s else E e s)"
  by (cases r) (simp_all add: allow_nobuf_def)

text \<open>What the functions that write a record promise of every result.\<close>

abbreviation wrote_all :: "('a, 'u) dwnx_conn \<Rightarrow> ('a, 'u, 'r) out_res \<Rightarrow> bool" where
  "wrote_all conn r \<equiv> wp r (\<lambda>_ s. wrote conn (fst s)) (\<lambda>e s. dwnx_err_is_fatal (liberr_code e) \<or> wrote conn (fst s))"

text \<open>A new record, with the transport parameters if it is the first one.\<close>

lemma params_sent_ok:
  assumes c: "conn_ok c" "qre_started (ctx_qre c)"
  shows "sent_alive c (conn_set CONN_FLAG_QX_TRANSPORT_PARAMETERS_SENT c)"
proof -
  let ?d = "conn_set CONN_FLAG_QX_TRANSPORT_PARAMETERS_SENT c"
  have has: "conn_has ?d CONN_FLAG_QX_TRANSPORT_PARAMETERS_SEEN = conn_has c CONN_FLAG_QX_TRANSPORT_PARAMETERS_SEEN"
    "conn_has ?d CONN_FLAG_EARLY_TRANSPORT_PARAMS_SET = conn_has c CONN_FLAG_EARLY_TRANSPORT_PARAMS_SET"
    by (simp_all add: conn_has_def conn_set_def bit.conj_disj_distrib2)
  then have "early_ok ?d"
    using conn_okD(7) [OF c(1)] by (simp add: early_ok_def params_pending_def) (simp add: conn_set_def)
  moreover have "strms_ok ?d" "queue_ok ?d" "ids_ok ?d" "flow_ok ?d" "params_ok ?d" "time_ok ?d" "out_ok ?d"
    using c(1) by (simp_all add: conn_ok_def conn_set_def)
  ultimately have "conn_ok ?d" by (simp add: conn_ok_def)
  then show ?thesis
    using has c(2) by (simp add: sent_alive_def sent_def wrote_def rx_kept_def) (simp add: conn_set_def)
qed

lemma qre_replaced:
  assumes "conn_ok conn" and "qre_started q \<longrightarrow> qre_inv q"
  shows "wrote conn (conn\<lparr>ctx_qre := q\<rparr>)"
proof -
  have "out_ok (conn\<lparr>ctx_qre := q\<rparr>)" using assms conn_okD(8) by (auto simp: out_ok_def)
  then have "conn_ok (conn\<lparr>ctx_qre := q\<rparr>)" using assms(1) by (simp add: conn_ok_def)
  then show ?thesis by (simp add: wrote_def rx_kept_def)
qed

lemma sendable_after:
  assumes "wrote conn c" "strm_store c = strm_store conn" and "sendable c d"
  shows "sendable conn d"
  using assms wrote_trans [of conn c d] by (auto simp: sendable_def sent_def)

lemma sendable_after_alive:
  assumes "sendable c d" and "wrote conn c" and "strm_store c = strm_store conn"
  shows "sendable conn d"
  using sendable_after assms by blast

lemma ctrl_frames_after:
  assumes cb: "quiet_app cb" and c: "wrote conn c" "strm_store c = strm_store conn" "qre_started (ctx_qre c)"
    and fuel: "length (pq_q (ctx_strmq c)) < fuel"
  shows "wp (allow_nobuf (dwnx_conn_write_ctrl_frames fuel cb c)) (\<lambda>_. sendable conn)
    (\<lambda>e c. dwnx_err_is_fatal (liberr_code e) \<or> wrote conn c)"
  unfolding wp_allow_nobuf
  by (rule wp_mono [OF write_ctrl_frames_sends [OF cb wroteD(1) [OF c(1)] c(3) fuel]])
    (use sendable_after [OF c(1,2)] in auto)

lemma vmsg_start_sends:
  assumes cb: "quiet_app cb" and conn: "conn_ok conn" and dest: "2 \<le> destlen"
    and fuel: "length (pq_q (ctx_strmq conn)) < fuel"
  shows "wp (vmsg_start fuel cb conn destlen) (\<lambda>_. sendable conn) (\<lambda>e c. dwnx_err_is_fatal (liberr_code e) \<or> wrote conn c)"
proof (cases "qre_started (ctx_qre conn)")
  case True
  then show ?thesis
    using sent_refl [OF conn True] by (simp add: vmsg_start_def dwnx_qre_has_started_def sendable_def)
next
  case False
  obtain q where q: "dwnx_qre_start (ctx_qre conn) destlen = Ok q" "qre_inv q" "qre_started q"
    using qre_start_spec [OF dest, of "ctx_qre conn"] by blast
  let ?c = "conn\<lparr>ctx_qre := q\<rparr>"
  have c: "wrote conn ?c" by (rule qre_replaced [OF conn]) (use q in simp)
  note ok = wroteD(1) [OF c]
  have v: "frame_valid (Fr_qx_transport_parameters \<lparr>qtp_type = DWNX_FRAME_QX_TRANSPORT_PARAMETERS, qtp_params = local_params ?c\<rparr>)"
    using conn_okD(5) [OF ok]
    by (simp add: frame_valid_def qx_transport_parameters_valid_def params_ok_def DWNX_MAX_VARINT_def)
  have params: "wp (conn_encode_frame ?c (Fr_qx_transport_parameters
        \<lparr>qtp_type = DWNX_FRAME_QX_TRANSPORT_PARAMETERS, qtp_params = local_params ?c\<rparr>))
      (\<lambda>_ d. \<exists>q. d = ?c\<lparr>ctx_qre := q\<rparr> \<and> ctrl_wrote ?c d) (\<lambda>e d. e = ERR_NOBUF \<and> d = ?c)"
    by (rule encode_frame_wp [OF ok _ v]) (use q in simp)
  have "wp (case dwnx_conn_write_transport_params ?c of
             SOk _ conn \<Rightarrow> SOk () (conn_set CONN_FLAG_QX_TRANSPORT_PARAMETERS_SENT conn)
           | SErr e conn \<Rightarrow> SErr e (conn\<lparr>ctx_qre := dwnx_qre_reset (ctx_qre conn)\<rparr>)
           | SAbort \<Rightarrow> SAbort)
      (\<lambda>_ d. wrote conn d \<and> strm_store d = strm_store conn \<and> qre_started (ctx_qre d) \<and> ctx_strmq d = ctx_strmq conn)
      (\<lambda>_ d. wrote conn d)"
  proof (cases "dwnx_conn_write_transport_params ?c")
    case (SOk x d)
    then obtain q' where d: "d = ?c\<lparr>ctx_qre := q'\<rparr>" "ctrl_wrote ?c d"
      using params unfolding dwnx_conn_write_transport_params_def by auto
    have "sent_alive d (conn_set CONN_FLAG_QX_TRANSPORT_PARAMETERS_SENT d)"
      by (rule params_sent_ok [OF ctrl_wroteD(1,2) [OF d(2)]])
    then have "sent ?c (conn_set CONN_FLAG_QX_TRANSPORT_PARAMETERS_SENT d)"
      using sent_trans [OF ctrl_sent [OF d(2)]] by (simp add: sent_alive_def)
    then show ?thesis
      using SOk wrote_trans [OF c] d(1) by (simp add: sent_def) (simp add: conn_set_def)
  next
    case (SErr e d)
    then have d: "d = ?c" using params unfolding dwnx_conn_write_transport_params_def by simp
    have "wrote conn (conn\<lparr>ctx_qre := dwnx_qre_reset q\<rparr>)"
      by (rule qre_replaced [OF conn]) (simp add: dwnx_qre_reset_def)
    then show ?thesis using SErr d by simp
  next
    case SAbort
    then show ?thesis using params unfolding dwnx_conn_write_transport_params_def by simp
  qed
  then have start: "wp (if \<not> conn_has ?c CONN_FLAG_QX_TRANSPORT_PARAMETERS_SENT then
           (case dwnx_conn_write_transport_params ?c of
             SOk _ conn \<Rightarrow> SOk () (conn_set CONN_FLAG_QX_TRANSPORT_PARAMETERS_SENT conn)
           | SErr e conn \<Rightarrow> SErr e (conn\<lparr>ctx_qre := dwnx_qre_reset (ctx_qre conn)\<rparr>)
           | SAbort \<Rightarrow> SAbort) else SOk () ?c)
      (\<lambda>_ d. wrote conn d \<and> strm_store d = strm_store conn \<and> qre_started (ctx_qre d) \<and> ctx_strmq d = ctx_strmq conn)
      (\<lambda>_ d. wrote conn d)"
    using c q(3) by (simp only: wp_if wp_SOk) simp
  show ?thesis
    unfolding vmsg_start_def dwnx_qre_has_started_def Let_def q(1) res.case if_not_P [OF False] wp_sbind
    by (rule wp_mono [OF start]) (use ctrl_frames_after [OF cb] fuel in auto)
qed

text \<open>A message that may be written: a stream that is open for writing, and data whose length is a varint.\<close>

definition vmsg_ok :: "('a, 'u) dwnx_conn \<Rightarrow> dwnx_vmsg option \<Rightarrow> bool" where
  "vmsg_ok conn vmsg \<longleftrightarrow>
     (case vmsg of
        None \<Rightarrow> True
      | Some (Vmsg_stream p fl datav) \<Rightarrow>
          (\<exists>s. strm_store conn p = Some s \<and> \<not> strm_has s DWNX_STRM_FLAG_SHUT_WR) \<and>
          length (concat datav) \<le> unat DWNX_MAX_VARINT
      | Some (Vmsg_datagram datav) \<Rightarrow> length (concat datav) \<le> unat DWNX_MAX_VARINT)"

lemma write_message_sends:
  assumes cb: "app_ok cb" and early: "no_early_credit conn" and m: "vmsg_ok conn (Some m)" and c: "sendable conn c"
  shows "sends fst conn (case m of
            Vmsg_stream p fl datav \<Rightarrow> dwnx_conn_write_stream_frame cb (c, out) p fl datav
          | Vmsg_datagram datav \<Rightarrow> dwnx_conn_write_datagram_frame (c, out) datav) (\<lambda>_ s. sent conn (fst s))"
proof -
  have s: "sent conn c" using c by (simp add: sendable_def)
  note ok = sentD(1,2) [OF s]
  have e: "no_early_credit c" by (rule early_credit_kept [OF wroteD(2) [OF sentD(3) [OF s]] early])
  show ?thesis
  proof (cases m)
    case (Vmsg_stream p fl datav)
    have p: "strm_store c p \<noteq> None" and d: "length (concat datav) \<le> unat DWNX_MAX_VARINT"
      using m c Vmsg_stream by (auto simp: vmsg_ok_def sendable_def)
    show ?thesis
      unfolding Vmsg_stream dwnx_vmsg.case
      by (rule wp_mono [OF write_stream_frame_sends [OF cb ok e p d]]) (use sent_trans [OF s] in auto)
  next
    case (Vmsg_datagram datav)
    have d: "length (concat datav) \<le> unat DWNX_MAX_VARINT" using m Vmsg_datagram by (simp add: vmsg_ok_def)
    show ?thesis
      unfolding Vmsg_datagram dwnx_vmsg.case
      by (rule wp_mono [OF write_datagram_frame_sends [OF ok d]]) (use sent_trans [OF s] in auto)
  qed
qed

lemma idle_ts_wrote:
  assumes "wrote conn c" and "last_ts conn = t"
  shows "wrote conn (c\<lparr>idle_ts := t\<rparr>)"
proof -
  have "last_ts c = t" using assms by (simp add: wrote_def rx_kept_def)
  then have "conn_ok (c\<lparr>idle_ts := t\<rparr>)" using wroteD(1) [OF assms(1)] by (simp add: conn_ok_def time_ok_def)
  moreover have "rx_kept c (c\<lparr>idle_ts := t\<rparr>)" by (simp add: rx_kept_def)
  ultimately show ?thesis using assms(1) rx_kept_trans by (auto simp: wrote_def)
qed

lemma finish_record_wrote:
  assumes c: "sent conn c" and t: "last_ts conn = t"
  shows "wrote_all conn (case dwnx_qre_final (ctx_qre c) of
             Ok (nwrite, q) \<Rightarrow>
               let conn = c\<lparr>ctx_qre := q\<rparr>
               in if nwrite = 0 then SOk 0 (conn, out) else SOk nwrite (conn\<lparr>idle_ts := t\<rparr>, out)
           | _ \<Rightarrow> SAbort)"
proof -
  have "qre_inv (ctx_qre c)" using conn_okD(8) [OF sentD(1) [OF c]] sentD(2) [OF c] by (simp add: out_ok_def)
  then obtain n q where q: "dwnx_qre_final (ctx_qre c) = Ok (n, q)" "\<not> qre_started q"
    using qre_final_spec by blast
  have w: "wrote conn (c\<lparr>ctx_qre := q\<rparr>)"
    by (rule wrote_trans [OF sentD(3) [OF c] qre_replaced [OF sentD(1) [OF c]]]) (use q(2) in simp)
  then show ?thesis using q(1) idle_ts_wrote [OF w t] by (simp add: Let_def)
qed

lemma write_vmsg_wrote:
  assumes cb: "quiet_app cb" and conn: "conn_ok conn" and early: "no_early_credit conn" and m: "vmsg_ok conn vmsg"
    and t: "last_ts conn = t" and fuel: "length (pq_q (ctx_strmq conn)) < fuel"
  shows "wrote_all conn (dwnx_conn_write_vmsg fuel cb (conn, out) destlen vmsg t)"
proof (cases "destlen \<le> DWNX_QRE_RECORDLEN_SIZE")
  case True
  then show ?thesis using wrote_refl [OF conn] by (simp add: dwnx_conn_write_vmsg_def)
next
  case False
  then have dest: "2 \<le> destlen" by (simp add: DWNX_QRE_RECORDLEN_SIZE_def)
  note app = quiet_appD [OF cb]
  have finish: "wrote_all conn (sbind (with_out n (allow_nobuf (dwnx_conn_write_max_streams cb c))) (\<lambda>_ (conn, out).
           case dwnx_qre_final (ctx_qre conn) of
             Ok (nwrite, q) \<Rightarrow>
               let conn = conn\<lparr>ctx_qre := q\<rparr>
               in if nwrite = 0 then SOk 0 (conn, out) else SOk nwrite (conn\<lparr>idle_ts := t\<rparr>, out)
           | _ \<Rightarrow> SAbort))" if c: "sent conn c" for c n
    unfolding wp_sbind wp_with_out wp_allow_nobuf prod.case
    by (rule wp_mono [OF write_max_streams_sends [OF app sentD(1,2) [OF c]]])
      (use finish_record_wrote [OF sent_trans [OF c] t] in \<open>auto dest: sent_aliveD(1)\<close>)
  have body: "sends fst conn (if \<not> nobuf then
                    (case vmsg of
                       None \<Rightarrow> SOk () (c, n)
                     | Some m \<Rightarrow>
                         sbind (allow_nobuf (case m of
                                   Vmsg_stream p fl datav \<Rightarrow> dwnx_conn_write_stream_frame cb (c, n) p fl datav
                                 | Vmsg_datagram datav \<Rightarrow> dwnx_conn_write_datagram_frame (c, n) datav)) (\<lambda>nobuf (conn, out).
                         if \<not> nobuf \<and> dwnx_qre_left (ctx_qre conn) \<noteq> 0 then SErr ERR_WRITE_MORE (conn, out)
                         else SOk () (conn, out)))
                  else SOk () (c, n)) (\<lambda>_ s. sent conn (fst s))" if c: "sendable conn c" for c n nobuf
  proof -
    have s: "sent conn c" using c by (simp add: sendable_def)
    show ?thesis
    proof (cases vmsg)
      case None
      then show ?thesis using s by simp
    next
      case (Some m')
      have "sends fst conn (sbind (allow_nobuf (case m' of
                                   Vmsg_stream p fl datav \<Rightarrow> dwnx_conn_write_stream_frame cb (c, n) p fl datav
                                 | Vmsg_datagram datav \<Rightarrow> dwnx_conn_write_datagram_frame (c, n) datav)) (\<lambda>nobuf (conn, out).
                         if \<not> nobuf \<and> dwnx_qre_left (ctx_qre conn) \<noteq> 0 then SErr ERR_WRITE_MORE (conn, out)
                         else SOk () (conn, out))) (\<lambda>_ s. sent conn (fst s))"
        unfolding wp_sbind wp_allow_nobuf
        by (rule wp_mono [OF write_message_sends [OF app early _ c]]) (use m Some in \<open>auto simp: wp_if split: prod.split\<close>)
      then show ?thesis using Some s by simp
    qed
  qed
  show ?thesis
    unfolding dwnx_conn_write_vmsg_def Let_def prod.case if_not_P [OF False] wp_sbind wp_with_out
  proof (rule wp_mono [OF vmsg_start_sends [OF cb conn dest fuel]], goal_cases)
    case (1 nobuf c)
    show ?case
      by (rule wp_mono [OF body [OF 1, unfolded wp_sbind]])
        (use finish [unfolded wp_sbind wp_with_out Let_def] in \<open>auto dest: sentD(3) split: prod.split\<close>)
  qed simp
qed

section \<open>The functions of the library\<close>

text \<open>What they return: the invariants hold at the new time, unless the error is fatal.\<close>

abbreviation written_ok :: "dwnx_tstamp \<Rightarrow> ('a, 'u, 'r) out_res \<Rightarrow> bool" where
  "written_ok t r \<equiv> wp r (\<lambda>_ s. read_ok t (fst s)) (\<lambda>e s. dwnx_err_is_fatal (liberr_code e) \<or> read_ok t (fst s))"

lemma wrote_all_ok:
  assumes r: "wrote_all conn r" and conn: "read_ok t conn"
  shows "written_ok t r"
proof -
  have "read_ok t c" if c: "wrote conn c" for c
    using wroteD(1) [OF c] reader_ok_wrote [OF _ c] c conn by (auto simp: read_ok_def wrote_def rx_kept_def)
  then show ?thesis by (intro wp_mono [OF r]) auto
qed

lemma vec_len_varint_Some:
  "dwnx_vec_len_varint vs = Some n \<Longrightarrow> length (concat vs) \<le> unat DWNX_MAX_VARINT \<and> n = dwnx_vec_len vs"
  by (simp add: dwnx_vec_len_varint_eq split: if_splits)

lemma timestamp_ok:
  assumes "conn_ok conn" and "reader_ok conn" and "last_ts conn \<le> t"
  shows "read_ok t (conn\<lparr>last_ts := t\<rparr>)" "conn_update_timestamp conn t = SOk () (conn\<lparr>last_ts := t\<rparr>)"
  using last_ts_ok [OF assms(1,3)] assms(2,3) by (simp_all add: read_ok_def conn_update_timestamp_def)

lemma writev_stream_wp:
  assumes cb: "quiet_app cb" and conn: "conn_ok conn" "reader_ok conn" and t: "last_ts conn \<le> t"
    and fuel: "length (pq_q (ctx_strmq conn)) < fuel"
  shows "written_ok t (dwnx_conn_writev_stream fuel cb conn destlen fl sid datav t)"
proof -
  let ?c = "conn\<lparr>last_ts := t\<rparr>"
  note time = timestamp_ok [OF conn t]
  have ok: "conn_ok ?c" "no_early_credit ?c" "last_ts ?c = t" using time(1) read_okD(10) [OF time(1)] by (simp_all add: read_ok_def)
  have fuel': "length (pq_q (ctx_strmq ?c)) < fuel" using fuel by simp
  have vmsg: "written_ok t (dwnx_conn_write_vmsg fuel cb (?c, out) destlen m t)" if "vmsg_ok ?c m" for m out
    by (rule wrote_all_ok [OF write_vmsg_wrote [OF cb ok(1,2) that ok(3) fuel'] time(1)])
  have none: "written_ok t (dwnx_conn_write_vmsg fuel cb (?c, out) destlen None t)" for out
    by (rule vmsg) (simp add: vmsg_ok_def)
  note find = find_stream_wp [OF conn_okD(1) [OF ok(1)], of sid]
  show ?thesis
  proof (cases "sid = -1 \<or> map_abs (strms ?c) (u64_of_i64 sid) = None")
    case True
    then show ?thesis
      using none time find by (auto simp: dwnx_conn_writev_stream_def with_out_def)
  next
    case False
    then obtain p where p: "map_abs (strms ?c) (u64_of_i64 sid) = Some p" by blast
    obtain s where s: "strm_store ?c p = Some s" using strms_ok_alive [OF conn_okD(1) [OF ok(1)] p] by blast
    have "written_ok t (dwnx_conn_write_vmsg fuel cb (?c, out) destlen (Some (Vmsg_stream p fl datav)) t)"
      if "\<not> strm_has s DWNX_STRM_FLAG_SHUT_WR" "dwnx_vec_len_varint datav = Some n" for n out
      using vec_len_varint_Some [OF that(2)] that(1) s by (intro vmsg) (simp add: vmsg_ok_def)
    then show ?thesis
      using False none time find p s
      by (simp add: dwnx_conn_writev_stream_def with_out_def split: option.split)
  qed
qed

lemma writev_datagram_wp:
  assumes cb: "quiet_app cb" and conn: "conn_ok conn" "reader_ok conn" and t: "last_ts conn \<le> t"
    and fuel: "length (pq_q (ctx_strmq conn)) < fuel"
  shows "written_ok t (dwnx_conn_writev_datagram fuel cb conn destlen datav t)"
proof -
  let ?c = "conn\<lparr>last_ts := t\<rparr>"
  note time = timestamp_ok [OF conn t]
  have ok: "conn_ok ?c" "no_early_credit ?c" "last_ts ?c = t" using time(1) read_okD(10) [OF time(1)] by (simp_all add: read_ok_def)
  have fuel': "length (pq_q (ctx_strmq ?c)) < fuel" using fuel by simp
  have vmsg: "written_ok t (dwnx_conn_write_vmsg fuel cb (?c, out) destlen (Some (Vmsg_datagram datav)) t)"
    if "dwnx_vec_len_varint datav = Some n" for n out
    by (rule wrote_all_ok [OF write_vmsg_wrote [OF cb ok(1,2) _ ok(3) fuel'] time(1)])
      (use vec_len_varint_Some [OF that] in \<open>simp add: vmsg_ok_def\<close>)
  have "\<exists>k. dwnx_frame_datagram_framelen (unat n) = Ok k" if "dwnx_vec_len_varint datav = Some n" for n
  proof -
    have "n \<le> DWNX_MAX_VARINT"
      using vec_len_varint_Some [OF that] by (simp add: dwnx_vec_len_concat word_le_nat_alt unat_of_nat DWNX_MAX_VARINT_def)
    then show ?thesis by (simp add: dwnx_frame_datagram_framelen_def)
  qed
  then show ?thesis
    using vmsg time by (auto simp: dwnx_conn_writev_datagram_def with_out_def wp_if split: option.split res.split)
qed

end
