(* ===== verification/ConnApi.thy ===== *)
theory ConnApi
  imports ConnRead ConnWrite
begin

text \<open>
  \<open>lib/dwnx_conn.c\<close>, last part: timers, closing the connection, the transport parameters of 0-RTT,
  discarding the state of rejected early data, and the reasons for closing (\<open>dwnx_ccerr\<close>).
\<close>

section \<open>Queries and timers\<close>

definition dwnx_conn_is_local_stream :: "('a, 'u) dwnx_conn \<Rightarrow> i64 \<Rightarrow> bool" where
  "dwnx_conn_is_local_stream conn sid = conn_local_stream conn sid"

definition dwnx_conn_is_server :: "('a, 'u) dwnx_conn \<Rightarrow> bool" where
  "dwnx_conn_is_server conn = server conn"

definition dwnx_is_bidi_stream :: "i64 \<Rightarrow> bool" where
  "dwnx_is_bidi_stream sid = bidi_stream sid"

definition dwnx_conn_get_timestamp :: "('a, 'u) dwnx_conn \<Rightarrow> dwnx_tstamp" where
  "dwnx_conn_get_timestamp conn = last_ts conn"

definition dwnx_conn_get_max_data_left :: "('a, 'u) dwnx_conn \<Rightarrow> u64" where
  "dwnx_conn_get_max_data_left conn = ctx_max_offset conn - ctx_offset conn"

definition dwnx_conn_get_local_transport_params :: "('a, 'u) dwnx_conn \<Rightarrow> dwnx_transport_params" where
  "dwnx_conn_get_local_transport_params conn = local_params conn"

definition dwnx_conn_get_idle_expiry :: "('a, 'u) dwnx_conn \<Rightarrow> dwnx_tstamp" where
  "dwnx_conn_get_idle_expiry conn =
     (let l = max_idle_timeout (local_params conn); r = max_idle_timeout (remote_params conn);
          timeout = (if r = 0 \<or> (l \<noteq> 0 \<and> l < r) then l else r)
      in if timeout = 0 \<or> idle_ts conn > UINT64_MAX - timeout then UINT64_MAX else idle_ts conn + timeout)"

definition dwnx_conn_get_expiry :: "('a, 'u) dwnx_conn \<Rightarrow> dwnx_tstamp" where
  "dwnx_conn_get_expiry conn = dwnx_conn_get_idle_expiry conn"

definition dwnx_conn_handle_expiry :: "('a, 'u) dwnx_conn \<Rightarrow> dwnx_tstamp \<Rightarrow> ('a, 'u, unit) conn_res" where
  "dwnx_conn_handle_expiry conn t =
     sbind (conn_update_timestamp conn t) (\<lambda>_ conn.
     if dwnx_conn_get_idle_expiry conn \<le> t then SErr ERR_IDLE_CLOSE conn else SOk () conn)"

section \<open>Reasons for closing\<close>

datatype dwnx_ccerr_type = CCERR_TYPE_TRANSPORT | CCERR_TYPE_APPLICATION | CCERR_TYPE_IDLE_CLOSE

record dwnx_ccerr =
  ccerr_type :: dwnx_ccerr_type
  ccerr_error_code :: u64
  ccerr_frame_type :: u64
  ccerr_reason :: bytes

definition ccerr_init :: "dwnx_ccerr_type \<Rightarrow> u64 \<Rightarrow> bytes \<Rightarrow> dwnx_ccerr" where
  "ccerr_init ty error_code reason =
     \<lparr>ccerr_type = ty, ccerr_error_code = error_code, ccerr_frame_type = 0, ccerr_reason = reason\<rparr>"

definition dwnx_ccerr_default :: dwnx_ccerr where
  "dwnx_ccerr_default = ccerr_init CCERR_TYPE_TRANSPORT DWNX_NO_ERROR []"

definition dwnx_ccerr_set_transport_error :: "u64 \<Rightarrow> bytes \<Rightarrow> dwnx_ccerr" where
  "dwnx_ccerr_set_transport_error error_code reason = ccerr_init CCERR_TYPE_TRANSPORT error_code reason"

definition dwnx_ccerr_set_liberr :: "int \<Rightarrow> bytes \<Rightarrow> dwnx_ccerr" where
  "dwnx_ccerr_set_liberr liberr reason =
     (if liberr = liberr_code ERR_IDLE_CLOSE then ccerr_init CCERR_TYPE_IDLE_CLOSE DWNX_NO_ERROR reason
      else dwnx_ccerr_set_transport_error (dwnx_err_infer_quic_transport_error_code liberr) reason)"

definition dwnx_ccerr_set_application_error :: "u64 \<Rightarrow> bytes \<Rightarrow> dwnx_ccerr" where
  "dwnx_ccerr_set_application_error error_code reason = ccerr_init CCERR_TYPE_APPLICATION error_code reason"

text \<open>The frame is written to a record of its own; the result is its length and its bytes.\<close>

definition dwnx_conn_write_connection_close ::
    "('a, 'u) dwnx_conn \<Rightarrow> nat \<Rightarrow> dwnx_ccerr \<Rightarrow> dwnx_tstamp \<Rightarrow> ('a, 'u, nat \<times> bytes) conn_res" where
  "dwnx_conn_write_connection_close conn destlen ccerr t =
     sbind (conn_update_timestamp conn t) (\<lambda>_ conn.
     if rr_state (rcrd conn) = READ_STATE_DRAINING \<or> rr_state (rcrd conn) = READ_STATE_CLOSING then SOk (0, []) conn
     else if destlen \<le> DWNX_QRE_RECORDLEN_SIZE then SErr ERR_NOBUF conn
     else if ccerr_type ccerr = CCERR_TYPE_IDLE_CLOSE then SOk (0, []) conn
     else
       let fr = \<lparr>cc_type = (if ccerr_type ccerr = CCERR_TYPE_TRANSPORT then DWNX_FRAME_CONNECTION_CLOSE
                            else DWNX_FRAME_CONNECTION_CLOSE_APP),
                 cc_error_code = ccerr_error_code ccerr,
                 cc_frame_type = (if ccerr_type ccerr = CCERR_TYPE_TRANSPORT then ccerr_frame_type ccerr else 0),
                 cc_reasonlen = length (ccerr_reason ccerr), cc_reason = ccerr_reason ccerr\<rparr>
       in case bindr (dwnx_qre_start dwnx_qre_init destlen) (\<lambda>qre. dwnx_qre_encode_frame qre (Fr_connection_close fr)) of
            Abort \<Rightarrow> SAbort
          | Err e \<Rightarrow> SErr e conn
          | Ok qre \<Rightarrow>
              (case dwnx_qre_final qre of
                 Ok (nwrite, qre) \<Rightarrow>
                   sassert (nwrite \<noteq> 0)
                     (SOk (nwrite, buf_data (qre_buf qre)) (set_state READ_STATE_CLOSING conn))
               | _ \<Rightarrow> SAbort))"

section \<open>0-RTT\<close>

text \<open>The parameters that a session remembers; all others have their default values.\<close>

definition params_0rtt :: "dwnx_transport_params \<Rightarrow> dwnx_transport_params" where
  "params_0rtt src =
     dwnx_transport_params_default
       \<lparr>initial_max_streams_bidi := initial_max_streams_bidi src,
        initial_max_streams_uni := initial_max_streams_uni src,
        initial_max_stream_data_bidi_local := initial_max_stream_data_bidi_local src,
        initial_max_stream_data_bidi_remote := initial_max_stream_data_bidi_remote src,
        initial_max_stream_data_uni := initial_max_stream_data_uni src,
        initial_max_data := initial_max_data src,
        max_datagram_frame_size := max_datagram_frame_size src\<rparr>"

definition dwnx_conn_encode_0rtt_transport_params ::
    "('a, 'u) dwnx_conn \<Rightarrow> nat option \<Rightarrow> (nat \<times> bytes) res" where
  "dwnx_conn_encode_0rtt_transport_params conn dest =
     (let src = (if server conn then local_params conn else remote_params conn);
          params = params_0rtt src;
          params = (if server conn then params\<lparr>max_idle_timeout := max_idle_timeout src\<rparr> else params)
      in dwnx_transport_params_encode dest params)"

definition dwnx_conn_set_0rtt_remote_transport_params ::
    "('a, 'u) dwnx_conn \<Rightarrow> dwnx_transport_params \<Rightarrow> ('a, 'u, unit) conn_res" where
  "dwnx_conn_set_0rtt_remote_transport_params conn params =
     sassert (\<not> server conn)
       (let p = params_0rtt params
        in SOk () (conn_set CONN_FLAG_EARLY_TRANSPORT_PARAMS_SET
                     (conn\<lparr>remote_params := p, ctx_bidi_max_streams := initial_max_streams_bidi p,
                           ctx_uni_max_streams := initial_max_streams_uni p, ctx_max_offset := initial_max_data p\<rparr>)))"

definition dwnx_conn_decode_and_set_0rtt_transport_params ::
    "('a, 'u) dwnx_conn \<Rightarrow> bytes \<Rightarrow> ('a, 'u, unit) conn_res" where
  "dwnx_conn_decode_and_set_0rtt_transport_params conn data =
     sassert (\<not> server conn)
       (sbind (sres_of (dwnx_transport_params_decode data) conn) (\<lambda>params conn.
        dwnx_conn_set_0rtt_remote_transport_params conn params))"

definition delete_strm_tx_strmq :: "('a, 'u) dwnx_conn \<Rightarrow> strm_ptr \<Rightarrow> ('a, 'u, unit) conn_res" where
  "delete_strm_tx_strmq conn p =
     with_strm conn p (\<lambda>strm.
     sbind (if dwnx_strm_is_tx_queued strm then conn_strmq_remove conn p else SOk () conn) (\<lambda>_ conn.
     SOk () (conn\<lparr>strm_store := (strm_store conn)(p := None)\<rparr>)))"

definition dwnx_conn_discard_early_data_state :: "('a, 'u) dwnx_conn \<Rightarrow> ('a, 'u, unit) conn_res" where
  "dwnx_conn_discard_early_data_state conn =
     sassert (\<not> server conn)
       (let conn = conn\<lparr>conn_flags := conn_flags conn AND
                          NOT (CONN_FLAG_EARLY_TRANSPORT_PARAMS_SET OR CONN_FLAG_QX_TRANSPORT_PARAMETERS_SENT),
                        remote_params := dwnx_transport_params_default\<rparr>
        in sbind (each_strm conn delete_strm_tx_strmq) (\<lambda>_ conn.
           let params = local_params conn
           in SOk () (conn\<lparr>strms := dwnx_map_clear (strms conn),
                           ctx_bidi_max_streams := 0, ctx_uni_max_streams := 0,
                           ctx_offset := 0, ctx_max_offset := 0, ctx_last_blocked_offset := UINT64_MAX,
                           crx_unsent_max_offset := initial_max_data params,
                           crx_max_offset := initial_max_data params,
                           crx_bidi_unsent_max_streams := initial_max_streams_bidi params,
                           crx_bidi_max_streams := initial_max_streams_bidi params,
                           crx_uni_unsent_max_streams := initial_max_streams_uni params,
                           crx_uni_max_streams := initial_max_streams_uni params,
                           ctx_bidi_next_stream_id := 0, ctx_uni_next_stream_id := 2\<rparr>)))"

definition dwnx_conn_tls_early_data_rejected :: "('a, 'u) dwnx_conn \<Rightarrow> ('a, 'u, unit) conn_res" where
  "dwnx_conn_tls_early_data_rejected conn =
     sassert (\<not> server conn)
       (if conn_has conn CONN_FLAG_EARLY_DATA_REJECTED then SOk () conn
        else dwnx_conn_discard_early_data_state (conn_set CONN_FLAG_EARLY_DATA_REJECTED conn))"

end
