(* ===== verification/ConnRun.thy ===== *)
theory ConnRun
  imports ConnRecord ConnApi
begin

text \<open>
  The rest of the functions of the library (timers, closing, 0-RTT), and the connection over time: the
  connections that can be reached from a new one by any sequence of reads, writes, calls of the
  application and timers all satisfy the invariant.
\<close>

section \<open>Timers and closing\<close>

lemma handle_expiry_wp:
  assumes conn: "conn_ok conn" "reader_ok conn" and t: "last_ts conn \<le> t"
  shows "wp (dwnx_conn_handle_expiry conn t) (\<lambda>_. read_ok t) (\<lambda>e c. e = ERR_IDLE_CLOSE \<and> read_ok t c)"
  using timestamp_ok [OF conn t] by (simp add: dwnx_conn_handle_expiry_def wp_if)

lemma end_state_ok:
  assumes conn: "read_ok t conn" and st: "end_state st"
  shows "read_ok t (set_state st conn)"
proof -
  have n: "params_pending (set_state st conn) \<Longrightarrow> params_pending conn"
    using st by (auto simp: params_pending_def)
  have "conn_ok (set_state st conn)"
    unfolding upd_rcrd_eq by (rule conn_ok_reader [OF read_okD(1) [OF conn]]) (use n in \<open>simp add: upd_rcrd_def\<close>)
  moreover have "no_early_credit (set_state st conn)"
    by (rule early_credit_upd [OF read_okD(10) [OF conn]]) (use st in auto)
  moreover have "frame_fits st fr" for fr using st by auto
  ultimately show ?thesis
    using conn st by (auto simp: read_ok_def reader_ok_def Let_def upd_rcrd_def)
qed

definition ccerr_ok :: "dwnx_ccerr \<Rightarrow> bool" where
  "ccerr_ok ccerr \<longleftrightarrow> ccerr_error_code ccerr \<le> DWNX_MAX_VARINT \<and> ccerr_frame_type ccerr \<le> DWNX_MAX_VARINT \<and>
     length (ccerr_reason ccerr) < 2 ^ 62"

text \<open>The frame that \<open>dwnx_conn_write_connection_close\<close> writes.\<close>

definition close_frame :: "dwnx_ccerr \<Rightarrow> dwnx_frame" where
  "close_frame ccerr =
     Fr_connection_close
       \<lparr>cc_type = (if ccerr_type ccerr = CCERR_TYPE_TRANSPORT then DWNX_FRAME_CONNECTION_CLOSE
                   else DWNX_FRAME_CONNECTION_CLOSE_APP),
        cc_error_code = ccerr_error_code ccerr,
        cc_frame_type = (if ccerr_type ccerr = CCERR_TYPE_TRANSPORT then ccerr_frame_type ccerr else 0),
        cc_reasonlen = length (ccerr_reason ccerr), cc_reason = ccerr_reason ccerr\<rparr>"

lemma close_frame_valid: "ccerr_ok ccerr \<Longrightarrow> frame_valid (close_frame ccerr)"
  by (simp add: close_frame_def ccerr_ok_def frame_valid_def connection_close_valid_def type_byte_def)

lemma close_frame_nonempty [simp]: "frame_wire (close_frame ccerr) \<noteq> []"
  by (simp add: close_frame_def frame_wire_def connection_close_wire_def)

lemma close_record:
  assumes cc: "ccerr_ok ccerr" and dest: "\<not> destlen \<le> DWNX_QRE_RECORDLEN_SIZE"
  shows "bindr (dwnx_qre_start dwnx_qre_init destlen) (\<lambda>qre. dwnx_qre_encode_frame qre (close_frame ccerr)) = Err ERR_NOBUF \<or>
    (\<exists>q q'. bindr (dwnx_qre_start dwnx_qre_init destlen) (\<lambda>qre. dwnx_qre_encode_frame qre (close_frame ccerr)) = Ok q \<and>
       dwnx_qre_final q = Ok (2 + length (frame_wire (close_frame ccerr)), q') \<and>
       dwnx_get_uvarint (buf_data (qre_buf q')) =
         Ok (of_nat (length (frame_wire (close_frame ccerr))), frame_wire (close_frame ccerr)))"
proof -
  have d: "2 \<le> destlen" using dest by (simp add: DWNX_QRE_RECORDLEN_SIZE_def)
  obtain q where q: "dwnx_qre_start dwnx_qre_init destlen = Ok q" "qre_inv q" "qre_payload q = []"
    using qre_start_spec [OF d, of dwnx_qre_init] by blast
  note v = close_frame_valid [OF cc]
  let ?q = "q\<lparr>qre_buf := buf_append (qre_buf q) (frame_wire (close_frame ccerr))\<rparr>"
  have p: "qre_payload ?q = frame_wire (close_frame ccerr)" using qre_append_payload [OF q(2)] q(3) by simp
  show ?thesis
  proof (cases "dwnx_qre_left q < length (frame_wire (close_frame ccerr))")
    case True
    then show ?thesis using q(1) qre_encode_frame_spec [OF q(2) v] by simp
  next
    case False
    then have "qre_inv ?q" by (intro qre_append_inv [OF q(2)]) simp
    from qre_final_spec [OF this] show ?thesis
      using False q(1) qre_encode_frame_spec [OF q(2) v] p by auto
  qed
qed

lemma write_close_wp:
  assumes conn: "conn_ok conn" "reader_ok conn" and t: "last_ts conn \<le> t" and cc: "ccerr_ok ccerr"
  shows "wp (dwnx_conn_write_connection_close conn destlen ccerr t) (\<lambda>_. read_ok t) (\<lambda>e c. e = ERR_NOBUF \<and> read_ok t c)"
proof -
  note time = timestamp_ok [OF conn t]
  have st: "read_ok t (set_state READ_STATE_CLOSING (conn\<lparr>last_ts := t\<rparr>))" by (rule end_state_ok [OF time(1)]) simp
  show ?thesis
  proof (cases "destlen \<le> DWNX_QRE_RECORDLEN_SIZE")
    case True
    then show ?thesis using time by (simp add: dwnx_conn_write_connection_close_def wp_if)
  next
    case False
    show ?thesis
      using close_record [OF cc False] time st False
      by (auto simp: dwnx_conn_write_connection_close_def wp_if Let_def close_frame_def)
  qed
qed

section \<open>0-RTT\<close>

lemma params_0rtt_valid: "transport_params_valid p \<Longrightarrow> transport_params_valid (params_0rtt p)"
  using transport_params_default_valid by (simp add: transport_params_valid_def params_0rtt_def)

lemma conn_set_early_flags:
  "conn_has (conn_set CONN_FLAG_EARLY_TRANSPORT_PARAMS_SET conn) CONN_FLAG_EARLY_TRANSPORT_PARAMS_SET"
  "conn_has (conn_set CONN_FLAG_EARLY_TRANSPORT_PARAMS_SET conn) CONN_FLAG_QX_TRANSPORT_PARAMETERS_SEEN =
     conn_has conn CONN_FLAG_QX_TRANSPORT_PARAMETERS_SEEN"
  by (simp_all add: conn_has_def conn_set_def bit.conj_disj_distrib2)

text \<open>Remembered parameters are taken before those of this connection arrive, once.\<close>

lemma set_0rtt_ok:
  assumes conn: "read_ok t conn" and client: "\<not> server conn"
    and early: "\<not> conn_has conn CONN_FLAG_QX_TRANSPORT_PARAMETERS_SEEN" "\<not> conn_has conn CONN_FLAG_EARLY_TRANSPORT_PARAMS_SET"
    and p: "transport_params_valid params"
  shows "wp (dwnx_conn_set_0rtt_remote_transport_params conn params) (\<lambda>_. read_ok t) (\<lambda>_ _. False)"
proof -
  let ?p = "params_0rtt params"
  let ?c = "conn\<lparr>remote_params := ?p, ctx_bidi_max_streams := initial_max_streams_bidi ?p,
                 ctx_uni_max_streams := initial_max_streams_uni ?p, ctx_max_offset := initial_max_data ?p\<rparr>"
  let ?d = "conn_set CONN_FLAG_EARLY_TRANSPORT_PARAMS_SET ?c"
  note ok = conn_okD [OF read_okD(1) [OF conn]]
  note pv = params_0rtt_valid [OF p]
  have pending: "params_pending conn" using early(1) by (simp add: params_pending_def)
  have zero: "ctx_offset conn = 0" and local: "\<forall>sid \<in> live_ids (strm_store conn). conn_local_stream conn sid"
    using ok(7) pending early(2) by (auto simp: early_ok_def)
  have l: "conn_local_stream ?d sid = conn_local_stream conn sid" "strm_opened ?d sid = strm_opened conn sid" for sid
    by (simp_all add: conn_local_stream_def strm_opened_def next_local_id_def conn_idtr_def conn_set_def)
  have "flow_ok ?d" using ok(4) zero pv by (simp add: flow_ok_def conn_set_def transport_params_valid_def)
  moreover have "ids_ok ?d" using ok(3) pv l client by (simp add: ids_ok_def) (simp add: conn_set_def transport_params_valid_def)
  moreover have "params_ok ?d" using ok(5) pv by (simp add: params_ok_def conn_set_def)
  moreover have "early_ok ?d"
    using client local conn_set_early_flags(1) [of ?c] l by (simp add: early_ok_def) (simp add: conn_set_def)
  moreover have "strms_ok ?d" "queue_ok ?d" "time_ok ?d" "out_ok ?d"
    using ok by (simp_all add: conn_set_def strms_ok_def queue_but_def time_ok_def out_ok_def)
  ultimately have "conn_ok ?d" by (simp add: conn_ok_def)
  moreover have "reader_ok ?d"
  proof -
    have r: "rcrd ?d = rcrd conn" "vird ?d = vird conn" by (simp_all add: conn_set_def)
    have seen: "conn_has ?d CONN_FLAG_QX_TRANSPORT_PARAMETERS_SEEN = conn_has conn CONN_FLAG_QX_TRANSPORT_PARAMETERS_SEEN"
      using conn_set_early_flags(2) [of ?c] by (simp add: conn_has_def)
    have "stream_ready conn \<Longrightarrow> stream_ready ?d" by (simp add: stream_ready_def receiving_def conn_set_def)
    moreover have "no_early_credit ?d" using conn_set_early_flags(1) [of ?c] by (simp add: no_early_credit_def)
    ultimately show ?thesis
      using conn r seen unfolding read_ok_def reader_ok_def Let_def by (simp only: simp_thms) blast
  qed
  moreover have "last_ts ?d = t" using conn by (simp add: read_ok_def conn_set_def)
  ultimately show ?thesis
    using client by (simp add: dwnx_conn_set_0rtt_remote_transport_params_def Let_def read_ok_def)
qed

lemma decode_0rtt_wp:
  assumes conn: "read_ok t conn" and client: "\<not> server conn"
    and early: "\<not> conn_has conn CONN_FLAG_QX_TRANSPORT_PARAMETERS_SEEN" "\<not> conn_has conn CONN_FLAG_EARLY_TRANSPORT_PARAMS_SET"
  shows "wp (dwnx_conn_decode_and_set_0rtt_transport_params conn data) (\<lambda>_. read_ok t) (\<lambda>_ c. c = conn)"
proof (cases "dwnx_transport_params_decode data")
  case (Ok params)
  have "wp (dwnx_conn_set_0rtt_remote_transport_params conn params) (\<lambda>_. read_ok t) (\<lambda>_ c. c = conn)"
    by (rule wp_mono [OF set_0rtt_ok [OF assms transport_params_decode_safe_aux(2) [OF Ok]]]) simp_all
  then show ?thesis using client Ok by (simp add: dwnx_conn_decode_and_set_0rtt_transport_params_def sres_of_def)
qed (use client transport_params_decode_safe_aux(1) [of data] in
    \<open>simp_all add: dwnx_conn_decode_and_set_0rtt_transport_params_def sres_of_def\<close>)

section \<open>Discarding early data\<close>

text \<open>While the streams are freed one by one the map still has them; the queue is right throughout.\<close>

definition freeing :: "('a, 'u) dwnx_conn \<Rightarrow> strm_ptr set \<Rightarrow> ('a, 'u) dwnx_conn \<Rightarrow> bool" where
  "freeing conn P c \<longleftrightarrow>
     (\<exists>m pq st. c = conn\<lparr>conn_mem := m, ctx_strmq := pq, strm_store := st\<rparr>) \<and> queue_ok c \<and>
     (\<forall>p s. strm_store c p = Some s \<longrightarrow> strm_ok s) \<and> {p. strm_store c p \<noteq> None} = P"

lemma delete_strm_wp:
  assumes c: "freeing conn P c" and p: "p \<in> P"
  shows "wp (delete_strm_tx_strmq c p) (\<lambda>_. freeing conn (P - {p})) (\<lambda>_ _. False)"
proof -
  have "strm_store c p \<noteq> None" using c p by (auto simp: freeing_def)
  then obtain s where s: "strm_store c p = Some s" by blast
  have q: "queue_ok c" and ok: "\<forall>p s. strm_store c p = Some s \<longrightarrow> strm_ok s" and P: "{p. strm_store c p \<noteq> None} = P"
    using c by (simp_all add: freeing_def)
  have win: "set (pq_q (ctx_strmq c)) \<subseteq> cycle_window (strm_store c) 0"
    using q ok by (fastforce simp: queue_but_def cycle_window_def strm_ok_def)
  have freed: "freeing conn (P - {p}) (d\<lparr>strm_store := (strm_store d)(p := None)\<rparr>)"
    if d: "queue_changed c d" "queue_but {p} d" "p \<notin> set (pq_q (ctx_strmq d))" for d
  proof -
    obtain m pq idx where e: "d = c\<lparr>conn_mem := m, ctx_strmq := pq, strm_store := put_index idx (strm_store c)\<rparr>"
      using d(1) by (auto simp: queue_changed_def)
    obtain m' pq' st where c': "c = conn\<lparr>conn_mem := m', ctx_strmq := pq', strm_store := st\<rparr>"
      using c by (auto simp: freeing_def)
    have "d\<lparr>strm_store := (strm_store d)(p := None)\<rparr> =
        conn\<lparr>conn_mem := m, ctx_strmq := pq, strm_store := (put_index idx (strm_store c))(p := None)\<rparr>"
      by (simp add: e c')
    moreover have "strm_ok u" if "((put_index idx (strm_store c))(p := None)) r = Some u" for r u
      using that ok by (auto simp: put_index_Some split: if_splits)
    moreover have "{r. ((put_index idx (strm_store c))(p := None)) r \<noteq> None} = P - {p}"
      using P by (auto simp: put_index_Some)
    ultimately show ?thesis
      using queue_delete [OF d(2,3)] unfolding freeing_def by auto
  qed
  show ?thesis
  proof (cases "dwnx_strm_is_tx_queued s")
    case True
    then have "p \<in> set (pq_q (ctx_strmq c))" using queue_index [OF q s] by simp
    from strmq_remove_wp [OF win q this] show ?thesis
      using s True freed by (auto simp: delete_strm_tx_strmq_def elim!: wp_mono)
  next
    case False
    then have "queue_but {p} c" "p \<notin> set (pq_q (ctx_strmq c))"
      using q queue_index [OF q s] by (auto simp: queue_but_def)
    then show ?thesis using False s freed [OF queue_changed_refl] by (simp add: delete_strm_tx_strmq_def)
  qed
qed

lemma each_strm_loop_frees:
  assumes "distinct is" and "\<forall>i \<in> set is. i < length (slots (strms conn))"
    and inj: "\<forall>i \<in> set is. \<forall>j \<in> set is. slot_psl (slots (strms conn) ! i) \<noteq> 0 \<longrightarrow> slot_psl (slots (strms conn) ! j) \<noteq> 0 \<longrightarrow>
      slot_data (slots (strms conn) ! i) = slot_data (slots (strms conn) ! j) \<longrightarrow> i = j"
    and "freeing conn {slot_data (slots (strms conn) ! i) | i. i \<in> set is \<and> slot_psl (slots (strms conn) ! i) \<noteq> 0} c"
  shows "wp (each_strm_loop is delete_strm_tx_strmq c) (\<lambda>_. freeing conn {}) (\<lambda>_ _. False)"
  using assms
proof (induction "is" arbitrary: c)
  case (Cons i "is")
  let ?P = "\<lambda>is. {slot_data (slots (strms conn) ! i) | i. i \<in> set is \<and> slot_psl (slots (strms conn) ! i) \<noteq> 0}"
  have m: "strms c = strms conn" using Cons.prems(4) by (auto simp: freeing_def)
  have IH: "wp (each_strm_loop is delete_strm_tx_strmq d) (\<lambda>_. freeing conn {}) (\<lambda>_ _. False)"
    if "freeing conn (?P is) d" for d
    using Cons.IH [OF _ _ _ that] Cons.prems(1-3) by simp
  have i: "i < length (slots (strms c))" using Cons.prems(2) m by simp
  show ?case
  proof (cases "slot_psl (slots (strms conn) ! i) = 0")
    case True
    then have "?P (i # is) = ?P is" by auto
    then show ?thesis using IH [of c] Cons.prems(4) True i m by simp
  next
    case False
    let ?p = "slot_data (slots (strms conn) ! i)"
    have "?P (i # is) - {?p} = ?P is" using Cons.prems(1,3) False by auto
    then have "wp (delete_strm_tx_strmq c ?p) (\<lambda>_. freeing conn (?P is)) (\<lambda>_ _. False)"
      using delete_strm_wp [OF Cons.prems(4), of ?p] False by auto
    then have "wp (sbind (delete_strm_tx_strmq c ?p) (\<lambda>_ d. each_strm_loop is delete_strm_tx_strmq d)) (\<lambda>_. freeing conn {}) (\<lambda>_ _. False)"
      unfolding wp_sbind by (rule wp_mono) (use IH in blast)+
    then show ?thesis using False i m by simp
  qed
qed simp

lemma each_strm_frees:
  assumes s: "strms_ok conn" and q: "queue_ok conn"
  shows "wp (each_strm conn delete_strm_tx_strmq) (\<lambda>_. freeing conn {}) (\<lambda>_ _. False)"
proof -
  have inv: "dwnx_map_inv (strms conn)" using s by (simp add: strms_ok_def)
  have all: "freeing conn {p. strm_store conn p \<noteq> None} conn"
  proof -
    have "conn = conn\<lparr>conn_mem := conn_mem conn, ctx_strmq := ctx_strmq conn, strm_store := strm_store conn\<rparr>" by simp
    then show ?thesis using q strms_ok_strm [OF s] unfolding freeing_def by blast
  qed
  have alive: "strm_store conn p \<noteq> None \<longleftrightarrow> (\<exists>k. map_abs (strms conn) k = Some p)" for p
    using s by (auto simp: strms_ok_def strm_key_def)
  show ?thesis
  proof (cases "map_size (strms conn) = 0")
    case True
    then have "{p. strm_store conn p \<noteq> None} = {}" using alive map_abs_empty [OF inv True] by simp
    then show ?thesis using True all by (simp add: each_strm_def)
  next
    case False
    note t = map_inv_table(1) [OF inv False]
    have len: "length (slots (strms conn)) = map_tablelen (strms conn)"
      using t by (simp add: map_table_inv_def map_table_but_def)
    have key: "strm_key (strm_store conn) (slot_data (slots (strms conn) ! i)) = Some (slot_key (slots (strms conn) ! i))"
      if "i < map_tablelen (strms conn)" "slot_psl (slots (strms conn) ! i) \<noteq> 0" for i
      using map_slot_abs [OF inv, of i] that len s by (simp add: strms_ok_def)
    have inj: "i = j" if "i < map_tablelen (strms conn)" "j < map_tablelen (strms conn)"
      "slot_psl (slots (strms conn) ! i) \<noteq> 0" "slot_psl (slots (strms conn) ! j) \<noteq> 0"
      "slot_data (slots (strms conn) ! i) = slot_data (slots (strms conn) ! j)" for i j
    proof -
      have "slot_key (slots (strms conn) ! i) = slot_key (slots (strms conn) ! j)"
        using key [of i] key [of j] that by simp
      then show ?thesis using t that by (auto simp: map_table_inv_def map_table_but_def map_occupied_def)
    qed
    have "{p. strm_store conn p \<noteq> None} =
        {slot_data (slots (strms conn) ! i) | i. i \<in> set [0..<map_tablelen (strms conn)] \<and> slot_psl (slots (strms conn) ! i) \<noteq> 0}"
      unfolding alive map_abs_table [OF t] by (auto simp: map_entries_def entries_but_def map_occupied_def)
    then have "wp (each_strm_loop [0..<map_tablelen (strms conn)] delete_strm_tx_strmq conn) (\<lambda>_. freeing conn {}) (\<lambda>_ _. False)"
      using all inj len by (intro each_strm_loop_frees) auto
    then show ?thesis using False by (simp add: each_strm_def)
  qed
qed

lemma map_clear_empty:
  assumes "dwnx_map_inv m"
  shows "dwnx_map_inv (dwnx_map_clear m)" and "map_abs (dwnx_map_clear m) k = None"
proof -
  have "dwnx_map_inv (dwnx_map_clear m) \<and> map_size (dwnx_map_clear m) = 0"
  proof (cases "map_size m = 0")
    case False
    let ?m = "m\<lparr>slots := map (\<lambda>s. s\<lparr>slot_psl := 0\<rparr>) (slots m), map_size := 0\<rparr>"
    have t: "map_table_inv m" "4 \<le> hashbits m" "hashbits m \<le> DWNX_MAP_MAX_HASHBITS"
      using assms False by (auto simp: dwnx_map_inv_def)
    have len: "length (slots m) = map_tablelen m" using t(1) by (simp add: map_table_inv_def map_table_but_def)
    have tl: "map_tablelen ?m = map_tablelen m" by (simp add: map_tablelen_def)
    have psl: "slot_psl (slots ?m ! i) = 0" if "i < map_tablelen m" for i using that len by simp
    have ring: "slot_psl (ring ?m i) = 0" for i
      using psl [of "i mod map_tablelen m"] by (simp add: ring_def tl)
    have "map_table_inv ?m"
      unfolding map_table_inv_def map_table_but_def using len tl ring psl by (auto simp: map_occupied_def)
    moreover have "map_entries ?m = {}" using psl tl by (auto simp: map_entries_def entries_but_def map_occupied_def)
    moreover have "0 < map_tablelen m - map_tablelen m div 8" by (simp add: map_tablelen_def)
    ultimately show ?thesis using False t by (simp add: dwnx_map_clear_def dwnx_map_inv_def tl)
  qed (use assms in \<open>simp add: dwnx_map_clear_def\<close>)
  then show "dwnx_map_inv (dwnx_map_clear m)" "map_abs (dwnx_map_clear m) k = None"
    using map_abs_empty by blast+
qed

text \<open>A connection that has nothing left but its reader, its timers and its parameters.\<close>

definition fresh_streams :: "('a, 'u) dwnx_conn \<Rightarrow> bool" where
  "fresh_streams conn \<longleftrightarrow>
     strm_store conn = (\<lambda>_. None) \<and> pq_q (ctx_strmq conn) = [] \<and> map_abs (strms conn) = (\<lambda>_. None) \<and>
     ctx_bidi_next_stream_id conn = 0 \<and> ctx_uni_next_stream_id conn = 2 \<and>
     ctx_bidi_max_streams conn = 0 \<and> ctx_uni_max_streams conn = 0 \<and>
     ctx_offset conn = 0 \<and> ctx_max_offset conn = 0 \<and>
     crx_max_offset conn = initial_max_data (local_params conn) \<and>
     crx_unsent_max_offset conn = initial_max_data (local_params conn) \<and>
     \<not> conn_has conn CONN_FLAG_EARLY_TRANSPORT_PARAMS_SET"

lemma discarded_ok:
  assumes conn: "read_ok t conn" and client: "\<not> server conn" and early: "\<not> conn_has conn CONN_FLAG_QX_TRANSPORT_PARAMETERS_SEEN"
    and rx: "crx_offset conn \<le> initial_max_data (local_params conn)"
    and fl: "fl AND CONN_FLAG_QX_TRANSPORT_PARAMETERS_SEEN = 0" "fl AND CONN_FLAG_EARLY_TRANSPORT_PARAMS_SET = 0"
    and c: "freeing (conn\<lparr>conn_flags := fl, remote_params := dwnx_transport_params_default\<rparr>) {} c"
    and d: "d = (let params = local_params c in
       c\<lparr>strms := dwnx_map_clear (strms c), ctx_bidi_max_streams := 0, ctx_uni_max_streams := 0,
         ctx_offset := 0, ctx_max_offset := 0, ctx_last_blocked_offset := UINT64_MAX,
         crx_unsent_max_offset := initial_max_data params, crx_max_offset := initial_max_data params,
         crx_bidi_unsent_max_streams := initial_max_streams_bidi params, crx_bidi_max_streams := initial_max_streams_bidi params,
         crx_uni_unsent_max_streams := initial_max_streams_uni params, crx_uni_max_streams := initial_max_streams_uni params,
         ctx_bidi_next_stream_id := 0, ctx_uni_next_stream_id := 2\<rparr>)"
  shows "read_ok t d" and "fresh_streams d"
proof -
  note ok = conn_okD [OF read_okD(1) [OF conn]]
  have pv: "transport_params_valid (local_params conn)" using ok(5) by (simp add: params_ok_def)
  obtain m pq st where e: "c = conn\<lparr>conn_flags := fl, remote_params := dwnx_transport_params_default, conn_mem := m,
      ctx_strmq := pq, strm_store := st\<rparr>"
    using c by (auto simp: freeing_def)
  note d = d [unfolded Let_def]
  have st: "st = (\<lambda>_. None)" using c by (auto simp: freeing_def e fun_eq_iff)
  have q: "queue_ok c" using c by (simp add: freeing_def)
  then have pq: "pq_q pq = []" using st by (cases "pq_q pq") (auto simp: queue_but_def e)
  have inv: "dwnx_map_inv (strms conn)" using ok(1) by (simp add: strms_ok_def)
  note clear = map_clear_empty [OF inv]
  have has: "\<not> conn_has d CONN_FLAG_QX_TRANSPORT_PARAMETERS_SEEN" "\<not> conn_has d CONN_FLAG_EARLY_TRANSPORT_PARAMS_SET"
    using fl by (simp_all add: d e conn_has_def)
  have live: "live_ids (strm_store d) = {}" by (simp add: d e st live_ids_def)
  have "strms_ok d" using clear by (simp add: strms_ok_def d e st strm_key_def)
  moreover have "queue_ok d" using q by (simp add: queue_but_def d e)
  moreover have "ids_ok d" using ok(3) client live by (simp add: ids_ok_def) (simp add: d e local_id_def)
  moreover have "flow_ok d" using ok(4) pv rx by (simp add: flow_ok_def d e transport_params_valid_def)
  moreover have "params_ok d" using ok(5) transport_params_default_valid by (simp add: params_ok_def d e)
  moreover have "time_ok d" using ok(6) by (simp add: time_ok_def d e)
  moreover have "early_ok d"
    using has live by (simp add: early_ok_def) (simp add: d e dwnx_transport_params_default_def)
  moreover have "out_ok d" using ok(8) by (simp add: out_ok_def d e)
  ultimately have "conn_ok d" by (simp add: conn_ok_def)
  moreover have "reader_ok d"
  proof -
    have r: "rcrd d = rcrd conn" "vird d = vird conn" by (simp_all add: d e)
    have "no_early_credit d" by (simp add: no_early_credit_def d e)
    moreover have "rr_state (rcrd conn) \<noteq> READ_STATE_STREAM_DATA"
      using conn early unfolding read_ok_def reader_ok_def Let_def by auto
    ultimately show ?thesis
      using conn r has early unfolding read_ok_def reader_ok_def Let_def by (simp only: simp_thms) blast
  qed
  moreover have "last_ts d = t" using conn by (simp add: read_ok_def d e)
  ultimately show "read_ok t d" by (simp add: read_ok_def)
  show "fresh_streams d"
    using has(2) clear(2) st pq by (simp add: fresh_streams_def fun_eq_iff) (simp add: d e)
qed

lemma early_data_rejected_wp:
  assumes conn: "read_ok t conn" and client: "\<not> server conn" and early: "\<not> conn_has conn CONN_FLAG_QX_TRANSPORT_PARAMETERS_SEEN"
    and rx: "crx_offset conn \<le> initial_max_data (local_params conn)"
  shows "wp (dwnx_conn_tls_early_data_rejected conn)
    (\<lambda>_ c. read_ok t c \<and> (\<not> conn_has conn CONN_FLAG_EARLY_DATA_REJECTED \<longrightarrow> fresh_streams c)) (\<lambda>_ _. False)"
proof (cases "conn_has conn CONN_FLAG_EARLY_DATA_REJECTED")
  case True
  then show ?thesis using conn client by (simp add: dwnx_conn_tls_early_data_rejected_def)
next
  case False
  let ?fl = "(conn_flags conn OR CONN_FLAG_EARLY_DATA_REJECTED) AND
       NOT (CONN_FLAG_EARLY_TRANSPORT_PARAMS_SET OR CONN_FLAG_QX_TRANSPORT_PARAMETERS_SENT)"
  let ?c = "conn\<lparr>conn_flags := ?fl, remote_params := dwnx_transport_params_default\<rparr>"
  have zero: "conn_flags conn AND 1 = 0" using early by (simp add: conn_has_def)
  have fl: "?fl AND CONN_FLAG_QX_TRANSPORT_PARAMETERS_SEEN = 0" "?fl AND CONN_FLAG_EARLY_TRANSPORT_PARAMS_SET = 0"
    using zero by (simp_all add: and.assoc bit.conj_disj_distrib2)
  have "strms_ok ?c" "queue_ok ?c"
    using conn_okD(1,2) [OF read_okD(1) [OF conn]] by simp_all
  from each_strm_frees [OF this]
  have "wp (each_strm ?c delete_strm_tx_strmq) (\<lambda>_. freeing ?c {}) (\<lambda>_ _. False)" .
  then have "wp (dwnx_conn_discard_early_data_state (conn_set CONN_FLAG_EARLY_DATA_REJECTED conn))
      (\<lambda>_ c. read_ok t c \<and> fresh_streams c) (\<lambda>_ _. False)"
    unfolding dwnx_conn_discard_early_data_state_def
    using client discarded_ok [OF conn client early rx fl] by (auto simp: conn_set_def Let_def elim!: wp_mono)
  then show ?thesis using False client by (auto simp: dwnx_conn_tls_early_data_rejected_def elim!: wp_mono)
qed

section \<open>The connection over time\<close>

text \<open>What a call leaves behind unless it aborts or fails for good.\<close>

definition leaves :: "('s, 'r) sres \<Rightarrow> 's \<Rightarrow> bool" where
  "leaves r s \<longleftrightarrow> (\<exists>x. r = SOk x s) \<or> (\<exists>e. r = SErr e s \<and> \<not> dwnx_err_is_fatal (liberr_code e))"

lemma wp_leaves: "wp r (\<lambda>_. Q) (\<lambda>e s. dwnx_err_is_fatal (liberr_code e) \<or> Q s) \<Longrightarrow> leaves r s \<Longrightarrow> Q s"
  by (auto simp: leaves_def)

text \<open>
  The life of a connection. A read that fails ends it, since the library then allows only closing it;
  a write that fails with an error that is not fatal does not. Time does not run backwards, and the
  loop over the queue is given more rounds than there are streams in the queue.
\<close>

inductive reachable :: "('a, 'u) dwnx_callbacks \<Rightarrow> 'u \<Rightarrow> ('a, 'u) dwnx_conn \<Rightarrow> bool" for cb null where
  reach_new: "dwnx_conn_server_new mem settings params sd ud = Ok conn \<or>
      dwnx_conn_client_new mem settings params sd ud = Ok conn \<Longrightarrow>
    initial_max_stream_data_uni params \<le> DWNX_MAX_VARINT \<Longrightarrow> max_datagram_frame_size params \<le> DWNX_MAX_VARINT \<Longrightarrow>
    reachable cb null conn"
| reach_read: "reachable cb null conn \<Longrightarrow> last_ts conn \<le> t \<Longrightarrow> dwnx_conn_read cb null conn data t = SOk () c \<Longrightarrow>
    reachable cb null c"
| reach_stream: "reachable cb null conn \<Longrightarrow> last_ts conn \<le> t \<Longrightarrow> length (pq_q (ctx_strmq conn)) < fuel \<Longrightarrow>
    leaves (dwnx_conn_writev_stream fuel cb conn destlen fl sid datav t) (c, out) \<Longrightarrow> reachable cb null c"
| reach_datagram: "reachable cb null conn \<Longrightarrow> last_ts conn \<le> t \<Longrightarrow> length (pq_q (ctx_strmq conn)) < fuel \<Longrightarrow>
    leaves (dwnx_conn_writev_datagram fuel cb conn destlen datav t) (c, out) \<Longrightarrow> reachable cb null c"
| reach_app: "reachable cb null conn \<Longrightarrow> app_step conn c \<Longrightarrow> reachable cb null c"
| reach_expiry: "reachable cb null conn \<Longrightarrow> last_ts conn \<le> t \<Longrightarrow> leaves (dwnx_conn_handle_expiry conn t) c \<Longrightarrow>
    reachable cb null c"
| reach_close: "reachable cb null conn \<Longrightarrow> last_ts conn \<le> t \<Longrightarrow> ccerr_ok ccerr \<Longrightarrow>
    leaves (dwnx_conn_write_connection_close conn destlen ccerr t) c \<Longrightarrow> reachable cb null c"
| reach_0rtt: "reachable cb null conn \<Longrightarrow> \<not> server conn \<Longrightarrow>
    \<not> conn_has conn CONN_FLAG_QX_TRANSPORT_PARAMETERS_SEEN \<Longrightarrow> \<not> conn_has conn CONN_FLAG_EARLY_TRANSPORT_PARAMS_SET \<Longrightarrow>
    leaves (dwnx_conn_decode_and_set_0rtt_transport_params conn data) c \<Longrightarrow> reachable cb null c"
| reach_rejected: "reachable cb null conn \<Longrightarrow> \<not> server conn \<Longrightarrow>
    \<not> conn_has conn CONN_FLAG_QX_TRANSPORT_PARAMETERS_SEEN \<Longrightarrow> crx_offset conn \<le> initial_max_data (local_params conn) \<Longrightarrow>
    leaves (dwnx_conn_tls_early_data_rejected conn) c \<Longrightarrow> reachable cb null c"

lemma reader_ok_stays:
  assumes "reader_ok conn" and c: "stays_ok conn c"
  shows "reader_ok c"
  using reader_ok_wrote [OF assms(1) stays_wrote [OF c]] .

lemma read_ok_self: "conn_ok conn \<Longrightarrow> reader_ok conn \<Longrightarrow> read_ok (last_ts conn) conn"
  by (simp add: read_ok_def)

lemma reachable_inv:
  assumes cb: "quiet_app cb" and conn: "reachable cb null conn"
  shows "conn_ok conn \<and> reader_ok conn"
  using conn
proof (induction rule: reachable.induct)
  case (reach_new mem settings params sd ud conn)
  then show ?case using conn_new_ok [OF reach_new] by simp
next
  case (reach_read conn t data c)
  then show ?case using conn_read_wp [OF quiet_appD [OF cb], of conn t null data] by (auto simp: read_ok_def)
next
  case (reach_stream conn t fuel destlen fl sid datav c out)
  then show ?case
    using wp_leaves [OF writev_stream_wp [OF cb], of conn t fuel destlen fl sid datav "(c, out)"] by (auto simp: read_ok_def)
next
  case (reach_datagram conn t fuel destlen datav c out)
  then show ?case
    using wp_leaves [OF writev_datagram_wp [OF cb], of conn t fuel destlen datav "(c, out)"] by (auto simp: read_ok_def)
next
  case (reach_app conn c)
  then have "stays_ok conn c" using app_step_ok by blast
  then show ?case using reach_app reader_ok_stays stays_okD by blast
next
  case (reach_expiry conn t c)
  then show ?case using handle_expiry_wp [of conn t] by (auto simp: leaves_def read_ok_def)
next
  case (reach_close conn t ccerr destlen c)
  then show ?case using write_close_wp [of conn t ccerr destlen] by (auto simp: leaves_def read_ok_def)
next
  case (reach_0rtt conn data c)
  then show ?case using decode_0rtt_wp [OF read_ok_self, of conn data] by (auto simp: leaves_def read_ok_def)
next
  case (reach_rejected conn c)
  then show ?case using early_data_rejected_wp [OF read_ok_self, of conn] by (auto simp: leaves_def read_ok_def)
qed

end
