(* ===== verification/ConnProps.thy ===== *)
theory ConnProps
  imports ConnRun
begin

text \<open>
  The properties of a connection as a whole: what holds of a new one, what every call of the
  application and every read keeps, and that reading never aborts.
\<close>

section \<open>An application for the examples\<close>

text \<open>It returns the credit for every byte of a stream that it receives, and opens a stream once the
  parameters of the peer are known.\<close>

definition credit_app :: "('a, unit) dwnx_callbacks" where
  "credit_app ev =
     (case ev of
        Ev_recv_stream_data fl sid off data ud \<Rightarrow> Some (\<lambda>conn. (0, dwnx_conn_extend_max_offset conn (of_nat (length data))))
      | Ev_recv_transport_params params \<Rightarrow> Some (\<lambda>conn.
          (case dwnx_conn_open_bidi_stream conn () of
             SOk sid conn \<Rightarrow> (0, conn) | SErr e conn \<Rightarrow> (-1, conn) | SAbort \<Rightarrow> (-1, conn)))
      | _ \<Rightarrow> None)"

lemma credit_app_ok: "app_ok credit_app"
proof -
  have "app_steps conn (snd (f conn))" if "credit_app ev = Some f" for ev f and conn :: "('a, unit) dwnx_conn"
  proof (cases ev)
    case (Ev_recv_transport_params params)
    then have f: "f = (\<lambda>conn. case dwnx_conn_open_bidi_stream conn () of
        SOk sid conn \<Rightarrow> (0, conn) | SErr e conn \<Rightarrow> (-1, conn) | SAbort \<Rightarrow> (-1, conn))"
      using that by (simp add: credit_app_def)
    have "app_step conn c" if "dwnx_conn_open_bidi_stream conn () = SOk sid c \<or> dwnx_conn_open_bidi_stream conn () = SErr e c"
      for sid e c
      by (rule app_open_bidi [where ud = "()"]) (use that in \<open>auto simp: returns_def\<close>)
    then show ?thesis
      by (cases "dwnx_conn_open_bidi_stream conn ()") (auto simp: f intro: app_none app_more [OF app_none])
  next
    case (Ev_recv_stream_data fl sid off data ud)
    then show ?thesis using that by (auto simp: credit_app_def intro!: app_more [OF app_none] app_extend_offset)
  qed (use that in \<open>simp_all add: credit_app_def\<close>)
  then show ?thesis by (simp add: app_ok_def)
qed

definition example_params :: dwnx_transport_params where
  "example_params = dwnx_transport_params_default\<lparr>initial_max_data := 1000, initial_max_streams_bidi := 10,
     initial_max_stream_data_bidi_remote := 500, initial_max_stream_data_bidi_local := 500\<rparr>"

definition example_server :: "(unit, unit) dwnx_conn res" where
  "example_server = dwnx_conn_server_new [] dwnx_settings_default example_params 7 ()"

lemma example_server_Ok: "\<exists>conn. example_server = Ok conn"
  by (simp add: example_server_def dwnx_conn_server_new_def conn_new_def example_params_def assertr_def
      dwnx_transport_params_default_def DWNX_MAX_VARINT_def DWNX_MAX_STREAMS_def UINT64_MAX_def DWNX_MILLISECONDS_def
      DWNX_DEFAULT_MAX_RECORD_SIZE_def)

lemma example_params_ok:
  "initial_max_stream_data_uni example_params \<le> DWNX_MAX_VARINT" "max_datagram_frame_size example_params \<le> DWNX_MAX_VARINT"
  by (simp_all add: example_params_def dwnx_transport_params_default_def)

lemma example_server_conn_ok:
  assumes "example_server = Ok conn"
  shows "conn_ok conn" "reader_ok conn" "last_ts conn = 0"
  using conn_new_ok [OF disjI1 [OF assms [unfolded example_server_def]] example_params_ok]
  by (simp_all add: dwnx_settings_default_def)

lemma credit_app_quiet: "quiet_app credit_app"
  using credit_app_ok by (auto simp: quiet_app_def credit_app_def elim: loop_event.elims)

lemma example_server_queue: "example_server = Ok conn \<Longrightarrow> pq_q (ctx_strmq conn) = []"
  by (auto simp: example_server_def dwnx_conn_server_new_def conn_new_def bindr_eq_Ok assertr_def Let_def dwnx_pq_init_def
      split: if_splits prod.splits)

lemma example_server_reachable: "example_server = Ok conn \<Longrightarrow> reachable cb null conn"
  using example_params_ok by (auto simp: example_server_def intro: reach_new)

section \<open>Properties\<close>

text \<open>C3: Reading is total and safe. Whatever bytes arrive, in whatever pieces, and whatever the
  callbacks do within the documented rules, \<open>dwnx_conn_read\<close> never fails an assertion, never
  dereferences a stream that is gone, and returns within as many rounds as there are bytes; when it
  returns 0, the invariant of the connection and of its reader holds again.\<close>

theorem conn_read_safe:
  assumes "app_ok cb" and "conn_ok conn" and "reader_ok conn" and "last_ts conn \<le> t"
  shows "dwnx_conn_read cb null conn data t \<noteq> SAbort \<and>
    (\<forall>c. dwnx_conn_read cb null conn data t = SOk () c \<longrightarrow> conn_ok c \<and> reader_ok c \<and> last_ts c = t)"
  using conn_read_wp [OF assms, of null data] by (auto simp: wp_iff read_ok_def)

theorem conn_read_safe_witness:
  "\<exists>conn. example_server = Ok conn \<and>
     dwnx_conn_read credit_app () conn [0x05, 0x40] 9 \<noteq> SAbort \<and>
     (\<forall>c. dwnx_conn_read credit_app () conn [0x05, 0x40] 9 = SOk () c \<longrightarrow> conn_ok c \<and> reader_ok c \<and> last_ts c = 9)"
proof -
  obtain conn where conn: "example_server = Ok conn" using example_server_Ok ..
  note ok = example_server_conn_ok [OF conn]
  show ?thesis
    using conn conn_read_safe [OF credit_app_ok ok(1,2), of 9 "()" "[0x05, 0x40]"] ok(3) by auto
qed

text \<open>C39: A connection from \<open>dwnx_conn_server_new\<close> or \<open>dwnx_conn_client_new\<close> satisfies the invariant,
  when the two parameters whose range these functions do not check are in range.\<close>

theorem new_conn_ok:
  assumes "dwnx_conn_server_new mem settings params sd ud = Ok conn \<or>
      dwnx_conn_client_new mem settings params sd ud = Ok conn"
    and "initial_max_stream_data_uni params \<le> DWNX_MAX_VARINT"
    and "max_datagram_frame_size params \<le> DWNX_MAX_VARINT"
  shows "conn_ok conn \<and> reader_ok conn \<and> last_ts conn = initial_ts settings"
  using conn_new_ok [OF assms] by simp

theorem new_conn_ok_witness:
  "\<exists>conn :: (unit, unit) dwnx_conn.
     dwnx_conn_server_new [] dwnx_settings_default example_params 7 () = Ok conn \<and>
     conn_ok conn \<and> reader_ok conn \<and> last_ts conn = initial_ts dwnx_settings_default"
proof -
  obtain conn where "example_server = Ok conn" using example_server_Ok ..
  then have new: "dwnx_conn_server_new [] dwnx_settings_default example_params 7 () = Ok conn" by (simp only: example_server_def)
  with new_conn_ok [OF disjI1 [OF new] example_params_ok] show ?thesis by blast
qed

text \<open>C19: Every sequence of calls that an application may make between reads, or from a callback,
  keeps the invariant of the connection and of its reader: extending limits, shutting streams down and
  opening them. The offsets received and sent, the limits in force and the state of every stream as
  the reader sees it stay as they are.\<close>

theorem app_calls_keep:
  assumes "conn_ok conn" and "reader_ok conn" and "app_steps conn c"
  shows "conn_ok c \<and> reader_ok c \<and> kept conn c"
  using app_steps_ok [OF assms(3,1)] reader_ok_stays [OF assms(2)] by (auto simp: stays_ok_def)

theorem app_calls_keep_witness:
  "\<exists>conn. example_server = Ok conn \<and>
     (let c = dwnx_conn_extend_max_offset (dwnx_conn_extend_max_streams_bidi conn 3) 700
      in conn_ok c \<and> reader_ok c \<and> kept conn c)"
proof -
  obtain conn where conn: "example_server = Ok conn" using example_server_Ok ..
  note ok = example_server_conn_ok [OF conn]
  have "app_steps conn (dwnx_conn_extend_max_offset (dwnx_conn_extend_max_streams_bidi conn 3) 700)"
    by (rule app_more [OF app_more [OF app_none app_extend_bidi] app_extend_offset])
  from app_calls_keep [OF ok(1,2) this] show ?thesis using conn by (auto simp: Let_def)
qed









end
