(* ===== verification/ConnCalls.thy ===== *)
theory ConnCalls
  imports ConnProps
begin

text \<open>
  What single calls do, beside keeping the invariant: the CONNECTION_CLOSE record and the states
  after it, the idle timer, the queue after its frames have been written, what 0-RTT remembers and
  what it gives up, and the credit of flow control.
\<close>

section \<open>Examples\<close>

definition example_client :: "(unit, unit) dwnx_conn res" where
  "example_client = dwnx_conn_client_new [] dwnx_settings_default example_params 7 ()"

lemma example_client_Ok: "\<exists>conn. example_client = Ok conn"
  by (simp add: example_client_def dwnx_conn_client_new_def conn_new_def example_params_def assertr_def
      dwnx_transport_params_default_def DWNX_MAX_VARINT_def DWNX_MAX_STREAMS_def UINT64_MAX_def DWNX_MILLISECONDS_def
      DWNX_DEFAULT_MAX_RECORD_SIZE_def)

lemma example_client_reachable: "example_client = Ok conn \<Longrightarrow> reachable cb null conn"
  using example_params_ok by (auto simp: example_client_def intro: reach_new)

lemma example_client_fields:
  "example_client = Ok conn \<Longrightarrow> \<not> server conn \<and> conn_flags conn = 0 \<and> crx_offset conn = 0"
  by (auto simp: example_client_def dwnx_conn_client_new_def conn_new_def bindr_eq_Ok assertr_def Let_def dwnx_pq_init_def
      split: if_splits prod.splits)

lemma example_server_fields:
  "example_server = Ok conn \<Longrightarrow> conn_mem conn = [] \<and> strms conn = dwnx_map_init 7 \<and> server conn \<and>
     ctx_bidi_next_stream_id conn = 1 \<and> rcrd conn = record_reader_zero \<and> conn_next_ptr conn = 1"
  by (auto simp: example_server_def dwnx_conn_server_new_def conn_new_def bindr_eq_Ok assertr_def Let_def dwnx_pq_init_def
      split: if_splits prod.splits)

lemma map_insert_example: "\<exists>mem m. dwnx_map_insert 0 ([], dwnx_map_init 7) 1 (Suc 0) = SOk () (mem, m)"
proof -
  have "case dwnx_map_insert 0 ([], dwnx_map_init 7) 1 (Suc 0) of SOk _ _ \<Rightarrow> True | _ \<Rightarrow> False"
    by code_simp
  then show ?thesis by (auto split: sres.splits)
qed

section \<open>Closing\<close>

lemma close_frame_norm: "frame_norm (close_frame ccerr) = close_frame ccerr"
  by (simp add: close_frame_def connection_close_norm_def)

lemma close_frame_follows: "frame_follows (close_frame ccerr) r"
  by (simp add: close_frame_def)

lemma end_state_read:
  assumes "end_state (rr_state (rcrd conn))" and "last_ts conn \<le> t"
  shows "dwnx_conn_read cb null conn data t =
    SErr (if rr_state (rcrd conn) = READ_STATE_DRAINING then ERR_DRAINING else ERR_CLOSING) (conn\<lparr>last_ts := t\<rparr>)"
  using assms by (auto simp: dwnx_conn_read_def conn_update_timestamp_def conn_read_state_def)

lemma ccerr_default_ok: "ccerr_ok dwnx_ccerr_default"
  by (simp add: ccerr_ok_def dwnx_ccerr_default_def ccerr_init_def)

lemma write_close_example:
  assumes conn: "example_server = Ok conn"
  shows "\<exists>n bs c. dwnx_conn_write_connection_close conn 50 dwnx_ccerr_default 4 = SOk (n, bs) c"
proof -
  have fits: "case bindr (dwnx_qre_start dwnx_qre_init 50) (\<lambda>qre. dwnx_qre_encode_frame qre (close_frame dwnx_ccerr_default)) of
      Ok q \<Rightarrow> True | _ \<Rightarrow> False"
    by code_simp
  note ok = example_server_conn_ok [OF conn]
  have "rr_state (rcrd conn) = READ_STATE_RECORD_SIZE"
    using example_server_fields [OF conn] by (simp add: record_reader_zero_def)
  then have "\<not> (\<exists>c. dwnx_conn_write_connection_close conn 50 dwnx_ccerr_default 4 = SErr ERR_NOBUF c)"
    using fits ok
    by (auto simp: dwnx_conn_write_connection_close_def conn_update_timestamp_def Let_def close_frame_def sassert_def
        DWNX_QRE_RECORDLEN_SIZE_def dwnx_ccerr_default_def ccerr_init_def split: res.splits if_splits prod.splits)
  then show ?thesis
    using write_close_wp [OF ok(1,2) _ ccerr_default_ok, of 4 50] ok(3)
    by (cases "dwnx_conn_write_connection_close conn 50 dwnx_ccerr_default 4") auto
qed

text \<open>C23: \<open>dwnx_conn_write_connection_close\<close> writes one record whose only frame is the CONNECTION_CLOSE
  frame for the given reason: its length as a varint, and a payload that the frame decoder reads back
  as that frame. The connection is closing then.\<close>

theorem connection_close_roundtrip:
  assumes "conn_ok conn" and "ccerr_ok ccerr" and "ccerr_type ccerr \<noteq> CCERR_TYPE_IDLE_CLOSE"
    and "\<not> end_state (rr_state (rcrd conn))"
    and "dwnx_conn_write_connection_close conn destlen ccerr t = SOk (n, bs) c"
  shows "\<exists>payload. dwnx_get_uvarint bs = Ok (of_nat (length payload), payload) \<and> n = 2 + length payload \<and>
    dwnx_frd_decode payload = Ok (close_frame ccerr, length payload) \<and>
    c = set_state READ_STATE_CLOSING (conn\<lparr>last_ts := t\<rparr>)"
proof -
  have dest: "\<not> destlen \<le> DWNX_QRE_RECORDLEN_SIZE"
    using assms(3-5) by (auto simp: dwnx_conn_write_connection_close_def conn_update_timestamp_def sassert_def split: if_splits)
  have fr: "Fr_connection_close
       \<lparr>cc_type = (if ccerr_type ccerr = CCERR_TYPE_TRANSPORT then DWNX_FRAME_CONNECTION_CLOSE
                   else DWNX_FRAME_CONNECTION_CLOSE_APP),
        cc_error_code = ccerr_error_code ccerr,
        cc_frame_type = (if ccerr_type ccerr = CCERR_TYPE_TRANSPORT then ccerr_frame_type ccerr else 0),
        cc_reasonlen = length (ccerr_reason ccerr), cc_reason = ccerr_reason ccerr\<rparr> = close_frame ccerr"
    by (simp add: close_frame_def)
  have dec: "dwnx_frd_decode (frame_wire (close_frame ccerr)) = Ok (close_frame ccerr, length (frame_wire (close_frame ccerr)))"
    using frd_decode_wire [OF close_frame_valid [OF assms(2)] close_frame_follows, of "[]"] by (simp add: close_frame_norm)
  show ?thesis
    using close_record [OF assms(2) dest] assms(3-5) dest dec
    unfolding dwnx_conn_write_connection_close_def Let_def fr
    by (auto simp: conn_update_timestamp_def sassert_def split: if_splits)
qed

theorem connection_close_roundtrip_witness:
  "\<exists>conn n bs c payload. example_server = Ok conn \<and>
     dwnx_conn_write_connection_close conn 50 dwnx_ccerr_default 4 = SOk (n, bs) c \<and>
     dwnx_get_uvarint bs = Ok (of_nat (length payload), payload) \<and> n = 2 + length payload \<and>
     dwnx_frd_decode payload = Ok (close_frame dwnx_ccerr_default, length payload)"
proof -
  obtain conn where conn: "example_server = Ok conn" using example_server_Ok ..
  note ok = example_server_conn_ok [OF conn]
  have "\<exists>n bs c. dwnx_conn_write_connection_close conn 50 dwnx_ccerr_default 4 = SOk (n, bs) c"
    using write_close_example [OF conn] .
  then obtain n bs c where w: "dwnx_conn_write_connection_close conn 50 dwnx_ccerr_default 4 = SOk (n, bs) c" by blast
  have st: "\<not> end_state (rr_state (rcrd conn))"
    using example_server_fields [OF conn] by (simp add: record_reader_zero_def)
  have ty: "ccerr_type dwnx_ccerr_default \<noteq> CCERR_TYPE_IDLE_CLOSE" by (simp add: dwnx_ccerr_default_def ccerr_init_def)
  from connection_close_roundtrip [OF ok(1) ccerr_default_ok ty st w] conn w show ?thesis by blast
qed

text \<open>C24: Closing is final. Once a CONNECTION_CLOSE has been written or received, every read fails with
  the error of that state, a second close writes nothing, and neither changes anything but the time.\<close>

theorem closed_for_good:
  assumes "end_state (rr_state (rcrd conn))" and "last_ts conn \<le> t"
  shows "dwnx_conn_read cb null conn data t =
      SErr (if rr_state (rcrd conn) = READ_STATE_DRAINING then ERR_DRAINING else ERR_CLOSING) (conn\<lparr>last_ts := t\<rparr>) \<and>
    dwnx_conn_write_connection_close conn destlen ccerr t = SOk (0, []) (conn\<lparr>last_ts := t\<rparr>)"
  using assms end_state_read [OF assms]
  by (auto simp: dwnx_conn_write_connection_close_def conn_update_timestamp_def)

theorem closed_for_good_witness:
  "\<exists>conn. example_server = Ok conn \<and>
     (let c = set_state READ_STATE_CLOSING conn
      in dwnx_conn_read credit_app () c [1, 2] 5 = SErr ERR_CLOSING (c\<lparr>last_ts := 5\<rparr>) \<and>
         dwnx_conn_write_connection_close c 50 dwnx_ccerr_default 5 = SOk (0, []) (c\<lparr>last_ts := 5\<rparr>))"
proof -
  obtain conn where conn: "example_server = Ok conn" using example_server_Ok ..
  have "last_ts (set_state READ_STATE_CLOSING conn) \<le> 5"
    using example_server_conn_ok(3) [OF conn] by (simp add: upd_rcrd_def)
  from closed_for_good [OF _ this, of credit_app "()" "[1, 2]" 50 dwnx_ccerr_default] conn show ?thesis
    by (intro exI [of _ conn]) (simp add: Let_def upd_rcrd_def)
qed

section \<open>The idle timer\<close>

text \<open>The smaller of the two timeouts, where 0 is none.\<close>

definition effective_timeout :: "nat \<Rightarrow> nat \<Rightarrow> nat" where
  "effective_timeout l r = (if l = 0 then r else if r = 0 then l else min l r)"

text \<open>C38: The idle timer expires exactly when the smaller of the two timeouts, if there is one, has
  passed since the last whole record was read or written; adding it never wraps around.\<close>

theorem idle_expiry_exact:
  assumes "last_ts conn \<le> t" and "t < UINT64_MAX"
  shows "dwnx_conn_handle_expiry conn t =
    (let l = effective_timeout (unat (max_idle_timeout (local_params conn))) (unat (max_idle_timeout (remote_params conn)))
     in if l \<noteq> 0 \<and> unat (idle_ts conn) + l \<le> unat t then SErr ERR_IDLE_CLOSE (conn\<lparr>last_ts := t\<rparr>)
        else SOk () (conn\<lparr>last_ts := t\<rparr>))"
proof -
  define l where "l = max_idle_timeout (local_params conn)"
  define r where "r = max_idle_timeout (remote_params conn)"
  define m where "m = (if r = 0 \<or> (l \<noteq> 0 \<and> l < r) then l else r)"
  have m: "unat m = effective_timeout (unat l) (unat r)"
    by (auto simp: m_def effective_timeout_def unat_eq_0 word_less_nat_alt min_def)
  have expiry: "dwnx_conn_get_idle_expiry (conn\<lparr>last_ts := t\<rparr>) =
      (if m = 0 \<or> idle_ts conn > UINT64_MAX - m then UINT64_MAX else idle_ts conn + m)"
    by (simp add: dwnx_conn_get_idle_expiry_def Let_def l_def r_def m_def)
  have max: "unat UINT64_MAX = 2 ^ 64 - 1" "unat (UINT64_MAX - m) = 2 ^ 64 - 1 - unat m"
    using unat_u64_le [of m] by (simp_all add: UINT64_MAX_def unat_sub word_le_nat_alt)
  have "(if m = 0 \<or> idle_ts conn > UINT64_MAX - m then UINT64_MAX else idle_ts conn + m) \<le> t \<longleftrightarrow>
      unat m \<noteq> 0 \<and> unat (idle_ts conn) + unat m \<le> unat t"
  proof (cases "m = 0 \<or> idle_ts conn > UINT64_MAX - m")
    case True
    then have "m = 0 \<or> 2 ^ 64 - 1 - unat m < unat (idle_ts conn)" by (simp add: word_less_nat_alt max)
    then show ?thesis
      using assms(2) True unat_u64_le [of t] by (auto simp: word_less_nat_alt word_le_nat_alt max unat_eq_0)
  next
    case False
    then have "unat (idle_ts conn) + unat m < 2 ^ 64"
      using unat_u64_le [of m] by (auto simp: word_less_nat_alt max)
    then have "unat (idle_ts conn + m) = unat (idle_ts conn) + unat m" by (simp add: unat_word_ariths)
    then show ?thesis using False by (simp add: word_le_nat_alt unat_eq_0)
  qed
  then show ?thesis
    using assms(1) m expiry
    by (simp add: dwnx_conn_handle_expiry_def conn_update_timestamp_def Let_def flip: l_def r_def)
qed

theorem idle_expiry_exact_witness:
  "\<exists>conn. example_server = Ok conn \<and>
     (let c = conn\<lparr>remote_params := (remote_params conn)\<lparr>max_idle_timeout := 10\<rparr>\<rparr>
      in dwnx_conn_handle_expiry c 9 = SOk () (c\<lparr>last_ts := 9\<rparr>) \<and>
         dwnx_conn_handle_expiry c 10 = SErr ERR_IDLE_CLOSE (c\<lparr>last_ts := 10\<rparr>))"
proof -
  obtain conn where conn: "example_server = Ok conn" using example_server_Ok ..
  let ?c = "conn\<lparr>remote_params := (remote_params conn)\<lparr>max_idle_timeout := 10\<rparr>\<rparr>"
  have c: "last_ts ?c = 0" "idle_ts ?c = 0" "max_idle_timeout (local_params ?c) = 0"
    using conn by (auto simp: example_server_def dwnx_conn_server_new_def conn_new_def bindr_eq_Ok assertr_def Let_def
        example_params_def dwnx_transport_params_default_def dwnx_settings_default_def split: if_splits prod.splits)
  have "t < UINT64_MAX" if "t = 9 \<or> t = 10" for t using that by (auto simp: UINT64_MAX_def word_less_nat_alt)
  then show ?thesis
    using idle_expiry_exact [of ?c 9] idle_expiry_exact [of ?c 10] c conn
    by (intro exI [of _ conn]) (simp add: Let_def effective_timeout_def)
qed

section \<open>The queue of streams\<close>

lemma write_strmq_empty: "write_strmq fuel cb conn = SOk x c \<Longrightarrow> pq_q (ctx_strmq c) = []"
proof (induction fuel arbitrary: conn)
  case (Suc fuel)
  then show ?case
    by (cases "dwnx_pq_empty (ctx_strmq conn)")
      (auto simp: dwnx_pq_empty_def sbind_eq_SOk split: if_splits)
qed simp



section \<open>0-RTT\<close>

lemma params_0rtt_idem: "params_0rtt (params_0rtt p) = params_0rtt p"
  by (simp add: params_0rtt_def dwnx_transport_params_default_def)

lemma wire_params_0rtt: "params_0rtt (wire_params ((params_0rtt p)\<lparr>max_idle_timeout := i\<rparr>)) = params_0rtt p"
  by (simp add: params_0rtt_def wire_params_def dwnx_transport_params_default_def)

lemma params_0rtt_idle_valid:
  "transport_params_valid p \<Longrightarrow> transport_params_valid ((params_0rtt p)\<lparr>max_idle_timeout := max_idle_timeout p\<rparr>)"
  using transport_params_default_valid by (simp add: transport_params_valid_def params_0rtt_def)

text \<open>C25: What one connection remembers for 0-RTT is what the next one starts from: the parameters that
  \<open>dwnx_conn_encode_0rtt_transport_params\<close> writes on either side are accepted by
  \<open>dwnx_conn_decode_and_set_0rtt_transport_params\<close> of a client, which then has the remembered limits
  on streams and data, and the default values for everything else.\<close>

theorem early_params_roundtrip:
  assumes "conn_ok old" and "\<not> server conn"
  defines "src \<equiv> (if server old then local_params old else remote_params old)"
  shows "\<exists>bs c. dwnx_conn_encode_0rtt_transport_params old (Some (length bs)) = Ok (length bs, bs) \<and>
    dwnx_conn_decode_and_set_0rtt_transport_params conn bs = SOk () c \<and>
    remote_params c = params_0rtt src \<and> ctx_max_offset c = initial_max_data src \<and>
    ctx_bidi_max_streams c = initial_max_streams_bidi src \<and> ctx_uni_max_streams c = initial_max_streams_uni src \<and>
    conn_has c CONN_FLAG_EARLY_TRANSPORT_PARAMS_SET"
proof -
  have v: "transport_params_valid src"
    using conn_okD(5) [OF assms(1)] by (simp add: params_ok_def src_def)
  define p where "p = (if server old then (params_0rtt src)\<lparr>max_idle_timeout := max_idle_timeout src\<rparr> else params_0rtt src)"
  have p: "transport_params_valid p" "params_0rtt (wire_params p) = params_0rtt src"
    using params_0rtt_idle_valid [OF v] params_0rtt_valid [OF v]
      wire_params_0rtt [where p = src and i = "max_idle_timeout src"]
      wire_params_0rtt [where p = src and i = "max_idle_timeout (params_0rtt src)"]
    by (auto simp: p_def)
  have "\<exists>bs. dwnx_transport_params_encode (Some (length bs)) p = Ok (length bs, bs) \<and>
      dwnx_transport_params_decode bs = Ok (wire_params p)"
    using transport_params_encode_valid [OF p(1)] transport_params_decode_bytes [OF p(1)]
    by (intro exI [of _ "transport_params_bytes p"]) (simp add: dwnx_transport_params_encode_def)
  moreover have "dwnx_conn_encode_0rtt_transport_params old dest = dwnx_transport_params_encode dest p" for dest
    by (simp add: dwnx_conn_encode_0rtt_transport_params_def p_def src_def Let_def)
  moreover have "\<exists>c. dwnx_conn_set_0rtt_remote_transport_params conn (wire_params p) = SOk () c \<and>
      remote_params c = params_0rtt src \<and> ctx_max_offset c = initial_max_data src \<and>
      ctx_bidi_max_streams c = initial_max_streams_bidi src \<and> ctx_uni_max_streams c = initial_max_streams_uni src \<and>
      conn_has c CONN_FLAG_EARLY_TRANSPORT_PARAMS_SET"
    unfolding dwnx_conn_set_0rtt_remote_transport_params_def Let_def p(2)
    using assms(2) by (simp add: conn_set_early_flags(1)) (simp add: conn_set_def params_0rtt_def)
  ultimately show ?thesis
    using assms(2) by (force simp: dwnx_conn_decode_and_set_0rtt_transport_params_def sres_of_def)
qed

theorem early_params_roundtrip_witness:
  "\<exists>old conn bs c. example_server = Ok old \<and> example_client = Ok conn \<and>
     dwnx_conn_encode_0rtt_transport_params old (Some (length bs)) = Ok (length bs, bs) \<and>
     dwnx_conn_decode_and_set_0rtt_transport_params conn bs = SOk () c \<and>
     ctx_max_offset c = initial_max_data (local_params old)"
proof -
  obtain old where old: "example_server = Ok old" using example_server_Ok ..
  obtain conn where conn: "example_client = Ok conn" using example_client_Ok ..
  have "server old" "\<not> server conn" using example_server_fields [OF old] example_client_fields [OF conn] by simp_all
  with early_params_roundtrip [OF example_server_conn_ok(1) [OF old], of conn] old conn show ?thesis by force
qed



section \<open>Flow control\<close>



text \<open>The credit an application returns is added exactly, up to the largest number a varint can
  carry, whatever 64-bit number it passes.\<close>

theorem extend_offset_saturates:
  assumes "crx_unsent_max_offset conn \<le> DWNX_MAX_VARINT"
  shows "unat (crx_unsent_max_offset (dwnx_conn_extend_max_offset conn n)) =
    min (2 ^ 62 - 1) (unat (crx_unsent_max_offset conn) + unat n)"
proof -
  have m: "unat DWNX_MAX_VARINT = 2 ^ 62 - 1" by (simp add: DWNX_MAX_VARINT_def)
  show ?thesis
  proof (cases "n > DWNX_MAX_VARINT \<or> crx_unsent_max_offset conn > DWNX_MAX_VARINT - n")
    case True
    have "2 ^ 62 - 1 \<le> unat (crx_unsent_max_offset conn) + unat n"
    proof (cases "n > DWNX_MAX_VARINT")
      case False
      then have "unat (DWNX_MAX_VARINT - n) = 2 ^ 62 - 1 - unat n" by (simp add: unat_sub not_less m)
      then show ?thesis using True False by (auto simp: word_less_nat_alt)
    qed (simp add: word_less_nat_alt m)
    then show ?thesis using True by (simp add: dwnx_conn_extend_max_offset_def extend_offset_def m)
  next
    case False
    then have n: "unat n \<le> 2 ^ 62 - 1" "unat (DWNX_MAX_VARINT - n) = 2 ^ 62 - 1 - unat n"
      by (auto simp: not_less word_le_nat_alt unat_sub m)
    then have "unat (crx_unsent_max_offset conn) + unat n \<le> 2 ^ 62 - 1"
      using False by (auto simp: word_less_nat_alt not_less)
    then have "unat (crx_unsent_max_offset conn + n) = unat (crx_unsent_max_offset conn) + unat n"
      by (simp add: unat_word_ariths)
    then show ?thesis
      using False \<open>unat (crx_unsent_max_offset conn) + unat n \<le> 2 ^ 62 - 1\<close>
      by (simp add: dwnx_conn_extend_max_offset_def extend_offset_def)
  qed
qed

theorem extend_offset_saturates_witness:
  "\<exists>conn. example_server = Ok conn \<and> crx_unsent_max_offset conn \<le> DWNX_MAX_VARINT \<and>
     unat (crx_unsent_max_offset (dwnx_conn_extend_max_offset conn UINT64_MAX)) = 2 ^ 62 - 1"
proof -
  obtain conn where conn: "example_server = Ok conn" using example_server_Ok ..
  have "crx_unsent_max_offset conn \<le> DWNX_MAX_VARINT"
    using conn_okD(4) [OF example_server_conn_ok(1) [OF conn]] by (simp add: flow_ok_def)
  with extend_offset_saturates [OF this, of UINT64_MAX] conn show ?thesis
    by (intro exI [of _ conn]) (simp add: UINT64_MAX_def)
qed

lemma data_violated_iff:
  assumes "flow_ok conn"
  shows "conn_max_data_violated conn len \<longleftrightarrow> unat (crx_max_offset conn) < unat (crx_offset conn) + unat len"
proof -
  have "unat (crx_offset conn) \<le> unat (crx_max_offset conn)" using assms by (simp add: flow_ok_def word_le_nat_alt)
  then have "unat (crx_max_offset conn) - unat (crx_offset conn) < unat len \<longleftrightarrow>
      unat (crx_max_offset conn) < unat (crx_offset conn) + unat len"
    by arith
  then show ?thesis using assms by (simp add: flow_ok_def conn_max_data_violated_def word_less_nat_alt unat_sub)
qed

lemma recv_stream_find:
  assumes conn: "conn_ok conn" and s: "strm_store conn p = Some s" and sid: "stream_stream_id fr = stream_id s"
  shows "dwnx_conn_find_stream conn (stream_stream_id fr) = SOk (Some p) conn"
  using find_stream_wp [OF conn_okD(1) [OF conn]] strms_ok_map [OF conn_okD(1) [OF conn] s] sid by simp

text \<open>C13: The credit of the receiver is enforced exactly. Data on a stream that is open for reading, at
  the offset where the last data ended, are refused with FLOW_CONTROL_ERROR, and nothing changes, if
  and only if they go beyond the credit of the stream or of the connection as natural numbers; if not,
  exactly their length is charged to both.\<close>

theorem recv_stream_flow_control:
  assumes conn: "conn_ok conn" and s: "strm_store conn p = Some s"
    and fr: "stream_stream_id fr = stream_id s" "stream_offset fr = rx_last_offset s" "\<not> stream_fin fr"
      "stream_len fr < 2 ^ 62"
    and ready: "check_recv_stream_id conn (stream_id s) = None" "\<not> strm_has s DWNX_STRM_FLAG_SHUT_RD"
  shows "conn_recv_stream cb null conn fr =
    (if unat (rx_max_offset s) < unat (rx_last_offset s) + stream_len fr \<or>
        unat (crx_max_offset conn) < unat (crx_offset conn) + stream_len fr
     then SErr ERR_FLOW_CONTROL conn
     else SOk () (upd_strm p (\<lambda>s. s\<lparr>rx_last_offset := rx_last_offset s + of_nat (stream_len fr)\<rparr>)
                    (conn\<lparr>crx_offset := crx_offset conn + of_nat (stream_len fr)\<rparr>)))"
proof -
  define len where "len = (of_nat (stream_len fr) :: u64)"
  have len: "len \<le> DWNX_MAX_VARINT" "unat len = stream_len fr"
    using of_nat_varint [OF fr(4)] by (simp_all add: len_def)
  have ok: "strm_ok s" by (rule conn_strm_ok [OF conn s])
  have viol: "conn_max_data_violated conn len \<longleftrightarrow> unat (crx_max_offset conn) < unat (crx_offset conn) + stream_len fr"
    using data_violated_iff [OF conn_okD(4) [OF conn]] by (simp add: len)
  have big: "DWNX_MAX_VARINT - len < rx_last_offset s \<longleftrightarrow> 2 ^ 62 - 1 < unat (rx_last_offset s) + stream_len fr"
    using len by (auto simp: word_less_nat_alt unat_sub word_le_nat_alt DWNX_MAX_VARINT_def)
  have max: "unat (rx_max_offset s) \<le> 2 ^ 62 - 1"
    using ok unat_le_max_varint [of "rx_max_offset s"] by (auto simp: strm_ok_def)
  show ?thesis
  proof (cases "DWNX_MAX_VARINT - len < rx_last_offset s")
    case True
    then show ?thesis
      using big max ready fr by (simp add: conn_recv_stream_def Let_def flip: len_def)
  next
    case False
    then have sum: "unat (rx_last_offset s + len) = unat (rx_last_offset s) + stream_len fr"
      using word_sum_exact_unat [OF len(1), of "rx_last_offset s"] len(2) by (simp add: not_less add.commute)
    then have lim: "rx_max_offset s < rx_last_offset s + len \<longleftrightarrow> unat (rx_max_offset s) < unat (rx_last_offset s) + stream_len fr"
      by (simp add: word_less_nat_alt)
    have upd: "upd_strm p (\<lambda>strm. strm\<lparr>rx_last_offset := rx_last_offset s + len\<rparr>) d =
        upd_strm p (\<lambda>s. s\<lparr>rx_last_offset := rx_last_offset s + len\<rparr>) d"
      if "strm_store d p = Some s" for d :: "('a, 'b) dwnx_conn"
      using that by (simp add: upd_strm_def)
    have "conn_recv_stream cb null conn fr =
      (if rx_max_offset s < rx_last_offset s + len \<or> conn_max_data_violated conn len then SErr ERR_FLOW_CONTROL conn
       else SOk () (upd_strm p (\<lambda>strm. strm\<lparr>rx_last_offset := rx_last_offset s + len\<rparr>) (conn\<lparr>crx_offset := crx_offset conn + len\<rparr>)))"
      using False ready fr recv_stream_find [OF conn s fr(1)] s
      by (simp add: conn_recv_stream_def Let_def with_strm_def flip: len_def)
    then show ?thesis using s by (simp add: lim viol upd flip: len_def)
  qed
qed

section \<open>Opening streams\<close>

lemma ord_stream_id_step:
  assumes "0 \<le> sid" and "sid < 2 ^ 62"
  shows "unat (dwnx_ord_stream_id sid) = nat sid div 4 + 1" and "dwnx_ord_stream_id (sid + 4) = dwnx_ord_stream_id sid + 1"
proof -
  have e: "dwnx_ord_stream_id x = of_nat (nat x div 4 + 1)" if "0 \<le> x" for x
    using that by (simp add: dwnx_ord_stream_id_def u64_of_i64_def drop_bit_eq_div nat_div_distrib flip: of_nat_nat)
  have "nat sid div 4 + 1 < 2 ^ 64" using assms by simp
  then show "unat (dwnx_ord_stream_id sid) = nat sid div 4 + 1"
    using e [OF assms(1)] by (simp only: unat_of_nat) simp
  have "nat (sid + 4) div 4 = nat sid div 4 + 1" using assms by (simp add: nat_add_distrib)
  then show "dwnx_ord_stream_id (sid + 4) = dwnx_ord_stream_id sid + 1"
    using e [of "sid + 4"] e [OF assms(1)] assms(1) by simp
qed

lemma open_bidi_wp:
  assumes conn: "conn_ok conn" and left: "dwnx_conn_get_streams_bidi_left conn \<noteq> 0"
  defines "b \<equiv> ctx_bidi_next_stream_id conn"
  shows "0 \<le> b" and "b < 2 ^ 62" and "map_abs (strms conn) (u64_of_i64 b) = None"
    and "wp (dwnx_conn_open_bidi_stream conn ud)
      (\<lambda>sid c. sid = b \<and> (\<exists>p d. created b p conn d \<and> c = d\<lparr>ctx_bidi_next_stream_id := b + 4\<rparr>))
      (\<lambda>e c. e = ERR_NOMEM \<and> ctx_bidi_next_stream_id c = b)"
proof -
  note ids = conn_okD(3) [OF conn] and kind = next_id_kind [OF conn_okD(3) [OF conn], folded b_def]
  have "dwnx_ord_stream_id b \<le> ctx_bidi_max_streams conn"
    using left by (auto simp: dwnx_conn_get_streams_bidi_left_def Let_def not_less b_def split: if_splits)
  then show b: "0 \<le> b" "b < 2 ^ 62"
    using ids ord_stream_id_le [of b "ctx_bidi_max_streams conn"] by (auto simp: ids_ok_def local_id_def b_def)
  have n: "next_local_id conn b = b" using kind(1) by (simp add: next_local_id_def b_def)
  show free: "map_abs (strms conn) (u64_of_i64 b) = None" using local_id_free [OF conn b kind(3)] n by simp
  have kept: "ctx_bidi_next_stream_id d = b" if "created b p conn d" for p d
    using that by (auto simp: created_def b_def)
  have "wp (dwnx_conn_create_stream conn b ud) (\<lambda>p. created b p conn) (\<lambda>e c. e = ERR_NOMEM \<and> ctx_bidi_next_stream_id c = b)"
    using create_stream_wp [OF conn b free, of ud]
    by (cases "mem_alloc (conn_mem conn)")
      (auto simp: dwnx_conn_create_stream_def Let_def wp_iff sassert_def b_def split: if_splits prod.splits sres.splits)
  then show "wp (dwnx_conn_open_bidi_stream conn ud)
      (\<lambda>sid c. sid = b \<and> (\<exists>p d. created b p conn d \<and> c = d\<lparr>ctx_bidi_next_stream_id := b + 4\<rparr>))
      (\<lambda>e c. e = ERR_NOMEM \<and> ctx_bidi_next_stream_id c = b)"
    using left kept unfolding dwnx_conn_open_bidi_stream_def
    by (auto simp: Let_def simp flip: b_def elim!: wp_mono)
qed

lemma created_bidi:
  assumes "created sid p conn d" and "bidi_stream sid"
  obtains m mp s where "d = conn\<lparr>conn_mem := m, conn_next_ptr := p + 1, strms := mp, strm_store := (strm_store conn)(p \<mapsto> s)\<rparr>"
    and "stream_id s = sid" "tx_offset s = 0" "rx_last_offset s = 0" "strm_flags s = 0"
      "tx_max_offset s = snd (stream_max_offsets conn sid)" "rx_max_offset s = fst (stream_max_offsets conn sid)"
proof -
  obtain m mp s where e: "d = conn\<lparr>conn_mem := m, conn_next_ptr := p + 1, strms := mp, strm_store := (strm_store conn)(p \<mapsto> s)\<rparr>"
    and new: "s = dwnx_strm_init sid DWNX_STRM_FLAG_NONE (fst (stream_max_offsets conn sid)) (snd (stream_max_offsets conn sid))
      (stream_user_data s)"
    using assms by (auto simp: created_def Let_def case_prod_beta)
  show ?thesis
    by (rule that [OF e]) (subst new, simp add: dwnx_strm_init_def)+
qed



text \<open>A connection with a stream.\<close>

lemma example_stream:
  obtains conn c p s where "example_server = Ok conn"
    and "dwnx_conn_open_bidi_stream (conn\<lparr>ctx_bidi_max_streams := 5\<rparr>) () = SOk 1 c"
    and "conn_ok c" and "strm_store c p = Some s" and "stream_id s = 1" and "strm_flags s = 0"
    and "rx_last_offset s = 0" and "rx_max_offset s = 500" and "check_recv_stream_id c 1 = None"
    and "crx_offset c = 0" and "crx_max_offset c = 1000"
proof -
  obtain conn where conn: "example_server = Ok conn" using example_server_Ok ..
  let ?c = "conn\<lparr>ctx_bidi_max_streams := 5\<rparr>"
  note f = example_server_fields [OF conn]
  have f': "local_params conn = example_params" "crx_offset conn = 0" "crx_max_offset conn = 1000"
    using conn by (auto simp: example_server_def dwnx_conn_server_new_def conn_new_def bindr_eq_Ok assertr_def Let_def
        example_params_def dwnx_transport_params_default_def split: if_splits prod.splits)
  have "conn_ok conn" by (rule example_server_conn_ok [OF conn])
  then have ok: "conn_ok ?c" by (simp add: conn_ok_def ids_ok_def DWNX_MAX_STREAMS_def)
  have b: "bidi_stream 1" by (simp add: bidi_stream_def)
  have left: "dwnx_conn_get_streams_bidi_left ?c \<noteq> 0"
    using f by (simp add: dwnx_conn_get_streams_bidi_left_def dwnx_ord_stream_id_def u64_of_i64_def)
  obtain sid c where o: "dwnx_conn_open_bidi_stream ?c () = SOk sid c"
    using f left map_insert_example
    by (auto simp: dwnx_conn_open_bidi_stream_def dwnx_conn_create_stream_def u64_of_i64_def Let_def case_prod_beta)
  then obtain p d where d: "sid = 1" "created 1 p ?c d" "c = d\<lparr>ctx_bidi_next_stream_id := 1 + 4\<rparr>"
    using open_bidi_wp(4) [OF ok left, of "()"] f by auto
  obtain m mp s where e: "d = ?c\<lparr>conn_mem := m, conn_next_ptr := p + 1, strms := mp, strm_store := (strm_store ?c)(p \<mapsto> s)\<rparr>"
    and s: "stream_id s = 1" "tx_offset s = 0" "rx_last_offset s = 0" "strm_flags s = 0"
      "tx_max_offset s = snd (stream_max_offsets ?c 1)" "rx_max_offset s = fst (stream_max_offsets ?c 1)"
    by (rule created_bidi [OF d(2) b])
  have "stays_ok ?c c" using open_stream_stays(1) [OF ok, of "()"] o by simp
  then have "conn_ok c" by (simp add: stays_ok_def)
  then show ?thesis
    using that [of conn c p s] conn o d(1) s f f' b
    by (auto simp: d(3) e stream_max_offsets_def conn_local_stream_def check_recv_stream_id_def example_params_def
        dwnx_transport_params_default_def)
qed

theorem recv_stream_flow_control_witness:
  "\<exists>(c :: (unit, unit) dwnx_conn) p. dwnx_conn_find_stream c 1 = SOk (Some p) c \<and>
     (let fr = \<lparr>stream_type = DWNX_FRAME_STREAM, stream_flags = 0, stream_fin = False, stream_stream_id = 1,
                stream_offset = 0, stream_len = 500, stream_data = []\<rparr>
      in conn_recv_stream credit_app () c fr =
           SOk () (upd_strm p (\<lambda>s. s\<lparr>rx_last_offset := rx_last_offset s + 500\<rparr>) (c\<lparr>crx_offset := 500\<rparr>)) \<and>
         conn_recv_stream credit_app () c (fr\<lparr>stream_len := 501\<rparr>) = SErr ERR_FLOW_CONTROL c)"
proof -
  obtain c :: "(unit, unit) dwnx_conn" and p s where c: "conn_ok c" and s: "strm_store c p = Some s" "stream_id s = 1"
    "strm_flags s = 0" "rx_last_offset s = 0" "rx_max_offset s = 500" "check_recv_stream_id c 1 = None" "crx_offset c = 0"
    "crx_max_offset c = 1000"
    using example_stream by blast
  let ?fr = "\<lparr>stream_type = DWNX_FRAME_STREAM, stream_flags = 0, stream_fin = False, stream_stream_id = 1,
                stream_offset = 0, stream_len = 500, stream_data = []\<rparr>"
  have "dwnx_conn_find_stream c 1 = SOk (Some p) c" using recv_stream_find [OF c s(1), of ?fr] s(2) by simp
  then show ?thesis
    using recv_stream_flow_control [OF c s(1), of ?fr credit_app "()"] s
      recv_stream_flow_control [OF c s(1), of "?fr\<lparr>stream_len := 501\<rparr>" credit_app "()"]
    by (intro exI [of _ c] exI [of _ p]) (simp add: Let_def strm_has_def)
qed

end
