(* ===== verification/ConnFrames.thy ===== *)
theory ConnFrames
  imports ConnCalls
begin

text \<open>
  The reader as a whole. \<open>dwnx_conn_read\<close> takes a record apart byte by byte, in thirty states; its
  specification is one line per frame: the handler of that frame is called with the frame. The lemmas
  show that reading the encoded frames of a record is the same as handing the frames to
  \<open>recv_frame\<close> one after the other.
\<close>

section \<open>The specification\<close>

text \<open>The frame as the handler sees it: STREAM frames carry no data yet, and their flags without the
  bits of the type.\<close>

definition stream_header :: "dwnx_frame_stream \<Rightarrow> dwnx_frame_stream" where
  "stream_header f = f\<lparr>stream_flags := stream_flag_byte f AND 0x07, stream_data := []\<rparr>"

text \<open>The data of a STREAM frame, all at once, after its header has been processed.\<close>

definition recv_data ::
    "('a, 'u) dwnx_callbacks \<Rightarrow> ('a, 'u) dwnx_conn \<Rightarrow> dwnx_frame_stream \<Rightarrow> ('a, 'u, unit) conn_res" where
  "recv_data cb conn f =
     sbind (dwnx_conn_find_stream conn (stream_stream_id f)) (\<lambda>r conn.
       case r of
         None \<Rightarrow> SAbort
       | Some p \<Rightarrow> with_strm conn p (\<lambda>s.
           conn_recv_stream_data cb conn p (stream_fin f) (rx_last_offset s - of_nat (stream_len f))
             (concat (stream_data f))))"

section \<open>The reader between two fields\<close>

text \<open>No part of a varint has been read.\<close>

definition at_reader :: "('a, 'u) dwnx_conn \<Rightarrow> dwnx_record_reader \<Rightarrow> ('a, 'u) dwnx_conn" where
  "at_reader conn r = conn\<lparr>vird := dwnx_varint_reader_reset, rcrd := r\<rparr>"

lemma at_reader_simps [simp]:
  "rcrd (at_reader conn r) = r" "vird (at_reader conn r) = dwnx_varint_reader_reset"
  "upd_rcrd f (at_reader conn r) = at_reader conn (f r)"
  "conn_has (at_reader conn r) fl = conn_has conn fl" "local_params (at_reader conn r) = local_params conn"
  "(at_reader conn r)\<lparr>vird := dwnx_varint_reader_reset\<rparr> = at_reader conn r"
  by (simp_all add: at_reader_def upd_rcrd_def)

lemma varint_reader_whole:
  assumes "v \<le> DWNX_MAX_VARINT"
  shows "dwnx_varint_reader_read dwnx_varint_reader_reset (uvbytes v @ p) fin =
    SOk (uvlen v) \<lparr>acc = v, left = 0, vlen = uvlen v\<rparr>"
  using assms by (simp add: dwnx_varint_reader_read_def dwnx_varint_reader_reset_def Let_def)

lemma read_field_uv:
  assumes v: "v \<le> DWNX_MAX_VARINT" and left: "record_left r = uvlen v + m"
  shows "read_field (at_reader conn r) (uvbytes v @ p) k =
    k \<lparr>acc = v, left = 0, vlen = uvlen v\<rparr> (at_reader conn (r\<lparr>record_left := m\<rparr>)) p"
proof -
  have "take (min (uvlen v + length p) (uvlen v + m)) (uvbytes v @ p) = uvbytes v @ take m p"
    by (simp add: min_def)
  moreover have "upd_rcrd f ((at_reader conn r)\<lparr>vird := x\<rparr>) = (at_reader conn (f r))\<lparr>vird := x\<rparr>" for f x
    by (simp add: at_reader_def upd_rcrd_def)
  ultimately show ?thesis
    using left
    by (simp add: read_field_def dwnx_record_reader_avail_def Let_def varint_reader_whole [OF v] dwnx_varint_reader_done_def)
qed

lemma read_field_byte:
  assumes "b < 64" and "record_left r = Suc m"
  shows "read_field (at_reader conn r) (b # p) k =
    k \<lparr>acc = ucast b, left = 0, vlen = 1\<rparr> (at_reader conn (r\<lparr>record_left := m\<rparr>)) p"
proof -
  have b: "unat b < 64" using assms(1) by (simp add: word_less_nat_alt)
  then have u: "(ucast b :: u64) < 64" "(ucast b :: u64) \<le> DWNX_MAX_VARINT" "ucast (ucast b :: u64) = b"
    by (simp_all add: word_less_nat_alt word_le_nat_alt unat_ucast_small ucast_ucast_small DWNX_MAX_VARINT_def)
  have l: "uvlen (ucast b) = 1" using u(1) by (simp add: uvlen_def)
  show ?thesis
    using read_field_uv [OF u(2), where r = r and m = m and p = p and conn = conn and k = k] assms(2) u l
    by (simp add: uvbytes_small)
qed

section \<open>Rounds of the loop\<close>

lemma sbind_assoc: "sbind (sbind r f) g = sbind r (\<lambda>x s. sbind (f x s) g)"
  by (cases r) simp_all

lemma loop_next:
  assumes "p \<noteq> []" and "conn_read_state cb null c t p = SOk (Read_next q) d"
  shows "conn_read_loop (Suc n) cb null c t p = conn_read_loop n cb null d t q"
  using assms by (cases p) simp_all

lemma loop_frame_done:
  assumes "p \<noteq> []" and "conn_read_state cb null c t p = then_frame_done q r"
  shows "conn_read_loop (Suc n) cb null c t p = sbind r (\<lambda>_ c. conn_read_loop n cb null (frame_done c t) t q)"
  using assms by (cases p; cases r) (simp_all add: then_frame_done_def)

text \<open>Reading a frame is running its handler, whatever follows the frame.\<close>

definition reads ::
    "('a, 'u) dwnx_callbacks \<Rightarrow> 'u \<Rightarrow> dwnx_tstamp \<Rightarrow> ('a, 'u) dwnx_conn \<Rightarrow> bytes \<Rightarrow> ('a, 'u, unit) conn_res \<Rightarrow> bool" where
  "reads cb null t c bs r \<longleftrightarrow>
     (\<exists>k \<le> length bs. \<forall>n p. conn_read_loop (k + n) cb null c t (bs @ p) =
        sbind r (\<lambda>_ c. conn_read_loop n cb null (frame_done c t) t p))"

lemma reads_done:
  assumes "bs \<noteq> []" and "\<And>p. conn_read_state cb null c t (bs @ p) = then_frame_done p r"
  shows "reads cb null t c bs r"
  unfolding reads_def
proof (intro exI [of _ 1] conjI allI)
  show "conn_read_loop (1 + n) cb null c t (bs @ p) = sbind r (\<lambda>_ c. conn_read_loop n cb null (frame_done c t) t p)" for n p
    using loop_frame_done [OF _ assms(2)] assms(1) by simp
qed (use assms(1) in \<open>cases bs; simp\<close>)

lemma reads_step:
  assumes "as \<noteq> []" and step: "\<And>p. conn_read_state cb null c t (as @ p) = SOk (Read_next p) d"
    and "reads cb null t d bs r"
  shows "reads cb null t c (as @ bs) r"
proof -
  obtain k where k: "k \<le> length bs"
    "\<And>n p. conn_read_loop (k + n) cb null d t (bs @ p) = sbind r (\<lambda>_ c. conn_read_loop n cb null (frame_done c t) t p)"
    using assms(3) by (auto simp: reads_def)
  have "conn_read_loop (Suc k + n) cb null c t (as @ q) = conn_read_loop (k + n) cb null d t q" for n q
    using loop_next [OF _ step] assms(1) by simp
  then show ?thesis
    using k assms(1) unfolding reads_def
    by (intro exI [of _ "Suc k"]) (cases as; simp)
qed


lemma reads_cons:
  assumes "\<And>p. conn_read_state cb null c t (b # p) = SOk (Read_next p) d" and "reads cb null t d bs r"
  shows "reads cb null t c (b # bs) r"
  using reads_step [of "[b]" cb null c t d bs r] assms by simp

text \<open>The reader after the type of a frame, and after the last field.\<close>

definition begun :: "dwnx_record_reader \<Rightarrow> nat \<Rightarrow> nat \<Rightarrow> dwnx_frame \<Rightarrow> dwnx_record_read_state \<Rightarrow> dwnx_record_reader" where
  "begun r k m fr st = r\<lparr>rr_state := st, rr_fr := fr, rr_typelen := k, record_left := m\<rparr>"

lemma begun_simps [simp]:
  "rr_state (begun r k m fr st) = st" "rr_fr (begun r k m fr st) = fr" "rr_typelen (begun r k m fr st) = k"
  "record_left (begun r k m fr st) = m" "field_left (begun r k m fr st) = field_left r" "rr_buf (begun r k m fr st) = rr_buf r"
  "(begun r k m fr st)\<lparr>record_left := m'\<rparr> = begun r k m' fr st"
  "(begun r k m fr st)\<lparr>rr_fr := fr'\<rparr> = begun r k m fr' st"
  "(begun r k m fr st)\<lparr>rr_state := st'\<rparr> = begun r k m fr st'"
  "(begun r k m fr st)\<lparr>field_left := n, rr_state := st'\<rparr> = (begun r k m fr st')\<lparr>field_left := n\<rparr>"
  by (simp_all add: begun_def)

lemma begun_eq:
  "r\<lparr>record_left := m, rr_typelen := k, rr_fr := fr, rr_state := st\<rparr> = begun r k m fr st"
  by (simp add: begun_def)

lemma type_step:
  fixes conn :: "('a, 'u) dwnx_conn"
  assumes r: "rr_state r = READ_STATE_FRAME_TYPE" "record_left r = Suc m" "0 < m"
    and conn: "conn_has conn CONN_FLAG_QX_TRANSPORT_PARAMETERS_SEEN"
  shows
    "conn_read_state cb null (at_reader conn r) t (ucast DWNX_FRAME_RESET_STREAM # p) = SOk (Read_next p)
       (at_reader conn (begun r 1 m (Fr_reset_stream \<lparr>rst_type = DWNX_FRAME_RESET_STREAM, rst_stream_id = 0,
          rst_app_error_code = 0, rst_final_size = 0\<rparr>) READ_STATE_RESET_STREAM_STREAM_ID))"
    "conn_read_state cb null (at_reader conn r) t (ucast DWNX_FRAME_STOP_SENDING # p) = SOk (Read_next p)
       (at_reader conn (begun r 1 m (Fr_stop_sending \<lparr>stop_type = DWNX_FRAME_STOP_SENDING, stop_stream_id = 0,
          stop_app_error_code = 0\<rparr>) READ_STATE_STOP_SENDING_STREAM_ID))"
    "conn_read_state cb null (at_reader conn r) t (ucast DWNX_FRAME_MAX_DATA # p) = SOk (Read_next p)
       (at_reader conn (begun r 1 m (Fr_max_data \<lparr>md_type = DWNX_FRAME_MAX_DATA, md_max_data = 0\<rparr>)
          READ_STATE_MAX_DATA_MAX_DATA))"
    "conn_read_state cb null (at_reader conn r) t (ucast DWNX_FRAME_MAX_STREAM_DATA # p) = SOk (Read_next p)
       (at_reader conn (begun r 1 m (Fr_max_stream_data \<lparr>msd_type = DWNX_FRAME_MAX_STREAM_DATA, msd_stream_id = 0,
          msd_max_stream_data = 0\<rparr>) READ_STATE_MAX_STREAM_DATA_STREAM_ID))"
    "ty = DWNX_FRAME_MAX_STREAMS_BIDI \<or> ty = DWNX_FRAME_MAX_STREAMS_UNI \<Longrightarrow>
     conn_read_state cb null (at_reader conn r) t (ucast ty # p) = SOk (Read_next p)
       (at_reader conn (begun r 1 m (Fr_max_streams \<lparr>ms_type = ty, ms_max_streams = 0\<rparr>) READ_STATE_MAX_STREAMS_MAX_STREAMS))"
    "conn_read_state cb null (at_reader conn r) t (ucast DWNX_FRAME_DATA_BLOCKED # p) = SOk (Read_next p)
       (at_reader conn (begun r 1 m (Fr_data_blocked \<lparr>db_type = DWNX_FRAME_DATA_BLOCKED, db_max_data = 0\<rparr>)
          READ_STATE_DATA_BLOCKED_OFFSET))"
    "conn_read_state cb null (at_reader conn r) t (ucast DWNX_FRAME_STREAM_DATA_BLOCKED # p) = SOk (Read_next p)
       (at_reader conn (begun r 1 m (Fr_stream_data_blocked \<lparr>sdb_type = DWNX_FRAME_STREAM_DATA_BLOCKED, sdb_stream_id = 0,
          sdb_max_stream_data = 0\<rparr>) READ_STATE_STREAM_DATA_BLOCKED_STREAM_ID))"
    "ty = DWNX_FRAME_STREAMS_BLOCKED_BIDI \<or> ty = DWNX_FRAME_STREAMS_BLOCKED_UNI \<Longrightarrow>
     conn_read_state cb null (at_reader conn r) t (ucast ty # p) = SOk (Read_next p)
       (at_reader conn (begun r 1 m (Fr_streams_blocked \<lparr>sb_type = ty, sb_max_streams = 0\<rparr>)
          READ_STATE_STREAMS_BLOCKED_MAX_STREAMS))"
  using r conn
  by (auto simp: conn_read_state_def read_frame_type_def read_field_byte begin_frame_def Let_def begun_eq)

lemma ping_type_step:
  assumes r: "rr_state r = READ_STATE_FRAME_TYPE" "record_left r = uvlen ty + m" "0 < m"
    and conn: "conn_has conn CONN_FLAG_QX_TRANSPORT_PARAMETERS_SEEN"
    and ty: "ty = DWNX_FRAME_QX_PING_REQUEST \<or> ty = DWNX_FRAME_QX_PING_RESPONSE"
  shows "conn_read_state cb null (at_reader conn r) t (uvbytes ty @ p) = SOk (Read_next p)
       (at_reader conn (begun r (uvlen ty) m (Fr_qx_ping \<lparr>ping_type = ty, ping_seq = 0\<rparr>) READ_STATE_QX_PING_SEQ))"
proof -
  have "ty \<le> DWNX_MAX_VARINT" using ty by (auto simp: DWNX_MAX_VARINT_def word_le_nat_alt)
  then show ?thesis
    using r conn ty by (auto simp: conn_read_state_def read_frame_type_def read_field_uv begin_frame_def Let_def begun_eq)
qed

section \<open>Frames without data\<close>

text \<open>The state in which the last field of a frame is read.\<close>

fun last_state :: "dwnx_frame \<Rightarrow> dwnx_record_read_state" where
  "last_state (Fr_qx_ping f) = READ_STATE_QX_PING_SEQ"
| "last_state (Fr_reset_stream f) = READ_STATE_RESET_STREAM_FINAL_SIZE"
| "last_state (Fr_stop_sending f) = READ_STATE_STOP_SENDING_APP_ERROR_CODE"
| "last_state (Fr_max_data f) = READ_STATE_MAX_DATA_MAX_DATA"
| "last_state (Fr_max_stream_data f) = READ_STATE_MAX_STREAM_DATA_MAX_STREAM_DATA"
| "last_state (Fr_max_streams f) = READ_STATE_MAX_STREAMS_MAX_STREAMS"
| "last_state (Fr_data_blocked f) = READ_STATE_DATA_BLOCKED_OFFSET"
| "last_state (Fr_stream_data_blocked f) = READ_STATE_STREAM_DATA_BLOCKED_OFFSET"
| "last_state (Fr_streams_blocked f) = READ_STATE_STREAMS_BLOCKED_MAX_STREAMS"
| "last_state fr = READ_STATE_FRAME_TYPE"

lemma field_step:
  assumes "\<And>p. conn_read_state cb null (at_reader conn (begun r k (uvlen v + m) fr st)) t (uvbytes v @ p) =
      expect_more (at_reader conn (begun r k m fr' st)) p st'"
    and "0 < m" and "reads cb null t (at_reader conn (begun r k m fr' st')) bs res"
  shows "reads cb null t (at_reader conn (begun r k (uvlen v + m) fr st)) (uvbytes v @ bs) res"
  by (rule reads_step [OF _ _ assms(3)]) (use assms(1,2) in \<open>simp_all add: expect_more_def\<close>)

lemmas field_state_simps =
  conn_read_state_def Let_def read_max_data_max_data_def read_data_blocked_offset_def read_max_streams_max_streams_def
  read_streams_blocked_max_streams_def read_qx_ping_seq_def
  read_reset_stream_stream_id_def read_reset_stream_app_error_code_def read_reset_stream_final_size_def
  read_stop_sending_stream_id_def read_stop_sending_app_error_code_def
  read_max_stream_data_stream_id_def read_max_stream_data_max_stream_data_def
  read_stream_data_blocked_stream_id_def read_stream_data_blocked_offset_def

lemma uvlen_add_pos: "0 < uvlen v + n"
  using uvlen_pos [of v] by simp

lemma max_data_reads:
  assumes r: "rr_state r = READ_STATE_FRAME_TYPE" "record_left r = length (max_data_wire f) + m"
    and conn: "conn_has conn CONN_FLAG_QX_TRANSPORT_PARAMETERS_SEEN" and f: "max_data_valid f"
  shows "reads cb null t (at_reader conn r) (max_data_wire f)
    (conn_recv_max_data (at_reader conn (begun r 1 m (Fr_max_data f) READ_STATE_MAX_DATA_MAX_DATA)) f)"
proof -
  let ?a = "md_max_data f"
  let ?fr = "\<lparr>md_type = DWNX_FRAME_MAX_DATA, md_max_data = 0\<rparr>"
  have v: "?a \<le> DWNX_MAX_VARINT"
    and f': "\<lparr>md_type = DWNX_FRAME_MAX_DATA, md_max_data = md_max_data f\<rparr> = f"
    using f by (cases f; simp add: max_data_valid_def)+
  have "reads cb null t (at_reader conn (begun r 1 (uvlen ?a + m) (Fr_max_data ?fr) READ_STATE_MAX_DATA_MAX_DATA)) (uvbytes ?a)
      (conn_recv_max_data (at_reader conn (begun r 1 m (Fr_max_data f) READ_STATE_MAX_DATA_MAX_DATA)) f)"
    by (rule reads_done, (simp add: field_state_simps read_field_uv v f')+)
  then show ?thesis
    unfolding max_data_wire_def
    by (intro reads_cons [OF type_step(3) [OF r(1) _ uvlen_add_pos conn]])
      (use r(2) in \<open>simp_all add: max_data_wire_def\<close>)
qed

lemma data_blocked_reads:
  assumes r: "rr_state r = READ_STATE_FRAME_TYPE" "record_left r = length (data_blocked_wire f) + m"
    and conn: "conn_has conn CONN_FLAG_QX_TRANSPORT_PARAMETERS_SEEN" and f: "data_blocked_valid f"
  shows "reads cb null t (at_reader conn r) (data_blocked_wire f)
    (conn_recv_data_blocked (at_reader conn (begun r 1 m (Fr_data_blocked f) READ_STATE_DATA_BLOCKED_OFFSET)) f)"
proof -
  let ?a = "db_max_data f"
  let ?fr = "\<lparr>db_type = DWNX_FRAME_DATA_BLOCKED, db_max_data = 0\<rparr>"
  have v: "?a \<le> DWNX_MAX_VARINT"
    and f': "\<lparr>db_type = DWNX_FRAME_DATA_BLOCKED, db_max_data = db_max_data f\<rparr> = f"
    using f by (cases f; simp add: data_blocked_valid_def)+
  have "reads cb null t (at_reader conn (begun r 1 (uvlen ?a + m) (Fr_data_blocked ?fr) READ_STATE_DATA_BLOCKED_OFFSET)) (uvbytes ?a)
      (conn_recv_data_blocked (at_reader conn (begun r 1 m (Fr_data_blocked f) READ_STATE_DATA_BLOCKED_OFFSET)) f)"
    by (rule reads_done, (simp add: field_state_simps read_field_uv v f')+)
  then show ?thesis
    unfolding data_blocked_wire_def
    by (intro reads_cons [OF type_step(6) [OF r(1) _ uvlen_add_pos conn]])
      (use r(2) in \<open>simp_all add: data_blocked_wire_def\<close>)
qed

lemma reset_stream_reads:
  assumes r: "rr_state r = READ_STATE_FRAME_TYPE" "record_left r = length (reset_stream_wire f) + m"
    and conn: "conn_has conn CONN_FLAG_QX_TRANSPORT_PARAMETERS_SEEN" and f: "reset_stream_valid f"
  shows "reads cb null t (at_reader conn r) (reset_stream_wire f)
    (conn_recv_reset_stream cb null (at_reader conn (begun r 1 m (Fr_reset_stream f) READ_STATE_RESET_STREAM_FINAL_SIZE)) f)"
proof -
  let ?a = "u64_of_i64 (rst_stream_id f)" and ?b = "rst_app_error_code f" and ?c = "rst_final_size f"
  let ?fr = "\<lparr>rst_type = DWNX_FRAME_RESET_STREAM, rst_stream_id = 0, rst_app_error_code = 0, rst_final_size = 0\<rparr>"
  have v: "?a \<le> DWNX_MAX_VARINT" "?b \<le> DWNX_MAX_VARINT" "?c \<le> DWNX_MAX_VARINT" "i64_of_u64 ?a = rst_stream_id f"
    and f': "\<lparr>rst_type = DWNX_FRAME_RESET_STREAM, rst_stream_id = rst_stream_id f, rst_app_error_code = rst_app_error_code f, rst_final_size = rst_final_size f\<rparr> = f"
    using f by (cases f; simp add: reset_stream_valid_def)+
  have "reads cb null t (at_reader conn (begun r 1 (uvlen ?a + (uvlen ?b + (uvlen ?c + m))) (Fr_reset_stream ?fr) READ_STATE_RESET_STREAM_STREAM_ID)) (uvbytes ?a @ uvbytes ?b @ uvbytes ?c)
      (conn_recv_reset_stream cb null (at_reader conn (begun r 1 m (Fr_reset_stream f) READ_STATE_RESET_STREAM_FINAL_SIZE)) f)"
    by (rule field_step [OF _ uvlen_add_pos field_step [OF _ uvlen_add_pos reads_done]], (simp add: field_state_simps read_field_uv v f')+)
  then show ?thesis
    unfolding reset_stream_wire_def
    by (intro reads_cons [OF type_step(1) [OF r(1) _ uvlen_add_pos conn]])
      (use r(2) in \<open>simp_all add: reset_stream_wire_def\<close>)
qed

lemma stop_sending_reads:
  assumes r: "rr_state r = READ_STATE_FRAME_TYPE" "record_left r = length (stop_sending_wire f) + m"
    and conn: "conn_has conn CONN_FLAG_QX_TRANSPORT_PARAMETERS_SEEN" and f: "stop_sending_valid f"
  shows "reads cb null t (at_reader conn r) (stop_sending_wire f)
    (conn_recv_stop_sending cb null (at_reader conn (begun r 1 m (Fr_stop_sending f) READ_STATE_STOP_SENDING_APP_ERROR_CODE)) f t)"
proof -
  let ?a = "u64_of_i64 (stop_stream_id f)" and ?b = "stop_app_error_code f"
  let ?fr = "\<lparr>stop_type = DWNX_FRAME_STOP_SENDING, stop_stream_id = 0, stop_app_error_code = 0\<rparr>"
  have v: "?a \<le> DWNX_MAX_VARINT" "?b \<le> DWNX_MAX_VARINT" "i64_of_u64 ?a = stop_stream_id f"
    and f': "\<lparr>stop_type = DWNX_FRAME_STOP_SENDING, stop_stream_id = stop_stream_id f, stop_app_error_code = stop_app_error_code f\<rparr> = f"
    using f by (cases f; simp add: stop_sending_valid_def)+
  have "reads cb null t (at_reader conn (begun r 1 (uvlen ?a + (uvlen ?b + m)) (Fr_stop_sending ?fr) READ_STATE_STOP_SENDING_STREAM_ID)) (uvbytes ?a @ uvbytes ?b)
      (conn_recv_stop_sending cb null (at_reader conn (begun r 1 m (Fr_stop_sending f) READ_STATE_STOP_SENDING_APP_ERROR_CODE)) f t)"
    by (rule field_step [OF _ uvlen_add_pos reads_done], (simp add: field_state_simps read_field_uv v f')+)
  then show ?thesis
    unfolding stop_sending_wire_def
    by (intro reads_cons [OF type_step(2) [OF r(1) _ uvlen_add_pos conn]])
      (use r(2) in \<open>simp_all add: stop_sending_wire_def\<close>)
qed

lemma max_stream_data_reads:
  assumes r: "rr_state r = READ_STATE_FRAME_TYPE" "record_left r = length (max_stream_data_wire f) + m"
    and conn: "conn_has conn CONN_FLAG_QX_TRANSPORT_PARAMETERS_SEEN" and f: "max_stream_data_valid f"
  shows "reads cb null t (at_reader conn r) (max_stream_data_wire f)
    (conn_recv_max_stream_data cb null (at_reader conn (begun r 1 m (Fr_max_stream_data f) READ_STATE_MAX_STREAM_DATA_MAX_STREAM_DATA)) f t)"
proof -
  let ?a = "u64_of_i64 (msd_stream_id f)" and ?b = "msd_max_stream_data f"
  let ?fr = "\<lparr>msd_type = DWNX_FRAME_MAX_STREAM_DATA, msd_stream_id = 0, msd_max_stream_data = 0\<rparr>"
  have v: "?a \<le> DWNX_MAX_VARINT" "?b \<le> DWNX_MAX_VARINT" "i64_of_u64 ?a = msd_stream_id f"
    and f': "\<lparr>msd_type = DWNX_FRAME_MAX_STREAM_DATA, msd_stream_id = msd_stream_id f, msd_max_stream_data = msd_max_stream_data f\<rparr> = f"
    using f by (cases f; simp add: max_stream_data_valid_def)+
  have "reads cb null t (at_reader conn (begun r 1 (uvlen ?a + (uvlen ?b + m)) (Fr_max_stream_data ?fr) READ_STATE_MAX_STREAM_DATA_STREAM_ID)) (uvbytes ?a @ uvbytes ?b)
      (conn_recv_max_stream_data cb null (at_reader conn (begun r 1 m (Fr_max_stream_data f) READ_STATE_MAX_STREAM_DATA_MAX_STREAM_DATA)) f t)"
    by (rule field_step [OF _ uvlen_add_pos reads_done], (simp add: field_state_simps read_field_uv v f')+)
  then show ?thesis
    unfolding max_stream_data_wire_def
    by (intro reads_cons [OF type_step(4) [OF r(1) _ uvlen_add_pos conn]])
      (use r(2) in \<open>simp_all add: max_stream_data_wire_def\<close>)
qed

lemma stream_data_blocked_reads:
  assumes r: "rr_state r = READ_STATE_FRAME_TYPE" "record_left r = length (stream_data_blocked_wire f) + m"
    and conn: "conn_has conn CONN_FLAG_QX_TRANSPORT_PARAMETERS_SEEN" and f: "stream_data_blocked_valid f"
  shows "reads cb null t (at_reader conn r) (stream_data_blocked_wire f)
    (conn_recv_stream_data_blocked (at_reader conn (begun r 1 m (Fr_stream_data_blocked f) READ_STATE_STREAM_DATA_BLOCKED_OFFSET)) f)"
proof -
  let ?a = "u64_of_i64 (sdb_stream_id f)" and ?b = "sdb_max_stream_data f"
  let ?fr = "\<lparr>sdb_type = DWNX_FRAME_STREAM_DATA_BLOCKED, sdb_stream_id = 0, sdb_max_stream_data = 0\<rparr>"
  have v: "?a \<le> DWNX_MAX_VARINT" "?b \<le> DWNX_MAX_VARINT" "i64_of_u64 ?a = sdb_stream_id f"
    and f': "\<lparr>sdb_type = DWNX_FRAME_STREAM_DATA_BLOCKED, sdb_stream_id = sdb_stream_id f, sdb_max_stream_data = sdb_max_stream_data f\<rparr> = f"
    using f by (cases f; simp add: stream_data_blocked_valid_def)+
  have "reads cb null t (at_reader conn (begun r 1 (uvlen ?a + (uvlen ?b + m)) (Fr_stream_data_blocked ?fr) READ_STATE_STREAM_DATA_BLOCKED_STREAM_ID)) (uvbytes ?a @ uvbytes ?b)
      (conn_recv_stream_data_blocked (at_reader conn (begun r 1 m (Fr_stream_data_blocked f) READ_STATE_STREAM_DATA_BLOCKED_OFFSET)) f)"
    by (rule field_step [OF _ uvlen_add_pos reads_done], (simp add: field_state_simps read_field_uv v f')+)
  then show ?thesis
    unfolding stream_data_blocked_wire_def
    by (intro reads_cons [OF type_step(7) [OF r(1) _ uvlen_add_pos conn]])
      (use r(2) in \<open>simp_all add: stream_data_blocked_wire_def\<close>)
qed

lemma max_streams_reads:
  assumes r: "rr_state r = READ_STATE_FRAME_TYPE" "record_left r = length (max_streams_wire f) + m"
    and conn: "conn_has conn CONN_FLAG_QX_TRANSPORT_PARAMETERS_SEEN" and f: "max_streams_valid f"
    and ty: "ms_type f = DWNX_FRAME_MAX_STREAMS_BIDI \<or> ms_type f = DWNX_FRAME_MAX_STREAMS_UNI"
  shows "reads cb null t (at_reader conn r) (max_streams_wire f)
    (conn_recv_max_streams cb (at_reader conn (begun r 1 m (Fr_max_streams f) READ_STATE_MAX_STREAMS_MAX_STREAMS)) f)"
proof -
  have v: "ms_max_streams f \<le> DWNX_MAX_VARINT" and f': "\<lparr>ms_type = ms_type f, ms_max_streams = ms_max_streams f\<rparr> = f"
    using f by (cases f; simp add: max_streams_valid_def)+
  have "reads cb null t (at_reader conn (begun r 1 (uvlen (ms_max_streams f) + m) (Fr_max_streams \<lparr>ms_type = ms_type f, ms_max_streams = 0\<rparr>)
      READ_STATE_MAX_STREAMS_MAX_STREAMS)) (uvbytes (ms_max_streams f))
    (conn_recv_max_streams cb (at_reader conn (begun r 1 m (Fr_max_streams f) READ_STATE_MAX_STREAMS_MAX_STREAMS)) f)"
    by (rule reads_done, (simp add: field_state_simps read_field_uv v f')+)
  then show ?thesis
    unfolding max_streams_wire_def
    by (intro reads_cons [OF type_step(5) [OF r(1) _ uvlen_add_pos conn ty]]) (use r(2) in \<open>simp_all add: max_streams_wire_def\<close>)
qed

lemma streams_blocked_reads:
  assumes r: "rr_state r = READ_STATE_FRAME_TYPE" "record_left r = length (streams_blocked_wire f) + m"
    and conn: "conn_has conn CONN_FLAG_QX_TRANSPORT_PARAMETERS_SEEN" and f: "streams_blocked_valid f"
    and ty: "sb_type f = DWNX_FRAME_STREAMS_BLOCKED_BIDI \<or> sb_type f = DWNX_FRAME_STREAMS_BLOCKED_UNI"
  shows "reads cb null t (at_reader conn r) (streams_blocked_wire f)
    (conn_recv_streams_blocked (at_reader conn (begun r 1 m (Fr_streams_blocked f) READ_STATE_STREAMS_BLOCKED_MAX_STREAMS)) f)"
proof -
  have v: "sb_max_streams f \<le> DWNX_MAX_VARINT" and f': "\<lparr>sb_type = sb_type f, sb_max_streams = sb_max_streams f\<rparr> = f"
    using f by (cases f; simp add: streams_blocked_valid_def)+
  have "reads cb null t (at_reader conn (begun r 1 (uvlen (sb_max_streams f) + m)
      (Fr_streams_blocked \<lparr>sb_type = sb_type f, sb_max_streams = 0\<rparr>) READ_STATE_STREAMS_BLOCKED_MAX_STREAMS)) (uvbytes (sb_max_streams f))
    (conn_recv_streams_blocked (at_reader conn (begun r 1 m (Fr_streams_blocked f) READ_STATE_STREAMS_BLOCKED_MAX_STREAMS)) f)"
    by (rule reads_done, (simp add: field_state_simps read_field_uv v f')+)
  then show ?thesis
    unfolding streams_blocked_wire_def
    by (intro reads_cons [OF type_step(8) [OF r(1) _ uvlen_add_pos conn ty]]) (use r(2) in \<open>simp_all add: streams_blocked_wire_def\<close>)
qed

lemma qx_ping_reads:
  assumes r: "rr_state r = READ_STATE_FRAME_TYPE" "record_left r = length (qx_ping_wire f) + m"
    and conn: "conn_has conn CONN_FLAG_QX_TRANSPORT_PARAMETERS_SEEN" and f: "qx_ping_valid f"
    and ty: "ping_type f = DWNX_FRAME_QX_PING_REQUEST \<or> ping_type f = DWNX_FRAME_QX_PING_RESPONSE"
  shows "reads cb null t (at_reader conn r) (qx_ping_wire f)
    (conn_recv_qx_ping (at_reader conn (begun r (uvlen (ping_type f)) m (Fr_qx_ping f) READ_STATE_QX_PING_SEQ)) f t)"
proof -
  have v: "ping_seq f \<le> DWNX_MAX_VARINT" and f': "\<lparr>ping_type = ping_type f, ping_seq = ping_seq f\<rparr> = f"
    using f by (cases f; simp add: qx_ping_valid_def)+
  have "reads cb null t (at_reader conn (begun r (uvlen (ping_type f)) (uvlen (ping_seq f) + m)
      (Fr_qx_ping \<lparr>ping_type = ping_type f, ping_seq = 0\<rparr>) READ_STATE_QX_PING_SEQ)) (uvbytes (ping_seq f))
    (conn_recv_qx_ping (at_reader conn (begun r (uvlen (ping_type f)) m (Fr_qx_ping f) READ_STATE_QX_PING_SEQ)) f t)"
    by (rule reads_done, (simp add: field_state_simps read_field_uv v f')+)
  then show ?thesis
    unfolding qx_ping_wire_def
    by (intro reads_step [OF _ ping_type_step [OF r(1) _ uvlen_add_pos conn ty]]) (use r(2) in \<open>simp_all add: qx_ping_wire_def\<close>)
qed

section \<open>STREAM frames\<close>

lemma conn_ok_at_reader:
  assumes "conn_ok conn" and "conn_has conn CONN_FLAG_QX_TRANSPORT_PARAMETERS_SEEN" and "\<not> pending_state (rr_state r)"
  shows "conn_ok (at_reader conn r)" and "\<not> params_pending (at_reader conn r)"
  using conn_ok_reader [OF assms(1), where v = dwnx_varint_reader_reset and r = r] assms(2,3)
  by (simp_all add: at_reader_def params_pending_def)

text \<open>A STREAM frame: its header, then all of its data.\<close>

definition recv_stream_frame ::
    "('a, 'u) dwnx_callbacks \<Rightarrow> 'u \<Rightarrow> ('a, 'u) dwnx_conn \<Rightarrow> dwnx_frame_stream \<Rightarrow> ('a, 'u, unit) conn_res" where
  "recv_stream_frame cb null conn f =
     sbind (conn_recv_stream cb null conn (stream_header f)) (\<lambda>_ conn.
       if stream_len f = 0 then SOk () conn
       else sbind (recv_data cb (set_state READ_STATE_STREAM_DATA conn) f) (\<lambda>_ conn.
         SOk () (upd_rcrd (\<lambda>r. r\<lparr>record_left := record_left r - stream_len f, field_left := 0\<rparr>) conn)))"

lemma stream_flag_cases:
  "stream_flag_byte f = (if stream_offset f \<noteq> 0 then (if stream_fin f then 15 else 14) else (if stream_fin f then 11 else 10))"
  by (simp add: stream_flag_byte_def)

lemma stream_type_step:
  assumes r: "rr_state r = READ_STATE_FRAME_TYPE" "record_left r = Suc m" "0 < m"
    and conn: "conn_has conn CONN_FLAG_QX_TRANSPORT_PARAMETERS_SEEN"
  shows "conn_read_state cb null (at_reader conn r) t (stream_flag_byte f # p) = SOk (Read_next p)
       (at_reader conn (begun r 1 m (Fr_stream \<lparr>stream_type = DWNX_FRAME_STREAM, stream_flags = stream_flag_byte f AND 0x07,
          stream_fin = stream_fin f, stream_stream_id = 0, stream_offset = 0, stream_len = 0, stream_data = []\<rparr>)
          READ_STATE_STREAM_STREAM_ID))"
  using r conn
  by (auto simp: conn_read_state_def read_frame_type_def read_field_byte begin_frame_def Let_def begun_eq stream_flag_cases)

lemma stream_data_step:
  assumes cb: "app_ok cb" and conn: "conn_ok c" and st: "rr_state (rcrd c) = READ_STATE_STREAM_DATA"
    and fr: "rr_fr (rcrd c) = Fr_stream (stream_header f)"
    and len: "stream_len f = length (concat (stream_data f))" "stream_len f \<noteq> 0" "field_left (rcrd c) = stream_len f"
      "stream_len f \<le> record_left (rcrd c)"
  shows "conn_read_state cb null c t (concat (stream_data f) @ p) = then_frame_done p
    (sbind (recv_data cb c f) (\<lambda>_ c. SOk () (upd_rcrd (\<lambda>r. r\<lparr>record_left := record_left r - stream_len f, field_left := 0\<rparr>) c)))"
proof (cases "dwnx_conn_find_stream c (stream_stream_id f)")
  case (SOk x d)
  then have d: "d = c" "x = map_abs (strms c) (u64_of_i64 (stream_stream_id f))"
    using find_stream_wp [OF conn_okD(1) [OF conn], of "stream_stream_id f"] by auto
  have avail: "dwnx_record_reader_field_avail (rcrd c) (length (concat (stream_data f) @ p)) = stream_len f"
    using len by (simp add: dwnx_record_reader_field_avail_def dwnx_record_reader_avail_def)
  have kept: "rcrd e = rcrd c"
    if "conn_recv_stream_data cb c q fin off data = SOk y e" "strm_store c q = Some s" for q fin off data y e s
    using recv_stream_data_safe [OF cb conn, of q fin off data] that by (simp add: handled_def same_reader_def)
  show ?thesis
  proof (cases x)
    case None
    then show ?thesis using st fr SOk d
      by (simp add: conn_read_state_def read_stream_data_def recv_data_def then_frame_done_def stream_header_def)
  next
    case (Some q)
    have m: "map_abs (strms c) (u64_of_i64 (stream_stream_id f)) = Some q" using d(2) Some by simp
    show ?thesis
    proof (cases "strm_store c q")
      case None
      then show ?thesis using st fr SOk d(1) m Some
        by (simp add: conn_read_state_def read_stream_data_def recv_data_def then_frame_done_def stream_header_def with_strm_def)
    next
      case (Some s)
      let ?r = "conn_recv_stream_data cb c q (stream_fin f) (rx_last_offset s - of_nat (stream_len f)) (concat (stream_data f))"
      show ?thesis
        using st fr SOk d(1) m \<open>x = Some q\<close> Some len avail kept [of q "stream_fin f" "rx_last_offset s - of_nat (stream_len f)" "concat (stream_data f)"]
        by (cases ?r) (simp_all add: conn_read_state_def read_stream_data_def recv_data_def then_frame_done_def stream_header_def
            with_strm_def Let_def upd_rcrd_def)
    qed
  qed
qed (use find_stream_wp [OF conn_okD(1) [OF conn], of "stream_stream_id f"] in simp_all)

lemma stream_body_reads:
  fixes r :: dwnx_record_reader
  assumes cb: "app_ok cb" and conn: "conn_ok conn" "conn_has conn CONN_FLAG_QX_TRANSPORT_PARAMETERS_SEEN"
    and f: "stream_valid f" and n: "stream_len f \<le> m"
    and hdr: "fr\<lparr>stream_len := stream_len f\<rparr> = stream_header f"
  defines "c \<equiv> at_reader conn (begun r 1 (uvlen (of_nat (stream_len f)) + m) (Fr_stream fr) READ_STATE_STREAM_LENGTH)"
    and "r' \<equiv> (begun r 1 m (Fr_stream (stream_header f)) READ_STATE_STREAM_LENGTH)\<lparr>field_left := stream_len f\<rparr>"
  shows "reads cb null t c (uvbytes (of_nat (stream_len f)) @ concat (stream_data f)) (recv_stream_frame cb null (at_reader conn r') f)"
proof -
  let ?len = "of_nat (stream_len f) :: u64"
  have v: "?len \<le> DWNX_MAX_VARINT" "unat ?len = stream_len f" and l: "stream_len f = length (concat (stream_data f))"
    and sid: "0 \<le> stream_stream_id f" "stream_stream_id f < 2 ^ 62"
    using f of_nat_varint [of "stream_len f"] by (simp_all add: stream_valid_def stream_id_valid_def)
  have ok: "conn_ok (at_reader conn r')" "\<not> params_pending (at_reader conn r')"
    using conn_ok_at_reader [OF conn, of r'] by (simp_all add: r'_def)
  have kept: "rcrd d = r'" "conn_ok d" if "conn_recv_stream cb null (at_reader conn r') (stream_header f) = SOk x d" for x d
    using recv_stream_safe [OF cb ok, of "stream_header f" null] that sid f
    by (simp_all add: handled_def same_reader_def stream_header_def stream_valid_def)
  have step: "conn_read_state cb null c t (uvbytes ?len @ p) =
      sbind (conn_recv_stream cb null (at_reader conn r') (stream_header f)) (\<lambda>_ d.
        if field_left (rcrd d) = 0 then SOk (Frame_done p) d else SOk (Read_next p) (set_state READ_STATE_STREAM_DATA d))" for p
    using n hdr
    by (simp add: c_def r'_def conn_read_state_def read_stream_length_def read_field_uv v stream_header_done_def Let_def)
  show ?thesis
  proof (cases "stream_len f = 0")
    case True
    have "conn_read_state cb null c t (uvbytes ?len @ p) = then_frame_done p (recv_stream_frame cb null (at_reader conn r') f)" for p
      using step [of p] kept True
      by (cases "conn_recv_stream cb null (at_reader conn r') (stream_header f)")
        (simp_all add: then_frame_done_def recv_stream_frame_def r'_def)
    then have "reads cb null t c (uvbytes ?len) (recv_stream_frame cb null (at_reader conn r') f)"
      by (intro reads_done) simp_all
    moreover have e: "concat (stream_data f) = []" using True l by (metis length_0_conv)
    ultimately show ?thesis unfolding e by (simp only: append_Nil2)
  next
    case False
    have "conn_read_loop (2 + k) cb null c t ((uvbytes ?len @ concat (stream_data f)) @ p) =
        sbind (recv_stream_frame cb null (at_reader conn r') f) (\<lambda>_ c. conn_read_loop k cb null (frame_done c t) t p)" for k p
    proof (cases "conn_recv_stream cb null (at_reader conn r') (stream_header f)")
      case (SOk x d)
      let ?d = "set_state READ_STATE_STREAM_DATA d"
      have d: "rcrd ?d = r'\<lparr>rr_state := READ_STATE_STREAM_DATA\<rparr>" "conn_ok ?d"
        using kept [OF SOk] conn_ok_reader [of d, where v = "vird d" and r = "(rcrd d)\<lparr>rr_state := READ_STATE_STREAM_DATA\<rparr>"]
        by (auto simp: upd_rcrd_def params_pending_def r'_def)
      have "conn_read_state cb null ?d t (concat (stream_data f) @ p) = then_frame_done p
          (sbind (recv_data cb ?d f) (\<lambda>_ c. SOk () (upd_rcrd (\<lambda>r. r\<lparr>record_left := record_left r - stream_len f, field_left := 0\<rparr>) c)))"
        using d False l n by (intro stream_data_step [OF cb d(2)]) (simp_all add: r'_def)
      note data = loop_frame_done [OF _ this, of k]
      have "conn_read_state cb null c t (uvbytes ?len @ concat (stream_data f) @ p) = SOk (Read_next (concat (stream_data f) @ p)) ?d"
        using step [of "concat (stream_data f) @ p"] SOk kept(1) [OF SOk] False by (simp add: r'_def)
      from loop_next [OF _ this, of "Suc k"] have "conn_read_loop (2 + k) cb null c t ((uvbytes ?len @ concat (stream_data f)) @ p) =
          conn_read_loop (Suc k) cb null ?d t (concat (stream_data f) @ p)"
        by simp
      moreover have "concat (stream_data f) @ p \<noteq> []" using False l by (metis append_is_Nil_conv length_0_conv)
      ultimately show ?thesis
        using data SOk False by (simp add: recv_stream_frame_def sbind_assoc)
    next
      case (SErr e d)
      then have "conn_read_state cb null c t (uvbytes ?len @ concat (stream_data f) @ p) = SErr e d"
        using step [of "concat (stream_data f) @ p"] by simp
      then show ?thesis using SErr by (cases "uvbytes ?len @ concat (stream_data f) @ p") (simp_all add: recv_stream_frame_def)
    next
      case SAbort
      then have "conn_read_state cb null c t (uvbytes ?len @ concat (stream_data f) @ p) = SAbort"
        using step [of "concat (stream_data f) @ p"] by simp
      then show ?thesis using SAbort by (cases "uvbytes ?len @ concat (stream_data f) @ p") (simp_all add: recv_stream_frame_def)
    qed
    moreover have "2 \<le> length (uvbytes ?len @ concat (stream_data f))"
      using False l uvlen_pos [of ?len] by (simp only: length_append length_uvbytes)
    ultimately show ?thesis unfolding reads_def by blast
  qed
qed

text \<open>The reader when the handler of a STREAM frame is called: its data are still to come.\<close>

definition stream_begun :: "dwnx_record_reader \<Rightarrow> nat \<Rightarrow> dwnx_frame_stream \<Rightarrow> dwnx_record_reader" where
  "stream_begun r m f =
     (begun r 1 (stream_len f + m) (Fr_stream (stream_header f)) READ_STATE_STREAM_LENGTH)\<lparr>field_left := stream_len f\<rparr>"

lemma stream_reads:
  assumes cb: "app_ok cb" and conn: "conn_ok conn" "conn_has conn CONN_FLAG_QX_TRANSPORT_PARAMETERS_SEEN"
    and r: "rr_state r = READ_STATE_FRAME_TYPE" "record_left r = length (stream_wire f) + m" and f: "stream_valid f"
  shows "reads cb null t (at_reader conn r) (stream_wire f)
    (recv_stream_frame cb null (at_reader conn (stream_begun r m f)) f)"
proof -
  let ?id = "u64_of_i64 (stream_stream_id f)" and ?off = "stream_offset f" and ?len = "of_nat (stream_len f) :: u64"
  let ?rest = "uvlen ?len + (stream_len f + m)"
  let ?fr = "\<lambda>sid off. \<lparr>stream_type = DWNX_FRAME_STREAM, stream_flags = stream_flag_byte f AND 0x07, stream_fin = stream_fin f,
    stream_stream_id = sid, stream_offset = off, stream_len = 0, stream_data = []\<rparr>"
  have v: "?id \<le> DWNX_MAX_VARINT" "?off \<le> DWNX_MAX_VARINT" "i64_of_u64 ?id = stream_stream_id f"
    and l: "stream_len f = length (concat (stream_data f))"
    and hdr: "(?fr (stream_stream_id f) ?off)\<lparr>stream_len := stream_len f\<rparr> = stream_header f"
    using f by (cases f; simp add: stream_valid_def stream_header_def)+
  have flags: "(stream_flag_byte f AND 7) AND DWNX_STREAM_OFF_BIT = 0 \<longleftrightarrow> ?off = 0"
    "(stream_flag_byte f AND 7) AND DWNX_STREAM_LEN_BIT \<noteq> 0"
    by (simp_all add: stream_flag_cases)
  note body = stream_body_reads [OF cb conn f le_add1 hdr, of null t r m, folded stream_begun_def]
  have left: "record_left r = Suc (uvlen ?id + ((if ?off \<noteq> 0 then uvlen ?off else 0) + ?rest))"
    using r(2) l by (simp add: stream_wire_def)
  note step = conn_read_state_def Let_def read_stream_stream_id_def read_stream_offset_def read_field_uv v flags
  have "reads cb null t (at_reader conn (begun r 1 (uvlen ?id + ((if ?off \<noteq> 0 then uvlen ?off else 0) + ?rest)) (Fr_stream (?fr 0 0))
      READ_STATE_STREAM_STREAM_ID)) (uvbytes ?id @ (if ?off \<noteq> 0 then uvbytes ?off else []) @ uvbytes ?len @ concat (stream_data f))
    (recv_stream_frame cb null (at_reader conn (stream_begun r m f)) f)"
  proof (cases "?off = 0")
    case True
    then have "reads cb null t (at_reader conn (begun r 1 (uvlen ?id + ?rest) (Fr_stream (?fr 0 0)) READ_STATE_STREAM_STREAM_ID))
      (uvbytes ?id @ uvbytes ?len @ concat (stream_data f)) (recv_stream_frame cb null (at_reader conn (stream_begun r m f)) f)"
      using body uvlen_pos [of ?len]
      by (intro reads_step [OF _ _ body]) (simp_all add: step begin_frame_def)
    then show ?thesis using True by simp
  next
    case False
    then have "reads cb null t (at_reader conn (begun r 1 (uvlen ?id + (uvlen ?off + ?rest)) (Fr_stream (?fr 0 0)) READ_STATE_STREAM_STREAM_ID))
      (uvbytes ?id @ uvbytes ?off @ uvbytes ?len @ concat (stream_data f)) (recv_stream_frame cb null (at_reader conn (stream_begun r m f)) f)"
      by (intro field_step [OF _ uvlen_add_pos field_step [OF _ uvlen_add_pos body]], (simp add: step)+)
    then show ?thesis using False by simp
  qed
  then show ?thesis
    unfolding stream_wire_def
    by (intro reads_cons [OF stream_type_step [OF r(1) left uvlen_add_pos conn(2)]])
qed

section \<open>DATAGRAM frames\<close>

text \<open>The reader when the callback for a datagram is called.\<close>

definition datagram_begun :: "dwnx_record_reader \<Rightarrow> nat \<Rightarrow> dwnx_frame_datagram \<Rightarrow> dwnx_record_reader" where
  "datagram_begun r m f =
     (begun r 1 (dgram_len f + m) (Fr_datagram (f\<lparr>dgram_data := []\<rparr>))
       (if dgram_len f = 0 then READ_STATE_DATAGRAM_LEN else READ_STATE_DATAGRAM_DATA))\<lparr>field_left := dgram_len f\<rparr>"

definition recv_datagram_frame ::
    "('a, 'u) dwnx_callbacks \<Rightarrow> ('a, 'u) dwnx_conn \<Rightarrow> dwnx_frame_datagram \<Rightarrow> ('a, 'u, unit) conn_res" where
  "recv_datagram_frame cb conn f =
     sbind (conn_recv_datagram cb conn True (dgram_len f) 0 (concat (dgram_data f))) (\<lambda>_ conn.
       SOk () (upd_rcrd (\<lambda>r. r\<lparr>record_left := record_left r - dgram_len f, field_left := 0\<rparr>) conn))"

lemma datagram_reads:
  assumes cb: "app_ok cb" and conn: "conn_ok conn" "conn_has conn CONN_FLAG_QX_TRANSPORT_PARAMETERS_SEEN"
    and r: "rr_state r = READ_STATE_FRAME_TYPE" "record_left r = length (datagram_wire f) + m"
    and f: "datagram_valid f" "dgram_type f = DWNX_FRAME_DATAGRAM_LEN"
    and max: "1 + uvlen (of_nat (dgram_len f)) + dgram_len f \<le> unat (max_datagram_frame_size (local_params conn))"
  shows "reads cb null t (at_reader conn r) (datagram_wire f) (recv_datagram_frame cb (at_reader conn (datagram_begun r m f)) f)"
proof -
  let ?len = "of_nat (dgram_len f) :: u64" and ?max = "max_datagram_frame_size (local_params conn)"
  let ?fr = "\<lparr>dgram_type = DWNX_FRAME_DATAGRAM_LEN, dgram_len = 0, dgram_data = []\<rparr>"
  let ?c = "at_reader conn (begun r 1 (uvlen ?len + (dgram_len f + m)) (Fr_datagram ?fr) READ_STATE_DATAGRAM_LEN)"
  have v: "?len \<le> DWNX_MAX_VARINT" "unat ?len = dgram_len f" and l: "dgram_len f = length (concat (dgram_data f))"
    and f': "f\<lparr>dgram_data := []\<rparr> = \<lparr>dgram_type = DWNX_FRAME_DATAGRAM_LEN, dgram_len = dgram_len f, dgram_data = []\<rparr>"
    using f of_nat_varint [of "dgram_len f"] by (simp_all add: datagram_valid_def)
  let ?d = "at_reader conn (datagram_begun r m f)"
  have sum: "unat (of_nat (Suc (uvlen ?len)) + ?len) = 1 + uvlen ?len + dgram_len f"
    using v(2) max unat_u64_le [of ?max] by (simp add: unat_word_ariths unat_of_nat)
  have big: "\<not> ?max < of_nat (Suc (uvlen ?len)) + ?len" "\<not> ?max \<le> of_nat 1"
  proof -
    have "1 < unat ?max" using max uvlen_pos [of ?len] by linarith
    then show "\<not> ?max \<le> of_nat 1" by (simp add: word_le_nat_alt)
    show "\<not> ?max < of_nat (Suc (uvlen ?len)) + ?len" using max sum by (simp only: word_less_nat_alt)
  qed
  have left: "record_left r = Suc (uvlen ?len + (dgram_len f + m))"
    using r(2) f(2) l by (simp add: datagram_wire_def)
  have ok: "conn_ok (at_reader conn (datagram_begun r m f))"
    using conn_ok_at_reader [OF conn, of "datagram_begun r m f"] by (simp add: datagram_begun_def)
  have kept: "rcrd d = datagram_begun r m f"
    if "conn_recv_datagram cb (at_reader conn (datagram_begun r m f)) True (dgram_len f) 0 (concat (dgram_data f)) = SOk x d" for x d
    using recv_datagram_safe [OF cb ok, of True "dgram_len f" 0 "concat (dgram_data f)"] that
    by (simp add: handled_def same_reader_def)
  have body: "reads cb null t ?c (uvbytes ?len @ concat (dgram_data f)) (recv_datagram_frame cb (at_reader conn (datagram_begun r m f)) f)"
  proof (cases "dgram_len f = 0")
    case True
    then have e: "concat (dgram_data f) = []" using l by (metis length_0_conv)
    have same: "upd_rcrd (field_left_update (\<lambda>_. 0)) d = d"
      if "conn_recv_datagram cb ?d True 0 0 [] = SOk x d" for x d
      using kept [unfolded True e, OF that] True by (simp add: upd_rcrd_def datagram_begun_def)
    have "recv_datagram_frame cb ?d f = conn_recv_datagram cb ?d True 0 0 []"
      unfolding recv_datagram_frame_def e True
      by (cases "conn_recv_datagram cb ?d True 0 0 []") (simp_all add: same)
    then have "conn_read_state cb null ?c t (uvbytes ?len @ p) = then_frame_done p (recv_datagram_frame cb ?d f)" for p
      using big v True
      by (simp add: conn_read_state_def read_datagram_len_def read_field_uv Let_def datagram_begun_def f')
    then have "reads cb null t ?c (uvbytes ?len) (recv_datagram_frame cb (at_reader conn (datagram_begun r m f)) f)"
      by (intro reads_done) simp_all
    then show ?thesis unfolding e by (simp only: append_Nil2)
  next
    case False
    have "conn_read_state cb null (at_reader conn (datagram_begun r m f)) t (concat (dgram_data f) @ p) =
        then_frame_done p (recv_datagram_frame cb (at_reader conn (datagram_begun r m f)) f)" for p
    proof -
      have avail: "dwnx_record_reader_field_avail (datagram_begun r m f) (length (concat (dgram_data f)) + length p) = length (concat (dgram_data f))"
        using l by (simp add: dwnx_record_reader_field_avail_def dwnx_record_reader_avail_def datagram_begun_def)
      have st: "rr_state (datagram_begun r m f) = READ_STATE_DATAGRAM_DATA" "field_left (datagram_begun r m f) = dgram_len f"
        "rr_fr (datagram_begun r m f) = Fr_datagram (f\<lparr>dgram_data := []\<rparr>)"
        using False by (simp_all add: datagram_begun_def)
      show ?thesis
        using kept l
        by (cases "conn_recv_datagram cb ?d True (dgram_len f) 0 (concat (dgram_data f))")
          (simp_all add: conn_read_state_def read_datagram_data_def Let_def then_frame_done_def recv_datagram_frame_def
            avail st upd_rcrd_def)
    qed
    moreover have "concat (dgram_data f) \<noteq> []" using False l by (metis length_0_conv)
    ultimately have data: "reads cb null t (at_reader conn (datagram_begun r m f)) (concat (dgram_data f))
        (recv_datagram_frame cb (at_reader conn (datagram_begun r m f)) f)"
      by (intro reads_done)
    show ?thesis
      by (rule reads_step [OF _ _ data])
        (use False big v f' in \<open>simp_all add: conn_read_state_def read_datagram_len_def read_field_uv Let_def datagram_begun_def\<close>)
  qed
  show ?thesis
    unfolding datagram_wire_def f(2)
    by (simp only: refl if_True, rule reads_cons [OF _ body])
      (use r(1) left conn(2) big in \<open>simp_all add: conn_read_state_def read_frame_type_def read_field_byte begin_frame_def Let_def begun_eq\<close>)
qed

section \<open>Whole records\<close>

text \<open>The frames that the library writes once the transport parameters have been exchanged; a datagram
  must be within the limit of the receiver.\<close>

definition accepts :: "('a, 'u) dwnx_conn \<Rightarrow> dwnx_frame \<Rightarrow> bool" where
  "accepts conn fr \<longleftrightarrow> frame_valid fr \<and>
     (case fr of
        Fr_qx_transport_parameters f \<Rightarrow> False
      | Fr_padding f \<Rightarrow> False
      | Fr_connection_close f \<Rightarrow> False
      | Fr_datagram f \<Rightarrow> dgram_type f = DWNX_FRAME_DATAGRAM_LEN \<and>
          1 + uvlen (of_nat (dgram_len f)) + dgram_len f \<le> unat (max_datagram_frame_size (local_params conn))
      | _ \<Rightarrow> True)"

definition recv_frame ::
    "('a, 'u) dwnx_callbacks \<Rightarrow> 'u \<Rightarrow> ('a, 'u) dwnx_conn \<Rightarrow> dwnx_frame \<Rightarrow> dwnx_tstamp \<Rightarrow> ('a, 'u, unit) conn_res" where
  "recv_frame cb null conn fr t =
     (case fr of
        Fr_qx_ping f \<Rightarrow> conn_recv_qx_ping conn f t
      | Fr_stream f \<Rightarrow> recv_stream_frame cb null conn f
      | Fr_reset_stream f \<Rightarrow> conn_recv_reset_stream cb null conn f
      | Fr_stop_sending f \<Rightarrow> conn_recv_stop_sending cb null conn f t
      | Fr_max_data f \<Rightarrow> conn_recv_max_data conn f
      | Fr_max_stream_data f \<Rightarrow> conn_recv_max_stream_data cb null conn f t
      | Fr_max_streams f \<Rightarrow> conn_recv_max_streams cb conn f
      | Fr_data_blocked f \<Rightarrow> conn_recv_data_blocked conn f
      | Fr_stream_data_blocked f \<Rightarrow> conn_recv_stream_data_blocked conn f
      | Fr_streams_blocked f \<Rightarrow> conn_recv_streams_blocked conn f
      | Fr_datagram f \<Rightarrow> recv_datagram_frame cb conn f
      | _ \<Rightarrow> SAbort)"

text \<open>The reader when the handler of a frame is called; \<open>m\<close> bytes of the record follow the frame.\<close>

definition begun_frame :: "dwnx_record_reader \<Rightarrow> nat \<Rightarrow> dwnx_frame \<Rightarrow> dwnx_record_reader" where
  "begun_frame r m fr =
     (case fr of
        Fr_qx_ping f \<Rightarrow> begun r (uvlen (ping_type f)) m fr READ_STATE_QX_PING_SEQ
      | Fr_stream f \<Rightarrow> stream_begun r m f
      | Fr_datagram f \<Rightarrow> datagram_begun r m f
      | _ \<Rightarrow> begun r 1 m fr (last_state fr))"

lemma frame_reads:
  assumes cb: "app_ok cb" and conn: "conn_ok conn" "conn_has conn CONN_FLAG_QX_TRANSPORT_PARAMETERS_SEEN"
    and r: "rr_state r = READ_STATE_FRAME_TYPE" "record_left r = length (frame_wire fr) + m" and fr: "accepts conn fr"
  shows "reads cb null t (at_reader conn r) (frame_wire fr) (recv_frame cb null (at_reader conn (begun_frame r m fr)) fr t)"
proof (cases fr)
  case (Fr_stream f)
  then show ?thesis
    using stream_reads [OF cb conn r(1), of f m] r(2) fr
    by (simp add: accepts_def frame_valid_def frame_wire_def recv_frame_def begun_frame_def)
next
  case (Fr_datagram f)
  then show ?thesis
    using datagram_reads [OF cb conn r(1), of f m] r(2) fr
    by (simp add: accepts_def frame_valid_def frame_wire_def recv_frame_def begun_frame_def)
next
  case (Fr_qx_ping f)
  then show ?thesis
    using qx_ping_reads [OF r(1) _ conn(2), of f m] r(2) fr
    by (auto simp: accepts_def frame_valid_def frame_wire_def recv_frame_def begun_frame_def)
next
  case (Fr_max_streams f)
  then show ?thesis
    using max_streams_reads [OF r(1) _ conn(2), of f m] r(2) fr
    by (auto simp: accepts_def frame_valid_def frame_wire_def recv_frame_def begun_frame_def)
next
  case (Fr_streams_blocked f)
  then show ?thesis
    using streams_blocked_reads [OF r(1) _ conn(2), of f m] r(2) fr
    by (auto simp: accepts_def frame_valid_def frame_wire_def recv_frame_def begun_frame_def)
qed (use r fr conn(2) in \<open>simp_all add: accepts_def frame_valid_def frame_wire_def recv_frame_def begun_frame_def
      max_data_reads data_blocked_reads reset_stream_reads stop_sending_reads max_stream_data_reads stream_data_blocked_reads
      del: One_nat_def\<close>)

text \<open>What a handler leaves of the reader.\<close>

definition frame_handled :: "('a, 'u) dwnx_conn \<Rightarrow> nat \<Rightarrow> ('a, 'u) dwnx_conn \<Rightarrow> bool" where
  "frame_handled c m d \<longleftrightarrow>
     conn_ok d \<and> vird d = vird c \<and> conn_flags d = conn_flags c \<and> local_params d = local_params c \<and>
     last_ts d = last_ts c \<and> record_left (rcrd d) = m"

lemma handled_frame: "handled c d \<Longrightarrow> record_left (rcrd c) = m \<Longrightarrow> frame_handled c m d"
  by (simp add: handled_def same_reader_def frame_handled_def)

lemma frame_handled_from:
  "handled c d \<Longrightarrow> frame_handled (set_state st d) m e \<Longrightarrow> frame_handled c m e"
  by (simp add: frame_handled_def handled_def same_reader_def upd_rcrd_def)

lemma frame_handled_safe: "safe r (\<lambda>_. handled c) \<Longrightarrow> record_left (rcrd c) = m \<Longrightarrow> safe r (\<lambda>_. frame_handled c m)"
  by (erule safe_mono) (rule handled_frame)

lemma frame_handled_upd:
  assumes "handled c d" and "record_left (f (rcrd c)) = m" and "rr_state (f (rcrd c)) = rr_state (rcrd c)"
  shows "frame_handled c m (upd_rcrd f d)"
proof -
  have "params_pending (d\<lparr>vird := vird d, rcrd := f (rcrd d)\<rparr>) \<Longrightarrow> params_pending d"
    using assms(1,3) by (simp add: params_pending_def handled_def same_reader_def)
  then have "conn_ok (upd_rcrd f d)"
    unfolding upd_rcrd_eq using assms(1) by (intro conn_ok_reader) (simp_all add: handled_def)
  then show ?thesis using assms by (simp add: handled_def same_reader_def frame_handled_def upd_rcrd_def)
qed

lemma recv_stream_frame_safe:
  assumes cb: "app_ok cb" and conn: "conn_ok c" "\<not> params_pending c" and f: "stream_valid f"
    and r: "rcrd c = stream_begun r m f" and seen: "conn_has c CONN_FLAG_QX_TRANSPORT_PARAMETERS_SEEN"
  shows "safe (recv_stream_frame cb null c f) (\<lambda>_. frame_handled c m)"
proof -
  have hdr: "0 \<le> stream_stream_id (stream_header f)" "stream_stream_id (stream_header f) < 2 ^ 62" "stream_len (stream_header f) < 2 ^ 62"
    using f by (simp_all add: stream_valid_def stream_id_valid_def stream_header_def)
  have left: "record_left (rcrd c) = stream_len f + m" using r by (simp add: stream_begun_def)
  have data: "safe (sbind (recv_data cb (set_state READ_STATE_STREAM_DATA d) f) (\<lambda>_ conn.
      SOk () (upd_rcrd (\<lambda>r. r\<lparr>record_left := record_left r - stream_len f, field_left := 0\<rparr>) conn))) (\<lambda>_. frame_handled c m)"
    if d: "handled c d" "receiving d (stream_stream_id f) (stream_len f)" for d
  proof -
    let ?d = "set_state READ_STATE_STREAM_DATA d"
    obtain p s where p: "map_abs (strms d) (u64_of_i64 (stream_stream_id f)) = Some p" "strm_store d p = Some s"
      using d(2) by (auto simp: receiving_def)
    have "conn_ok ?d"
      unfolding upd_rcrd_eq
      by (rule conn_ok_reader) (use d(1) seen in \<open>auto simp: handled_def params_pending_def same_reader_def conn_has_def\<close>)
    moreover from this have "dwnx_conn_find_stream ?d (stream_stream_id f) = SOk (Some p) ?d"
      using find_stream_wp [OF conn_okD(1), of ?d "stream_stream_id f"] p(1) by (simp add: upd_rcrd_def)
    moreover have "strm_store ?d p = Some s" using p(2) by (simp add: upd_rcrd_def)
    ultimately have "safe (recv_data cb ?d f) (\<lambda>_. handled ?d)"
      using safe_mono [OF recv_stream_data_safe [OF cb, of ?d p], where Q = "\<lambda>_. handled ?d"]
      by (auto simp: recv_data_def with_strm_def)
    then show ?thesis
    proof (simp only: wp_sbind wp_SOk, elim wp_mono, goal_cases)
      case (1 x e)
      have "frame_handled ?d m (upd_rcrd (\<lambda>r. r\<lparr>record_left := record_left r - stream_len f, field_left := 0\<rparr>) e)"
        by (rule frame_handled_upd [OF 1(2)]) (use d(1) left in \<open>simp_all add: upd_rcrd_def handled_def same_reader_def\<close>)
      then show ?case by (rule frame_handled_from [OF d(1)])
    qed
  qed
  show ?thesis
    unfolding recv_stream_frame_def wp_sbind
    by (rule safe_mono [OF recv_stream_safe [OF cb conn hdr]])
      (use data left in \<open>auto simp: stream_header_def simp del: wp_sbind intro: handled_frame\<close>)
qed

lemma recv_frame_safe:
  fixes r :: dwnx_record_reader and m :: nat
  assumes cb: "app_ok cb" and conn: "conn_ok conn" "conn_has conn CONN_FLAG_QX_TRANSPORT_PARAMETERS_SEEN"
    and fr: "accepts conn fr" and t: "t = last_ts conn"
  defines "c \<equiv> at_reader conn (begun_frame r m fr)"
  shows "safe (recv_frame cb null c fr t) (\<lambda>_. frame_handled c m)"
proof -
  have ok: "conn_ok c" "\<not> params_pending c" and ts: "t = last_ts c"
    using conn_ok_at_reader [OF conn, of "begun_frame r m fr"] t
    by (cases fr; simp add: c_def begun_frame_def stream_begun_def datagram_begun_def at_reader_def)+
  have left: "record_left (rcrd c) = m"
    if "\<nexists>f. fr = Fr_stream f" "\<nexists>f. fr = Fr_datagram f"
    using that by (cases fr) (simp_all add: c_def begun_frame_def)
  show ?thesis
  proof (cases fr)
    case (Fr_stream f)
    then show ?thesis
      using recv_stream_frame_safe [OF cb ok, of f r m null] fr conn(2)
      by (simp add: recv_frame_def accepts_def frame_valid_def c_def begun_frame_def)
  next
    case (Fr_datagram f)
    have "safe (conn_recv_datagram cb c True (dgram_len f) 0 (concat (dgram_data f))) (\<lambda>_. handled c)"
      by (rule recv_datagram_safe [OF cb ok(1)])
    then show ?thesis
      using Fr_datagram unfolding recv_frame_def dwnx_frame.case recv_datagram_frame_def
    proof (simp only: wp_sbind wp_SOk dwnx_frame.case, elim wp_mono, goal_cases)
      case (1 x d)
      then show ?case
        by (intro frame_handled_upd) (simp_all add: c_def begun_frame_def datagram_begun_def)
    qed
  qed (use fr ok left ts in \<open>auto simp: recv_frame_def accepts_def frame_valid_def stream_id_valid_def reset_stream_valid_def
      stop_sending_valid_def max_data_valid_def max_stream_data_valid_def stream_data_blocked_valid_def qx_ping_valid_def
      intro!: frame_handled_safe recv_ping_safe recv_reset_stream_safe recv_stop_sending_safe recv_max_data_safe recv_max_stream_data_safe
        recv_max_streams_safe recv_blocked_safe recv_stream_data_blocked_safe cb\<close>)
qed

end
