(* ===== verification/ConnFrameSeq.thy ===== *)
theory ConnFrameSeq
  imports ConnFrames
begin

text \<open>
  Whole records: when the bytes of a record are the encoding of a list of frames, \<open>dwnx_conn_read\<close>
  runs the handlers of these frames one after the other.
\<close>

section \<open>The specification\<close>

fun recv_frames ::
    "('a, 'u) dwnx_callbacks \<Rightarrow> 'u \<Rightarrow> ('a, 'u) dwnx_conn \<Rightarrow> dwnx_frame list \<Rightarrow> dwnx_tstamp \<Rightarrow> ('a, 'u, unit) conn_res" where
  "recv_frames cb null conn [] t = SOk () conn"
| "recv_frames cb null conn (fr # frs) t =
     sbind (recv_frame cb null
         (conn\<lparr>rcrd := begun_frame (rcrd conn) (record_left (rcrd conn) - length (frame_wire fr)) fr\<rparr>) fr t)
       (\<lambda>_ conn. recv_frames cb null (frame_done conn t) frs t)"

abbreviation payload :: "dwnx_frame list \<Rightarrow> bytes" where
  "payload frs \<equiv> concat (map frame_wire frs)"

text \<open>The connection after the length of a record has been read.\<close>

definition record_begun :: "('a, 'u) dwnx_conn \<Rightarrow> nat \<Rightarrow> dwnx_tstamp \<Rightarrow> ('a, 'u) dwnx_conn" where
  "record_begun conn n t =
     conn\<lparr>last_ts := t, rcrd := (rcrd conn)\<lparr>record_left := n, rr_state := READ_STATE_FRAME_TYPE\<rparr>\<rparr>"

section \<open>Between two frames\<close>

definition between_frames :: "dwnx_tstamp \<Rightarrow> nat \<Rightarrow> ('a, 'u) dwnx_conn \<Rightarrow> bool" where
  "between_frames t m conn \<longleftrightarrow>
     conn_ok conn \<and> vird conn = dwnx_varint_reader_reset \<and> conn_has conn CONN_FLAG_QX_TRANSPORT_PARAMETERS_SEEN \<and>
     last_ts conn = t \<and> record_left (rcrd conn) = m \<and> (0 < m \<longrightarrow> rr_state (rcrd conn) = READ_STATE_FRAME_TYPE)"

lemma frame_wire_nonempty: "accepts conn fr \<Longrightarrow> frame_wire fr \<noteq> []"
  by (cases fr)
    (auto simp: accepts_def frame_wire_def qx_ping_wire_def stream_wire_def reset_stream_wire_def stop_sending_wire_def
      max_data_wire_def max_stream_data_wire_def max_streams_wire_def data_blocked_wire_def stream_data_blocked_wire_def
      streams_blocked_wire_def datagram_wire_def)

lemma accepts_params: "local_params c = local_params d \<Longrightarrow> accepts c fr = accepts d fr"
  by (cases fr) (simp_all add: accepts_def)

lemma between_frame_done:
  assumes d: "frame_handled (at_reader conn r) m d" and conn: "between_frames t n conn"
    and m: "m \<le> DWNX_DEFAULT_MAX_RECORD_SIZE"
  shows "between_frames t m (frame_done d t)" and "local_params (frame_done d t) = local_params conn"
proof -
  have f: "frame_read t d"
    using assms by (simp add: frame_handled_def frame_read_def between_frames_def conn_has_def at_reader_def vird_ok_reset)
  have ok: "conn_ok (frame_done d t)" using frame_done_ok [OF f] by (simp add: read_ok_def)
  show "between_frames t m (frame_done d t)"
    using d conn ok
    by (auto simp: between_frames_def frame_handled_def frame_done_def Let_def conn_has_def at_reader_def upd_rcrd_def
        dwnx_record_reader_reset_def record_reader_next_frame_def)
  show "local_params (frame_done d t) = local_params conn"
    using d by (simp add: frame_handled_def frame_done_def Let_def at_reader_def upd_rcrd_def)
qed

lemma frames_loop:
  assumes cb: "app_ok cb" and conn: "between_frames t (length (concat (map frame_wire frs))) conn"
    and frs: "\<forall>fr \<in> set frs. accepts conn fr" and len: "length (concat (map frame_wire frs)) \<le> DWNX_DEFAULT_MAX_RECORD_SIZE"
    and n: "length (concat (map frame_wire frs)) < n"
  shows "conn_read_loop n cb null conn t (concat (map frame_wire frs)) = recv_frames cb null conn frs t"
  using conn frs len n
proof (induction frs arbitrary: conn n)
  case (Cons fr frs)
  let ?p = "concat (map frame_wire frs)" and ?r = "rcrd conn"
  have fr: "accepts conn fr" using Cons.prems(2) by simp
  have r: "rr_state ?r = READ_STATE_FRAME_TYPE" "record_left ?r = length (frame_wire fr) + length ?p"
    and c: "conn_ok conn" "conn_has conn CONN_FLAG_QX_TRANSPORT_PARAMETERS_SEEN" "t = last_ts conn"
    and at: "at_reader conn ?r = conn" "conn\<lparr>rcrd := r\<rparr> = at_reader conn r" for r
    using Cons.prems(1) frame_wire_nonempty [OF fr] by (auto simp: between_frames_def at_reader_def)
  obtain k where k: "k \<le> length (frame_wire fr)"
    "\<And>n p. conn_read_loop (k + n) cb null conn t (frame_wire fr @ p) =
      sbind (recv_frame cb null (at_reader conn (begun_frame ?r (length ?p) fr)) fr t)
        (\<lambda>_ c. conn_read_loop n cb null (frame_done c t) t p)"
    using frame_reads [OF cb c(1,2) r fr, of null t] unfolding reads_def at by blast
  define n' where "n' = n - k"
  have n: "n = k + n'" "length ?p < n'" using Cons.prems(4) k(1) by (simp_all add: n'_def)
  have head: "recv_frames cb null conn (fr # frs) t =
      sbind (recv_frame cb null (at_reader conn (begun_frame ?r (length ?p) fr)) fr t)
        (\<lambda>_ c. recv_frames cb null (frame_done c t) frs t)"
    using r(2) by (simp add: at)
  have safe: "safe (recv_frame cb null (at_reader conn (begun_frame ?r (length ?p) fr)) fr t)
      (\<lambda>_. frame_handled (at_reader conn (begun_frame ?r (length ?p) fr)) (length ?p))"
    by (rule recv_frame_safe [OF cb c(1,2) fr c(3)])
  have tail: "conn_read_loop n' cb null (frame_done d t) t ?p = recv_frames cb null (frame_done d t) frs t"
    if "frame_handled (at_reader conn (begun_frame ?r (length ?p) fr)) (length ?p) d" for d
  proof -
    note b = between_frame_done [OF that Cons.prems(1)]
    show ?thesis
      by (rule Cons.IH) (use b n(2) Cons.prems(2,3) accepts_params [OF b(2)] in auto)
  qed
  show ?case
    unfolding head n(1) list.map concat.simps k(2)
    using safe tail by (cases "recv_frame cb null (at_reader conn (begun_frame ?r (length ?p) fr)) fr t") simp_all
next
  case Nil
  then show ?case by (cases n) simp_all
qed

section \<open>The length of a record\<close>

lemma record_size_step:
  assumes conn: "conn_ok conn" "vird conn = dwnx_varint_reader_reset" "rr_state (rcrd conn) = READ_STATE_RECORD_SIZE"
    and data: "dwnx_get_uvarint data = Ok (of_nat (length p), p)"
    and len: "p \<noteq> []" "length p \<le> DWNX_DEFAULT_MAX_RECORD_SIZE"
  shows "conn_read_state cb null conn t data = SOk (Read_next p)
    (conn\<lparr>rcrd := (rcrd conn)\<lparr>record_left := length p, rr_state := READ_STATE_FRAME_TYPE\<rparr>\<rparr>)" and "length p < length data"
proof -
  have v: "vext data < length data" by (rule get_uvarint_Ok [OF data])
  then have e: "uvvalue (take (Suc (vext data)) data) = of_nat (length p)" "drop (Suc (vext data)) data = p" and ne: "data \<noteq> []"
    using data by (auto simp: get_uvarint_eq)
  have max: "max_record_size (local_params conn) = of_nat DWNX_DEFAULT_MAX_RECORD_SIZE"
    using conn_okD(5) [OF conn(1)] by (simp add: params_ok_def)
  have u: "unat (of_nat (length p) :: u64) = length p"
    using len(2) by (simp add: unat_of_nat DWNX_DEFAULT_MAX_RECORD_SIZE_def)
  then have "\<not> of_nat DWNX_DEFAULT_MAX_RECORD_SIZE < (of_nat (length p) :: u64)" "(of_nat (length p) :: u64) \<noteq> 0"
    using len by (auto simp: word_less_nat_alt DWNX_DEFAULT_MAX_RECORD_SIZE_def unat_eq_0 simp flip: unat_0_iff)
  then show "conn_read_state cb null conn t data = SOk (Read_next p)
      (conn\<lparr>rcrd := (rcrd conn)\<lparr>record_left := length p, rr_state := READ_STATE_FRAME_TYPE\<rparr>\<rparr>)"
    using conn(2,3) v e u max
    by (simp add: conn_read_state_def read_record_size_def varint_reader_first [OF ne] Let_def upd_rcrd_def dwnx_varint_reader_done_def)
  show "length p < length data" using e(2) ne by (auto simp flip: e(2))
qed

section \<open>Properties\<close>



end
