(* ===== verification/Spec2Isabelle.thy ===== *)
theory Spec2Isabelle
  imports Err FrameDispatch Qre RecordReader Ratelim Strm HashMap Pq Gaptr KslGap ConnFrameSeq
begin

text \<open>
  A verification library for \<open>dwnx\<close>, a C library for QUIC on streams: the frames of QUIC are sent in
  length-prefixed records over a reliable byte stream instead of in packets. Paths are relative to \<open>src/\<close>.

  \<^bold>\<open>The program.\<close> The centre is the connection (\<open>lib/dwnx_conn.c\<close>). Bytes from the peer go into
  \<open>dwnx_conn_read\<close>, a state machine that takes records apart byte by byte with the record reader
  (\<open>dwnx_record_reader.c\<close>) and the frame decoders (\<open>dwnx_frame.c\<close>) and calls one handler per frame.
  The handlers change streams, limits and trackers and call the application back. Bytes for the peer
  come out of \<open>dwnx_conn_writev_stream\<close> and \<open>dwnx_conn_writev_datagram\<close>: a record is begun with the record encoder
  (\<open>dwnx_qre.c\<close>), the frames of the streams that wait in a priority queue (\<open>dwnx_pq.c\<close>) are put in, then the
  data of the application. Streams are found by ID in a hash map (\<open>dwnx_map.c\<close>); the IDs that the peer
  has used are kept in the stream ID tracker (\<open>dwnx_idtr.c\<close>), a gap tracker (\<open>dwnx_gaptr.c\<close>) on an ordered map
  (\<open>dwnx_ksl.c\<close>); frames that a peer may send without need are limited by a token bucket (\<open>dwnx_ratelim.c\<close>).

  \<^bold>\<open>How C is modelled.\<close> A \<open>uint64_t\<close> is a \<open>64 word\<close>, which wraps around; an \<open>int64_t\<close> is an \<open>int\<close> with the casts written
  out; a \<open>size_t\<close> that counts bytes of a buffer is a \<open>nat\<close>. Structs are records, a pointer into a buffer is the
  bytes from there on. A failed assertion, \<open>dwnx_unreachable\<close>, an access outside a buffer or to a freed stream is
  \<open>Abort\<close> or \<open>SAbort\<close>; an error return is \<open>Err\<close> or \<open>SErr\<close>, with the state at that return, as the code
  returns errors after it has changed its arguments. Whether an allocation succeeds is an input: \<open>dwnx_mem\<close>
  is the list of the outcomes still to come. The streams are in a store from addresses to streams, so that aliasing
  between the hash map, the queue and the handlers is as in the code.

  \<^bold>\<open>Theories and sources.\<close>
  \<^item> \<open>Prelude\<close>, \<open>Wp\<close>: integers, results, allocation; weakest preconditions for functions with a state.
  \<^item> \<open>Conv\<close> (\<open>dwnx_conv.c\<close>), \<open>Err\<close> (\<open>dwnx_err.c\<close>), \<open>Vec\<close> (\<open>dwnx_vec.c\<close>), \<open>Buf\<close> (\<open>dwnx_buf.c\<close>).
  \<^item> \<open>TransportParams\<close> (\<open>dwnx_transport_params.c\<close>).
  \<^item> \<open>Frame\<close> (\<open>dwnx_frame.c\<close>): the frames, an encoder and a decoder for each. \<open>FrameCodec\<close> has the contract of an encoder and a
    decoder as the locale \<open>frame_codec\<close>, and an interpretation for each kind of frame; \<open>FrameDispatch\<close> puts them
    together to the codec of the whole union, which is another interpretation of the same locale.
  \<^item> \<open>Qre\<close> (\<open>dwnx_qre.c\<close>) and \<open>RecordReader\<close> (\<open>dwnx_record_reader.c\<close>): records.
  \<^item> \<open>Ratelim\<close> (\<open>dwnx_ratelim.c\<close>), \<open>Strm\<close> (\<open>dwnx_strm.c\<close>).
  \<^item> \<open>HashMap\<close> (\<open>dwnx_map.c\<close>): the slots of the table. The locale \<open>key_map\<close> is what clients rely on, interpreted on
    the table with the invariant of Robin Hood probing.
  \<^item> \<open>Pq\<close> (\<open>dwnx_pq.c\<close>): the heap with the position that every entry keeps of itself. The locale \<open>entry_order\<close> is what the
    comparison has to satisfy; \<open>ConnQueue\<close> interprets it on \<open>cycle_less\<close>, which is an order only on entries whose cycles
    are close together, as those of the queue are.
  \<^item> \<open>Ksl\<close>, \<open>KslInv\<close>, \<open>KslInsert\<close>, \<open>KslRemove\<close>, \<open>KslFind\<close>, \<open>KslMap\<close>, \<open>KslApi\<close> (\<open>dwnx_ksl.c\<close>): the tree of blocks, its invariant,
    and each operation as an operation on the ordered list of the elements. The locale \<open>ksl_order\<close> is the contract of a
    comparison, interpreted on the three that the sources have.
  \<^item> \<open>Gaptr\<close> (\<open>dwnx_range.c\<close>, \<open>dwnx_gaptr.c\<close>, \<open>dwnx_idtr.c\<close>): the trackers, with the ordered map given by the list of its keys.
    \<open>KslGap\<close>: the gap tracker with the calls of \<open>dwnx_ksl.c\<close> that the code makes, and that both run alike.
  \<^item> \<open>Conn\<close>, \<open>ConnRecv\<close>, \<open>ConnRead\<close>, \<open>ConnWrite\<close>, \<open>ConnApi\<close> (\<open>dwnx_conn.c\<close>): the definitions of the connection: its state, the
    handlers of frames, the reader (one definition for each case of its switch), the writers, and timers, closing
    and 0-RTT.
  \<^item> \<open>ConnQueue\<close>, \<open>ConnInv\<close>, \<open>ConnApp\<close>, \<open>ConnFrames\<close>, \<open>ConnSafe\<close>, \<open>ConnReader\<close>, \<open>ConnWriter\<close>, \<open>ConnRecord\<close>, \<open>ConnRun\<close>: the invariant
    of the connection, and that everything that can be called keeps it. \<open>ConnProps\<close>, \<open>ConnCalls\<close>, \<open>ConnFrameSeq\<close>: the properties
    of the connection.

  \<^bold>\<open>What the lemmas show.\<close>
  \<^item> Codecs: what is written reads back, whatever follows; the announced lengths are the real ones; a decoder never reads
    outside its input, and what it accepts is in range; bytes that arrive in pieces are read as if in one.
  \<^item> Containers: hash table, heap, ordered map and gap tracker refine a finite map, a set with a least element, an
    ordered list and a set of numbers. That includes failed allocations and duplicate keys.
  \<^item> Rate limiter: it refines an unbounded token bucket, and bounds what is granted over any run.
  \<^item> Connection: every connection that can be reached from a new one (\<open>reachable\<close>) satisfies the invariant, no call that the library
    allows aborts there, and all loops end; offsets stay within the limits of flow control; a record is read as the
    sequence of its frames; the queue of streams is drained; a closed connection stays closed.

  \<^bold>\<open>Loops.\<close> A loop that is not a recursion on its data carries a number of rounds, and running out of it is an abort. That the number is
  enough is part of the results that exclude an abort. In the hash table it is the number of slots,
  as a walk passes each slot at most once before a free one; in the gap tracker it is one more than the number of gaps, as each round
  leaves one gap fewer to look at; in \<open>conn_read_loop\<close> it is one more than the number of bytes, as each round takes a byte; in
  \<open>write_strmq\<close> any number above the length of the queue, as each round takes a stream off it.

  \<^bold>\<open>Assumptions.\<close> The callbacks are a parameter: a callback may update the connection and return a number. \<open>app_ok\<close> says
  that it does so by calls of the library that are allowed there (\<open>app_step\<close>) or on its own data only;
  \<open>quiet_app\<close> adds, for the two callbacks that run inside the loop over the queue, that they leave the queue alone. Error
  codes of the application are at most \<open>DWNX_MAX_VARINT\<close>, and the time does not go back. The memory that the transport parameters and settings come from
  is not modelled, only their values.

  \<^bold>\<open>Not modelled.\<close>
  \<^item> The allocators (\<open>dwnx_mem.c\<close>, \<open>dwnx_balloc.c\<close>, \<open>dwnx_objalloc.c\<close>, \<open>dwnx_opl.c\<close>) and functions that only release memory (\<open>dwnx_conn_del\<close>, \<open>dwnx_map_free\<close>,
    \<open>dwnx_pq_free\<close>, \<open>dwnx_ksl_free\<close>): objects of the model are values, of which only the lifetime of streams is visible.
  \<^item> The log and its formatting (\<open>dwnx_log.c\<close>, \<open>dwnx_fmt.h\<close>, \<open>dwnx_str.c\<close>) and the debugging prints of the containers: nothing depends on their output.
  \<^item> \<open>dwnx_macro.h\<close>, \<open>dwnx_net.h\<close> and \<open>dwnx_unreachable.c\<close> have no definitions of their own; they are written out where they are used.
  \<^item> \<open>examples/\<close>, \<open>tests/\<close>, \<open>fuzz/\<close>: programs that use the library. They are I/O, TLS and event loops of other libraries. \<open>third-party/\<close>: code of others.
\<close>

end
